(* ===== verification/Prelude.thy ===== *)
theory Prelude
  imports Main "HOL-Library.Word" "HOL-Library.Monad_Syntax"
begin

text \<open>
  What the components share: bytes, flat byte memories with little-endian loads and
  stores, C strings in such a memory, and the list lemmas the component proofs use.

  Every array the programs treat as raw memory (the data region of fisopfs, the heap that
  malloc carves out of its mappings, the buffers of the JOS string routines) is a
  function from addresses to bytes. A struct that lives in such an array is read and
  written field by field at its byte offsets, so aliasing and overlap are those of the
  code. Executions that leave the defined behaviour of C (a null dereference, an access
  outside an array, a failed assertion, a panic) are the value \<open>None\<close> of an option.
\<close>

unbundle bit_operations_syntax

named_theorems mem_simps \<open>reads over writes of a byte memory\<close>

type_synonym byte = "8 word"
type_synonym mem = "nat \<Rightarrow> byte"

section \<open>Blocks of bytes\<close>

definition load_bytes :: "mem \<Rightarrow> nat \<Rightarrow> nat \<Rightarrow> byte list" where
  "load_bytes m a n = map m [a..<a + n]"

definition store_bytes :: "mem \<Rightarrow> nat \<Rightarrow> byte list \<Rightarrow> mem" where
  "store_bytes m a bs = (\<lambda>i. if a \<le> i \<and> i < a + length bs then bs ! (i - a) else m i)"

lemma length_load_bytes [simp]: "length (load_bytes m a n) = n"
  by (simp add: load_bytes_def)

lemma nth_load_bytes [simp]: "i < n \<Longrightarrow> load_bytes m a n ! i = m (a + i)"
  by (simp add: load_bytes_def)

lemma load_bytes_0 [simp]: "load_bytes m a 0 = []"
  by (simp add: load_bytes_def)

lemma load_bytes_Suc: "load_bytes m a (Suc n) = m a # load_bytes m (Suc a) n"
  by (simp add: load_bytes_def upt_conv_Cons del: upt_Suc)

lemma load_bytes_add: "load_bytes m a (n + k) = load_bytes m a n @ load_bytes m (a + n) k"
  by (rule nth_equalityI) (auto simp: nth_append)

lemma take_load_bytes: "k \<le> n \<Longrightarrow> take k (load_bytes m a n) = load_bytes m a k"
  by (rule nth_equalityI) auto

lemma drop_load_bytes: "k \<le> n \<Longrightarrow> drop k (load_bytes m a n) = load_bytes m (a + k) (n - k)"
  by (rule nth_equalityI) (auto simp: add.assoc)

lemma store_bytes_Nil [simp]: "store_bytes m a [] = m"
  by (rule ext) (auto simp: store_bytes_def)

lemma store_bytes_out [mem_simps]:
  "i < a \<or> a + length bs \<le> i \<Longrightarrow> store_bytes m a bs i = m i"
  by (auto simp: store_bytes_def)

lemma store_bytes_in [mem_simps]:
  "i < length bs \<Longrightarrow> store_bytes m a bs (a + i) = bs ! i"
  by (simp add: store_bytes_def)

lemma load_store_bytes_same [mem_simps]:
  "n = length bs \<Longrightarrow> load_bytes (store_bytes m a bs) a n = bs"
  by (rule nth_equalityI) (auto simp: store_bytes_def)

lemma load_store_bytes_disj [mem_simps]:
  "a + length bs \<le> b \<or> b + n \<le> a \<Longrightarrow> load_bytes (store_bytes m a bs) b n = load_bytes m b n"
  by (rule nth_equalityI) (auto simp: store_bytes_def)

lemma load_bytes_cong:
  "(\<And>i. i < n \<Longrightarrow> m (a + i) = m' (b + i)) \<Longrightarrow> load_bytes m a n = load_bytes m' b n"
  by (rule nth_equalityI) auto

section \<open>Little-endian numbers\<close>

text \<open>The \<open>k\<close> low bytes of \<open>v\<close>, least significant first, as x86 stores them.\<close>

fun le_bytes :: "nat \<Rightarrow> nat \<Rightarrow> byte list" where
  "le_bytes 0 v = []"
| "le_bytes (Suc k) v = of_nat (v mod 256) # le_bytes k (v div 256)"

fun le_val :: "byte list \<Rightarrow> nat" where
  "le_val [] = 0"
| "le_val (b # bs) = unat b + 256 * le_val bs"

lemma length_le_bytes [simp]: "length (le_bytes k v) = k"
  by (induction k arbitrary: v) auto

lemma unat_byte_mod [simp]: "unat (of_nat (v mod 256) :: byte) = v mod 256"
  by (simp add: unat_of_nat)

lemma le_val_le_bytes: "le_val (le_bytes k v) = v mod 256 ^ k"
  by (induction k arbitrary: v) (auto simp: mod_mult2_eq)

definition load_le :: "nat \<Rightarrow> mem \<Rightarrow> nat \<Rightarrow> nat" where
  "load_le k m a = le_val (load_bytes m a k)"

definition store_le :: "nat \<Rightarrow> mem \<Rightarrow> nat \<Rightarrow> nat \<Rightarrow> mem" where
  "store_le k m a v = store_bytes m a (le_bytes k v)"

lemma load_store_le_same [mem_simps]:
  "v < 256 ^ k \<Longrightarrow> load_le k (store_le k m a v) a = v"
  by (simp add: load_le_def store_le_def mem_simps le_val_le_bytes)

lemma load_store_le_disj [mem_simps]:
  "a + k \<le> b \<or> b + j \<le> a \<Longrightarrow> load_le j (store_le k m a v) b = load_le j m b"
  by (auto simp: load_le_def store_le_def load_store_bytes_disj)

lemma load_le_store_bytes_disj [mem_simps]:
  "a + length bs \<le> b \<or> b + j \<le> a \<Longrightarrow> load_le j (store_bytes m a bs) b = load_le j m b"
  by (auto simp: load_le_def load_store_bytes_disj)

lemma load_bytes_store_le_disj [mem_simps]:
  "a + k \<le> b \<or> b + n \<le> a \<Longrightarrow> load_bytes (store_le k m a v) b n = load_bytes m b n"
  by (auto simp: store_le_def load_store_bytes_disj)

lemma store_le_out [mem_simps]:
  "i < a \<or> a + k \<le> i \<Longrightarrow> store_le k m a v i = m i"
  by (auto simp: store_le_def store_bytes_def)

lemma load_le_cong:
  "(\<And>i. i < k \<Longrightarrow> m (a + i) = m' (b + i)) \<Longrightarrow> load_le k m a = load_le k m' b"
  unfolding load_le_def by (rule arg_cong [of _ _ le_val], rule load_bytes_cong) simp

lemma le_val_bound: "le_val bs < 256 ^ length bs"
proof (induction bs)
  case (Cons b bs)
  have "unat b < 2 ^ 8" using unsigned_less [of b] by simp
  then have "unat b + 256 * le_val bs < 256 + 256 * (256 ^ length bs - 1)"
    using Cons by simp
  also have "\<dots> = 256 * 256 ^ length bs"
    by (simp add: algebra_simps diff_mult_distrib2)
  finally show ?case by simp
qed simp

lemma load_le_bound: "load_le k m a < 256 ^ k"
  using le_val_bound [of "load_bytes m a k"] by (simp add: load_le_def)

section \<open>C strings\<close>

text \<open>
  \<open>cstr n m a\<close> is the string that starts at \<open>a\<close>, read up to its terminating zero but
  at most \<open>n\<close> bytes; \<open>is_cstr m a s\<close> says that \<open>s\<close> is stored at \<open>a\<close> with its
  terminator.
\<close>

fun cstr :: "nat \<Rightarrow> mem \<Rightarrow> nat \<Rightarrow> byte list" where
  "cstr 0 m a = []"
| "cstr (Suc n) m a = (if m a = 0 then [] else m a # cstr n m (Suc a))"

definition is_cstr :: "mem \<Rightarrow> nat \<Rightarrow> byte list \<Rightarrow> bool" where
  "is_cstr m a s \<longleftrightarrow> load_bytes m a (length s + 1) = s @ [0] \<and> 0 \<notin> set s"

lemma is_cstr_Nil [simp]: "is_cstr m a [] \<longleftrightarrow> m a = 0"
  by (simp add: is_cstr_def load_bytes_def)

lemma is_cstr_Cons [simp]:
  "is_cstr m a (c # s) \<longleftrightarrow> m a = c \<and> c \<noteq> 0 \<and> is_cstr m (Suc a) s"
  by (auto simp: is_cstr_def load_bytes_Suc)

lemma cstr_is_cstr: "is_cstr m a s \<Longrightarrow> length s < n \<Longrightarrow> cstr n m a = s"
proof (induction s arbitrary: a n)
  case Nil
  then show ?case by (cases n) auto
next
  case (Cons c s)
  then show ?case by (cases n) auto
qed

lemma is_cstr_unique: "is_cstr m a s \<Longrightarrow> is_cstr m a t \<Longrightarrow> s = t"
proof (induction s arbitrary: a t)
  case Nil
  then show ?case by (cases t) auto
next
  case (Cons c s)
  then show ?case by (cases t) auto
qed

lemma is_cstr_cong:
  "(\<And>i. i \<le> length s \<Longrightarrow> m (a + i) = m' (b + i)) \<Longrightarrow> is_cstr m a s = is_cstr m' b s"
  unfolding is_cstr_def using load_bytes_cong [of "length s + 1" m a m' b] by auto

lemma is_cstr_store_same [mem_simps]:
  "0 \<notin> set s \<Longrightarrow> is_cstr (store_bytes m a (s @ [0])) a s"
  by (simp add: is_cstr_def load_store_bytes_same)

lemma is_cstr_no_zero: "is_cstr m a s \<Longrightarrow> 0 \<notin> set s"
  by (simp add: is_cstr_def)

lemma cstr_cong:
  "(\<And>i. i < n \<Longrightarrow> m (a + i) = m' (b + i)) \<Longrightarrow> cstr n m a = cstr n m' b"
proof (induction n arbitrary: a b)
  case (Suc n)
  from Suc.prems [of 0] have "m a = m' b" by simp
  moreover have "cstr n m (Suc a) = cstr n m' (Suc b)"
    using Suc.prems [of "Suc i" for i] by (intro Suc.IH) auto
  ultimately show ?case by simp
qed simp

lemma length_cstr: "length (cstr n m a) \<le> n"
  by (induction n arbitrary: a) auto

lemma cstr_no_zero: "0 \<notin> set (cstr n m a)"
  by (induction n arbitrary: a) auto

lemma cstr_imp_is_cstr: "length (cstr n m a) < n \<Longrightarrow> is_cstr m a (cstr n m a)"
  by (induction n arbitrary: a) auto

section \<open>Lists\<close>

lemma nth_take_drop_Suc:
  "i < length xs \<Longrightarrow> take i xs @ xs ! i # drop (Suc i) xs = xs"
  using id_take_nth_drop [of i xs] by simp

end
