(* ===== verification/Bitmap.thy ===== *)
theory Bitmap
  imports Prelude
begin

text \<open>
  fisopfs/bitmap.h and fisopfs/bitmap.c: a bitmap is an array of 32-bit words and a word
  count. The interface its clients rely on is the locale \<open>bit_allocator\<close>: a set of slots
  that are free or used, with a search that returns the least free one or a negative
  number. It is interpreted at the end on the code's own functions.
\<close>

type_synonym word_t = "32 word"

record bitmap =
  words :: "word_t list"
  nwords :: nat

definition BITS_PER_WORD :: nat where
  "BITS_PER_WORD = 32"

definition WORD_OFFSET :: "nat \<Rightarrow> nat" where
  "WORD_OFFSET b = b div BITS_PER_WORD"

definition BIT_OFFSET :: "nat \<Rightarrow> nat" where
  "BIT_OFFSET b = b mod BITS_PER_WORD"

definition set_bit :: "bitmap \<Rightarrow> nat \<Rightarrow> bitmap" where
  "set_bit b n = b\<lparr>words := (words b)[WORD_OFFSET n :=
     words b ! WORD_OFFSET n OR push_bit (BIT_OFFSET n) 1]\<rparr>"

definition clear_bit :: "bitmap \<Rightarrow> nat \<Rightarrow> bitmap" where
  "clear_bit b n = b\<lparr>words := (words b)[WORD_OFFSET n :=
     words b ! WORD_OFFSET n AND NOT (push_bit (BIT_OFFSET n) 1)]\<rparr>"

definition get_bit :: "bitmap \<Rightarrow> nat \<Rightarrow> int" where
  "get_bit b n =
     (let b' = words b ! WORD_OFFSET n AND push_bit (BIT_OFFSET n) 1
      in if b' \<noteq> 0 then 1 else 0)"

text \<open>The two nested loops of the search: bits \<open>j\<close> of word \<open>i\<close>, then the words.\<close>

function free_bit_in_word :: "bitmap \<Rightarrow> nat \<Rightarrow> nat \<Rightarrow> nat option" where
  "free_bit_in_word b i j =
     (if j < BITS_PER_WORD then
        (let bitno = j + i * BITS_PER_WORD in
         if get_bit b bitno = 0 then Some bitno else free_bit_in_word b i (Suc j))
      else None)"
  by pat_completeness auto
termination
  by (relation "measure (\<lambda>(b, i, j). BITS_PER_WORD - j)") auto

function free_bit_from :: "bitmap \<Rightarrow> nat \<Rightarrow> int" where
  "free_bit_from b i =
     (if i < nwords b then
        (case free_bit_in_word b i 0 of
           Some bitno \<Rightarrow> int bitno
         | None \<Rightarrow> free_bit_from b (Suc i))
      else -1)"
  by pat_completeness auto
termination
  by (relation "measure (\<lambda>(b, i). nwords b - i)") auto

definition get_free_bit :: "bitmap \<Rightarrow> int" where
  "get_free_bit b = free_bit_from b 0"

declare free_bit_in_word.simps [simp del] free_bit_from.simps [simp del]

section \<open>The slots of a bitmap\<close>

definition bitmap_ok :: "bitmap \<Rightarrow> bool" where
  "bitmap_ok b \<longleftrightarrow> length (words b) = nwords b"

definition n_bits :: "bitmap \<Rightarrow> nat" where
  "n_bits b = nwords b * BITS_PER_WORD"

definition used_bit :: "bitmap \<Rightarrow> nat \<Rightarrow> bool" where
  "used_bit b n \<longleftrightarrow> n < n_bits b \<and> get_bit b n \<noteq> 0"

lemma get_bit_eq: "get_bit b n = (if bit (words b ! (n div 32)) (n mod 32) then 1 else 0)"
  by (simp add: get_bit_def WORD_OFFSET_def BIT_OFFSET_def BITS_PER_WORD_def
      bit_iff_and_push_bit_not_eq_0)

lemma word_no_less: "n < n_bits b \<Longrightarrow> n div 32 < nwords b"
  by (simp add: n_bits_def BITS_PER_WORD_def less_mult_imp_div_less)

lemma n_bits_simps [simp]:
  "n_bits (set_bit b n) = n_bits b" "n_bits (clear_bit b n) = n_bits b"
  "nwords (set_bit b n) = nwords b" "nwords (clear_bit b n) = nwords b"
  by (simp_all add: n_bits_def set_bit_def clear_bit_def)

lemma bitmap_ok_simps [simp]:
  "bitmap_ok (set_bit b n) = bitmap_ok b" "bitmap_ok (clear_bit b n) = bitmap_ok b"
  by (simp_all add: bitmap_ok_def set_bit_def clear_bit_def)

lemma same_bit_iff: "(n::nat) = k \<longleftrightarrow> n div 32 = k div 32 \<and> n mod 32 = k mod 32"
  by (metis div_mult_mod_eq)

lemma get_set_bit:
  assumes "bitmap_ok b" "n < n_bits b" "k < n_bits b"
  shows "get_bit (set_bit b n) k = (if k = n then 1 else get_bit b k)"
proof -
  have "n div 32 < length (words b)" using assms word_no_less by (simp add: bitmap_ok_def)
  then show ?thesis
    unfolding get_bit_eq same_bit_iff [of k n]
    by (auto simp: set_bit_def WORD_OFFSET_def BIT_OFFSET_def BITS_PER_WORD_def
        nth_list_update bit_or_iff bit_exp_iff possible_bit_word)
qed

lemma get_clear_bit:
  assumes "bitmap_ok b" "n < n_bits b" "k < n_bits b"
  shows "get_bit (clear_bit b n) k = (if k = n then 0 else get_bit b k)"
proof -
  have "n div 32 < length (words b)" using assms word_no_less by (simp add: bitmap_ok_def)
  then show ?thesis
    unfolding get_bit_eq same_bit_iff [of k n]
    by (auto simp: clear_bit_def WORD_OFFSET_def BIT_OFFSET_def BITS_PER_WORD_def
        nth_list_update bit_and_iff bit_not_iff bit_exp_iff possible_bit_word)
qed

lemma used_set_bit:
  "bitmap_ok b \<Longrightarrow> n < n_bits b \<Longrightarrow> used_bit (set_bit b n) k \<longleftrightarrow> k = n \<or> used_bit b k"
  by (auto simp: used_bit_def get_set_bit split: if_splits)

lemma used_clear_bit:
  "bitmap_ok b \<Longrightarrow> n < n_bits b \<Longrightarrow> used_bit (clear_bit b n) k \<longleftrightarrow> k \<noteq> n \<and> used_bit b k"
  by (auto simp: used_bit_def get_clear_bit split: if_splits)

section \<open>The search\<close>

lemma free_bit_in_word_Some:
  "free_bit_in_word b i j = Some n \<Longrightarrow>
     i * 32 + j \<le> n \<and> n < i * 32 + 32 \<and> get_bit b n = 0 \<and>
     (\<forall>k. i * 32 + j \<le> k \<longrightarrow> k < n \<longrightarrow> get_bit b k \<noteq> 0)"
proof (induction b i j rule: free_bit_in_word.induct)
  case (1 b i j)
  show ?case
  proof (cases "get_bit b (j + i * 32) = 0")
    case True
    with 1(2) show ?thesis
      by (auto simp: free_bit_in_word.simps [of b i j] BITS_PER_WORD_def Let_def split: if_splits)
  next
    case False
    with 1(2) have j: "j < 32" and rec: "free_bit_in_word b i (Suc j) = Some n"
      by (auto simp: free_bit_in_word.simps [of b i j] BITS_PER_WORD_def Let_def split: if_splits)
    with 1(1) False
    have IH: "i * 32 + Suc j \<le> n" "n < i * 32 + 32" "get_bit b n = 0"
      "\<forall>k. i * 32 + Suc j \<le> k \<longrightarrow> k < n \<longrightarrow> get_bit b k \<noteq> 0"
      by (auto simp: BITS_PER_WORD_def)
    have "get_bit b k \<noteq> 0" if "i * 32 + j \<le> k" "k < n" for k
      using that IH(4) False by (cases "k = i * 32 + j") (auto simp: add.commute)
    with IH show ?thesis by auto
  qed
qed

lemma free_bit_in_word_None:
  "free_bit_in_word b i j = None \<Longrightarrow> i * 32 + j \<le> k \<Longrightarrow> k < i * 32 + 32 \<Longrightarrow> get_bit b k \<noteq> 0"
proof (induction b i j rule: free_bit_in_word.induct)
  case (1 b i j)
  then have j: "j < 32" by simp
  with 1(2) have nz: "get_bit b (j + i * 32) \<noteq> 0" and rec: "free_bit_in_word b i (Suc j) = None"
    by (auto simp: free_bit_in_word.simps [of b i j] BITS_PER_WORD_def Let_def split: if_splits)
  show ?case
  proof (cases "k = i * 32 + j")
    case True
    with nz show ?thesis by (simp add: add.commute)
  next
    case False
    with 1 j nz rec show ?thesis by (auto simp: BITS_PER_WORD_def)
  qed
qed

lemma free_bit_from_spec:
  "free_bit_from b i = r \<Longrightarrow>
     (r = -1 \<and> (\<forall>k. i * 32 \<le> k \<longrightarrow> k < nwords b * 32 \<longrightarrow> get_bit b k \<noteq> 0)) \<or>
     (\<exists>n. r = int n \<and> i * 32 \<le> n \<and> n < nwords b * 32 \<and> get_bit b n = 0 \<and>
       (\<forall>k. i * 32 \<le> k \<longrightarrow> k < n \<longrightarrow> get_bit b k \<noteq> 0))"
proof (induction b i arbitrary: r rule: free_bit_from.induct)
  case (1 b i)
  show ?case
  proof (cases "i < nwords b")
    case False
    with 1(2) show ?thesis by (auto simp: free_bit_from.simps [of b i])
  next
    case i: True
    show ?thesis
    proof (cases "free_bit_in_word b i 0")
      case (Some n)
      have "i * 32 + 32 \<le> nwords b * 32" using i by simp
      moreover have "r = int n" using 1(2) i Some by (auto simp: free_bit_from.simps [of b i])
      moreover note free_bit_in_word_Some [OF Some]
      ultimately show ?thesis by auto
    next
      case None
      have below: "get_bit b k \<noteq> 0" if "i * 32 \<le> k" "k < i * 32 + 32" for k
        using free_bit_in_word_None [OF None] that by simp
      have rec: "free_bit_from b (Suc i) = r"
        using 1(2) i None by (auto simp: free_bit_from.simps [of b i])
      have all: "(\<forall>k. i * 32 \<le> k \<longrightarrow> k < m \<longrightarrow> get_bit b k \<noteq> 0)"
        if "\<forall>k. Suc i * 32 \<le> k \<longrightarrow> k < m \<longrightarrow> get_bit b k \<noteq> 0" for m
        using that below by (metis add.commute linorder_not_less mult_Suc)
      from 1(1) [OF i None rec] show ?thesis
        using all by (elim disjE) (blast, force)
    qed
  qed
qed

lemma get_free_bit_nonneg:
  assumes "get_free_bit b = int n"
  shows "n < n_bits b" "get_bit b n = 0" "\<And>k. k < n \<Longrightarrow> get_bit b k \<noteq> 0"
  using free_bit_from_spec [of b 0 "int n"] assms
  by (auto simp: get_free_bit_def n_bits_def BITS_PER_WORD_def)

lemma get_free_bit_neg:
  "get_free_bit b < 0 \<Longrightarrow> k < n_bits b \<Longrightarrow> get_bit b k \<noteq> 0"
  using free_bit_from_spec [of b 0 "get_free_bit b"]
  by (auto simp: get_free_bit_def n_bits_def BITS_PER_WORD_def)

lemma get_free_bit_free:
  assumes "get_free_bit b = int n"
  shows "n < n_bits b" "\<not> used_bit b n"
  using get_free_bit_nonneg [OF assms] by (auto simp: used_bit_def)

lemma get_free_bit_full: "get_free_bit b < 0 \<Longrightarrow> k < n_bits b \<Longrightarrow> used_bit b k"
  using get_free_bit_neg by (auto simp: used_bit_def)

section \<open>The interface its clients use\<close>

locale slot_allocator =
  fixes cap :: "'b \<Rightarrow> nat"
    and used :: "'b \<Rightarrow> nat \<Rightarrow> bool"
    and mark :: "'b \<Rightarrow> nat \<Rightarrow> 'b"
    and unmark :: "'b \<Rightarrow> nat \<Rightarrow> 'b"
    and pick :: "'b \<Rightarrow> int"
    and ok :: "'b \<Rightarrow> bool"
  assumes cap_mark: "cap (mark b n) = cap b"
    and cap_unmark: "cap (unmark b n) = cap b"
    and ok_mark: "ok b \<Longrightarrow> ok (mark b n)"
    and ok_unmark: "ok b \<Longrightarrow> ok (unmark b n)"
    and used_cap: "used b n \<Longrightarrow> n < cap b"
    and used_mark: "ok b \<Longrightarrow> n < cap b \<Longrightarrow> used (mark b n) k \<longleftrightarrow> k = n \<or> used b k"
    and used_unmark: "ok b \<Longrightarrow> n < cap b \<Longrightarrow> used (unmark b n) k \<longleftrightarrow> k \<noteq> n \<and> used b k"
    and pick_free: "pick b = int n \<Longrightarrow> n < cap b \<and> \<not> used b n"
    and pick_full: "pick b < 0 \<Longrightarrow> n < cap b \<Longrightarrow> used b n"
begin

lemma finite_used: "finite {k. used b k}"
  by (rule finite_subset [of _ "{..<cap b}"]) (auto dest: used_cap)

lemma used_le_cap: "card {k. used b k} \<le> cap b"
proof -
  have "{k. used b k} \<subseteq> {..<cap b}" by (auto dest: used_cap)
  then have "card {k. used b k} \<le> card {..<cap b}" by (rule card_mono [rotated]) simp
  then show ?thesis by simp
qed

lemma alloc_set:
  "ok b \<Longrightarrow> pick b = int n \<Longrightarrow> {k. used (mark b n) k} = insert n {k. used b k}"
  using pick_free [of b n] by (auto simp: used_mark)

lemma alloc_card:
  assumes "ok b" "pick b = int n"
  shows "card {k. used (mark b n) k} = Suc (card {k. used b k})"
  using alloc_set [OF assms] pick_free [OF assms(2)] finite_used [of b] by simp

lemma alloc_release:
  assumes "ok b" "pick b = int n"
  shows "used (unmark (mark b n) n) = used b"
proof
  fix k
  from pick_free [OF assms(2)] have n: "n < cap b" "\<not> used b n" by auto
  with assms(1) show "used (unmark (mark b n) n) k = used b k"
    by (auto simp: used_unmark used_mark ok_mark cap_mark)
qed

lemma pick_fails_iff_full: "pick b < 0 \<longleftrightarrow> card {k. used b k} = cap b"
proof
  assume "pick b < 0"
  then have "{k. used b k} = {..<cap b}" by (auto dest: used_cap pick_full)
  then show "card {k. used b k} = cap b" by simp
next
  assume full: "card {k. used b k} = cap b"
  have "{k. used b k} \<subseteq> {..<cap b}" by (auto dest: used_cap)
  with full have all: "{k. used b k} = {..<cap b}"
    by (intro card_subset_eq) auto
  show "pick b < 0"
  proof (rule ccontr)
    assume "\<not> pick b < 0"
    then have "pick b = int (nat (pick b))" by simp
    from pick_free [OF this] all show False by auto
  qed
qed

end

interpretation bits: slot_allocator n_bits used_bit set_bit clear_bit get_free_bit bitmap_ok
  by unfold_locales
    (auto simp: used_set_bit used_clear_bit get_free_bit_free get_free_bit_full,
     auto simp: used_bit_def)

section \<open>The search as a list function\<close>

text \<open>
  \<open>get_free_bit\<close> returns the least bit that is not set, and -1 exactly when every bit is set.
\<close>

theorem get_free_bit_first:
  "get_free_bit b = (case filter (\<lambda>k. \<not> used_bit b k) [0..<n_bits b] of [] \<Rightarrow> -1 | k # _ \<Rightarrow> int k)"
proof (cases "get_free_bit b < 0")
  case True
  then have "filter (\<lambda>k. \<not> used_bit b k) [0..<n_bits b] = []"
    by (simp add: filter_empty_conv get_free_bit_full)
  then show ?thesis using free_bit_from_spec [of b 0 "get_free_bit b"] True
    by (simp add: get_free_bit_def)
next
  case False
  then obtain k where k: "get_free_bit b = int k" by (metis linorder_not_less zero_le_imp_eq_int)
  note free = get_free_bit_nonneg [OF k]
  have "[0..<n_bits b] = [0..<k] @ k # [Suc k..<n_bits b]"
    using free(1) by (metis le_add1 less_imp_le upt_add_eq_append le_add_diff_inverse upt_conv_Cons add_0)
  moreover have "filter (\<lambda>k. \<not> used_bit b k) [0..<k] = []"
    using free(1,3) by (auto simp: filter_empty_conv used_bit_def)
  ultimately show ?thesis using free(2) k by (simp add: used_bit_def)
qed

end
