(* ===== verification/FsLayout.thy ===== *)
theory FsLayout
  imports Bitmap
begin

text \<open>
  fisopfs/fisopfs.h and the global state and accessors at the top of fisopfs/fisopfs.c:
  the layout constants, the on-disk structs, the file system state and the functions
  that turn inode, block and directory-entry numbers into pointers.

  A pointer to an inode is its index in \<open>inodes\<close>, a pointer into the data region is an
  offset into \<open>data\<close>, and a null pointer is \<open>None\<close>. What the C library and the process
  provide (the time, the user and group ids) is the record \<open>ctx\<close>. An operation returns
  \<open>None\<close> when the C execution leaves defined behaviour: a null dereference, an access
  outside an array or a failed assertion. A negative return code is \<open>Inl\<close> of the errno.
\<close>

section \<open>Layout constants\<close>

text \<open>Number of significant bits: \<open>32 - __builtin_clz(x)\<close> for a non-zero 32-bit \<open>x\<close>.\<close>

fun bit_width :: "nat \<Rightarrow> nat" where
  "bit_width n = (if n = 0 then 0 else Suc (bit_width (n div 2)))"

declare bit_width.simps [simp del]

definition ALIGNPO2 :: "nat \<Rightarrow> nat" where
  "ALIGNPO2 s = (if s > 0 then 2 ^ bit_width (s - 1) else 1)"

definition N_BLOCKS :: nat where "N_BLOCKS = 4096"
definition BLOCK_SIZE :: nat where "BLOCK_SIZE = 4096"

text \<open>
  The sizes of the two structs under the x86-64 ABI: the fields of \<open>inode_t\<close> lie at
  0, 4, 8, 12, 16, 24, 28, 160, 168, 176 and 184, with the struct padded to a multiple
  of 8; those of \<open>dirent_t\<close> at 0 and 256.
\<close>

definition sizeof_inode_t :: nat where "sizeof_inode_t = 192"
definition sizeof_dirent_t :: nat where "sizeof_dirent_t = 260"

definition INODE_SIZE :: nat where "INODE_SIZE = ALIGNPO2 sizeof_inode_t"
definition N_INODES_PER_BLOCK :: nat where "N_INODES_PER_BLOCK = BLOCK_SIZE div INODE_SIZE"
definition N_DATA_BLOCKS_PER_INODE :: nat where "N_DATA_BLOCKS_PER_INODE = 32"
definition N_INODE_BLOCKS :: nat where "N_INODE_BLOCKS = N_BLOCKS div N_INODES_PER_BLOCK"
definition N_INODES :: nat where "N_INODES = N_INODE_BLOCKS * N_INODES_PER_BLOCK"
definition N_DATA_BLOCKS :: nat where "N_DATA_BLOCKS = N_BLOCKS - (3 + N_INODE_BLOCKS)"
definition DENTRY_SIZE :: nat where "DENTRY_SIZE = ALIGNPO2 sizeof_dirent_t"
definition N_DENTRY_PER_BLOCK :: nat where "N_DENTRY_PER_BLOCK = BLOCK_SIZE div DENTRY_SIZE"
definition N_DENTRY_PER_DIR :: nat where
  "N_DENTRY_PER_DIR = N_DENTRY_PER_BLOCK * N_DATA_BLOCKS_PER_INODE"
definition FS_FILENAME_LEN :: nat where "FS_FILENAME_LEN = 256"
definition FS_MAX_PATH :: nat where "FS_MAX_PATH = 1024"
definition MAX_LEVEL :: nat where "MAX_LEVEL = 10"

lemma bit_width_numerals:
  "bit_width 0 = 0"
  "bit_width (numeral w) = Suc (bit_width (numeral w div 2))"
  "bit_width (Suc 0) = 1"
  by (subst bit_width.simps, simp add: bit_width.simps)+

lemma layout_values:
  "INODE_SIZE = 256" "N_INODES_PER_BLOCK = 16" "N_INODE_BLOCKS = 256" "N_INODES = 4096"
  "N_DATA_BLOCKS = 3837" "DENTRY_SIZE = 512" "N_DENTRY_PER_BLOCK = 8" "N_DENTRY_PER_DIR = 256"
  by (simp_all add: INODE_SIZE_def N_INODES_PER_BLOCK_def N_INODE_BLOCKS_def N_INODES_def
      N_DATA_BLOCKS_def DENTRY_SIZE_def N_DENTRY_PER_BLOCK_def N_DENTRY_PER_DIR_def
      ALIGNPO2_def sizeof_inode_t_def sizeof_dirent_t_def N_BLOCKS_def BLOCK_SIZE_def
      N_DATA_BLOCKS_PER_INODE_def bit_width_numerals)

lemmas layout = layout_values BLOCK_SIZE_def N_DATA_BLOCKS_PER_INODE_def
  FS_FILENAME_LEN_def FS_MAX_PATH_def MAX_LEVEL_def

section \<open>State\<close>

datatype errno = ENOENT | EISDIR | EFBIG | ENOMEM | ENOTDIR | ERANGE | ENAMETOOLONG
  | EEXIST | EDQUOT | ENOTEMPTY | EPERM

record inode =
  i_ino :: nat
  i_mode :: "32 word"
  i_uid :: nat
  i_gid :: nat
  i_size :: nat
  i_n_blocks :: nat
  i_data_blocks :: "nat list"
  i_atim :: int
  i_mtim :: int
  i_ctim :: int
  i_parent :: nat

record superblock =
  sb_n_files :: nat
  sb_n_dirs :: nat
  sb_root_ino :: nat

record fs =
  superblock :: superblock
  inode_bitmap :: bitmap
  data_bitmap :: bitmap
  inodes :: "nat \<Rightarrow> inode"
  data :: mem

record ctx =
  cx_time :: int
  cx_uid :: nat
  cx_gid :: nat

text \<open>The zero-initialised globals.\<close>

definition zero_inode :: inode where
  "zero_inode = \<lparr>i_ino = 0, i_mode = 0, i_uid = 0, i_gid = 0, i_size = 0, i_n_blocks = 0,
     i_data_blocks = replicate N_DATA_BLOCKS_PER_INODE 0, i_atim = 0, i_mtim = 0, i_ctim = 0,
     i_parent = 0\<rparr>"

definition zero_bitmap :: "nat \<Rightarrow> bitmap" where
  "zero_bitmap n = \<lparr>words = replicate (n div BITS_PER_WORD) 0, nwords = n div BITS_PER_WORD\<rparr>"

definition zero_fs :: fs where
  "zero_fs = \<lparr>superblock = \<lparr>sb_n_files = 0, sb_n_dirs = 0, sb_root_ino = 0\<rparr>,
     inode_bitmap = zero_bitmap N_INODES, data_bitmap = zero_bitmap N_DATA_BLOCKS,
     inodes = (\<lambda>_. zero_inode), data = (\<lambda>_. 0)\<rparr>"

text \<open>The file type bits of \<open>st_mode\<close>.\<close>

definition S_IFMT :: "32 word" where "S_IFMT = 0xF000"
definition S_IFDIR :: "32 word" where "S_IFDIR = 0x4000"
definition S_IFREG :: "32 word" where "S_IFREG = 0x8000"

definition S_ISDIR :: "32 word \<Rightarrow> bool" where
  "S_ISDIR m \<longleftrightarrow> m AND S_IFMT = S_IFDIR"

definition upd_inode :: "fs \<Rightarrow> nat \<Rightarrow> (inode \<Rightarrow> inode) \<Rightarrow> fs" where
  "upd_inode s k f = s\<lparr>inodes := (inodes s)(k := f (inodes s k))\<rparr>"

lemma upd_inode_simps [simp]:
  "superblock (upd_inode s k f) = superblock s"
  "inode_bitmap (upd_inode s k f) = inode_bitmap s"
  "data_bitmap (upd_inode s k f) = data_bitmap s"
  "data (upd_inode s k f) = data s"
  "inodes (upd_inode s k f) k = f (inodes s k)"
  "j \<noteq> k \<Longrightarrow> inodes (upd_inode s k f) j = inodes s j"
  by (simp_all add: upd_inode_def)

section \<open>Pointers from numbers\<close>

record stat =
  st_ino :: nat
  st_mode :: "32 word"
  st_uid :: nat
  st_gid :: nat
  st_size :: nat
  st_blocks :: nat
  st_blksize :: nat
  st_atime :: int
  st_mtime :: int
  st_ctime :: int

text \<open>\<open>fill_stat\<close> reads the inode into a \<open>stat\<close> and, as a side effect, sets its access time.\<close>

definition fill_stat :: "ctx \<Rightarrow> fs \<Rightarrow> nat \<Rightarrow> stat \<times> fs" where
  "fill_stat c s k =
     (let i = inodes s k in
      (\<lparr>st_ino = i_ino i, st_mode = i_mode i, st_uid = i_uid i, st_gid = i_gid i,
        st_size = i_size i, st_blocks = i_n_blocks i, st_blksize = BLOCK_SIZE,
        st_atime = cx_time c, st_mtime = i_mtim i, st_ctime = i_ctim i\<rparr>,
       upd_inode s k (\<lambda>i. i\<lparr>i_atim := cx_time c\<rparr>)))"

definition get_inode :: "nat \<Rightarrow> nat option" where
  "get_inode ino = (if ino \<ge> N_INODES then None else Some ino)"

definition get_data_block :: "nat \<Rightarrow> nat option" where
  "get_data_block block_no =
     (if block_no \<ge> N_DATA_BLOCKS then None else Some (block_no * BLOCK_SIZE))"

text \<open>
  The pointer to entry \<open>dentry_no\<close> of a directory. When the block number stored in the
  inode is out of range the C code forms a pointer from a null base; every caller
  dereferences the result, so it is the null pointer here.
\<close>

definition get_dirent :: "nat \<Rightarrow> inode \<Rightarrow> nat option" where
  "get_dirent dentry_no dir =
     (if \<not> S_ISDIR (i_mode dir) then None
      else let block_no = dentry_no div N_DENTRY_PER_BLOCK in
        if block_no \<ge> i_n_blocks dir then None
        else let offset = dentry_no mod N_DENTRY_PER_BLOCK in
          map_option (\<lambda>block. block + offset * DENTRY_SIZE)
            (get_data_block (i_data_blocks dir ! block_no)))"

text \<open>The two fields of the directory entry at \<open>a\<close>.\<close>

definition d_ino :: "mem \<Rightarrow> nat \<Rightarrow> nat" where
  "d_ino m a = load_le 4 m (a + FS_FILENAME_LEN)"

definition set_d_ino :: "mem \<Rightarrow> nat \<Rightarrow> nat \<Rightarrow> mem" where
  "set_d_ino m a v = store_le 4 m (a + FS_FILENAME_LEN) v"

definition strcpy_to :: "mem \<Rightarrow> nat \<Rightarrow> byte list \<Rightarrow> mem" where
  "strcpy_to m a s = store_bytes m a (s @ [0])"

text \<open>\<open>strcmp(s, p) == 0\<close>: the bytes at \<open>p\<close> are \<open>s\<close> and a terminator.\<close>

definition strcmp_eq :: "byte list \<Rightarrow> mem \<Rightarrow> nat \<Rightarrow> bool" where
  "strcmp_eq s m a \<longleftrightarrow> is_cstr m a s"

text \<open>
  The allocation of a data block: its number and the pointer to it, or the null pointer
  when the disk is full.
\<close>

definition init_data_block :: "fs \<Rightarrow> (nat \<times> nat) option \<times> fs" where
  "init_data_block s =
     (let free_bit = get_free_bit (data_bitmap s) in
      if free_bit < 0 then (None, s)
      else (map_option (\<lambda>p. (nat free_bit, p)) (get_data_block (nat free_bit)),
            s\<lparr>data_bitmap := set_bit (data_bitmap s) (nat free_bit)\<rparr>))"

definition init_inode :: "ctx \<Rightarrow> fs \<Rightarrow> 32 word \<Rightarrow> (nat \<times> fs) option" where
  "init_inode c s m =
     (let free_bit = get_free_bit (inode_bitmap s) in
      if free_bit < 0 then None
      else let ino_no = nat free_bit;
               s1 = s\<lparr>inode_bitmap := set_bit (inode_bitmap s) ino_no\<rparr>
        in Some (ino_no, upd_inode s1 ino_no (\<lambda>i. i\<lparr>i_ino := ino_no, i_mode := m,
             i_uid := cx_uid c, i_gid := cx_gid c, i_size := 0, i_n_blocks := 0,
             i_atim := cx_time c, i_mtim := cx_time c, i_ctim := cx_time c\<rparr>)))"

end
