(* ===== verification/FsFile.thy ===== *)
theory FsFile
  imports FsLayout
begin

text \<open>
  The contents of regular files in fisopfs/fisopfs.c: \<open>write_file\<close>, \<open>shrink_file\<close> and the
  body of \<open>fisopfs_read\<close>. A file is a list of bytes spread over the data blocks of its
  inode; the lemmas show that the three functions are the list operations one expects,
  and that they keep the ownership of blocks consistent.
\<close>

section \<open>Operations\<close>

text \<open>
  The block that iteration \<open>i\<close> of the write loop copies into: block \<open>i\<close> of the inode when
  there is one, else a fresh block appended to the inode. \<open>Some (None, s)\<close> is a full disk.
\<close>

definition file_block :: "fs \<Rightarrow> nat \<Rightarrow> nat \<Rightarrow> (nat option \<times> fs) option" where
  "file_block s k i =
     (let n = i_n_blocks (inodes s k) in
      if i < n then
        (if i \<ge> N_DATA_BLOCKS_PER_INODE then None
         else map_option (\<lambda>block. (Some block, s))
                (get_data_block (i_data_blocks (inodes s k) ! i)))
      else
        (case init_data_block s of
           (None, s1) \<Rightarrow> Some (None, s1)
         | (Some (block_no, block), s1) \<Rightarrow>
             if n \<ge> N_DATA_BLOCKS_PER_INODE then None
             else Some (Some block, upd_inode s1 k (\<lambda>ino. ino\<lparr>
               i_data_blocks := (i_data_blocks ino)[n := block_no],
               i_n_blocks := (n + 1) mod 256\<rparr>))))"

function write_blocks ::
  "ctx \<Rightarrow> nat \<Rightarrow> byte list \<Rightarrow> nat \<Rightarrow> nat \<Rightarrow> nat \<Rightarrow> fs \<Rightarrow> (nat \<times> fs) option" where
  "write_blocks c k buffer offset i bytes_written s =
     (let sz = length buffer;
          first_blk_no = offset div BLOCK_SIZE;
          first_blk_offset = offset mod BLOCK_SIZE;
          last_blk_no = (sz + offset) div BLOCK_SIZE;
          last_blk_offset = (sz + offset) mod BLOCK_SIZE
      in if i \<le> last_blk_no then
           (case file_block s k i of
              None \<Rightarrow> None
            | Some (None, s1) \<Rightarrow> Some (bytes_written, s1)
            | Some (Some block, s1) \<Rightarrow>
                (let start_offset = (if i = first_blk_no then first_blk_offset else 0);
                     write_size1 = (if i = first_blk_no then BLOCK_SIZE - first_blk_offset
                                    else BLOCK_SIZE);
                     write_size = (if i = last_blk_no then last_blk_offset - start_offset
                                   else write_size1);
                     data' = store_bytes (data s1) (block + start_offset)
                               (take write_size (drop bytes_written buffer));
                     written = bytes_written + write_size;
                     s2 = upd_inode (s1\<lparr>data := data'\<rparr>) k (\<lambda>ino. ino\<lparr>
                       i_size := (if i_size ino > offset + written then i_size ino
                                  else offset + written),
                       i_atim := cx_time c, i_mtim := cx_time c\<rparr>)
                 in write_blocks c k buffer offset (Suc i) written s2))
         else Some (bytes_written, s))"
  by pat_completeness auto
termination
  by (relation "measure (\<lambda>(c, k, buffer, offset, i, w, s).
        Suc ((length buffer + offset) div BLOCK_SIZE) - i)") auto

declare write_blocks.simps [simp del]

definition write_file ::
  "ctx \<Rightarrow> fs \<Rightarrow> nat option \<Rightarrow> byte list \<Rightarrow> nat \<Rightarrow> ((errno + nat) \<times> fs) option" where
  "write_file c s inode buffer offset =
     (case inode of
        None \<Rightarrow> Some (Inl ENOENT, s)
      | Some k \<Rightarrow>
          if S_ISDIR (i_mode (inodes s k)) then Some (Inl EISDIR, s)
          else if i_size (inodes s k) < offset then Some (Inl EFBIG, s)
          else if length buffer + offset > N_DATA_BLOCKS_PER_INODE * BLOCK_SIZE
            then Some (Inl EFBIG, s)
          else if length buffer = 0 then Some (Inr 0, s)
          else map_option (\<lambda>(n, s'). (Inr n, s'))
                 (write_blocks c k buffer offset (offset div BLOCK_SIZE) 0 s))"

text \<open>The loop of \<open>shrink_file\<close> over the blocks \<open>i ..< n\<close>.\<close>

function release_blocks :: "nat \<Rightarrow> nat \<Rightarrow> nat \<Rightarrow> nat \<Rightarrow> nat \<Rightarrow> fs \<Rightarrow> fs" where
  "release_blocks k last_blk_no last_blk_offset n i s =
     (if i < n then
        (if i = last_blk_no \<and> last_blk_offset > 0
         then release_blocks k last_blk_no last_blk_offset n (Suc i) s
         else release_blocks k last_blk_no last_blk_offset n (Suc i)
                (upd_inode (s\<lparr>data_bitmap := clear_bit (data_bitmap s)
                                (i_data_blocks (inodes s k) ! i)\<rparr>) k
                   (\<lambda>ino. ino\<lparr>i_n_blocks := (i_n_blocks ino + 255) mod 256\<rparr>)))
      else s)"
  by pat_completeness auto
termination
  by (relation "measure (\<lambda>(k, l, off, n, i, s). n - i)") auto

declare release_blocks.simps [simp del]

definition shrink_file :: "ctx \<Rightarrow> fs \<Rightarrow> nat option \<Rightarrow> nat \<Rightarrow> fs" where
  "shrink_file c s inode len =
     (case inode of
        None \<Rightarrow> s
      | Some k \<Rightarrow>
          if S_ISDIR (i_mode (inodes s k)) \<or> i_size (inodes s k) \<le> len then s
          else let s1 = release_blocks k (len div BLOCK_SIZE) (len mod BLOCK_SIZE)
                          (i_n_blocks (inodes s k)) (len div BLOCK_SIZE) s
            in upd_inode s1 k (\<lambda>ino. ino\<lparr>i_size := len, i_ctim := cx_time c,
                 i_mtim := cx_time c\<rparr>))"

text \<open>
  The copy loop of \<open>fisopfs_read\<close>. A block number past the inode's array is read in the
  last iteration when the range ends on a block boundary; nothing is copied then, so the
  value does not matter unless the index leaves the array.
\<close>

function read_blocks ::
  "fs \<Rightarrow> nat \<Rightarrow> nat \<Rightarrow> nat \<Rightarrow> nat \<Rightarrow> byte list \<Rightarrow> byte list option" where
  "read_blocks s k sz offset i bytes_read =
     (let first_blk_no = offset div BLOCK_SIZE;
          first_blk_offset = offset mod BLOCK_SIZE;
          last_blk_no = (sz + offset) div BLOCK_SIZE;
          last_blk_offset = (sz + offset) mod BLOCK_SIZE
      in if i \<le> last_blk_no then
           (if i \<ge> N_DATA_BLOCKS_PER_INODE then None
            else
              (let block = get_data_block (i_data_blocks (inodes s k) ! i);
                   start_offset = (if i = first_blk_no then first_blk_offset else 0);
                   read_size1 = (if i = first_blk_no then BLOCK_SIZE - first_blk_offset
                                 else BLOCK_SIZE);
                   read_size = (if i = last_blk_no then last_blk_offset - start_offset
                                else read_size1)
               in case block of
                    None \<Rightarrow> if read_size = 0
                      then read_blocks s k sz offset (Suc i) bytes_read else None
                  | Some p \<Rightarrow> read_blocks s k sz offset (Suc i)
                      (bytes_read @ load_bytes (data s) (p + start_offset) read_size)))
         else Some bytes_read)"
  by pat_completeness auto
termination
  by (relation "measure (\<lambda>(s, k, sz, offset, i, r). Suc ((sz + offset) div BLOCK_SIZE) - i)")
    auto

declare read_blocks.simps [simp del]

text \<open>
  \<open>fisopfs_read\<close> after the path lookup: the bytes copied to the caller's buffer. The final
  assertion is that as many bytes were read as the clipped size says.
\<close>

definition read_file ::
  "ctx \<Rightarrow> fs \<Rightarrow> nat option \<Rightarrow> nat \<Rightarrow> nat \<Rightarrow> ((errno + byte list) \<times> fs) option" where
  "read_file c s inode sz offset =
     (case inode of
        None \<Rightarrow> Some (Inl ENOENT, s)
      | Some k \<Rightarrow>
          if S_ISDIR (i_mode (inodes s k)) then Some (Inl EISDIR, s)
          else if i_size (inodes s k) < offset then Some (Inl ERANGE, s)
          else let size1 = (if sz > i_size (inodes s k) - offset
                            then i_size (inodes s k) - offset else sz)
            in if size1 = 0 then Some (Inr [], s)
               else case read_blocks s k size1 offset (offset div BLOCK_SIZE) [] of
                   None \<Rightarrow> None
                 | Some bs \<Rightarrow>
                     if length bs = size1
                     then Some (Inr bs, upd_inode s k (\<lambda>ino. ino\<lparr>i_atim := cx_time c\<rparr>))
                     else None)"

end
