(* ===== verification/FsBlocks.thy ===== *)
theory FsBlocks
  imports FsFile
begin

text \<open>
  Ownership of data blocks in fisopfs: every live inode owns the blocks its array lists,
  no two inodes share one, and the data bitmap marks exactly the owned blocks. The lemmas
  say how taking and releasing one block, and writing bytes into one block, act on this
  invariant and on the bytes of every file.
\<close>

definition live :: "fs \<Rightarrow> nat set" where
  "live s = {k. used_bit (inode_bitmap s) k}"

definition owns :: "fs \<Rightarrow> nat \<Rightarrow> nat set" where
  "owns s k = (!) (i_data_blocks (inodes s k)) ` {..<i_n_blocks (inodes s k)}"

definition inode_ok :: "fs \<Rightarrow> nat \<Rightarrow> bool" where
  "inode_ok s k \<longleftrightarrow>
     i_ino (inodes s k) = k \<and>
     length (i_data_blocks (inodes s k)) = N_DATA_BLOCKS_PER_INODE \<and>
     i_n_blocks (inodes s k) \<le> N_DATA_BLOCKS_PER_INODE \<and>
     inj_on ((!) (i_data_blocks (inodes s k))) {..<i_n_blocks (inodes s k)} \<and>
     i_size (inodes s k) \<le> i_n_blocks (inodes s k) * BLOCK_SIZE"

definition bitmaps_ok :: "fs \<Rightarrow> bool" where
  "bitmaps_ok s \<longleftrightarrow> bitmap_ok (inode_bitmap s) \<and> n_bits (inode_bitmap s) = N_INODES \<and>
     bitmap_ok (data_bitmap s) \<and>
     n_bits (data_bitmap s) = N_DATA_BLOCKS div BITS_PER_WORD * BITS_PER_WORD"

definition blocks_ok :: "fs \<Rightarrow> bool" where
  "blocks_ok s \<longleftrightarrow> bitmaps_ok s \<and>
     (\<forall>k. length (i_data_blocks (inodes s k)) = N_DATA_BLOCKS_PER_INODE) \<and>
     (\<forall>k \<in> live s. inode_ok s k) \<and>
     (\<forall>j \<in> live s. \<forall>k \<in> live s. j \<noteq> k \<longrightarrow> owns s j \<inter> owns s k = {}) \<and>
     (\<Union>k \<in> live s. owns s k) = {b. used_bit (data_bitmap s) b}"

text \<open>Byte \<open>p\<close> of the file, and its contents as a list.\<close>

definition file_byte :: "fs \<Rightarrow> nat \<Rightarrow> nat \<Rightarrow> byte" where
  "file_byte s k p =
     data s (i_data_blocks (inodes s k) ! (p div BLOCK_SIZE) * BLOCK_SIZE + p mod BLOCK_SIZE)"

definition content :: "fs \<Rightarrow> nat \<Rightarrow> byte list" where
  "content s k = map (file_byte s k) [0..<i_size (inodes s k)]"

lemma length_content [simp]: "length (content s k) = i_size (inodes s k)"
  by (simp add: content_def)

lemma nth_content: "p < i_size (inodes s k) \<Longrightarrow> content s k ! p = file_byte s k p"
  by (simp add: content_def)

lemma BLOCK_SIZE_pos [simp]: "0 < BLOCK_SIZE"
  by (simp add: BLOCK_SIZE_def)

lemma div_BLOCK_less: "p < n * BLOCK_SIZE \<longleftrightarrow> p div BLOCK_SIZE < n"
  by (simp add: div_less_iff_less_mult)

lemma data_bits: "bitmaps_ok s \<Longrightarrow> n_bits (data_bitmap s) = 3808"
  by (simp add: bitmaps_ok_def layout BITS_PER_WORD_def)

lemma blocks_okD:
  assumes "blocks_ok s" "k \<in> live s"
  shows "i_ino (inodes s k) = k"
    "length (i_data_blocks (inodes s k)) = N_DATA_BLOCKS_PER_INODE"
    "i_n_blocks (inodes s k) \<le> N_DATA_BLOCKS_PER_INODE"
    "inj_on ((!) (i_data_blocks (inodes s k))) {..<i_n_blocks (inodes s k)}"
    "i_size (inodes s k) \<le> i_n_blocks (inodes s k) * BLOCK_SIZE"
  using assms by (auto simp: blocks_ok_def inode_ok_def)

lemma owned_block:
  assumes "blocks_ok s" "k \<in> live s" "i < i_n_blocks (inodes s k)"
  shows "i_data_blocks (inodes s k) ! i \<in> owns s k"
    "used_bit (data_bitmap s) (i_data_blocks (inodes s k) ! i)"
    "i_data_blocks (inodes s k) ! i < 3808"
proof -
  show own: "i_data_blocks (inodes s k) ! i \<in> owns s k"
    using assms(3) by (auto simp: owns_def)
  with assms(1,2) show used: "used_bit (data_bitmap s) (i_data_blocks (inodes s k) ! i)"
    by (auto simp: blocks_ok_def)
  then show "i_data_blocks (inodes s k) ! i < 3808"
    using assms(1) data_bits [of s] by (auto simp: used_bit_def blocks_ok_def)
qed

lemma owned_get_data_block:
  "blocks_ok s \<Longrightarrow> k \<in> live s \<Longrightarrow> i < i_n_blocks (inodes s k) \<Longrightarrow>
     get_data_block (i_data_blocks (inodes s k) ! i) = Some (i_data_blocks (inodes s k) ! i * BLOCK_SIZE)"
  using owned_block(3) [of s k i] by (simp add: get_data_block_def layout)

section \<open>Writing inside one block\<close>

lemma block_disj:
  assumes "b \<noteq> b'" "off < BLOCK_SIZE" "off' + n \<le> BLOCK_SIZE" "length bs = n"
  shows "store_bytes d (b' * BLOCK_SIZE + off') bs (b * BLOCK_SIZE + off) = d (b * BLOCK_SIZE + off)"
proof (rule store_bytes_out)
  from assms(1) consider "b < b'" | "b' < b" by linarith
  then show "b * BLOCK_SIZE + off < b' * BLOCK_SIZE + off' \<or>
      b' * BLOCK_SIZE + off' + length bs \<le> b * BLOCK_SIZE + off"
  proof cases
    case 1
    then have "Suc b * BLOCK_SIZE \<le> b' * BLOCK_SIZE" by (intro mult_le_mono1) simp
    with assms(2) show ?thesis by simp
  next
    case 2
    then have "Suc b' * BLOCK_SIZE \<le> b * BLOCK_SIZE" by (intro mult_le_mono1) simp
    with assms(3,4) show ?thesis by simp
  qed
qed

lemma store_same_block:
  "off' \<le> off \<Longrightarrow> off < off' + length bs \<Longrightarrow>
     store_bytes d (b * BLOCK_SIZE + off') bs (b * BLOCK_SIZE + off) = bs ! (off - off')"
  by (simp add: store_bytes_def)

lemma store_same_block_out:
  "off < off' \<or> off' + length bs \<le> off \<Longrightarrow>
     store_bytes d (b * BLOCK_SIZE + off') bs (b * BLOCK_SIZE + off) = d (b * BLOCK_SIZE + off)"
  by (auto simp: store_bytes_def)

text \<open>The bytes of every file after a write into block \<open>i\<close> of inode \<open>k\<close>.\<close>

lemma file_byte_store_other:
  assumes ok: "blocks_ok s" and k: "k \<in> live s" "j \<in> live s" "j \<noteq> k"
    and i: "i < i_n_blocks (inodes s k)" and off: "off + length bs \<le> BLOCK_SIZE"
    and p: "p < i_n_blocks (inodes s j) * BLOCK_SIZE"
  shows "file_byte (s\<lparr>data := store_bytes (data s)
           (i_data_blocks (inodes s k) ! i * BLOCK_SIZE + off) bs\<rparr>) j p = file_byte s j p"
proof -
  have "i_data_blocks (inodes s j) ! (p div BLOCK_SIZE) \<in> owns s j"
    using ok k(2) p by (intro owned_block(1)) (auto simp: div_BLOCK_less)
  moreover have "i_data_blocks (inodes s k) ! i \<in> owns s k"
    using ok k(1) i by (rule owned_block(1))
  moreover have "owns s j \<inter> owns s k = {}" using ok k by (auto simp: blocks_ok_def)
  ultimately have "i_data_blocks (inodes s j) ! (p div BLOCK_SIZE) \<noteq> i_data_blocks (inodes s k) ! i"
    by auto
  then show ?thesis using off by (simp add: file_byte_def block_disj)
qed

lemma file_byte_store_same:
  assumes ok: "blocks_ok s" and k: "k \<in> live s"
    and i: "i < i_n_blocks (inodes s k)" and off: "off + length bs \<le> BLOCK_SIZE"
    and p: "p < i_n_blocks (inodes s k) * BLOCK_SIZE"
  shows "file_byte (s\<lparr>data := store_bytes (data s)
           (i_data_blocks (inodes s k) ! i * BLOCK_SIZE + off) bs\<rparr>) k p =
         (if i * BLOCK_SIZE + off \<le> p \<and> p < i * BLOCK_SIZE + off + length bs
          then bs ! (p - (i * BLOCK_SIZE + off)) else file_byte s k p)"
proof (cases "p div BLOCK_SIZE = i")
  case True
  have p': "p = i * BLOCK_SIZE + p mod BLOCK_SIZE" using True by (metis div_mult_mod_eq)
  show ?thesis
  proof (cases "off \<le> p mod BLOCK_SIZE \<and> p mod BLOCK_SIZE < off + length bs")
    case inside: True
    then show ?thesis using p' True
      by (simp add: file_byte_def store_same_block)
        (metis add_diff_cancel_left' diff_diff_left diff_is_0_eq le_add_diff_inverse
          add_le_cancel_left nat_add_left_cancel_less add.assoc)
  next
    case outside: False
    then have "\<not> (i * BLOCK_SIZE + off \<le> p \<and> p < i * BLOCK_SIZE + off + length bs)"
      using p' by linarith
    with outside show ?thesis using p' True
      by (auto simp: file_byte_def store_same_block_out)
  qed
next
  case False
  have "p div BLOCK_SIZE < i_n_blocks (inodes s k)" using p by (simp add: div_BLOCK_less)
  with False i blocks_okD(4) [OF ok k]
  have "i_data_blocks (inodes s k) ! (p div BLOCK_SIZE) \<noteq> i_data_blocks (inodes s k) ! i"
    by (auto dest: inj_onD)
  moreover have "\<not> (i * BLOCK_SIZE + off \<le> p \<and> p < i * BLOCK_SIZE + off + length bs)"
  proof
    assume a: "i * BLOCK_SIZE + off \<le> p \<and> p < i * BLOCK_SIZE + off + length bs"
    then have "i * BLOCK_SIZE \<le> p" "p < Suc i * BLOCK_SIZE" using off by auto
    then have "p div BLOCK_SIZE = i" by (simp add: div_nat_eqI mult.commute)
    with False show False by simp
  qed
  ultimately show ?thesis using off by (auto simp: file_byte_def block_disj)
qed

text \<open>The data region and the fields that ownership does not read are irrelevant to it.\<close>

lemma blocks_ok_data [simp]: "blocks_ok (s\<lparr>data := d\<rparr>) = blocks_ok s"
  by (simp add: blocks_ok_def live_def owns_def inode_ok_def bitmaps_ok_def)

lemma live_simps [simp]:
  "live (s\<lparr>data := d\<rparr>) = live s" "live (upd_inode s k f) = live s"
  "live (s\<lparr>data_bitmap := b\<rparr>) = live s"
  "live (s\<lparr>superblock := sb\<rparr>) = live s"
  by (simp_all add: live_def)

lemma blocks_ok_superblock [simp]: "blocks_ok (s\<lparr>superblock := sb\<rparr>) = blocks_ok s"
  by (simp add: blocks_ok_def live_def owns_def inode_ok_def bitmaps_ok_def)

lemma owns_upd_inode:
  "owns (upd_inode s k f) j = (if j = k
     then (!) (i_data_blocks (f (inodes s k))) ` {..<i_n_blocks (f (inodes s k))} else owns s j)"
  by (simp add: owns_def)

lemma blocks_ok_upd_inode:
  assumes ok: "blocks_ok s"
    and f: "i_ino (f (inodes s k)) = i_ino (inodes s k)"
      "i_data_blocks (f (inodes s k)) = i_data_blocks (inodes s k)"
      "i_n_blocks (f (inodes s k)) = i_n_blocks (inodes s k)"
    and sz: "k \<in> live s \<Longrightarrow> i_size (f (inodes s k)) \<le> i_n_blocks (inodes s k) * BLOCK_SIZE"
  shows "blocks_ok (upd_inode s k f)"
proof -
  have o: "owns (upd_inode s k f) j = owns s j" for j
    by (cases "j = k") (simp_all add: owns_def f)
  have i: "inode_ok (upd_inode s k f) j" if "j \<in> live s" for j
    using ok that sz by (cases "j = k") (auto simp: inode_ok_def blocks_ok_def f)
  have l: "length (i_data_blocks (inodes (upd_inode s k f) j)) = N_DATA_BLOCKS_PER_INODE" for j
    using ok by (cases "j = k") (auto simp: blocks_ok_def f)
  show ?thesis using ok by (simp add: blocks_ok_def o i l bitmaps_ok_def)
qed

lemma file_byte_upd_inode:
  "i_data_blocks (f (inodes s k)) = i_data_blocks (inodes s k) \<Longrightarrow>
     file_byte (upd_inode s k f) j p = file_byte s j p"
  by (cases "j = k") (simp_all add: file_byte_def)

section \<open>Taking a block\<close>

definition append_block :: "fs \<Rightarrow> nat \<Rightarrow> nat \<Rightarrow> fs" where
  "append_block s k b = upd_inode (s\<lparr>data_bitmap := set_bit (data_bitmap s) b\<rparr>) k
     (\<lambda>ino. ino\<lparr>i_data_blocks := (i_data_blocks ino)[i_n_blocks ino := b],
                 i_n_blocks := (i_n_blocks ino + 1) mod 256\<rparr>)"

lemma fresh_block:
  assumes "blocks_ok s" "get_free_bit (data_bitmap s) = int b"
  shows "b < 3808" "\<not> used_bit (data_bitmap s) b" "k \<in> live s \<Longrightarrow> b \<notin> owns s k"
proof -
  from bits.pick_free [OF assms(2)] assms(1) data_bits [of s]
  show b: "b < 3808" "\<not> used_bit (data_bitmap s) b" by (auto simp: blocks_ok_def)
  then show "k \<in> live s \<Longrightarrow> b \<notin> owns s k" using assms(1) by (auto simp: blocks_ok_def)
qed

lemma append_block_inode:
  assumes "blocks_ok s" "k \<in> live s" "i_n_blocks (inodes s k) < N_DATA_BLOCKS_PER_INODE"
  shows "inodes (append_block s k b) k = (inodes s k)
     \<lparr>i_data_blocks := (i_data_blocks (inodes s k))[i_n_blocks (inodes s k) := b],
      i_n_blocks := Suc (i_n_blocks (inodes s k))\<rparr>"
  using assms(3) by (simp add: append_block_def upd_inode_def layout)

lemma append_block_simps [simp]:
  "j \<noteq> k \<Longrightarrow> inodes (append_block s k b) j = inodes s j"
  "live (append_block s k b) = live s" "data (append_block s k b) = data s"
  "superblock (append_block s k b) = superblock s"
  "inode_bitmap (append_block s k b) = inode_bitmap s"
  "data_bitmap (append_block s k b) = set_bit (data_bitmap s) b"
  by (simp_all add: append_block_def upd_inode_def live_def)

lemma owns_append_block:
  assumes ok: "blocks_ok s" "k \<in> live s" "i_n_blocks (inodes s k) < N_DATA_BLOCKS_PER_INODE"
  shows "owns (append_block s k b) j = (if j = k then insert b (owns s k) else owns s j)"
proof (cases "j = k")
  case True
  have len: "length (i_data_blocks (inodes s k)) = N_DATA_BLOCKS_PER_INODE"
    using ok by (simp add: blocks_ok_def)
  have "(!) ((i_data_blocks (inodes s k))[i_n_blocks (inodes s k) := b]) ` {..<i_n_blocks (inodes s k)}
      = (!) (i_data_blocks (inodes s k)) ` {..<i_n_blocks (inodes s k)}"
    by (rule image_cong) auto
  with True show ?thesis using ok(3) len
    by (simp add: owns_def append_block_inode [OF ok] lessThan_Suc)
qed (simp add: owns_def)

lemma append_block_ok:
  assumes ok: "blocks_ok s" "k \<in> live s" "i_n_blocks (inodes s k) < N_DATA_BLOCKS_PER_INODE"
    and b: "get_free_bit (data_bitmap s) = int b"
  shows "blocks_ok (append_block s k b)"
proof -
  note fresh = fresh_block [OF ok(1) b]
  have bm: "bitmap_ok (data_bitmap s)" "n_bits (data_bitmap s) = 3808"
    using ok(1) data_bits [of s] by (auto simp: blocks_ok_def bitmaps_ok_def)
  have len: "length (i_data_blocks (inodes s j)) = N_DATA_BLOCKS_PER_INODE" for j
    using ok(1) by (simp add: blocks_ok_def)
  have inj: "inj_on ((!) ((i_data_blocks (inodes s k))[i_n_blocks (inodes s k) := b]))
      {..<Suc (i_n_blocks (inodes s k))}"
  proof (rule inj_onI)
    fix x y
    assume xy: "x \<in> {..<Suc (i_n_blocks (inodes s k))}" "y \<in> {..<Suc (i_n_blocks (inodes s k))}"
      and eq: "(i_data_blocks (inodes s k))[i_n_blocks (inodes s k) := b] ! x =
        (i_data_blocks (inodes s k))[i_n_blocks (inodes s k) := b] ! y"
    have new: "i_data_blocks (inodes s k) ! z \<noteq> b" if "z < i_n_blocks (inodes s k)" for z
      using fresh(3) [OF ok(2)] that by (auto simp: owns_def)
    show "x = y"
      using xy eq len [of k] ok(3) new blocks_okD(4) [OF ok(1,2)]
      by (auto simp: nth_list_update less_Suc_eq dest: inj_onD split: if_splits)
  qed
  have ino: "inode_ok (append_block s k b) j" if "j \<in> live s" for j
  proof (cases "j = k")
    case True
    then show ?thesis
      using inj blocks_okD(1,2,5) [OF ok(1,2)] ok(3)
      by (simp add: inode_ok_def append_block_inode [OF ok])
  next
    case False
    then show ?thesis using ok(1) that by (simp add: inode_ok_def blocks_ok_def)
  qed
  have disj: "owns (append_block s k b) i \<inter> owns (append_block s k b) j = {}"
    if "i \<in> live s" "j \<in> live s" "i \<noteq> j" for i j
  proof -
    have "owns s i \<inter> owns s j = {}" using ok(1) that by (auto simp: blocks_ok_def)
    moreover have "b \<notin> owns s i" "b \<notin> owns s j" using fresh(3) that by auto
    ultimately show ?thesis using that(3) by (auto simp: owns_append_block [OF ok])
  qed
  have "(\<Union>j \<in> live s. owns (append_block s k b) j) = insert b (\<Union>j \<in> live s. owns s j)"
    using ok(2) by (auto simp: owns_append_block [OF ok])
  also have "\<dots> = {c. used_bit (data_bitmap (append_block s k b)) c}"
    using ok(1) bm fresh(1) bits.used_mark [of "data_bitmap s" b]
    by (auto simp: blocks_ok_def)
  finally have cover: "(\<Union>j \<in> live s. owns (append_block s k b) j) =
      {c. used_bit (data_bitmap (append_block s k b)) c}" .
  have lens: "length (i_data_blocks (inodes (append_block s k b) j)) = N_DATA_BLOCKS_PER_INODE" for j
    using len by (cases "j = k") (simp_all add: append_block_inode [OF ok])
  show ?thesis
    unfolding blocks_ok_def
    using ok(1) bm ino disj cover lens
    by (auto simp: bitmaps_ok_def blocks_ok_def)
qed

lemma file_byte_append_block:
  assumes ok: "blocks_ok s" "k \<in> live s" "i_n_blocks (inodes s k) < N_DATA_BLOCKS_PER_INODE"
    and p: "p < i_n_blocks (inodes s j) * BLOCK_SIZE"
  shows "file_byte (append_block s k b) j p = file_byte s j p"
proof (cases "j = k")
  case True
  then have "p div BLOCK_SIZE \<noteq> i_n_blocks (inodes s k)" using p by (auto simp: div_BLOCK_less)
  then show ?thesis using True by (simp add: file_byte_def append_block_inode [OF ok])
qed (simp add: file_byte_def)

section \<open>Releasing blocks\<close>

text \<open>
  The release loop over the blocks \<open>i ..< n\<close>, none of them kept: the bitmap loses exactly
  those blocks, and the block count of the inode drops by their number.
\<close>

lemma release_blocks_effect:
  fixes s :: fs
  assumes "i = l \<longrightarrow> off = 0" "l \<le> i" "i \<le> n"
    and "bitmap_ok (data_bitmap s)"
    and "\<forall>j. i \<le> j \<longrightarrow> j < n \<longrightarrow> i_data_blocks (inodes s k) ! j < n_bits (data_bitmap s)"
    and "n - i \<le> i_n_blocks (inodes s k)" "i_n_blocks (inodes s k) < 256"
    and "t = release_blocks k l off n i s"
  shows "bitmap_ok (data_bitmap t) \<and> n_bits (data_bitmap t) = n_bits (data_bitmap s) \<and>
    (\<forall>b. used_bit (data_bitmap t) b \<longleftrightarrow>
       used_bit (data_bitmap s) b \<and> b \<notin> (!) (i_data_blocks (inodes s k)) ` {i..<n}) \<and>
    inode_bitmap t = inode_bitmap s \<and> superblock t = superblock s \<and> data t = data s \<and>
    inodes t k = (inodes s k)\<lparr>i_n_blocks := i_n_blocks (inodes s k) - (n - i)\<rparr> \<and>
    (\<forall>j. j \<noteq> k \<longrightarrow> inodes t j = inodes s j)"
  using assms
proof (induction "n - i" arbitrary: i s)
  case 0
  then have "t = s" by (simp add: release_blocks.simps)
  with 0 show ?case by auto
next
  case (Suc d)
  let ?b = "i_data_blocks (inodes s k) ! i"
  define s1 where "s1 = upd_inode (s\<lparr>data_bitmap := clear_bit (data_bitmap s) ?b\<rparr>) k
    (\<lambda>ino. ino\<lparr>i_n_blocks := (i_n_blocks ino + 255) mod 256\<rparr>)"
  have i: "i < n" using Suc.hyps(2) by simp
  have t: "t = release_blocks k l off n (Suc i) s1"
    using Suc.prems(1,8) i by (auto simp: release_blocks.simps [of k l off n i s] s1_def)
  have b: "?b < n_bits (data_bitmap s)" using Suc.prems(5) i by simp
  have n1: "inodes s1 k = (inodes s k)\<lparr>i_n_blocks := i_n_blocks (inodes s k) - 1\<rparr>"
  proof -
    have "(i_n_blocks (inodes s k) + 255) mod 256 = i_n_blocks (inodes s k) - 1"
      using Suc.prems(6,7) i by (cases "i_n_blocks (inodes s k)") auto
    then show ?thesis by (simp add: s1_def upd_inode_def)
  qed
  have rest: "inode_bitmap s1 = inode_bitmap s" "superblock s1 = superblock s" "data s1 = data s"
    "data_bitmap s1 = clear_bit (data_bitmap s) ?b" "\<And>j. j \<noteq> k \<Longrightarrow> inodes s1 j = inodes s j"
    by (simp_all add: s1_def upd_inode_def)
  have "bitmap_ok (data_bitmap t) \<and> n_bits (data_bitmap t) = n_bits (data_bitmap s1) \<and>
    (\<forall>b. used_bit (data_bitmap t) b \<longleftrightarrow>
       used_bit (data_bitmap s1) b \<and> b \<notin> (!) (i_data_blocks (inodes s1 k)) ` {Suc i..<n}) \<and>
    inode_bitmap t = inode_bitmap s1 \<and> superblock t = superblock s1 \<and> data t = data s1 \<and>
    inodes t k = (inodes s1 k)\<lparr>i_n_blocks := i_n_blocks (inodes s1 k) - (n - Suc i)\<rparr> \<and>
    (\<forall>j. j \<noteq> k \<longrightarrow> inodes t j = inodes s1 j)"
    using Suc.hyps(2) Suc.prems i b n1 rest
    by (intro Suc.hyps(1)) (auto simp: t)
  moreover have "{i..<n} = insert i {Suc i..<n}" using i by auto
  ultimately show ?case
    using Suc.prems(4) b n1 rest i by (auto simp: bits.used_unmark)
qed

text \<open>The invariant after inode \<open>k\<close> gave up its blocks from number \<open>m\<close> on.\<close>

lemma release_tail_ok:
  assumes ok: "blocks_ok s" "k \<in> live s" and m: "m \<le> i_n_blocks (inodes s k)"
    and bm: "bitmap_ok (data_bitmap u)" "n_bits (data_bitmap u) = n_bits (data_bitmap s)"
      "\<And>b. used_bit (data_bitmap u) b \<longleftrightarrow> used_bit (data_bitmap s) b \<and>
         b \<notin> (!) (i_data_blocks (inodes s k)) ` {m..<i_n_blocks (inodes s k)}"
      "inode_bitmap u = inode_bitmap s"
    and ino: "i_ino (inodes u k) = i_ino (inodes s k)"
      "i_data_blocks (inodes u k) = i_data_blocks (inodes s k)"
      "i_n_blocks (inodes u k) = m" "i_size (inodes u k) \<le> m * BLOCK_SIZE"
      "\<And>j. j \<noteq> k \<Longrightarrow> inodes u j = inodes s j"
  shows "blocks_ok u"
proof -
  let ?n = "i_n_blocks (inodes s k)" and ?at = "(!) (i_data_blocks (inodes s k))"
  have live: "live u = live s" by (simp add: live_def bm(4))
  have owns: "owns u j = (if j = k then ?at ` {..<m} else owns s j)" for j
    by (simp add: owns_def ino)
  have "{..<?n} = {..<m} \<union> {m..<?n}" using m by auto
  then have parts: "owns s k = ?at ` {..<m} \<union> ?at ` {m..<?n}" by (simp add: owns_def image_Un)
  have apart: "?at ` {..<m} \<inter> ?at ` {m..<?n} = {}"
    using blocks_okD(4) [OF ok] m by (force dest: inj_onD)
  have inok: "inode_ok u j" if "j \<in> live s" for j
  proof (cases "j = k")
    case True
    have "inj_on ?at {..<m}" using blocks_okD(4) [OF ok] m by (auto intro: inj_on_subset)
    with True show ?thesis
      using blocks_okD(1-3) [OF ok] m ino by (simp add: inode_ok_def)
  next
    case False
    then show ?thesis using ok(1) that by (simp add: inode_ok_def blocks_ok_def ino)
  qed
  have sub: "owns u j \<subseteq> owns s j" for j using parts by (auto simp: owns)
  have disj: "owns u i \<inter> owns u j = {}" if "i \<in> live s" "j \<in> live s" "i \<noteq> j" for i j
    using ok(1) that sub [of i] sub [of j] by (fastforce simp: blocks_ok_def)
  have "(\<Union>j \<in> live s. owns u j) = (\<Union>j \<in> live s. owns s j) - ?at ` {m..<?n}" (is "?L = ?R")
  proof
    show "?L \<subseteq> ?R"
    proof
      fix b assume "b \<in> ?L"
      then obtain j where j: "j \<in> live s" "b \<in> owns u j" by blast
      have "b \<notin> ?at ` {m..<?n}"
      proof (cases "j = k")
        case True
        with j apart show ?thesis by (auto simp: owns)
      next
        case False
        then have "owns s j \<inter> owns s k = {}" using ok j(1) by (auto simp: blocks_ok_def)
        with j False parts show ?thesis by (auto simp: owns)
      qed
      with j sub show "b \<in> ?R" by blast
    qed
    show "?R \<subseteq> ?L" using parts ok(2) by (auto simp: owns)
  qed
  also have "\<dots> = {b. used_bit (data_bitmap u) b}"
    using ok(1) bm(3) by (auto simp: blocks_ok_def)
  finally have cover: "(\<Union>j \<in> live s. owns u j) = {b. used_bit (data_bitmap u) b}" .
  have lens: "length (i_data_blocks (inodes u j)) = N_DATA_BLOCKS_PER_INODE" for j
    using ok(1) by (cases "j = k") (auto simp: blocks_ok_def ino)
  have "bitmaps_ok u" using ok(1) bm by (simp add: blocks_ok_def bitmaps_ok_def)
  then show ?thesis
    unfolding blocks_ok_def live using inok disj cover lens by auto
qed

text \<open>Giving the inode itself up, once it owns no block.\<close>

lemma drop_inode_ok:
  assumes ok: "blocks_ok s" "k \<in> live s" and n: "i_n_blocks (inodes s k) = 0"
    and u: "u = s\<lparr>inode_bitmap := clear_bit (inode_bitmap s) k\<rparr>"
  shows "blocks_ok u" "live u = live s - {k}"
proof -
  have bm: "bitmap_ok (inode_bitmap s)" using ok(1) by (simp add: blocks_ok_def bitmaps_ok_def)
  have "k < n_bits (inode_bitmap s)" using ok(2) by (simp add: live_def used_bit_def)
  with bm show live: "live u = live s - {k}" by (auto simp: live_def u used_clear_bit)
  have own: "owns u j = owns s j" for j by (simp add: owns_def u)
  have none: "owns s k = {}" using n by (simp add: owns_def)
  have "(\<Union>j \<in> live u. owns u j) = (\<Union>j \<in> live s. owns s j)" using none by (auto simp: live own)
  then have cover: "(\<Union>j \<in> live u. owns u j) = {b. used_bit (data_bitmap u) b}"
    using ok(1) by (simp add: blocks_ok_def u)
  have io: "inode_ok u j = inode_ok s j" for j by (simp add: inode_ok_def u)
  have "bitmaps_ok u" "\<forall>j. length (i_data_blocks (inodes u j)) = N_DATA_BLOCKS_PER_INODE"
    using ok(1) by (simp_all add: blocks_ok_def bitmaps_ok_def u)
  then show "blocks_ok u"
    unfolding blocks_ok_def using ok(1) cover by (auto simp: live own io blocks_ok_def)
qed

end
