(* ===== verification/FsContent.thy ===== *)
theory FsContent
  imports FsBlocks
begin

text \<open>
  What the file operations of fisopfs do to the contents of files: writing is the splice of
  a buffer into a byte list, shrinking is \<open>take\<close>, reading is \<open>take\<close> after \<open>drop\<close>; the
  contents of all other files stay as they were and block ownership stays consistent.
\<close>

text \<open>The list specification of a write at \<open>off\<close>.\<close>

definition splice :: "'a list \<Rightarrow> nat \<Rightarrow> 'a list \<Rightarrow> 'a list" where
  "splice xs off bs = take off xs @ bs @ drop (off + length bs) xs"

lemma splice_Nil [simp]: "off \<le> length xs \<Longrightarrow> splice xs off [] = xs"
  by (simp add: splice_def)

lemma length_splice [simp]:
  "off \<le> length xs \<Longrightarrow> length (splice xs off bs) = max (length xs) (off + length bs)"
  by (simp add: splice_def)

lemma nth_splice:
  "off \<le> length xs \<Longrightarrow> p < length (splice xs off bs) \<Longrightarrow>
     splice xs off bs ! p = (if off \<le> p \<and> p < off + length bs then bs ! (p - off) else xs ! p)"
  by (auto simp: splice_def nth_append min_def)

lemma splice_splice:
  assumes "off \<le> length xs"
  shows "splice (splice xs off bs) (off + length bs) cs = splice xs off (bs @ cs)"
proof -
  have "take (off + length bs) (splice xs off bs) = take off xs @ bs"
    using assms by (simp add: splice_def)
  moreover have "drop (off + length bs + length cs) (splice xs off bs) =
      drop (off + length bs + length cs) xs"
    using assms by (simp add: splice_def add.commute add.left_commute)
  ultimately show ?thesis
    unfolding splice_def [of "splice xs off bs"] splice_def [of xs off "bs @ cs"]
    by (simp add: add.assoc)
qed

text \<open>An operation on the file of inode \<open>k\<close> leaves everything else alone.\<close>

definition only_file :: "nat \<Rightarrow> fs \<Rightarrow> fs \<Rightarrow> bool" where
  "only_file k s s' \<longleftrightarrow> inode_bitmap s' = inode_bitmap s \<and> superblock s' = superblock s \<and>
     (\<forall>j. j \<noteq> k \<longrightarrow> inodes s' j = inodes s j) \<and>
     (\<forall>j \<in> live s. j \<noteq> k \<longrightarrow> content s' j = content s j) \<and>
     i_mode (inodes s' k) = i_mode (inodes s k) \<and> i_parent (inodes s' k) = i_parent (inodes s k)"

lemma only_file_refl [simp]: "only_file k s s"
  by (simp add: only_file_def)

lemma only_file_trans: "only_file k s t \<Longrightarrow> only_file k t u \<Longrightarrow> only_file k s u"
  by (auto simp: only_file_def live_def)

lemma only_file_live: "only_file k s s' \<Longrightarrow> live s' = live s"
  by (simp add: only_file_def live_def)

lemma content_cong:
  "i_size (inodes s' j) = i_size (inodes s j) \<Longrightarrow>
     (\<And>p. p < i_size (inodes s j) \<Longrightarrow> file_byte s' j p = file_byte s j p) \<Longrightarrow>
     content s' j = content s j"
  by (simp add: content_def)

lemma size_in_blocks:
  "blocks_ok s \<Longrightarrow> j \<in> live s \<Longrightarrow> p < i_size (inodes s j) \<Longrightarrow> p < i_n_blocks (inodes s j) * BLOCK_SIZE"
  using blocks_okD(5) [of s j] by simp

section \<open>One block\<close>

lemma append_block_content:
  assumes "blocks_ok s" "k \<in> live s" "i_n_blocks (inodes s k) < N_DATA_BLOCKS_PER_INODE" "j \<in> live s"
  shows "content (append_block s k b) j = content s j"
proof (rule content_cong)
  show "i_size (inodes (append_block s k b) j) = i_size (inodes s j)"
    using append_block_inode [OF assms(1-3)] by (cases "j = k") simp_all
  show "file_byte (append_block s k b) j p = file_byte s j p" if "p < i_size (inodes s j)" for p
    using assms that by (intro file_byte_append_block size_in_blocks)
qed

lemma store_step:
  fixes s :: fs
  assumes ok: "blocks_ok s" "k \<in> live s" "i < i_n_blocks (inodes s k)"
    and off: "off + length bs \<le> BLOCK_SIZE" "i * BLOCK_SIZE + off \<le> i_size (inodes s k)"
    and f: "i_ino (f (inodes s k)) = i_ino (inodes s k)"
      "i_data_blocks (f (inodes s k)) = i_data_blocks (inodes s k)"
      "i_n_blocks (f (inodes s k)) = i_n_blocks (inodes s k)"
      "i_mode (f (inodes s k)) = i_mode (inodes s k)"
      "i_parent (f (inodes s k)) = i_parent (inodes s k)"
      "i_size (f (inodes s k)) = max (i_size (inodes s k)) (i * BLOCK_SIZE + off + length bs)"
    and t: "t = upd_inode (s\<lparr>data := store_bytes (data s)
      (i_data_blocks (inodes s k) ! i * BLOCK_SIZE + off) bs\<rparr>) k f"
  shows "blocks_ok t" "only_file k s t"
    "content t k = splice (content s k) (i * BLOCK_SIZE + off) bs"
proof -
  let ?d = "s\<lparr>data := store_bytes (data s) (i_data_blocks (inodes s k) ! i * BLOCK_SIZE + off) bs\<rparr>"
  have "Suc i * BLOCK_SIZE \<le> i_n_blocks (inodes s k) * BLOCK_SIZE"
    using ok(3) by (intro mult_le_mono1) simp
  then have room: "i * BLOCK_SIZE + off + length bs \<le> i_n_blocks (inodes s k) * BLOCK_SIZE"
    using off by simp
  show "blocks_ok t"
    unfolding t using ok f room blocks_okD(5) [OF ok(1,2)]
    by (intro blocks_ok_upd_inode) simp_all
  have fb: "file_byte t j p = file_byte ?d j p" for j p
    unfolding t using f(2) by (intro file_byte_upd_inode) simp
  have other: "content t j = content s j" if "j \<in> live s" "j \<noteq> k" for j
  proof (rule content_cong)
    show "i_size (inodes t j) = i_size (inodes s j)" using that by (simp add: t upd_inode_def)
    show "file_byte t j p = file_byte s j p" if "p < i_size (inodes s j)" for p
      unfolding fb using ok off(1) \<open>j \<in> live s\<close> \<open>j \<noteq> k\<close> that
      by (intro file_byte_store_other size_in_blocks)
  qed
  show "only_file k s t"
    using other f by (simp add: only_file_def t upd_inode_def)
  have sz: "i_size (inodes t k) = max (i_size (inodes s k)) (i * BLOCK_SIZE + off + length bs)"
    using f by (simp add: t)
  show "content t k = splice (content s k) (i * BLOCK_SIZE + off) bs"
  proof (rule nth_equalityI)
    show "length (content t k) = length (splice (content s k) (i * BLOCK_SIZE + off) bs)"
      using off by (simp add: sz)
    fix p assume "p < length (content t k)"
    then have p: "p < max (i_size (inodes s k)) (i * BLOCK_SIZE + off + length bs)" by (simp add: sz)
    then have pn: "p < i_n_blocks (inodes s k) * BLOCK_SIZE"
      using room blocks_okD(5) [OF ok(1,2)] by linarith
    have "content t k ! p = file_byte ?d k p" using p by (simp add: nth_content sz fb)
    also have "\<dots> = (if i * BLOCK_SIZE + off \<le> p \<and> p < i * BLOCK_SIZE + off + length bs
        then bs ! (p - (i * BLOCK_SIZE + off)) else file_byte s k p)"
      using ok off(1) pn by (rule file_byte_store_same)
    also have "\<dots> = splice (content s k) (i * BLOCK_SIZE + off) bs ! p"
      using p off(2) by (auto simp: nth_splice nth_content)
    finally show "content t k ! p = splice (content s k) (i * BLOCK_SIZE + off) bs ! p" .
  qed
qed

lemma file_block_spec:
  assumes ok: "blocks_ok s" "k \<in> live s"
    and i: "i \<le> i_n_blocks (inodes s k)" "i < N_DATA_BLOCKS_PER_INODE"
  obtains (full) "file_block s k i = Some (None, s)" "get_free_bit (data_bitmap s) < 0"
  | (block) s1 where "file_block s k i = Some (Some (i_data_blocks (inodes s1 k) ! i * BLOCK_SIZE), s1)"
    "blocks_ok s1" "only_file k s s1" "content s1 k = content s k" "i < i_n_blocks (inodes s1 k)"
    "i_size (inodes s1 k) = i_size (inodes s k)" "i_n_blocks (inodes s k) \<le> i_n_blocks (inodes s1 k)"
proof (cases "i < i_n_blocks (inodes s k)")
  case True
  then have "file_block s k i = Some (Some (i_data_blocks (inodes s k) ! i * BLOCK_SIZE), s)"
    using owned_get_data_block [OF ok True] i(2) by (simp add: file_block_def)
  with True ok show ?thesis by (intro block [of s]) simp_all
next
  case False
  with i have n: "i = i_n_blocks (inodes s k)" by simp
  show ?thesis
  proof (cases "get_free_bit (data_bitmap s) < 0")
    case True
    then have "file_block s k i = Some (None, s)"
      using n by (simp add: file_block_def init_data_block_def)
    then show ?thesis using True by (rule full)
  next
    case False
    then obtain b where b: "get_free_bit (data_bitmap s) = int b"
      by (metis linorder_not_less zero_le_imp_eq_int)
    have n32: "i_n_blocks (inodes s k) < N_DATA_BLOCKS_PER_INODE" using i n by simp
    have "b < N_DATA_BLOCKS" using fresh_block(1) [OF ok(1) b] by (simp add: layout)
    then have fb: "file_block s k i = Some (Some (b * BLOCK_SIZE), append_block s k b)"
      using n n32 b
      by (simp add: file_block_def init_data_block_def get_data_block_def append_block_def Let_def
          upd_inode_def)
    have "i_data_blocks (inodes (append_block s k b) k) ! i = b"
      using append_block_inode [OF ok n32] n n32 blocks_okD(2) [OF ok] by simp
    moreover have "only_file k s (append_block s k b)"
      using append_block_content [OF ok n32] append_block_inode [OF ok n32, of b]
      by (simp add: only_file_def)
    ultimately show ?thesis
      using fb append_block_ok [OF ok n32 b] append_block_content [OF ok n32 ok(2)]
        append_block_inode [OF ok n32, of b] n
      by (intro block [of "append_block s k b"]) simp_all
  qed
qed

section \<open>Fresh inodes\<close>

lemma zero_bitmap [simp]:
  "bitmap_ok (zero_bitmap n)" "n_bits (zero_bitmap n) = n div BITS_PER_WORD * BITS_PER_WORD"
  "\<not> used_bit (zero_bitmap n) b"
  by (auto simp: bitmap_ok_def n_bits_def zero_bitmap_def used_bit_def get_bit_def WORD_OFFSET_def
      BITS_PER_WORD_def less_mult_imp_div_less)

lemma blocks_ok_zero_fs: "blocks_ok zero_fs"
  by (simp add: blocks_ok_def bitmaps_ok_def zero_fs_def live_def zero_inode_def layout
      BITS_PER_WORD_def)

lemma init_inode_spec:
  assumes ok: "blocks_ok s" and run: "init_inode c s md = Some (k, t)"
  shows "blocks_ok t" "k \<notin> live s" "k < N_INODES" "live t = insert k (live s)"
    "i_mode (inodes t k) = md" "i_size (inodes t k) = 0" "i_n_blocks (inodes t k) = 0"
    "data t = data s" "data_bitmap t = data_bitmap s" "superblock t = superblock s"
    "\<And>j. j \<noteq> k \<Longrightarrow> inodes t j = inodes s j" "i_ino (inodes t k) = k"
    "\<And>j. j \<in> live s \<Longrightarrow> content t j = content s j"
proof -
  have k: "get_free_bit (inode_bitmap s) = int k"
    and t: "t = upd_inode (s\<lparr>inode_bitmap := set_bit (inode_bitmap s) k\<rparr>) k (\<lambda>i. i\<lparr>i_ino := k, i_mode := md,
       i_uid := cx_uid c, i_gid := cx_gid c, i_size := 0, i_n_blocks := 0,
       i_atim := cx_time c, i_mtim := cx_time c, i_ctim := cx_time c\<rparr>)"
    using run by (auto simp: init_inode_def Let_def split: if_splits)
  have bm: "bitmap_ok (inode_bitmap s)" "n_bits (inode_bitmap s) = N_INODES"
    using ok by (simp_all add: blocks_ok_def bitmaps_ok_def)
  from bits.pick_free [OF k] bm(2) show kN: "k < N_INODES" and kl: "k \<notin> live s"
    by (auto simp: live_def)
  show "i_mode (inodes t k) = md" "i_size (inodes t k) = 0" "i_n_blocks (inodes t k) = 0"
    "data t = data s" "data_bitmap t = data_bitmap s" "superblock t = superblock s"
    "i_ino (inodes t k) = k" by (simp_all add: t)
  show other: "inodes t j = inodes s j" if "j \<noteq> k" for j using that by (simp add: t)
  show lv: "live t = insert k (live s)"
    using bits.used_mark [OF bm(1), of k] kN bm(2) by (auto simp: live_def t)
  show "content t j = content s j" if "j \<in> live s" for j
  proof -
    have "j \<noteq> k" using kl that by auto
    then show ?thesis by (simp add: content_def file_byte_def t)
  qed
  have ow: "owns t j = (if j = k then {} else owns s j)" for j
    by (simp add: owns_def t)
  have ik: "inode_ok t k" using ok by (simp add: inode_ok_def t blocks_ok_def)
  have io: "inode_ok t j" if "j \<in> live s" for j
    using ok that kl by (cases "j = k") (auto simp: inode_ok_def blocks_ok_def other)
  have un: "(\<Union>j \<in> live t. owns t j) = (\<Union>j \<in> live s. owns s j)"
    using kl by (auto simp: lv ow)
  have len: "length (i_data_blocks (inodes t j)) = N_DATA_BLOCKS_PER_INODE" for j
    using ok by (cases "j = k") (auto simp: t blocks_ok_def)
  have db: "data_bitmap t = data_bitmap s" and bmt: "bitmaps_ok t"
    using ok by (simp_all add: t blocks_ok_def bitmaps_ok_def)
  have disj: "\<forall>i \<in> live t. \<forall>j \<in> live t. i \<noteq> j \<longrightarrow> owns t i \<inter> owns t j = {}"
    using ok by (auto simp: lv ow blocks_ok_def)
  show "blocks_ok t"
    unfolding blocks_ok_def un
    using ok ik io len disj bmt by (auto simp: lv db blocks_ok_def)
qed

end
