(* ===== verification/FsWrite.thy ===== *)
theory FsWrite
  imports FsContent
begin

text \<open>
  The correctness of \<open>write_file\<close>, \<open>fisopfs_read\<close> and \<open>shrink_file\<close> of fisopfs/fisopfs.c
  against the list specification: splice, \<open>take\<close> after \<open>drop\<close>, and \<open>take\<close>.
\<close>

section \<open>The positions of the write loop\<close>

text \<open>How many bytes are written when the loop reaches block \<open>i\<close>.\<close>

definition bytes_at :: "nat \<Rightarrow> nat \<Rightarrow> nat \<Rightarrow> nat" where
  "bytes_at sz offset i = (if i \<le> offset div BLOCK_SIZE then 0 else min sz (i * BLOCK_SIZE - offset))"

definition start_at :: "nat \<Rightarrow> nat \<Rightarrow> nat" where
  "start_at offset i = (if i = offset div BLOCK_SIZE then offset mod BLOCK_SIZE else 0)"

definition size_at :: "nat \<Rightarrow> nat \<Rightarrow> nat \<Rightarrow> nat" where
  "size_at sz offset i =
     (if i = (sz + offset) div BLOCK_SIZE then (sz + offset) mod BLOCK_SIZE - start_at offset i
      else if i = offset div BLOCK_SIZE then BLOCK_SIZE - offset mod BLOCK_SIZE else BLOCK_SIZE)"

lemma positions:
  fixes B qo ro qe re i sz off :: nat
  assumes o: "qo * B + ro = off" "ro < B" and e: "qe * B + re = sz + off" "re < B"
    and i: "qo \<le> i" "i \<le> qe"
  defines "st \<equiv> if i = qo then ro else 0"
  defines "ws \<equiv> if i = qe then re - st else if i = qo then B - ro else B"
  defines "bw \<equiv> \<lambda>j. if j \<le> qo then 0 else min sz (j * B - off)"
  shows "i * B + st = off + bw i" "st + ws \<le> B" "bw (Suc i) = bw i + ws" "bw i + ws \<le> sz"
proof -
  have 1: "Suc qo * B \<le> i * B" if "i \<noteq> qo" using that i by (intro mult_le_mono1) simp
  have 2: "Suc i * B \<le> qe * B" if "i \<noteq> qe" using that i by (intro mult_le_mono1) simp
  have 3: "i * B \<le> sz + off" using mult_le_mono1 [OF i(2), of B] e by linarith
  show "i * B + st = off + bw i"
    using o e i 1 3 by (cases "i = qo") (auto simp: st_def bw_def min_def)
  show "st + ws \<le> B" using o e by (auto simp: st_def ws_def)
  show suc: "bw (Suc i) = bw i + ws"
    using o e i 1 2 by (cases "i = qo"; cases "i = qe") (auto simp: st_def bw_def ws_def min_def)
  have "bw (Suc i) \<le> sz" by (simp add: bw_def)
  with suc show "bw i + ws \<le> sz" by simp
qed

lemma loop_positions:
  assumes "offset div BLOCK_SIZE \<le> i" "i \<le> (sz + offset) div BLOCK_SIZE"
  shows "i * BLOCK_SIZE + start_at offset i = offset + bytes_at sz offset i"
    "start_at offset i + size_at sz offset i \<le> BLOCK_SIZE"
    "bytes_at sz offset (Suc i) = bytes_at sz offset i + size_at sz offset i"
    "bytes_at sz offset i + size_at sz offset i \<le> sz"
  unfolding start_at_def size_at_def bytes_at_def
  by (rule positions [OF div_mult_mod_eq mod_less_divisor div_mult_mod_eq mod_less_divisor assms]; simp)+

section \<open>Writing\<close>

definition write_step :: "ctx \<Rightarrow> nat \<Rightarrow> byte list \<Rightarrow> nat \<Rightarrow> nat \<Rightarrow> nat \<Rightarrow> nat \<Rightarrow> fs \<Rightarrow> fs" where
  "write_step c k buffer offset i block bw s =
     (let bs = take (size_at (length buffer) offset i) (drop bw buffer);
          written = bw + size_at (length buffer) offset i
      in upd_inode (s\<lparr>data := store_bytes (data s) (block + start_at offset i) bs\<rparr>) k
           (\<lambda>ino. ino\<lparr>i_size := (if i_size ino > offset + written then i_size ino
                                  else offset + written),
                       i_atim := cx_time c, i_mtim := cx_time c\<rparr>))"

lemma write_blocks_unfold:
  "write_blocks c k buffer offset i bw s =
     (if i \<le> (length buffer + offset) div BLOCK_SIZE then
        case file_block s k i of
          None \<Rightarrow> None
        | Some (None, s1) \<Rightarrow> Some (bw, s1)
        | Some (Some block, s1) \<Rightarrow> write_blocks c k buffer offset (Suc i)
            (bw + size_at (length buffer) offset i) (write_step c k buffer offset i block bw s1)
      else Some (bw, s))"
  unfolding write_blocks.simps [of c k buffer offset i bw s]
  unfolding Let_def write_step_def size_at_def start_at_def by (rule refl)

lemma write_step_spec:
  assumes ok: "blocks_ok s" "k \<in> live s" "i < i_n_blocks (inodes s k)"
    and i: "offset div BLOCK_SIZE \<le> i" "i \<le> (length buffer + offset) div BLOCK_SIZE"
    and sz: "offset + bytes_at (length buffer) offset i \<le> i_size (inodes s k)"
    and t: "t = write_step c k buffer offset i (i_data_blocks (inodes s k) ! i * BLOCK_SIZE)
      (bytes_at (length buffer) offset i) s"
  shows "blocks_ok t" "only_file k s t"
    "content t k = splice (content s k) (offset + bytes_at (length buffer) offset i)
       (take (size_at (length buffer) offset i) (drop (bytes_at (length buffer) offset i) buffer))"
    "i_n_blocks (inodes t k) = i_n_blocks (inodes s k)"
    "data_bitmap t = data_bitmap s"
    "offset + bytes_at (length buffer) offset (Suc i) \<le> i_size (inodes t k)"
proof -
  let ?bs = "take (size_at (length buffer) offset i) (drop (bytes_at (length buffer) offset i) buffer)"
  note pos = loop_positions [OF i]
  have len: "length ?bs = size_at (length buffer) offset i" using pos(4) by simp
  note step = store_step [OF ok, of "start_at offset i" ?bs "\<lambda>ino. ino
    \<lparr>i_size := (if i_size ino > offset + (bytes_at (length buffer) offset i + size_at (length buffer) offset i)
        then i_size ino else offset + (bytes_at (length buffer) offset i + size_at (length buffer) offset i)),
     i_atim := cx_time c, i_mtim := cx_time c\<rparr>", unfolded pos(1) len]
  have tt: "t = upd_inode (s\<lparr>data := store_bytes (data s) (i_data_blocks (inodes s k) ! i * BLOCK_SIZE +
      start_at offset i) ?bs\<rparr>) k (\<lambda>ino. ino
    \<lparr>i_size := (if i_size ino > offset + (bytes_at (length buffer) offset i + size_at (length buffer) offset i)
        then i_size ino else offset + (bytes_at (length buffer) offset i + size_at (length buffer) offset i)),
     i_atim := cx_time c, i_mtim := cx_time c\<rparr>)"
    by (simp add: t write_step_def Let_def)
  show "blocks_ok t" by (rule step(1) [OF pos(2) sz _ _ _ _ _ _ tt]) simp_all
  show "only_file k s t" by (rule step(2) [OF pos(2) sz _ _ _ _ _ _ tt]) simp_all
  show "content t k = splice (content s k) (offset + bytes_at (length buffer) offset i) ?bs"
    by (rule step(3) [OF pos(2) sz _ _ _ _ _ _ tt]) simp_all
  show "i_n_blocks (inodes t k) = i_n_blocks (inodes s k)" "data_bitmap t = data_bitmap s"
    by (simp_all add: tt)
  show "offset + bytes_at (length buffer) offset (Suc i) \<le> i_size (inodes t k)"
    by (simp add: tt pos(3))
qed

lemma bytes_at_simps:
  "bytes_at sz offset (offset div BLOCK_SIZE) = 0"
  "bytes_at sz offset (Suc ((sz + offset) div BLOCK_SIZE)) = sz"
proof -
  have "sz + offset < Suc ((sz + offset) div BLOCK_SIZE) * BLOCK_SIZE"
    by (metis BLOCK_SIZE_pos dividend_less_div_times mult.commute mult_Suc add.commute)
  moreover have "offset div BLOCK_SIZE \<le> (sz + offset) div BLOCK_SIZE" by (simp add: div_le_mono)
  ultimately show "bytes_at sz offset (Suc ((sz + offset) div BLOCK_SIZE)) = sz"
    by (simp add: bytes_at_def)
qed (simp add: bytes_at_def)

definition written :: "nat \<Rightarrow> byte list \<Rightarrow> nat \<Rightarrow> nat \<Rightarrow> fs \<Rightarrow> nat \<Rightarrow> fs \<Rightarrow> bool" where
  "written k buffer offset bw s n s' \<longleftrightarrow> blocks_ok s' \<and> only_file k s s' \<and>
     bw \<le> n \<and> n \<le> length buffer \<and> (n = length buffer \<or> get_free_bit (data_bitmap s') < 0) \<and>
     content s' k = splice (content s k) (offset + bw) (take (n - bw) (drop bw buffer))"

lemma written_step:
  assumes "only_file k s t" "offset + bw \<le> i_size (inodes s k)"
    and "content t k = splice (content s k) (offset + bw) (take ws (drop bw buffer))"
    and "bw + ws \<le> length buffer" "written k buffer offset (bw + ws) t n s'"
  shows "written k buffer offset bw s n s'"
proof -
  have "content s' k = splice (content t k) (offset + bw + ws)
      (take (n - (bw + ws)) (drop (bw + ws) buffer))" "bw + ws \<le> n"
    using assms(5) by (simp_all add: written_def add.assoc)
  moreover have "take (n - bw) (drop bw buffer) =
      take ws (drop bw buffer) @ take (n - (bw + ws)) (drop (bw + ws) buffer)"
    using \<open>bw + ws \<le> n\<close> take_add [of ws "n - (bw + ws)" "drop bw buffer"]
    by (simp add: add.commute)
  moreover have "length (take ws (drop bw buffer)) = ws" using assms(4) by simp
  ultimately have "content s' k = splice (content s k) (offset + bw) (take (n - bw) (drop bw buffer))"
    using assms(2,3) splice_splice [of "offset + bw" "content s k" "take ws (drop bw buffer)"
        "take (n - (bw + ws)) (drop (bw + ws) buffer)"]
    by simp
  with assms(1,5) show ?thesis
    by (auto simp: written_def intro: only_file_trans)
qed

lemma fresh_get_data_block:
  "blocks_ok s \<Longrightarrow> \<not> get_free_bit (data_bitmap s) < 0 \<Longrightarrow>
     get_data_block (nat (get_free_bit (data_bitmap s))) \<noteq> None"
  using fresh_block(1) [of s "nat (get_free_bit (data_bitmap s))"]
  by (simp add: get_data_block_def layout)

lemma write_blocks_spec_le:
  assumes "blocks_ok s" "k \<in> live s" "offset div BLOCK_SIZE \<le> i"
    and "i \<le> Suc ((length buffer + offset) div BLOCK_SIZE)" "i \<le> i_n_blocks (inodes s k)"
    and "offset + bytes_at (length buffer) offset i \<le> i_size (inodes s k)"
    and "length buffer + offset \<le> N_DATA_BLOCKS_PER_INODE * BLOCK_SIZE"
  shows "(write_blocks c k buffer offset i (bytes_at (length buffer) offset i) s = None \<and>
      length buffer + offset = N_DATA_BLOCKS_PER_INODE * BLOCK_SIZE) \<or>
    (\<exists>n s'. write_blocks c k buffer offset i (bytes_at (length buffer) offset i) s = Some (n, s') \<and>
      written k buffer offset (bytes_at (length buffer) offset i) s n s')"
  using assms
proof (induction "Suc ((length buffer + offset) div BLOCK_SIZE) - i" arbitrary: i s)
  case 0
  then have i: "i = Suc ((length buffer + offset) div BLOCK_SIZE)" by simp
  with 0 show ?case
    by (simp add: write_blocks_unfold bytes_at_simps written_def)
next
  case (Suc d)
  let ?sz = "length buffer"
  have i: "i \<le> (?sz + offset) div BLOCK_SIZE" using Suc.hyps(2) by linarith
  note pos = loop_positions [OF Suc.prems(3) i]
  show ?case
  proof (cases "i < N_DATA_BLOCKS_PER_INODE")
    case False
    then have n: "i = N_DATA_BLOCKS_PER_INODE" "i_n_blocks (inodes s k) = N_DATA_BLOCKS_PER_INODE"
      using Suc.prems(5) blocks_okD(3) [OF Suc.prems(1,2)] by auto
    have "i * BLOCK_SIZE \<le> ?sz + offset"
      using mult_le_mono1 [OF i, of BLOCK_SIZE] by (metis div_times_less_eq_dividend le_trans)
    then have eq: "?sz + offset = N_DATA_BLOCKS_PER_INODE * BLOCK_SIZE" using n Suc.prems(7) by simp
    have "bytes_at ?sz offset i \<le> ?sz" by (simp add: bytes_at_def)
    then show ?thesis using i n eq Suc.prems(1,6) fresh_get_data_block [OF Suc.prems(1)]
      by (auto simp: write_blocks_unfold file_block_def init_data_block_def Let_def written_def
          split: option.splits)
  next
    case i32: True
    from Suc.prems(1,2,5) i32 show ?thesis
    proof (cases rule: file_block_spec)
      case full
      then show ?thesis using Suc.prems pos(4) i by (simp add: write_blocks_unfold written_def)
    next
      case (block s1)
      let ?bl = "i_data_blocks (inodes s1 k) ! i * BLOCK_SIZE"
      define t where "t = write_step c k buffer offset i ?bl (bytes_at ?sz offset i) s1"
      have live1: "k \<in> live s1" using block(3) Suc.prems(2) by (simp add: only_file_live)
      have size1: "offset + bytes_at ?sz offset i \<le> i_size (inodes s1 k)"
        using Suc.prems(6) block(6) by simp
      note st = write_step_spec [OF block(2) live1 block(5) Suc.prems(3) i size1 t_def]
      have livet: "k \<in> live t" using st(2) live1 by (simp add: only_file_live)
      have d: "d = Suc ((?sz + offset) div BLOCK_SIZE) - Suc i" using Suc.hyps(2) by linarith
      have si: "Suc i \<le> Suc ((?sz + offset) div BLOCK_SIZE)" "Suc i \<le> i_n_blocks (inodes t k)"
        "offset div BLOCK_SIZE \<le> Suc i"
        using i st(4) block(5) Suc.prems(3) by simp_all
      have IH: "(write_blocks c k buffer offset (Suc i) (bytes_at ?sz offset (Suc i)) t = None \<and>
          ?sz + offset = N_DATA_BLOCKS_PER_INODE * BLOCK_SIZE) \<or>
        (\<exists>n s'. write_blocks c k buffer offset (Suc i) (bytes_at ?sz offset (Suc i)) t = Some (n, s') \<and>
          written k buffer offset (bytes_at ?sz offset (Suc i)) t n s')"
        using Suc.hyps(1) [OF d st(1) livet si(3,1,2) st(6) Suc.prems(7)] by blast
      have step: "write_blocks c k buffer offset i (bytes_at ?sz offset i) s =
          write_blocks c k buffer offset (Suc i) (bytes_at ?sz offset (Suc i)) t"
        using i block(1) pos(3) by (simp add: write_blocks_unfold [of c k buffer offset i] t_def)
      have "written k buffer offset (bytes_at ?sz offset i) s n s'"
        if "written k buffer offset (bytes_at ?sz offset (Suc i)) t n s'" for n s'
      proof -
        have "written k buffer offset (bytes_at ?sz offset i) s1 n s'"
          using written_step [OF st(2) size1 st(3) pos(4)] that pos(3) by simp
        then show ?thesis using block(3,4) by (auto simp: written_def intro: only_file_trans)
      qed
      with IH step show ?thesis by auto
    qed
  qed
qed

lemma write_blocks_spec:
  assumes "blocks_ok s" "k \<in> live s" "offset div BLOCK_SIZE \<le> i"
    and "i \<le> Suc ((length buffer + offset) div BLOCK_SIZE)" "i \<le> i_n_blocks (inodes s k)"
    and "offset + bytes_at (length buffer) offset i \<le> i_size (inodes s k)"
    and "length buffer + offset < N_DATA_BLOCKS_PER_INODE * BLOCK_SIZE"
  shows "\<exists>n s'. write_blocks c k buffer offset i (bytes_at (length buffer) offset i) s = Some (n, s') \<and>
    written k buffer offset (bytes_at (length buffer) offset i) s n s'"
  using write_blocks_spec_le [OF assms(1-6)] assms(7) by fastforce

text \<open>A write whose range ends with the last byte a file can have.\<close>

lemma write_blocks_limit:
  assumes "blocks_ok s" "k \<in> live s" "offset div BLOCK_SIZE \<le> i" "i \<le> N_DATA_BLOCKS_PER_INODE"
    and "i \<le> i_n_blocks (inodes s k)"
    and "offset + bytes_at (length buffer) offset i \<le> i_size (inodes s k)"
    and "length buffer + offset = N_DATA_BLOCKS_PER_INODE * BLOCK_SIZE"
    and "write_blocks c k buffer offset i (bytes_at (length buffer) offset i) s = Some (n, s')"
  shows "get_free_bit (data_bitmap s') < 0"
  using assms
proof (induction "N_DATA_BLOCKS_PER_INODE - i" arbitrary: i s)
  case 0
  then have "i = N_DATA_BLOCKS_PER_INODE" "i_n_blocks (inodes s k) = N_DATA_BLOCKS_PER_INODE"
    using blocks_okD(3) [of s k] by auto
  then show ?case using 0 fresh_get_data_block [OF 0(2)]
    by (auto simp: write_blocks_unfold file_block_def init_data_block_def Let_def
        split: option.splits if_splits)
next
  case (Suc d)
  let ?sz = "length buffer"
  have i32: "i < N_DATA_BLOCKS_PER_INODE" and d: "d = N_DATA_BLOCKS_PER_INODE - Suc i"
    using Suc.hyps(2) by simp_all
  have i: "i \<le> (?sz + offset) div BLOCK_SIZE" using i32 Suc.prems(7) by simp
  note pos = loop_positions [OF Suc.prems(3) i]
  from Suc.prems(1,2,5) i32 show ?case
  proof (cases rule: file_block_spec)
    case full
    then show ?thesis using Suc.prems(8) i by (simp add: write_blocks_unfold)
  next
    case (block s1)
    let ?bl = "i_data_blocks (inodes s1 k) ! i * BLOCK_SIZE"
    define t where "t = write_step c k buffer offset i ?bl (bytes_at ?sz offset i) s1"
    have live1: "k \<in> live s1" using block(3) Suc.prems(2) by (simp add: only_file_live)
    have size1: "offset + bytes_at ?sz offset i \<le> i_size (inodes s1 k)"
      using Suc.prems(6) block(6) by simp
    note st = write_step_spec [OF block(2) live1 block(5) Suc.prems(3) i size1 t_def]
    have livet: "k \<in> live t" using st(2) live1 by (simp add: only_file_live)
    have "write_blocks c k buffer offset (Suc i) (bytes_at ?sz offset (Suc i)) t = Some (n, s')"
      using Suc.prems(8) i block(1) pos(3)
      by (simp add: write_blocks_unfold [of c k buffer offset i] t_def)
    then show ?thesis
      using Suc.hyps(1) [OF d st(1) livet _ _ _ st(6) Suc.prems(7)] i32 Suc.prems(3) st(4) block(5)
      by simp
  qed
qed

section \<open>Reading\<close>

lemma block_pos: "j < BLOCK_SIZE \<Longrightarrow> (i * BLOCK_SIZE + j) div BLOCK_SIZE = i"
  "j < BLOCK_SIZE \<Longrightarrow> (i * BLOCK_SIZE + j) mod BLOCK_SIZE = j"
  by simp_all

lemma load_block:
  assumes "st + ws \<le> BLOCK_SIZE" "i * BLOCK_SIZE + st + ws \<le> i_size (inodes s k)"
  shows "load_bytes (data s) (i_data_blocks (inodes s k) ! i * BLOCK_SIZE + st) ws =
    take ws (drop (i * BLOCK_SIZE + st) (content s k))"
proof (rule nth_equalityI)
  fix j assume "j < length (load_bytes (data s) (i_data_blocks (inodes s k) ! i * BLOCK_SIZE + st) ws)"
  then have "st + j < BLOCK_SIZE" "i * BLOCK_SIZE + (st + j) < i_size (inodes s k)" "j < ws"
    using assms by simp_all
  then show "load_bytes (data s) (i_data_blocks (inodes s k) ! i * BLOCK_SIZE + st) ws ! j =
      take ws (drop (i * BLOCK_SIZE + st) (content s k)) ! j"
    by (simp add: nth_content file_byte_def block_pos add.assoc)
qed (use assms in simp)

lemma read_blocks_unfold:
  "read_blocks s k sz offset i acc =
     (if i \<le> (sz + offset) div BLOCK_SIZE then
        if i \<ge> N_DATA_BLOCKS_PER_INODE then None
        else case get_data_block (i_data_blocks (inodes s k) ! i) of
            None \<Rightarrow> if size_at sz offset i = 0 then read_blocks s k sz offset (Suc i) acc else None
          | Some p \<Rightarrow> read_blocks s k sz offset (Suc i)
              (acc @ load_bytes (data s) (p + start_at offset i) (size_at sz offset i))
      else Some acc)"
  unfolding read_blocks.simps [of s k sz offset i acc]
  unfolding Let_def size_at_def start_at_def by (rule refl)

lemma read_blocks_spec:
  assumes "blocks_ok s" "k \<in> live s" "offset div BLOCK_SIZE \<le> i"
    and "i \<le> Suc ((sz + offset) div BLOCK_SIZE)" "sz + offset \<le> i_size (inodes s k)"
    and "sz + offset < N_DATA_BLOCKS_PER_INODE * BLOCK_SIZE"
  shows "read_blocks s k sz offset i acc =
    Some (acc @ take (sz - bytes_at sz offset i) (drop (offset + bytes_at sz offset i) (content s k)))"
  using assms
proof (induction "Suc ((sz + offset) div BLOCK_SIZE) - i" arbitrary: i acc)
  case 0
  then have "i = Suc ((sz + offset) div BLOCK_SIZE)" by simp
  then show ?case by (simp add: read_blocks_unfold bytes_at_simps)
next
  case (Suc d)
  have i: "i \<le> (sz + offset) div BLOCK_SIZE" using Suc.hyps(2) by linarith
  have i32: "\<not> N_DATA_BLOCKS_PER_INODE \<le> i"
    using i Suc.prems(6) by (metis div_BLOCK_less le_less_trans not_le)
  note pos = loop_positions [OF Suc.prems(3) i]
  let ?b = "bytes_at sz offset i" and ?n = "size_at sz offset i"
  have d: "d = Suc ((sz + offset) div BLOCK_SIZE) - Suc i" using Suc.hyps(2) by linarith
  have IH: "read_blocks s k sz offset (Suc i) a = Some (a @ take (sz - (?b + ?n))
      (drop (offset + (?b + ?n)) (content s k)))" for a
    using Suc.hyps(1) [OF d Suc.prems(1,2) _ _ Suc.prems(5,6)] i Suc.prems(3) pos(3) by simp
  have split: "take (sz - ?b) (drop (offset + ?b) (content s k)) =
      take ?n (drop (offset + ?b) (content s k)) @
      take (sz - (?b + ?n)) (drop (offset + (?b + ?n)) (content s k))"
    using take_add [of ?n "sz - (?b + ?n)" "drop (offset + ?b) (content s k)"] pos(4)
    by (simp add: add.commute add.left_commute)
  show ?case
  proof (cases "?n = 0")
    case True
    then show ?thesis using i i32 split
      by (simp add: read_blocks_unfold [of s k sz offset i] IH split: option.split)
  next
    case False
    have room: "i * BLOCK_SIZE + start_at offset i + ?n \<le> i_size (inodes s k)"
      using pos(1,4) Suc.prems(5) by simp
    then have "i * BLOCK_SIZE < i_n_blocks (inodes s k) * BLOCK_SIZE"
      using False blocks_okD(5) [OF Suc.prems(1,2)] by linarith
    then have "i < i_n_blocks (inodes s k)" by simp
    then show ?thesis
      using i i32 split load_block [OF pos(2) room] pos(1) owned_get_data_block [OF Suc.prems(1,2)]
      by (simp add: read_blocks_unfold [of s k sz offset i] IH)
  qed
qed

section \<open>Shrinking\<close>

lemma ceil_div:
  fixes n B :: nat
  assumes "0 < B"
  shows "(n + B - 1) div B = (if n mod B = 0 then n div B else Suc (n div B))"
proof -
  obtain q r where n: "n = q * B + r" "r < B"
    using assms by (metis div_mult_mod_eq mod_less_divisor)
  have "(q * B + r + B - 1) div B = (if r = 0 then q else Suc q)"
    using n(2) by (intro div_nat_eqI) (auto simp: algebra_simps)
  with n show ?thesis by simp
qed

lemma shrink_blocks:
  assumes ok: "blocks_ok s" "k \<in> live s" and len: "len < i_size (inodes s k)"
    and t: "t = release_blocks k (len div BLOCK_SIZE) (len mod BLOCK_SIZE) (i_n_blocks (inodes s k))
      (len div BLOCK_SIZE) s"
  defines "m \<equiv> (len + BLOCK_SIZE - 1) div BLOCK_SIZE"
  shows "bitmap_ok (data_bitmap t)" "n_bits (data_bitmap t) = n_bits (data_bitmap s)"
    "\<And>b. used_bit (data_bitmap t) b \<longleftrightarrow> used_bit (data_bitmap s) b \<and>
       b \<notin> (!) (i_data_blocks (inodes s k)) ` {m..<i_n_blocks (inodes s k)}"
    "inode_bitmap t = inode_bitmap s" "superblock t = superblock s" "data t = data s"
    "inodes t k = (inodes s k)\<lparr>i_n_blocks := m\<rparr>"
    "\<And>j. j \<noteq> k \<Longrightarrow> inodes t j = inodes s j" "m \<le> i_n_blocks (inodes s k)" "len \<le> m * BLOCK_SIZE"
proof -
  let ?l = "len div BLOCK_SIZE" and ?off = "len mod BLOCK_SIZE" and ?n = "i_n_blocks (inodes s k)"
  have l: "?l < ?n" using len blocks_okD(5) [OF ok] by (metis div_BLOCK_less less_le_trans)
  have m: "m = (if ?off = 0 then ?l else Suc ?l)" 
    unfolding m_def by (rule ceil_div) simp
  show mn: "m \<le> ?n" using l m by simp
  show "len \<le> m * BLOCK_SIZE"
  proof (cases "?off = 0")
    case True
    then have "len = ?l * BLOCK_SIZE" by (metis add_0_right div_mult_mod_eq)
    then show ?thesis using True m by simp
  next
    case False
    then show ?thesis using m
      by (metis BLOCK_SIZE_pos dividend_less_div_times less_imp_le mult_Suc mult.commute add.commute)
  qed
  have t': "t = release_blocks k ?l ?off ?n m s"
  proof (cases "?off = 0")
    case False
    then show ?thesis unfolding t using l by (simp add: m release_blocks.simps [of k ?l ?off ?n ?l s])
  qed (simp add: t m)
  have "n32 \<le> N_DATA_BLOCKS_PER_INODE \<Longrightarrow> n32 < 256" for n32 by (simp add: layout)
  then have n256: "?n < 256" using blocks_okD(3) [OF ok] by blast
  have b: "bitmap_ok (data_bitmap s)" "n_bits (data_bitmap s) = 3808"
    using ok(1) data_bits by (auto simp: blocks_ok_def bitmaps_ok_def)
  have "m = ?l \<longrightarrow> ?off = 0" "?l \<le> m" by (simp_all add: m)
  note eff = release_blocks_effect [OF this mn b(1) _ _ n256 t']
  have eff': "bitmap_ok (data_bitmap t) \<and> n_bits (data_bitmap t) = n_bits (data_bitmap s) \<and>
    (\<forall>b. used_bit (data_bitmap t) b \<longleftrightarrow>
       used_bit (data_bitmap s) b \<and> b \<notin> (!) (i_data_blocks (inodes s k)) ` {m..<?n}) \<and>
    inode_bitmap t = inode_bitmap s \<and> superblock t = superblock s \<and> data t = data s \<and>
    inodes t k = (inodes s k)\<lparr>i_n_blocks := ?n - (?n - m)\<rparr> \<and>
    (\<forall>j. j \<noteq> k \<longrightarrow> inodes t j = inodes s j)"
    using owned_block(3) [OF ok] b by (intro eff) auto
  then show "bitmap_ok (data_bitmap t)" "n_bits (data_bitmap t) = n_bits (data_bitmap s)"
    "\<And>b. used_bit (data_bitmap t) b \<longleftrightarrow> used_bit (data_bitmap s) b \<and>
       b \<notin> (!) (i_data_blocks (inodes s k)) ` {m..<?n}"
    "inode_bitmap t = inode_bitmap s" "superblock t = superblock s" "data t = data s"
    "inodes t k = (inodes s k)\<lparr>i_n_blocks := m\<rparr>" "\<And>j. j \<noteq> k \<Longrightarrow> inodes t j = inodes s j"
    using mn by auto
qed

lemma shrink_blocks_ok:
  assumes ok: "blocks_ok s" "k \<in> live s" and len: "len < i_size (inodes s k)"
    and t: "t = release_blocks k (len div BLOCK_SIZE) (len mod BLOCK_SIZE) (i_n_blocks (inodes s k))
      (len div BLOCK_SIZE) s"
    and f: "\<And>ino. i_ino (f ino) = i_ino ino" "\<And>ino. i_data_blocks (f ino) = i_data_blocks ino"
      "\<And>ino. i_n_blocks (f ino) = i_n_blocks ino" "\<And>ino. i_size (f ino) = len"
  shows "blocks_ok (upd_inode t k f)"
proof -
  note sh = shrink_blocks [OF ok len t]
  show ?thesis by (rule release_tail_ok [OF ok sh(9)]) (use sh in \<open>simp_all add: f\<close>)
qed

section \<open>A small file system\<close>

text \<open>
  A file system with one regular file, once empty and once with five bytes; the witnesses
  of the properties run on it.
\<close>

definition demo_ctx :: ctx where
  "demo_ctx = \<lparr>cx_time = 7, cx_uid = 1000, cx_gid = 100\<rparr>"

definition demo_fs :: fs where
  "demo_fs = (case init_inode demo_ctx zero_fs S_IFREG of Some (k, s) \<Rightarrow> s | None \<Rightarrow> zero_fs)"

definition demo_file :: fs where
  "demo_file = upd_inode (append_block demo_fs 0 0) 0 (\<lambda>i. i\<lparr>i_size := 5\<rparr>)"

lemma get_free_bit_zero: "get_free_bit (zero_bitmap (Suc n * BITS_PER_WORD)) = 0"
  by (simp add: get_free_bit_def free_bit_from.simps [of _ 0] free_bit_in_word.simps [of _ 0 0]
      zero_bitmap_def BITS_PER_WORD_def get_bit_def WORD_OFFSET_def BIT_OFFSET_def)

lemma demo_run: "init_inode demo_ctx zero_fs S_IFREG = Some (0, demo_fs)"
proof -
  have "get_free_bit (inode_bitmap zero_fs) = 0"
    using get_free_bit_zero [of 127] by (simp add: zero_fs_def layout BITS_PER_WORD_def)
  then show ?thesis by (simp add: demo_fs_def init_inode_def)
qed

lemmas demo_spec = init_inode_spec [OF blocks_ok_zero_fs demo_run]

lemma S_IFREG_not_dir [simp]: "\<not> S_ISDIR S_IFREG"
  by (simp add: S_ISDIR_def S_IFREG_def S_IFDIR_def S_IFMT_def)

lemma demo_fs_ok:
  "blocks_ok demo_fs" "0 \<in> live demo_fs" "\<not> S_ISDIR (i_mode (inodes demo_fs 0))"
  "i_size (inodes demo_fs 0) = 0" "content demo_fs 0 = []"
  using demo_spec(1,4,5,6) by (simp_all add: content_def)

lemma demo_file_ok:
  "blocks_ok demo_file" "0 \<in> live demo_file" "\<not> S_ISDIR (i_mode (inodes demo_file 0))"
  "i_size (inodes demo_file 0) = 5"
proof -
  have n: "i_n_blocks (inodes demo_fs 0) < N_DATA_BLOCKS_PER_INODE"
    using demo_spec(7) by (simp add: layout)
  note ab = append_block_inode [OF demo_fs_ok(1,2) n]
  have "n_bits (zero_bitmap N_DATA_BLOCKS) = 3808" by (simp add: layout BITS_PER_WORD_def)
  have "get_free_bit (data_bitmap demo_fs) = int 0"
    using get_free_bit_zero [of 118] by (simp add: demo_spec(9) zero_fs_def layout BITS_PER_WORD_def zero_bitmap_def)
  note ok = append_block_ok [OF demo_fs_ok(1,2) n this]
  show "blocks_ok demo_file"
    unfolding demo_file_def by (rule blocks_ok_upd_inode [OF ok]) (simp_all add: ab layout demo_spec(7))
  show "0 \<in> live demo_file" "\<not> S_ISDIR (i_mode (inodes demo_file 0))"
    "i_size (inodes demo_file 0) = 5"
    using demo_fs_ok(2,3) by (simp_all add: demo_file_def ab)
qed

section \<open>The three operations\<close>

lemma write_file_facts:
  assumes "blocks_ok s" "k \<in> live s" "\<not> S_ISDIR (i_mode (inodes s k))"
    and "offset \<le> i_size (inodes s k)"
    and "length buffer + offset < N_DATA_BLOCKS_PER_INODE * BLOCK_SIZE"
  shows "\<exists>n s'. write_file c s (Some k) buffer offset = Some (Inr n, s') \<and> blocks_ok s' \<and>
    n \<le> length buffer \<and> (n = length buffer \<or> get_free_bit (data_bitmap s') < 0) \<and>
    content s' k = splice (content s k) offset (take n buffer) \<and> only_file k s s'"
proof (cases "buffer = []")
  case True
  then show ?thesis using assms by (simp add: write_file_def)
next
  case False
  have "i_size (inodes s k) \<le> i_n_blocks (inodes s k) * BLOCK_SIZE"
    using blocks_okD(5) assms(1,2) .
  then have first: "offset div BLOCK_SIZE \<le> i_n_blocks (inodes s k)"
    using assms(4) by (metis BLOCK_SIZE_pos div_le_mono div_mult_self_is_m le_trans)
  have "offset div BLOCK_SIZE \<le> Suc ((length buffer + offset) div BLOCK_SIZE)"
    by (simp add: div_le_mono le_SucI)
  from write_blocks_spec [OF assms(1,2) order_refl this first _ assms(5), of c] assms(4)
  obtain n s' where "write_blocks c k buffer offset (offset div BLOCK_SIZE) 0 s = Some (n, s')"
    "written k buffer offset 0 s n s'" by (auto simp: bytes_at_simps)
  then show ?thesis
    using False assms by (auto simp: write_file_def written_def)
qed

text \<open>
  C13. \<open>write_file\<close> on a regular file, at an offset inside it and with the range ending before
  the last possible byte, runs to its end; it reports \<open>n\<close> bytes, fewer than asked only when
  the disk is full; the file is then its old contents with the first \<open>n\<close> bytes of the
  buffer spliced in at the offset; every other file keeps its contents, and the blocks
  stay owned by exactly one file each.
\<close>

theorem write_file_splices:
  assumes "blocks_ok s" "k \<in> live s" "\<not> S_ISDIR (i_mode (inodes s k))"
    and "offset \<le> i_size (inodes s k)"
    and "length buffer + offset < N_DATA_BLOCKS_PER_INODE * BLOCK_SIZE"
  shows "\<exists>n s'. write_file c s (Some k) buffer offset = Some (Inr n, s') \<and> blocks_ok s' \<and>
    n \<le> length buffer \<and> (n = length buffer \<or> get_free_bit (data_bitmap s') < 0) \<and>
    content s' k = splice (content s k) offset (take n buffer) \<and> only_file k s s'"
  using assms by (rule write_file_facts)

lemma read_file_facts:
  assumes "blocks_ok s" "k \<in> live s" "\<not> S_ISDIR (i_mode (inodes s k))"
    and "offset \<le> i_size (inodes s k)"
    and "min (i_size (inodes s k)) (offset + sz) < N_DATA_BLOCKS_PER_INODE * BLOCK_SIZE"
  shows "\<exists>s'. read_file c s (Some k) sz offset = Some (Inr (take sz (drop offset (content s k))), s') \<and>
    blocks_ok s' \<and> (\<forall>j. content s' j = content s j)"
proof -
  define n where "n = min sz (i_size (inodes s k) - offset)"
  define s' where "s' = (if n = 0 then s else upd_inode s k (\<lambda>ino. ino\<lparr>i_atim := cx_time c\<rparr>))"
  have nn: "n + offset \<le> i_size (inodes s k)" "n + offset < N_DATA_BLOCKS_PER_INODE * BLOCK_SIZE"
    using assms(4,5) by (auto simp: n_def)
  have "offset div BLOCK_SIZE \<le> Suc ((n + offset) div BLOCK_SIZE)"
    by (simp add: div_le_mono le_SucI)
  from read_blocks_spec [OF assms(1,2) order_refl this nn, of "[]"]
  have rb: "read_blocks s k n offset (offset div BLOCK_SIZE) [] =
      Some (take n (drop offset (content s k)))" by (simp add: bytes_at_simps)
  have tk: "take n (drop offset (content s k)) = take sz (drop offset (content s k))"
    by (auto simp: n_def min_def)
  have clip: "(if sz > i_size (inodes s k) - offset then i_size (inodes s k) - offset else sz) = n"
    by (auto simp: n_def)
  have "read_file c s (Some k) sz offset = Some (Inr (take sz (drop offset (content s k))), s')"
  proof (cases "n = 0")
    case True
    then have "take sz (drop offset (content s k)) = []" using tk by (metis take0)
    then show ?thesis using True assms(3,4) by (simp add: read_file_def clip s'_def)
  next
    case False
    have "length (take n (drop offset (content s k))) = n" using nn by simp
    then show ?thesis using False assms(3,4) rb tk by (simp add: read_file_def clip s'_def Let_def)
  qed
  moreover have "blocks_ok s'" using assms(1,2) by (auto simp: s'_def intro!: blocks_ok_upd_inode dest: blocks_okD)
  moreover have "content s' j = content s j" for j
    by (cases "j = k") (auto simp: s'_def content_def file_byte_def)
  ultimately show ?thesis by blast
qed

theorem write_file_splices_witness:
  "\<exists>n s'. write_file demo_ctx demo_fs (Some 0) [1, 2, 3] 0 = Some (Inr n, s') \<and>
     content s' 0 = take n [1, 2, 3]"
  using write_file_splices [of demo_fs 0 0 "[1, 2, 3]" demo_ctx] demo_fs_ok
  by (auto simp: layout splice_def)

text \<open>
  C20. \<open>fisopfs_read\<close> on a regular file returns exactly the bytes of the file in the range
  asked for, clipped to the end of the file, and changes only the access time.
\<close>

theorem read_file_returns:
  assumes "blocks_ok s" "k \<in> live s" "\<not> S_ISDIR (i_mode (inodes s k))"
    and "offset \<le> i_size (inodes s k)"
    and "min (i_size (inodes s k)) (offset + sz) < N_DATA_BLOCKS_PER_INODE * BLOCK_SIZE"
  shows "\<exists>s'. read_file c s (Some k) sz offset = Some (Inr (take sz (drop offset (content s k))), s') \<and>
    blocks_ok s' \<and> (\<forall>j. content s' j = content s j)"
  using assms by (rule read_file_facts)

theorem read_file_returns_witness:
  "\<exists>s'. read_file demo_ctx demo_file (Some 0) 100 2 =
     Some (Inr (take 100 (drop 2 (content demo_file 0))), s')"
  using read_file_returns [of demo_file 0 2 100 demo_ctx] demo_file_ok by (auto simp: layout)

text \<open>
  C21. What \<open>write_file\<close> reported as written is what \<open>fisopfs_read\<close> returns from the same place.
\<close>

theorem read_after_write:
  assumes "blocks_ok s" "k \<in> live s" "\<not> S_ISDIR (i_mode (inodes s k))"
    and "offset \<le> i_size (inodes s k)"
    and "length buffer + offset < N_DATA_BLOCKS_PER_INODE * BLOCK_SIZE"
  shows "\<exists>n s' s''. write_file c s (Some k) buffer offset = Some (Inr n, s') \<and>
    read_file c' s' (Some k) n offset = Some (Inr (take n buffer), s'')"
proof -
  obtain n s' where run: "write_file c s (Some k) buffer offset = Some (Inr n, s')"
    and w: "content s' k = splice (content s k) offset (take n buffer)" "blocks_ok s'"
      "only_file k s s'" "n \<le> length buffer"
    using write_file_facts [OF assms, of c] by blast
  have "i_size (inodes s' k) = max (i_size (inodes s k)) (offset + n)"
    using assms(4) w(1,4) by (metis length_content length_splice length_take min.absorb2)
  moreover have "take n (drop offset (splice (content s k) offset (take n buffer))) = take n buffer"
    using assms(4) w(4) by (simp add: splice_def)
  moreover have "k \<in> live s'" "i_mode (inodes s' k) = i_mode (inodes s k)"
    using w(3) assms(2) by (simp add: only_file_live, simp add: only_file_def)
  moreover have "min (i_size (inodes s' k)) (offset + n) < N_DATA_BLOCKS_PER_INODE * BLOCK_SIZE"
    using assms(5) w(4) by linarith
  moreover have "offset \<le> i_size (inodes s' k)" using calculation(1) by simp
  ultimately obtain s'' where "read_file c' s' (Some k) n offset = Some (Inr (take n buffer), s'')"
    using read_file_facts [of s' k offset n c'] assms(3) w(1,2) by fastforce
  with run show ?thesis by blast
qed

theorem read_after_write_witness:
  "\<exists>n s' s''. write_file demo_ctx demo_file (Some 0) [1, 2, 3] 4 = Some (Inr n, s') \<and>
     read_file demo_ctx s' (Some 0) n 4 = Some (Inr (take n [1, 2, 3]), s'')"
  using read_after_write [of demo_file 0 4 "[1, 2, 3]" demo_ctx demo_ctx] demo_file_ok
  by (auto simp: layout)

lemma shrink_file_facts:
  assumes "blocks_ok s" "k \<in> live s" "\<not> S_ISDIR (i_mode (inodes s k))" "len < i_size (inodes s k)"
    and "s' = shrink_file c s (Some k) len"
  shows "blocks_ok s' \<and> only_file k s s' \<and> content s' k = take len (content s k) \<and>
    i_n_blocks (inodes s' k) = (len + BLOCK_SIZE - 1) div BLOCK_SIZE"
proof -
  define t where "t = release_blocks k (len div BLOCK_SIZE) (len mod BLOCK_SIZE)
      (i_n_blocks (inodes s k)) (len div BLOCK_SIZE) s"
  let ?f = "\<lambda>ino. ino\<lparr>i_size := len, i_ctim := cx_time c, i_mtim := cx_time c\<rparr>"
  have s': "s' = upd_inode t k ?f"
    using assms(3,4) by (simp add: assms(5) shrink_file_def t_def Let_def)
  note sh = shrink_blocks [OF assms(1,2,4) t_def]
  have "blocks_ok s'"
    unfolding s' by (rule shrink_blocks_ok [OF assms(1,2,4) t_def]) simp_all
  moreover have "only_file k s s'"
  proof -
    have "inodes s' j = inodes s j" "content s' j = content s j" if "j \<noteq> k" for j
      using that by (simp_all add: s' content_def file_byte_def [abs_def] sh(6,8))
    then show ?thesis by (simp add: only_file_def s' sh(4,5,7))
  qed
  moreover have "content s' k = take len (content s k)"
    using assms(4) by (simp add: s' content_def file_byte_def [abs_def] sh(6,7) take_map)
  ultimately show ?thesis using sh(7) by (simp add: s')
qed

text \<open>
  C27. \<open>shrink_file\<close> to a length below the size keeps the first \<open>len\<close> bytes, releases every block
  beyond them (the file ends up with as many blocks as its bytes need), leaves every other
  file alone, and the released blocks are free afterwards.
\<close>

theorem shrink_file_takes:
  assumes "blocks_ok s" "k \<in> live s" "\<not> S_ISDIR (i_mode (inodes s k))" "len < i_size (inodes s k)"
    and "s' = shrink_file c s (Some k) len"
  shows "blocks_ok s' \<and> only_file k s s' \<and> content s' k = take len (content s k) \<and>
    i_n_blocks (inodes s' k) = (len + BLOCK_SIZE - 1) div BLOCK_SIZE"
  using assms by (rule shrink_file_facts)

theorem shrink_file_takes_witness:
  "content (shrink_file demo_ctx demo_file (Some 0) 2) 0 = take 2 (content demo_file 0) \<and>
   i_n_blocks (inodes (shrink_file demo_ctx demo_file (Some 0) 2) 0) = 1"
  using shrink_file_takes [of demo_file 0 2 _ demo_ctx, OF _ _ _ _ refl] demo_file_ok
  by (auto simp: layout)

text \<open>
  A write that ends exactly at the largest size a file may have passes the size check of
  \<open>write_file\<close>, but its loop then asks for one block more than the inode can name: unless
  the disk runs full first, the execution leaves the block array and has no result.
\<close>

theorem write_to_limit_overruns:
  assumes "blocks_ok s" "k \<in> live s" "\<not> S_ISDIR (i_mode (inodes s k))"
    and "offset \<le> i_size (inodes s k)" "buffer \<noteq> []"
    and "length buffer + offset = N_DATA_BLOCKS_PER_INODE * BLOCK_SIZE"
  shows "write_file c s (Some k) buffer offset = None \<or>
    get_free_bit (data_bitmap (snd (the (write_file c s (Some k) buffer offset)))) < 0"
proof (cases "write_file c s (Some k) buffer offset")
  case (Some p)
  obtain r s' where p: "p = (r, s')" by (cases p)
  have "i_size (inodes s k) \<le> i_n_blocks (inodes s k) * BLOCK_SIZE"
    using blocks_okD(5) assms(1,2) .
  then have first: "offset div BLOCK_SIZE \<le> i_n_blocks (inodes s k)"
    using assms(4) by (metis BLOCK_SIZE_pos div_le_mono div_mult_self_is_m le_trans)
  have "offset div BLOCK_SIZE \<le> N_DATA_BLOCKS_PER_INODE"
    using assms(6) by (metis BLOCK_SIZE_pos div_le_mono div_mult_self_is_m le_add2)
  note limit = write_blocks_limit [OF assms(1,2) order_refl this first _ assms(6), of c]
  obtain n where "write_blocks c k buffer offset (offset div BLOCK_SIZE) 0 s = Some (n, s')"
    using assms(3-6) Some p by (auto simp: write_file_def)
  with limit assms(4) show ?thesis by (simp add: bytes_at_simps Some p)
qed simp

theorem write_to_limit_overruns_witness:
  "write_file demo_ctx demo_file (Some 0) (replicate 131072 7) 0 = None \<or>
   get_free_bit (data_bitmap
     (snd (the (write_file demo_ctx demo_file (Some 0) (replicate 131072 7) 0)))) < 0"
  using write_to_limit_overruns [of demo_file 0 0 "replicate 131072 7" demo_ctx] demo_file_ok
  by (simp add: layout)

end
