(* ===== verification/FsDir.thy ===== *)
theory FsDir
  imports FsWrite
begin

text \<open>
  Directories of fisopfs/fisopfs.c: looking an entry up, walking a path, splitting a path
  into parent and name, inserting an entry and removing one. A path is the byte list of
  the C string without its terminator. A lookup returns \<open>Some None\<close> for the null pointer
  and \<open>None\<close> when the C execution is undefined.
\<close>

definition DELIM_CHAR :: byte where
  "DELIM_CHAR = 0x2F"

section \<open>Lookup\<close>

text \<open>The loop of \<open>find_in_dir\<close> over the entries \<open>i ..< n\<close>.\<close>

function find_dentry :: "fs \<Rightarrow> byte list \<Rightarrow> inode \<Rightarrow> nat \<Rightarrow> nat \<Rightarrow> nat option option" where
  "find_dentry s name dir n i =
     (if i < n then
        (case get_dirent i dir of
           None \<Rightarrow> None
         | Some dentry \<Rightarrow>
             if strcmp_eq name (data s) dentry then Some (get_inode (d_ino (data s) dentry))
             else find_dentry s name dir n (Suc i))
      else Some None)"
  by pat_completeness auto
termination
  by (relation "measure (\<lambda>(s, name, dir, n, i). n - i)") auto

declare find_dentry.simps [simp del]

definition find_in_dir :: "fs \<Rightarrow> byte list \<Rightarrow> nat \<Rightarrow> nat option option" where
  "find_in_dir s name k =
     (let dir = inodes s k in
      if \<not> S_ISDIR (i_mode dir) then Some None
      else find_dentry s name dir (i_size dir div DENTRY_SIZE) 0)"

text \<open>
  The tokens \<open>strtok\<close> finds with delimiter \<open>/\<close>: the maximal non-empty runs of other bytes.
\<close>

fun strtok_tokens :: "byte list \<Rightarrow> byte list \<Rightarrow> byte list list" where
  "strtok_tokens [] cur = (if cur = [] then [] else [cur])"
| "strtok_tokens (c # cs) cur =
     (if c = DELIM_CHAR then (if cur = [] then [] else [cur]) @ strtok_tokens cs []
      else strtok_tokens cs (cur @ [c]))"

text \<open>
  The copy of the tokens into the \<open>MAX_LEVEL\<close> rows of \<open>FS_FILENAME_LEN\<close> bytes. The check of
  the level comes before each copy but the first, where the level is 0.
\<close>

fun collect_tokens :: "byte list list \<Rightarrow> nat \<Rightarrow> byte list list \<Rightarrow> byte list list option option" where
  "collect_tokens [] path_level tokens = Some (Some tokens)"
| "collect_tokens (token # rest) path_level tokens =
     (if path_level > MAX_LEVEL then Some None
      else if path_level \<ge> MAX_LEVEL \<or> length token + 1 > FS_FILENAME_LEN then None
      else collect_tokens rest (path_level + 1) (tokens @ [token]))"

fun walk :: "fs \<Rightarrow> byte list list \<Rightarrow> nat \<Rightarrow> nat option option" where
  "walk s [] curr_dir = Some (Some curr_dir)"
| "walk s (token # rest) curr_dir =
     (case find_in_dir s token curr_dir of
        None \<Rightarrow> None
      | Some None \<Rightarrow> Some None
      | Some (Some k) \<Rightarrow> walk s rest k)"

definition find_inode :: "fs \<Rightarrow> byte list \<Rightarrow> nat option option" where
  "find_inode s path =
     (case get_inode (sb_root_ino (superblock s)) of
        None \<Rightarrow> None
      | Some root \<Rightarrow>
          if \<not> S_ISDIR (i_mode (inodes s root)) then None
          else if length path > FS_MAX_PATH \<or> length path = 0 then Some None
          else if path = [DELIM_CHAR] then Some (Some root)
          else if length path + 1 > FS_MAX_PATH then None
          else if strtok_tokens path [] = [] then Some None
          else (case collect_tokens (strtok_tokens path []) 0 [] of
              None \<Rightarrow> None
            | Some None \<Rightarrow> Some None
            | Some (Some tokens) \<Rightarrow> walk s tokens root))"

section \<open>Splitting a path\<close>

fun last_delim :: "byte list \<Rightarrow> nat \<Rightarrow> nat" where
  "last_delim path 0 = 0"
| "last_delim path (Suc p) = (if path ! Suc p = DELIM_CHAR then Suc p else last_delim path p)"

definition split_path :: "byte list \<Rightarrow> (byte list \<times> byte list) option" where
  "split_path path =
     (if length path = 0 then None
      else let pathlen = (if path ! (length path - 1) = DELIM_CHAR then length path - 1
                          else length path) in
        if pathlen = 0 then None
        else let last_delim_pos = last_delim path (pathlen - 1);
                 parent_path = (if last_delim_pos = 0 then take 1 path
                                else take last_delim_pos path);
                 filename = take (pathlen - last_delim_pos - 1) (drop (1 + last_delim_pos) path)
          in if length parent_path + 1 > FS_MAX_PATH \<or> length filename + 1 > FS_FILENAME_LEN
             then None else Some (parent_path, filename))"

section \<open>Inserting an entry\<close>

definition grow_dir :: "fs \<Rightarrow> nat \<Rightarrow> ((errno + unit) \<times> fs) option" where
  "grow_dir s parent =
     (let p = inodes s parent in
      if i_size p = i_n_blocks p * BLOCK_SIZE then
        (case init_data_block s of
           (None, s1) \<Rightarrow> Some (Inl ENOMEM, s1)
         | (Some (block_no, block), s1) \<Rightarrow>
             if i_n_blocks p \<ge> N_DATA_BLOCKS_PER_INODE then None
             else Some (Inr (), upd_inode s1 parent (\<lambda>ino. ino\<lparr>
               i_data_blocks := (i_data_blocks ino)[i_n_blocks p := block_no],
               i_n_blocks := (i_n_blocks p + 1) mod 256\<rparr>)))
      else Some (Inr (), s))"

definition insert_dentry ::
  "ctx \<Rightarrow> fs \<Rightarrow> nat \<Rightarrow> nat \<Rightarrow> byte list \<Rightarrow> ((errno + unit) \<times> fs) option" where
  "insert_dentry c s parent ino d_name =
     (case grow_dir s parent of
        None \<Rightarrow> None
      | Some (Inl e, s1) \<Rightarrow> Some (Inl e, s1)
      | Some (Inr _, s1) \<Rightarrow>
          (case get_dirent (i_size (inodes s1 parent) div DENTRY_SIZE) (inodes s1 parent) of
             None \<Rightarrow> None
           | Some dent \<Rightarrow>
               Some (Inr (), upd_inode
                 (s1\<lparr>data := strcpy_to (set_d_ino (data s1) dent ino) dent d_name\<rparr>) parent
                 (\<lambda>p. p\<lparr>i_size := i_size p + DENTRY_SIZE,
                        i_atim := cx_time c, i_mtim := cx_time c\<rparr>))))"

section \<open>Removing an entry\<close>

text \<open>Moving the entry at \<open>nxt\<close> over the entry at \<open>cur\<close>: \<open>strcpy\<close> and the inode number.\<close>

definition copy_dirent :: "mem \<Rightarrow> nat \<Rightarrow> nat \<Rightarrow> mem option" where
  "copy_dirent m cur nxt =
     (let name = cstr FS_FILENAME_LEN m nxt in
      if length name \<ge> FS_FILENAME_LEN then None
      else let m1 = strcpy_to m cur name in Some (set_d_ino m1 cur (d_ino m1 nxt)))"

text \<open>The inner loop: the entries \<open>j ..< nentries\<close> of block \<open>i\<close>.\<close>

function unlink_block ::
  "inode \<Rightarrow> nat \<Rightarrow> byte list \<Rightarrow> nat \<Rightarrow> nat \<Rightarrow> nat \<Rightarrow> int \<times> mem \<Rightarrow> (int \<times> mem) option" where
  "unlink_block parent ino filename nentries i j st =
     (if j < nentries then
        (case get_dirent (j + i * N_DENTRY_PER_BLOCK) parent of
           None \<Rightarrow> None
         | Some curr_entry \<Rightarrow>
             let (index0, m) = st;
                 index = (if ino = d_ino m curr_entry \<and> strcmp_eq filename m curr_entry
                          then int j else index0)
             in if index \<ge> 0 \<and> \<not> (j = nentries - 1 \<and> i = i_n_blocks parent - 1) then
                  (case get_dirent (j + 1 + i * N_DENTRY_PER_BLOCK) parent of
                     None \<Rightarrow> None
                   | Some next_entry \<Rightarrow>
                       (case copy_dirent m curr_entry next_entry of
                          None \<Rightarrow> None
                        | Some m' \<Rightarrow> unlink_block parent ino filename nentries i (Suc j) (index, m')))
                else unlink_block parent ino filename nentries i (Suc j) (index, m))
      else Some st)"
  by pat_completeness auto
termination
  by (relation "measure (\<lambda>(p, ino, f, nentries, i, j, st). nentries - j)") auto

declare unlink_block.simps [simp del]

text \<open>The outer loop: the blocks \<open>i ..< n_blocks\<close> of the directory.\<close>

function unlink_blocks ::
  "inode \<Rightarrow> nat \<Rightarrow> byte list \<Rightarrow> nat \<Rightarrow> nat \<Rightarrow> int \<times> mem \<Rightarrow> (int \<times> mem) option" where
  "unlink_blocks parent ino filename n_dentries i st =
     (if i < i_n_blocks parent then
        (let nentries = (if (i + 1) * N_DENTRY_PER_BLOCK \<le> n_dentries then N_DENTRY_PER_BLOCK
                         else n_dentries mod N_DENTRY_PER_BLOCK)
         in case unlink_block parent ino filename nentries i 0 st of
              None \<Rightarrow> None
            | Some st' \<Rightarrow> unlink_blocks parent ino filename n_dentries (Suc i) st')
      else Some st)"
  by pat_completeness auto
termination
  by (relation "measure (\<lambda>(p, ino, f, n, i, st). i_n_blocks p - i)") auto

declare unlink_blocks.simps [simp del]

text \<open>The part of \<open>unlink_inode\<close> after the scan found the entry.\<close>

definition drop_entry :: "ctx \<Rightarrow> fs \<Rightarrow> nat \<Rightarrow> nat \<Rightarrow> nat \<Rightarrow> fs" where
  "drop_entry c s parent k n_dentries =
     (let s1 = upd_inode s parent (\<lambda>p. p\<lparr>i_size := i_size p - DENTRY_SIZE\<rparr>);
          s2 = (if (n_dentries - 1) mod N_DENTRY_PER_BLOCK = 0
                then upd_inode (s1\<lparr>data_bitmap := clear_bit (data_bitmap s1)
                        (i_data_blocks (inodes s1 parent) ! (i_n_blocks (inodes s1 parent) - 1))\<rparr>)
                       parent (\<lambda>p. p\<lparr>i_n_blocks := (i_n_blocks p + 255) mod 256\<rparr>)
                else s1);
          s3 = (if \<not> S_ISDIR (i_mode (inodes s2 k)) then shrink_file c s2 (Some k) 0 else s2)
      in s3\<lparr>inode_bitmap := clear_bit (inode_bitmap s3) (i_ino (inodes s3 k))\<rparr>)"

definition unlink_inode ::
  "ctx \<Rightarrow> fs \<Rightarrow> byte list \<Rightarrow> nat option \<Rightarrow> ((errno + unit) \<times> fs) option" where
  "unlink_inode c s path inode =
     (case inode of
        None \<Rightarrow> Some (Inl ENOENT, s)
      | Some k \<Rightarrow>
          if S_ISDIR (i_mode (inodes s k)) \<and> i_size (inodes s k) > 0 then Some (Inl ENOTEMPTY, s)
          else (case split_path path of
              None \<Rightarrow> None
            | Some (parent_path, filename) \<Rightarrow>
                (case find_inode s parent_path of
                   None \<Rightarrow> None
                 | Some None \<Rightarrow> None
                 | Some (Some parent) \<Rightarrow>
                     let n_dentries = i_size (inodes s parent) div DENTRY_SIZE in
                     (case unlink_blocks (inodes s parent) (i_ino (inodes s k)) filename
                             n_dentries 0 (-1, data s) of
                        None \<Rightarrow> None
                      | Some (index, m) \<Rightarrow>
                          if index < 0 then Some (Inl ENOENT, s\<lparr>data := m\<rparr>)
                          else Some (Inr (), drop_entry c (s\<lparr>data := m\<rparr>) parent k n_dentries)))))"

end
