(* ===== verification/FsOps.thy ===== *)
theory FsOps
  imports FsDir
begin

text \<open>
  The handlers that fisopfs/fisopfs.c registers with FUSE, and the saving and loading of the
  file system. Sizes and offsets that FUSE passes are non-negative, so they are naturals;
  the paths are byte lists. A handler returns its result or errno and the new state, or
  \<open>None\<close> when the C execution is undefined.
\<close>

definition fisopfs_getattr :: "ctx \<Rightarrow> fs \<Rightarrow> byte list \<Rightarrow> ((errno + stat) \<times> fs) option" where
  "fisopfs_getattr c s path =
     (case find_inode s path of
        None \<Rightarrow> None
      | Some None \<Rightarrow> Some (Inl ENOENT, s)
      | Some (Some k) \<Rightarrow> (let (st, s') = fill_stat c s k in Some (Inr st, s')))"

text \<open>The entries handed to \<open>filler\<close>, in the order of the calls.\<close>

function readdir_loop ::
  "ctx \<Rightarrow> nat \<Rightarrow> nat \<Rightarrow> nat \<Rightarrow> fs \<Rightarrow> ((byte list \<times> stat) list \<times> fs) option" where
  "readdir_loop c dir n i s =
     (if i < n then
        (case get_dirent i (inodes s dir) of
           None \<Rightarrow> None
         | Some dentry \<Rightarrow>
             (case get_inode (d_ino (data s) dentry) of
                None \<Rightarrow> None
              | Some k \<Rightarrow>
                  let (st, s1) = fill_stat c s k in
                  map_option (\<lambda>(es, s'). ((cstr FS_FILENAME_LEN (data s) dentry, st) # es, s'))
                    (readdir_loop c dir n (Suc i) s1)))
      else Some ([], s))"
  by pat_completeness auto
termination
  by (relation "measure (\<lambda>(c, dir, n, i, s). n - i)") auto

declare readdir_loop.simps [simp del]

definition fisopfs_readdir ::
  "ctx \<Rightarrow> fs \<Rightarrow> byte list \<Rightarrow> ((errno + (byte list \<times> stat) list) \<times> fs) option" where
  "fisopfs_readdir c s path =
     (case find_inode s path of
        None \<Rightarrow> None
      | Some None \<Rightarrow> Some (Inl ENOENT, s)
      | Some (Some dir) \<Rightarrow>
          if \<not> S_ISDIR (i_mode (inodes s dir)) then Some (Inl ENOTDIR, s)
          else let (st1, s1) = fill_stat c s dir in
            (case get_inode (i_parent (inodes s1 dir)) of
               None \<Rightarrow> None
             | Some up \<Rightarrow>
                 let (st2, s2) = fill_stat c s1 up in
                 map_option (\<lambda>(es, s'). (Inr (([0x2E], st1) # ([0x2E, 0x2E], st2) # es), s'))
                   (readdir_loop c dir (i_size (inodes s2 dir) div DENTRY_SIZE) 0 s2)))"

definition fisopfs_read ::
  "ctx \<Rightarrow> fs \<Rightarrow> byte list \<Rightarrow> nat \<Rightarrow> nat \<Rightarrow> ((errno + byte list) \<times> fs) option" where
  "fisopfs_read c s path sz offset =
     (case find_inode s path of None \<Rightarrow> None | Some inode \<Rightarrow> read_file c s inode sz offset)"

definition fisopfs_write ::
  "ctx \<Rightarrow> fs \<Rightarrow> byte list \<Rightarrow> byte list \<Rightarrow> nat \<Rightarrow> ((errno + nat) \<times> fs) option" where
  "fisopfs_write c s path buffer offset =
     (case find_inode s path of
        None \<Rightarrow> None
      | Some None \<Rightarrow> Some (Inl ENOENT, s)
      | Some (Some k) \<Rightarrow>
          if S_ISDIR (i_mode (inodes s k)) then Some (Inl EISDIR, s)
          else write_file c s (Some k) buffer offset)"

definition fisopfs_truncate ::
  "ctx \<Rightarrow> fs \<Rightarrow> byte list \<Rightarrow> nat \<Rightarrow> ((errno + unit) \<times> fs) option" where
  "fisopfs_truncate c s path len =
     (if len > N_DATA_BLOCKS_PER_INODE * BLOCK_SIZE then Some (Inl EFBIG, s)
      else (case find_inode s path of
          None \<Rightarrow> None
        | Some None \<Rightarrow> Some (Inl ENOENT, s)
        | Some (Some k) \<Rightarrow>
            if S_ISDIR (i_mode (inodes s k)) then Some (Inl EISDIR, s)
            else if len = i_size (inodes s k) then Some (Inr (), s)
            else if len > i_size (inodes s k) then
              (case write_file c s (Some k) (replicate (len - i_size (inodes s k)) 0)
                      (i_size (inodes s k)) of
                 None \<Rightarrow> None
               | Some (Inl e, s') \<Rightarrow> Some (Inl e, s')
               | Some (Inr n, s') \<Rightarrow> Some (Inr (), s'))
            else Some (Inr (), shrink_file c s (Some k) len)))"

text \<open>
  What \<open>fisopfs_create\<close> and \<open>fisopfs_mkdir\<close> do alike: the checks, the new inode and its entry.
  They differ in the file type bit, in the errno for a full inode table and in the counter
  of the superblock. The result of \<open>insert_dentry\<close> is ignored.
\<close>

definition make_node ::
  "32 word \<Rightarrow> errno \<Rightarrow> (superblock \<Rightarrow> superblock) \<Rightarrow> ctx \<Rightarrow> fs \<Rightarrow> byte list \<Rightarrow> 32 word \<Rightarrow>
   ((errno + nat) \<times> fs) option" where
  "make_node ftype full count c s path md =
     (if length path > FS_MAX_PATH then Some (Inl ENAMETOOLONG, s)
      else if get_free_bit (data_bitmap s) < 0 then Some (Inl ENOMEM, s)
      else (case find_inode s path of
          None \<Rightarrow> None
        | Some (Some _) \<Rightarrow> Some (Inl EEXIST, s)
        | Some None \<Rightarrow>
            (case split_path path of
               None \<Rightarrow> None
             | Some (parent_path, filename) \<Rightarrow>
                 if length filename > FS_FILENAME_LEN then Some (Inl ENAMETOOLONG, s)
                 else (case find_inode s parent_path of
                     None \<Rightarrow> None
                   | Some None \<Rightarrow> Some (Inl ENOENT, s)
                   | Some (Some parent) \<Rightarrow>
                       if \<not> S_ISDIR (i_mode (inodes s parent)) then Some (Inl ENOTDIR, s)
                       else if i_size (inodes s parent) div DENTRY_SIZE = N_DENTRY_PER_DIR
                       then Some (Inl ENOMEM, s)
                       else (case init_inode c s (md OR ftype) of
                           None \<Rightarrow> Some (Inl full, s)
                         | Some (k, s1) \<Rightarrow>
                             let s2 = upd_inode s1 k (\<lambda>i. i\<lparr>i_parent := i_ino (inodes s1 parent)\<rparr>)
                             in (case insert_dentry c s2 parent (i_ino (inodes s2 k)) filename of
                                 None \<Rightarrow> None
                               | Some (_, s3) \<Rightarrow>
                                   Some (Inr (i_ino (inodes s3 k)),
                                         s3\<lparr>superblock := count (superblock s3)\<rparr>)))))))"

definition fisopfs_create ::
  "ctx \<Rightarrow> fs \<Rightarrow> byte list \<Rightarrow> 32 word \<Rightarrow> ((errno + nat) \<times> fs) option" where
  "fisopfs_create = make_node S_IFREG ENOMEM (\<lambda>sb. sb\<lparr>sb_n_files := sb_n_files sb + 1\<rparr>)"

definition fisopfs_mkdir ::
  "ctx \<Rightarrow> fs \<Rightarrow> byte list \<Rightarrow> 32 word \<Rightarrow> ((errno + unit) \<times> fs) option" where
  "fisopfs_mkdir c s path md = map_option (\<lambda>(r, s'). (map_sum id (\<lambda>_. ()) r, s'))
     (make_node S_IFDIR EDQUOT (\<lambda>sb. sb\<lparr>sb_n_dirs := sb_n_dirs sb + 1\<rparr>) c s path md)"

definition fisopfs_utimens ::
  "fs \<Rightarrow> byte list \<Rightarrow> int \<Rightarrow> int \<Rightarrow> ((errno + unit) \<times> fs) option" where
  "fisopfs_utimens s path atime mtime =
     (case find_inode s path of
        None \<Rightarrow> None
      | Some None \<Rightarrow> Some (Inl ENOENT, s)
      | Some (Some k) \<Rightarrow>
          Some (Inr (), upd_inode s k (\<lambda>i. i\<lparr>i_atim := atime, i_mtim := mtime, i_ctim := mtime\<rparr>)))"

definition fisopfs_unlink :: "ctx \<Rightarrow> fs \<Rightarrow> byte list \<Rightarrow> ((errno + unit) \<times> fs) option" where
  "fisopfs_unlink c s path =
     (case find_inode s path of
        None \<Rightarrow> None
      | Some None \<Rightarrow> Some (Inl ENOENT, s)
      | Some (Some k) \<Rightarrow>
          if S_ISDIR (i_mode (inodes s k)) then Some (Inl EISDIR, s)
          else unlink_inode c s path (Some k))"

definition fisopfs_rmdir :: "ctx \<Rightarrow> fs \<Rightarrow> byte list \<Rightarrow> ((errno + unit) \<times> fs) option" where
  "fisopfs_rmdir c s path =
     (case find_inode s path of
        None \<Rightarrow> None
      | Some None \<Rightarrow> Some (Inl ENOENT, s)
      | Some (Some dir) \<Rightarrow>
          if \<not> S_ISDIR (i_mode (inodes s dir)) then Some (Inl ENOTDIR, s)
          else if i_ino (inodes s dir) = sb_root_ino (superblock s) then Some (Inl EPERM, s)
          else if i_size (inodes s dir) > 0 then Some (Inl ENOTEMPTY, s)
          else unlink_inode c s path (Some dir))"

section \<open>Persistence\<close>

text \<open>The five arrays written to the backing file, in their order.\<close>

record image =
  im_superblock :: superblock
  im_inode_bitmap :: "word_t list"
  im_data_bitmap :: "word_t list"
  im_inodes :: "inode list"
  im_data_blocks :: "byte list"

record host =
  file_name :: "byte list"
  host_files :: "byte list \<Rightarrow> image option"

definition save_file_system :: "fs \<Rightarrow> host \<Rightarrow> host" where
  "save_file_system s h = h\<lparr>host_files := (host_files h)(file_name h \<mapsto>
     \<lparr>im_superblock = superblock s, im_inode_bitmap = words (inode_bitmap s),
      im_data_bitmap = words (data_bitmap s), im_inodes = map (inodes s) [0..<N_INODES],
      im_data_blocks = load_bytes (data s) 0 (N_DATA_BLOCKS * BLOCK_SIZE)\<rparr>)\<rparr>"

definition load_file_system :: "image \<Rightarrow> fs \<Rightarrow> fs" where
  "load_file_system im s = s\<lparr>superblock := im_superblock im,
     inode_bitmap := (inode_bitmap s)\<lparr>words := im_inode_bitmap im\<rparr>,
     data_bitmap := (data_bitmap s)\<lparr>words := im_data_bitmap im\<rparr>,
     inodes := (\<lambda>k. if k < length (im_inodes im) then im_inodes im ! k else inodes s k),
     data := store_bytes (data s) 0 (im_data_blocks im)\<rparr>"

text \<open>\<open>strstr(s, p) != NULL\<close>.\<close>

fun strstr :: "byte list \<Rightarrow> byte list \<Rightarrow> bool" where
  "strstr [] p = (p = [])"
| "strstr (c # cs) p = (take (length p) (c # cs) = p \<or> strstr cs p)"

text \<open>\<open>.fisopfs\<close>\<close>

definition suffix_name :: "byte list" where
  "suffix_name = [0x2E, 0x66, 0x69, 0x73, 0x6F, 0x70, 0x66, 0x73]"

text \<open>
  \<open>fgets(name, FS_FILENAME_LEN, stdin)\<close>: at most 255 bytes of the input line, with the
  newline that ends it when it fits.
\<close>

definition fgets_line :: "byte list \<Rightarrow> byte list option" where
  "fgets_line input =
     (if input = [] then None
      else let line = takeWhile (\<lambda>ch. ch \<noteq> 0x0A) input;
               whole = (if length line < length input then line @ [0x0A] else line)
        in Some (take (FS_FILENAME_LEN - 1) whole))"

definition fisopfs_init :: "ctx \<Rightarrow> byte list \<Rightarrow> fs \<Rightarrow> host \<Rightarrow> (fs \<times> host) option" where
  "fisopfs_init c input s h =
     (let h1 = (case fgets_line input of
                  Some name \<Rightarrow> if strstr name suffix_name then h\<lparr>file_name := name\<rparr> else h
                | None \<Rightarrow> h)
      in case host_files h1 (file_name h1) of
           Some im \<Rightarrow> Some (load_file_system im s, h1)
         | None \<Rightarrow>
             (case init_inode c s (S_IFDIR OR 0x1FD) of
                None \<Rightarrow> None
              | Some (k, s1) \<Rightarrow>
                  Some (s1\<lparr>superblock := \<lparr>sb_n_files = 0, sb_n_dirs = 1,
                          sb_root_ino = i_ino (inodes s1 k)\<rparr>\<rparr>, h1)))"

definition fisopfs_destroy :: "fs \<Rightarrow> host \<Rightarrow> host" where
  "fisopfs_destroy s h = save_file_system s h"

definition fisopfs_flush :: "fs \<Rightarrow> host \<Rightarrow> (errno + unit) \<times> host" where
  "fisopfs_flush s h = (Inr (), save_file_system s h)"

end
