(* ===== verification/FsDirSpec.thy ===== *)
theory FsDirSpec
  imports FsOps
begin

text \<open>
  A directory of fisopfs as a list of (name, inode number) pairs, and the directory
  operations as list operations on it: lookup is \<open>map_of\<close>, insertion appends, removal
  deletes one pair and keeps the order of the rest.
\<close>

section \<open>Entries\<close>

text \<open>Entry \<open>i\<close> in the bytes of the directory, and where it lies in the data region.\<close>

definition entry_name :: "fs \<Rightarrow> nat \<Rightarrow> nat \<Rightarrow> byte list" where
  "entry_name s k i = cstr FS_FILENAME_LEN (file_byte s k) (i * DENTRY_SIZE)"

definition entry_ino :: "fs \<Rightarrow> nat \<Rightarrow> nat \<Rightarrow> nat" where
  "entry_ino s k i = d_ino (file_byte s k) (i * DENTRY_SIZE)"

definition n_entries :: "fs \<Rightarrow> nat \<Rightarrow> nat" where
  "n_entries s k = i_size (inodes s k) div DENTRY_SIZE"

definition dentries :: "fs \<Rightarrow> nat \<Rightarrow> (byte list \<times> nat) list" where
  "dentries s k = map (\<lambda>i. (entry_name s k i, entry_ino s k i)) [0..<n_entries s k]"

definition entry_at :: "inode \<Rightarrow> nat \<Rightarrow> nat" where
  "entry_at dir i = i_data_blocks dir ! (i div N_DENTRY_PER_BLOCK) * BLOCK_SIZE
     + i mod N_DENTRY_PER_BLOCK * DENTRY_SIZE"

lemma length_dentries [simp]: "length (dentries s k) = n_entries s k"
  by (simp add: dentries_def)

lemma nth_dentries: "i < n_entries s k \<Longrightarrow> dentries s k ! i = (entry_name s k i, entry_ino s k i)"
  by (simp add: dentries_def)

lemma entry_pos:
  assumes "j < DENTRY_SIZE"
  shows "(i * DENTRY_SIZE + j) div BLOCK_SIZE = i div N_DENTRY_PER_BLOCK"
    "(i * DENTRY_SIZE + j) mod BLOCK_SIZE = i mod N_DENTRY_PER_BLOCK * DENTRY_SIZE + j"
proof -
  have m: "i mod 8 < 8" by simp
  have "(i * 512 + j) div 4096 = i div 8 \<and> (i * 512 + j) mod 4096 = i mod 8 * 512 + j"
    if "j < 512" "i mod 8 < 8" for i j :: nat
  proof -
    have "i * 512 + j = i div 8 * 4096 + (i mod 8 * 512 + j)"
      using div_mult_mod_eq [of i 8] by linarith
    moreover have "i mod 8 * 512 + j < 4096" using that by linarith
    moreover have "(q * 4096 + r) div 4096 = q \<and> (q * 4096 + r) mod 4096 = r" if "r < 4096"
      for q r :: nat using that by simp
    ultimately show ?thesis by metis
  qed
  from this [OF _ m] assms
  show "(i * DENTRY_SIZE + j) div BLOCK_SIZE = i div N_DENTRY_PER_BLOCK"
    "(i * DENTRY_SIZE + j) mod BLOCK_SIZE = i mod N_DENTRY_PER_BLOCK * DENTRY_SIZE + j"
    by (simp_all add: layout)
qed

lemma data_entry:
  "j < DENTRY_SIZE \<Longrightarrow> data s (entry_at (inodes s k) i + j) = file_byte s k (i * DENTRY_SIZE + j)"
  by (simp add: file_byte_def entry_at_def entry_pos add.assoc)

lemma entry_via_data:
  "cstr FS_FILENAME_LEN (data s) (entry_at (inodes s k) i) = entry_name s k i"
  "d_ino (data s) (entry_at (inodes s k) i) = entry_ino s k i"
proof -
  show "cstr FS_FILENAME_LEN (data s) (entry_at (inodes s k) i) = entry_name s k i"
    unfolding entry_name_def by (rule cstr_cong, rule data_entry) (simp add: layout)
  show "d_ino (data s) (entry_at (inodes s k) i) = entry_ino s k i"
    unfolding entry_ino_def d_ino_def
    by (rule load_le_cong) (use data_entry [of "256 + _" s k i] in \<open>simp add: layout add.assoc\<close>)
qed

lemma is_cstr_iff: "length (cstr n m a) < n \<Longrightarrow> is_cstr m a t \<longleftrightarrow> cstr n m a = t"
  using cstr_imp_is_cstr is_cstr_unique by blast

lemma strcmp_entry:
  "length (entry_name s k i) < FS_FILENAME_LEN \<Longrightarrow>
     strcmp_eq t (data s) (entry_at (inodes s k) i) \<longleftrightarrow> entry_name s k i = t"
  unfolding strcmp_eq_def by (subst is_cstr_iff [of FS_FILENAME_LEN]) (simp_all add: entry_via_data)

section \<open>Well-formed directories\<close>

definition dir_ok :: "fs \<Rightarrow> nat \<Rightarrow> bool" where
  "dir_ok s k \<longleftrightarrow> S_ISDIR (i_mode (inodes s k)) \<and>
     i_size (inodes s k) = n_entries s k * DENTRY_SIZE \<and>
     i_n_blocks (inodes s k) = (n_entries s k + N_DENTRY_PER_BLOCK - 1) div N_DENTRY_PER_BLOCK \<and>
     (\<forall>(name, ino) \<in> set (dentries s k). length name < FS_FILENAME_LEN \<and> ino < N_INODES) \<and>
     distinct (map fst (dentries s k))"

lemma dir_okD:
  assumes "dir_ok s k"
  shows "S_ISDIR (i_mode (inodes s k))" "i_size (inodes s k) = n_entries s k * DENTRY_SIZE"
    "i_n_blocks (inodes s k) = (n_entries s k + N_DENTRY_PER_BLOCK - 1) div N_DENTRY_PER_BLOCK"
    "\<And>i. i < n_entries s k \<Longrightarrow> length (entry_name s k i) < FS_FILENAME_LEN"
    "\<And>i. i < n_entries s k \<Longrightarrow> entry_ino s k i < N_INODES"
    "distinct (map fst (dentries s k))"
  using assms by (auto simp: dir_ok_def dentries_def)

lemma entry_block:
  assumes "dir_ok s k" "i < n_entries s k"
  shows "i div N_DENTRY_PER_BLOCK < i_n_blocks (inodes s k)"
proof -
  have "i div 8 < (n + 8 - 1) div 8" if "i < n" for i n :: nat
    using that by (simp add: div_less_iff_less_mult) 
  with assms(2) show ?thesis by (simp add: dir_okD(3) [OF assms(1)] layout)
qed

lemma get_dirent_entry:
  assumes "blocks_ok s" "k \<in> live s" "S_ISDIR (i_mode (inodes s k))"
    "i div N_DENTRY_PER_BLOCK < i_n_blocks (inodes s k)"
  shows "get_dirent i (inodes s k) = Some (entry_at (inodes s k) i)"
  using owned_get_data_block [OF assms(1,2,4)] assms(3,4)
  by (simp add: get_dirent_def Let_def entry_at_def)

lemma find_dentry_map_of:
  assumes "blocks_ok s" "k \<in> live s" "dir_ok s k"
  shows "find_dentry s name (inodes s k) (n_entries s k) i = Some (map_of (drop i (dentries s k)) name)"
proof (induction "n_entries s k - i" arbitrary: i)
  case 0
  then show ?case by (simp add: find_dentry.simps)
next
  case (Suc d)
  then have i: "i < n_entries s k" by simp
  have "find_dentry s name (inodes s k) (n_entries s k) (Suc i) =
      Some (map_of (drop (Suc i) (dentries s k)) name)"
    using Suc.hyps by (intro Suc.hyps(1)) simp
  moreover have "drop i (dentries s k) = (entry_name s k i, entry_ino s k i) # drop (Suc i) (dentries s k)"
    using i by (simp add: Cons_nth_drop_Suc [symmetric] nth_dentries)
  moreover have "get_dirent i (inodes s k) = Some (entry_at (inodes s k) i)"
    using get_dirent_entry assms(1,2) dir_okD(1) [OF assms(3)] entry_block [OF assms(3) i] by blast
  moreover have "strcmp_eq name (data s) (entry_at (inodes s k) i) \<longleftrightarrow> entry_name s k i = name"
    using dir_okD(4) [OF assms(3) i] by (rule strcmp_entry)
  moreover have "get_inode (entry_ino s k i) = Some (entry_ino s k i)"
    using dir_okD(5) [OF assms(3) i] by (simp add: get_inode_def)
  ultimately show ?case
    using i by (simp add: find_dentry.simps [of s name _ _ i] entry_via_data)
qed

lemma find_in_dir_map_of:
  "blocks_ok s \<Longrightarrow> k \<in> live s \<Longrightarrow> dir_ok s k \<Longrightarrow>
     find_in_dir s name k = Some (map_of (dentries s k) name)"
  using find_dentry_map_of [of s k name 0] dir_okD(1) [of s k]
  by (simp add: find_in_dir_def Let_def n_entries_def)

section \<open>Storing one entry\<close>

definition put_dirent :: "mem \<Rightarrow> nat \<Rightarrow> byte list \<Rightarrow> nat \<Rightarrow> mem" where
  "put_dirent m a name ino = set_d_ino (strcpy_to m a name) a ino"

lemma put_dirent_swap:
  "length name < FS_FILENAME_LEN \<Longrightarrow> strcpy_to (set_d_ino m a ino) a name = put_dirent m a name ino"
  by (rule ext) (auto simp: put_dirent_def strcpy_to_def set_d_ino_def store_le_def store_bytes_def layout)

lemma put_dirent_other:
  assumes "length name < FS_FILENAME_LEN" "i \<noteq> e" "j < DENTRY_SIZE"
  shows "put_dirent m (e * DENTRY_SIZE) name ino (i * DENTRY_SIZE + j) = m (i * DENTRY_SIZE + j)"
proof -
  consider "Suc i * 512 \<le> e * 512" | "Suc e * 512 \<le> i * 512"
    using assms(2) by (metis Suc_leI linorder_neqE_nat mult_le_mono1)
  then show ?thesis using assms(1,3)
    by cases (simp_all add: put_dirent_def strcpy_to_def set_d_ino_def mem_simps layout)
qed

lemma put_dirent_same:
  assumes "length name < FS_FILENAME_LEN" "0 \<notin> set name" "ino < N_INODES"
  shows "cstr FS_FILENAME_LEN (put_dirent m a name ino) a = name" "d_ino (put_dirent m a name ino) a = ino"
proof -
  have "is_cstr (strcpy_to m a name) a name" using assms(2) by (simp add: strcpy_to_def mem_simps)
  then have "is_cstr (put_dirent m a name ino) a name"
    by (subst is_cstr_cong [of name _ a "strcpy_to m a name" a])
      (use assms(1) in \<open>simp_all add: put_dirent_def set_d_ino_def mem_simps\<close>)
  then show "cstr FS_FILENAME_LEN (put_dirent m a name ino) a = name"
    using assms(1) by (rule cstr_is_cstr)
  show "d_ino (put_dirent m a name ino) a = ino"
    using assms(3) by (simp add: put_dirent_def d_ino_def set_d_ino_def mem_simps layout)
qed

lemma put_dirent_files:
  assumes ok: "blocks_ok s" "k \<in> live s" and e: "e div N_DENTRY_PER_BLOCK < i_n_blocks (inodes s k)"
    and name: "length name < FS_FILENAME_LEN"
    and u: "u = s\<lparr>data := put_dirent (data s) (entry_at (inodes s k) e) name ino\<rparr>"
  shows "p < i_n_blocks (inodes s k) * BLOCK_SIZE \<Longrightarrow>
      file_byte u k p = put_dirent (file_byte s k) (e * DENTRY_SIZE) name ino p"
    "\<lbrakk>j \<in> live s; j \<noteq> k; p < i_n_blocks (inodes s j) * BLOCK_SIZE\<rbrakk> \<Longrightarrow> file_byte u j p = file_byte s j p"
proof -
  let ?b = "e div N_DENTRY_PER_BLOCK" and ?off = "e mod N_DENTRY_PER_BLOCK * DENTRY_SIZE"
  let ?at = "i_data_blocks (inodes s k) ! ?b * BLOCK_SIZE"
  define t where "t = s\<lparr>data := store_bytes (data s) (?at + ?off) (name @ [0])\<rparr>"
  have tt: "blocks_ok t" "k \<in> live t" "?b < i_n_blocks (inodes t k)"
    using ok e by (simp_all add: t_def)
  have ut: "u = t\<lparr>data := store_bytes (data t) (i_data_blocks (inodes t k) ! ?b * BLOCK_SIZE + (?off + 256)) (le_bytes 4 ino)\<rparr>"
    by (simp add: u t_def put_dirent_def strcpy_to_def set_d_ino_def store_le_def entry_at_def
        FS_FILENAME_LEN_def add.assoc)
  have pos: "?b * BLOCK_SIZE + ?off = e * DENTRY_SIZE"
  proof -
    have "e div 8 * 4096 + e mod 8 * 512 = (e div 8 * 8 + e mod 8) * 512"
      by (simp only: add_mult_distrib mult.assoc)
    then show ?thesis by (simp add: layout)
  qed
  have off: "?off + DENTRY_SIZE \<le> BLOCK_SIZE"
    using mod_less_divisor [of 8 e] by (simp add: layout)
  have off1: "?off + length (name @ [0]) \<le> BLOCK_SIZE" "?off + 256 + length (le_bytes 4 ino) \<le> BLOCK_SIZE"
    using off name by (simp_all add: layout)
  show "file_byte u k p = put_dirent (file_byte s k) (e * DENTRY_SIZE) name ino p"
    if p: "p < i_n_blocks (inodes s k) * BLOCK_SIZE"
  proof -
    have pt: "p < i_n_blocks (inodes t k) * BLOCK_SIZE" using p by (simp add: t_def)
    have 1: "file_byte t k p = store_bytes (file_byte s k) (e * DENTRY_SIZE) (name @ [0]) p"
      using file_byte_store_same [OF ok e off1(1) p] by (simp add: t_def pos store_bytes_def)
    have 2: "file_byte u k p = store_bytes (file_byte t k) (e * DENTRY_SIZE + 256) (le_bytes 4 ino) p"
      using file_byte_store_same [OF tt off1(2) pt]
      by (simp add: ut pos add.assoc [symmetric] store_bytes_def del: length_le_bytes)
    show ?thesis
      unfolding 2 by (simp add: put_dirent_def strcpy_to_def set_d_ino_def store_le_def
          FS_FILENAME_LEN_def store_bytes_def [of "file_byte t k"] 1
          store_bytes_def [of "store_bytes _ _ _"])
  qed
  show "file_byte u j p = file_byte s j p"
    if j: "j \<in> live s" "j \<noteq> k" "p < i_n_blocks (inodes s j) * BLOCK_SIZE"
  proof -
    have jt: "j \<in> live t" "p < i_n_blocks (inodes t j) * BLOCK_SIZE" using j by (simp_all add: t_def)
    show ?thesis
      using file_byte_store_other [OF tt(1,2) jt(1) j(2) tt(3) off1(2) jt(2)]
        file_byte_store_other [OF ok j(1,2) e off1(1) j(3)]
      by (simp add: ut [symmetric] t_def [symmetric])
  qed
qed

lemma put_dirent_entries:
  assumes ok: "blocks_ok s" "k \<in> live s" and e: "e div N_DENTRY_PER_BLOCK < i_n_blocks (inodes s k)"
    and name: "length name < FS_FILENAME_LEN" "0 \<notin> set name" "ino < N_INODES"
    and u: "u = s\<lparr>data := put_dirent (data s) (entry_at (inodes s k) e) name ino\<rparr>"
    and i: "i div N_DENTRY_PER_BLOCK < i_n_blocks (inodes s k)"
  shows "entry_name u k i = (if i = e then name else entry_name s k i)"
    "entry_ino u k i = (if i = e then ino else entry_ino s k i)"
proof -
  let ?m = "put_dirent (file_byte s k) (e * DENTRY_SIZE) name ino"
  have fb: "file_byte u k (i * DENTRY_SIZE + j) = ?m (i * DENTRY_SIZE + j)" if "j < DENTRY_SIZE" for j
    by (rule put_dirent_files(1) [OF ok e name(1) u])
      (use i entry_pos(1) [OF that, of i] in \<open>simp add: div_BLOCK_less\<close>)
  have n: "entry_name u k i = cstr FS_FILENAME_LEN ?m (i * DENTRY_SIZE)"
    unfolding entry_name_def by (rule cstr_cong, rule fb) (simp add: layout)
  have d: "entry_ino u k i = d_ino ?m (i * DENTRY_SIZE)"
    unfolding entry_ino_def d_ino_def
    by (rule load_le_cong) (use fb [of "256 + _"] in \<open>simp add: layout add.assoc\<close>)
  show "entry_name u k i = (if i = e then name else entry_name s k i)"
  proof (cases "i = e")
    case False
    have "cstr FS_FILENAME_LEN ?m (i * DENTRY_SIZE) = entry_name s k i"
      unfolding entry_name_def
      by (rule cstr_cong, rule put_dirent_other) (use name False in \<open>simp_all add: layout\<close>)
    with n False show ?thesis by simp
  qed (use n name in \<open>simp add: put_dirent_same\<close>)
  show "entry_ino u k i = (if i = e then ino else entry_ino s k i)"
  proof (cases "i = e")
    case False
    have "d_ino ?m (i * DENTRY_SIZE) = entry_ino s k i"
      unfolding entry_ino_def d_ino_def
      by (rule load_le_cong)
        (use put_dirent_other [OF name(1) False, of "256 + _"] in \<open>simp add: layout add.assoc\<close>)
    with d False show ?thesis by simp
  qed (use d name in \<open>simp add: put_dirent_same\<close>)
qed

text \<open>The entries are a function of the contents.\<close>

lemma entry_cong:
  assumes "\<And>p. p < (i + 1) * DENTRY_SIZE \<Longrightarrow> file_byte t j p = file_byte s j p"
  shows "entry_name t j i = entry_name s j i" "entry_ino t j i = entry_ino s j i"
proof -
  show "entry_name t j i = entry_name s j i"
    unfolding entry_name_def by (rule cstr_cong, rule assms) (simp add: layout)
  show "entry_ino t j i = entry_ino s j i"
    unfolding entry_ino_def d_ino_def by (rule load_le_cong, rule assms) (simp add: layout)
qed

lemma content_eqD:
  assumes "content t j = content s j"
  shows "i_size (inodes t j) = i_size (inodes s j)"
    "p < i_size (inodes s j) \<Longrightarrow> file_byte t j p = file_byte s j p"
proof -
  show sz: "i_size (inodes t j) = i_size (inodes s j)" using assms by (metis length_content)
  show "p < i_size (inodes s j) \<Longrightarrow> file_byte t j p = file_byte s j p"
    using assms sz by (metis nth_content)
qed

lemma dentries_content:
  assumes "content t j = content s j"
  shows "n_entries t j = n_entries s j" "dentries t j = dentries s j"
proof -
  show n: "n_entries t j = n_entries s j" using content_eqD(1) [OF assms] by (simp add: n_entries_def)
  have "entry_name t j i = entry_name s j i \<and> entry_ino t j i = entry_ino s j i" if "i < n_entries s j" for i
  proof -
    have "(i + 1) * DENTRY_SIZE \<le> i_size (inodes s j)"
      using that by (simp add: n_entries_def less_eq_div_iff_mult_less_eq [symmetric] layout)
    then show ?thesis using entry_cong [of i t j s] content_eqD(2) [OF assms] by simp
  qed
  then show "dentries t j = dentries s j" by (simp add: dentries_def n)
qed

section \<open>Insertion\<close>

lemma ceil8_mult: "(n::nat) \<le> (n + 8 - 1) div 8 * 8"
  by presburger

lemma ceil8: "(8 * q + r + 8 - 1) div 8 = (if r = 0 then q else Suc q)" if "r < 8" for q r :: nat
  using that by (auto intro: div_nat_eqI)

lemma grow_dir_spec:
  assumes ok: "blocks_ok s" "k \<in> live s" "dir_ok s k" and room: "n_entries s k < N_DENTRY_PER_DIR"
    and free: "0 \<le> get_free_bit (data_bitmap s)"
  obtains t where "grow_dir s k = Some (Inr (), t)" "blocks_ok t" "only_file k s t"
    "content t k = content s k" "n_entries s k div N_DENTRY_PER_BLOCK < i_n_blocks (inodes t k)"
    "i_n_blocks (inodes t k) = (n_entries s k + 1 + N_DENTRY_PER_BLOCK - 1) div N_DENTRY_PER_BLOCK"
proof -
  define q r where "q = n_entries s k div 8" and "r = n_entries s k mod 8"
  have qr: "n_entries s k = 8 * q + r" "r < 8" by (simp_all add: q_def r_def)
  have nb: "i_n_blocks (inodes s k) = (if r = 0 then q else Suc q)"
    using dir_okD(3) [OF ok(3)] ceil8 [OF qr(2), of q] by (simp add: qr(1) layout)
  have sz: "i_size (inodes s k) = q * 4096 + r * 512"
    using dir_okD(2) [OF ok(3)] by (simp add: qr(1) layout)
  have full: "i_size (inodes s k) = i_n_blocks (inodes s k) * BLOCK_SIZE \<longleftrightarrow> r = 0"
    using qr(2) by (simp add: sz nb BLOCK_SIZE_def)
  have target: "(n_entries s k + 1 + N_DENTRY_PER_BLOCK - 1) div N_DENTRY_PER_BLOCK = Suc q"
    using qr by (simp add: layout)
  show thesis
  proof (cases "r = 0")
    case True
    obtain b where b: "get_free_bit (data_bitmap s) = int b"
      using free by (metis zero_le_imp_eq_int)
    have n32: "i_n_blocks (inodes s k) < N_DATA_BLOCKS_PER_INODE"
      using room qr True by (simp add: nb layout)
    have "b < N_DATA_BLOCKS" using fresh_block(1) [OF ok(1) b] by (simp add: layout)
    then have g: "grow_dir s k = Some (Inr (), append_block s k b)"
      using True full n32 b
      by (simp add: grow_dir_def init_data_block_def get_data_block_def append_block_def Let_def
          upd_inode_def)
    show thesis
    proof (rule that [OF g append_block_ok [OF ok(1,2) n32 b]])
      show "only_file k s (append_block s k b)"
        using append_block_content [OF ok(1,2) n32] append_block_inode [OF ok(1,2) n32, of b]
        by (simp add: only_file_def)
      show "content (append_block s k b) k = content s k"
        by (rule append_block_content [OF ok(1,2) n32 ok(2)])
    qed (use append_block_inode [OF ok(1,2) n32, of b] True nb target in \<open>simp_all add: q_def layout\<close>)
  next
    case False
    then have "grow_dir s k = Some (Inr (), s)" using full by (simp add: grow_dir_def Let_def)
    then show thesis
      using False ok(1) nb target by (intro that [of s]) (simp_all add: q_def layout)
  qed
qed

lemma insert_dentry_spec:
  assumes ok: "blocks_ok s" "k \<in> live s" "dir_ok s k" and room: "n_entries s k < N_DENTRY_PER_DIR"
    and free: "0 \<le> get_free_bit (data_bitmap s)"
    and name: "length name < FS_FILENAME_LEN" "0 \<notin> set name" "ino < N_INODES"
    and new: "name \<notin> fst ` set (dentries s k)"
  obtains v where "insert_dentry c s k ino name = Some (Inr (), v)" "blocks_ok v"
    "dir_ok v k" "dentries v k = dentries s k @ [(name, ino)]" "only_file k s v"
proof -
  let ?e = "n_entries s k"
  obtain t where g: "grow_dir s k = Some (Inr (), t)" and t: "blocks_ok t" "only_file k s t"
    and ct: "content t k = content s k" and nb: "?e div N_DENTRY_PER_BLOCK < i_n_blocks (inodes t k)"
    and nb': "i_n_blocks (inodes t k) = (?e + 1 + N_DENTRY_PER_BLOCK - 1) div N_DENTRY_PER_BLOCK"
    using grow_dir_spec [OF ok room free] by blast
  have lt: "k \<in> live t" using t(2) ok(2) by (simp add: only_file_live)
  have mode: "S_ISDIR (i_mode (inodes t k))" using t(2) dir_okD(1) [OF ok(3)] by (simp add: only_file_def)
  have size: "i_size (inodes t k) = ?e * DENTRY_SIZE"
    using content_eqD(1) [OF ct] dir_okD(2) [OF ok(3)] by simp
  have sdiv: "i_size (inodes t k) div DENTRY_SIZE = ?e" by (simp add: size layout)
  define u where "u = t\<lparr>data := put_dirent (data t) (entry_at (inodes t k) ?e) name ino\<rparr>"
  define v where "v = upd_inode u k (\<lambda>p. p\<lparr>i_size := i_size p + DENTRY_SIZE, i_atim := cx_time c,
    i_mtim := cx_time c\<rparr>)"
  have "get_dirent ?e (inodes t k) = Some (entry_at (inodes t k) ?e)"
    using get_dirent_entry [OF t(1) lt mode nb] .
  then have run: "insert_dentry c s k ino name = Some (Inr (), v)"
    using g by (simp add: insert_dentry_def sdiv put_dirent_swap [OF name(1)] v_def u_def)
  note ents = put_dirent_entries [OF t(1) lt nb name u_def]
  have below: "i div N_DENTRY_PER_BLOCK < i_n_blocks (inodes t k)" if "i \<le> ?e" for i
    using that nb div_le_mono [of i ?e N_DENTRY_PER_BLOCK] by linarith
  have fv: "file_byte v j = file_byte u j" for j
    by (rule ext) (simp add: v_def file_byte_upd_inode)
  have nv: "n_entries v k = Suc ?e" by (simp add: n_entries_def v_def u_def size layout)
  have ev: "entry_name v k i = entry_name u k i" "entry_ino v k i = entry_ino u k i" for i
    by (simp_all add: entry_name_def entry_ino_def fv)
  have dt: "dentries t k = dentries s k" "n_entries t k = ?e" using dentries_content [OF ct] by simp_all
  have "entry_name t k i = entry_name s k i \<and> entry_ino t k i = entry_ino s k i" if "i < ?e" for i
    using nth_dentries [of i t k] nth_dentries [of i s k] dt that by simp
  then have dv: "dentries v k = dentries s k @ [(name, ino)]"
    using below by (simp add: dentries_def nv ev ents)
  have "blocks_ok u" using t(1) by (simp add: u_def)
  moreover have "Suc ?e * DENTRY_SIZE \<le> i_n_blocks (inodes t k) * BLOCK_SIZE"
    using ceil8_mult [of "Suc ?e"] by (simp add: nb' layout)
  ultimately have bv: "blocks_ok v"
    unfolding v_def using blocks_okD [OF t(1) lt] by (intro blocks_ok_upd_inode) (simp_all add: u_def size)
  have other: "content v j = content t j" if "j \<in> live t" "j \<noteq> k" for j
  proof (rule content_cong)
    show "i_size (inodes v j) = i_size (inodes t j)" using that by (simp add: v_def u_def)
    show "file_byte v j p = file_byte t j p" if "p < i_size (inodes t j)" for p
      unfolding fv using that \<open>j \<in> live t\<close> \<open>j \<noteq> k\<close> t(1)
      by (intro put_dirent_files(2) [OF t(1) lt nb name(1) u_def] size_in_blocks)
  qed
  have "only_file k t v"
    using other by (simp add: only_file_def v_def u_def)
  then have frame: "only_file k s v" using t(2) by (rule only_file_trans [rotated])
  have dok: "dir_ok v k"
    unfolding dir_ok_def dv nv
    using dir_okD(6) [OF ok(3)] ok(3) name new nb' mode
    by (auto simp: v_def u_def size dir_ok_def)
  show thesis by (rule that [OF run bv dok dv frame])
qed

end
