(* ===== verification/FsUnlink.thy ===== *)
theory FsUnlink
  imports FsDirSpec
begin

text \<open>
  The scan of \<open>unlink_inode\<close>: it moves every entry after the match one place down, and the
  release of the last block and of the inode. The whole function deletes one entry.
\<close>

section \<open>Moving an entry\<close>

lemma entry_at_disjoint:
  assumes ok: "blocks_ok s" "k \<in> live s" and ne: "e \<noteq> e'"
    and e: "e div N_DENTRY_PER_BLOCK < i_n_blocks (inodes s k)"
      "e' div N_DENTRY_PER_BLOCK < i_n_blocks (inodes s k)"
  shows "entry_at (inodes s k) e + DENTRY_SIZE \<le> entry_at (inodes s k) e' \<or>
    entry_at (inodes s k) e' + DENTRY_SIZE \<le> entry_at (inodes s k) e"
proof -
  let ?b = "i_data_blocks (inodes s k) ! (e div 8)" and ?b' = "i_data_blocks (inodes s k) ! (e' div 8)"
  have at: "entry_at (inodes s k) e = ?b * 4096 + e mod 8 * 512"
    "entry_at (inodes s k) e' = ?b' * 4096 + e' mod 8 * 512" by (simp_all add: entry_at_def layout)
  have m: "e mod 8 < 8" "e' mod 8 < 8" by simp_all
  show ?thesis
  proof (cases "e div 8 = e' div 8")
    case True
    then have "e mod 8 \<noteq> e' mod 8" using ne by (metis div_mult_mod_eq)
    then show ?thesis using True by (auto simp: at layout)
  next
    case False
    then have "?b \<noteq> ?b'"
      using e blocks_okD(4) [OF ok] by (auto simp: layout dest: inj_onD)
    then consider "Suc ?b \<le> ?b'" | "Suc ?b' \<le> ?b" by linarith
    then show ?thesis
    proof cases
      case 1
      then show ?thesis unfolding at layout_values using m(1) by (intro disjI1) linarith
    next
      case 2
      then show ?thesis unfolding at layout_values using m(2) by (intro disjI2) linarith
    qed
  qed
qed

lemma copy_dirent_put:
  fixes s :: fs
  assumes ok: "blocks_ok s" "k \<in> live s" and ne: "e \<noteq> e'"
    and e: "e div N_DENTRY_PER_BLOCK < i_n_blocks (inodes s k)"
      "e' div N_DENTRY_PER_BLOCK < i_n_blocks (inodes s k)"
    and len: "length (entry_name s k e') < FS_FILENAME_LEN"
  shows "copy_dirent (data s) (entry_at (inodes s k) e) (entry_at (inodes s k) e') =
    Some (put_dirent (data s) (entry_at (inodes s k) e) (entry_name s k e') (entry_ino s k e'))"
proof -
  have "d_ino (strcpy_to (data s) (entry_at (inodes s k) e) (entry_name s k e')) (entry_at (inodes s k) e')
      = d_ino (data s) (entry_at (inodes s k) e')"
    using entry_at_disjoint [OF ok ne e] len
    by (auto simp: d_ino_def strcpy_to_def layout mem_simps)
  then show ?thesis
    using len by (simp add: copy_dirent_def entry_via_data put_dirent_def Let_def)
qed

section \<open>The scan\<close>

definition scan_src :: "nat \<Rightarrow> nat \<Rightarrow> nat \<Rightarrow> nat \<Rightarrow> nat" where
  "scan_src d q p r = (if q \<le> r \<and> r < min p (d - 1) then Suc r else r)"

definition scanned :: "fs \<Rightarrow> nat \<Rightarrow> nat \<Rightarrow> nat \<Rightarrow> int \<times> mem \<Rightarrow> bool" where
  "scanned s k q p st \<longleftrightarrow> (0 \<le> fst st \<longleftrightarrow> q < p) \<and>
     (\<forall>r < n_entries s k.
        entry_name (s\<lparr>data := snd st\<rparr>) k r = entry_name s k (scan_src (n_entries s k) q p r) \<and>
        entry_ino (s\<lparr>data := snd st\<rparr>) k r = entry_ino s k (scan_src (n_entries s k) q p r)) \<and>
     (\<forall>j \<in> live s. j \<noteq> k \<longrightarrow> (\<forall>x < i_n_blocks (inodes s j) * BLOCK_SIZE.
        file_byte (s\<lparr>data := snd st\<rparr>) j x = file_byte s j x))"

definition block_entries :: "nat \<Rightarrow> nat \<Rightarrow> nat" where
  "block_entries d i = (if (i + 1) * N_DENTRY_PER_BLOCK \<le> d then N_DENTRY_PER_BLOCK
     else d mod N_DENTRY_PER_BLOCK)"

lemma block_entries_split:
  fixes q r i :: nat
  assumes "d = 8 * q + r" "r < 8"
  shows "block_entries d i = (if i < q then 8 else r)"
    "(d + N_DENTRY_PER_BLOCK - 1) div N_DENTRY_PER_BLOCK = (if r = 0 then q else Suc q)"
proof -
  have "(i + 1) * 8 \<le> 8 * q + r \<longleftrightarrow> i < q" using assms(2) by auto
  then show "block_entries d i = (if i < q then 8 else r)"
    using assms by (simp add: block_entries_def layout)
  show "(d + N_DENTRY_PER_BLOCK - 1) div N_DENTRY_PER_BLOCK = (if r = 0 then q else Suc q)"
    using ceil8 [OF assms(2), of q] by (simp add: assms(1) layout)
qed

lemma block_entries_end:
  assumes "i < (d + N_DENTRY_PER_BLOCK - 1) div N_DENTRY_PER_BLOCK"
  shows "i * N_DENTRY_PER_BLOCK + block_entries d i = min d ((i + 1) * N_DENTRY_PER_BLOCK)"
proof -
  obtain q r where d: "d = 8 * q + r" "r < 8" by (metis mult.commute div_mult_mod_eq mod_less_divisor zero_less_numeral)
  note sp = block_entries_split [OF d]
  show ?thesis
  proof (cases "i < q")
    case True
    then have "Suc i * 8 \<le> q * 8" by (intro mult_le_mono1) simp
    moreover have "block_entries d i = 8" using True by (simp add: sp)
    ultimately show ?thesis using d by (simp add: layout)
  next
    case False
    then show ?thesis using assms d unfolding sp by (auto simp: layout min_def split: if_splits)
  qed
qed

lemma last_entry:
  assumes "i < (d + N_DENTRY_PER_BLOCK - 1) div N_DENTRY_PER_BLOCK" "j < block_entries d i"
  shows "j + i * N_DENTRY_PER_BLOCK < d"
    "(j = block_entries d i - 1 \<and> i = (d + N_DENTRY_PER_BLOCK - 1) div N_DENTRY_PER_BLOCK - 1) =
     (j + i * N_DENTRY_PER_BLOCK = d - 1)"
    "(j + i * N_DENTRY_PER_BLOCK) div N_DENTRY_PER_BLOCK = i"
proof -
  obtain q r where d: "d = 8 * q + r" "r < 8" by (metis mult.commute div_mult_mod_eq mod_less_divisor zero_less_numeral)
  note sp = block_entries_split [OF d]
  have j: "j < (if i < q then 8 else r)" and i: "i < (if r = 0 then q else Suc q)"
    using assms unfolding sp by simp_all
  show "j + i * N_DENTRY_PER_BLOCK < d" using i j d by (auto simp: layout split: if_splits)
  show "(j = block_entries d i - 1 \<and> i = (d + N_DENTRY_PER_BLOCK - 1) div N_DENTRY_PER_BLOCK - 1) =
     (j + i * N_DENTRY_PER_BLOCK = d - 1)"
    unfolding sp using i j d by (auto simp: layout split: if_splits)
  show "(j + i * N_DENTRY_PER_BLOCK) div N_DENTRY_PER_BLOCK = i"
    using j d(2) by (simp add: layout split: if_splits)
qed

lemma scanned_put:
  fixes s :: fs
  assumes ok: "blocks_ok s" "k \<in> live s" "dir_ok s k"
    and inv: "scanned s k q p (i0, m)" and p: "p + 1 < n_entries s k" "q \<le> p"
    and u: "u = s\<lparr>data := m\<rparr>"
    and zero: "\<And>r. r < n_entries s k \<Longrightarrow> 0 \<notin> set (entry_name s k r)" and i1: "0 \<le> i1"
  shows "scanned s k q (Suc p) (i1, put_dirent m (entry_at (inodes s k) p) (entry_name u k (p + 1))
    (entry_ino u k (p + 1)))"
proof -
  let ?d = "n_entries s k"
  have uok: "blocks_ok u" "k \<in> live u" using ok by (simp_all add: u)
  have blk: "r div N_DENTRY_PER_BLOCK < i_n_blocks (inodes u k)" if "r < ?d" for r
    using entry_block [OF ok(3) that] by (simp add: u)
  have src: "entry_name u k r = entry_name s k (scan_src ?d q p r)"
    "entry_ino u k r = entry_ino s k (scan_src ?d q p r)" if "r < ?d" for r
    using inv that by (simp_all add: scanned_def u)
  have nxt: "entry_name u k (p + 1) = entry_name s k (p + 1)" "entry_ino u k (p + 1) = entry_ino s k (p + 1)"
    using src [OF p(1)] by (simp_all add: scan_src_def)
  have len: "length (entry_name u k (p + 1)) < FS_FILENAME_LEN" "0 \<notin> set (entry_name u k (p + 1))"
    "entry_ino u k (p + 1) < N_INODES"
    unfolding nxt using dir_okD(4,5) [OF ok(3) p(1)] zero [OF p(1)] by simp_all
  define v where "v = u\<lparr>data := put_dirent (data u) (entry_at (inodes u k) p) (entry_name u k (p + 1))
    (entry_ino u k (p + 1))\<rparr>"
  have v: "v = s\<lparr>data := put_dirent m (entry_at (inodes s k) p) (entry_name u k (p + 1))
    (entry_ino u k (p + 1))\<rparr>" by (simp add: v_def u)
  have pd: "p < ?d" using p(1) by simp
  note ent = put_dirent_entries [OF uok blk [OF pd] len v_def blk]
  have "entry_name v k r = entry_name s k (scan_src ?d q (Suc p) r) \<and>
      entry_ino v k r = entry_ino s k (scan_src ?d q (Suc p) r)" if "r < ?d" for r
    using ent [OF that] src [OF that] nxt p by (auto simp: scan_src_def)
  moreover have "file_byte v j x = file_byte s j x"
    if "j \<in> live s" "j \<noteq> k" "x < i_n_blocks (inodes s j) * BLOCK_SIZE" for j x
    using put_dirent_files(2) [OF uok blk [OF pd] len(1) v_def, of j x] inv that
    by (simp add: u scanned_def)
  ultimately show ?thesis
    unfolding scanned_def fst_conv snd_conv v [symmetric] using i1 p(2) by auto
qed

lemma unlink_block_scan:
  fixes s :: fs
  assumes ok: "blocks_ok s" "k \<in> live s" "dir_ok s k"
    and zero: "\<And>r. r < n_entries s k \<Longrightarrow> 0 \<notin> set (entry_name s k r)"
    and match: "\<And>r. r < n_entries s k \<Longrightarrow> (ino = entry_ino s k r \<and> entry_name s k r = f) = (r = q)"
    and i: "i < i_n_blocks (inodes s k)"
    and j: "j \<le> block_entries (n_entries s k) i"
    and inv: "scanned s k q (j + i * N_DENTRY_PER_BLOCK) st"
  shows "\<exists>st'. unlink_block (inodes s k) ino f (block_entries (n_entries s k) i) i j st = Some st' \<and>
    scanned s k q (block_entries (n_entries s k) i + i * N_DENTRY_PER_BLOCK) st'"
  using j inv
proof (induction "block_entries (n_entries s k) i - j" arbitrary: j st)
  case 0
  then show ?case by (simp add: unlink_block.simps)
next
  case (Suc x)
  let ?d = "n_entries s k" and ?n = "block_entries (n_entries s k) i"
  let ?p = "j + i * N_DENTRY_PER_BLOCK"
  obtain i0 m where st: "st = (i0, m)" by (cases st)
  define u where "u = s\<lparr>data := m\<rparr>"
  have j: "j < ?n" using Suc.hyps(2) by simp
  have i': "i < (?d + N_DENTRY_PER_BLOCK - 1) div N_DENTRY_PER_BLOCK" using i dir_okD(3) [OF ok(3)] by simp
  note last = last_entry [OF i' j]
  have p: "?p < ?d" by (rule last(1))
  have uok: "blocks_ok u" "k \<in> live u" using ok by (simp_all add: u_def)
  have blk: "r div N_DENTRY_PER_BLOCK < i_n_blocks (inodes s k)" if "r < ?d" for r
    using entry_block [OF ok(3) that] .
  have dirent: "get_dirent r (inodes s k) = Some (entry_at (inodes s k) r)" if "r < ?d" for r
    using get_dirent_entry [OF ok(1,2) dir_okD(1) [OF ok(3)] blk [OF that]] .
  have inv: "scanned s k q ?p (i0, m)" using Suc.prems(2) st by simp
  have here: "entry_name u k ?p = entry_name s k ?p" "entry_ino u k ?p = entry_ino s k ?p"
    using inv p by (auto simp: scanned_def u_def scan_src_def)
  have "strcmp_eq f m (entry_at (inodes s k) ?p) \<longleftrightarrow> entry_name s k ?p = f"
    using strcmp_entry [of u k ?p f] dir_okD(4) [OF ok(3) p] here by (simp add: u_def)
  moreover have "d_ino m (entry_at (inodes s k) ?p) = entry_ino s k ?p"
    using entry_via_data(2) [of u k ?p] here by (simp add: u_def)
  ultimately have cmp: "(ino = d_ino m (entry_at (inodes s k) ?p) \<and>
      strcmp_eq f m (entry_at (inodes s k) ?p)) = (?p = q)"
    using match [OF p] by simp
  define i1 where "i1 = (if ?p = q then int j else i0)"
  have i1: "0 \<le> i1 \<longleftrightarrow> q \<le> ?p" using inv by (auto simp: i1_def scanned_def)
  have lastp: "(j = ?n - 1 \<and> i = i_n_blocks (inodes s k) - 1) = (?p = ?d - 1)"
    using last(2) dir_okD(3) [OF ok(3)] by simp
  have rec: "\<exists>st'. unlink_block (inodes s k) ino f ?n i (Suc j) st1 = Some st' \<and>
      scanned s k q (?n + i * N_DENTRY_PER_BLOCK) st'" if "scanned s k q (Suc ?p) st1" for st1
    using Suc.hyps(1) [of "Suc j" st1] Suc.hyps(2) j that by simp
  show ?case
  proof (cases "0 \<le> i1 \<and> ?p \<noteq> ?d - 1")
    case True
    then have p1: "?p + 1 < ?d" and qp: "q \<le> ?p" using p i1 by auto
    have nxt: "entry_name u k (?p + 1) = entry_name s k (?p + 1)"
      using inv p1 by (simp add: scanned_def u_def scan_src_def)
    have "copy_dirent m (entry_at (inodes s k) ?p) (entry_at (inodes s k) (?p + 1)) =
        Some (put_dirent m (entry_at (inodes s k) ?p) (entry_name u k (?p + 1)) (entry_ino u k (?p + 1)))"
      using copy_dirent_put [OF uok, of ?p "?p + 1"] blk [OF p] blk [OF p1] dir_okD(4) [OF ok(3) p1] nxt
      by (simp add: u_def)
    moreover note rec [OF scanned_put [OF ok inv p1 qp u_def zero conjunct1 [OF True]]]
    moreover have "get_dirent (j + 1 + i * N_DENTRY_PER_BLOCK) (inodes s k) =
        Some (entry_at (inodes s k) (?p + 1))" using dirent [OF p1] by simp
    ultimately show ?thesis
      using True j dirent [OF p] cmp lastp
      by (simp add: unlink_block.simps [of _ ino f ?n i j "(i0, m)"] st i1_def Let_def)
  next
    case False
    have "scanned s k q (Suc ?p) (i1, m)"
      using inv False i1 p unfolding scanned_def by (auto simp: scan_src_def)
    from rec [OF this] False show ?thesis
      using j dirent [OF p] cmp lastp
      by (auto simp: unlink_block.simps [of _ ino f ?n i j "(i0, m)"] st i1_def Let_def)
  qed
qed

lemma unlink_blocks_scan:
  fixes s :: fs
  assumes ok: "blocks_ok s" "k \<in> live s" "dir_ok s k"
    and zero: "\<And>r. r < n_entries s k \<Longrightarrow> 0 \<notin> set (entry_name s k r)"
    and match: "\<And>r. r < n_entries s k \<Longrightarrow> (ino = entry_ino s k r \<and> entry_name s k r = f) = (r = q)"
    and i: "i \<le> i_n_blocks (inodes s k)"
    and inv: "scanned s k q (min (n_entries s k) (i * N_DENTRY_PER_BLOCK)) st"
  shows "\<exists>st'. unlink_blocks (inodes s k) ino f (n_entries s k) i st = Some st' \<and>
    scanned s k q (n_entries s k) st'"
  using i inv
proof (induction "i_n_blocks (inodes s k) - i" arbitrary: i st)
  case 0
  then have "i = i_n_blocks (inodes s k)" by simp
  moreover have "n_entries s k \<le> i_n_blocks (inodes s k) * N_DENTRY_PER_BLOCK"
    using ceil8_mult [of "n_entries s k"] by (simp add: dir_okD(3) [OF ok(3)] layout)
  ultimately show ?case using 0(3) by (simp add: unlink_blocks.simps min_absorb1)
next
  case (Suc x)
  let ?d = "n_entries s k"
  have i: "i < i_n_blocks (inodes s k)" using Suc.hyps(2) by simp
  have i': "i < (?d + N_DENTRY_PER_BLOCK - 1) div N_DENTRY_PER_BLOCK" using i dir_okD(3) [OF ok(3)] by simp
  note fin = block_entries_end [OF i']
  have "i * N_DENTRY_PER_BLOCK \<le> ?d" using fin by linarith
  then have "scanned s k q (0 + i * N_DENTRY_PER_BLOCK) st" using Suc.prems(2) by (simp add: min_absorb2)
  from unlink_block_scan [OF ok zero match i _ this]
  obtain st1 where st1: "unlink_block (inodes s k) ino f (block_entries ?d i) i 0 st = Some st1"
    "scanned s k q (block_entries ?d i + i * N_DENTRY_PER_BLOCK) st1" by blast
  have "scanned s k q (min ?d (Suc i * N_DENTRY_PER_BLOCK)) st1"
    using st1(2) fin by (simp add: add.commute)
  then have "\<exists>st'. unlink_blocks (inodes s k) ino f ?d (Suc i) st1 = Some st' \<and> scanned s k q ?d st'"
    using Suc.hyps i by (intro Suc.hyps(1)) simp_all
  then show ?case
    unfolding unlink_blocks.simps [of _ ino f ?d i st] block_entries_def [symmetric] Let_def
    using i st1(1) by simp
qed

text \<open>The list of entries once the directory has lost its last slot.\<close>

lemma scanned_list:
  assumes "scanned s k q d st" "q < d" "d = n_entries s k" "u = s\<lparr>data := snd st\<rparr>"
  shows "map (\<lambda>i. (entry_name u k i, entry_ino u k i)) [0..<d - 1] =
    take q (dentries s k) @ drop (Suc q) (dentries s k)"
proof (rule nth_equalityI)
  fix r assume "r < length (map (\<lambda>i. (entry_name u k i, entry_ino u k i)) [0..<d - 1])"
  then have r: "r < d - 1" by simp
  then have "(entry_name u k r, entry_ino u k r) =
      (entry_name s k (scan_src d q d r), entry_ino s k (scan_src d q d r))"
    using assms by (auto simp: scanned_def)
  also have "\<dots> = dentries s k ! (if r < q then r else Suc r)"
    using r assms(2,3) by (auto simp: scan_src_def nth_dentries)
  also have "\<dots> = (take q (dentries s k) @ drop (Suc q) (dentries s k)) ! r"
    using r assms(2,3) by (auto simp: nth_append)
  finally show "map (\<lambda>i. (entry_name u k i, entry_ino u k i)) [0..<d - 1] ! r =
      (take q (dentries s k) @ drop (Suc q) (dentries s k)) ! r"
    using r by simp
qed (use assms in auto)

section \<open>The file system invariant\<close>

definition dirs :: "fs \<Rightarrow> nat set" where
  "dirs s = {k \<in> live s. S_ISDIR (i_mode (inodes s k))}"

definition children :: "fs \<Rightarrow> nat \<Rightarrow> nat list" where
  "children s k = map snd (dentries s k)"

text \<open>
  Blocks are owned consistently, the root is a directory, every directory is well formed,
  an empty file has no blocks, and the entries form a forest: they name live inodes other
  than the root, and no inode is named twice.
\<close>

definition fs_ok :: "fs \<Rightarrow> bool" where
  "fs_ok s \<longleftrightarrow> blocks_ok s \<and> sb_root_ino (superblock s) \<in> dirs s \<and>
     (\<forall>k \<in> dirs s. dir_ok s k) \<and>
     (\<forall>k \<in> live s. i_size (inodes s k) = 0 \<longrightarrow> i_n_blocks (inodes s k) = 0) \<and>
     (\<forall>k \<in> live s. i_parent (inodes s k) < N_INODES) \<and>
     (\<forall>p \<in> dirs s. set (children s p) \<subseteq> live s - {sb_root_ino (superblock s)}) \<and>
     (\<forall>p \<in> dirs s. distinct (children s p)) \<and>
     (\<forall>p \<in> dirs s. \<forall>p' \<in> dirs s. p \<noteq> p' \<longrightarrow> set (children s p) \<inter> set (children s p') = {})"

lemma fs_okD:
  assumes "fs_ok s"
  shows "blocks_ok s" "sb_root_ino (superblock s) \<in> dirs s" "k \<in> dirs s \<Longrightarrow> dir_ok s k"
    "k \<in> live s \<Longrightarrow> i_size (inodes s k) = 0 \<Longrightarrow> i_n_blocks (inodes s k) = 0"
    "k \<in> live s \<Longrightarrow> i_parent (inodes s k) < N_INODES"
    "k \<in> dirs s \<Longrightarrow> set (children s k) \<subseteq> live s - {sb_root_ino (superblock s)}"
    "k \<in> dirs s \<Longrightarrow> distinct (children s k)"
    "k \<in> dirs s \<Longrightarrow> p \<in> dirs s \<Longrightarrow> p \<noteq> k \<Longrightarrow> set (children s p) \<inter> set (children s k) = {}"
  using assms by (auto simp: fs_ok_def)

lemma live_bound: "blocks_ok s \<Longrightarrow> k \<in> live s \<Longrightarrow> k < N_INODES"
  by (auto simp: live_def used_bit_def blocks_ok_def bitmaps_ok_def)

lemma dirs_live: "k \<in> dirs s \<Longrightarrow> k \<in> live s"
  by (simp add: dirs_def)

lemma dir_ok_cong:
  assumes "content t j = content s j" "inodes t j = inodes s j"
  shows "dir_ok t j = dir_ok s j"
  using dentries_content [OF assms(1)] assms(2) by (simp add: dir_ok_def)

section \<open>Deleting an entry\<close>

lemma drop_last_slot:
  assumes ok: "blocks_ok s" "p \<in> live s" "dir_ok s p" and q: "q < n_entries s p"
    and scan: "scanned s p q (n_entries s p) (idx, m)"
    and t: "t = (let s1 = upd_inode (s\<lparr>data := m\<rparr>) p (\<lambda>ino. ino\<lparr>i_size := i_size ino - DENTRY_SIZE\<rparr>) in
      if (n_entries s p - 1) mod N_DENTRY_PER_BLOCK = 0
      then upd_inode (s1\<lparr>data_bitmap := clear_bit (data_bitmap s1)
             (i_data_blocks (inodes s1 p) ! (i_n_blocks (inodes s1 p) - 1))\<rparr>)
             p (\<lambda>ino. ino\<lparr>i_n_blocks := (i_n_blocks ino + 255) mod 256\<rparr>)
      else s1)"
  shows "blocks_ok t" "only_file p s t" "dir_ok t p"
    "dentries t p = take q (dentries s p) @ drop (Suc q) (dentries s p)"
proof -
  let ?d = "n_entries s p" and ?n = "i_n_blocks (inodes s p)"
  let ?m = "(n_entries s p - 1 + N_DENTRY_PER_BLOCK - 1) div N_DENTRY_PER_BLOCK"
  define u where "u = s\<lparr>data := m\<rparr>"
  have last: "?n = (if (?d - 1) mod N_DENTRY_PER_BLOCK = 0 then Suc ?m else ?m)"
  proof -
    obtain a r where d: "?d - 1 = 8 * a + r" "r < 8"
      by (metis mult.commute div_mult_mod_eq mod_less_divisor zero_less_numeral)
    then have "?d = 8 * a + r + 1" using q by simp
    moreover have "(8 * a + r + 1 + 8 - 1) div 8 = Suc a" using d(2) by simp
    ultimately have "?n = Suc a" using dir_okD(3) [OF ok(3)] by (simp add: layout)
    then show ?thesis using ceil8 [OF d(2), of a] d by (simp add: layout)
  qed
  have n32: "?n \<le> 32" using blocks_okD(3) [OF ok(1,2)] by (simp add: layout)
  have bm: "bitmap_ok (data_bitmap s)" "n_bits (data_bitmap s) = 3808"
    using ok(1) data_bits by (auto simp: blocks_ok_def bitmaps_ok_def)
  have size: "i_size (inodes s p) = ?d * 512" using dir_okD(2) [OF ok(3)] by (simp add: layout)
  have tp: "inodes t p = (inodes s p)\<lparr>i_size := (?d - 1) * 512, i_n_blocks := ?m\<rparr>"
    and tj: "\<And>j. j \<noteq> p \<Longrightarrow> inodes t j = inodes s j"
    and trest: "inode_bitmap t = inode_bitmap s" "superblock t = superblock s" "data t = m"
      "data_bitmap t = (if (?d - 1) mod N_DENTRY_PER_BLOCK = 0
         then clear_bit (data_bitmap s) (i_data_blocks (inodes s p) ! ?m) else data_bitmap s)"
  proof -
    let ?nb = "i_n_blocks (inodes s p)"
    have new: "i_size (inodes s p) - DENTRY_SIZE = (?d - 1) * 512"
      by (simp add: size layout diff_mult_distrib)
    have dec: "Suc x \<le> 32 \<Longrightarrow> (Suc x + 255) mod 256 = x" for x by simp
    show "inodes t p = (inodes s p)\<lparr>i_size := (?d - 1) * 512, i_n_blocks := ?m\<rparr>"
    proof (cases "(?d - 1) mod N_DENTRY_PER_BLOCK = 0")
      case True
      then have "?nb = Suc ?m" "(?nb + 255) mod 256 = ?m" using last n32 dec [of ?m] by simp_all
      with True new show ?thesis by (simp add: t Let_def)
    next
      case False
      then have "?nb = ?m" using last by simp
      with False new show ?thesis by (simp add: t Let_def)
    qed
    show "data_bitmap t = (if (?d - 1) mod N_DENTRY_PER_BLOCK = 0
         then clear_bit (data_bitmap s) (i_data_blocks (inodes s p) ! ?m) else data_bitmap s)"
    proof (cases "(?d - 1) mod N_DENTRY_PER_BLOCK = 0")
      case True
      then have "?nb - 1 = ?m" using last by simp
      with True show ?thesis by (simp add: t Let_def)
    qed (simp add: t)
  qed (simp_all add: t Let_def)
  have tail: "(!) (i_data_blocks (inodes s p)) ` {?m..<?n} =
      (if (?d - 1) mod N_DENTRY_PER_BLOCK = 0 then {i_data_blocks (inodes s p) ! ?m} else {})"
    unfolding last by auto
  have used: "used_bit (data_bitmap t) b \<longleftrightarrow> used_bit (data_bitmap s) b \<and>
      b \<notin> (!) (i_data_blocks (inodes s p)) ` {?m..<?n}" for b
    unfolding tail trest(4)
    using bm owned_block(3) [OF ok(1,2), of ?m] last by (auto simp: used_clear_bit)
  have "?d - 1 \<le> ?m * 8" using ceil8_mult [of "?d - 1"] by (simp add: layout)
  then have sm: "(?d - 1) * 512 \<le> ?m * BLOCK_SIZE" by (simp add: BLOCK_SIZE_def)
  have mn: "?m \<le> ?n" using last by simp
  show "blocks_ok t"
    by (rule release_tail_ok [OF ok(1,2) mn]) (use bm used trest tp tj sm in \<open>simp_all\<close>)
  have fb: "file_byte t j = file_byte u j" for j
    using tp tj by (cases "j = p") (simp_all add: file_byte_def [abs_def] u_def trest)
  have "content t j = content s j" if "j \<in> live s" "j \<noteq> p" for j
  proof (rule content_cong)
    show "i_size (inodes t j) = i_size (inodes s j)" using that tj by simp
    show "file_byte t j x = file_byte s j x" if "x < i_size (inodes s j)" for x
      using scan size_in_blocks [OF ok(1) \<open>j \<in> live s\<close> that] \<open>j \<in> live s\<close> \<open>j \<noteq> p\<close>
      by (simp add: fb scanned_def u_def)
  qed
  then show "only_file p s t" by (simp add: only_file_def tp tj trest)
  have nt: "n_entries t p = ?d - 1" by (simp add: n_entries_def tp layout)
  show dt: "dentries t p = take q (dentries s p) @ drop (Suc q) (dentries s p)"
    using scanned_list [OF scan q refl, of u]
    by (simp add: dentries_def [of t] nt entry_name_def entry_ino_def fb u_def)
  have sub: "set (dentries t p) \<subseteq> set (dentries s p)"
    unfolding dt using set_take_subset set_drop_subset by (metis Un_least set_append)
  have "distinct (map fst (dentries t p))"
  proof -
    have "dentries s p = take q (dentries s p) @ dentries s p ! q # drop (Suc q) (dentries s p)"
      using q by (simp add: id_take_nth_drop)
    then have "distinct (map fst (take q (dentries s p) @ dentries s p ! q # drop (Suc q) (dentries s p)))"
      using dir_okD(6) [OF ok(3)] by metis
    then show ?thesis unfolding dt by auto
  qed
  then show "dir_ok t p"
    using ok(3) sub by (auto simp: dir_ok_def nt tp layout)
qed

lemma only_fileD:
  assumes "only_file p s t"
  shows "inode_bitmap t = inode_bitmap s" "superblock t = superblock s" "live t = live s"
    "j \<noteq> p \<Longrightarrow> inodes t j = inodes s j" "j \<in> live s \<Longrightarrow> j \<noteq> p \<Longrightarrow> content t j = content s j"
    "i_mode (inodes t j) = i_mode (inodes s j)" "i_parent (inodes t j) = i_parent (inodes s j)"
    "dirs t = dirs s"
proof -
  show 1: "inode_bitmap t = inode_bitmap s" "superblock t = superblock s" "live t = live s"
    "j \<noteq> p \<Longrightarrow> inodes t j = inodes s j" "j \<in> live s \<Longrightarrow> j \<noteq> p \<Longrightarrow> content t j = content s j" for j
    using assms by (simp_all add: only_file_def live_def)
  show m: "i_mode (inodes t j) = i_mode (inodes s j)" "i_parent (inodes t j) = i_parent (inodes s j)" for j
    using assms by (cases "j = p"; simp add: only_file_def)+
  show "dirs t = dirs s" using 1(3) m by (auto simp: dirs_def)
qed

lemma content_inode_bitmap: "content (s\<lparr>inode_bitmap := b\<rparr>) j = content s j"
  by (simp add: content_def file_byte_def [abs_def])

lemma release_inode:
  assumes ok: "blocks_ok t" "k \<in> live t" "i_size (inodes t k) = 0 \<longrightarrow> i_n_blocks (inodes t k) = 0"
    and dir: "S_ISDIR (i_mode (inodes t k)) \<longrightarrow> i_size (inodes t k) = 0"
    and u: "u = (if \<not> S_ISDIR (i_mode (inodes t k)) then shrink_file c t (Some k) 0 else t)"
    and v: "v = u\<lparr>inode_bitmap := clear_bit (inode_bitmap u) (i_ino (inodes u k))\<rparr>"
  shows "blocks_ok v" "live v = live t - {k}" "superblock v = superblock t"
    "\<And>j. j \<noteq> k \<Longrightarrow> inodes v j = inodes t j"
    "\<And>j. j \<in> live t \<Longrightarrow> j \<noteq> k \<Longrightarrow> content v j = content t j"
proof -
  have u': "blocks_ok u \<and> only_file k t u \<and> i_n_blocks (inodes u k) = 0"
  proof (cases "S_ISDIR (i_mode (inodes t k)) \<or> i_size (inodes t k) = 0")
    case True
    then have "u = t" using u dir by (auto simp: shrink_file_def)
    then show ?thesis using ok dir True by auto
  next
    case False
    then have "u = shrink_file c t (Some k) 0" using u by simp
    from shrink_file_facts [OF ok(1,2) _ _ this] False show ?thesis by (simp add: div_eq_0_iff)
  qed
  then have uu: "blocks_ok u" "only_file k t u" "i_n_blocks (inodes u k) = 0" by simp_all
  have lu: "k \<in> live u" using uu(2) ok(2) by (simp add: only_file_live)
  then have "i_ino (inodes u k) = k" using blocks_okD(1) uu(1) by blast
  then have v': "v = u\<lparr>inode_bitmap := clear_bit (inode_bitmap u) k\<rparr>" using v by simp
  note dr = drop_inode_ok [OF uu(1) lu uu(3) v']
  show "blocks_ok v" by (rule dr(1))
  show "live v = live t - {k}" using dr(2) uu(2) by (simp add: only_file_live)
  show "superblock v = superblock t" using only_fileD(2) [OF uu(2)] by (simp add: v')
  show "inodes v j = inodes t j" if "j \<noteq> k" for j using only_fileD(4) [OF uu(2) that] by (simp add: v')
  show "content v j = content t j" if "j \<in> live t" "j \<noteq> k" for j
    using only_fileD(5) [OF uu(2) that] by (simp add: v' content_inode_bitmap)
qed

lemma fs_ok_delete:
  assumes fs: "fs_ok s" and p: "p \<in> dirs s" and q: "q < n_entries s p" "dentries s p ! q = (f, k)"
    and v: "blocks_ok v" "live v = live s - {k}" "superblock v = superblock s" "k \<noteq> p"
    and vino: "\<And>j. j \<noteq> k \<Longrightarrow> j \<noteq> p \<Longrightarrow> inodes v j = inodes s j"
    and vcont: "\<And>j. j \<in> live s \<Longrightarrow> j \<noteq> k \<Longrightarrow> j \<noteq> p \<Longrightarrow> content v j = content s j"
    and vp: "dir_ok v p" "dentries v p = take q (dentries s p) @ drop (Suc q) (dentries s p)"
      "i_mode (inodes v p) = i_mode (inodes s p)" "i_parent (inodes v p) = i_parent (inodes s p)"
  shows "fs_ok v"
proof -
  have dv: "dirs v = dirs s - {k}"
  proof -
    have "i_mode (inodes v j) = i_mode (inodes s j)" if "j \<noteq> k" for j
      using vino [OF that] vp(3) by (cases "j = p") simp_all
    then have "S_ISDIR (i_mode (inodes v j)) = S_ISDIR (i_mode (inodes s j))" if "j \<noteq> k" for j
      using that by presburger
    then show ?thesis using v(2) unfolding dirs_def by blast
  qed
  have split: "children s p = take q (children s p) @ k # drop (Suc q) (children s p)"
  proof -
    have len: "q < length (children s p)" and at: "children s p ! q = k"
      using q by (simp_all add: children_def)
    show ?thesis using id_take_nth_drop [OF len] unfolding at .
  qed
  have chp: "children v p = take q (children s p) @ drop (Suc q) (children s p)"
    by (simp add: children_def vp(2) take_map drop_map)
  have dist: "distinct (take q (children s p) @ k # drop (Suc q) (children s p))"
    using fs_okD(7) [OF fs p] split by metis
  have kin: "k \<in> set (children s p)" by (subst split) simp
  have setp: "set (children v p) = set (children s p) - {k}"
  proof -
    have "set (children s p) = set (take q (children s p) @ k # drop (Suc q) (children s p))"
      using arg_cong [OF split, of set] .
    then show ?thesis unfolding chp using dist by auto
  qed
  have chj: "children v j = children s j" "dir_ok v j = dir_ok s j" if "j \<in> dirs s" "j \<noteq> k" "j \<noteq> p" for j
    using dentries_content(2) [OF vcont] dir_ok_cong [OF vcont vino] that dirs_live
    by (auto simp: children_def)
  have knot: "k \<notin> set (children s j)" if "j \<in> dirs s" "j \<noteq> p" for j
    using fs_okD(8) [OF fs p that(1)] that(2) kin by blast
  have root: "sb_root_ino (superblock s) \<noteq> k" using fs_okD(6) [OF fs p] kin by auto
  have sets: "set (children v j) \<subseteq> set (children s j) - {k}" if "j \<in> dirs v" for j
    using that setp chj(1) knot dv by (cases "j = p") auto
  have cells: "i_size (inodes v j) = 0 \<longrightarrow> i_n_blocks (inodes v j) = 0" "i_parent (inodes v j) < N_INODES"
    if "j \<in> live v" for j
  proof -
    have "j \<in> live s" "j \<noteq> k" using that v(2) by auto
    then show "i_parent (inodes v j) < N_INODES"
      using fs_okD(5) [OF fs, of j] vino [of j] vp(4) by (cases "j = p") auto
    show "i_size (inodes v j) = 0 \<longrightarrow> i_n_blocks (inodes v j) = 0"
    proof (cases "j = p")
      case True
      have "n_entries v p = 0" if "i_size (inodes v p) = 0"
        using dir_okD(2) [OF vp(1)] that by (simp add: layout)
      then show ?thesis using True dir_okD(3) [OF vp(1)] by (simp add: layout)
    next
      case False
      then show ?thesis using fs_okD(4) [OF fs \<open>j \<in> live s\<close>] vino [of j] \<open>j \<noteq> k\<close> by simp
    qed
  qed
  have "distinct (children v j)" if "j \<in> dirs v" for j
    using that dist fs_okD(7) [OF fs] chj(1) dv by (cases "j = p") (auto simp: chp)
  moreover have "set (children v i) \<inter> set (children v j) = {}" if "i \<in> dirs v" "j \<in> dirs v" "i \<noteq> j" for i j
    using fs_okD(8) [OF fs, of j i] sets [OF that(1)] sets [OF that(2)] that dv by blast
  moreover have "set (children v j) \<subseteq> live v - {sb_root_ino (superblock v)}" if "j \<in> dirs v" for j
    using fs_okD(6) [OF fs, of j] sets [OF that] that dv v(2,3) by auto
  moreover have "dir_ok v j" if "j \<in> dirs v" for j
    using that fs_okD(3) [OF fs, of j] chj(2) vp(1) dv by (cases "j = p") auto
  ultimately show ?thesis
    unfolding fs_ok_def using v(1,3) fs_okD(2) [OF fs] root cells dv by auto
qed

lemma unlink_inode_spec:
  assumes fs: "fs_ok s" and p: "p \<in> dirs s"
    and path: "split_path path = Some (parent_path, f)" "find_inode s parent_path = Some (Some p)"
    and q: "q < n_entries s p" "dentries s p ! q = (f, k)"
    and empty: "S_ISDIR (i_mode (inodes s k)) \<longrightarrow> i_size (inodes s k) = 0"
  obtains v where "unlink_inode c s path (Some k) = Some (Inr (), v)" "fs_ok v"
    "live v = live s - {k}" "superblock v = superblock s"
    "dentries v p = take q (dentries s p) @ drop (Suc q) (dentries s p)"
    "\<And>j. j \<in> live v \<Longrightarrow> j \<noteq> p \<Longrightarrow> content v j = content s j"
    "\<And>j. j \<in> live v \<Longrightarrow> i_mode (inodes v j) = i_mode (inodes s j)"
proof -
  let ?d = "n_entries s p"
  have ok: "blocks_ok s" "p \<in> live s" "dir_ok s p" using fs_okD(1,3) [OF fs] p dirs_live by auto
  have kch: "k \<in> set (children s p)"
    using q by (metis children_def length_dentries length_map nth_map nth_mem snd_conv)
  then have kl: "k \<in> live s" using fs_okD(6) [OF fs p] by auto
  have ino: "i_ino (inodes s k) = k" using blocks_okD(1) ok(1) kl .
  have kp: "k \<noteq> p"
  proof
    assume "k = p"
    then have "i_size (inodes s p) = 0" using empty p by (simp add: dirs_def)
    then show False using q(1) dir_okD(2) [OF ok(3)] by (simp add: layout)
  qed
  have match: "(i_ino (inodes s k) = entry_ino s p r \<and> entry_name s p r = f) = (r = q)" if "r < ?d" for r
  proof -
    have "children s p ! r = entry_ino s p r" "children s p ! q = k"
      using that q by (simp_all add: children_def nth_dentries)
    moreover have "length (children s p) = ?d" by (simp add: children_def)
    ultimately have "entry_ino s p r = k \<longleftrightarrow> r = q"
      using fs_okD(7) [OF fs p] that q(1) nth_eq_iff_index_eq by metis
    then show ?thesis using ino q that by (auto simp: nth_dentries)
  qed
  have "scanned s p q (min ?d (0 * N_DENTRY_PER_BLOCK)) (-1, data s)"
    by (simp add: scanned_def scan_src_def)
  from unlink_blocks_scan [OF ok _ match _ this]
  obtain idx m where scan: "unlink_blocks (inodes s p) (i_ino (inodes s k)) f ?d 0 (-1, data s) = Some (idx, m)"
    "scanned s p q ?d (idx, m)" by (auto simp: entry_name_def cstr_no_zero)
  have idx: "0 \<le> idx" using scan(2) q(1) by (simp add: scanned_def)
  define t where "t = (let s1 = upd_inode (s\<lparr>data := m\<rparr>) p (\<lambda>ino. ino\<lparr>i_size := i_size ino - DENTRY_SIZE\<rparr>) in
      if (?d - 1) mod N_DENTRY_PER_BLOCK = 0
      then upd_inode (s1\<lparr>data_bitmap := clear_bit (data_bitmap s1)
             (i_data_blocks (inodes s1 p) ! (i_n_blocks (inodes s1 p) - 1))\<rparr>)
             p (\<lambda>ino. ino\<lparr>i_n_blocks := (i_n_blocks ino + 255) mod 256\<rparr>)
      else s1)"
  note dl = drop_last_slot [OF ok q(1) scan(2) t_def]
  note od = only_fileD [OF dl(2)]
  define u where "u = (if \<not> S_ISDIR (i_mode (inodes t k)) then shrink_file c t (Some k) 0 else t)"
  define v where "v = u\<lparr>inode_bitmap := clear_bit (inode_bitmap u) (i_ino (inodes u k))\<rparr>"
  have kt: "k \<in> live t" "inodes t k = inodes s k" using od(3,4) kl kp by simp_all
  have empt: "i_size (inodes t k) = 0 \<longrightarrow> i_n_blocks (inodes t k) = 0"
    "S_ISDIR (i_mode (inodes t k)) \<longrightarrow> i_size (inodes t k) = 0"
    using fs_okD(4) [OF fs kl] empty kt(2) by simp_all
  note rel = release_inode [OF dl(1) kt(1) empt u_def v_def]
  have pt: "p \<in> live t" using od(3) ok(2) by simp
  have pv: "inodes v p = inodes t p" "content v p = content t p" using rel(4,5) [of p] kp pt by simp_all
  have run: "unlink_inode c s path (Some k) = Some (Inr (), v)"
  proof -
    have "v = drop_entry c (s\<lparr>data := m\<rparr>) p k ?d"
      unfolding v_def u_def t_def drop_entry_def Let_def by simp
    then show ?thesis
      using empty path scan(1) idx by (auto simp: unlink_inode_def n_entries_def)
  qed
  have lv: "live v = live s - {k}" and sv: "superblock v = superblock s" using rel(2,3) od(2,3) by simp_all
  have vino: "inodes v j = inodes s j" if "j \<noteq> k" "j \<noteq> p" for j using rel(4) od(4) that by simp
  have vcont: "content v j = content s j" if "j \<in> live s" "j \<noteq> k" "j \<noteq> p" for j
    using rel(5) [of j] od(3,5) that by simp
  have vp: "dir_ok v p" "dentries v p = take q (dentries s p) @ drop (Suc q) (dentries s p)"
    using dir_ok_cong [OF pv(2,1)] dentries_content(2) [OF pv(2)] dl(3,4) by simp_all
  have vmode: "i_mode (inodes v j) = i_mode (inodes s j)" if "j \<noteq> k" for j
    using vino [OF that] pv(1) od(6) by (cases "j = p") simp_all
  have "i_parent (inodes v p) = i_parent (inodes s p)" using pv(1) od(7) by simp
  note fsv = fs_ok_delete [OF fs p q rel(1) lv sv kp vino vcont vp vmode [OF kp [symmetric]] this]
  show thesis
    by (rule that [OF run fsv lv sv vp(2)]) (use vcont vmode lv in auto)
qed

end
