(* ===== verification/FsPath.thy ===== *)
theory FsPath
  imports FsUnlink
begin

text \<open>
  Paths of fisopfs: the C tokenisation, splitting and walk on an absolute path without
  repeated slashes are \<open>resolve\<close>, the walk over the abstract directories.
\<close>

section \<open>Tokens\<close>

definition path_of :: "byte list list \<Rightarrow> byte list" where
  "path_of toks = concat (map (\<lambda>t. DELIM_CHAR # t) toks)"

definition valid_name :: "byte list \<Rightarrow> bool" where
  "valid_name t \<longleftrightarrow> t \<noteq> [] \<and> DELIM_CHAR \<notin> set t \<and> 0 \<notin> set t \<and> length t < FS_FILENAME_LEN"

definition valid_path :: "byte list list \<Rightarrow> bool" where
  "valid_path toks \<longleftrightarrow> toks \<noteq> [] \<and> (\<forall>t \<in> set toks. valid_name t) \<and> length toks \<le> MAX_LEVEL \<and>
     length (path_of toks) < FS_MAX_PATH"

lemma strtok_run:
  "DELIM_CHAR \<notin> set t \<Longrightarrow> cur @ t \<noteq> [] \<Longrightarrow>
     strtok_tokens (t @ path_of toks) cur = (cur @ t) # strtok_tokens (path_of toks) []"
proof (induction t arbitrary: cur)
  case Nil
  then show ?case by (cases toks) (simp_all add: path_of_def)
next
  case (Cons a t)
  then have "a \<noteq> DELIM_CHAR" by auto
  with Cons show ?case by simp
qed

lemma strtok_path_of:
  "\<forall>t \<in> set toks. valid_name t \<Longrightarrow> strtok_tokens (path_of toks) [] = toks"
proof (induction toks)
  case (Cons t toks)
  have "strtok_tokens (path_of (t # toks)) [] = strtok_tokens (t @ path_of toks) []"
    by (simp add: path_of_def)
  also have "\<dots> = t # toks"
    using strtok_run [of t "[]" toks] Cons by (simp add: valid_name_def)
  finally show ?case .
qed (simp add: path_of_def)

lemma collect_tokens_all:
  "\<forall>t \<in> set toks. valid_name t \<Longrightarrow> lvl + length toks \<le> MAX_LEVEL \<Longrightarrow>
     collect_tokens toks lvl acc = Some (Some (acc @ toks))"
  by (induction toks arbitrary: lvl acc) (auto simp: valid_name_def)

section \<open>Splitting\<close>

lemma last_delim_run:
  assumes "path = P @ DELIM_CHAR # t" "DELIM_CHAR \<notin> set t" "n \<le> length t"
  shows "last_delim path (length P + n) = length P"
  using assms(3)
proof (induction n)
  case 0
  then show ?case using assms(1) by (cases P) (auto simp: nth_append)
next
  case (Suc n)
  have "path ! (length P + Suc n) = t ! n" using assms(1) by (simp add: nth_append)
  then have "path ! (length P + Suc n) \<noteq> DELIM_CHAR" using assms(2) Suc.prems by (metis Suc_le_eq nth_mem)
  then show ?case using Suc by simp
qed

lemma path_of_snoc: "path_of (toks @ [t]) = path_of toks @ DELIM_CHAR # t"
  by (simp add: path_of_def)

lemma path_of_eq_Nil [simp]: "path_of toks = [] \<longleftrightarrow> toks = []"
  by (cases toks) (simp_all add: path_of_def)

lemma split_path_of:
  assumes "valid_path (toks @ [t])"
  shows "split_path (path_of (toks @ [t])) = Some (if toks = [] then [DELIM_CHAR] else path_of toks, t)"
proof -
  let ?P = "path_of toks"
  have t: "t \<noteq> []" "DELIM_CHAR \<notin> set t" "length t < FS_FILENAME_LEN"
    using assms by (simp_all add: valid_path_def valid_name_def)
  have len: "length (?P @ DELIM_CHAR # t) < FS_MAX_PATH"
    using assms by (simp add: valid_path_def path_of_snoc)
  have "(?P @ DELIM_CHAR # t) ! (length (?P @ DELIM_CHAR # t) - 1) = last t"
    using t(1) by (metis append_is_Nil_conv last_append last_conv_nth last_ConsR list.distinct(1))
  then have no_slash: "(?P @ DELIM_CHAR # t) ! (length (?P @ DELIM_CHAR # t) - 1) \<noteq> DELIM_CHAR"
    using t by (metis last_in_set)
  have pos: "last_delim (?P @ DELIM_CHAR # t) (length (?P @ DELIM_CHAR # t) - 1) = length ?P"
    using last_delim_run [OF refl t(2) order_refl, of ?P] t(1) by (cases t) simp_all
  have parent: "(if length ?P = 0 then take 1 (?P @ DELIM_CHAR # t) else take (length ?P) (?P @ DELIM_CHAR # t))
      = (if toks = [] then [DELIM_CHAR] else ?P)"
    by (simp add: path_of_def)
  have name: "take (length (?P @ DELIM_CHAR # t) - length ?P - 1) (drop (1 + length ?P) (?P @ DELIM_CHAR # t)) = t"
    by simp
  show ?thesis
    unfolding split_path_def path_of_snoc Let_def if_not_P [OF no_slash] pos parent name
    using len t(3) by (auto simp: layout)
qed

section \<open>The walk\<close>

fun resolve :: "fs \<Rightarrow> byte list list \<Rightarrow> nat \<Rightarrow> nat option" where
  "resolve s [] k = Some k"
| "resolve s (t # ts) k =
     (if S_ISDIR (i_mode (inodes s k)) then
        (case map_of (dentries s k) t of None \<Rightarrow> None | Some j \<Rightarrow> resolve s ts j)
      else None)"

definition root :: "fs \<Rightarrow> nat" where
  "root s = sb_root_ino (superblock s)"

lemma child_live:
  assumes "fs_ok s" "k \<in> dirs s" "map_of (dentries s k) t = Some j"
  shows "j \<in> live s" "j \<in> set (children s k)"
proof -
  have "(t, j) \<in> set (dentries s k)" using assms(3) by (rule map_of_SomeD)
  then show "j \<in> set (children s k)" by (force simp: children_def)
  then show "j \<in> live s" using fs_okD(6) [OF assms(1,2)] by auto
qed

lemma find_in_dir_fs:
  "fs_ok s \<Longrightarrow> k \<in> live s \<Longrightarrow> find_in_dir s t k =
     Some (if S_ISDIR (i_mode (inodes s k)) then map_of (dentries s k) t else None)"
  using fs_okD(1,3) [of s] find_in_dir_map_of [of s k t]
  by (auto simp: dirs_def find_in_dir_def Let_def)

lemma walk_resolve: "fs_ok s \<Longrightarrow> k \<in> live s \<Longrightarrow> walk s toks k = Some (resolve s toks k)"
proof (induction toks arbitrary: k)
  case (Cons t toks)
  show ?case
  proof (cases "S_ISDIR (i_mode (inodes s k)) \<and> map_of (dentries s k) t \<noteq> None")
    case True
    then obtain j where j: "map_of (dentries s k) t = Some j" by blast
    moreover have "j \<in> live s" using child_live(1) [OF Cons.prems(1) _ j] True Cons.prems(2) by (simp add: dirs_def)
    ultimately show ?thesis using True Cons by (simp add: find_in_dir_fs)
  qed (use Cons.prems in \<open>auto simp: find_in_dir_fs split: option.splits\<close>)
qed simp

lemma find_inode_resolve:
  assumes "fs_ok s" "valid_path toks"
  shows "find_inode s (path_of toks) = Some (resolve s toks (root s))"
proof -
  have r: "root s \<in> live s" "S_ISDIR (i_mode (inodes s (root s)))" "root s < N_INODES"
    using fs_okD(1,2) [OF assms(1)] live_bound by (auto simp: root_def dirs_def)
  have v: "toks \<noteq> []" "\<forall>t \<in> set toks. valid_name t" "length toks \<le> MAX_LEVEL"
    "length (path_of toks) + 1 \<le> FS_MAX_PATH"
    using assms(2) by (auto simp: valid_path_def)
  have "path_of toks \<noteq> [DELIM_CHAR]"
    using v(1,2) by (cases toks) (auto simp: path_of_def valid_name_def)
  moreover have "get_inode (sb_root_ino (superblock s)) = Some (root s)"
    using r(3) by (simp add: get_inode_def root_def)
  ultimately show ?thesis
    using r v strtok_path_of [OF v(2)] collect_tokens_all [OF v(2), of 0 "[]"] walk_resolve [OF assms(1) r(1)]
    by (simp add: find_inode_def)
qed

lemma find_inode_root: "fs_ok s \<Longrightarrow> find_inode s [DELIM_CHAR] = Some (Some (root s))"
  using fs_okD(1,2) [of s] live_bound [of s "root s"]
  by (auto simp: find_inode_def get_inode_def root_def dirs_def FS_MAX_PATH_def)

lemma find_inode_parent:
  assumes "fs_ok s" "valid_path (toks @ [t])"
  shows "find_inode s (if toks = [] then [DELIM_CHAR] else path_of toks) = Some (resolve s toks (root s))"
proof (cases "toks = []")
  case True
  then show ?thesis using find_inode_root [OF assms(1)] by simp
next
  case False
  moreover from this assms(2) have "valid_path toks" by (simp add: valid_path_def path_of_snoc)
  ultimately show ?thesis using find_inode_resolve [OF assms(1)] by simp
qed

lemma resolve_append:
  "resolve s (xs @ ys) k = (case resolve s xs k of None \<Rightarrow> None | Some j \<Rightarrow> resolve s ys j)"
  by (induction xs arbitrary: k) (auto split: option.splits)

lemma resolve_live: "fs_ok s \<Longrightarrow> k \<in> live s \<Longrightarrow> resolve s toks k = Some j \<Longrightarrow> j \<in> live s"
proof (induction toks arbitrary: k)
  case (Cons t toks)
  then obtain i where i: "S_ISDIR (i_mode (inodes s k))" "map_of (dentries s k) t = Some i"
    "resolve s toks i = Some j" by (auto split: if_splits option.splits)
  then show ?case using Cons child_live(1) [of s k t i] by (auto simp: dirs_def)
qed simp

end
