(* ===== verification/FsInvariant.thy ===== *)
theory FsInvariant
  imports FsPath
begin

text \<open>
  Every handler of fisopfs keeps the file system invariant, initialisation establishes it,
  and creating and unlinking act on the directory lists as one expects.
\<close>

section \<open>Updates that do not touch the tree\<close>

lemma fs_ok_file:
  assumes fs: "fs_ok s" and t: "blocks_ok t" "only_file k s t" and k: "k \<notin> dirs s"
    and z: "k \<in> live s \<Longrightarrow> i_size (inodes t k) = 0 \<Longrightarrow> i_n_blocks (inodes t k) = 0"
  shows "fs_ok t"
proof -
  note o = only_fileD [OF t(2)]
  have same: "inodes t j = inodes s j" "content t j = content s j" if "j \<in> dirs s" for j
    using o(4,5) [of j] that k dirs_live by auto
  have ch: "children t j = children s j" and dok: "dir_ok t j = dir_ok s j" if "j \<in> dirs s" for j
    using dentries_content(2) [OF same(2) [OF that]] dir_ok_cong [OF same(2,1)] that
    by (simp_all add: children_def)
  have zs: "i_size (inodes t j) = 0 \<longrightarrow> i_n_blocks (inodes t j) = 0" if "j \<in> live s" for j
    using z fs_okD(4) [OF fs that] o(4) [of j] that by (cases "j = k") auto
  show ?thesis
    unfolding fs_ok_def o(2,3,7,8)
    using t(1) fs_okD(2,3,5,6,7,8) [OF fs] ch dok zs by auto
qed

lemma fs_ok_touch:
  assumes fs: "fs_ok s"
    and f: "i_ino (f (inodes s k)) = i_ino (inodes s k)" "i_mode (f (inodes s k)) = i_mode (inodes s k)"
      "i_size (f (inodes s k)) = i_size (inodes s k)" "i_n_blocks (f (inodes s k)) = i_n_blocks (inodes s k)"
      "i_data_blocks (f (inodes s k)) = i_data_blocks (inodes s k)"
      "i_parent (f (inodes s k)) = i_parent (inodes s k)"
  shows "fs_ok (upd_inode s k f)" "content (upd_inode s k f) j = content s j"
proof -
  let ?t = "upd_inode s k f"
  have sz: "i_size (inodes ?t j) = i_size (inodes s j)" "i_n_blocks (inodes ?t j) = i_n_blocks (inodes s j)"
    "i_parent (inodes ?t j) = i_parent (inodes s j)" "i_mode (inodes ?t j) = i_mode (inodes s j)" for j
    using f by (cases "j = k"; simp)+
  show ct: "content ?t j = content s j" for j
    by (rule content_cong) (simp_all add: sz file_byte_upd_inode f(5))
  have dn: "dentries ?t j = dentries s j" "n_entries ?t j = n_entries s j" for j
    using dentries_content [OF ct] by simp_all
  have dirs: "dirs ?t = dirs s" by (simp add: dirs_def sz)
  have "blocks_ok ?t"
    using fs_okD(1) [OF fs] f blocks_okD(5) [of s k] by (intro blocks_ok_upd_inode) simp_all
  then show "fs_ok ?t"
    using fs unfolding fs_ok_def dir_ok_def children_def dirs dn sz by simp
qed

lemma fs_ok_superblock:
  "sb_root_ino sb = root s \<Longrightarrow> fs_ok s \<Longrightarrow> fs_ok (s\<lparr>superblock := sb\<rparr>)"
proof -
  assume a: "sb_root_ino sb = root s" "fs_ok s"
  have fb: "file_byte (s\<lparr>superblock := sb\<rparr>) = file_byte s" by (rule ext)+ (simp add: file_byte_def)
  have dn: "dentries (s\<lparr>superblock := sb\<rparr>) = dentries s" "n_entries (s\<lparr>superblock := sb\<rparr>) = n_entries s"
    by (rule ext, simp add: dentries_def n_entries_def entry_name_def entry_ino_def fb)+
  show "fs_ok (s\<lparr>superblock := sb\<rparr>)"
    using a by (simp add: fs_ok_def dirs_def dir_ok_def children_def dn root_def)
qed

section \<open>Writing\<close>

lemma write_blocks_mono: "write_blocks c k buffer offset i bw s = Some (n, s') \<Longrightarrow> bw \<le> n"
proof (induction c k buffer offset i bw s rule: write_blocks.induct)
  case (1 c k buffer offset i bw s)
  show ?case
  proof (cases "i \<le> (length buffer + offset) div BLOCK_SIZE")
    case True
    then obtain b s1 where fb: "file_block s k i = Some (b, s1)"
      using 1(2) by (auto simp: write_blocks_unfold split: option.splits)
    show ?thesis
    proof (cases b)
      case None
      then show ?thesis using 1(2) True fb by (simp add: write_blocks_unfold)
    next
      case (Some block)
      then have "write_blocks c k buffer offset (Suc i) (bw + size_at (length buffer) offset i)
          (write_step c k buffer offset i block bw s1) = Some (n, s')"
        using 1(2) True fb by (simp add: write_blocks_unfold)
      then have "bw + size_at (length buffer) offset i \<le> n"
        using 1(1) [OF refl refl refl refl refl True fb _ Some refl refl refl refl refl refl]
        unfolding write_step_def size_at_def start_at_def Let_def by blast
      then show ?thesis by simp
    qed
  next
    case False
    then show ?thesis using 1(2) by (simp add: write_blocks_unfold)
  qed
qed

lemma write_file_fs_ok:
  assumes fs: "fs_ok s" and k: "k \<in> live s" and run: "write_file c s (Some k) buffer offset = Some (r, s')"
  shows "fs_ok s'"
proof (cases "S_ISDIR (i_mode (inodes s k)) \<or> i_size (inodes s k) < offset \<or>
    length buffer + offset > N_DATA_BLOCKS_PER_INODE * BLOCK_SIZE \<or> buffer = []")
  case True
  then show ?thesis using run fs by (auto simp: write_file_def split: if_splits)
next
  case False
  then have c: "\<not> S_ISDIR (i_mode (inodes s k))" "offset \<le> i_size (inodes s k)" "buffer \<noteq> []"
    "length buffer + offset \<le> N_DATA_BLOCKS_PER_INODE * BLOCK_SIZE" by auto
  note ok = fs_okD(1) [OF fs]
  obtain n where wb: "write_blocks c k buffer offset (offset div BLOCK_SIZE) 0 s = Some (n, s')"
    using run c by (auto simp: write_file_def)
  have size: "i_size (inodes s k) \<le> i_n_blocks (inodes s k) * BLOCK_SIZE" using blocks_okD(5) ok k .
  then have first: "offset div BLOCK_SIZE \<le> i_n_blocks (inodes s k)"
    using c(2) by (metis BLOCK_SIZE_pos div_le_mono div_mult_self_is_m le_trans)
  have last: "offset div BLOCK_SIZE \<le> (length buffer + offset) div BLOCK_SIZE" by (simp add: div_le_mono)
  have w: "written k buffer offset 0 s n s'"
    using write_blocks_spec_le [OF ok k order_refl le_SucI [OF last] first _ c(4), of c] wb c(2)
    by (auto simp: bytes_at_simps)
  have "i_n_blocks (inodes s' k) = 0" if z: "i_size (inodes s' k) = 0"
  proof -
    have "length (content s' k) = max (i_size (inodes s k)) (offset + n)"
      using w c(2) by (simp add: written_def)
    then have zero: "i_size (inodes s k) = 0" "offset = 0" "n = 0" using z by auto
    have pos: "0 < size_at (length buffer) 0 0" 
    proof -
      have "length buffer mod BLOCK_SIZE \<noteq> 0" if "length buffer div BLOCK_SIZE = 0"
        using c(3) that by (metis add_0 div_mult_mod_eq length_0_conv mult_is_0 add_0_right)
      then show ?thesis by (simp add: size_at_def start_at_def)
    qed
    show ?thesis
    proof (cases "file_block s k 0")
      case (Some p)
      obtain ob s1 where p: "p = (ob, s1)" by (cases p)
      show ?thesis
      proof (cases ob)
        case None
        then have "s' = s1" using wb zero Some p by (simp add: write_blocks_unfold)
        moreover have "i_n_blocks (inodes s k) = 0" using fs_okD(4) [OF fs k] zero(1) .
        ultimately show ?thesis
          using Some p None fresh_get_data_block [OF ok]
          by (auto simp: file_block_def init_data_block_def Let_def split: if_splits option.splits)
      next
        case (Some block)
        then have "write_blocks c k buffer 0 1 (size_at (length buffer) 0 0)
            (write_step c k buffer 0 0 block 0 s1) = Some (0, s')"
          using wb zero p \<open>file_block s k 0 = Some p\<close> by (simp add: write_blocks_unfold [of _ _ _ _ 0])
        then show ?thesis using write_blocks_mono pos by fastforce
      qed
    qed (use wb zero in \<open>simp add: write_blocks_unfold\<close>)
  qed
  moreover have "k \<notin> dirs s" using c(1) by (simp add: dirs_def)
  ultimately show ?thesis
    using w by (intro fs_ok_file [OF fs]) (simp_all add: written_def)
qed

lemma shrink_file_fs_ok:
  assumes fs: "fs_ok s" and k: "k \<in> live s"
  shows "fs_ok (shrink_file c s (Some k) len)"
proof (cases "S_ISDIR (i_mode (inodes s k)) \<or> i_size (inodes s k) \<le> len")
  case True
  then show ?thesis using fs by (simp add: shrink_file_def)
next
  case False
  note sh = shrink_file_facts [OF fs_okD(1) [OF fs] k _ _ refl, of len c]
  have "i_size (inodes (shrink_file c s (Some k) len) k) = min (i_size (inodes s k)) len"
    using sh False by (metis length_content length_take min.commute not_le)
  then have "i_size (inodes (shrink_file c s (Some k) len) k) = len" using False by simp
  moreover have "(0 + BLOCK_SIZE - 1) div BLOCK_SIZE = 0" by (simp add: layout)
  moreover have "k \<notin> dirs s" using False by (simp add: dirs_def)
  ultimately show ?thesis
    using sh False by (intro fs_ok_file [OF fs, of _ k]) auto
qed

section \<open>Creating\<close>

lemma dir_ok_empty:
  "S_ISDIR (i_mode (inodes v k)) \<Longrightarrow> i_size (inodes v k) = 0 \<Longrightarrow> i_n_blocks (inodes v k) = 0 \<Longrightarrow>
     dir_ok v k \<and> dentries v k = []"
  by (simp add: dir_ok_def n_entries_def dentries_def layout)

lemma fs_ok_insert:
  assumes fs: "fs_ok s" and p: "p \<in> dirs s" and k: "k \<notin> live s"
    and v: "blocks_ok v" "live v = insert k (live s)" "sb_root_ino (superblock v) = root s"
    and vk: "i_size (inodes v k) = 0" "i_n_blocks (inodes v k) = 0" "i_parent (inodes v k) < N_INODES"
    and vino: "\<And>j. j \<noteq> k \<Longrightarrow> j \<noteq> p \<Longrightarrow> inodes v j = inodes s j"
    and vcont: "\<And>j. j \<in> live s \<Longrightarrow> j \<noteq> p \<Longrightarrow> content v j = content s j"
    and vp: "dir_ok v p" "dentries v p = dentries s p @ [(t, k)]"
      "i_mode (inodes v p) = i_mode (inodes s p)" "i_parent (inodes v p) = i_parent (inodes s p)"
  shows "fs_ok v"
proof -
  have pl: "p \<in> live s" "p \<noteq> k" using p k dirs_live by auto
  have rootd: "root s \<in> dirs s" "root s \<noteq> k" using fs_okD(2) [OF fs] k dirs_live by (auto simp: root_def)
  have mode: "i_mode (inodes v j) = i_mode (inodes s j)" if "j \<noteq> k" for j
    using vino [OF that] vp(3) by (cases "j = p") simp_all
  have old: "j \<in> dirs v \<longleftrightarrow> j \<in> dirs s" if "j \<noteq> k" for j
    using mode [OF that] v(2) that by (simp add: dirs_def)
  have ch: "children v j = (if j = k then [] else if j = p then children s p @ [k] else children s j)"
    if "j \<in> dirs v" for j
  proof (cases "j = k")
    case True
    then show ?thesis using dir_ok_empty vk that by (simp add: dirs_def children_def)
  next
    case False
    then show ?thesis using old that dentries_content(2) [OF vcont] dirs_live [of j s] vp(2)
      by (auto simp: children_def)
  qed
  have sub: "set (children s j) \<subseteq> live s - {root s}" if "j \<in> dirs s" for j
    using fs_okD(6) [OF fs that] by (simp add: root_def)
  have knot: "k \<notin> set (children s j)" if "j \<in> dirs s" for j using sub [OF that] k by auto
  have "dir_ok v j" if "j \<in> dirs v" for j
  proof (cases "j = k \<or> j = p")
    case True
    then show ?thesis using vp(1) dir_ok_empty vk that by (auto simp: dirs_def)
  next
    case False
    then have "j \<in> dirs s" using old that by auto
    then show ?thesis using fs_okD(3) [OF fs] dir_ok_cong [OF vcont vino] False dirs_live [of j s] by auto
  qed
  moreover have "i_size (inodes v j) = 0 \<longrightarrow> i_n_blocks (inodes v j) = 0" if "j \<in> live v" for j
  proof (cases "j = k \<or> j = p")
    case True
    have "i_size (inodes v p) \<noteq> 0"
      using dir_okD(2) [OF vp(1)] arg_cong [OF vp(2), of length] by (simp add: layout)
    then show ?thesis using True vk by auto
  next
    case False
    then show ?thesis using fs_okD(4) [OF fs, of j] vino that v(2) by auto
  qed
  moreover have "i_parent (inodes v j) < N_INODES" if "j \<in> live v" for j
    using that vk(3) vp(4) vino [of j] fs_okD(5) [OF fs, of j] fs_okD(5) [OF fs pl(1)] v(2)
    by (cases "j = k \<or> j = p") auto
  moreover have "set (children v j) \<subseteq> live v - {sb_root_ino (superblock v)}" if "j \<in> dirs v" for j
    using sub [of j] old [of j] rootd(2) p that by (auto simp: ch [OF that] v(2,3) split: if_splits)
  moreover have "distinct (children v j)" if "j \<in> dirs v" for j
    using fs_okD(7) [OF fs, of j] old [of j] knot [of j] p that by (auto simp: ch [OF that])
  moreover have "set (children v i) \<inter> set (children v j) = {}" if "i \<in> dirs v" "j \<in> dirs v" "i \<noteq> j" for i j
    using fs_okD(8) [OF fs, of j i] old [of i] old [of j] knot [of i] knot [of j] that
    unfolding ch [OF that(1)] ch [OF that(2)] by (cases "i = k"; cases "j = k"; auto)
  moreover have "sb_root_ino (superblock v) \<in> dirs v" using rootd old v(3) by simp
  ultimately show ?thesis unfolding fs_ok_def using v(1) by blast
qed

definition node_made :: "fs \<Rightarrow> byte list list \<Rightarrow> byte list \<Rightarrow> 32 word \<Rightarrow> nat \<Rightarrow> fs \<Rightarrow> bool" where
  "node_made s toks t md k v \<longleftrightarrow> k \<notin> live s \<and> live v = insert k (live s) \<and>
     i_mode (inodes v k) = md \<and> content v k = [] \<and>
     (\<exists>p \<in> dirs s. resolve s toks (root s) = Some p \<and> map_of (dentries s p) t = None \<and>
        dentries v p = dentries s p @ [(t, k)] \<and>
        (\<forall>j \<in> live s. i_mode (inodes v j) = i_mode (inodes s j)) \<and>
        (\<forall>j \<in> live s. j \<noteq> p \<longrightarrow> content v j = content s j))"

text \<open>
  What a new node needs: a free block and a free inode, an unused name, and a parent directory
  with room for one more entry.
\<close>

definition room_for :: "fs \<Rightarrow> byte list list \<Rightarrow> byte list \<Rightarrow> bool" where
  "room_for s toks t \<longleftrightarrow> 0 \<le> get_free_bit (data_bitmap s) \<and> 0 \<le> get_free_bit (inode_bitmap s) \<and>
     resolve s (toks @ [t]) (root s) = None \<and>
     (\<exists>p \<in> dirs s. resolve s toks (root s) = Some p \<and> n_entries s p \<noteq> N_DENTRY_PER_DIR)"

lemma make_node_spec:
  assumes fs: "fs_ok s" and path: "valid_path (toks @ [t])"
    and count: "\<And>sb. sb_root_ino (count sb) = sb_root_ino sb"
  shows "\<exists>r v. make_node ftype full count c s (path_of (toks @ [t])) md = Some (r, v) \<and> fs_ok v \<and>
    (case r of Inl e \<Rightarrow> v = s \<and> \<not> room_for s toks t
     | Inr k \<Rightarrow> node_made s toks t (md OR ftype) k v \<and> superblock v = count (superblock s))"
proof -
  let ?path = "path_of (toks @ [t])" and ?run = "make_node ftype full count c s (path_of (toks @ [t])) md"
  have len: "\<not> length ?path > FS_MAX_PATH" and name: "length t < FS_FILENAME_LEN" "0 \<notin> set t"
    using path by (auto simp: valid_path_def valid_name_def)
  note find = find_inode_resolve [OF fs path]
  note unf = make_node_def find split_path_of [OF path] find_inode_parent [OF fs path]
  show ?thesis
  proof (cases "get_free_bit (data_bitmap s) < 0 \<or> resolve s (toks @ [t]) (root s) \<noteq> None \<or>
      resolve s toks (root s) = None")
    case True
    then have "\<exists>e. ?run = Some (Inl e, s)" using len name by (auto simp: unf resolve_append)
    moreover have "\<not> room_for s toks t" using True by (auto simp: room_for_def)
    ultimately show ?thesis using fs by auto
  next
    case False
    then obtain p where p: "resolve s toks (root s) = Some p" by auto
    have rl: "root s \<in> live s" using fs_okD(2) [OF fs] by (simp add: root_def dirs_def)
    have pl: "p \<in> live s" using resolve_live [OF fs rl p] .
    show ?thesis
    proof (cases "S_ISDIR (i_mode (inodes s p)) \<and> n_entries s p \<noteq> N_DENTRY_PER_DIR \<and>
        init_inode c s (md OR ftype) \<noteq> None")
      case False
      then have "\<exists>e. ?run = Some (Inl e, s)"
        using \<open>\<not> (_ \<or> _)\<close> len name p
        by (cases "init_inode c s (md OR ftype)") (auto simp: unf n_entries_def)
      moreover have "\<not> room_for s toks t"
        using False p by (auto simp: room_for_def dirs_def init_inode_def Let_def)
      ultimately show ?thesis using fs by auto
    next
      case ready: True
      then have pd: "p \<in> dirs s" using pl by (simp add: dirs_def)
      note dok = fs_okD(3) [OF fs pd]
      obtain k s1 where init: "init_inode c s (md OR ftype) = Some (k, s1)" using ready by auto
      note ii = init_inode_spec [OF fs_okD(1) [OF fs] init]
      define s2 where "s2 = upd_inode s1 k (\<lambda>i. i\<lparr>i_parent := i_ino (inodes s1 p)\<rparr>)"
      have kp: "p \<noteq> k" using ii(2) pl by auto
      have b2: "blocks_ok s2" unfolding s2_def using ii(1,6) by (intro blocks_ok_upd_inode) simp_all
      have l2: "live s2 = insert k (live s)" using ii(4) by (simp add: s2_def)
      have c2: "content s2 j = content s j" and i2: "inodes s2 j = inodes s j" if "j \<in> live s" for j
      proof -
        have "j \<noteq> k" using that ii(2) by auto
        then show "inodes s2 j = inodes s j" using ii(11) by (simp add: s2_def)
        show "content s2 j = content s j"
          using ii(13) [OF that] \<open>j \<noteq> k\<close> by (simp add: s2_def content_def file_byte_def [abs_def])
      qed
      have d2: "dir_ok s2 p" "n_entries s2 p = n_entries s p" "dentries s2 p = dentries s p"
        using dir_ok_cong [OF c2 i2] dentries_content [OF c2] pl dok by auto
      have "n_entries s p * 512 \<le> i_n_blocks (inodes s p) * 4096"
        using blocks_okD(5) [OF fs_okD(1) [OF fs] pl] dir_okD(2) [OF dok] by (simp add: layout)
      moreover have "i_n_blocks (inodes s p) \<le> 32"
        using blocks_okD(3) [OF fs_okD(1) [OF fs] pl] by (simp add: layout)
      ultimately have "n_entries s p \<le> 256" by linarith
      then have room: "n_entries s2 p < N_DENTRY_PER_DIR" using ready by (simp add: d2 layout)
      have free: "0 \<le> get_free_bit (data_bitmap s2)" using False ii(9) by (simp add: s2_def)
      have none: "map_of (dentries s p) t = None"
        using False p ready by (auto simp: resolve_append split: if_splits option.splits)
      then have new: "t \<notin> fst ` set (dentries s2 p)" by (simp add: d2 map_of_eq_None_iff)
      have pl2: "p \<in> live s2" using pl l2 by simp
      obtain v where ins: "insert_dentry c s2 p k t = Some (Inr (), v)" "blocks_ok v" "dir_ok v p"
        "dentries v p = dentries s p @ [(t, k)]" "only_file p s2 v"
        using insert_dentry_spec [OF b2 pl2 d2(1) room free name ii(3) new, of c] d2(3) by metis
      note ov = only_fileD [OF ins(5)]
      have vk: "inodes v k = inodes s2 k" using ov(4) kp by metis
      have k2: "i_ino (inodes s2 k) = k" "i_ino (inodes v k) = k" using ii(12) vk by (simp_all add: s2_def)
      define w where "w = v\<lparr>superblock := count (superblock v)\<rparr>"
      have run: "?run = Some (Inr k, w)"
        using False len name p ready init ins(1) k2 ii(12)
        by (simp add: unf n_entries_def Let_def s2_def [symmetric] w_def)
      have sbv: "superblock v = superblock s" using ov(2) ii(10) by (simp add: s2_def)
      have lv: "live v = insert k (live s)" using ov(3) l2 by simp
      have zk: "i_size (inodes v k) = 0" "i_n_blocks (inodes v k) = 0" "i_mode (inodes v k) = md OR ftype"
        using ii(5-7) vk by (simp_all add: s2_def)
      have "i_parent (inodes v k) = p"
        using vk ii(11) [OF kp] blocks_okD(1) [OF fs_okD(1) [OF fs] pl] by (simp add: s2_def)
      then have par: "i_parent (inodes v k) < N_INODES" using live_bound [OF fs_okD(1) [OF fs] pl] by simp
      have vino: "inodes v j = inodes s j" if "j \<noteq> k" "j \<noteq> p" for j
        using ov(4) ii(11) that by (simp add: s2_def)
      have vcont: "content v j = content s j" if "j \<in> live s" "j \<noteq> p" for j
        using ov(5) [of j] c2 that l2 by simp
      have vmode: "i_mode (inodes v j) = i_mode (inodes s j)"
        "i_parent (inodes v j) = i_parent (inodes s j)" if "j \<in> live s" for j
        using ov(6,7) i2 [OF that] by simp_all
      have "fs_ok v"
        by (rule fs_ok_insert [OF fs pd ii(2) ins(2) lv _ zk(1,2) par vino vcont ins(3,4) vmode [OF pl]])
          (simp_all add: sbv root_def)
      then have "fs_ok w" unfolding w_def by (intro fs_ok_superblock) (simp_all add: count root_def)
      moreover have fw: "content w j = content v j" "dentries w j = dentries v j" for j
      proof -
        have fb: "file_byte w = file_byte v" by (rule ext)+ (simp add: file_byte_def w_def)
        show "content w j = content v j" "dentries w j = dentries v j"
          by (simp_all add: content_def dentries_def n_entries_def entry_name_def entry_ino_def fb)
            (simp_all add: w_def)
      qed
      have "node_made s toks t (md OR ftype) k w"
        unfolding node_made_def fw using ii(2) lv zk vmode vcont pd p none ins(4)
        by (auto simp: w_def content_def)
      ultimately show ?thesis using run sbv by (auto simp: w_def)
    qed
  qed
qed

text \<open>A walk that succeeds stays successful when directories only gain entries.\<close>

lemma resolve_mono:
  assumes fs: "fs_ok s"
    and ext: "\<And>d x y. d \<in> dirs s \<Longrightarrow> map_of (dentries s d) x = Some y \<Longrightarrow> map_of (dentries v d) x = Some y"
    and md: "\<And>d. d \<in> live s \<Longrightarrow> i_mode (inodes v d) = i_mode (inodes s d)"
  shows "k \<in> live s \<Longrightarrow> resolve s toks k = Some j \<Longrightarrow> resolve v toks k = Some j"
proof (induction toks arbitrary: k)
  case (Cons t toks)
  then obtain i where i: "S_ISDIR (i_mode (inodes s k))" "map_of (dentries s k) t = Some i"
    "resolve s toks i = Some j" by (auto split: if_splits option.splits)
  then have "k \<in> dirs s" using Cons.prems(1) by (simp add: dirs_def)
  then show ?case
    using i Cons child_live(1) [OF fs _ i(2)] ext [of k t i] md [of k] by auto
qed simp

lemma node_made_resolve:
  assumes fs: "fs_ok s" and made: "node_made s toks t md k v"
  shows "resolve v (toks @ [t]) (root s) = Some k"
proof -
  obtain p where p: "p \<in> dirs s" "resolve s toks (root s) = Some p" "map_of (dentries s p) t = None"
    "dentries v p = dentries s p @ [(t, k)]" and md: "\<forall>j \<in> live s. i_mode (inodes v j) = i_mode (inodes s j)"
    and ct: "\<forall>j \<in> live s. j \<noteq> p \<longrightarrow> content v j = content s j"
    using made by (auto simp: node_made_def)
  have ext: "map_of (dentries v d) x = Some y" if "d \<in> dirs s" "map_of (dentries s d) x = Some y" for d x y
    using that p(4) dentries_content(2) [of v d s] ct dirs_live [OF that(1)]
    by (cases "d = p") (auto simp: map_add_Some_iff)
  have "root s \<in> live s" using fs_okD(2) [OF fs] dirs_live by (simp add: root_def)
  then have "resolve v toks (root s) = Some p" using resolve_mono [OF fs ext] md p(2) by blast
  moreover have "resolve v [t] p = Some k"
    using p md dirs_live [OF p(1)] by (simp add: dirs_def map_add_def)
  ultimately show ?thesis by (simp add: resolve_append)
qed

end
