(* ===== verification/FsHandlers.thy ===== *)
theory FsHandlers
  imports FsInvariant
begin

text \<open>
  The FUSE handlers as a transition system: every handler, called with an absolute path
  within the limits of the program, keeps the invariant, so it holds in every state
  reachable from initialisation.
\<close>

section \<open>Paths that FUSE passes\<close>

definition fuse_path :: "byte list \<Rightarrow> bool" where
  "fuse_path path \<longleftrightarrow> path = [DELIM_CHAR] \<or> (\<exists>toks. valid_path toks \<and> path = path_of toks)"

lemma root_live: "fs_ok s \<Longrightarrow> root s \<in> live s"
  using fs_okD(2) dirs_live by (simp add: root_def)

lemma fuse_path_find:
  assumes "fs_ok s" "fuse_path path"
  obtains (missing) "find_inode s path = Some None"
  | (found) k where "find_inode s path = Some (Some k)" "k \<in> live s"
  using assms find_inode_resolve [OF assms(1)] find_inode_root [OF assms(1)]
    resolve_live [OF assms(1) root_live [OF assms(1)]] root_live [OF assms(1)]
  unfolding fuse_path_def by (metis not_Some_eq)

lemma fuse_path_cases:
  assumes "fuse_path path"
  obtains (root) "path = [DELIM_CHAR]"
  | (entry) toks t where "path = path_of (toks @ [t])" "valid_path (toks @ [t])"
  using assms unfolding fuse_path_def valid_path_def by (metis rev_exhaust)

section \<open>Reading handlers\<close>

lemma fill_stat_ok:
  assumes "fs_ok s" "fill_stat c s k = (st, t)"
  shows "fs_ok t" "live t = live s" "superblock t = superblock s" "\<And>j. content t j = content s j"
    "\<And>j. i_mode (inodes t j) = i_mode (inodes s j)"
proof -
  have t: "t = upd_inode s k (\<lambda>i. i\<lparr>i_atim := cx_time c\<rparr>)"
    using assms(2) by (simp add: fill_stat_def Let_def)
  show "fs_ok t" "\<And>j. content t j = content s j"
    unfolding t using fs_ok_touch [OF assms(1), of "\<lambda>i. i\<lparr>i_atim := cx_time c\<rparr>" k] by simp_all
  show "i_mode (inodes t j) = i_mode (inodes s j)" for j by (cases "j = k") (simp_all add: t)
qed (use assms(2) in \<open>auto simp: fill_stat_def Let_def\<close>)

lemma getattr_ok:
  assumes "fs_ok s" "fuse_path path"
  shows "\<exists>r t. fisopfs_getattr c s path = Some (r, t) \<and> fs_ok t"
  using assms
proof (cases rule: fuse_path_find)
  case (found k)
  then show ?thesis using fill_stat_ok(1) [OF assms(1)]
    by (auto simp: fisopfs_getattr_def split: prod.split)
qed (use assms(1) in \<open>simp add: fisopfs_getattr_def\<close>)

lemma readdir_loop_ok:
  assumes "fs_ok s" "dir \<in> dirs s" "n = n_entries s dir"
  shows "\<exists>es t. readdir_loop c dir n i s = Some (es, t) \<and> fs_ok t \<and>
    map fst es = map fst (drop i (dentries s dir))"
  using assms
proof (induction "n - i" arbitrary: i s)
  case 0
  then show ?case by (simp add: readdir_loop.simps)
next
  case (Suc d)
  have i: "i < n_entries s dir" using Suc.hyps(2) Suc.prems(3) by simp
  have dok: "dir_ok s dir" using fs_okD(3) Suc.prems(1,2) .
  have dl: "dir \<in> live s" using dirs_live Suc.prems(2) .
  have dirent: "get_dirent i (inodes s dir) = Some (entry_at (inodes s dir) i)"
    using get_dirent_entry [OF fs_okD(1) [OF Suc.prems(1)] dl dir_okD(1) [OF dok] entry_block [OF dok i]] .
  have ino: "get_inode (entry_ino s dir i) = Some (entry_ino s dir i)"
    using dir_okD(5) [OF dok i] by (simp add: get_inode_def)
  obtain st s1 where fill: "fill_stat c s (entry_ino s dir i) = (st, s1)" by (cases "fill_stat c s (entry_ino s dir i)")
  note f = fill_stat_ok [OF Suc.prems(1) fill]
  have d: "d = n_entries s dir - Suc i" using Suc.hyps(2) Suc.prems(3) by linarith
  have "dir \<in> dirs s1" using Suc.prems(2) f(2,5) by (simp add: dirs_def)
  moreover have "n_entries s1 dir = n_entries s dir" "dentries s1 dir = dentries s dir"
    using dentries_content [OF f(4)] by simp_all
  ultimately obtain es t where "readdir_loop c dir n (Suc i) s1 = Some (es, t)" "fs_ok t"
    "map fst es = map fst (drop (Suc i) (dentries s dir))"
    using Suc.hyps(1) [of "Suc i" s1] d Suc.prems(3) f(1) by auto
  moreover have "drop i (dentries s dir) = (entry_name s dir i, entry_ino s dir i) # drop (Suc i) (dentries s dir)"
    using i by (simp add: Cons_nth_drop_Suc [symmetric] nth_dentries)
  ultimately show ?case
    using i Suc.prems(3) dirent ino fill
    by (simp add: readdir_loop.simps [of c dir "n_entries s dir" i s] entry_via_data)
qed

lemma readdir_ok:
  assumes "fs_ok s" "fuse_path path"
  shows "\<exists>r t. fisopfs_readdir c s path = Some (r, t) \<and> fs_ok t \<and>
    (\<forall>k. find_inode s path = Some (Some k) \<and> k \<in> dirs s \<longrightarrow>
       map_sum id (map fst) r = Inr ([0x2E] # [0x2E, 0x2E] # map fst (dentries s k)))"
  using assms
proof (cases rule: fuse_path_find)
  case (found k)
  show ?thesis
  proof (cases "S_ISDIR (i_mode (inodes s k))")
    case True
    then have kd: "k \<in> dirs s" using found by (simp add: dirs_def)
    obtain st1 s1 where f1: "fill_stat c s k = (st1, s1)" by (cases "fill_stat c s k")
    note o1 = fill_stat_ok [OF assms(1) f1]
    have up: "i_parent (inodes s1 k) < N_INODES" using fs_okD(5) [OF o1(1)] o1(2) found by simp
    obtain st2 s2 where f2: "fill_stat c s1 (i_parent (inodes s1 k)) = (st2, s2)"
      by (cases "fill_stat c s1 (i_parent (inodes s1 k))")
    note o2 = fill_stat_ok [OF o1(1) f2]
    have "k \<in> dirs s2" using kd o1(2,5) o2(2,5) by (simp add: dirs_def)
    moreover have "dentries s2 k = dentries s k"
      using dentries_content(2) [OF o1(4)] dentries_content(2) [OF o2(4)] by simp
    ultimately obtain es t where "readdir_loop c k (n_entries s2 k) 0 s2 = Some (es, t)" "fs_ok t"
      "map fst es = map fst (dentries s k)"
      using readdir_loop_ok [OF o2(1) _ refl, of k c 0] by auto
    then show ?thesis
      using found True f1 f2 up by (simp add: fisopfs_readdir_def get_inode_def n_entries_def)
  qed (use assms(1) found in \<open>simp add: fisopfs_readdir_def dirs_def\<close>)
qed (use assms(1) in \<open>simp add: fisopfs_readdir_def\<close>)

lemma utimens_ok:
  assumes "fs_ok s" "fuse_path path"
  shows "\<exists>r t. fisopfs_utimens s path a m = Some (r, t) \<and> fs_ok t"
  using assms
proof (cases rule: fuse_path_find)
  case (found k)
  then show ?thesis
    using fs_ok_touch(1) [OF assms(1), of "\<lambda>i. i\<lparr>i_atim := a, i_mtim := m, i_ctim := m\<rparr>" k]
    by (simp add: fisopfs_utimens_def)
qed (use assms(1) in \<open>simp add: fisopfs_utimens_def\<close>)

lemma read_file_ok:
  assumes "fs_ok s" "read_file c s inode sz offset = Some (r, t)"
  shows "fs_ok t"
  using assms fs_ok_touch(1) [OF assms(1), of "\<lambda>i. i\<lparr>i_atim := cx_time c\<rparr>"]
  by (auto simp: read_file_def Let_def split: option.splits if_splits)

section \<open>Handlers that change the tree\<close>

lemma unlink_entry:
  assumes fs: "fs_ok s" and path: "valid_path (toks @ [t])"
    and k: "resolve s (toks @ [t]) (root s) = Some k"
    and empty: "S_ISDIR (i_mode (inodes s k)) \<longrightarrow> i_size (inodes s k) = 0"
  obtains p v where "unlink_inode c s (path_of (toks @ [t])) (Some k) = Some (Inr (), v)" "fs_ok v"
    "live v = live s - {k}" "superblock v = superblock s" "p \<in> dirs s"
    "resolve s toks (root s) = Some p"
    "dentries v p = filter (\<lambda>e. fst e \<noteq> t) (dentries s p)"
    "\<And>j. j \<in> live v \<Longrightarrow> j \<noteq> p \<Longrightarrow> content v j = content s j"
    "\<And>j. j \<in> live v \<Longrightarrow> i_mode (inodes v j) = i_mode (inodes s j)"
proof -
  obtain p where p: "resolve s toks (root s) = Some p" and "resolve s [t] p = Some k"
    using k by (auto simp: resolve_append split: option.splits)
  then have pk: "S_ISDIR (i_mode (inodes s p))" "map_of (dentries s p) t = Some k"
    by (auto split: if_splits option.splits)
  have pd: "p \<in> dirs s" using resolve_live [OF fs root_live [OF fs] p] pk(1) by (simp add: dirs_def)
  obtain q where q: "q < n_entries s p" "dentries s p ! q = (t, k)"
    using map_of_SomeD [OF pk(2)] by (metis in_set_conv_nth length_dentries)
  have "distinct (map fst (dentries s p))" using dir_okD(6) [OF fs_okD(3) [OF fs pd]] .
  moreover have split: "dentries s p = take q (dentries s p) @ (t, k) # drop (Suc q) (dentries s p)"
    using id_take_nth_drop [of q "dentries s p"] q unfolding length_dentries by metis
  ultimately have "distinct (map fst (take q (dentries s p) @ (t, k) # drop (Suc q) (dentries s p)))"
    by metis
  then have d: "distinct (map fst (take q (dentries s p)) @ t # map fst (drop (Suc q) (dentries s p)))"
    unfolding map_append list.map fst_conv .
  have keep: "filter (\<lambda>e. fst e \<noteq> t) xs = xs" if "t \<notin> set (map fst xs)" for xs :: "(byte list \<times> nat) list"
    using that by (auto intro!: filter_True)
  have "filter (\<lambda>e. fst e \<noteq> t) (dentries s p) =
      filter (\<lambda>e. fst e \<noteq> t) (take q (dentries s p) @ (t, k) # drop (Suc q) (dentries s p))"
    using arg_cong [OF split, of "filter (\<lambda>e. fst e \<noteq> t)"] .
  also have "\<dots> = take q (dentries s p) @ drop (Suc q) (dentries s p)"
    using d keep by (simp del: set_map)
  finally have flt: "take q (dentries s p) @ drop (Suc q) (dentries s p) =
      filter (\<lambda>e. fst e \<noteq> t) (dentries s p)" by simp
  have "find_inode s (if toks = [] then [DELIM_CHAR] else path_of toks) = Some (Some p)"
    using find_inode_parent [OF fs path] p by simp
  from unlink_inode_spec [OF fs pd split_path_of [OF path] this q empty, of c]
  show thesis using that pd p flt by metis
qed

lemma unlink_entry_runs:
  assumes "fs_ok s" "valid_path (toks @ [t])" "resolve s (toks @ [t]) (root s) = Some k"
    "S_ISDIR (i_mode (inodes s k)) \<longrightarrow> i_size (inodes s k) = 0"
  shows "\<exists>v. unlink_inode c s (path_of (toks @ [t])) (Some k) = Some (Inr (), v) \<and> fs_ok v"
  using assms by (rule unlink_entry [of s toks t k c]) blast

lemma unlink_ok:
  assumes fs: "fs_ok s" and path: "fuse_path path"
  shows "\<exists>r v. fisopfs_unlink c s path = Some (r, v) \<and> fs_ok v"
  using path
proof (cases rule: fuse_path_cases)
  case root
  have "S_ISDIR (i_mode (inodes s (root s)))" using fs_okD(2) [OF fs] by (simp add: dirs_def root_def)
  then show ?thesis using fs root find_inode_root [OF fs] by (simp add: fisopfs_unlink_def)
next
  case (entry toks t)
  note find = find_inode_resolve [OF fs entry(2)]
  show ?thesis
  proof (cases "resolve s (toks @ [t]) (root s)")
    case (Some k)
    show ?thesis
    proof (cases "S_ISDIR (i_mode (inodes s k))")
      case False
      then obtain v where "unlink_inode c s (path_of (toks @ [t])) (Some k) = Some (Inr (), v)" "fs_ok v"
        using unlink_entry_runs [OF fs entry(2) Some, of c] by auto
      then show ?thesis using find Some False entry(1) by (simp add: fisopfs_unlink_def)
    qed (use find Some fs entry(1) in \<open>simp add: fisopfs_unlink_def\<close>)
  qed (use find fs entry(1) in \<open>simp add: fisopfs_unlink_def\<close>)
qed

lemma rmdir_ok:
  assumes fs: "fs_ok s" and path: "fuse_path path"
  shows "\<exists>r v. fisopfs_rmdir c s path = Some (r, v) \<and> fs_ok v"
  using path
proof (cases rule: fuse_path_cases)
  case root
  have "S_ISDIR (i_mode (inodes s (root s)))" "i_ino (inodes s (root s)) = root s"
    using fs_okD(1,2) [OF fs] blocks_okD(1) [of s "root s"] root_live [OF fs]
    by (auto simp: dirs_def root_def)
  then show ?thesis using fs root find_inode_root [OF fs] by (simp add: fisopfs_rmdir_def root_def)
next
  case (entry toks t)
  note find = find_inode_resolve [OF fs entry(2)]
  show ?thesis
  proof (cases "resolve s (toks @ [t]) (root s)")
    case (Some k)
    show ?thesis
    proof (cases "i_size (inodes s k) = 0")
      case True
      then obtain v where "unlink_inode c s (path_of (toks @ [t])) (Some k) = Some (Inr (), v)" "fs_ok v"
        using unlink_entry_runs [OF fs entry(2) Some, of c] by auto
      then show ?thesis using find Some True entry(1) fs by (simp add: fisopfs_rmdir_def)
    qed (use find Some fs entry(1) in \<open>simp add: fisopfs_rmdir_def\<close>)
  qed (use find fs entry(1) in \<open>simp add: fisopfs_rmdir_def\<close>)
qed

lemma make_node_ok:
  assumes fs: "fs_ok s" and path: "fuse_path path"
    and count: "\<And>sb. sb_root_ino (count sb) = sb_root_ino sb"
  shows "\<exists>r v. make_node ftype full count c s path md = Some (r, v) \<and> fs_ok v"
  using path
proof (cases rule: fuse_path_cases)
  case root
  have "length path \<le> FS_MAX_PATH" using root by (simp add: layout)
  then show ?thesis using fs root find_inode_root [OF fs] by (auto simp: make_node_def)
next
  case (entry toks t)
  then show ?thesis
    using make_node_spec [OF fs entry(2) count, of ftype full c md] by auto
qed

lemma write_ok:
  assumes "fs_ok s" "fuse_path path" "fisopfs_write c s path buffer offset = Some (r, t)"
  shows "fs_ok t"
  using assms(1,2)
proof (cases rule: fuse_path_find)
  case (found k)
  then show ?thesis using assms(1,3) write_file_fs_ok [OF assms(1) found(2)]
    by (auto simp: fisopfs_write_def split: if_splits)
qed (use assms in \<open>simp add: fisopfs_write_def\<close>)

lemma truncate_ok:
  assumes "fs_ok s" "fuse_path path" "fisopfs_truncate c s path len = Some (r, t)"
  shows "fs_ok t"
  using assms(1,2)
proof (cases rule: fuse_path_find)
  case (found k)
  then show ?thesis
    using assms(1,3) write_file_fs_ok [OF assms(1) found(2)] shrink_file_fs_ok [OF assms(1) found(2)]
    by (auto simp: fisopfs_truncate_def split: if_splits option.splits sum.splits)
qed (use assms in \<open>auto simp: fisopfs_truncate_def split: if_splits\<close>)

end
