(* ===== verification/FsReach.thy ===== *)
theory FsReach
  imports FsHandlers
begin

text \<open>
  Initialisation, persistence and the reachable states of fisopfs, with the properties of
  the file system as a whole.
\<close>

section \<open>Initialisation and persistence\<close>

lemma zero_live: "live zero_fs = {}"
  by (simp add: live_def zero_fs_def)

lemma init_root_ok:
  assumes "init_inode c zero_fs (S_IFDIR OR 0x1FD) = Some (k, s)"
  shows "fs_ok (s\<lparr>superblock := \<lparr>sb_n_files = 0, sb_n_dirs = 1, sb_root_ino = i_ino (inodes s k)\<rparr>\<rparr>)"
    (is "fs_ok ?t")
proof -
  note ii = init_inode_spec [OF blocks_ok_zero_fs assms]
  have live: "live ?t = {k}" using ii(4) by (simp add: zero_live)
  have sz: "i_size (inodes ?t k) = 0" "i_n_blocks (inodes ?t k) = 0" using ii(6,7) by simp_all
  have dir: "S_ISDIR (i_mode (inodes ?t k))" using ii(5) by (simp add: S_ISDIR_def S_IFDIR_def S_IFMT_def)
  have par: "i_parent (inodes ?t k) < N_INODES"
  proof -
    have "i_parent (inodes s k) = i_parent (inodes zero_fs k)"
      using assms by (auto simp: init_inode_def Let_def split: if_splits)
    then show ?thesis by (simp add: zero_fs_def zero_inode_def layout)
  qed
  note de = dir_ok_empty [OF dir sz]
  have "dirs ?t = {k}" using live dir by (auto simp: dirs_def)
  then show ?thesis
    using ii(1,12) live sz par de by (auto simp: fs_ok_def children_def)
qed

lemma init_root_runs: "\<exists>s. init_inode c zero_fs m = Some (0, s)"
proof -
  have "get_free_bit (inode_bitmap zero_fs) = 0"
    using get_free_bit_zero [of 127] by (simp add: zero_fs_def layout BITS_PER_WORD_def)
  then show ?thesis by (simp add: init_inode_def Let_def)
qed

definition saved :: "fs \<Rightarrow> image" where
  "saved s = \<lparr>im_superblock = superblock s, im_inode_bitmap = words (inode_bitmap s),
     im_data_bitmap = words (data_bitmap s), im_inodes = map (inodes s) [0..<N_INODES],
     im_data_blocks = load_bytes (data s) 0 (N_DATA_BLOCKS * BLOCK_SIZE)\<rparr>"

lemma save_then_host: "host_files (save_file_system s h) (file_name h) = Some (saved s)"
  by (simp add: save_file_system_def saved_def)

lemma load_saved:
  assumes "blocks_ok s"
  defines "t \<equiv> load_file_system (saved s) zero_fs"
  shows "superblock t = superblock s" "inode_bitmap t = inode_bitmap s" "data_bitmap t = data_bitmap s"
    "k < N_INODES \<Longrightarrow> inodes t k = inodes s k" "N_INODES \<le> k \<Longrightarrow> inodes t k = zero_inode"
    "a < N_DATA_BLOCKS * BLOCK_SIZE \<Longrightarrow> data t a = data s a"
proof -
  have bm: "nwords (inode_bitmap s) = N_INODES div BITS_PER_WORD"
    "nwords (data_bitmap s) = N_DATA_BLOCKS div BITS_PER_WORD"
    using assms(1) by (auto simp: blocks_ok_def bitmaps_ok_def n_bits_def layout BITS_PER_WORD_def)
  show "inode_bitmap t = inode_bitmap s" "data_bitmap t = data_bitmap s"
    using bm by (simp_all add: t_def load_file_system_def saved_def zero_fs_def zero_bitmap_def)
  show "superblock t = superblock s" by (simp add: t_def load_file_system_def saved_def)
  show "k < N_INODES \<Longrightarrow> inodes t k = inodes s k" "N_INODES \<le> k \<Longrightarrow> inodes t k = zero_inode"
    by (simp_all add: t_def load_file_system_def saved_def zero_fs_def)
  show "a < N_DATA_BLOCKS * BLOCK_SIZE \<Longrightarrow> data t a = data s a"
    by (simp add: t_def load_file_system_def saved_def store_bytes_def)
qed

lemma load_saved_ok:
  assumes fs: "fs_ok s"
  defines "t \<equiv> load_file_system (saved s) zero_fs"
  shows "fs_ok t" "live t = live s" "root t = root s"
    "\<And>k. k \<in> live s \<Longrightarrow> inodes t k = inodes s k" "\<And>k. k \<in> live s \<Longrightarrow> content t k = content s k"
proof -
  note ok = fs_okD(1) [OF fs]
  note ld = load_saved [OF ok, folded t_def]
  show live: "live t = live s" by (simp add: live_def ld)
  show "root t = root s" by (simp add: root_def ld)
  show ino: "inodes t k = inodes s k" if "k \<in> live s" for k using ld(4) live_bound [OF ok that] .
  show cont: "content t k = content s k" if k: "k \<in> live s" for k
  proof (rule content_cong)
    show "i_size (inodes t k) = i_size (inodes s k)" using ino [OF k] by simp
    fix p assume "p < i_size (inodes s k)"
    then have "p div BLOCK_SIZE < i_n_blocks (inodes s k)"
      using size_in_blocks [OF ok k] by (simp add: div_BLOCK_less)
    then have b: "i_data_blocks (inodes s k) ! (p div BLOCK_SIZE) < 3808" using owned_block(3) [OF ok k] by simp
    have "i_data_blocks (inodes s k) ! (p div BLOCK_SIZE) * BLOCK_SIZE + p mod BLOCK_SIZE
        < Suc (i_data_blocks (inodes s k) ! (p div BLOCK_SIZE)) * BLOCK_SIZE" by simp
    also have "\<dots> \<le> N_DATA_BLOCKS * BLOCK_SIZE" using b by (intro mult_le_mono1) (simp add: layout)
    finally show "file_byte t k p = file_byte s k p" by (simp add: file_byte_def ino [OF k] ld(6))
  qed
  have dirs: "dirs t = dirs s" using ino by (auto simp: dirs_def live)
  have own: "owns t k = owns s k" "inode_ok t k = inode_ok s k" if "k \<in> live s" for k
    by (simp_all add: owns_def inode_ok_def ino [OF that])
  have "length (i_data_blocks (inodes t k)) = N_DATA_BLOCKS_PER_INODE" for k
    using ok ld(4) [of k] ld(5) [of k] by (cases "k < N_INODES") (auto simp: blocks_ok_def zero_inode_def)
  then have bok: "blocks_ok t"
    using ok own unfolding blocks_ok_def bitmaps_ok_def live ld by auto
  have d: "dir_ok t k = dir_ok s k" "children t k = children s k" if "k \<in> dirs s" for k
    using dir_ok_cong [OF cont ino] dentries_content(2) [OF cont] dirs_live [OF that]
    by (auto simp: children_def)
  show "fs_ok t"
    unfolding fs_ok_def live dirs ld(1) using bok fs_okD(2-8) [OF fs] d ino by auto
qed

section \<open>Reachable states\<close>

inductive fs_step :: "fs \<Rightarrow> fs \<Rightarrow> bool" where
  do_getattr: "fuse_path path \<Longrightarrow> fisopfs_getattr c s path = Some (r1, t) \<Longrightarrow> fs_step s t"
| do_readdir: "fuse_path path \<Longrightarrow> fisopfs_readdir c s path = Some (r2, t) \<Longrightarrow> fs_step s t"
| do_read: "fuse_path path \<Longrightarrow> fisopfs_read c s path sz offset = Some (r3, t) \<Longrightarrow> fs_step s t"
| do_write: "fuse_path path \<Longrightarrow> fisopfs_write c s path buffer offset = Some (r4, t) \<Longrightarrow> fs_step s t"
| do_truncate: "fuse_path path \<Longrightarrow> fisopfs_truncate c s path len = Some (r5, t) \<Longrightarrow> fs_step s t"
| do_create: "fuse_path path \<Longrightarrow> fisopfs_create c s path md = Some (r6, t) \<Longrightarrow> fs_step s t"
| do_mkdir: "fuse_path path \<Longrightarrow> fisopfs_mkdir c s path md = Some (r7, t) \<Longrightarrow> fs_step s t"
| do_utimens: "fuse_path path \<Longrightarrow> fisopfs_utimens s path a m = Some (r8, t) \<Longrightarrow> fs_step s t"
| do_unlink: "fuse_path path \<Longrightarrow> fisopfs_unlink c s path = Some (r9, t) \<Longrightarrow> fs_step s t"
| do_rmdir: "fuse_path path \<Longrightarrow> fisopfs_rmdir c s path = Some (r10, t) \<Longrightarrow> fs_step s t"
| do_remount: "save_file_system s h = h' \<Longrightarrow> fisopfs_init c [] zero_fs h' = Some (t, h') \<Longrightarrow> fs_step s t"

inductive fs_reachable :: "fs \<Rightarrow> bool" where
  boot: "host_files h = Map.empty \<Longrightarrow> fisopfs_init c input zero_fs h = Some (s, h') \<Longrightarrow> fs_reachable s"
| step: "fs_reachable s \<Longrightarrow> fs_step s t \<Longrightarrow> fs_reachable t"

lemma fs_step_ok: "fs_step s t \<Longrightarrow> fs_ok s \<Longrightarrow> fs_ok t"
proof (induction rule: fs_step.induct)
  case (do_getattr path c s r1 t)
  then show ?case using getattr_ok [of s path c] by auto
next
  case (do_readdir path c s r2 t)
  then show ?case using readdir_ok [of s path c] by auto
next
  case (do_read path c s sz offset r3 t)
  then show ?case by (auto simp: fisopfs_read_def intro: read_file_ok split: option.splits)
next
  case (do_write path c s buffer offset r4 t)
  then show ?case by (blast intro: write_ok)
next
  case (do_truncate path c s len r5 t)
  then show ?case by (blast intro: truncate_ok)
next
  case (do_create path c s md r6 t)
  then show ?case
    using make_node_ok [of s path "\<lambda>sb. sb\<lparr>sb_n_files := sb_n_files sb + 1\<rparr>" S_IFREG ENOMEM c md]
    by (auto simp: fisopfs_create_def)
next
  case (do_mkdir path c s md r7 t)
  then show ?case
    using make_node_ok [of s path "\<lambda>sb. sb\<lparr>sb_n_dirs := sb_n_dirs sb + 1\<rparr>" S_IFDIR EDQUOT c md]
    by (auto simp: fisopfs_mkdir_def)
next
  case (do_utimens path s a m r8 t)
  then show ?case using utimens_ok [of s path a m] by auto
next
  case (do_unlink path c s r9 t)
  then show ?case using unlink_ok [of s path c] by auto
next
  case (do_rmdir path c s r10 t)
  then show ?case using rmdir_ok [of s path c] by auto
next
  case (do_remount s h h' c t)
  have "file_name h' = file_name h" using do_remount(1) by (auto simp: save_file_system_def)
  then have "t = load_file_system (saved s) zero_fs"
    using do_remount(1,2) save_then_host [of s h] by (simp add: fisopfs_init_def fgets_line_def)
  then show ?case using load_saved_ok(1) do_remount(3) by simp
qed

inductive_cases fs_stepE: "fs_step s t"

lemma reachable_ok: "fs_reachable s \<Longrightarrow> fs_ok s"
proof (induction rule: fs_reachable.induct)
  case (boot h c input s h')
  then obtain k s1 where "init_inode c zero_fs (S_IFDIR OR 0x1FD) = Some (k, s1)"
    "s = s1\<lparr>superblock := \<lparr>sb_n_files = 0, sb_n_dirs = 1, sb_root_ino = i_ino (inodes s1 k)\<rparr>\<rparr>"
    by (auto simp: fisopfs_init_def Let_def split: option.splits if_splits)
  then show ?case using init_root_ok by simp
qed (rule fs_step_ok)

definition no_host :: host where
  "no_host = \<lparr>file_name = [0x66], host_files = Map.empty\<rparr>"

definition booted :: fs where
  "booted = fst (the (fisopfs_init demo_ctx [] zero_fs no_host))"

lemma booted_run: "\<exists>h. fisopfs_init demo_ctx [] zero_fs no_host = Some (booted, h)"
  using init_root_runs [of demo_ctx "S_IFDIR OR 0x1FD"]
  by (auto simp: booted_def fisopfs_init_def fgets_line_def no_host_def Let_def)

lemma booted_reachable: "fs_reachable booted"
  using booted_run fs_reachable.boot [of no_host demo_ctx "[]"] by (auto simp: no_host_def)

section \<open>Properties of the file system\<close>

text \<open>
  C1. Every state that the handlers can reach from an empty disk, through any sequence of calls
  with absolute paths within the limits and any number of saves and remounts, satisfies the
  invariant: each used block belongs to exactly one live inode, every directory lists
  distinct names of live inodes, and the entries form a forest.
\<close>

theorem reachable_invariant:
  assumes "fs_reachable s"
  shows "fs_ok s"
  using assms by (rule reachable_ok)

theorem reachable_invariant_witness: "fs_ok booted"
  using reachable_invariant [OF booted_reachable] .

text \<open>
  C29. In a reachable state, for a path within the limits of the code (\<open>fuse_path\<close>: at most \<open>MAX_LEVEL\<close>
  names, each shorter than the buffer for it, and a path that fits into its buffer), the handlers that do not
  copy file data stay within defined behaviour: no null dereference, no access outside an array, no failed
  assertion. The limits are needed: \<open>find_inode\<close> does not check the number of names in time and writes past its
  array for one name more (\<open>deep_path_overruns\<close>).
\<close>

theorem handlers_defined:
  assumes "fs_reachable s" "fuse_path path"
  shows "fisopfs_getattr c s path \<noteq> None \<and> fisopfs_readdir c s path \<noteq> None \<and>
    fisopfs_create c s path md \<noteq> None \<and> fisopfs_mkdir c s path md \<noteq> None \<and>
    fisopfs_utimens s path a m \<noteq> None \<and> fisopfs_unlink c s path \<noteq> None \<and>
    fisopfs_rmdir c s path \<noteq> None"
proof -
  note fs = reachable_ok [OF assms(1)]
  have "\<exists>x. fisopfs_create c s path md = Some x"
    using make_node_ok [OF fs assms(2), of "\<lambda>sb. sb\<lparr>sb_n_files := sb_n_files sb + 1\<rparr>" S_IFREG ENOMEM c md]
    by (auto simp: fisopfs_create_def)
  moreover have "\<exists>x. fisopfs_mkdir c s path md = Some x"
    using make_node_ok [OF fs assms(2), of "\<lambda>sb. sb\<lparr>sb_n_dirs := sb_n_dirs sb + 1\<rparr>" S_IFDIR EDQUOT c md]
    by (auto simp: fisopfs_mkdir_def)
  ultimately show ?thesis
    using getattr_ok [OF fs assms(2), of c] readdir_ok [OF fs assms(2), of c]
      utimens_ok [OF fs assms(2), of a m] unlink_ok [OF fs assms(2), of c] rmdir_ok [OF fs assms(2), of c]
    by auto
qed

theorem handlers_defined_witness:
  "fisopfs_unlink demo_ctx booted [DELIM_CHAR] \<noteq> None"
  using handlers_defined [OF booted_reachable, of "[DELIM_CHAR]" demo_ctx 0 0 0]
  by (simp add: fuse_path_def)

text \<open>
  C2. \<open>fisopfs_create\<close> either reports an error and changes nothing, which happens only when there
  is no room or the path exists, or it allocates an inode that
  was free, appends one entry for it to the parent directory, leaves every other file and
  directory as it was, and from then on the path resolves to the new, empty file.
\<close>

theorem create_adds_entry:
  assumes "fs_reachable s" "valid_path (toks @ [t])"
  shows "\<exists>r v. fisopfs_create c s (path_of (toks @ [t])) md = Some (r, v) \<and>
    (case r of Inl e \<Rightarrow> v = s \<and> \<not> room_for s toks t
     | Inr k \<Rightarrow> k \<notin> live s \<and> live v = insert k (live s) \<and> content v k = [] \<and>
         find_inode v (path_of (toks @ [t])) = Some (Some k) \<and>
         (\<exists>p \<in> dirs s. dentries v p = dentries s p @ [(t, k)] \<and>
            (\<forall>j \<in> live s. j \<noteq> p \<longrightarrow> content v j = content s j)))"
proof -
  note fs = reachable_ok [OF assms(1)]
  obtain r v where run: "fisopfs_create c s (path_of (toks @ [t])) md = Some (r, v)" "fs_ok v"
    and res: "case r of Inl e \<Rightarrow> v = s \<and> \<not> room_for s toks t | Inr k \<Rightarrow> node_made s toks t (md OR S_IFREG) k v \<and>
       superblock v = (superblock s)\<lparr>sb_n_files := sb_n_files (superblock s) + 1\<rparr>"
    using make_node_spec [OF fs assms(2), of "\<lambda>sb. sb\<lparr>sb_n_files := sb_n_files sb + 1\<rparr>" S_IFREG ENOMEM c md]
    by (auto simp: fisopfs_create_def)
  have "find_inode v (path_of (toks @ [t])) = Some (Some k)" if "r = Inr k" for k
    using find_inode_resolve [OF run(2) assms(2)] node_made_resolve [OF fs] res that
    by (auto simp: root_def)
  then show ?thesis
    using run res by (auto simp: node_made_def split: sum.splits)
qed

text \<open>A one-letter path, for the witnesses.\<close>

lemma valid_path_a: "valid_path ([] @ [[0x61]])"
  by (simp add: valid_path_def valid_name_def path_of_def DELIM_CHAR_def layout)

theorem create_adds_entry_witness:
  "\<exists>r v. fisopfs_create demo_ctx booted (path_of [[0x61]]) 0x1A4 = Some (r, v) \<and>
     (\<forall>k. r = Inr k \<longrightarrow> find_inode v (path_of [[0x61]]) = Some (Some k))"
  using create_adds_entry [OF booted_reachable valid_path_a, of demo_ctx "0x1A4"] by auto

lemma map_of_filter_name: "map_of (filter (\<lambda>e. fst e \<noteq> t) es) x = (if x = t then None else map_of es x)"
  by (induction es) auto

text \<open>A walk that ends in a directory whose entry was deleted does not come to the name any more.\<close>

lemma unlinked_resolve:
  assumes v: "fs_ok v" and p: "resolve s toks (root s) = Some p"
    and de: "dentries v p = filter (\<lambda>e. fst e \<noteq> t) (dentries s p)"
    and ct: "\<And>j. j \<in> live v \<Longrightarrow> j \<noteq> p \<Longrightarrow> content v j = content s j"
    and md: "\<And>j. j \<in> live v \<Longrightarrow> i_mode (inodes v j) = i_mode (inodes s j)"
    and sb: "superblock v = superblock s"
  shows "resolve v (toks @ [t]) (root v) = None"
proof (cases "resolve v toks (root v)")
  case (Some q)
  have ext: "map_of (dentries s d) x = Some y" if "d \<in> dirs v" "map_of (dentries v d) x = Some y" for d x y
    using that de dentries_content(2) [OF ct [OF dirs_live [OF that(1)]]]
    by (cases "d = p") (auto simp: map_of_filter_name split: if_splits)
  have rt: "root v = root s" by (simp add: root_def sb)
  have "resolve s toks (root v) = Some q"
    using resolve_mono [OF v ext md [symmetric] root_live [OF v] Some] by blast
  then have "q = p" using p rt by simp
  then show ?thesis using Some de by (simp add: resolve_append map_of_filter_name)
qed (simp add: resolve_append)

text \<open>
  C10. \<open>fisopfs_unlink\<close> of an existing file deletes exactly its entry from its parent directory (the
  directory that the path without its last name leads to), keeping the order of the others, frees its inode, and
  leaves every other file and directory as it was; the path then leads nowhere. The
  counters of the superblock stay as they were.
\<close>

theorem unlink_removes_entry:
  assumes "fs_reachable s" "valid_path (toks @ [t])"
    and "find_inode s (path_of (toks @ [t])) = Some (Some k)" "\<not> S_ISDIR (i_mode (inodes s k))"
  shows "\<exists>v p. fisopfs_unlink c s (path_of (toks @ [t])) = Some (Inr (), v) \<and>
    live v = live s - {k} \<and> superblock v = superblock s \<and>
    find_inode s (if toks = [] then [DELIM_CHAR] else path_of toks) = Some (Some p) \<and> p \<in> dirs s \<and>
    dentries v p = filter (\<lambda>e. fst e \<noteq> t) (dentries s p) \<and>
    (\<forall>j \<in> live v. j \<noteq> p \<longrightarrow> content v j = content s j) \<and>
    find_inode v (path_of (toks @ [t])) = Some None"
proof -
  note fs = reachable_ok [OF assms(1)]
  have k: "resolve s (toks @ [t]) (root s) = Some k"
    using assms(3) find_inode_resolve [OF fs assms(2)] by simp
  have empty: "S_ISDIR (i_mode (inodes s k)) \<longrightarrow> i_size (inodes s k) = 0" using assms(4) by simp
  obtain p v where run: "unlink_inode c s (path_of (toks @ [t])) (Some k) = Some (Inr (), v)" "fs_ok v"
    "live v = live s - {k}" "superblock v = superblock s" "p \<in> dirs s" "resolve s toks (root s) = Some p"
    "dentries v p = filter (\<lambda>e. fst e \<noteq> t) (dentries s p)"
    "\<And>j. j \<in> live v \<Longrightarrow> j \<noteq> p \<Longrightarrow> content v j = content s j"
    "\<And>j. j \<in> live v \<Longrightarrow> i_mode (inodes v j) = i_mode (inodes s j)"
    by (rule unlink_entry [OF fs assms(2) k empty, of c]) blast
  have "resolve v (toks @ [t]) (root v) = None"
    by (rule unlinked_resolve [OF run(2,6,7,8,9,4)])
  then have "find_inode v (path_of (toks @ [t])) = Some None" using find_inode_resolve [OF run(2) assms(2)] by simp
  then show ?thesis
    using run find_inode_parent [OF fs assms(2)] assms(3,4) by (intro exI [of _ v] exI [of _ p]) (simp add: fisopfs_unlink_def)
qed

lemma booted_shape: "root booted = 0" "dentries booted 0 = []" "room_for booted [] [0x61]"
proof -
  obtain s1 where init: "init_inode demo_ctx zero_fs (S_IFDIR OR 0x1FD) = Some (0, s1)"
    using init_root_runs by blast
  note ii = init_inode_spec [OF blocks_ok_zero_fs init]
  have b: "booted = s1\<lparr>superblock := \<lparr>sb_n_files = 0, sb_n_dirs = 1, sb_root_ino = 0\<rparr>\<rparr>"
    using init ii(12) by (simp add: booted_def fisopfs_init_def fgets_line_def no_host_def Let_def)
  have live: "live booted = {0}" using ii(4) by (simp add: b zero_live)
  have bm: "n_bits (inode_bitmap booted) = N_INODES"
    using fs_okD(1) [OF reachable_ok [OF booted_reachable]] by (simp add: blocks_ok_def bitmaps_ok_def)
  have "1 \<notin> live booted" by (simp add: live)
  then have ibit: "0 \<le> get_free_bit (inode_bitmap booted)"
    using get_free_bit_full [of "inode_bitmap booted" 1] bm by (force simp: live_def layout)
  have dbit: "0 \<le> get_free_bit (data_bitmap booted)"
    using get_free_bit_zero [of 118] ii(9)
    by (simp add: b zero_fs_def layout BITS_PER_WORD_def zero_bitmap_def)
  show r0: "root booted = 0" by (simp add: root_def b)
  have n0: "n_entries booted 0 = 0" using ii(6) by (simp add: n_entries_def b)
  then show d0: "dentries booted 0 = []" by (simp add: dentries_def)
  have "0 \<in> dirs booted" using fs_okD(2) [OF reachable_ok [OF booted_reachable]] r0 by (simp add: root_def)
  then show "room_for booted [] [0x61]" using ibit dbit r0 n0 d0 by (auto simp: room_for_def layout)
qed

theorem unlink_removes_entry_witness:
  "\<exists>s k v. find_inode s (path_of [[0x61]]) = Some (Some k) \<and>
     fisopfs_unlink demo_ctx s (path_of [[0x61]]) = Some (Inr (), v) \<and> live v = live s - {k} \<and>
     find_inode s [DELIM_CHAR] = Some (Some 0) \<and> dentries v 0 = [] \<and> find_inode v (path_of [[0x61]]) = Some None"
proof -
  note fs = reachable_ok [OF booted_reachable]
  obtain r s where run: "fisopfs_create demo_ctx booted (path_of [[0x61]]) 0 = Some (r, s)" "fs_ok s"
    and res: "case r of Inl e \<Rightarrow> s = booted \<and> \<not> room_for booted [] [0x61]
      | Inr k \<Rightarrow> node_made booted [] [0x61] (0 OR S_IFREG) k s \<and> superblock s =
         (superblock booted)\<lparr>sb_n_files := sb_n_files (superblock booted) + 1\<rparr>"
    using make_node_spec [OF fs valid_path_a, of "\<lambda>sb. sb\<lparr>sb_n_files := sb_n_files sb + 1\<rparr>" S_IFREG ENOMEM demo_ctx 0]
    by (auto simp: fisopfs_create_def)
  then obtain k where k: "node_made booted [] [0x61] S_IFREG k s" "root s = root booted"
    using booted_shape(3) by (cases r) (auto simp: root_def)
  have "fuse_path (path_of [[0x61]])" using valid_path_a by (auto simp: fuse_path_def)
  then have reach: "fs_reachable s"
    using fs_reachable.step [OF booted_reachable fs_step.do_create] run(1) by blast
  have "find_inode s (path_of [[0x61]]) = Some (Some k)"
    using find_inode_resolve [OF run(2) valid_path_a] node_made_resolve [OF fs k(1)] k(2) by simp
  moreover have "\<not> S_ISDIR (i_mode (inodes s k))" using k(1) by (simp add: node_made_def)
  moreover obtain v p where "fisopfs_unlink demo_ctx s (path_of [[0x61]]) = Some (Inr (), v)" "live v = live s - {k}"
    "find_inode s [DELIM_CHAR] = Some (Some p)" "dentries v p = filter (\<lambda>e. fst e \<noteq> [0x61]) (dentries s p)"
    "find_inode v (path_of [[0x61]]) = Some None"
    using unlink_removes_entry [OF reach valid_path_a, of k demo_ctx] calculation by auto
  moreover have "p = 0 \<and> dentries s 0 = [([0x61], k)]"
    using calculation(5) find_inode_root [OF run(2)] k booted_shape by (auto simp: node_made_def)
  ultimately show ?thesis by (intro exI [of _ s] exI [of _ k] exI [of _ v]) simp
qed

text \<open>
  \<open>fisopfs_readdir\<close> of a directory reports \<open>.\<close>, \<open>..\<close> and then the names of its entries, in the
  order in which they are stored.
\<close>

theorem readdir_lists_entries:
  assumes "fs_reachable s" "fuse_path path" "find_inode s path = Some (Some k)" "k \<in> dirs s"
  shows "\<exists>es t. fisopfs_readdir c s path = Some (Inr es, t) \<and>
    map fst es = [0x2E] # [0x2E, 0x2E] # map fst (dentries s k)"
proof -
  obtain r t where "fisopfs_readdir c s path = Some (r, t)"
    "map_sum id (map fst) r = Inr ([0x2E] # [0x2E, 0x2E] # map fst (dentries s k))"
    using readdir_ok [OF reachable_ok [OF assms(1)] assms(2), of c] assms(3,4) by blast
  then show ?thesis by (cases r) auto
qed

theorem readdir_lists_entries_witness:
  "\<exists>es t. fisopfs_readdir demo_ctx booted [DELIM_CHAR] = Some (Inr es, t) \<and>
     map fst es = [0x2E] # [0x2E, 0x2E] # map fst (dentries booted (root booted))"
proof -
  note fs = reachable_ok [OF booted_reachable]
  show ?thesis
    using readdir_lists_entries [OF booted_reachable _ find_inode_root [OF fs]] fs_okD(2) [OF fs]
    by (simp add: fuse_path_def root_def)
qed

text \<open>
  C28. Saving the file system and loading it into a fresh process gives back every live inode
  with its contents, and the invariant holds again.
\<close>

theorem save_load_roundtrip:
  assumes "fs_reachable s"
    and "t = load_file_system (the (host_files (save_file_system s h) (file_name h))) zero_fs"
  shows "live t = live s \<and> fs_ok t \<and> superblock t = superblock s \<and>
    (\<forall>k \<in> live s. inodes t k = inodes s k \<and> content t k = content s k)"
proof -
  note fs = reachable_ok [OF assms(1)]
  have t: "t = load_file_system (saved s) zero_fs" using assms(2) by (simp add: save_then_host)
  show ?thesis
    unfolding t using load_saved_ok [OF fs] load_saved(1) [OF fs_okD(1) [OF fs]] by auto
qed

theorem save_load_roundtrip_witness:
  "live (load_file_system (the (host_files (save_file_system booted no_host) (file_name no_host)))
     zero_fs) = live booted"
  using save_load_roundtrip [OF booted_reachable refl, of no_host] by simp

text \<open>
  A path with more than \<open>MAX_LEVEL\<close> components is not refused by \<open>find_inode\<close>: the check of
  the level comes one copy too late, and the execution writes past the array of tokens.
\<close>

theorem deep_path_overruns:
  assumes "fs_reachable s" "\<forall>t \<in> set toks. valid_name t" "length toks > MAX_LEVEL"
    and "length (path_of toks) < FS_MAX_PATH"
  shows "find_inode s (path_of toks) = None"
proof -
  have "collect_tokens ts lvl acc = None"
    if "\<forall>t \<in> set ts. valid_name t" "lvl \<le> MAX_LEVEL" "lvl + length ts > MAX_LEVEL" for ts lvl acc
    using that by (induction ts arbitrary: lvl acc) (auto simp: valid_name_def)
  from this [OF assms(2), of 0 "[]"] assms(3)
  have none: "collect_tokens toks 0 [] = None" by simp
  note fs = reachable_ok [OF assms(1)]
  have r: "get_inode (sb_root_ino (superblock s)) = Some (root s)" "S_ISDIR (i_mode (inodes s (root s)))"
    using fs_okD(1,2) [OF fs] live_bound [OF _ root_live [OF fs]]
    by (auto simp: get_inode_def root_def dirs_def)
  have ne: "toks \<noteq> []" using assms(3) by auto
  then have "path_of toks \<noteq> [DELIM_CHAR]"
    using assms(2) by (cases toks) (auto simp: path_of_def valid_name_def)
  then show ?thesis
    using r none assms(4) strtok_path_of [OF assms(2)] ne by (simp add: find_inode_def)
qed

theorem deep_path_overruns_witness:
  "find_inode booted (path_of (replicate 11 [0x61])) = None"
proof -
  have "\<forall>t \<in> set (replicate 11 [0x61]). valid_name t"
    by (simp add: valid_name_def DELIM_CHAR_def layout)
  moreover have "length (path_of (replicate 11 [0x61])) < FS_MAX_PATH"
    by (simp add: path_of_def layout length_concat sum_list_replicate)
  ultimately show ?thesis
    using deep_path_overruns [OF booted_reachable] by (simp add: layout)
qed

end
