(* ===== verification/Malloc.thy ===== *)
theory Malloc
  imports Prelude
begin

text \<open>
  malloc/malloc.h and malloc/malloc.c: a heap of blocks obtained from \<open>mmap\<close>, each tiled by
  regions. The structs live in one byte memory at the offsets of the x86-64 ABI, so a
  header is the bytes in front of the user's data. The null pointer is 0; an execution
  that dereferences it is \<open>None\<close>, and so is a traversal that never ends.

  \<open>mmap\<close> and \<open>munmap\<close> belong to the kernel: they are the fields of \<open>os\<close>, functions of the
  mappings the process has. A size is a natural number below \<open>2 ^ 64\<close> and arithmetic on
  sizes that the code does not bound is taken modulo \<open>2 ^ 64\<close>.
\<close>

definition MAGIC_NUMBER :: nat where "MAGIC_NUMBER = 377060"
definition MAX_BLOCKS :: nat where "MAX_BLOCKS = 32"
definition MIN_SIZE :: nat where "MIN_SIZE = 64"
definition SMALL_BLOCK_SIZE :: nat where "SMALL_BLOCK_SIZE = 16384"
definition MEDIUM_BLOCK_SIZE :: nat where "MEDIUM_BLOCK_SIZE = 1048576"
definition LARGE_BLOCK_SIZE :: nat where "LARGE_BLOCK_SIZE = 33554432"

text \<open>The struct sizes: \<open>region\<close> has its fields at 0, 4, 8, 16 and 24, \<open>block\<close> at 0 and 8.\<close>

definition sizeof_region :: nat where "sizeof_region = 32"
definition sizeof_block :: nat where "sizeof_block = 16"

lemmas malloc_consts = MAGIC_NUMBER_def MAX_BLOCKS_def MIN_SIZE_def SMALL_BLOCK_SIZE_def
  MEDIUM_BLOCK_SIZE_def LARGE_BLOCK_SIZE_def sizeof_region_def sizeof_block_def

definition ALIGN4 :: "nat \<Rightarrow> nat" where
  "ALIGN4 s = ((s + (2 ^ 64 - 1)) mod 2 ^ 64 div 4 * 4 + 4) mod 2 ^ 64"

definition REGION2PTR :: "nat \<Rightarrow> nat" where "REGION2PTR r = r + sizeof_region"
definition PTR2REGION :: "nat \<Rightarrow> nat" where "PTR2REGION p = p - sizeof_region"
definition REGION2BLOCK :: "nat \<Rightarrow> nat" where "REGION2BLOCK r = r - sizeof_block"
definition BLOCK2REGION :: "nat \<Rightarrow> nat" where "BLOCK2REGION b = b + sizeof_block"

section \<open>The structs in memory\<close>

definition r_magic :: "mem \<Rightarrow> nat \<Rightarrow> nat" where "r_magic m r = load_le 4 m r"
definition r_free :: "mem \<Rightarrow> nat \<Rightarrow> bool" where "r_free m r \<longleftrightarrow> m (r + 4) \<noteq> 0"
definition r_size :: "mem \<Rightarrow> nat \<Rightarrow> nat" where "r_size m r = load_le 8 m (r + 8)"
definition r_next :: "mem \<Rightarrow> nat \<Rightarrow> nat" where "r_next m r = load_le 8 m (r + 16)"
definition r_prev :: "mem \<Rightarrow> nat \<Rightarrow> nat" where "r_prev m r = load_le 8 m (r + 24)"

definition set_magic :: "mem \<Rightarrow> nat \<Rightarrow> nat \<Rightarrow> mem" where "set_magic m r v = store_le 4 m r v"
definition set_free :: "mem \<Rightarrow> nat \<Rightarrow> bool \<Rightarrow> mem" where
  "set_free m r v = m(r + 4 := (if v then 1 else 0))"
definition set_size :: "mem \<Rightarrow> nat \<Rightarrow> nat \<Rightarrow> mem" where "set_size m r v = store_le 8 m (r + 8) v"
definition set_next :: "mem \<Rightarrow> nat \<Rightarrow> nat \<Rightarrow> mem" where "set_next m r v = store_le 8 m (r + 16) v"
definition set_prev :: "mem \<Rightarrow> nat \<Rightarrow> nat \<Rightarrow> mem" where "set_prev m r v = store_le 8 m (r + 24) v"

definition b_next :: "mem \<Rightarrow> nat \<Rightarrow> nat" where "b_next m b = load_le 8 m b"
definition b_prev :: "mem \<Rightarrow> nat \<Rightarrow> nat" where "b_prev m b = load_le 8 m (b + 8)"
definition set_b_next :: "mem \<Rightarrow> nat \<Rightarrow> nat \<Rightarrow> mem" where "set_b_next m b v = store_le 8 m b v"
definition set_b_prev :: "mem \<Rightarrow> nat \<Rightarrow> nat \<Rightarrow> mem" where "set_b_prev m b v = store_le 8 m (b + 8) v"

section \<open>State\<close>

record os =
  os_mmap :: "(nat \<times> nat) list \<Rightarrow> nat \<Rightarrow> nat option"
  os_munmap :: "(nat \<times> nat) list \<Rightarrow> nat \<Rightarrow> nat \<Rightarrow> bool"

record heap =
  amount_of_mallocs :: "32 word"
  amount_of_frees :: "32 word"
  requested_memory :: "32 word"
  blocks_mapped :: nat
  small_blocks :: nat
  medium_blocks :: nat
  large_blocks :: nat
  mem :: mem
  maps :: "(nat \<times> nat) list"

datatype policy = FIRST_FIT | BEST_FIT

section \<open>Searching\<close>

partial_function (option) find_first :: "mem \<Rightarrow> nat \<Rightarrow> nat \<Rightarrow> nat option" where
  "find_first m region sz =
     (if region = 0 then Some 0
      else if r_free m region \<and> r_size m region \<ge> sz then Some region
      else find_first m (r_next m region) sz)"

partial_function (option) find_best :: "mem \<Rightarrow> nat \<Rightarrow> nat \<Rightarrow> nat \<Rightarrow> nat option" where
  "find_best m best_region region sz =
     (if region = 0 then Some best_region
      else if r_free m region \<and> r_size m region \<ge> sz then
        find_best m (if best_region = 0 \<or> r_size m region < r_size m best_region
                     then region else best_region) (r_next m region) sz
      else find_best m best_region (r_next m region) sz)"

definition find_in_block :: "policy \<Rightarrow> mem \<Rightarrow> nat \<Rightarrow> nat \<Rightarrow> nat option" where
  "find_in_block pol m first_region sz =
     (case pol of FIRST_FIT \<Rightarrow> find_first m first_region sz
      | BEST_FIT \<Rightarrow> find_best m 0 first_region sz)"

text \<open>One of the three loops of \<open>find_free_region\<close>; 0 when no block of the list fits.\<close>

partial_function (option) find_in_list :: "policy \<Rightarrow> mem \<Rightarrow> nat \<Rightarrow> nat \<Rightarrow> nat option" where
  "find_in_list pol m curr_block sz =
     (if curr_block = 0 then Some 0
      else case find_in_block pol m (BLOCK2REGION curr_block) sz of
          None \<Rightarrow> None
        | Some region \<Rightarrow>
            if region \<noteq> 0 then Some region
            else find_in_list pol m (b_next m curr_block) sz)"

definition find_free_region :: "policy \<Rightarrow> heap \<Rightarrow> nat \<Rightarrow> nat option" where
  "find_free_region pol h sz =
     (if sz > LARGE_BLOCK_SIZE - sizeof_block - sizeof_region then Some 0
      else case find_in_list pol (mem h) (small_blocks h) sz of
          None \<Rightarrow> None
        | Some r1 \<Rightarrow> if r1 \<noteq> 0 then Some r1
          else case find_in_list pol (mem h) (medium_blocks h) sz of
              None \<Rightarrow> None
            | Some r2 \<Rightarrow> if r2 \<noteq> 0 then Some r2
              else find_in_list pol (mem h) (large_blocks h) sz)"

definition size_that_fits :: "nat \<Rightarrow> nat" where
  "size_that_fits sz =
     (let header_size = sizeof_block + sizeof_region in
      if sz \<le> SMALL_BLOCK_SIZE - header_size then SMALL_BLOCK_SIZE
      else if sz \<le> MEDIUM_BLOCK_SIZE - header_size then MEDIUM_BLOCK_SIZE
      else if sz \<le> LARGE_BLOCK_SIZE - header_size then LARGE_BLOCK_SIZE
      else 0)"

section \<open>Growing\<close>

text \<open>
  A fresh anonymous mapping is zero-filled. The result is the first region of the new block,
  or 0.
\<close>

definition zero_range :: "mem \<Rightarrow> nat \<Rightarrow> nat \<Rightarrow> mem" where
  "zero_range m a n = (\<lambda>i. if a \<le> i \<and> i < a + n then 0 else m i)"

definition head_of :: "heap \<Rightarrow> nat \<Rightarrow> nat" where
  "head_of h sz = (if sz = SMALL_BLOCK_SIZE then small_blocks h
     else if sz = MEDIUM_BLOCK_SIZE then medium_blocks h else large_blocks h)"

definition set_head :: "heap \<Rightarrow> nat \<Rightarrow> nat \<Rightarrow> heap" where
  "set_head h sz b = (if sz = SMALL_BLOCK_SIZE then h\<lparr>small_blocks := b\<rparr>
     else if sz = MEDIUM_BLOCK_SIZE then h\<lparr>medium_blocks := b\<rparr> else h\<lparr>large_blocks := b\<rparr>)"

definition grow_heap :: "os \<Rightarrow> heap \<Rightarrow> nat \<Rightarrow> nat \<times> heap" where
  "grow_heap os h size0 =
     (if blocks_mapped h = MAX_BLOCKS then (0, h)
      else let sz = size_that_fits size0 in
        if sz = 0 then (0, h)
        else case os_mmap os (maps h) sz of
            None \<Rightarrow> (0, h)
          | Some new_block \<Rightarrow>
              let m0 = zero_range (mem h) new_block sz;
                  m1 = set_b_prev m0 new_block 0;
                  m2 = set_b_next m1 new_block (head_of h sz);
                  h1 = set_head h sz new_block;
                  m3 = (if b_next m2 new_block \<noteq> 0
                        then set_b_prev m2 (b_next m2 new_block) new_block else m2);
                  region = BLOCK2REGION new_block;
                  m4 = set_magic m3 region MAGIC_NUMBER;
                  m5 = set_free m4 region True;
                  m6 = set_size m5 region (sz - sizeof_block - sizeof_region);
                  m7 = set_next m6 region 0;
                  m8 = set_prev m7 region 0
              in (region, h1\<lparr>blocks_mapped := blocks_mapped h + 1, mem := m8,
                            maps := (new_block, sz) # maps h\<rparr>))"

section \<open>Splitting and merging\<close>

definition split :: "mem \<Rightarrow> nat \<Rightarrow> nat \<Rightarrow> mem" where
  "split m region sz =
     (if region = 0 then m
      else if r_size m region < sz + sizeof_region + MIN_SIZE then m
      else let new_region = region + sizeof_region + sz;
               m1 = set_magic m new_region MAGIC_NUMBER;
               m2 = set_free m1 new_region True;
               m3 = set_size m2 new_region (r_size m2 region - sz - sizeof_region);
               m4 = set_next m3 new_region (r_next m3 region);
               m5 = (if r_next m4 new_region \<noteq> 0
                     then set_prev m4 (r_next m4 new_region) new_region else m4);
               m6 = set_prev m5 new_region region;
               m7 = set_size m6 region sz
        in set_next m7 region new_region)"

definition merge :: "mem \<Rightarrow> nat \<Rightarrow> nat \<times> mem" where
  "merge m region =
     (if region = 0 then (0, m)
      else if r_next m region = 0 then (region, m)
      else let m1 = set_size m region (r_size m region + (sizeof_region + r_size m (r_next m region)));
               m2 = set_next m1 region (r_next m1 (r_next m1 region));
               m3 = (if r_next m2 region \<noteq> 0 then set_prev m2 (r_next m2 region) region else m2)
        in (region, m3))"

definition coalesce :: "mem \<Rightarrow> nat \<Rightarrow> nat \<times> mem" where
  "coalesce m region0 =
     (let (region, m1) = (if r_prev m region0 \<noteq> 0 \<and> r_free m (r_prev m region0)
                          then merge m (r_prev m region0) else (region0, m))
      in if r_next m1 region \<noteq> 0 \<and> r_free m1 (r_next m1 region) then merge m1 region
         else (region, m1))"

definition unmap :: "os \<Rightarrow> heap \<Rightarrow> nat \<Rightarrow> nat \<Rightarrow> heap" where
  "unmap os h block sz =
     (let m = mem h;
          m1 = (if b_next m block \<noteq> 0 then set_b_prev m (b_next m block) (b_prev m block) else m);
          h2 = (if b_prev m1 block \<noteq> 0
                then h\<lparr>mem := set_b_next m1 (b_prev m1 block) (b_next m1 block)\<rparr>
                else set_head (h\<lparr>mem := m1\<rparr>) sz (b_next m1 block))
      in if os_munmap os (maps h2) block sz
         then h2\<lparr>blocks_mapped := blocks_mapped h2 - 1, maps := remove1 (block, sz) (maps h2)\<rparr>
         else h2)"

section \<open>The public functions\<close>

text \<open>
  \<open>malloc\<close> returns the pointer, 0 for null. Its outer option is \<open>None\<close> when a search does not
  end.
\<close>

definition malloc :: "policy \<Rightarrow> os \<Rightarrow> heap \<Rightarrow> nat \<Rightarrow> (nat \<times> heap) option" where
  "malloc pol os h size0 =
     (if size0 = 0 then Some (0, h)
      else let size1 = ALIGN4 size0;
               sz = (if size1 > MIN_SIZE then size1 else MIN_SIZE)
        in case find_free_region pol h sz of
            None \<Rightarrow> None
          | Some r0 \<Rightarrow>
              let (region, h1) = (if r0 = 0 then grow_heap os h sz else (r0, h))
              in if region = 0 then Some (0, h1)
                 else Some (REGION2PTR region,
                   h1\<lparr>mem := set_free (split (mem h1) region sz) region False,
                      amount_of_mallocs := amount_of_mallocs h1 + 1,
                      requested_memory := requested_memory h1 + of_nat sz\<rparr>))"

definition free :: "os \<Rightarrow> heap \<Rightarrow> nat \<Rightarrow> heap" where
  "free os h ptr =
     (if ptr = 0 then h
      else let curr0 = PTR2REGION ptr in
        if r_magic (mem h) curr0 \<noteq> MAGIC_NUMBER then h
        else if r_free (mem h) curr0 then h
        else let (cur, m) = coalesce (set_free (mem h) curr0 True) curr0;
                 h1 = h\<lparr>mem := m, amount_of_frees := amount_of_frees h + 1\<rparr>
          in if r_next m cur = 0 \<and> r_prev m cur = 0
             then unmap os h1 (REGION2BLOCK cur) (r_size m cur + sizeof_block + sizeof_region)
             else h1)"

definition calloc :: "policy \<Rightarrow> os \<Rightarrow> heap \<Rightarrow> nat \<Rightarrow> nat \<Rightarrow> (nat \<times> heap) option" where
  "calloc pol os h nmemb sz =
     (let n = (nmemb * sz) mod 2 ^ 64 in
      case malloc pol os h n of
        None \<Rightarrow> None
      | Some (ptr, h1) \<Rightarrow>
          if ptr = 0 then Some (0, h1)
          else Some (ptr, h1\<lparr>mem := store_bytes (mem h1) ptr (replicate n 0)\<rparr>))"

definition memcpy :: "mem \<Rightarrow> nat \<Rightarrow> nat \<Rightarrow> nat \<Rightarrow> mem" where
  "memcpy m dst src n = store_bytes m dst (load_bytes m src n)"

text \<open>The three ways of \<open>realloc\<close> that reuse neighbours, then the copy to a new region.\<close>

definition realloc_move :: "policy \<Rightarrow> os \<Rightarrow> heap \<Rightarrow> nat \<Rightarrow> nat \<Rightarrow> (nat \<times> heap) option" where
  "realloc_move pol os h ptr sz =
     (case malloc pol os h sz of
        None \<Rightarrow> None
      | Some (new_ptr, h1) \<Rightarrow>
          if new_ptr = 0 then Some (0, h1)
          else let h2 = h1\<lparr>mem := memcpy (mem h1) new_ptr ptr (r_size (mem h1) (PTR2REGION ptr))\<rparr>
            in Some (new_ptr, free os h2 ptr))"

definition realloc :: "policy \<Rightarrow> os \<Rightarrow> heap \<Rightarrow> nat \<Rightarrow> nat \<Rightarrow> (nat \<times> heap) option" where
  "realloc pol os h ptr sz =
     (if sz = 0 then Some (ptr, free os h ptr)
      else if ptr = 0 then malloc pol os h sz
      else let m = mem h; cur = PTR2REGION ptr in
        if sz \<le> r_size m cur then Some (ptr, h\<lparr>mem := split m cur sz\<rparr>)
        else let nxt = r_next m cur; prv = r_prev m cur;
                 next_free = (nxt \<noteq> 0 \<and> r_free m nxt); prev_free = (prv \<noteq> 0 \<and> r_free m prv)
          in if next_free \<and> prv = 0 then None
             else if next_free \<and> r_size m cur + r_size m prv + sizeof_region \<ge> sz then
               (let (new_reg, m1) = merge m cur
                in Some (REGION2PTR new_reg, h\<lparr>mem := split m1 new_reg sz\<rparr>))
             else let c1 = (if next_free then r_size m cur + (r_size m nxt + sizeof_region)
                            else r_size m cur)
               in if prev_free \<and> r_size m cur + r_size m prv + sizeof_region \<ge> sz then
                    (let (new_reg, m1) = merge m prv;
                         m2 = split m1 new_reg sz;
                         new_ptr = REGION2PTR new_reg
                     in Some (new_ptr, h\<lparr>mem := memcpy m2 new_ptr ptr (r_size m2 cur)\<rparr>))
                  else let c2 = (if prev_free then c1 + (r_size m prv + sizeof_region) else c1)
                    in if c2 \<ge> sz then
                         (let (r1, m1) = merge m prv;
                              (new_reg, m2) = merge m1 r1;
                              m3 = split m2 new_reg sz;
                              new_ptr = REGION2PTR new_reg
                          in if new_reg = 0 then None
                             else Some (new_ptr, h\<lparr>mem := memcpy m3 new_ptr ptr (r_size m3 cur)\<rparr>))
                       else realloc_move pol os h ptr sz)"

record malloc_stats =
  mallocs :: "32 word"
  frees :: "32 word"
  requested :: "32 word"
  blocks :: nat

definition get_stats :: "heap \<Rightarrow> malloc_stats" where
  "get_stats h = \<lparr>mallocs = amount_of_mallocs h, frees = amount_of_frees h,
     requested = requested_memory h, blocks = blocks_mapped h\<rparr>"

end
