(* ===== verification/MallocRegions.thy ===== *)
theory MallocRegions
  imports Malloc
begin

text \<open>
  A block as a list of regions. \<open>regions\<close> relates the headers in memory to the list of sizes
  and free flags; searching, splitting and merging are functions of that list, and write
  nothing but headers.
\<close>

section \<open>Headers\<close>

definition hdr :: "mem \<Rightarrow> nat \<Rightarrow> bool \<Rightarrow> nat \<Rightarrow> nat \<Rightarrow> nat \<Rightarrow> bool" where
  "hdr m r f n nx pv \<longleftrightarrow> r_magic m r = MAGIC_NUMBER \<and> r_free m r = f \<and> r_size m r = n \<and>
     r_next m r = nx \<and> r_prev m r = pv"

definition agree :: "mem \<Rightarrow> mem \<Rightarrow> nat set \<Rightarrow> bool" where
  "agree m m' A \<longleftrightarrow> (\<forall>a \<in> A. m' a = m a)"

lemma agree_refl [simp]: "agree m m A"
  by (simp add: agree_def)

lemma agree_trans: "agree m1 m2 A \<Longrightarrow> agree m2 m3 A \<Longrightarrow> agree m1 m3 A"
  by (simp add: agree_def)

lemma agree_subset: "agree m m' A \<Longrightarrow> B \<subseteq> A \<Longrightarrow> agree m m' B"
  by (auto simp: agree_def)

lemma agree_Un: "agree m m' (A \<union> B) \<longleftrightarrow> agree m m' A \<and> agree m m' B"
  by (auto simp: agree_def)

lemma hdr_agree: "agree m m' {r..<r + 32} \<Longrightarrow> hdr m' r f n nx pv = hdr m r f n nx pv"
proof -
  assume "agree m m' {r..<r + 32}"
  then have same: "m' (r + i) = m (r + i)" if "i < 32" for i using that by (simp add: agree_def)
  have "load_le 4 m' r = load_le 4 m r" by (rule load_le_cong) (simp add: same)
  moreover have "load_le 8 m' (r + i) = load_le 8 m (r + i)" if "i + 8 \<le> 32" for i
    by (rule load_le_cong) (use same that in \<open>simp add: add.assoc\<close>)
  ultimately show ?thesis
    using same [of 4] by (simp add: hdr_def r_magic_def r_free_def r_size_def r_next_def r_prev_def)
qed

text \<open>Reading a field after writing a field of the same header.\<close>

lemmas field_defs = r_magic_def r_free_def r_size_def r_next_def r_prev_def
  set_magic_def set_free_def set_size_def set_next_def set_prev_def

lemma load_le_upd: "b < a \<or> a + k \<le> b \<Longrightarrow> load_le k (m(b := v)) a = load_le k m a"
  by (rule load_le_cong) auto

lemma field_same:
  "r_magic (set_magic m r v) r = v" if "v < 2 ^ 32"
  using that by (simp add: field_defs load_store_le_same)

lemma field_same64 [simp]:
  "r_free (set_free m r f) r = f"
  "v < 2 ^ 64 \<Longrightarrow> r_size (set_size m r v) r = v"
  "v < 2 ^ 64 \<Longrightarrow> r_next (set_next m r v) r = v"
  "v < 2 ^ 64 \<Longrightarrow> r_prev (set_prev m r v) r = v"
  by (simp_all add: field_defs load_store_le_same)

lemma field_other [simp]:
  "r_free (set_magic m r v) r = r_free m r" "r_size (set_magic m r v) r = r_size m r"
  "r_next (set_magic m r v) r = r_next m r" "r_prev (set_magic m r v) r = r_prev m r"
  "r_magic (set_free m r f) r = r_magic m r" "r_size (set_free m r f) r = r_size m r"
  "r_next (set_free m r f) r = r_next m r" "r_prev (set_free m r f) r = r_prev m r"
  "r_magic (set_size m r v) r = r_magic m r" "r_free (set_size m r v) r = r_free m r"
  "r_next (set_size m r v) r = r_next m r" "r_prev (set_size m r v) r = r_prev m r"
  "r_magic (set_next m r v) r = r_magic m r" "r_free (set_next m r v) r = r_free m r"
  "r_size (set_next m r v) r = r_size m r" "r_prev (set_next m r v) r = r_prev m r"
  "r_magic (set_prev m r v) r = r_magic m r" "r_free (set_prev m r v) r = r_free m r"
  "r_size (set_prev m r v) r = r_size m r" "r_next (set_prev m r v) r = r_next m r"
  by (simp_all add: field_defs load_store_le_disj store_le_out load_le_upd)

text \<open>Writing a field of another header.\<close>

definition apart :: "nat \<Rightarrow> nat \<Rightarrow> bool" where "apart r r' \<longleftrightarrow> r + 32 \<le> r' \<or> r' + 32 \<le> r"

lemma field_apart:
  assumes "apart r r'"
  shows "r_magic (set_magic m r' v) r = r_magic m r" "r_magic (set_free m r' f) r = r_magic m r"
    "r_magic (set_size m r' v) r = r_magic m r" "r_magic (set_next m r' v) r = r_magic m r"
    "r_magic (set_prev m r' v) r = r_magic m r"
    "r_free (set_magic m r' v) r = r_free m r" "r_free (set_free m r' f) r = r_free m r"
    "r_free (set_size m r' v) r = r_free m r" "r_free (set_next m r' v) r = r_free m r"
    "r_free (set_prev m r' v) r = r_free m r"
    "r_size (set_magic m r' v) r = r_size m r" "r_size (set_free m r' f) r = r_size m r"
    "r_size (set_size m r' v) r = r_size m r" "r_size (set_next m r' v) r = r_size m r"
    "r_size (set_prev m r' v) r = r_size m r"
    "r_next (set_magic m r' v) r = r_next m r" "r_next (set_free m r' f) r = r_next m r"
    "r_next (set_size m r' v) r = r_next m r" "r_next (set_next m r' v) r = r_next m r"
    "r_next (set_prev m r' v) r = r_next m r"
    "r_prev (set_magic m r' v) r = r_prev m r" "r_prev (set_free m r' f) r = r_prev m r"
    "r_prev (set_size m r' v) r = r_prev m r" "r_prev (set_next m r' v) r = r_prev m r"
    "r_prev (set_prev m r' v) r = r_prev m r"
  using assms by (auto simp: apart_def field_defs load_store_le_disj store_le_out load_le_upd)

text \<open>What a write leaves alone.\<close>

lemma agree_field:
  "A \<inter> {r..<r + 4} = {} \<Longrightarrow> agree m (set_magic m r v) A"
  "r + 4 \<notin> A \<Longrightarrow> agree m (set_free m r f) A"
  "A \<inter> {r + 8..<r + 16} = {} \<Longrightarrow> agree m (set_size m r v) A"
  "A \<inter> {r + 16..<r + 24} = {} \<Longrightarrow> agree m (set_next m r v) A"
  "A \<inter> {r + 24..<r + 32} = {} \<Longrightarrow> agree m (set_prev m r v) A"
  by (auto simp: agree_def field_defs store_le_def store_bytes_def disjoint_iff)

section \<open>Lists of regions\<close>

type_synonym reg = "nat \<times> bool"

definition extent :: "reg list \<Rightarrow> nat" where "extent xs = (\<Sum>x \<leftarrow> xs. fst x + 32)"

fun regions :: "mem \<Rightarrow> nat \<Rightarrow> nat \<Rightarrow> nat \<Rightarrow> reg list \<Rightarrow> bool" where
  "regions m r pv nx [] \<longleftrightarrow> True"
| "regions m r pv nx ((n, f) # xs) \<longleftrightarrow>
     hdr m r f n (if xs = [] then nx else r + 32 + n) pv \<and> regions m (r + 32 + n) r nx xs"

fun last_at :: "nat \<Rightarrow> nat \<Rightarrow> reg list \<Rightarrow> nat" where
  "last_at r pv [] = pv"
| "last_at r pv ((n, f) # xs) = last_at (r + 32 + n) r xs"

fun headers :: "nat \<Rightarrow> reg list \<Rightarrow> nat set" where
  "headers r [] = {}"
| "headers r ((n, f) # xs) = {r..<r + 32} \<union> headers (r + 32 + n) xs"

lemma extent_simps [simp]:
  "extent [] = 0" "extent ((n, f) # xs) = n + 32 + extent xs" "extent (xs @ ys) = extent xs + extent ys"
  by (simp_all add: extent_def)

lemma headers_bounds: "a \<in> headers r xs \<Longrightarrow> r \<le> a \<and> a < r + extent xs"
proof (induction r xs rule: headers.induct)
  case (2 r n f xs)
  then show ?case by (cases "a \<in> {r..<r + 32}") auto
qed simp

lemma headers_append: "headers r (xs @ ys) = headers r xs \<union> headers (r + extent xs) ys"
  by (induction r xs rule: headers.induct) (auto simp: ac_simps)

lemma regions_agree: "agree m m' (headers r xs) \<Longrightarrow> regions m' r pv nx xs = regions m r pv nx xs"
  by (induction r xs arbitrary: pv rule: headers.induct) (auto simp: agree_Un hdr_agree)

lemma regions_append:
  "regions m r pv nx (xs @ ys) \<longleftrightarrow> regions m r pv (if ys = [] then nx else r + extent xs) xs \<and>
     regions m (r + extent xs) (last_at r pv xs) nx ys"
proof (induction r pv xs rule: last_at.induct)
  case (2 r pv n f xs)
  have "r + 32 + n + extent xs = r + extent ((n, f) # xs)" by simp
  with 2 show ?case by (cases "xs = []"; cases "ys = []") (simp_all add: ac_simps)
qed simp

text \<open>Only the first header has the address of its predecessor.\<close>

lemma regions_new_prev:
  assumes "regions m r pv nx ((n, f) # xs)" "pv' < 2 ^ 64"
  shows "regions (set_prev m r pv') r pv' nx ((n, f) # xs)"
proof -
  have "agree m (set_prev m r pv') (headers (r + 32 + n) xs)"
    by (rule agree_field) (use headers_bounds in fastforce)
  then show ?thesis
    using assms by (simp add: regions_agree hdr_def)
qed

section \<open>Searching\<close>

fun placed :: "nat \<Rightarrow> reg list \<Rightarrow> (nat \<times> reg) list" where
  "placed r [] = []"
| "placed r ((n, f) # xs) = (r, n, f) # placed (r + 32 + n) xs"

definition fits :: "nat \<Rightarrow> nat \<Rightarrow> reg list \<Rightarrow> (nat \<times> nat) set" where
  "fits sz r xs = {(a, n). (a, n, True) \<in> set (placed r xs) \<and> sz \<le> n}"

lemma fits_simps [simp]:
  "fits sz r [] = {}"
  "fits sz r ((n, f) # xs) = (if f \<and> sz \<le> n then {(r, n)} else {}) \<union> fits sz (r + 32 + n) xs"
  by (auto simp: fits_def)

lemma placed_bounds: "(a, n, f) \<in> set (placed r xs) \<Longrightarrow> r \<le> a \<and> a + 32 + n \<le> r + extent xs"
proof (induction r xs rule: placed.induct)
  case (2 r k g xs)
  then show ?case by (cases "(a, n, f) = (r, k, g)") auto
qed simp

lemma fits_size: "regions m r pv nx xs \<Longrightarrow> (a, n) \<in> fits sz r xs \<Longrightarrow> r_size m a = n"
proof (induction m r pv nx xs rule: regions.induct)
  case (2 m r pv nx k g xs)
  then show ?case by (cases "(a, n) = (r, k)") (auto simp: hdr_def split: if_splits)
qed simp

lemma regions_head:
  assumes "regions m r pv 0 ((n, f) # xs)"
  shows "r_free m r = f" "r_size m r = n" "r_next m r = (if xs = [] then 0 else r + 32 + n)"
    "regions m (r + 32 + n) r 0 xs"
  using assms by (auto simp: hdr_def)

text \<open>The contract of a search in a block: it ends, and finds a region that fits if there is one.\<close>

locale fit_policy =
  fixes search :: "mem \<Rightarrow> nat \<Rightarrow> nat \<Rightarrow> nat option"
  assumes search_fits: "regions m r pv 0 xs \<Longrightarrow> xs \<noteq> [] \<Longrightarrow> 0 < r \<Longrightarrow>
    \<exists>a. search m r sz = Some a \<and> (if fits sz r xs = {} then a = 0 else a \<in> fst ` fits sz r xs)"
begin

lemma search_none: "regions m r pv 0 xs \<Longrightarrow> xs \<noteq> [] \<Longrightarrow> 0 < r \<Longrightarrow> fits sz r xs = {} \<Longrightarrow> search m r sz = Some 0"
  using search_fits [of m r pv xs sz] by auto

lemma search_some:
  assumes "regions m r pv 0 xs" "xs \<noteq> []" "0 < r" "fits sz r xs \<noteq> {}"
  obtains a n where "search m r sz = Some a" "0 < a" "(a, n, True) \<in> set (placed r xs)" "sz \<le> n"
proof -
  have "\<exists>a. search m r sz = Some a \<and> a \<in> fst ` fits sz r xs"
    using search_fits [OF assms(1-3), of sz] assms(4) by simp
  then obtain a n where a: "search m r sz = Some a" "(a, n) \<in> fits sz r xs" by auto
  then have "(a, n, True) \<in> set (placed r xs)" "sz \<le> n" by (simp_all add: fits_def)
  moreover from placed_bounds [OF this(1)] have "0 < a" using assms(3) by simp
  ultimately show ?thesis using that a(1) by blast
qed

end

lemma find_first_fits:
  assumes "regions m r pv 0 xs" "xs \<noteq> []" "0 < r"
  shows "\<exists>a. find_first m r sz = Some a \<and> (if fits sz r xs = {} then a = 0 else a \<in> fst ` fits sz r xs)"
  using assms
proof (induction xs arbitrary: r pv)
  case (Cons x xs)
  obtain n f where x: "x = (n, f)" by (cases x)
  note h = regions_head [OF Cons.prems(1) [unfolded x]]
  show ?case
  proof (cases "f \<and> sz \<le> n")
    case True
    then have "find_first m r sz = Some r" using h(1,2) Cons.prems(3) by (subst find_first.simps) simp
    with True show ?thesis by (auto simp: x)
  next
    case nf: False
    then have step: "find_first m r sz = find_first m (r_next m r) sz"
      using h(1,2) Cons.prems(3) by (subst find_first.simps) auto
    show ?thesis
    proof (cases "xs = []")
      case True
      have "find_first m 0 sz = Some 0" by (subst find_first.simps) simp
      with True nf step h(3) show ?thesis by (auto simp: x)
    next
      case False
      have "fits sz r (x # xs) = fits sz (r + 32 + n) xs" using nf by (auto simp: x)
      moreover have "find_first m r sz = find_first m (r + 32 + n) sz" using step h(3) False by simp
      moreover have "\<exists>a. find_first m (r + 32 + n) sz = Some a \<and>
          (if fits sz (r + 32 + n) xs = {} then a = 0 else a \<in> fst ` fits sz (r + 32 + n) xs)"
        by (rule Cons.IH [OF h(4) False]) simp
      ultimately show ?thesis by (simp only:)
    qed
  qed
qed simp

text \<open>\<open>find_best\<close> returns a smallest region among those that fit and the one it has.\<close>

definition candidates :: "mem \<Rightarrow> nat \<Rightarrow> nat \<Rightarrow> nat \<Rightarrow> reg list \<Rightarrow> (nat \<times> nat) set" where
  "candidates m b sz r xs = (if b = 0 then {} else {(b, r_size m b)}) \<union> fits sz r xs"

lemma find_best_minimal:
  assumes "regions m r pv 0 xs" "xs \<noteq> []" "0 < r"
  shows "\<exists>a. find_best m b r sz = Some a \<and>
    (if candidates m b sz r xs = {} then a = 0
     else \<exists>n. (a, n) \<in> candidates m b sz r xs \<and> (\<forall>(p, k) \<in> candidates m b sz r xs. n \<le> k))"
  using assms
proof (induction xs arbitrary: r pv b)
  case (Cons x xs)
  obtain n f where x: "x = (n, f)" by (cases x)
  note h = regions_head [OF Cons.prems(1) [unfolded x]]
  define b' where "b' = (if f \<and> sz \<le> n \<and> (b = 0 \<or> n < r_size m b) then r else b)"
  have step: "find_best m b r sz = find_best m b' (r_next m r) sz"
    using h(1,2) Cons.prems(3) by (subst find_best.simps) (auto simp: b'_def)
  let ?C = "candidates m b sz r ((n, f) # xs)" and ?C' = "candidates m b' sz (r + 32 + n) xs"
  have sub: "?C' \<subseteq> ?C" using h(2) Cons.prems(3) by (auto simp: candidates_def b'_def)
  have dom: "\<exists>p' k'. (p', k') \<in> ?C' \<and> k' \<le> k" if "(p, k) \<in> ?C" for p k
    using that h(2) Cons.prems(3)
    by (auto simp: candidates_def b'_def split: if_splits intro: less_imp_le)
      (metis less_imp_le linorder_not_less)+
  have "\<exists>a. find_best m b' (r_next m r) sz = Some a \<and>
    (if ?C' = {} then a = 0 else \<exists>n. (a, n) \<in> ?C' \<and> (\<forall>(p, k) \<in> ?C'. n \<le> k))"
  proof (cases "xs = []")
    case True
    have "find_best m b' 0 sz = Some b'" by (subst find_best.simps) simp
    with True h(3) show ?thesis by (auto simp: candidates_def)
  next
    case False
    with Cons.IH [OF h(4)] h(3) show ?thesis by simp
  qed
  then obtain a where a: "find_best m b' (r_next m r) sz = Some a"
    "if ?C' = {} then a = 0 else \<exists>n. (a, n) \<in> ?C' \<and> (\<forall>(p, k) \<in> ?C'. n \<le> k)" by blast
  have "if ?C = {} then a = 0 else \<exists>n. (a, n) \<in> ?C \<and> (\<forall>(p, k) \<in> ?C. n \<le> k)"
  proof (cases "?C' = {}")
    case True
    have "?C = {}"
    proof (rule equals0I)
      fix pk assume "pk \<in> ?C"
      then have "(fst pk, snd pk) \<in> ?C" by simp
      from dom [OF this] True show False by simp
    qed
    with a True show ?thesis by simp
  next
    case False
    with a obtain n where n: "(a, n) \<in> ?C'" "\<forall>(p, k) \<in> ?C'. n \<le> k" by auto
    have "n \<le> k" if pk: "(p, k) \<in> ?C" for p k
    proof -
      obtain p' k' where "(p', k') \<in> ?C'" "k' \<le> k" using dom [OF pk] by blast
      with n(2) have "n \<le> k'" by blast
      with \<open>k' \<le> k\<close> show ?thesis by simp
    qed
    then have "(a, n) \<in> ?C \<and> (\<forall>(p, k) \<in> ?C. n \<le> k)" using n(1) sub by blast
    moreover from this have "?C \<noteq> {}" by blast
    ultimately show ?thesis unfolding if_not_P [OF \<open>?C \<noteq> {}\<close>] by blast
  qed
  with a(1) step show ?case unfolding x by (intro exI [of _ a] conjI) simp_all
qed simp

lemma find_best_fits:
  assumes "regions m r pv 0 xs" "xs \<noteq> []" "0 < r"
  shows "\<exists>a. find_best m 0 r sz = Some a \<and> (if fits sz r xs = {} then a = 0 else a \<in> fst ` fits sz r xs)"
proof -
  have c: "candidates m 0 sz r xs = fits sz r xs" by (simp add: candidates_def)
  obtain a where "find_best m 0 r sz = Some a" "if fits sz r xs = {} then a = 0
     else \<exists>n. (a, n) \<in> fits sz r xs \<and> (\<forall>(p, k) \<in> fits sz r xs. n \<le> k)"
    using find_best_minimal [OF assms, of 0 sz] unfolding c by blast
  then show ?thesis by (cases "fits sz r xs = {}") (auto intro: rev_image_eqI)
qed

interpretation first_fit: fit_policy find_first
  by unfold_locales (rule find_first_fits)

interpretation best_fit: fit_policy "\<lambda>m r sz. find_best m 0 r sz"
  by unfold_locales (rule find_best_fits)

lemma block_search: "fit_policy (find_in_block pol)"
proof (cases pol)
  case FIRST_FIT
  then have "find_in_block pol = find_first" by (simp add: find_in_block_def fun_eq_iff)
  then show ?thesis using first_fit.fit_policy_axioms by simp
next
  case BEST_FIT
  then have "find_in_block pol = (\<lambda>m r sz. find_best m 0 r sz)"
    by (simp add: find_in_block_def fun_eq_iff)
  then show ?thesis using best_fit.fit_policy_axioms by simp
qed

end
