(* ===== verification/MallocEdit.thy ===== *)
theory MallocEdit
  imports MallocRegions
begin

text \<open>
  Splitting, merging and coalescing as edits of the list of regions of a block. Each writes
  only inside of headers, so the data of every region is as before.
\<close>

section \<open>Splitting\<close>

definition split_reg :: "nat \<Rightarrow> reg \<Rightarrow> reg list" where
  "split_reg sz x = (if fst x < sz + 32 + MIN_SIZE then [x] else [(sz, snd x), (fst x - sz - 32, True)])"

lemma extent_split_reg [simp]: "extent (split_reg sz x) = fst x + 32"
  by (simp add: split_reg_def extent_def)

lemma split_reg_nonempty [simp]: "split_reg sz x \<noteq> []"
  by (simp add: split_reg_def)

lemma hdrI:
  "r_magic m r = MAGIC_NUMBER \<Longrightarrow> r_free m r = f \<Longrightarrow> r_size m r = n \<Longrightarrow> r_next m r = nx \<Longrightarrow> r_prev m r = pv \<Longrightarrow>
   hdr m r f n nx pv"
  by (simp add: hdr_def)

lemma magic_same [simp]: "r_magic (set_magic m r MAGIC_NUMBER) r = MAGIC_NUMBER"
  by (rule field_same) (simp add: MAGIC_NUMBER_def)

text \<open>The new header and the shortened one; \<open>m\<close> is the memory before the link to the rest.\<close>

lemma split_effect:
  assumes h: "hdr m r f n nx pv" and r: "0 < r" and fit: "sz + 32 + MIN_SIZE \<le> n" and top: "r + 32 + n < 2 ^ 64"
    and nx: "nx = 0 \<or> nx = r + 32 + n" "nx + 32 \<le> 2 ^ 64"
  defines "new \<equiv> r + 32 + sz"
  shows "hdr (split m r sz) r f sz new pv" "hdr (split m r sz) new True (n - sz - 32) nx r"
    "agree m (split m r sz) (- ({r..<r + 32} \<union> {new..<new + 32} \<union> (if nx = 0 then {} else {nx + 24..<nx + 32})))"
    "nx \<noteq> 0 \<Longrightarrow> r_prev (split m r sz) nx = new"
proof -
  have ms: "MIN_SIZE = 64" by (simp add: MIN_SIZE_def)
  have F: "r_magic m r = MAGIC_NUMBER" "r_free m r = f" "r_size m r = n" "r_next m r = nx" "r_prev m r = pv"
    using h by (simp_all add: hdr_def)
  have ap: "apart r new" "apart new r" using fit by (simp_all add: apart_def new_def)
  have apx: "apart r nx" "apart nx r" "apart new nx" "apart nx new" if "nx \<noteq> 0"
    using that nx fit by (auto simp: apart_def new_def ms)
  have b: "new < 2 ^ 64" "sz < 2 ^ 64" "n - sz - 32 < 2 ^ 64" "r < 2 ^ 64" "nx < 2 ^ 64"
    using top fit nx by (auto simp: new_def)
  note ap' = field_apart [OF ap(1)] field_apart [OF ap(2)]
  define m1 where "m1 = set_magic m new MAGIC_NUMBER"
  define m2 where "m2 = set_free m1 new True"
  define m3 where "m3 = set_size m2 new (n - sz - 32)"
  define m4 where "m4 = set_next m3 new nx"
  define m5 where "m5 = (if nx \<noteq> 0 then set_prev m4 nx new else m4)"
  define m6 where "m6 = set_prev m5 new r"
  define m7 where "m7 = set_size m6 r sz"
  define m8 where "m8 = set_next m7 r new"
  have e: "split m r sz = m8"
  proof -
    have s2: "r_size m2 r = n" using F ap' by (simp add: m2_def m1_def)
    have s3: "r_next m3 r = nx" using F ap' by (simp add: m3_def m2_def m1_def)
    have s4: "r_next m4 new = nx" using b by (simp add: m4_def)
    have "\<not> n < sz + sizeof_region + MIN_SIZE" using fit by (simp add: sizeof_region_def)
    then show ?thesis
      unfolding split_def Let_def sizeof_region_def F(3)
      using r s2 s3 s4
      by (simp only: m1_def [symmetric] m2_def [symmetric] m3_def [symmetric] m4_def [symmetric]
          m5_def [symmetric] m6_def [symmetric] m7_def [symmetric] m8_def [symmetric] if_False
          s2 s3 s4 new_def [symmetric]) (simp add: m5_def m6_def m7_def m8_def new_def)
  qed
  show "hdr (split m r sz) r f sz new pv"
    unfolding e by (rule hdrI) (use F ap' apx b in
      \<open>simp_all add: m8_def m7_def m6_def m5_def m4_def m3_def m2_def m1_def field_apart\<close>)
  show "hdr (split m r sz) new True (n - sz - 32) nx r"
    unfolding e by (rule hdrI) (use F ap' apx b in
      \<open>simp_all add: m8_def m7_def m6_def m5_def m4_def m3_def m2_def m1_def field_apart\<close>)
  show "r_prev (split m r sz) nx = new" if "nx \<noteq> 0"
    unfolding e using apx [OF that] b that
    by (simp add: m8_def m7_def m6_def m5_def field_apart)
  let ?A = "- ({r..<r + 32} \<union> {new..<new + 32} \<union> (if nx = 0 then {} else {nx + 24..<nx + 32}))"
  have "agree m m1 ?A" "agree m1 m2 ?A" "agree m2 m3 ?A" "agree m3 m4 ?A" "agree m5 m6 ?A" "agree m6 m7 ?A" "agree m7 m8 ?A"
    unfolding m1_def m2_def m3_def m4_def m6_def m7_def m8_def by (rule agree_field; auto)+
  moreover have "agree m4 m5 ?A" by (auto simp: m5_def intro!: agree_field)
  ultimately show "agree m (split m r sz) ?A" unfolding e by (meson agree_trans)
qed

lemma agree_hdr_fields:
  "agree m m' {r..<r + 24} \<Longrightarrow> r_magic m' r = r_magic m r \<and> r_free m' r = r_free m r \<and> r_size m' r = r_size m r \<and>
     r_next m' r = r_next m r"
proof -
  assume "agree m m' {r..<r + 24}"
  then have same: "m' (r + i) = m (r + i)" if "i < 24" for i using that by (simp add: agree_def)
  have "load_le 4 m' r = load_le 4 m r" by (rule load_le_cong) (simp add: same)
  moreover have "load_le 8 m' (r + i) = load_le 8 m (r + i)" if "i + 8 \<le> 24" for i
    by (rule load_le_cong) (use same that in \<open>simp add: add.assoc\<close>)
  ultimately show ?thesis
    using same [of 4] by (simp add: r_magic_def r_free_def r_size_def r_next_def)
qed

text \<open>The rest of the block, whose first header gets a new predecessor.\<close>

lemma regions_relink:
  assumes "regions m r pv nx ys" "ys \<noteq> [] \<Longrightarrow> r_prev m' r = pv'"
    "agree m m' (headers r ys - {r + 24..<r + 32})"
  shows "regions m' r pv' nx ys"
proof (cases ys)
  case (Cons y zs)
  obtain k g where y: "y = (k, g)" by (cases y)
  have below: "a \<notin> headers (r + 32 + k) zs" if "a < r + 32" for a
    using headers_bounds [of a "r + 32 + k" zs] that by auto
  have "agree m m' {r..<r + 24}" using assms(3) by (rule agree_subset) (auto simp: Cons y)
  moreover have "headers (r + 32 + k) zs \<subseteq> headers r ys - {r + 24..<r + 32}"
    using below by (auto simp: Cons y)
  then have "agree m m' (headers (r + 32 + k) zs)" using assms(3) by (rule agree_subset [rotated])
  ultimately show ?thesis
    using assms(1,2) agree_hdr_fields [of m m' r] by (auto simp: Cons y hdr_def regions_agree)
qed simp

lemma split_regions:
  assumes "regions m r pv 0 (x # ys)" "0 < r" "r + extent (x # ys) + 32 \<le> 2 ^ 64"
  shows "regions (split m r sz) r pv 0 (split_reg sz x @ ys)"
    "agree m (split m r sz) (- headers r (split_reg sz x @ ys))"
proof -
  obtain n f where x: "x = (n, f)" by (cases x)
  have h: "hdr m r f n (if ys = [] then 0 else r + 32 + n) pv" and t: "regions m (r + 32 + n) r 0 ys"
    using assms(1) by (simp_all add: x)
  show "regions (split m r sz) r pv 0 (split_reg sz x @ ys)"
    "agree m (split m r sz) (- headers r (split_reg sz x @ ys))"
  proof (atomize (full), cases "n < sz + 32 + MIN_SIZE")
    case True
    then have "split m r sz = m" using h by (simp add: split_def hdr_def sizeof_region_def)
    with True assms(1) show "regions (split m r sz) r pv 0 (split_reg sz x @ ys) \<and>
        agree m (split m r sz) (- headers r (split_reg sz x @ ys))"
      by (simp add: split_reg_def x)
  next
    case False
    let ?nx = "if ys = [] then 0 else r + 32 + n" and ?new = "r + 32 + sz"
    have "extent ys \<ge> 32" if "ys \<noteq> []" using that by (cases ys) auto
    then have nx: "?nx = 0 \<or> ?nx = r + 32 + n" "?nx + 32 \<le> 2 ^ 64" using assms(3) by (auto simp: x)
    have top: "r + 32 + n < 2 ^ 64" using assms(3) by (simp add: x)
    have fit: "sz + 32 + MIN_SIZE \<le> n" using False by simp
    note e = split_effect [OF h assms(2) fit top nx]
    have spl: "split_reg sz x = [(sz, f), (n - sz - 32, True)]" using False by (simp add: split_reg_def x)
    have at: "?new + 32 + (n - sz - 32) = r + 32 + n" using fit by simp
    have rest: "regions (split m r sz) (r + 32 + n) ?new 0 ys"
    proof (rule regions_relink [OF t])
      show "r_prev (split m r sz) (r + 32 + n) = ?new" if "ys \<noteq> []" using e(4) that by simp
      have in_A: "a \<in> - ({r..<r + 32} \<union> {?new..<?new + 32} \<union> (if ?nx = 0 then {} else {?nx + 24..<?nx + 32}))"
        if "a \<in> headers (r + 32 + n) ys - {r + 32 + n + 24..<r + 32 + n + 32}" for a
        using that headers_bounds [of a "r + 32 + n" ys] fit by (auto simp: MIN_SIZE_def)
      show "agree m (split m r sz) (headers (r + 32 + n) ys - {r + 32 + n + 24..<r + 32 + n + 32})"
        using in_A by (intro agree_subset [OF e(3)] subsetI)
    qed
    have "headers r (split_reg sz x @ ys) = {r..<r + 32} \<union> {?new..<?new + 32} \<union> headers (r + 32 + n) ys"
      unfolding spl append.simps headers.simps at by (simp only: Un_assoc)
    moreover have "(if ?nx = 0 then {} else {?nx + 24..<?nx + 32}) \<subseteq> headers (r + 32 + n) ys"
      by (cases ys) auto
    ultimately have "- headers r (split_reg sz x @ ys) \<subseteq>
        - ({r..<r + 32} \<union> {?new..<?new + 32} \<union> (if ?nx = 0 then {} else {?nx + 24..<?nx + 32}))" by blast
    then have "agree m (split m r sz) (- headers r (split_reg sz x @ ys))"
      using e(3) by (rule agree_subset [rotated])
    moreover have "regions (split m r sz) r pv 0 (split_reg sz x @ ys)"
      using e(1,2) rest unfolding spl append.simps regions.simps at
      by (simp only: list.distinct if_False simp_thms)
    ultimately show "regions (split m r sz) r pv 0 (split_reg sz x @ ys) \<and>
        agree m (split m r sz) (- headers r (split_reg sz x @ ys))" by blast
  qed
qed

section \<open>Merging\<close>

lemma merge_regions:
  assumes "regions m r pv 0 ((n, f) # (k, g) # ys)" "0 < r" "r + extent ((n, f) # (k, g) # ys) + 32 \<le> 2 ^ 64"
  obtains m' where "merge m r = (r, m')" "regions m' r pv 0 ((n + 32 + k, f) # ys)"
    "agree m m' (- headers r ((n, f) # (k, g) # ys))"
proof -
  let ?q = "r + 32 + n" and ?nx = "if ys = [] then 0 else r + 32 + n + 32 + k"
  have h: "hdr m r f n ?q pv" "hdr m ?q g k ?nx r" "regions m (?q + 32 + k) ?q 0 ys"
    using assms(1) by simp_all
  have q: "?q \<noteq> 0" "apart ?q r" using assms(2) by (auto simp: apart_def)
  have b: "n + 32 + k < 2 ^ 64" "?nx < 2 ^ 64" "r < 2 ^ 64" using assms(3) by auto
  have ext: "extent ys \<ge> 32" if "ys \<noteq> []" using that by (cases ys) auto
  define m1 where "m1 = set_size m r (n + 32 + k)"
  define m2 where "m2 = set_next m1 r ?nx"
  define m3 where "m3 = (if ?nx \<noteq> 0 then set_prev m2 ?nx r else m2)"
  have e: "merge m r = (r, m3)"
  proof -
    have F: "r_size m r = n" "r_next m r = ?q" "r_size m ?q = k" using h by (simp_all add: hdr_def)
    have s: "set_size m r (r_size m r + (sizeof_region + r_size m (r_next m r))) = m1"
      using F by (simp add: m1_def sizeof_region_def add.assoc)
    have "r_next m1 r = ?q" "r_next m1 ?q = ?nx"
      using F(2) h(2) field_apart [OF q(2)] by (simp_all add: m1_def hdr_def)
    then have s2: "set_next m1 r (r_next m1 (r_next m1 r)) = m2" by (simp add: m2_def)
    have s3: "r_next m2 r = ?nx" using b by (simp add: m2_def)
    show ?thesis using assms(2) q(1) F(2) unfolding merge_def s Let_def s2 s3 by (simp add: m3_def)
  qed
  have apx: "apart r ?nx" if "?nx \<noteq> 0" using that by (auto simp: apart_def)
  have hd: "hdr m3 r f (n + 32 + k) ?nx pv"
  proof -
    have "hdr m2 r f (n + 32 + k) ?nx pv" using h(1) b by (simp add: m2_def m1_def hdr_def)
    then show ?thesis using apx by (cases "?nx = 0") (simp_all add: m3_def hdr_def field_apart)
  qed
  let ?A = "- ({r..<r + 32} \<union> (if ?nx = 0 then {} else {?nx + 24..<?nx + 32}))"
  have ag: "agree m m3 ?A"
  proof -
    have "agree m m1 ?A" "agree m1 m2 ?A" unfolding m1_def m2_def by (rule agree_field; auto)+
    moreover have "agree m2 m3 ?A" by (auto simp: m3_def intro!: agree_field)
    ultimately show ?thesis by (meson agree_trans)
  qed
  have "regions m3 (?q + 32 + k) r 0 ys"
  proof (rule regions_relink [OF h(3)])
    show "r_prev m3 (?q + 32 + k) = r" if "ys \<noteq> []" using that b by (simp add: m3_def)
    have in_A: "a \<in> ?A" if "a \<in> headers (?q + 32 + k) ys - {?q + 32 + k + 24..<?q + 32 + k + 32}" for a
      using that headers_bounds [of a "?q + 32 + k" ys] by auto
    show "agree m m3 (headers (?q + 32 + k) ys - {?q + 32 + k + 24..<?q + 32 + k + 32})"
      using in_A by (intro agree_subset [OF ag] subsetI)
  qed
  moreover have at: "r + 32 + (n + 32 + k) = ?q + 32 + k" by simp
  ultimately have "regions m3 r pv 0 ((n + 32 + k, f) # ys)" using hd by (simp only: regions.simps at)
  moreover have "(if ?nx = 0 then {} else {?nx + 24..<?nx + 32}) \<subseteq> headers (?q + 32 + k) ys"
    by (cases ys) auto
  then have "- headers r ((n, f) # (k, g) # ys) \<subseteq> ?A" by auto
  then have "agree m m3 (- headers r ((n, f) # (k, g) # ys))" using ag by (rule agree_subset [rotated])
  ultimately show ?thesis using that e by blast
qed

section \<open>Edits in the middle of a block\<close>

lemma regions_edit:
  assumes "regions m r pv 0 (xs @ zs)" "zs \<noteq> []" "zs' \<noteq> []"
    "regions m' (r + extent xs) (last_at r pv xs) 0 zs'"
    "agree m m' (headers r xs)"
  shows "regions m' r pv 0 (xs @ zs')"
  using assms by (simp add: regions_append regions_agree)

lemma headers_before: "a \<in> headers r xs \<Longrightarrow> a \<notin> headers (r + extent xs) zs"
  using headers_bounds [of a r xs] headers_bounds [of a "r + extent xs" zs] by auto

lemma regions_set_free:
  assumes "regions m r pv nx ((n, f) # ys)"
  shows "regions (set_free m r g) r pv nx ((n, g) # ys)" "agree m (set_free m r g) (- {r + 4})"
proof -
  show a: "agree m (set_free m r g) (- {r + 4})" by (rule agree_field) simp
  have "agree m (set_free m r g) (headers (r + 32 + n) ys)"
    using a by (rule agree_subset) (use headers_bounds in fastforce)
  then show "regions (set_free m r g) r pv nx ((n, g) # ys)"
    using assms by (simp add: regions_agree) (simp add: hdr_def)
qed

text \<open>Allocation: the first part of the split region is marked as used.\<close>

definition taken :: "nat \<Rightarrow> nat \<Rightarrow> reg list" where
  "taken sz n = (if n < sz + 32 + MIN_SIZE then [(n, False)] else [(sz, False), (n - sz - 32, True)])"

lemma taken_props [simp]: "extent (taken sz n) = n + 32" "taken sz n \<noteq> []"
  by (simp_all add: taken_def)

lemma take_region:
  assumes "regions m r0 pv0 0 (xs @ (n, True) # ys)" "0 < r0"
    "r0 + extent (xs @ (n, True) # ys) + 32 \<le> 2 ^ 64"
  defines "r \<equiv> r0 + extent xs"
  shows "regions (set_free (split m r sz) r False) r0 pv0 0 (xs @ taken sz n @ ys)"
    "agree m (set_free (split m r sz) r False) (- headers r (taken sz n @ ys))"
proof -
  let ?pv = "last_at r0 pv0 xs" and ?m = "set_free (split m r sz) r False"
  have reg: "regions m r ?pv 0 ((n, True) # ys)" using assms(1) by (simp add: regions_append r_def)
  have top: "r + extent ((n, True) # ys) + 32 \<le> 2 ^ 64" "0 < r" using assms(2,3) by (simp_all add: r_def)
  note s = split_regions [OF reg top(2,1), of sz]
  obtain k zs where z: "split_reg sz (n, True) @ ys = (k, True) # zs" "taken sz n @ ys = (k, False) # zs"
    by (cases "n < sz + 32 + MIN_SIZE") (simp_all add: split_reg_def taken_def)
  note f = regions_set_free [OF s(1) [unfolded z(1)], of False]
  have h: "headers r (split_reg sz (n, True) @ ys) = headers r (taken sz n @ ys)" unfolding z by simp
  have "r + 4 \<in> headers r (taken sz n @ ys)" unfolding z by simp
  then show ag: "agree m ?m (- headers r (taken sz n @ ys))"
    by (intro agree_trans [OF s(2) [unfolded h] agree_subset [OF f(2)]]) auto
  have "agree m ?m (headers r0 xs)"
    using ag by (rule agree_subset) (use headers_before [of _ r0 xs] in \<open>auto simp: r_def\<close>)
  then show "regions ?m r0 pv0 0 (xs @ taken sz n @ ys)"
    using f(1) unfolding z(2) r_def by (intro regions_edit [OF assms(1)]) simp_all
qed

text \<open>Release: the region joins its free neighbours.\<close>

definition join_prev :: "reg list \<Rightarrow> nat \<Rightarrow> reg list \<times> nat" where
  "join_prev xs n = (if xs \<noteq> [] \<and> snd (last xs) then (butlast xs, fst (last xs) + 32 + n) else (xs, n))"

definition join_next :: "nat \<Rightarrow> reg list \<Rightarrow> nat \<times> reg list" where
  "join_next n ys = (case ys of (k, True) # zs \<Rightarrow> (n + 32 + k, zs) | _ \<Rightarrow> (n, ys))"

lemma join_prev_extent: "join_prev xs n = (xs', n') \<Longrightarrow> extent xs' + n' = extent xs + n"
proof -
  assume j: "join_prev xs n = (xs', n')"
  have "extent xs = extent (butlast xs) + fst (last xs) + 32" if "xs \<noteq> []"
    using that append_butlast_last_id [OF that] extent_simps(3) [of "butlast xs" "[last xs]"]
    by (simp add: extent_def)
  then show ?thesis using j by (auto simp: join_prev_def split: if_splits)
qed

lemma join_next_extent: "join_next n ys = (n', ys') \<Longrightarrow> n' + extent ys' = n + extent ys"
  by (auto simp: join_next_def split: list.splits prod.splits bool.splits)

lemma coalesce_next:
  assumes "regions m r pv 0 ((n, True) # ys)" "0 < r" "r + extent ((n, True) # ys) + 32 \<le> 2 ^ 64"
    "join_next n ys = (n', ys')"
  obtains m' where "(if r_next m r \<noteq> 0 \<and> r_free m (r_next m r) then merge m r else (r, m)) = (r, m')"
    "regions m' r pv 0 ((n', True) # ys')" "agree m m' (- headers r ((n, True) # ys))"
proof (cases ys)
  case Nil
  then show ?thesis using assms that [of m] by (auto simp: join_next_def hdr_def)
next
  case (Cons y zs)
  obtain k g where y: "y = (k, g)" by (cases y)
  have nx: "r_next m r = r + 32 + n" "r_free m (r + 32 + n) = g"
    using assms(1) by (auto simp: Cons y hdr_def)
  show ?thesis
  proof (cases g)
    case False
    then have j: "n' = n" "ys' = ys" using assms(4) by (simp_all add: join_next_def Cons y)
    show ?thesis by (rule that [of m]) (use nx False assms(1) in \<open>simp_all add: j\<close>)
  next
    case True
    obtain m' where "merge m r = (r, m')" "regions m' r pv 0 ((n + 32 + k, True) # zs)"
      "agree m m' (- headers r ((n, True) # (k, g) # zs))"
      by (rule merge_regions [of m r pv n True k g zs]) (use assms in \<open>auto simp: Cons y\<close>)
    moreover have j: "n' = n + 32 + k" "ys' = zs" using assms(4) True by (simp_all add: join_next_def Cons y)
    ultimately show ?thesis by (intro that [of m']) (use nx True assms(2) in \<open>simp_all add: Cons y\<close>)
  qed
qed

lemma coalesce_regions:
  assumes "regions m r0 0 0 (xs @ (n, True) # ys)" "0 < r0"
    "r0 + extent (xs @ (n, True) # ys) + 32 \<le> 2 ^ 64"
    "join_prev xs n = (xs', n1)" "join_next n1 ys = (n2, ys')"
  obtains m' where "coalesce m (r0 + extent xs) = (r0 + extent xs', m')"
    "regions m' r0 0 0 (xs' @ (n2, True) # ys')" "agree m m' (- headers r0 (xs @ (n, True) # ys))"
proof -
  let ?r = "r0 + extent xs"
  have first: "\<exists>m1. (if r_prev m ?r \<noteq> 0 \<and> r_free m (r_prev m ?r) then merge m (r_prev m ?r) else (?r, m)) =
      (r0 + extent xs', m1) \<and> regions m1 r0 0 0 (xs' @ (n1, True) # ys) \<and>
      agree m m1 (- headers r0 (xs @ (n, True) # ys))"
  proof (cases xs rule: rev_cases)
    case Nil
    then have "r_prev m ?r = 0" using assms(1) by (simp add: hdr_def)
    moreover have "xs' = []" "n1 = n" using Nil assms(4) by (simp_all add: join_prev_def)
    ultimately show ?thesis using Nil assms(1) by (intro exI [of _ m]) simp
  next
    case (snoc ws w)
    obtain k g where w: "w = (k, g)" by (cases w)
    let ?q = "r0 + extent ws"
    have at: "?r = ?q + 32 + k" by (simp add: snoc w)
    have reg: "regions m ?q (last_at r0 0 ws) 0 ((k, g) # (n, True) # ys)"
      using assms(1) by (simp add: snoc w regions_append)
    then have p: "r_prev m ?r = ?q" "r_free m ?q = g" unfolding at by (auto simp: hdr_def)
    show ?thesis
    proof (cases g)
      case False
      then have "xs' = xs" "n1 = n" using assms(4) by (simp_all add: join_prev_def snoc w)
      then show ?thesis using p False assms(1) by (intro exI [of _ m]) simp
    next
      case True
      have xs': "xs' = ws" "n1 = k + 32 + n" using assms(4) True by (simp_all add: join_prev_def snoc w)
      obtain m1 where m1: "merge m ?q = (?q, m1)" "regions m1 ?q (last_at r0 0 ws) 0 ((k + 32 + n, True) # ys)"
        "agree m m1 (- headers ?q ((k, g) # (n, True) # ys))"
        by (rule merge_regions [OF reg [unfolded True]]) (use assms(2,3) True in \<open>auto simp: snoc w\<close>)
      have ag: "agree m m1 (headers r0 ws)"
        using m1(3) by (rule agree_subset) (use headers_before [of _ r0 ws] in blast)
      have ctx: "regions m r0 0 0 (ws @ (k, g) # (n, True) # ys)" using assms(1) by (simp add: snoc w)
      have "regions m1 r0 0 0 (ws @ (n1, True) # ys)"
        unfolding xs' by (rule regions_edit [OF ctx _ _ m1(2) ag]) simp_all
      moreover have "headers r0 (xs @ (n, True) # ys) = headers r0 ws \<union> headers ?q ((k, g) # (n, True) # ys)"
        using headers_append [of r0 ws "(k, g) # (n, True) # ys"] by (simp add: snoc w)
      then have "agree m m1 (- headers r0 (xs @ (n, True) # ys))"
        using m1(3) by (auto simp: agree_def)
      moreover have "?q \<noteq> 0" using assms(2) by simp
      ultimately show ?thesis using m1(1) p True by (simp add: xs'(1))
    qed
  qed
  then obtain m1 where m1: "(if r_prev m ?r \<noteq> 0 \<and> r_free m (r_prev m ?r) then merge m (r_prev m ?r) else (?r, m)) =
      (r0 + extent xs', m1)" "regions m1 r0 0 0 (xs' @ (n1, True) # ys)"
      "agree m m1 (- headers r0 (xs @ (n, True) # ys))" by blast
  have ex: "extent xs' + n1 = extent xs + n" by (rule join_prev_extent [OF assms(4)])
  have reg1: "regions m1 (r0 + extent xs') (last_at r0 0 xs') 0 ((n1, True) # ys)"
    using m1(2) by (simp add: regions_append)
  obtain m2 where m2: "(if r_next m1 (r0 + extent xs') \<noteq> 0 \<and> r_free m1 (r_next m1 (r0 + extent xs'))
      then merge m1 (r0 + extent xs') else (r0 + extent xs', m1)) = (r0 + extent xs', m2)"
    "regions m2 (r0 + extent xs') (last_at r0 0 xs') 0 ((n2, True) # ys')"
    "agree m1 m2 (- headers (r0 + extent xs') ((n1, True) # ys))"
    by (rule coalesce_next [OF reg1 _ _ assms(5)]) (use assms(2,3) ex in auto)
  have co: "coalesce m ?r = (r0 + extent xs', m2)"
    unfolding coalesce_def m1(1) Let_def prod.case m2(1) ..
  have "agree m1 m2 (headers r0 xs')"
    using m2(3) by (rule agree_subset) (use headers_before [of _ r0 xs'] in blast)
  then have fin: "regions m2 r0 0 0 (xs' @ (n2, True) # ys')"
    using m2(2) by (intro regions_edit [OF m1(2)]) simp_all
  have sub: "headers (r0 + extent xs') ((n1, True) # ys) \<subseteq> headers r0 (xs @ (n, True) # ys)"
  proof -
    have "headers r0 (xs' @ (n1, True) # ys) \<subseteq> headers r0 (xs @ (n, True) # ys)"
    proof (cases "xs' = xs \<and> n1 = n")
      case False
      then obtain ws k where xs: "xs = ws @ [(k, True)]" "xs' = ws" "n1 = k + 32 + n"
        using assms(4) by (cases xs rule: rev_cases) (auto simp: join_prev_def split: if_splits)
      show ?thesis unfolding xs by (auto simp: headers_append ac_simps)
    qed simp
    then show ?thesis by (auto simp: headers_append)
  qed
  have "agree m m2 (- headers r0 (xs @ (n, True) # ys))"
    by (rule agree_trans [OF m1(3) agree_subset [OF m2(3)]]) (use sub in blast)
  with co fin show ?thesis by (rule that)
qed

end
