(* ===== verification/MallocHeap.thy ===== *)
theory MallocHeap
  imports MallocEdit
begin

text \<open>
  The whole heap: three chains of blocks, each tiled by regions. The abstract heap gives for
  each block size its blocks, a base address and the list of regions, and \<open>in_use\<close> is what the
  caller sees of it: the pointers handed out and the sizes behind them.
\<close>

type_synonym blk = "nat \<times> reg list"

definition classes :: "nat list" where
  "classes = [SMALL_BLOCK_SIZE, MEDIUM_BLOCK_SIZE, LARGE_BLOCK_SIZE]"

text \<open>No two neighbours are both free.\<close>

fun joined :: "reg list \<Rightarrow> bool" where
  "joined (x # y # zs) \<longleftrightarrow> \<not> (snd x \<and> snd y) \<and> joined (y # zs)"
| "joined _ \<longleftrightarrow> True"

text \<open>The links of the blocks of a list: \<open>pv\<close> comes before the first and \<open>q\<close> after the last.\<close>

definition head_or :: "nat list \<Rightarrow> nat \<Rightarrow> nat" where
  "head_or bs q = (case bs of [] \<Rightarrow> q | b # _ \<Rightarrow> b)"

definition last_or :: "nat list \<Rightarrow> nat \<Rightarrow> nat" where
  "last_or bs q = (if bs = [] then q else last bs)"

fun links :: "mem \<Rightarrow> nat \<Rightarrow> nat list \<Rightarrow> nat \<Rightarrow> bool" where
  "links m pv [] q \<longleftrightarrow> True"
| "links m pv (b # bs) q \<longleftrightarrow> b_prev m b = pv \<and> b_next m b = head_or bs q \<and> links m b bs q"

definition chain :: "mem \<Rightarrow> nat \<Rightarrow> nat list \<Rightarrow> bool" where
  "chain m p bs \<longleftrightarrow> p = head_or bs 0 \<and> links m 0 bs 0"

definition block_ok :: "mem \<Rightarrow> nat \<Rightarrow> blk \<Rightarrow> bool" where
  "block_ok m c x \<longleftrightarrow> (case x of (b, xs) \<Rightarrow> 0 < b \<and> b + c + 32 \<le> 2 ^ 64 \<and> xs \<noteq> [] \<and>
     16 + extent xs = c \<and> joined xs \<and> regions m (b + 16) 0 0 xs)"

definition area :: "nat \<Rightarrow> nat \<Rightarrow> nat set" where "area c b = {b..<b + c}"

definition disjoint_blocks :: "(nat \<Rightarrow> blk list) \<Rightarrow> bool" where
  "disjoint_blocks A \<longleftrightarrow> (\<forall>c \<in> set classes. distinct (map fst (A c))) \<and>
     (\<forall>c \<in> set classes. \<forall>x \<in> set (A c). \<forall>c' \<in> set classes. \<forall>y \<in> set (A c').
        (c, fst x) \<noteq> (c', fst y) \<longrightarrow> area c (fst x) \<inter> area c' (fst y) = {})"

definition mapped :: "(nat \<Rightarrow> blk list) \<Rightarrow> (nat \<times> nat) set" where
  "mapped A = (\<Union>c \<in> set classes. (\<lambda>x. (fst x, c)) ` set (A c))"

definition heap_ok :: "heap \<Rightarrow> (nat \<Rightarrow> blk list) \<Rightarrow> bool" where
  "heap_ok h A \<longleftrightarrow> disjoint_blocks A \<and>
     (\<forall>c \<in> set classes. chain (mem h) (head_of h c) (map fst (A c)) \<and> (\<forall>x \<in> set (A c). block_ok (mem h) c x)) \<and>
     distinct (maps h) \<and> set (maps h) = mapped A \<and> blocks_mapped h = length (maps h)"

text \<open>All regions of the heap, those that the caller holds, and those that fit a request.\<close>

definition cells :: "(nat \<Rightarrow> blk list) \<Rightarrow> (nat \<times> reg) list" where
  "cells A = concat (map (\<lambda>c. concat (map (\<lambda>x. placed (fst x + 16) (snd x)) (A c))) classes)"

definition in_use :: "(nat \<Rightarrow> blk list) \<Rightarrow> (nat \<times> nat) set" where
  "in_use A = set (map (\<lambda>(a, n, f). (a + 32, n)) (filter (\<lambda>(a, n, f). \<not> f) (cells A)))"

definition room :: "(nat \<Rightarrow> blk list) \<Rightarrow> nat \<Rightarrow> (nat \<times> nat) set" where
  "room A sz = set (map (\<lambda>(a, n, f). (a, n)) (filter (\<lambda>(a, n, f). f \<and> sz \<le> n) (cells A)))"

text \<open>Every block has a region in use: an empty block goes back to the system.\<close>

definition tidy :: "(nat \<Rightarrow> blk list) \<Rightarrow> bool" where
  "tidy A \<longleftrightarrow> (\<forall>c \<in> set classes. \<forall>x \<in> set (A c). \<exists>y \<in> set (snd x). \<not> snd y)"

definition bytes_of :: "(nat \<times> nat) set \<Rightarrow> nat set" where
  "bytes_of U = (\<Union>(p, n) \<in> U. {p..<p + n})"

section \<open>Lists of regions\<close>

lemma class_values: "c \<in> set classes \<longleftrightarrow> c = SMALL_BLOCK_SIZE \<or> c = MEDIUM_BLOCK_SIZE \<or> c = LARGE_BLOCK_SIZE"
  by (simp add: classes_def)

lemma class_bounds: "c \<in> set classes \<Longrightarrow> 48 < c \<and> c \<le> LARGE_BLOCK_SIZE"
  by (auto simp: classes_def malloc_consts)

lemma placed_append: "placed r (xs @ ys) = placed r xs @ placed (r + extent xs) ys"
  by (induction r xs rule: placed.induct) (auto simp: ac_simps)

lemma placed_split:
  assumes "(a, x) \<in> set (placed r xs)"
  obtains us vs where "xs = us @ x # vs" "a = r + extent us"
  using assms
proof (induction r xs arbitrary: thesis rule: placed.induct)
  case (2 r n f xs)
  show ?case
  proof (cases "(a, x) = (r, n, f)")
    case True
    then show ?thesis using "2.prems"(1) [of "[]" xs] by simp
  next
    case False
    then have "(a, x) \<in> set (placed (r + 32 + n) xs)" using "2.prems"(2) by auto
    then obtain us vs where "xs = us @ x # vs" "a = r + 32 + n + extent us" using "2.IH" by blast
    then show ?thesis using "2.prems"(1) [of "(n, f) # us" vs] by simp
  qed
qed simp

lemma placed_data_off_headers:
  "(a, n, f) \<in> set (placed r xs) \<Longrightarrow> {a + 32..<a + 32 + n} \<inter> headers r xs = {}"
proof -
  assume "(a, n, f) \<in> set (placed r xs)"
  then obtain us vs where xs: "xs = us @ (n, f) # vs" "a = r + extent us" by (rule placed_split)
  show ?thesis
    using headers_bounds [of _ r us] headers_bounds [of _ "r + extent us + 32 + n" vs]
    by (fastforce simp: xs headers_append)
qed

lemma joined_append:
  "joined (xs @ ys) \<longleftrightarrow> joined xs \<and> joined ys \<and> (xs = [] \<or> ys = [] \<or> \<not> (snd (last xs) \<and> snd (hd ys)))"
proof (induction xs)
  case (Cons x xs)
  then show ?case by (cases xs; cases ys) auto
qed simp

lemma joined_taken: "joined (xs @ (n, True) # ys) \<Longrightarrow> joined (xs @ taken sz n @ ys)"
  by (cases ys) (auto simp: joined_append taken_def)

lemma joined_release:
  assumes "joined (xs @ (n, f) # ys)" "join_prev xs n = (xs', n1)" "join_next n1 ys = (n2, ys')"
  shows "joined (xs' @ (n2, True) # ys')"
proof -
  have j: "joined xs" "joined ys" using assms(1) by (cases ys; simp add: joined_append)+
  have "joined xs' \<and> (xs' = [] \<or> \<not> snd (last xs'))"
    using assms(2) j(1) by (cases xs rule: rev_cases)
      (auto simp: join_prev_def joined_append split: if_splits)
  moreover have "joined ys' \<and> (ys' = [] \<or> \<not> snd (hd ys'))"
    using assms(3) j(2) by (cases ys; cases "tl ys") (auto simp: join_next_def split: bool.splits prod.splits)
  ultimately show ?thesis by (cases ys') (auto simp: joined_append)
qed

section \<open>Editing one block\<close>

lemma links_agree:
  "agree m m' (\<Union>b \<in> set bs. {b..<b + 16}) \<Longrightarrow> links m' pv bs q = links m pv bs q"
proof (induction bs arbitrary: pv)
  case (Cons b bs)
  have same: "m' (b + i) = m (b + i)" if "i < 16" for i using Cons.prems that by (auto simp: agree_def)
  have "b_prev m' b = b_prev m b" "b_next m' b = b_next m b"
    unfolding b_prev_def b_next_def by (rule load_le_cong; simp add: same add.assoc)+
  moreover have "agree m m' (\<Union>b \<in> set bs. {b..<b + 16})" using Cons.prems by (auto simp: agree_def)
  ultimately show ?case using Cons.IH by simp
qed simp

lemma chain_agree:
  "agree m m' (\<Union>b \<in> set bs. {b..<b + 16}) \<Longrightarrow> chain m' p bs = chain m p bs"
  by (simp add: chain_def links_agree)

lemma block_ok_agree:
  assumes "agree m m' (headers (b + 16) xs)"
  shows "block_ok m' c (b, xs) = block_ok m c (b, xs)"
  using regions_agree [OF assms] by (simp add: block_ok_def)

lemma headers_area: "block_ok m c (b, xs) \<Longrightarrow> headers (b + 16) xs \<subseteq> {b + 16..<b + c}"
  using headers_bounds [of _ "b + 16" xs] by (fastforce simp: block_ok_def)

lemma heap_okD:
  assumes "heap_ok h A" "c \<in> set classes"
  shows "chain (mem h) (head_of h c) (map fst (A c))" "x \<in> set (A c) \<Longrightarrow> block_ok (mem h) c x"
    "distinct (map fst (A c))"
    "x \<in> set (A c) \<Longrightarrow> c' \<in> set classes \<Longrightarrow> y \<in> set (A c') \<Longrightarrow> (c, fst x) \<noteq> (c', fst y) \<Longrightarrow>
       area c (fst x) \<inter> area c' (fst y) = {}"
  using assms by (auto simp: heap_ok_def disjoint_blocks_def)

lemma heap_ok_edit:
  assumes ok: "heap_ok h A" and c: "c \<in> set classes" and A: "A c = us @ (b, xs) # vs"
    and new: "block_ok m' c (b, xs')" and ag: "agree (mem h) m' (- {b + 16..<b + c})"
    and h': "mem h' = m'" "maps h' = maps h" "blocks_mapped h' = blocks_mapped h" "head_of h' = head_of h"
  shows "heap_ok h' (A(c := us @ (b, xs') # vs))" (is "heap_ok h' ?A")
proof -
  have fst: "map fst (?A d) = map fst (A d)" for d using A by simp
  have heads: "fst ` set (?A d) = fst ` set (A d)" for d using A by auto
  have apart: "area e (fst y) \<inter> {b + 16..<b + c} = {}"
    if "e \<in> set classes" "y \<in> set (A e)" "(e, fst y) \<noteq> (c, b)" for e y
  proof -
    have "area e (fst y) \<inter> area c (fst (b, xs)) = {}"
      using heap_okD(4) [OF ok that(1,2) c, of "(b, xs)"] that(3) A by simp
    then show ?thesis by (auto simp: area_def)
  qed
  have links: "{d..<d + 16} \<inter> {b + 16..<b + c} = {}"
    if "e \<in> set classes" "d \<in> fst ` set (A e)" for e d
  proof (cases "(e, d) = (c, b)")
    case False
    have "{d..<d + 16} \<subseteq> area e d" using class_bounds [OF that(1)] by (auto simp: area_def)
    with apart [OF that(1)] that(2) False show ?thesis by fastforce
  qed auto
  have chains: "chain m' (head_of h e) (map fst (A e))" if e: "e \<in> set classes" for e
  proof -
    have "agree (mem h) m' (\<Union>d \<in> set (map fst (A e)). {d..<d + 16})"
      using ag by (rule agree_subset) (use links [OF e] in fastforce)
    then show ?thesis using heap_okD(1) [OF ok e] by (simp add: chain_agree)
  qed
  have blocks: "block_ok m' e y" if e: "e \<in> set classes" and y: "y \<in> set (A e)" "(e, fst y) \<noteq> (c, b)" for e y
  proof -
    obtain d zs where yz: "y = (d, zs)" by (cases y)
    have "headers (d + 16) zs \<subseteq> area e d"
      using headers_area [OF heap_okD(2) [OF ok e y(1), unfolded yz]] by (auto simp: area_def)
    then have "headers (d + 16) zs \<inter> {b + 16..<b + c} = {}" using apart [OF e y] by (auto simp: yz)
    then have "agree (mem h) m' (headers (d + 16) zs)" using ag by (intro agree_subset [OF ag]) auto
    then show ?thesis using heap_okD(2) [OF ok e y(1)] by (simp add: yz block_ok_agree)
  qed
  have all: "block_ok m' e y" if e: "e \<in> set classes" and y: "y \<in> set (?A e)" for e y
  proof (cases "e = c")
    case True
    have "distinct (map fst (A c))" by (rule heap_okD(3) [OF ok c])
    then have "fst z \<noteq> b" if "z \<in> set us \<union> set vs" for z using that A by force
    then show ?thesis using y blocks [OF c] new A True by (cases y) (auto simp: True)
  qed (use blocks [OF e] y in auto)
  have "disjoint_blocks ?A"
    unfolding disjoint_blocks_def fst
  proof (intro conjI ballI impI)
    fix e x e' y
    assume e: "e \<in> set classes" "x \<in> set (?A e)" "e' \<in> set classes" "y \<in> set (?A e')" "(e, fst x) \<noteq> (e', fst y)"
    then obtain x' y' where "x' \<in> set (A e)" "fst x' = fst x" "y' \<in> set (A e')" "fst y' = fst y"
      using heads [of e] heads [of e'] by (metis (no_types, lifting) image_iff)
    then show "area e (fst x) \<inter> area e' (fst y) = {}"
      using heap_okD(4) [OF ok e(1) _ e(3), of x' y'] e(5) by auto
  qed (use heap_okD(3) [OF ok] in auto)
  moreover have "mapped ?A = mapped A" 
  proof -
    have via: "(\<lambda>x. (fst x, d)) ` S = (\<lambda>b. (b, d)) ` fst ` S" for d and S :: "blk set"
      by (simp add: image_image)
    have "(\<lambda>x. (fst x, d)) ` set (?A d) = (\<lambda>x. (fst x, d)) ` set (A d)" for d
      unfolding via heads ..
    then show ?thesis by (simp only: mapped_def)
  qed
  ultimately show ?thesis
    using ok chains all unfolding heap_ok_def h' fst by simp
qed

end
