(* ===== verification/MallocLists.thy ===== *)
theory MallocLists
  imports MallocHeap
begin

text \<open>
  The regions of the whole heap and its lists of blocks: a search over the lists finds a region
  that fits if the heap has one; the regions the caller holds are disjoint from each other and
  from headers and links; a list of blocks can be relinked without the others noticing.
\<close>

section \<open>The regions of the heap\<close>

lemma set_cells:
  "set (cells A) = (\<Union>c \<in> set classes. \<Union>x \<in> set (A c). set (placed (fst x + 16) (snd x)))"
  by (simp add: cells_def)

lemma UN_upd:
  assumes "c \<in> S"
  shows "(\<Union>d \<in> S. g ((A(c := w)) d)) = g w \<union> (\<Union>d \<in> S - {c}. g (A d))"
proof -
  have "(\<Union>d \<in> S. g ((A(c := w)) d)) = (\<Union>d \<in> insert c (S - {c}). g ((A(c := w)) d))"
    using assms by (simp only: insert_Diff)
  also have "\<dots> = g w \<union> (\<Union>d \<in> S - {c}. g ((A(c := w)) d))"
    by (simp only: UN_insert fun_upd_same)
  also have "(\<Union>d \<in> S - {c}. g ((A(c := w)) d)) = (\<Union>d \<in> S - {c}. g (A d))"
    by (rule SUP_cong) auto
  finally show ?thesis .
qed

lemma cells_edit:
  "c \<in> set classes \<Longrightarrow> set (cells (A(c := us @ zs @ vs))) =
     set (cells (A(c := us @ vs))) \<union> (\<Union>z \<in> set zs. set (placed (fst z + 16) (snd z)))"
  unfolding set_cells
  by (simp only: UN_upd [where g = "\<lambda>l. \<Union>x \<in> set l. set (placed (fst x + 16) (snd x))"]) auto

lemma in_use_iff: "(p, n) \<in> in_use A \<longleftrightarrow> (\<exists>a. p = a + 32 \<and> (a, n, False) \<in> set (cells A))"
  by (force simp: in_use_def)

lemma room_iff: "(a, n) \<in> room A sz \<longleftrightarrow> (a, n, True) \<in> set (cells A) \<and> sz \<le> n"
  by (force simp: room_def)

lemma room_fits: "room A sz = (\<Union>c \<in> set classes. \<Union>x \<in> set (A c). fits sz (fst x + 16) (snd x))"
proof -
  have "x \<in> room A sz \<longleftrightarrow> x \<in> (\<Union>c \<in> set classes. \<Union>x \<in> set (A c). fits sz (fst x + 16) (snd x))" for x
    by (cases x) (simp only: room_iff set_cells fits_def UN_iff mem_Collect_eq prod.case, blast)
  then show ?thesis by (rule set_eqI)
qed

lemma placed_apart:
  "(a, n, f) \<in> set (placed r xs) \<Longrightarrow> (a', n', f') \<in> set (placed r xs) \<Longrightarrow> (a, n, f) \<noteq> (a', n', f') \<Longrightarrow>
     a + 32 + n \<le> a' \<or> a' + 32 + n' \<le> a"
proof (induction r xs rule: placed.induct)
  case (2 r k g xs)
  then show ?case using placed_bounds [of a n f "r + 32 + k" xs] placed_bounds [of a' n' f' "r + 32 + k" xs]
    by fastforce
qed simp

lemma block_cells:
  assumes "heap_ok h A" "c \<in> set classes" "x \<in> set (A c)" "(a, n, f) \<in> set (placed (fst x + 16) (snd x))"
  shows "fst x + 16 \<le> a" "a + 32 + n \<le> fst x + c" "fst x + c + 32 \<le> 2 ^ 64" "0 < fst x"
  using placed_bounds [OF assms(4)] heap_okD(2) [OF assms(1-3)]
  by (auto simp: block_ok_def split: prod.splits)

lemma cells_apart:
  assumes ok: "heap_ok h A" and x: "(a, n, f) \<in> set (cells A)" and y: "(a', n', f') \<in> set (cells A)"
    and ne: "(a, n, f) \<noteq> (a', n', f')"
  shows "{a..<a + 32 + n} \<inter> {a'..<a' + 32 + n'} = {}"
proof -
  obtain c u where c: "c \<in> set classes" "u \<in> set (A c)" "(a, n, f) \<in> set (placed (fst u + 16) (snd u))"
    using x by (auto simp: set_cells)
  obtain d v where d: "d \<in> set classes" "v \<in> set (A d)" "(a', n', f') \<in> set (placed (fst v + 16) (snd v))"
    using y by (auto simp: set_cells)
  show ?thesis
  proof (cases "(c, fst u) = (d, fst v)")
    case True
    have "distinct (map fst (A c))" by (rule heap_okD(3) [OF ok c(1)])
    then have "u = v" using True c(2) d(2) by (auto simp: distinct_map inj_on_def)
    with placed_apart [OF c(3) _ ne] d(3) show ?thesis by auto
  next
    case False
    have "area c (fst u) \<inter> area d (fst v) = {}" by (rule heap_okD(4) [OF ok c(1,2) d(1,2) False])
    moreover have "{a..<a + 32 + n} \<subseteq> area c (fst u)"
      using block_cells [OF ok c] by (auto simp: area_def)
    moreover have "{a'..<a' + 32 + n'} \<subseteq> area d (fst v)"
      using block_cells [OF ok d] by (auto simp: area_def)
    ultimately show ?thesis by blast
  qed
qed

text \<open>The bytes the caller holds are neither headers nor links.\<close>

lemma in_use_off_links:
  assumes ok: "heap_ok h A" and c: "c \<in> set classes" "x \<in> set (A c)"
  shows "bytes_of (in_use A) \<inter> {fst x..<fst x + 16} = {}"
proof (rule equals0I)
  fix i assume i: "i \<in> bytes_of (in_use A) \<inter> {fst x..<fst x + 16}"
  then obtain a n where a: "(a, n, False) \<in> set (cells A)" "i \<in> {a + 32..<a + 32 + n}"
    by (auto simp: bytes_of_def in_use_iff)
  obtain d v where d: "d \<in> set classes" "v \<in> set (A d)" "(a, n, False) \<in> set (placed (fst v + 16) (snd v))"
    using a(1) by (auto simp: set_cells)
  have in_v: "i \<in> area d (fst v)" "fst v + 16 \<le> i"
    using block_cells [OF ok d] a(2) by (auto simp: area_def)
  have in_x: "i \<in> area c (fst x)" using i class_bounds [OF c(1)] by (auto simp: area_def)
  then have "(c, fst x) = (d, fst v)" using heap_okD(4) [OF ok c d(1,2)] in_v(1) by blast
  then show False using i in_v(2) by auto
qed

lemma in_use_off_other_headers:
  assumes ok: "heap_ok h A" and c: "c \<in> set classes" and A: "A c = us @ (b, xs) # vs"
  shows "bytes_of (in_use A) \<inter> headers (b + 16) xs = {}"
proof (rule equals0I)
  fix i assume i: "i \<in> bytes_of (in_use A) \<inter> headers (b + 16) xs"
  then obtain a n where a: "(a, n, False) \<in> set (cells A)" "i \<in> {a + 32..<a + 32 + n}"
    by (auto simp: bytes_of_def in_use_iff)
  obtain d v where d: "d \<in> set classes" "v \<in> set (A d)" "(a, n, False) \<in> set (placed (fst v + 16) (snd v))"
    using a(1) by (auto simp: set_cells)
  have x: "(b, xs) \<in> set (A c)" using A by simp
  have "i \<in> area d (fst v)" using block_cells [OF ok d] a(2) by (auto simp: area_def)
  moreover have "i \<in> area c b"
    using headers_area [OF heap_okD(2) [OF ok c x]] i by (auto simp: area_def)
  ultimately have "(c, b) = (d, fst v)" using heap_okD(4) [OF ok c x d(1,2)] by auto
  moreover have "inj_on fst (set (A c))" using heap_okD(3) [OF ok c] by (simp add: distinct_map)
  ultimately have "v = (b, xs)" using x d(2) by (metis fst_conv inj_onD prod.inject)
  then have "(a, n, False) \<in> set (placed (b + 16) xs)" using d(3) by simp
  from placed_data_off_headers [OF this] show False using i a(2) by auto
qed

section \<open>The search\<close>

lemma find_in_list_fits:
  assumes "links m pv (map fst bs) 0" "\<forall>x \<in> set bs. block_ok m c x"
  shows "\<exists>a. find_in_list pol m (head_or (map fst bs) 0) sz = Some a \<and>
    ((a = 0 \<and> (\<Union>x \<in> set bs. fits sz (fst x + 16) (snd x)) = {}) \<or>
     (0 < a \<and> a \<in> fst ` (\<Union>x \<in> set bs. fits sz (fst x + 16) (snd x))))"
  using assms
proof (induction bs arbitrary: pv)
  case Nil
  then show ?case by (subst find_in_list.simps) (simp add: head_or_def)
next
  case (Cons x bs)
  obtain b xs where x: "x = (b, xs)" by (cases x)
  have ok: "0 < b" "xs \<noteq> []" "regions m (b + 16) 0 0 xs"
    using Cons.prems(2) by (auto simp: x block_ok_def)
  have l: "b_next m b = head_or (map fst bs) 0" "links m b (map fst bs) 0" using Cons.prems(1) by (simp_all add: x)
  have step: "find_in_list pol m b sz = (case find_in_block pol m (b + 16) sz of None \<Rightarrow> None
     | Some r \<Rightarrow> if r \<noteq> 0 then Some r else find_in_list pol m (b_next m b) sz)"
    using ok(1) by (subst find_in_list.simps) (simp add: BLOCK2REGION_def sizeof_block_def)
  have rest: "\<forall>x \<in> set bs. block_ok m c x" using Cons.prems(2) by simp
  show ?case
  proof (cases "fits sz (b + 16) xs = {}")
    case True
    then have "find_in_block pol m (b + 16) sz = Some 0"
      using fit_policy.search_none [OF block_search ok(3,2)] by simp
    with Cons.IH [OF l(2) rest] show ?thesis by (simp add: x step head_or_def [of "b # _"] l(1) True)
  next
    case False
    obtain a n where a: "find_in_block pol m (b + 16) sz = Some a" "0 < a"
      "(a, n, True) \<in> set (placed (b + 16) xs)" "sz \<le> n"
      by (rule fit_policy.search_some [OF block_search ok(3,2) _ False]) simp
    then have "(a, n) \<in> fits sz (b + 16) xs" by (simp add: fits_def)
    with a(1,2) show ?thesis by (simp add: x step head_or_def [of "b # _"]) force
  qed
qed

lemma head_of_values: "head_of h SMALL_BLOCK_SIZE = small_blocks h" "head_of h MEDIUM_BLOCK_SIZE = medium_blocks h"
  "head_of h LARGE_BLOCK_SIZE = large_blocks h"
  by (simp_all add: head_of_def malloc_consts)

lemma find_in_class:
  assumes "heap_ok h A" "c \<in> set classes"
  shows "\<exists>a. find_in_list pol (mem h) (head_of h c) sz = Some a \<and>
    ((a = 0 \<and> (\<Union>x \<in> set (A c). fits sz (fst x + 16) (snd x)) = {}) \<or>
     (0 < a \<and> a \<in> fst ` (\<Union>x \<in> set (A c). fits sz (fst x + 16) (snd x))))"
  using find_in_list_fits [of "mem h" 0 "A c" c pol sz] heap_okD(1,2) [OF assms] by (simp add: chain_def)

lemma room_too_big:
  assumes "heap_ok h A" "LARGE_BLOCK_SIZE - sizeof_block - sizeof_region < sz"
  shows "room A sz = {}"
proof (rule equals0I)
  fix y assume "y \<in> room A sz"
  then obtain c x a n where c: "c \<in> set classes" "x \<in> set (A c)"
    "(a, n, True) \<in> set (placed (fst x + 16) (snd x))" "sz \<le> n"
    by (cases y) (auto simp: room_iff set_cells)
  with block_cells [OF assms(1) c(1-3)] class_bounds [OF c(1)] assms(2) show False
    by (simp add: sizeof_block_def sizeof_region_def LARGE_BLOCK_SIZE_def)
qed

lemma first_of_three:
  assumes "(a1 = 0 \<and> F1 = {}) \<or> (0 < a1 \<and> a1 \<in> fst ` F1)" "(a2 = 0 \<and> F2 = {}) \<or> (0 < a2 \<and> a2 \<in> fst ` F2)"
    "(a3 = 0 \<and> F3 = {}) \<or> (0 < a3 \<and> a3 \<in> fst ` F3)"
  defines "a \<equiv> if a1 \<noteq> 0 then a1 else if a2 \<noteq> 0 then a2 else (a3 :: nat)"
  shows "(a = 0 \<and> F1 \<union> (F2 \<union> F3) = {}) \<or> (0 < a \<and> a \<in> fst ` (F1 \<union> (F2 \<union> F3)))"
  unfolding image_Un using assms(1-3) by (auto simp: a_def)

lemma find_free_region_ok:
  assumes ok: "heap_ok h A"
  shows "\<exists>a. find_free_region pol h sz = Some a \<and>
    ((a = 0 \<and> room A sz = {}) \<or> (0 < a \<and> a \<in> fst ` room A sz))"
proof (cases "LARGE_BLOCK_SIZE - sizeof_block - sizeof_region < sz")
  case True
  with room_too_big [OF ok True] show ?thesis by (simp add: find_free_region_def)
next
  case False
  let ?F = "\<lambda>c. \<Union>x \<in> set (A c). fits sz (fst x + 16) (snd x)"
  have r: "room A sz = ?F SMALL_BLOCK_SIZE \<union> (?F MEDIUM_BLOCK_SIZE \<union> ?F LARGE_BLOCK_SIZE)"
    by (simp add: room_fits classes_def)
  have c: "SMALL_BLOCK_SIZE \<in> set classes" "MEDIUM_BLOCK_SIZE \<in> set classes" "LARGE_BLOCK_SIZE \<in> set classes"
    by (simp_all add: classes_def)
  obtain a1 where a1: "find_in_list pol (mem h) (small_blocks h) sz = Some a1"
    "(a1 = 0 \<and> ?F SMALL_BLOCK_SIZE = {}) \<or> (0 < a1 \<and> a1 \<in> fst ` ?F SMALL_BLOCK_SIZE)"
    using find_in_class [OF ok c(1), of pol sz, unfolded head_of_values] by blast
  obtain a2 where a2: "find_in_list pol (mem h) (medium_blocks h) sz = Some a2"
    "(a2 = 0 \<and> ?F MEDIUM_BLOCK_SIZE = {}) \<or> (0 < a2 \<and> a2 \<in> fst ` ?F MEDIUM_BLOCK_SIZE)"
    using find_in_class [OF ok c(2), of pol sz, unfolded head_of_values] by blast
  obtain a3 where a3: "find_in_list pol (mem h) (large_blocks h) sz = Some a3"
    "(a3 = 0 \<and> ?F LARGE_BLOCK_SIZE = {}) \<or> (0 < a3 \<and> a3 \<in> fst ` ?F LARGE_BLOCK_SIZE)"
    using find_in_class [OF ok c(3), of pol sz, unfolded head_of_values] by blast
  have "find_free_region pol h sz = Some (if a1 \<noteq> 0 then a1 else if a2 \<noteq> 0 then a2 else a3)"
    using False by (simp add: find_free_region_def a1(1) a2(1) a3(1))
  then show ?thesis using first_of_three [OF a1(2) a2(2) a3(2)] unfolding r by blast
qed

section \<open>Links\<close>

lemma b_fields_agree:
  "agree m m' {b..<b + 8} \<Longrightarrow> b_next m' b = b_next m b"
  "agree m m' {b + 8..<b + 16} \<Longrightarrow> b_prev m' b = b_prev m b"
  unfolding b_next_def b_prev_def by (rule load_le_cong, force simp: agree_def)+

lemma b_fields_same [simp]:
  "v < 2 ^ 64 \<Longrightarrow> b_next (set_b_next m b v) b = v" "v < 2 ^ 64 \<Longrightarrow> b_prev (set_b_prev m b v) b = v"
  by (simp_all add: b_next_def b_prev_def set_b_next_def set_b_prev_def load_store_le_same)

lemma agree_b_fields:
  "A \<inter> {b..<b + 8} = {} \<Longrightarrow> agree m (set_b_next m b v) A"
  "A \<inter> {b + 8..<b + 16} = {} \<Longrightarrow> agree m (set_b_prev m b v) A"
  by (auto simp: agree_def set_b_next_def set_b_prev_def store_le_def store_bytes_def disjoint_iff)

definition spread :: "nat list \<Rightarrow> bool" where
  "spread bs \<longleftrightarrow> distinct bs \<and> (\<forall>x \<in> set bs. \<forall>y \<in> set bs. x \<noteq> y \<longrightarrow> x + 16 \<le> y \<or> y + 16 \<le> x)"

lemma spread_off: "spread bs \<Longrightarrow> x \<in> set bs \<Longrightarrow> y \<in> set bs \<Longrightarrow> x \<noteq> y \<Longrightarrow> {x..<x + 16} \<inter> {y..<y + 16} = {}"
  by (fastforce simp: spread_def)

lemma spread_append: "spread (us @ vs) \<Longrightarrow> spread us \<and> spread vs"
  by (auto simp: spread_def)

lemma links_append: "links m pv (us @ vs) q \<longleftrightarrow> links m pv us (head_or vs q) \<and> links m (last_or us pv) vs q"
proof (induction us arbitrary: pv)
  case (Cons u us)
  then show ?case by (cases us) (auto simp: last_or_def head_or_def)
qed (simp add: last_or_def)

lemma links_new_prev:
  assumes "links m pv bs q" "spread bs" "bs \<noteq> [] \<Longrightarrow> b_prev m' (hd bs) = pv'"
    "agree m m' ((\<Union>b \<in> set bs. {b..<b + 16}) - {hd bs + 8..<hd bs + 16})"
  shows "links m' pv' bs q"
proof (cases bs)
  case (Cons b cs)
  have off: "{x..<x + 16} \<inter> {b + 8..<b + 16} = {}" if "x \<in> set cs" for x
    using spread_off [OF assms(2), of x b] that assms(2) by (fastforce simp: Cons spread_def)
  then have "(\<Union>x \<in> set cs. {x..<x + 16}) \<inter> {b + 8..<b + 16} = {}" by blast
  then have "agree m m' (\<Union>x \<in> set cs. {x..<x + 16})"
    by (intro agree_subset [OF assms(4)]) (auto simp: Cons)
  moreover have "agree m m' {b..<b + 8}" by (rule agree_subset [OF assms(4)]) (auto simp: Cons)
  ultimately show ?thesis using assms(1,3) by (simp add: Cons links_agree b_fields_agree)
qed simp

lemma links_new_next:
  assumes "links m pv bs q" "spread bs" "bs \<noteq> [] \<Longrightarrow> b_next m' (last bs) = q'"
    "agree m m' ((\<Union>b \<in> set bs. {b..<b + 16}) - {last bs..<last bs + 8})"
  shows "links m' pv bs q'"
proof (cases bs rule: rev_cases)
  case (snoc cs b)
  have off: "{x..<x + 16} \<inter> {b..<b + 8} = {}" if "x \<in> set cs" for x
    using spread_off [OF assms(2), of x b] that assms(2) by (fastforce simp: snoc spread_def)
  then have "(\<Union>x \<in> set cs. {x..<x + 16}) \<inter> {b..<b + 8} = {}" by blast
  then have "agree m m' (\<Union>x \<in> set cs. {x..<x + 16})"
    by (intro agree_subset [OF assms(4)]) (auto simp: snoc)
  moreover have "agree m m' {b + 8..<b + 16}" by (rule agree_subset [OF assms(4)]) (auto simp: snoc)
  moreover have "head_or [b] q = head_or [b] q'" by (simp add: head_or_def)
  ultimately show ?thesis
    using assms(1,3) by (simp add: snoc links_append links_agree b_fields_agree head_or_def [of "[]"])
qed simp

lemma heap_spread:
  assumes ok: "heap_ok h A" and c: "c \<in> set classes"
  shows "spread (map fst (A c))"
  unfolding spread_def
proof (intro conjI ballI impI)
  show "distinct (map fst (A c))" by (rule heap_okD(3) [OF ok c])
  fix x y assume "x \<in> set (map fst (A c))" "y \<in> set (map fst (A c))" "x \<noteq> y"
  then obtain u v where u: "u \<in> set (A c)" "fst u = x" and v: "v \<in> set (A c)" "fst v = y" by auto
  have "area c x \<inter> area c y = {}" using heap_okD(4) [OF ok c u(1) c v(1)] u(2) v(2) \<open>x \<noteq> y\<close> by auto
  then have "x \<notin> area c y" "y \<notin> area c x" using class_bounds [OF c] by (auto simp: area_def)
  then show "x + 16 \<le> y \<or> y + 16 \<le> x" using class_bounds [OF c] by (auto simp: area_def)
qed

text \<open>Other blocks and lists do not notice a change outside of them.\<close>

definition link_bytes :: "nat list \<Rightarrow> nat set" where
  "link_bytes bs = (\<Union>b \<in> set bs. {b..<b + 16})"

lemma in_use_off_list:
  "heap_ok h A \<Longrightarrow> c \<in> set classes \<Longrightarrow> bytes_of (in_use A) \<inter> link_bytes (map fst (A c)) = {}"
  using in_use_off_links [of h A c] unfolding link_bytes_def by fastforce

lemma link_bytes_apart:
  assumes ok: "heap_ok h A" and c: "c \<in> set classes" "d \<in> set classes" "c \<noteq> d"
  shows "link_bytes (map fst (A c)) \<inter> link_bytes (map fst (A d)) = {}"
proof -
  have "{fst x..<fst x + 16} \<inter> {fst y..<fst y + 16} = {}" if xy: "x \<in> set (A c)" "y \<in> set (A d)" for x y
  proof -
    have "area c (fst x) \<inter> area d (fst y) = {}" using heap_okD(4) [OF ok c(1) xy(1) c(2) xy(2)] c(3) by auto
    moreover have "{fst x..<fst x + 16} \<subseteq> area c (fst x)" using class_bounds [OF c(1)] by (auto simp: area_def)
    moreover have "{fst y..<fst y + 16} \<subseteq> area d (fst y)" using class_bounds [OF c(2)] by (auto simp: area_def)
    ultimately show ?thesis by blast
  qed
  then show ?thesis by (fastforce simp: link_bytes_def)
qed

lemma headers_off_links:
  assumes ok: "heap_ok h A" and c: "c \<in> set classes" "x \<in> set (A c)" and d: "d \<in> set classes"
  shows "headers (fst x + 16) (snd x) \<inter> link_bytes (map fst (A d)) = {}"
proof -
  have "headers (fst x + 16) (snd x) \<inter> {fst y..<fst y + 16} = {}" if y: "y \<in> set (A d)" for y
  proof (cases "(c, fst x) = (d, fst y)")
    case True
    then show ?thesis using headers_bounds [of _ "fst x + 16" "snd x"] by fastforce
  next
    case False
    have "area c (fst x) \<inter> area d (fst y) = {}" by (rule heap_okD(4) [OF ok c d y False])
    moreover have "{fst y..<fst y + 16} \<subseteq> area d (fst y)" using class_bounds [OF d] by (auto simp: area_def)
    moreover have "headers (fst x + 16) (snd x) \<subseteq> area c (fst x)"
      using headers_area [of "mem h" c "fst x" "snd x"] heap_okD(2) [OF ok c] by (auto simp: area_def)
    ultimately show ?thesis by blast
  qed
  then show ?thesis by (fastforce simp: link_bytes_def)
qed

lemma link_bytes_area:
  assumes "d \<in> set classes"
  shows "link_bytes (map fst (A d)) \<subseteq> (\<Union>x \<in> set (A d). area d (fst x))"
  using class_bounds [OF assms] by (fastforce simp: link_bytes_def area_def)

text \<open>A change of one list that writes its links, and otherwise only outside of all blocks.\<close>

lemma heap_ok_relist:
  assumes ok: "heap_ok h A" and c: "c \<in> set classes"
    and ag: "agree (mem h) m' (- (N \<union> link_bytes (map fst (A c))))"
    and N: "\<And>d x. d \<in> set classes \<Longrightarrow> x \<in> set (A d) \<Longrightarrow> area d (fst x) \<inter> N = {}"
    and heads: "\<And>d. d \<in> set classes \<Longrightarrow> d \<noteq> c \<Longrightarrow> head_of h' d = head_of h d"
    and ch: "chain m' (head_of h' c) (map fst bl)"
    and new: "\<And>x. x \<in> set bl \<Longrightarrow> x \<in> set (A c) \<or> block_ok m' c x"
    and disj: "disjoint_blocks (A(c := bl))"
    and ms: "distinct (maps h')" "set (maps h') = mapped (A(c := bl))" "blocks_mapped h' = length (maps h')"
    and m': "mem h' = m'"
  shows "heap_ok h' (A(c := bl))"
proof -
  have old: "block_ok m' d x" if d: "d \<in> set classes" "x \<in> set (A d)" for d x
  proof -
    have "headers (fst x + 16) (snd x) \<subseteq> area d (fst x)"
      using headers_area [of "mem h" d "fst x" "snd x"] heap_okD(2) [OF ok d] by (auto simp: area_def)
    then have "headers (fst x + 16) (snd x) \<subseteq> - (N \<union> link_bytes (map fst (A c)))"
      using N [OF d] headers_off_links [OF ok d c] by blast
    then have "agree (mem h) m' (headers (fst x + 16) (snd x))" by (rule agree_subset [OF ag])
    from block_ok_agree [OF this] show ?thesis using heap_okD(2) [OF ok d] by (cases x) simp
  qed
  have chains: "chain m' (head_of h' d) (map fst (A d))" if d: "d \<in> set classes" "d \<noteq> c" for d
  proof -
    have "link_bytes (map fst (A d)) \<inter> N = {}" using link_bytes_area [OF d(1)] N [OF d(1)] by blast
    then have "link_bytes (map fst (A d)) \<subseteq> - (N \<union> link_bytes (map fst (A c)))"
      using link_bytes_apart [OF ok d(1) c d(2)] by blast
    then have "agree (mem h) m' (\<Union>b \<in> set (map fst (A d)). {b..<b + 16})"
      unfolding link_bytes_def [symmetric] by (rule agree_subset [OF ag])
    from chain_agree [OF this] show ?thesis using heap_okD(1) [OF ok d(1)] heads [OF d] by simp
  qed
  have blocks: "block_ok m' d x" if d: "d \<in> set classes" "x \<in> set ((A(c := bl)) d)" for d x
    using d new [of x] old [OF d(1), of x] by (cases "d = c") auto
  have "chain m' (head_of h' d) (map fst ((A(c := bl)) d))" if d: "d \<in> set classes" for d
    using ch chains [OF d] by (cases "d = c") auto
  with blocks disj ms show ?thesis by (simp only: heap_ok_def m' simp_thms ball_simps) blast
qed

lemma disjoint_cons:
  assumes "disjoint_blocks A" "c \<in> set classes" "0 < c"
    and N: "\<And>d x. d \<in> set classes \<Longrightarrow> x \<in> set (A d) \<Longrightarrow> area d (fst x) \<inter> area c b = {}"
  shows "disjoint_blocks (A(c := (b, xs) # A c))"
proof -
  have new: "b \<notin> fst ` set (A c)"
  proof
    assume "b \<in> fst ` set (A c)"
    then obtain x where "x \<in> set (A c)" "fst x = b" by auto
    with N [OF assms(2)] have "area c b = {}" by blast
    with assms(3) show False by (simp add: area_def)
  qed
  let ?A = "A(c := (b, xs) # A c)"
  have mem: "(d = c \<and> x = (b, xs)) \<or> x \<in> set (A d)" if "x \<in> set (?A d)" for d x
    using that by (auto split: if_splits)
  show ?thesis
    unfolding disjoint_blocks_def
  proof (intro conjI ballI impI)
    fix d assume "d \<in> set classes"
    then show "distinct (map fst (?A d))" using assms(1) new by (auto simp: disjoint_blocks_def)
  next
    fix d x e y assume a: "d \<in> set classes" "x \<in> set (?A d)" "e \<in> set classes" "y \<in> set (?A e)"
      "(d, fst x) \<noteq> (e, fst y)"
    show "area d (fst x) \<inter> area e (fst y) = {}"
      using mem [OF a(2)] mem [OF a(4)]
    proof (elim disjE conjE)
      assume "x \<in> set (A d)" "y \<in> set (A e)"
      then show ?thesis using assms(1) a(1,3,5) unfolding disjoint_blocks_def by blast
    next
      assume "e = c" "y = (b, xs)" "x \<in> set (A d)"
      then show ?thesis using N [OF a(1)] by simp
    next
      assume "d = c" "x = (b, xs)" "y \<in> set (A e)"
      then show ?thesis using N [OF a(3)] by (simp add: Int_commute)
    qed (use a(5) in simp)
  qed
qed

lemma disjoint_drop:
  assumes "disjoint_blocks A" "A c = us @ (b, xs) # vs"
  shows "disjoint_blocks (A(c := us @ vs))"
proof -
  have sub: "set ((A(c := us @ vs)) d) \<subseteq> set (A d)" for d using assms(2) by auto
  have dist: "distinct (map fst ((A(c := us @ vs)) d))" if "distinct (map fst (A d))" for d
  proof (cases "d = c")
    case True
    then show ?thesis using that assms(2) by (simp add: Int_Un_distrib)
  qed (use that in simp)
  show ?thesis
    unfolding disjoint_blocks_def
    by (intro conjI ballI impI) (use assms(1) dist sub in \<open>(unfold disjoint_blocks_def, blast)+\<close>)
qed

end
