(* ===== verification/MallocAlloc.thy ===== *)
theory MallocAlloc
  imports MallocLists
begin

text \<open>
  Allocation. \<open>mmap_ok\<close> is what the code relies on of \<open>mmap\<close>: a new mapping is not null, lies in
  the address space and overlaps no other. Under it \<open>malloc\<close> returns a region that fits and is
  disjoint from everything the caller holds, or null when the heap has no such region and
  cannot grow.
\<close>

definition mmap_ok :: "os \<Rightarrow> bool" where
  "mmap_ok os \<longleftrightarrow> (\<forall>ms n a. os_mmap os ms n = Some a \<longrightarrow> 0 < a \<and> a + n + 32 \<le> 2 ^ 64 \<and>
     (\<forall>(b, k) \<in> set ms. {a..<a + n} \<inter> {b..<b + k} = {}))"

section \<open>Growing the heap\<close>

lemma agree_zero: "agree m (zero_range m a n) (- {a..<a + n})"
  by (auto simp: agree_def zero_range_def)

text \<open>The first header of a new block.\<close>

definition new_header :: "mem \<Rightarrow> nat \<Rightarrow> nat \<Rightarrow> mem" where
  "new_header m r n = set_prev (set_next (set_size (set_free (set_magic m r MAGIC_NUMBER) r True) r n) r 0) r 0"

lemma new_header_ok:
  "n < 2 ^ 64 \<Longrightarrow> hdr (new_header m r n) r True n 0 0"
  "agree m (new_header m r n) (- {r..<r + 32})"
proof -
  show "hdr (new_header m r n) r True n 0 0" if "n < 2 ^ 64"
    by (rule hdrI) (use that in \<open>simp_all add: new_header_def\<close>)
  let ?A = "- {r..<r + 32}"
  define m1 where "m1 = set_magic m r MAGIC_NUMBER"
  define m2 where "m2 = set_free m1 r True"
  define m3 where "m3 = set_size m2 r n"
  define m4 where "m4 = set_next m3 r 0"
  have "agree m m1 ?A" "agree m1 m2 ?A" "agree m2 m3 ?A" "agree m3 m4 ?A" "agree m4 (set_prev m4 r 0) ?A"
    unfolding m1_def m2_def m3_def m4_def by (rule agree_field; auto)+
  then show "agree m (new_header m r n) ?A"
    unfolding new_header_def m1_def [symmetric] m2_def [symmetric] m3_def [symmetric] m4_def [symmetric]
    by (meson agree_trans)
qed

text \<open>The links written for a new first block \<open>b\<close> in front of \<open>q\<close>.\<close>

definition push_links :: "mem \<Rightarrow> nat \<Rightarrow> nat \<Rightarrow> mem" where
  "push_links m b q = (let m2 = set_b_next (set_b_prev m b 0) b q in
     if b_next m2 b \<noteq> 0 then set_b_prev m2 (b_next m2 b) b else m2)"

lemma push_links_ok:
  assumes "q < 2 ^ 64" "b < 2 ^ 64" "q \<noteq> 0 \<longrightarrow> q + 16 \<le> b \<or> b + 16 \<le> q"
  shows "b_prev (push_links m b q) b = 0" "b_next (push_links m b q) b = q"
    "q \<noteq> 0 \<Longrightarrow> b_prev (push_links m b q) q = b"
    "agree m (push_links m b q) (- ({b..<b + 16} \<union> (if q = 0 then {} else {q + 8..<q + 16})))"
proof -
  define m1 where "m1 = set_b_prev m b 0"
  define m2 where "m2 = set_b_next m1 b q"
  define m3 where "m3 = (if q \<noteq> 0 then set_b_prev m2 q b else m2)"
  have q: "b_next m2 b = q" using assms(1) by (simp add: m2_def)
  have e: "push_links m b q = m3"
    unfolding push_links_def m1_def [symmetric] m2_def [symmetric] Let_def q m3_def ..
  have off: "agree m2 m3 ({b..<b + 16})"
    using assms(3) by (auto simp: m3_def intro!: agree_b_fields)
  have "b_prev m2 b = b_prev m1 b" unfolding m2_def by (rule b_fields_agree, rule agree_b_fields) auto
  then have "b_prev m2 b = 0" by (simp add: m1_def)
  moreover have "b_prev m3 b = b_prev m2 b" by (rule b_fields_agree, rule agree_subset [OF off]) auto
  ultimately show "b_prev (push_links m b q) b = 0" by (simp only: e)
  have "b_next m3 b = b_next m2 b" by (rule b_fields_agree, rule agree_subset [OF off]) auto
  then show "b_next (push_links m b q) b = q" by (simp only: e q)
  show "b_prev (push_links m b q) q = b" if "q \<noteq> 0" using that assms(2) by (simp add: e m3_def)
  let ?A = "- ({b..<b + 16} \<union> (if q = 0 then {} else {q + 8..<q + 16}))"
  have "agree m m1 ?A" "agree m1 m2 ?A" "agree m2 m3 ?A"
    unfolding m1_def m2_def m3_def by (auto intro!: agree_b_fields)
  then show "agree m (push_links m b q) ?A" unfolding e by (meson agree_trans)
qed

lemma grow_heap_eq:
  assumes "blocks_mapped h \<noteq> MAX_BLOCKS" "c = size_that_fits sz" "c \<noteq> 0" "os_mmap os (maps h) c = Some b"
  defines "m' \<equiv> new_header (push_links (zero_range (mem h) b c) b (head_of h c)) (b + 16) (c - 48)"
  shows "grow_heap os h sz = (b + 16, (set_head h c b)
    \<lparr>blocks_mapped := blocks_mapped h + 1, mem := m', maps := (b, c) # maps h\<rparr>)"
  using assms(1,3,4) unfolding grow_heap_def assms(2) [symmetric]
  by (simp add: Let_def m'_def new_header_def push_links_def BLOCK2REGION_def sizeof_block_def
      sizeof_region_def)

lemma size_that_fits_cases:
  "size_that_fits sz = 0 \<and> LARGE_BLOCK_SIZE - 48 < sz \<or>
   size_that_fits sz \<in> set classes \<and> sz \<le> size_that_fits sz - 48"
  by (auto simp: size_that_fits_def Let_def classes_def sizeof_block_def sizeof_region_def malloc_consts)

lemma head_of_set_head:
  "c \<in> set classes \<Longrightarrow> d \<in> set classes \<Longrightarrow> head_of (set_head h c b) d = (if d = c then b else head_of h d)"
  by (auto simp: classes_def head_of_def set_head_def malloc_consts)

lemma head_of_update [simp]:
  "head_of (h\<lparr>blocks_mapped := k, mem := m, maps := ms\<rparr>) d = head_of h d"
  "head_of (h\<lparr>mem := m\<rparr>) d = head_of h d"
  by (simp_all add: head_of_def)

lemma disjoint_part: "L \<inter> N = {} \<Longrightarrow> B \<subseteq> N \<Longrightarrow> L \<inter> B = {}"
  by blast

lemma disjoint_part': "N \<inter> L = {} \<Longrightarrow> B \<subseteq> N \<Longrightarrow> B \<inter> L = {}"
  by blast

lemma disjoint_parts: "L \<inter> B = {} \<Longrightarrow> L - Y \<subseteq> - (B \<union> (if P then {} else Y))"
  by auto

lemma mapped_iff: "(b, c) \<in> mapped A \<longleftrightarrow> c \<in> set classes \<and> b \<in> fst ` set (A c)"
  by (auto simp: mapped_def)

lemma new_block_apart:
  assumes ok: "heap_ok h A" and os: "mmap_ok os" "os_mmap os (maps h) c = Some b"
    and d: "d \<in> set classes" "x \<in> set (A d)"
  shows "area d (fst x) \<inter> area c b = {}"
proof -
  have "(fst x, d) \<in> set (maps h)" using ok d by (simp add: heap_ok_def mapped_iff)
  with os have "{b..<b + c} \<inter> {fst x..<fst x + d} = {}" unfolding mmap_ok_def by fast
  then show ?thesis by (simp add: area_def Int_commute)
qed

lemma list_head:
  assumes "heap_ok h A" "c \<in> set classes"
  shows "head_of h c = head_or (map fst (A c)) 0" "A c \<noteq> [] \<Longrightarrow> head_of h c = fst (hd (A c))"
  using heap_okD(1) [OF assms] by (cases "A c"; simp add: chain_def head_or_def)+

lemma head_bounds:
  assumes ok: "heap_ok h A" and c: "c \<in> set classes"
  shows "head_of h c < 2 ^ 64"
proof (cases "A c")
  case Nil
  then show ?thesis using list_head [OF ok c] by (simp add: head_or_def)
next
  case (Cons x xs)
  then show ?thesis using list_head(2) [OF ok c] heap_okD(2) [OF ok c, of x] by (auto simp: block_ok_def)
qed

text \<open>The heap after growing: one more block, which is free.\<close>

definition grown :: "(nat \<Rightarrow> blk list) \<Rightarrow> nat \<Rightarrow> nat \<Rightarrow> nat \<Rightarrow> blk list" where
  "grown A c b = A(c := (b, [(c - 48, True)]) # A c)"

lemma grow_heap_ok:
  assumes ok: "heap_ok h A" and os: "mmap_ok os" "os_mmap os (maps h) c = Some b"
    and c: "c = size_that_fits sz" "c \<in> set classes" and room: "blocks_mapped h \<noteq> MAX_BLOCKS"
  obtains h' where "grow_heap os h sz = (b + 16, h')" "heap_ok h' (grown A c b)"
    "agree (mem h) (mem h') (- (area c b \<union> link_bytes (map fst (A c))))"
    "amount_of_mallocs h' = amount_of_mallocs h" "requested_memory h' = requested_memory h"
proof -
  let ?q = "head_of h c"
  define m1 where "m1 = zero_range (mem h) b c"
  define m2 where "m2 = push_links m1 b ?q"
  define m' where "m' = new_header m2 (b + 16) (c - 48)"
  define h' where "h' = (set_head h c b)\<lparr>blocks_mapped := blocks_mapped h + 1, mem := m', maps := (b, c) # maps h\<rparr>"
  have cb: "48 < c" "c < 2 ^ 64" using class_bounds [OF c(2)] by (simp_all add: malloc_consts)
  have b: "0 < b" "b + c + 32 \<le> 2 ^ 64" using os unfolding mmap_ok_def by fast+
  note new = new_block_apart [OF ok os]
  have heads: "x \<in> set (A c) \<Longrightarrow> fst x + 16 \<le> b \<or> b + 16 \<le> fst x" for x
    using new [OF c(2), of x] cb by (fastforce simp: area_def)
  have q: "?q < 2 ^ 64" "?q \<noteq> 0 \<longrightarrow> ?q + 16 \<le> b \<or> b + 16 \<le> ?q"
    using head_bounds [OF ok c(2)] list_head [OF ok c(2)] heads [of "hd (A c)"]
    by (simp, cases "A c") (simp_all add: head_or_def)
  have b64: "b < 2 ^ 64" using b cb by simp
  note push = push_links_ok [OF q(1) b64 q(2), of m1, folded m2_def]
  have hdr: "hdr m' (b + 16) True (c - 48) 0 0" and ag2: "agree m2 m' (- {b + 16..<b + 48})"
    using new_header_ok [where m = m2 and r = "b + 16" and n = "c - 48"] cb
    by (simp_all add: m'_def add.commute)
  have sub: "(if ?q = 0 then {} else {?q + 8..<?q + 16}) \<subseteq> link_bytes (map fst (A c))"
    using list_head [OF ok c(2)] by (cases "A c") (auto simp: head_or_def link_bytes_def)
  have ag: "agree (mem h) m' (- (area c b \<union> link_bytes (map fst (A c))))"
  proof -
    have "agree (mem h) m1 (- (area c b \<union> link_bytes (map fst (A c))))"
      unfolding m1_def by (rule agree_subset [OF agree_zero]) (auto simp: area_def)
    moreover have "agree m1 m2 (- (area c b \<union> link_bytes (map fst (A c))))"
      by (rule agree_subset [OF push(4)]) (use sub cb in \<open>auto simp: area_def\<close>)
    moreover have "agree m2 m' (- (area c b \<union> link_bytes (map fst (A c))))"
      by (rule agree_subset [OF ag2]) (use cb in \<open>auto simp: area_def\<close>)
    ultimately show ?thesis by (meson agree_trans)
  qed
  have old_links: "agree (mem h) m' (link_bytes (map fst (A c)) - {?q + 8..<?q + 16})"
  proof -
    have off: "link_bytes (map fst (A c)) \<inter> area c b = {}"
      using link_bytes_area [OF c(2)] new [OF c(2)] by blast
    have sub: "{b..<b + 16} \<subseteq> area c b" "{b + 16..<b + 48} \<subseteq> area c b"
      using cb by (auto simp: area_def)
    have off': "link_bytes (map fst (A c)) \<inter> {b..<b + 16} = {}" "link_bytes (map fst (A c)) \<inter> {b + 16..<b + 48} = {}"
      by (rule disjoint_part [OF off], rule sub)+
    have "agree (mem h) m1 (link_bytes (map fst (A c)) - {?q + 8..<?q + 16})"
      unfolding m1_def by (rule agree_subset [OF agree_zero]) (use off in \<open>auto simp: area_def\<close>)
    moreover have "agree m1 m2 (link_bytes (map fst (A c)) - {?q + 8..<?q + 16})"
      using push(4) by (rule agree_subset) (rule disjoint_parts [OF off'(1)])
    moreover have "agree m2 m' (link_bytes (map fst (A c)) - {?q + 8..<?q + 16})"
      by (rule agree_subset [OF ag2]) (use off' in blast)
    ultimately show ?thesis by (meson agree_trans)
  qed
  have pq: "b_prev m' ?q = b" if "A c \<noteq> []"
  proof -
    have x: "?q = fst (hd (A c))" "hd (A c) \<in> set (A c)" using list_head(2) [OF ok c(2) that] that by simp_all
    then have "?q \<noteq> 0" using heap_okD(2) [OF ok c(2) x(2)] by (auto simp: block_ok_def split: prod.splits)
    moreover have "{?q..<?q + 16} \<inter> {b + 16..<b + 48} = {}"
      unfolding x(1) by (rule disjoint_part [OF disjoint_part' [OF new [OF c(2) x(2)]]])
        (use cb in \<open>auto simp: area_def\<close>)
    then have "agree m2 m' {?q + 8..<?q + 16}" by (intro agree_subset [OF ag2]) auto
    ultimately show ?thesis using push(3) b_fields_agree(2) by metis
  qed
  have "links m' b (map fst (A c)) 0"
  proof (rule links_new_prev)
    show "links (mem h) 0 (map fst (A c)) 0" using heap_okD(1) [OF ok c(2)] by (simp add: chain_def)
    show "spread (map fst (A c))" by (rule heap_spread [OF ok c(2)])
    show "b_prev m' (hd (map fst (A c))) = b" if "map fst (A c) \<noteq> []"
      using pq that list_head(2) [OF ok c(2)] by (simp add: hd_map)
    show "agree (mem h) m' ((\<Union>b \<in> set (map fst (A c)). {b..<b + 16}) -
        {hd (map fst (A c)) + 8..<hd (map fst (A c)) + 16})"
      using old_links list_head(2) [OF ok c(2)]
      by (cases "A c = []") (simp_all add: hd_map link_bytes_def)
  qed
  moreover have "b_prev m' b = 0"
    unfolding push(1) [symmetric] by (rule b_fields_agree(2), rule agree_subset [OF ag2]) auto
  moreover have "b_next m' b = ?q"
    unfolding push(2) [symmetric] by (rule b_fields_agree(1), rule agree_subset [OF ag2]) auto
  ultimately have "chain m' (head_of h' c) (map fst ((b, [(c - 48, True)]) # A c))"
    using list_head(1) [OF ok c(2)] by (simp add: chain_def h'_def head_of_set_head c(2) head_or_def)
  moreover have "block_ok m' c (b, [(c - 48, True)])"
    using hdr b cb by (simp add: block_ok_def extent_def)
  moreover have "disjoint_blocks (grown A c b)"
    unfolding grown_def by (rule disjoint_cons [OF _ c(2) _ new]) (use ok cb in \<open>simp_all add: heap_ok_def\<close>)
  moreover have "(b, c) \<notin> set (maps h)"
  proof
    assume "(b, c) \<in> set (maps h)"
    with os have "{b..<b + c} \<inter> {b..<b + c} = {}" unfolding mmap_ok_def by fast
    with cb show False by simp
  qed
  moreover have "mapped (grown A c b) = insert (b, c) (mapped A)"
  proof -
    have "(x, d) \<in> mapped (grown A c b) \<longleftrightarrow> (x, d) \<in> insert (b, c) (mapped A)" for x d
      using c(2) by (cases "d = c") (simp_all add: mapped_iff grown_def)
    then show ?thesis by auto
  qed
  ultimately have "heap_ok h' (grown A c b)"
    unfolding grown_def using ok new ag
    by (intro heap_ok_relist [OF ok c(2), of m' "area c b"])
      (auto simp: h'_def heap_ok_def head_of_set_head c(2))
  moreover have "grow_heap os h sz = (b + 16, h')"
    using grow_heap_eq [OF room c(1) _ os(2)] cb by (simp add: h'_def m'_def m2_def m1_def)
  ultimately show ?thesis
    using that [of h'] ag by (simp add: h'_def set_head_def)
qed

section \<open>Taking a region\<close>

lemma cells_split:
  assumes "(a, n, f) \<in> set (cells A)"
  obtains c us b xs ys vs where "c \<in> set classes" "A c = us @ (b, xs @ (n, f) # ys) # vs" "a = b + 16 + extent xs"
proof -
  obtain c x where c: "c \<in> set classes" "x \<in> set (A c)" "(a, n, f) \<in> set (placed (fst x + 16) (snd x))"
    using assms by (auto simp: set_cells)
  obtain xs ys where x: "snd x = xs @ (n, f) # ys" "a = fst x + 16 + extent xs" using c(3) by (rule placed_split)
  obtain us vs where "A c = us @ x # vs" using c(2) by (meson split_list)
  then have "A c = us @ (fst x, xs @ (n, f) # ys) # vs" by (simp add: x(1) [symmetric])
  with that c(1) x(2) show ?thesis by blast
qed

definition granted :: "nat \<Rightarrow> nat \<Rightarrow> nat" where
  "granted sz n = (if n < sz + 32 + MIN_SIZE then n else sz)"

lemma placed_taken:
  "(a, k, False) \<in> set (placed r (taken sz n)) \<longleftrightarrow> a = r \<and> k = granted sz n"
  by (auto simp: taken_def granted_def)

lemma in_use_taken:
  assumes c: "c \<in> set classes" and A: "A c = us @ (b, xs @ (n, True) # ys) # vs"
  shows "in_use (A(c := us @ (b, xs @ taken sz n @ ys) # vs)) =
    insert (b + 16 + extent xs + 32, granted sz n) (in_use A)"
proof -
  let ?R = "set (cells (A(c := us @ vs)))" and ?r = "b + 16 + extent xs"
  have "set (cells A) = ?R \<union> set (placed (b + 16) (xs @ (n, True) # ys))"
    using cells_edit [OF c, of A us "[(b, xs @ (n, True) # ys)]" vs] by (simp add: A [symmetric])
  then have old: "(a, k, False) \<in> set (cells A) \<longleftrightarrow> (a, k, False) \<in> ?R \<union> set (placed (b + 16) xs) \<union>
      set (placed (?r + 32 + n) ys)" for a k by (auto simp: placed_append)
  have "set (cells (A(c := us @ (b, xs @ taken sz n @ ys) # vs))) =
      ?R \<union> set (placed (b + 16) (xs @ taken sz n @ ys))"
    using cells_edit [OF c, of A us "[(b, xs @ taken sz n @ ys)]" vs] by simp
  then have new: "(a, k, False) \<in> set (cells (A(c := us @ (b, xs @ taken sz n @ ys) # vs))) \<longleftrightarrow>
      (a, k) = (?r, granted sz n) \<or> (a, k, False) \<in> set (cells A)" for a k
    unfolding old using placed_taken [of a k ?r sz n] by (auto simp: placed_append ac_simps)
  have "(p, k) \<in> in_use (A(c := us @ (b, xs @ taken sz n @ ys) # vs)) \<longleftrightarrow>
      (p, k) \<in> insert (?r + 32, granted sz n) (in_use A)" for p k
    unfolding in_use_iff new insert_iff by auto
  then show ?thesis by auto
qed

lemma granted_bounds:
  "sz \<le> n \<Longrightarrow> sz \<le> granted sz n" "sz \<le> n \<Longrightarrow> granted sz n \<le> n" "granted sz n < sz + 96"
  by (auto simp: granted_def MIN_SIZE_def)

lemma take_ok:
  assumes ok: "heap_ok h A" and c: "c \<in> set classes" and A: "A c = us @ (b, xs @ (n, True) # ys) # vs"
    and sz: "sz \<le> n"
  defines "r \<equiv> b + 16 + extent xs" and "A' \<equiv> A(c := us @ (b, xs @ taken sz n @ ys) # vs)"
  assumes h': "mem h' = set_free (split (mem h) r sz) r False" "maps h' = maps h"
    "blocks_mapped h' = blocks_mapped h" "head_of h' = head_of h"
  shows "heap_ok h' A'" "in_use A' = insert (r + 32, granted sz n) (in_use A)"
    "(r + 32, granted sz n) \<notin> in_use A" "{r + 32..<r + 32 + granted sz n} \<inter> bytes_of (in_use A) = {}"
    "agree (mem h) (mem h') (bytes_of (in_use A))"
proof -
  have bo: "block_ok (mem h) c (b, xs @ (n, True) # ys)" using heap_okD(2) [OF ok c] A by simp
  then have reg: "regions (mem h) (b + 16) 0 0 (xs @ (n, True) # ys)" "0 < b + 16"
      "b + 16 + extent (xs @ (n, True) # ys) + 32 \<le> 2 ^ 64"
    and cx: "16 + extent (xs @ (n, True) # ys) = c" by (auto simp: block_ok_def)
  note t = take_region [OF reg, of sz, folded r_def, folded h'(1)]
  have ext: "extent (xs @ taken sz n @ ys) = extent (xs @ (n, True) # ys)" by simp
  have new: "block_ok (mem h') c (b, xs @ taken sz n @ ys)"
    using bo t(1) joined_taken ext unfolding block_ok_def by simp
  have ag: "agree (mem h) (mem h') (- {b + 16..<b + c})"
  proof (rule agree_subset [OF t(2)])
    have "i \<in> {b + 16..<b + c}" if "i \<in> headers r (taken sz n @ ys)" for i
      using headers_bounds [OF that] cx by (simp add: r_def)
    then show "- {b + 16..<b + c} \<subseteq> - headers r (taken sz n @ ys)" by blast
  qed
  show ok': "heap_ok h' A'"
    unfolding A'_def by (rule heap_ok_edit [OF ok c A new ag]) (simp_all add: h')
  show iu: "in_use A' = insert (r + 32, granted sz n) (in_use A)"
    unfolding A'_def r_def by (rule in_use_taken) (rule c, rule A)
  have cell: "(r, n, True) \<in> set (cells A)"
    using c A by (auto simp: set_cells placed_append r_def intro!: bexI [of _ c])
  have apart: "{a..<a + 32 + k} \<inter> {r..<r + 32 + n} = {}" if "(a, k, False) \<in> set (cells A)" for a k
    by (rule cells_apart [OF ok that cell]) simp
  show "(r + 32, granted sz n) \<notin> in_use A"
  proof
    assume "(r + 32, granted sz n) \<in> in_use A"
    then have "(r, granted sz n, False) \<in> set (cells A)" by (simp add: in_use_iff)
    from apart [OF this] show False by simp
  qed
  show "{r + 32..<r + 32 + granted sz n} \<inter> bytes_of (in_use A) = {}"
  proof (rule equals0I)
    fix i assume i: "i \<in> {r + 32..<r + 32 + granted sz n} \<inter> bytes_of (in_use A)"
    then obtain a k where a: "(a, k, False) \<in> set (cells A)" "i \<in> {a + 32..<a + 32 + k}"
      by (auto simp: bytes_of_def in_use_iff)
    have "i \<in> {r..<r + 32 + n}" "i \<in> {a..<a + 32 + k}" using i a(2) granted_bounds(2) [OF sz] by auto
    with apart [OF a(1)] show False by blast
  qed
  have A'c: "A' c = us @ (b, xs @ taken sz n @ ys) # vs" by (simp add: A'_def)
  have "bytes_of (in_use A) \<subseteq> bytes_of (in_use A')" unfolding iu by (auto simp: bytes_of_def)
  moreover have "headers r (taken sz n @ ys) \<subseteq> headers (b + 16) (xs @ taken sz n @ ys)"
    unfolding r_def headers_append [of "b + 16" xs] by blast
  ultimately have "bytes_of (in_use A) \<subseteq> - headers r (taken sz n @ ys)"
    using in_use_off_other_headers [OF ok' c A'c] by blast
  then show "agree (mem h) (mem h') (bytes_of (in_use A))" by (rule agree_subset [OF t(2)])
qed

lemma tidy_upd:
  assumes "tidy A" "\<And>x. x \<in> set bl \<Longrightarrow> x \<in> set (A c) \<or> (\<exists>y \<in> set (snd x). \<not> snd y)" "c \<in> set classes"
  shows "tidy (A(c := bl))"
  unfolding tidy_def
proof (intro ballI)
  fix d x assume "d \<in> set classes" "x \<in> set ((A(c := bl)) d)"
  then show "\<exists>y \<in> set (snd x). \<not> snd y"
    using assms(1) assms(2) [of x] by (cases "d = c") (auto simp: tidy_def)
qed

lemma taken_used: "\<exists>y \<in> set (taken sz n). \<not> snd y"
  by (simp add: taken_def)

section \<open>The public function\<close>

text \<open>The size of the region asked for: a multiple of four, and at least \<open>MIN_SIZE\<close>.\<close>

definition need :: "nat \<Rightarrow> nat" where
  "need nb = (if ALIGN4 nb > MIN_SIZE then ALIGN4 nb else MIN_SIZE)"

lemma align4_ge: "0 < s \<Longrightarrow> s + 4 \<le> 2 ^ 64 \<Longrightarrow> s \<le> ALIGN4 s"
proof -
  assume s: "0 < s" "s + 4 \<le> 2 ^ 64"
  then have "(s + (2 ^ 64 - 1)) mod 2 ^ 64 = s - 1"
    by (simp add: mod_if)
  moreover have "(s - 1) div 4 * 4 + 4 < 2 ^ 64 \<and> s \<le> (s - 1) div 4 * 4 + 4" using s by simp linarith
  ultimately show ?thesis by (simp add: ALIGN4_def)
qed

lemma need_ge: "0 < s \<Longrightarrow> s + 4 \<le> 2 ^ 64 \<Longrightarrow> s \<le> need s"
  using align4_ge [of s] by (simp add: need_def)

lemma need_wraps: "2 ^ 64 - 3 \<le> s \<Longrightarrow> s < 2 ^ 64 \<Longrightarrow> need s = MIN_SIZE"
proof -
  assume s: "2 ^ 64 - 3 \<le> s" "s < 2 ^ 64"
  then have "(s + (2 ^ 64 - 1)) mod 2 ^ 64 = s - 1" by (simp add: mod_if)
  moreover have "(s - 1) div 4 * 4 + 4 = 2 ^ 64" using s by simp
  ultimately show ?thesis by (simp add: need_def ALIGN4_def)
qed

definition can_grow :: "os \<Rightarrow> heap \<Rightarrow> nat \<Rightarrow> bool" where
  "can_grow os h sz \<longleftrightarrow> blocks_mapped h \<noteq> MAX_BLOCKS \<and> size_that_fits sz \<noteq> 0 \<and>
     os_mmap os (maps h) (size_that_fits sz) \<noteq> None"

lemma grow_heap_fails: "\<not> can_grow os h sz \<Longrightarrow> grow_heap os h sz = (0, h)"
  by (auto simp: can_grow_def grow_heap_def Let_def split: option.splits)

text \<open>What a successful call does to the heap, with the pointer and the size of its region.\<close>

definition allocated :: "heap \<Rightarrow> (nat \<Rightarrow> blk list) \<Rightarrow> nat \<Rightarrow> nat \<Rightarrow> heap \<Rightarrow> (nat \<Rightarrow> blk list) \<Rightarrow> bool" where
  "allocated h A p n h' A' \<longleftrightarrow> heap_ok h' A' \<and> (tidy A \<longrightarrow> tidy A') \<and>
     in_use A' = insert (p, n) (in_use A) \<and> (p, n) \<notin> in_use A \<and>
     {p..<p + n} \<inter> bytes_of (in_use A) = {} \<and> agree (mem h) (mem h') (bytes_of (in_use A))"

lemma malloc_eq:
  "0 < nb \<Longrightarrow> malloc pol os h nb = (case find_free_region pol h (need nb) of None \<Rightarrow> None
   | Some r0 \<Rightarrow> let (region, h1) = (if r0 = 0 then grow_heap os h (need nb) else (r0, h))
       in if region = 0 then Some (0, h1)
          else Some (region + 32, h1\<lparr>mem := set_free (split (mem h1) region (need nb)) region False,
             amount_of_mallocs := amount_of_mallocs h1 + 1,
             requested_memory := requested_memory h1 + of_nat (need nb)\<rparr>))"
  unfolding malloc_def Let_def need_def [symmetric] REGION2PTR_def sizeof_region_def by simp

lemma malloc_found:
  assumes ok: "heap_ok h A" and sz: "0 < nb" and f: "find_free_region pol h (need nb) = Some r"
    "0 < r" "(r, n) \<in> room A (need nb)"
  obtains h' A' where "malloc pol os h nb = Some (r + 32, h')"
    "allocated h A (r + 32) (granted (need nb) n) h' A'"
proof -
  define h' where "h' = h\<lparr>mem := set_free (split (mem h) r (need nb)) r False,
    amount_of_mallocs := amount_of_mallocs h + 1, requested_memory := requested_memory h + of_nat (need nb)\<rparr>"
  have m: "malloc pol os h nb = Some (r + 32, h')"
    unfolding malloc_eq [OF sz] f(1) using f(2) by (simp add: h'_def)
  have cell: "(r, n, True) \<in> set (cells A)" "need nb \<le> n" using f(3) by (simp_all add: room_iff)
  obtain c us b xs ys vs where c: "c \<in> set classes" "A c = us @ (b, xs @ (n, True) # ys) # vs"
    "r = b + 16 + extent xs" using cell(1) by (rule cells_split)
  define A' where "A' = A(c := us @ (b, xs @ taken (need nb) n @ ys) # vs)"
  have hf: "mem h' = set_free (split (mem h) r (need nb)) r False" "maps h' = maps h"
    "blocks_mapped h' = blocks_mapped h" "head_of h' = head_of h"
    by (simp_all add: h'_def head_of_def fun_eq_iff)
  note t = take_ok [OF ok c(1,2) cell(2), folded c(3) A'_def, OF hf]
  have "tidy A'" if "tidy A"
    unfolding A'_def using that c taken_used [of "need nb" n] by (intro tidy_upd) auto
  with t have "allocated h A (r + 32) (granted (need nb) n) h' A'" by (simp add: allocated_def)
  with m show ?thesis by (rule that)
qed

lemma in_use_grown: "c \<in> set classes \<Longrightarrow> in_use (grown A c b) = in_use A"
proof -
  assume c: "c \<in> set classes"
  have "set (cells (grown A c b)) = set (cells A) \<union> {(b + 16, c - 48, True)}"
    using cells_edit [OF c, of A "[]" "[(b, [(c - 48, True)])]" "A c"] by (simp add: grown_def)
  then have "(p, n) \<in> in_use (grown A c b) \<longleftrightarrow> (p, n) \<in> in_use A" for p n by (simp add: in_use_iff)
  then show ?thesis by auto
qed

lemma malloc_grows:
  assumes ok: "heap_ok h A" "mmap_ok os" and sz: "0 < nb"
    and f: "find_free_region pol h (need nb) = Some 0" and g: "can_grow os h (need nb)"
  obtains p n h' A' where "malloc pol os h nb = Some (p, h')" "0 < p" "need nb \<le> n" "n < need nb + 96"
    "allocated h A p n h' A'"
proof -
  define c where "c = size_that_fits (need nb)"
  have c: "c \<in> set classes" "need nb \<le> c - 48"
    using size_that_fits_cases [of "need nb"] g by (auto simp: can_grow_def c_def)
  obtain b where b: "os_mmap os (maps h) c = Some b" using g by (auto simp: can_grow_def c_def)
  have room: "blocks_mapped h \<noteq> MAX_BLOCKS" using g by (simp add: can_grow_def)
  obtain h1 where h1: "grow_heap os h (need nb) = (b + 16, h1)" "heap_ok h1 (grown A c b)"
    "agree (mem h) (mem h1) (- (area c b \<union> link_bytes (map fst (A c))))"
    by (rule grow_heap_ok [OF ok b c_def c(1) room])
  define h' where "h' = h1\<lparr>mem := set_free (split (mem h1) (b + 16) (need nb)) (b + 16) False,
    amount_of_mallocs := amount_of_mallocs h1 + 1, requested_memory := requested_memory h1 + of_nat (need nb)\<rparr>"
  have m: "malloc pol os h nb = Some (b + 16 + 32, h')"
    unfolding malloc_eq [OF sz] f option.case h1(1) by (simp add: h'_def)
  let ?A' = "(grown A c b)(c := (b, taken (need nb) (c - 48)) # A c)"
  have gc: "grown A c b c = [] @ (b, [] @ (c - 48, True) # []) # A c" by (simp add: grown_def)
  have hf: "mem h' = set_free (split (mem h1) (b + 16 + extent []) (need nb)) (b + 16 + extent []) False"
    "maps h' = maps h1" "blocks_mapped h' = blocks_mapped h1" "head_of h' = head_of h1"
    by (simp_all add: h'_def head_of_def fun_eq_iff)
  note t0 = take_ok [OF h1(2) c(1) gc c(2) hf]
  let ?g = "granted (need nb) (c - 48)"
  have t: "heap_ok h' ?A'" "in_use ?A' = insert (b + 16 + 32, ?g) (in_use A)"
    "(b + 16 + 32, ?g) \<notin> in_use A" "{b + 16 + 32..<b + 16 + 32 + ?g} \<inter> bytes_of (in_use A) = {}"
    "agree (mem h1) (mem h') (bytes_of (in_use A))"
    using t0 by (simp_all only: in_use_grown [OF c(1)] append_Nil append_Nil2 extent_simps add_0_right not_False_eq_True)
  have off: "bytes_of (in_use A) \<subseteq> - (area c b \<union> link_bytes (map fst (A c)))"
  proof -
    have "bytes_of (in_use A) \<inter> link_bytes (map fst (A c)) = {}" by (rule in_use_off_list [OF ok(1) c(1)])
    moreover have "i \<notin> area c b" if i: "i \<in> bytes_of (in_use A)" for i
    proof -
      obtain a k where a: "(a, k, False) \<in> set (cells A)" "i \<in> {a + 32..<a + 32 + k}"
        using i by (auto simp: bytes_of_def in_use_iff)
      obtain d x where d: "d \<in> set classes" "x \<in> set (A d)" "(a, k, False) \<in> set (placed (fst x + 16) (snd x))"
        using a(1) by (auto simp: set_cells)
      have "i \<in> area d (fst x)" using block_cells [OF ok(1) d] a(2) by (auto simp: area_def)
      with new_block_apart [OF ok(1,2) b d(1,2)] show ?thesis by blast
    qed
    ultimately show ?thesis by blast
  qed
  have "agree (mem h) (mem h') (bytes_of (in_use A))"
    by (rule agree_trans [OF agree_subset [OF h1(3) off] t(5)])
  moreover have "tidy ?A'" if "tidy A"
  proof -
    have "tidy (A(c := (b, taken (need nb) (c - 48)) # A c))"
      using that c(1) taken_used [of "need nb" "c - 48"] by (intro tidy_upd) auto
    then show ?thesis by (simp add: grown_def)
  qed
  ultimately have "allocated h A (b + 16 + 32) (granted (need nb) (c - 48)) h' ?A'"
    using t unfolding allocated_def by blast
  then show ?thesis using that [OF m] granted_bounds(1) [OF c(2)] granted_bounds(3) by auto
qed

lemma malloc_outcome:
  assumes ok: "heap_ok h A" and os: "mmap_ok os" and nb: "0 < nb"
  shows "if room A (need nb) = {} \<and> \<not> can_grow os h (need nb) then malloc pol os h nb = Some (0, h)
    else \<exists>p n h' A'. malloc pol os h nb = Some (p, h') \<and> 0 < p \<and> need nb \<le> n \<and> n < need nb + 96 \<and>
      allocated h A p n h' A'"
proof -
  obtain r where r: "find_free_region pol h (need nb) = Some r"
    "(r = 0 \<and> room A (need nb) = {}) \<or> (0 < r \<and> r \<in> fst ` room A (need nb))"
    using find_free_region_ok [OF ok, of pol "need nb"] by blast
  show ?thesis
  proof (cases "r = 0")
    case True
    then have f: "find_free_region pol h (need nb) = Some 0" "room A (need nb) = {}" using r by simp_all
    show ?thesis
    proof (cases "can_grow os h (need nb)")
      case False
      then have "malloc pol os h nb = Some (0, h)" by (simp add: malloc_eq [OF nb] f(1) grow_heap_fails)
      with f(2) False show ?thesis by simp
    next
      case True
      obtain p n h' A' where "malloc pol os h nb = Some (p, h')" "0 < p" "need nb \<le> n" "n < need nb + 96"
        "allocated h A p n h' A'" by (rule malloc_grows [OF ok os nb f(1) True])
      then show ?thesis using True by auto
    qed
  next
    case False
    then obtain n where n: "0 < r" "(r, n) \<in> room A (need nb)" using r(2) by auto
    obtain h' A' where m: "malloc pol os h nb = Some (r + 32, h')"
      "allocated h A (r + 32) (granted (need nb) n) h' A'" by (rule malloc_found [OF ok nb r(1) n])
    have "need nb \<le> n" using n(2) by (simp add: room_iff)
    then have "need nb \<le> granted (need nb) n" "granted (need nb) n < need nb + 96"
      using granted_bounds [of "need nb" n] by auto
    moreover have "room A (need nb) \<noteq> {}" using n(2) by blast
    ultimately show ?thesis using m by (simp only: simp_thms if_False) (intro exI conjI; simp)
  qed
qed

text \<open>
  C6. \<open>malloc\<close> always returns. If the heap has a free region that fits, or can grow, it returns a
  pointer to at least the bytes asked for, and wastes fewer than 96 beyond the rounded request:
  the heap is well formed again, the new region is
  added to those in use, overlaps none of them, and their contents are as before. Otherwise it
  returns null and changes nothing. This holds under both policies, for requests that the
  rounding to a multiple of four does not wrap around.
\<close>

theorem malloc_allocates:
  assumes ok: "heap_ok h A" and os: "mmap_ok os" and nb: "0 < nb" "nb + 4 \<le> 2 ^ 64"
  shows "if room A (need nb) = {} \<and> \<not> can_grow os h (need nb) then malloc pol os h nb = Some (0, h)
    else \<exists>p n h' A'. malloc pol os h nb = Some (p, h') \<and> 0 < p \<and> nb \<le> n \<and> n < need nb + 96 \<and>
      allocated h A p n h' A'"
proof -
  have ge: "nb \<le> need nb" by (rule need_ge [OF nb])
  note out = malloc_outcome [OF ok os nb(1), of pol]
  show ?thesis
  proof (cases "room A (need nb) = {} \<and> \<not> can_grow os h (need nb)")
    case True
    with out show ?thesis by simp
  next
    case False
    then obtain p n h' A' where "malloc pol os h nb = Some (p, h')" "0 < p" "need nb \<le> n" "n < need nb + 96"
      "allocated h A p n h' A'"
      using out [unfolded if_not_P [OF False]] by blast
    then show ?thesis unfolding if_not_P [OF False] using le_trans [OF ge] by blast
  qed
qed

text \<open>
  A request of \<open>2 ^ 64 - 3\<close> bytes or more wraps to zero when it is rounded, so \<open>malloc\<close> does
  not fail: whenever a small region can be had it returns a pointer to fewer than 160 bytes.
\<close>

theorem malloc_wraps:
  assumes "heap_ok h A" "mmap_ok os" "2 ^ 64 - 3 \<le> nb" "nb < 2 ^ 64"
    "room A MIN_SIZE \<noteq> {} \<or> can_grow os h MIN_SIZE"
  shows "\<exists>p n h' A'. malloc pol os h nb = Some (p, h') \<and> 0 < p \<and> n < 160 \<and> allocated h A p n h' A'"
proof -
  have "need nb = MIN_SIZE" by (rule need_wraps [OF assms(3,4)])
  then show ?thesis
    using malloc_outcome [OF assms(1,2), of nb pol] assms(3,5) unfolding MIN_SIZE_def
    by (cases "room A 64 = {} \<and> \<not> can_grow os h 64") (auto simp: MIN_SIZE_def)
qed

text \<open>A system that places every mapping after the last one, and an empty heap on it.\<close>

definition top_of :: "(nat \<times> nat) list \<Rightarrow> nat" where
  "top_of ms = foldr (\<lambda>x t. max t (fst x + snd x)) ms 65536"

definition top_os :: os where
  "top_os = \<lparr>os_mmap = (\<lambda>ms n. if top_of ms + n + 32 \<le> 2 ^ 64 then Some (top_of ms) else None),
     os_munmap = (\<lambda>ms b n. (b, n) \<in> set ms)\<rparr>"

lemma top_of_ge: "(b, k) \<in> set ms \<Longrightarrow> b + k \<le> top_of ms"
  by (induction ms) (auto simp: top_of_def le_max_iff_disj)

lemma top_of_pos: "0 < top_of ms"
  by (induction ms) (auto simp: top_of_def less_max_iff_disj)

lemma top_os_mmap: "mmap_ok top_os"
proof -
  have "{top_of ms..<top_of ms + n} \<inter> {b..<b + k} = {}" if "(b, k) \<in> set ms" for ms n b k
    using top_of_ge [OF that] by auto
  then show ?thesis by (auto simp: mmap_ok_def top_os_def top_of_pos split: if_splits)
qed

definition empty_heap :: heap where
  "empty_heap = \<lparr>amount_of_mallocs = 0, amount_of_frees = 0, requested_memory = 0, blocks_mapped = 0,
     small_blocks = 0, medium_blocks = 0, large_blocks = 0, mem = (\<lambda>_. 0), maps = []\<rparr>"

lemma empty_heap_ok: "heap_ok empty_heap (\<lambda>_. [])"
  by (simp add: heap_ok_def disjoint_blocks_def chain_def head_or_def head_of_def empty_heap_def mapped_def)

lemma malloc_allocates_witness:
  "\<exists>p n h' A'. malloc BEST_FIT top_os empty_heap 100 = Some (p, h') \<and> 0 < p \<and> 100 \<le> n \<and>
     n < need 100 + 96 \<and> allocated empty_heap (\<lambda>_. []) p n h' A'"
proof -
  have "can_grow top_os empty_heap (need 100)"
    by (simp add: can_grow_def empty_heap_def top_os_def top_of_def need_def ALIGN4_def size_that_fits_def Let_def malloc_consts)
  then show ?thesis
    using malloc_allocates [OF empty_heap_ok top_os_mmap, of 100 BEST_FIT] by simp
qed

lemma malloc_wraps_witness:
  "\<exists>p n h' A'. malloc FIRST_FIT top_os empty_heap 18446744073709551615 = Some (p, h') \<and> 0 < p \<and> n < 160 \<and>
     allocated empty_heap (\<lambda>_. []) p n h' A'"
proof (rule malloc_wraps [OF empty_heap_ok top_os_mmap])
  have "can_grow top_os empty_heap MIN_SIZE"
    by (simp add: can_grow_def empty_heap_def top_os_def top_of_def size_that_fits_def Let_def malloc_consts)
  then show "room (\<lambda>_. []) MIN_SIZE \<noteq> {} \<or> can_grow top_os empty_heap MIN_SIZE" ..
qed simp_all

end
