(* ===== verification/MallocFree.thy ===== *)
theory MallocFree
  imports MallocAlloc
begin

text \<open>
  Release. The region joins its free neighbours, and a block with nothing left in use is taken
  out of its list and unmapped. \<open>munmap_ok\<close> is what the code relies on of \<open>munmap\<close>: it succeeds on
  a mapping that exists.
\<close>

definition munmap_ok :: "os \<Rightarrow> bool" where
  "munmap_ok os \<longleftrightarrow> (\<forall>ms b k. (b, k) \<in> set ms \<longrightarrow> os_munmap os ms b k)"

section \<open>Unlinking a block\<close>

text \<open>The links written when a block between \<open>pv\<close> and \<open>q\<close> leaves its list.\<close>

definition skip_links :: "mem \<Rightarrow> nat \<Rightarrow> nat \<Rightarrow> mem" where
  "skip_links m pv q = (let m1 = (if q \<noteq> 0 then set_b_prev m q pv else m)
     in if pv \<noteq> 0 then set_b_next m1 pv q else m1)"

lemma skip_links_ok:
  assumes "pv < 2 ^ 64" "q < 2 ^ 64" "pv \<noteq> 0 \<longrightarrow> q \<noteq> 0 \<longrightarrow> pv + 16 \<le> q \<or> q + 16 \<le> pv"
  shows "q \<noteq> 0 \<Longrightarrow> b_prev (skip_links m pv q) q = pv" "pv \<noteq> 0 \<Longrightarrow> b_next (skip_links m pv q) pv = q"
    "agree m (skip_links m pv q) (- ((if q = 0 then {} else {q + 8..<q + 16}) \<union> (if pv = 0 then {} else {pv..<pv + 8})))"
proof -
  define m1 where "m1 = (if q \<noteq> 0 then set_b_prev m q pv else m)"
  define m2 where "m2 = (if pv \<noteq> 0 then set_b_next m1 pv q else m1)"
  have e: "skip_links m pv q = m2" by (simp add: skip_links_def m1_def m2_def Let_def)
  show "b_next (skip_links m pv q) pv = q" if "pv \<noteq> 0" using that assms(2) by (simp add: e m2_def)
  have "agree m1 m2 {q + 8..<q + 16}" if "q \<noteq> 0"
    using assms(3) that by (auto simp: m2_def intro!: agree_b_fields)
  then show "b_prev (skip_links m pv q) q = pv" if "q \<noteq> 0"
    using that assms(1) b_fields_agree(2) [of m1 m2 q] by (simp add: e m1_def)
  let ?A = "- ((if q = 0 then {} else {q + 8..<q + 16}) \<union> (if pv = 0 then {} else {pv..<pv + 8}))"
  have "agree m m1 ?A" "agree m1 m2 ?A" by (auto simp: m1_def m2_def intro!: agree_b_fields)
  then show "agree m (skip_links m pv q) ?A" unfolding e by (rule agree_trans)
qed

lemma unmap_eq:
  fixes c :: nat
  assumes "b_next (mem h) b = q" "b_prev (mem h) b = pv" "q \<noteq> 0 \<longrightarrow> q + 16 \<le> b \<or> b + 16 \<le> q"
  defines "h2 \<equiv> (if pv = 0 then set_head h c q else h)\<lparr>mem := skip_links (mem h) pv q\<rparr>"
  assumes "os_munmap os (maps h) b c"
  shows "unmap os h b c = h2\<lparr>blocks_mapped := blocks_mapped h - 1, maps := remove1 (b, c) (maps h)\<rparr>"
proof -
  let ?m1 = "if q \<noteq> 0 then set_b_prev (mem h) q pv else mem h"
  have off: "agree (mem h) ?m1 {b..<b + 16}" using assms(3) by (auto intro!: agree_b_fields)
  have n: "b_next ?m1 b = q" unfolding assms(1) [symmetric]
    by (rule b_fields_agree(1), rule agree_subset [OF off [unfolded assms(1) [symmetric]]]) auto
  have p: "b_prev ?m1 b = pv" unfolding assms(2) [symmetric]
    by (rule b_fields_agree(2), rule agree_subset [OF off [unfolded assms(2) [symmetric]]]) auto
  show ?thesis
    using assms(5) unfolding unmap_def Let_def assms(1,2) n p
    by (auto simp: h2_def skip_links_def set_head_def)
qed

lemma head_of_update' [simp]:
  "head_of (h\<lparr>mem := m, blocks_mapped := k, maps := ms\<rparr>) d = head_of h d"
  by (simp add: head_of_def)

lemma agree_off:
  "agree m m' (- (X \<union> Y)) \<Longrightarrow> L \<inter> X = {} \<Longrightarrow> agree m m' (L - Y)"
  "agree m m' (- (X \<union> Y)) \<Longrightarrow> L \<inter> Y = {} \<Longrightarrow> agree m m' (L - X)"
  by (auto simp: agree_def)

lemma path_nodes:
  assumes "links m 0 (us @ b # vs) 0"
  shows "b_next m b = head_or vs 0" "b_prev m b = last_or us 0"
  using assms by (simp_all add: links_append)

lemma node_values:
  assumes ok: "heap_ok h A" and c: "c \<in> set classes" and x: "x \<in> set (map fst (A c))"
  shows "0 < x" "x < 2 ^ 64"
  using heap_okD(2) [OF ok c] x by (fastforce simp: block_ok_def)+

lemma unmap_ok:
  assumes ok: "heap_ok h A" and c: "c \<in> set classes" and A: "A c = us @ (b, xs) # vs" and os: "munmap_ok os"
  shows "heap_ok (unmap os h b c) (A(c := us @ vs))"
    "agree (mem h) (mem (unmap os h b c)) (- link_bytes (map fst (A c)))"
    "blocks_mapped (unmap os h b c) = blocks_mapped h - 1" "amount_of_frees (unmap os h b c) = amount_of_frees h"
proof -
  let ?us = "map fst us" and ?vs = "map fst vs"
  define q where "q = head_or ?vs 0"
  define pv where "pv = last_or ?us 0"
  define m' where "m' = skip_links (mem h) pv q"
  have nodes: "map fst (A c) = ?us @ b # ?vs" by (simp add: A)
  have l: "links (mem h) 0 (?us @ b # ?vs) 0" "head_of h c = head_or (?us @ b # ?vs) 0"
    using heap_okD(1) [OF ok c] by (simp_all add: chain_def nodes)
  have bn: "b_next (mem h) b = q" and bp: "b_prev (mem h) b = pv"
    using path_nodes [OF l(1)] by (simp_all add: q_def pv_def)
  have sp: "spread (?us @ b # ?vs)" using heap_spread [OF ok c] by (simp add: nodes)
  have qv: "?vs \<noteq> [] \<Longrightarrow> q = hd ?vs \<and> q \<in> set ?vs" and q0: "?vs = [] \<Longrightarrow> q = 0"
    by (cases vs; simp add: q_def head_or_def)+
  have pu: "?us \<noteq> [] \<Longrightarrow> pv = last ?us \<and> pv \<in> set ?us" and p0: "?us = [] \<Longrightarrow> pv = 0"
    using last_in_set [of ?us] by (simp_all only: pv_def last_or_def if_False if_True simp_thms)
  have val: "0 < x \<and> x < 2 ^ 64" if "x \<in> set ?us \<union> set ?vs" for x
    using node_values [OF ok c, of x] that by (auto simp: nodes)
  have pq: "pv < 2 ^ 64" "q < 2 ^ 64"
    using val [of pv] val [of q] qv q0 pu p0 by (cases "?us = []"; cases "?vs = []"; simp)+
  have far: "x + 16 \<le> y \<or> y + 16 \<le> x" if "x \<in> set (?us @ b # ?vs)" "y \<in> set (?us @ b # ?vs)" "x \<noteq> y" for x y
    using conjunct2 [OF sp [unfolded spread_def]] that by blast
  have qb: "q \<noteq> 0 \<longrightarrow> q + 16 \<le> b \<or> b + 16 \<le> q"
    using far [of q b] qv q0 sp by (cases "?vs = []") (auto simp: spread_def)
  have pvq: "pv \<noteq> 0 \<longrightarrow> q \<noteq> 0 \<longrightarrow> pv + 16 \<le> q \<or> q + 16 \<le> pv"
  proof (intro impI)
    assume "pv \<noteq> 0" "q \<noteq> 0"
    then have "pv \<in> set ?us" "q \<in> set ?vs" using pu p0 qv q0 by metis+
    moreover from this have "pv \<noteq> q" using sp unfolding spread_def distinct_append by (meson disjoint_iff distinct.simps(2) list.set_intros(2))
    ultimately show "pv + 16 \<le> q \<or> q + 16 \<le> pv" using far [of pv q] by simp
  qed
  note s = skip_links_ok [OF pq pvq, of "mem h", folded m'_def]
  have mapped: "(b, c) \<in> set (maps h)" using ok c A by (simp add: heap_ok_def mapped_iff)
  then have un: "os_munmap os (maps h) b c" using os by (auto simp: munmap_ok_def)
  define h' where "h' = (if pv = 0 then set_head h c q else h)\<lparr>mem := m', blocks_mapped := blocks_mapped h - 1,
    maps := remove1 (b, c) (maps h)\<rparr>"
  have e: "unmap os h b c = h'" using unmap_eq [OF bn bp qb un] by (simp add: h'_def m'_def)
  have written: "(if q = 0 then {} else {q + 8..<q + 16}) \<union> (if pv = 0 then {} else {pv..<pv + 8}) \<subseteq>
      link_bytes (map fst (A c))"
  proof -
    have in_links: "{x..<x + 16} \<subseteq> link_bytes (map fst (A c))" if "x \<in> set ?us \<union> set ?vs" for x
      using that unfolding nodes link_bytes_def by auto
    have "{q + 8..<q + 16} \<subseteq> {q..<q + 16}" "{pv..<pv + 8} \<subseteq> {pv..<pv + 16}" by auto
    moreover have "q = 0 \<or> {q..<q + 16} \<subseteq> link_bytes (map fst (A c))"
      using qv q0 in_links [of q] by (cases "?vs = []") (simp, blast)
    moreover have "pv = 0 \<or> {pv..<pv + 16} \<subseteq> link_bytes (map fst (A c))"
      using pu p0 in_links [of pv] by (cases "?us = []") (simp, blast)
    ultimately show ?thesis by (cases "q = 0"; cases "pv = 0") (simp_all only: if_True if_False simp_thms, auto)
  qed
  show ag: "agree (mem h) (mem (unmap os h b c)) (- link_bytes (map fst (A c)))"
    unfolding e using agree_subset [OF s(3)] written by (simp add: h'_def)
  show "blocks_mapped (unmap os h b c) = blocks_mapped h - 1" "amount_of_frees (unmap os h b c) = amount_of_frees h"
    by (simp_all add: e h'_def set_head_def)
  have off: "{x..<x + 16} \<inter> {y..<y + 16} = {}" if "x \<in> set ?us" "y \<in> set ?vs" for x y
    using that sp by (intro spread_off [OF sp]) (auto simp: spread_def)
  have lu: "links m' 0 ?us q"
  proof (rule links_new_next)
    show "links (mem h) 0 ?us b" using l(1) by (simp add: links_append head_or_def [of "b # _"])
    show "spread ?us" using sp spread_append by blast
    show "b_next m' (last ?us) = q" if "?us \<noteq> []" 
    proof -
      have "pv \<noteq> 0" using val [of pv] pu [OF that] by blast
      with s(2) pu [OF that] show ?thesis by simp
    qed
    have "(\<Union>x \<in> set ?us. {x..<x + 16}) \<inter> {q + 8..<q + 16} = {}" if "q \<noteq> 0"
    proof -
      have "q \<in> set ?vs" using that qv q0 by blast
      moreover have "{q + 8..<q + 16} \<subseteq> {q..<q + 16}" by auto
      ultimately show ?thesis using off by blast
    qed
    then have x: "(\<Union>x \<in> set ?us. {x..<x + 16}) \<inter> (if q = 0 then {} else {q + 8..<q + 16}) = {}" by simp
    show "agree (mem h) m' ((\<Union>x \<in> set ?us. {x..<x + 16}) - {last ?us..<last ?us + 8})"
    proof (cases "?us = []")
      case False
      then have "pv \<noteq> 0" "last ?us = pv" using pu val [of pv] by blast+
      then show ?thesis using agree_off(1) [OF s(3) x] by simp
    qed (simp add: agree_def)
  qed
  have lv: "links m' pv ?vs 0"
  proof (rule links_new_prev)
    show "links (mem h) b ?vs 0" using l(1) by (simp add: links_append)
    show "spread ?vs" using conjunct2 [OF spread_append [OF sp]] spread_append [of "[b]" ?vs] by simp
    show "b_prev m' (hd ?vs) = pv" if "?vs \<noteq> []" 
    proof -
      have "q \<noteq> 0" using val [of q] qv [OF that] by blast
      with s(1) qv [OF that] show ?thesis by simp
    qed
    have "(\<Union>x \<in> set ?vs. {x..<x + 16}) \<inter> {pv..<pv + 8} = {}" if "pv \<noteq> 0"
    proof -
      have "pv \<in> set ?us" using that pu p0 by blast
      moreover have "{pv..<pv + 8} \<subseteq> {pv..<pv + 16}" by auto
      ultimately show ?thesis using off by blast
    qed
    then have x: "(\<Union>x \<in> set ?vs. {x..<x + 16}) \<inter> (if pv = 0 then {} else {pv..<pv + 8}) = {}" by simp
    show "agree (mem h) m' ((\<Union>x \<in> set ?vs. {x..<x + 16}) - {hd ?vs + 8..<hd ?vs + 16})"
    proof (cases "?vs = []")
      case False
      then have "q \<noteq> 0" "hd ?vs = q" using qv val [of q] by blast+
      then show ?thesis using agree_off(2) [OF s(3) x] by simp
    qed (simp add: agree_def)
  qed
  have hd': "head_of h' c = head_or (?us @ ?vs) 0"
  proof (cases us)
    case Nil
    then show ?thesis using p0 by (simp add: h'_def head_of_set_head c q_def)
  next
    case (Cons u us')
    then have "pv \<noteq> 0" using pu val [of pv] by blast
    then show ?thesis using Cons l(2) by (simp add: h'_def head_or_def)
  qed
  have ch: "chain m' (head_of h' c) (map fst (us @ vs))"
    using lu lv hd' by (simp add: chain_def links_append q_def pv_def)
  have dist: "distinct (maps h)" using ok by (simp add: heap_ok_def)
  have inj: "b \<notin> fst ` set (us @ vs)" using sp by (auto simp: spread_def)
  have mm: "set (maps h') = mapped (A(c := us @ vs))"
  proof -
    have "(x, d) \<in> set (maps h) - {(b, c)} \<longleftrightarrow> (x, d) \<in> mapped (A(c := us @ vs))" for x d
      using ok inj c by (cases "d = c") (auto simp: heap_ok_def mapped_iff A)
    then show ?thesis using dist by (auto simp: h'_def)
  qed
  have len: "length (remove1 (b, c) (maps h)) = blocks_mapped h - 1"
    using mapped ok by (simp add: length_remove1 heap_ok_def)
  show "heap_ok (unmap os h b c) (A(c := us @ vs))"
    unfolding e
  proof (rule heap_ok_relist [OF ok c, of m' "{}"])
    show "agree (mem h) m' (- ({} \<union> link_bytes (map fst (A c))))" using ag by (simp add: e h'_def)
    show "disjoint_blocks (A(c := us @ vs))"
      by (rule disjoint_drop) (use ok A in \<open>auto simp: heap_ok_def\<close>)
    show "head_of h' d = head_of h d" if "d \<in> set classes" "d \<noteq> c" for d
      using that c head_of_set_head [OF c that(1), of h q] by (simp add: h'_def)
  qed (use ch mm dist len A in \<open>auto simp: h'_def\<close>)
qed

section \<open>Joining the neighbours\<close>

lemma join_prev_used:
  "join_prev xs n = (xs', n') \<Longrightarrow> (a, k, False) \<in> set (placed r xs') \<longleftrightarrow> (a, k, False) \<in> set (placed r xs)"
proof (cases xs rule: rev_cases)
  case (snoc ys y)
  assume "join_prev xs n = (xs', n')"
  then show ?thesis by (cases y) (auto simp: snoc join_prev_def placed_append split: if_splits)
qed (simp add: join_prev_def)

lemma join_next_used:
  "join_next n ys = (n', ys') \<Longrightarrow> (a, k, False) \<in> set (placed (r + n') ys') \<longleftrightarrow> (a, k, False) \<in> set (placed (r + n) ys)"
proof (cases ys)
  case (Cons y zs)
  assume "join_next n ys = (n', ys')"
  then show ?thesis by (cases y) (auto simp: Cons join_next_def ac_simps split: bool.splits)
qed (simp add: join_next_def)

lemma last_at_pos: "xs \<noteq> [] \<Longrightarrow> 0 < r \<Longrightarrow> 0 < last_at r pv xs"
proof (induction r pv xs rule: last_at.induct)
  case (2 r pv n f xs)
  then show ?case by (cases "xs = []") simp_all
qed simp

lemma free_eq:
  assumes "p = a + 32" "r_magic (mem h) a = MAGIC_NUMBER" "\<not> r_free (mem h) a"
    "coalesce (set_free (mem h) a True) a = (cur, m)"
  defines "h1 \<equiv> h\<lparr>mem := m, amount_of_frees := amount_of_frees h + 1\<rparr>"
  shows "free os h p = (if r_next m cur = 0 \<and> r_prev m cur = 0
     then unmap os h1 (cur - 16) (r_size m cur + 48) else h1)"
  using assms(1-4) unfolding free_def Let_def PTR2REGION_def REGION2BLOCK_def sizeof_region_def sizeof_block_def h1_def
  by (simp add: add.assoc)

text \<open>The heap in which the region and its free neighbours are one.\<close>

lemma release_ok:
  assumes ok: "heap_ok h A" and c: "c \<in> set classes" and A: "A c = us @ (b, xs @ (n, False) # ys) # vs"
    and j: "join_prev xs n = (xs', n1)" "join_next n1 ys = (n2, ys')"
  defines "a \<equiv> b + 16 + extent xs" and "cur \<equiv> b + 16 + extent xs'" and "A' \<equiv> A(c := us @ (b, xs' @ (n2, True) # ys') # vs)"
  obtains m where "coalesce (set_free (mem h) a True) a = (cur, m)"
    "heap_ok (h\<lparr>mem := m, amount_of_frees := k\<rparr>) A'" "agree (mem h) m (bytes_of (in_use A))"
    "in_use A' = in_use A - {(a + 32, n)}" "cur \<le> a" "a + 32 + n \<le> cur + 32 + n2"
    "regions m (b + 16) 0 0 (xs' @ (n2, True) # ys')" "r_magic (mem h) a = MAGIC_NUMBER" "\<not> r_free (mem h) a"
proof -
  have bo: "block_ok (mem h) c (b, xs @ (n, False) # ys)" using heap_okD(2) [OF ok c] A by simp
  then have reg: "regions (mem h) (b + 16) 0 0 (xs @ (n, False) # ys)" and b: "0 < b + 16"
    and top: "b + 16 + extent (xs @ (n, False) # ys) + 32 \<le> 2 ^ 64"
    and cx: "16 + extent (xs @ (n, False) # ys) = c" and jo: "joined (xs @ (n, False) # ys)"
    by (auto simp: block_ok_def)
  have tail: "regions (mem h) a (last_at (b + 16) 0 xs) 0 ((n, False) # ys)"
    using reg by (simp add: regions_append a_def)
  then have hd: "r_magic (mem h) a = MAGIC_NUMBER" "\<not> r_free (mem h) a" by (simp_all add: hdr_def)
  note sf = regions_set_free [OF tail, of True]
  have off: "agree (mem h) (set_free (mem h) a True) (headers (b + 16) xs)"
    by (rule agree_subset [OF sf(2)]) (use headers_bounds [of _ "b + 16" xs] in \<open>fastforce simp: a_def\<close>)
  have reg1: "regions (set_free (mem h) a True) (b + 16) 0 0 (xs @ (n, True) # ys)"
    by (rule regions_edit [OF reg _ _ sf(1) [unfolded a_def] off [unfolded a_def], folded a_def]) simp_all
  obtain m where m: "coalesce (set_free (mem h) a True) a = (cur, m)"
    "regions m (b + 16) 0 0 (xs' @ (n2, True) # ys')"
    "agree (set_free (mem h) a True) m (- headers (b + 16) (xs @ (n, True) # ys))"
    using coalesce_regions [OF reg1 b _ j] top by (auto simp: a_def cur_def)
  let ?H = "headers (b + 16) (xs @ (n, False) # ys)"
  have H: "headers (b + 16) (xs @ (n, True) # ys) = ?H" by (simp add: headers_append)
  have "a + 4 \<in> ?H" by (simp add: headers_append a_def)
  then have ag: "agree (mem h) m (- ?H)"
    by (intro agree_trans [OF agree_subset [OF sf(2)] m(3) [unfolded H]]) auto
  have ext: "extent xs' + n1 = extent xs + n" "n2 + extent ys' = n1 + extent ys"
    using join_prev_extent [OF j(1)] join_next_extent [OF j(2)] by simp_all
  have new: "block_ok m c (b, xs' @ (n2, True) # ys')"
    using bo m(2) ext joined_release [OF jo j] by (simp add: block_ok_def)
  have ag': "agree (mem h) m (- {b + 16..<b + c})"
  proof (rule agree_subset [OF ag])
    have "?H \<subseteq> {b + 16..<b + c}" by (rule headers_area [OF bo])
    then show "- {b + 16..<b + c} \<subseteq> - ?H" by blast
  qed
  have ok': "heap_ok (h\<lparr>mem := m, amount_of_frees := k\<rparr>) A'"
    unfolding A'_def by (rule heap_ok_edit [OF ok c A new ag']) (simp_all add: head_of_def fun_eq_iff)
  have le: "cur \<le> a" "a + 32 + n \<le> cur + 32 + n2"
  proof -
    have "n \<le> n1" "n1 \<le> n2" using j
      by (auto simp: join_prev_def join_next_def split: if_splits list.splits prod.splits bool.splits)
    then show "cur \<le> a" "a + 32 + n \<le> cur + 32 + n2" using ext(1) by (simp_all add: a_def cur_def)
  qed
  have iu: "in_use A' = in_use A - {(a + 32, n)}"
  proof -
    let ?R = "set (cells (A(c := us @ vs)))"
    have "set (cells A) = ?R \<union> set (placed (b + 16) (xs @ (n, False) # ys))"
      using cells_edit [OF c, of A us "[(b, xs @ (n, False) # ys)]" vs] by (simp add: A [symmetric])
    then have old: "(q, k, False) \<in> set (cells A) \<longleftrightarrow> (q, k, False) \<in> ?R \<or> (q, k, False) \<in> set (placed (b + 16) xs) \<or>
        (q, k) = (a, n) \<or> (q, k, False) \<in> set (placed (a + 32 + n) ys)" for q k
      by (auto simp: placed_append a_def)
    have cells': "set (cells A') = ?R \<union> set (placed (b + 16) (xs' @ (n2, True) # ys'))"
      unfolding A'_def using cells_edit [OF c, of A us "[(b, xs' @ (n2, True) # ys')]" vs] by simp
    have at: "cur + 32 + n1 = a + 32 + n" using ext(1) by (simp add: a_def cur_def)
    have "(q, k, False) \<in> set (placed (cur + 32 + n2) ys') \<longleftrightarrow> (q, k, False) \<in> set (placed (a + 32 + n) ys)" for q k
      using join_next_used [OF j(2), of q k "cur + 32"] unfolding at .
    then have new: "(q, k, False) \<in> set (cells A') \<longleftrightarrow> (q, k, False) \<in> ?R \<or> (q, k, False) \<in> set (placed (b + 16) xs) \<or>
        (q, k, False) \<in> set (placed (a + 32 + n) ys)" for q k
      unfolding cells' using join_prev_used [OF j(1), of q k "b + 16"] by (auto simp: placed_append cur_def)
    have cell: "(cur, n2, True) \<in> set (cells A')" unfolding cells' by (simp add: placed_append cur_def)
    have gone: "(a, n, False) \<notin> set (cells A')"
    proof
      assume "(a, n, False) \<in> set (cells A')"
      from cells_apart [OF ok' this cell] have "{a..<a + 32 + n} \<inter> {cur..<cur + 32 + n2} = {}" by simp
      moreover have "a \<in> {a..<a + 32 + n}" "a \<in> {cur..<cur + 32 + n2}" using le by auto
      ultimately show False by blast
    qed
    have "(q, k, False) \<in> set (cells A') \<longleftrightarrow> (q, k, False) \<in> set (cells A) \<and> (q, k) \<noteq> (a, n)" for q k
      using gone new [of q k] old [of q k] by auto
    then have "(q, k) \<in> in_use A' \<longleftrightarrow> (q, k) \<in> in_use A - {(a + 32, n)}" for q k
      unfolding Diff_iff in_use_iff by auto
    then show ?thesis by auto
  qed
  have "agree (mem h) m (bytes_of (in_use A))"
    by (rule agree_subset [OF ag]) (use in_use_off_other_headers [OF ok c A] in blast)
  with m(1,2) ok' iu le hd show ?thesis by (intro that [of m])
qed

section \<open>The public function\<close>

text \<open>The bytes of a released region are free in the heap again, or their block is unmapped.\<close>

definition reusable :: "(nat \<Rightarrow> blk list) \<Rightarrow> nat \<Rightarrow> nat \<Rightarrow> bool" where
  "reusable A p n \<longleftrightarrow> (\<exists>(a, k, f) \<in> set (cells A). f \<and> a + 32 \<le> p \<and> p + n \<le> a + 32 + k)"

text \<open>
  C15. Releasing a pointer that is in use leaves a well-formed heap with all other regions in use
  and unchanged. The bytes of the region are part of a free region, or were the last ones in use
  in their block, which then is unmapped. A heap without empty blocks stays one.
\<close>

theorem free_releases:
  assumes ok: "heap_ok h A" and os: "munmap_ok os" and p: "(p, n) \<in> in_use A"
  defines "h' \<equiv> free os h p"
  shows "\<exists>A'. heap_ok h' A' \<and> in_use A' = in_use A - {(p, n)} \<and> (tidy A \<longrightarrow> tidy A') \<and>
    agree (mem h) (mem h') (bytes_of (in_use A')) \<and> amount_of_frees h' = amount_of_frees h + 1 \<and>
    (reusable A' p n \<and> maps h' = maps h \<or> blocks_mapped h' + 1 = blocks_mapped h)"
proof -
  obtain a where a: "p = a + 32" "(a, n, False) \<in> set (cells A)" using p by (auto simp: in_use_iff)
  obtain c us b xs ys vs where c: "c \<in> set classes" "A c = us @ (b, xs @ (n, False) # ys) # vs"
    "a = b + 16 + extent xs" using a(2) by (rule cells_split)
  obtain xs' n1 n2 ys' where j: "join_prev xs n = (xs', n1)" "join_next n1 ys = (n2, ys')"
    by (metis prod.exhaust)
  let ?cur = "b + 16 + extent xs'" and ?A = "A(c := us @ (b, xs' @ (n2, True) # ys') # vs)"
  obtain m where r: "coalesce (set_free (mem h) a True) a = (?cur, m)"
    "heap_ok (h\<lparr>mem := m, amount_of_frees := amount_of_frees h + 1\<rparr>) ?A" "agree (mem h) m (bytes_of (in_use A))"
    "in_use ?A = in_use A - {(a + 32, n)}" "?cur \<le> a" "a + 32 + n \<le> ?cur + 32 + n2"
    "regions m (b + 16) 0 0 (xs' @ (n2, True) # ys')" "r_magic (mem h) a = MAGIC_NUMBER" "\<not> r_free (mem h) a"
    by (rule release_ok [OF ok c(1,2) j, folded c(3), of "amount_of_frees h + 1"])
  define h1 where "h1 = h\<lparr>mem := m, amount_of_frees := amount_of_frees h + 1\<rparr>"
  have hc: "r_size m ?cur = n2" "r_next m ?cur = (if ys' = [] then 0 else ?cur + 32 + n2)"
    "r_prev m ?cur = last_at (b + 16) 0 xs'" using r(7) by (auto simp: regions_append hdr_def)
  have lone: "r_next m ?cur = 0 \<and> r_prev m ?cur = 0 \<longleftrightarrow> xs' = [] \<and> ys' = []"
    using hc last_at_pos [of xs' "b + 16" 0] by (cases "xs' = []") auto
  have f: "h' = (if xs' = [] \<and> ys' = [] then unmap os h1 b (n2 + 48) else h1)"
    using free_eq [OF a(1) r(8,9,1), of os] unfolding h'_def h1_def lone hc(1) by (cases "xs' = []") simp_all
  have bytes: "bytes_of (in_use A - {(p, n)}) \<subseteq> bytes_of (in_use A)" by (auto simp: bytes_of_def)
  have bo: "block_ok m c (b, xs' @ (n2, True) # ys')" using heap_okD(2) [OF r(2) c(1)] by simp
  show ?thesis
  proof (cases "xs' = [] \<and> ys' = []")
    case False
    have e: "h' = h1" unfolding f if_not_P [OF False] ..
    have "(?cur, n2, True) \<in> set (cells ?A)"
      using c(1) by (auto simp: set_cells placed_append intro!: bexI [of _ c])
    then have "reusable ?A p n" unfolding reusable_def by (rule bexI [rotated]) (use r(5,6) a(1) in simp)
    moreover have "tidy ?A" if "tidy A"
    proof (rule tidy_upd [OF that _ c(1)])
      have "joined (xs' @ (n2, True) # ys')" using bo by (simp add: block_ok_def)
      then have "\<exists>y \<in> set (xs' @ (n2, True) # ys'). \<not> snd y"
        using False by (cases xs' rule: rev_cases; cases ys') (auto simp: joined_append)
      then show "x \<in> set (A c) \<or> (\<exists>y \<in> set (snd x). \<not> snd y)"
        if "x \<in> set (us @ (b, xs' @ (n2, True) # ys') # vs)" for x using that c(2) by auto
    qed
    ultimately show ?thesis
      using r(2,4) agree_subset [OF r(3) bytes] a(1) by (intro exI [of _ ?A]) (simp add: e h1_def)
  next
    case True
    have size: "n2 + 48 = c" using bo True by (simp add: block_ok_def)
    have e: "h' = unmap os h1 b c" unfolding f if_P [OF True] size ..
    have Ac: "?A c = us @ (b, xs' @ (n2, True) # ys') # vs" by simp
    note u = unmap_ok [where A = ?A, OF r(2) c(1) Ac os, folded h1_def, folded e]
    let ?B = "?A(c := us @ vs)"
    have "set (cells ?A) = set (cells ?B) \<union> set (placed (b + 16) (xs' @ (n2, True) # ys'))"
      using cells_edit [OF c(1), of ?A us "[(b, xs' @ (n2, True) # ys')]" vs] by simp
    then have "(q, k, False) \<in> set (cells ?A) \<longleftrightarrow> (q, k, False) \<in> set (cells ?B)" for q k using True by auto
    then have "(q, k) \<in> in_use ?B \<longleftrightarrow> (q, k) \<in> in_use ?A" for q k unfolding in_use_iff by blast
    then have iu: "in_use ?B = in_use A - {(p, n)}" unfolding a(1) using r(4) by auto
    have off: "bytes_of (in_use ?A) \<subseteq> - link_bytes (map fst (?A c))"
      using in_use_off_list [OF r(2) c(1)] by blast
    have same: "in_use ?A = in_use ?B" unfolding iu using r(4) a(1) by simp
    have "agree (mem h) (mem h1) (bytes_of (in_use ?B))"
      unfolding iu using agree_subset [OF r(3) bytes] by (simp add: h1_def)
    moreover have "agree (mem h1) (mem h') (bytes_of (in_use ?B))"
      by (rule agree_subset [OF u(2)]) (use off same in simp)
    ultimately have "agree (mem h) (mem h') (bytes_of (in_use ?B))" by (rule agree_trans)
    moreover have "tidy ?B" if "tidy A"
      using tidy_upd [OF that _ c(1), of "us @ vs"] c(2) by auto
    moreover have "0 < blocks_mapped h"
    proof -
      have "(b, c) \<in> set (maps h)" using ok c by (simp add: heap_ok_def mapped_iff)
      then show ?thesis using ok by (cases "maps h") (auto simp: heap_ok_def)
    qed
    ultimately show ?thesis
      using u(1,3,4) iu by (intro exI [of _ ?B]) (simp add: h1_def)
  qed
qed

lemma top_os_munmap: "munmap_ok top_os"
  by (simp add: munmap_ok_def top_os_def)

lemma free_releases_witness:
  "\<exists>p h A. malloc FIRST_FIT top_os empty_heap 64 = Some (p, h) \<and> heap_ok (free top_os h p) A \<and>
     in_use A = {} \<and> tidy A \<and> amount_of_frees (free top_os h p) = amount_of_frees h + 1"
proof -
  have "can_grow top_os empty_heap (need 64)"
    by (simp add: can_grow_def empty_heap_def top_os_def top_of_def need_def ALIGN4_def size_that_fits_def Let_def malloc_consts)
  then obtain p n h A where m: "malloc FIRST_FIT top_os empty_heap 64 = Some (p, h)"
    "allocated empty_heap (\<lambda>_. []) p n h A"
    using malloc_outcome [OF empty_heap_ok top_os_mmap, of 64 FIRST_FIT] by auto
  have e: "in_use (\<lambda>_. []) = {}" by (simp add: in_use_def cells_def)
  have t: "tidy (\<lambda>_. [])" by (simp add: tidy_def)
  have a: "heap_ok h A" "in_use A = {(p, n)}" "tidy A" using m(2) t e by (simp_all add: allocated_def)
  have "(p, n) \<in> in_use A" by (simp add: a)
  from free_releases [OF a(1) top_os_munmap this]
  obtain B where "heap_ok (free top_os h p) B" "in_use B = in_use A - {(p, n)}" "tidy B"
    "amount_of_frees (free top_os h p) = amount_of_frees h + 1" using a(3) by blast
  with m(1) a(2) show ?thesis by auto
qed

end
