(* ===== verification/MallocRealloc.thy ===== *)
theory MallocRealloc
  imports MallocFree
begin

text \<open>
  \<open>realloc\<close> of the first region of a block. The test for the space behind a region reads the size
  of the region in front of it, and the first region has none.
\<close>

lemma regions_two:
  assumes "regions m r pv 0 ((n, f) # (k, g) # ys)"
  shows "r_size m r = n" "r_prev m r = pv" "r_next m r = r + 32 + n" "r_free m (r + 32 + n) = g"
  using assms by (auto simp: hdr_def)

text \<open>
  Growing the first region of a block when the region after it is free dereferences the
  null pointer: \<open>realloc\<close> reads the size of \<open>curr->prev\<close> where it means \<open>curr->next\<close>. This is the
  case of every allocation that opened a new block.
\<close>

theorem realloc_dereferences_null:
  assumes ok: "heap_ok h A" and c: "c \<in> set classes" and x: "(b, (n, f) # (k, True) # ys) \<in> set (A c)"
    and nb: "n < nb"
  shows "realloc pol os h (b + 48) nb = None"
proof -
  have "regions (mem h) (b + 16) 0 0 ((n, f) # (k, True) # ys)"
    using heap_okD(2) [OF ok c x] unfolding block_ok_def prod.case by blast
  note t = regions_two [OF this]
  have "PTR2REGION (b + 48) = b + 16" by (simp add: PTR2REGION_def sizeof_region_def)
  then show ?thesis using nb t by (simp add: realloc_def Let_def)
qed

text \<open>A heap of one block, in which the first 64 bytes are in use.\<close>

definition one_mem :: mem where
  "one_mem = set_free (split (new_header (\<lambda>_. 0) 65552 16336) 65552 64) 65552 False"

definition one_heap :: heap where
  "one_heap = empty_heap\<lparr>blocks_mapped := 1, small_blocks := 65536, mem := one_mem, maps := [(65536, 16384)]\<rparr>"

definition one_blocks :: "nat \<Rightarrow> blk list" where
  "one_blocks c = (if c = 16384 then [(65536, [(64, False), (16240, True)])] else [])"

lemma one_mem_ok: "regions one_mem 65552 0 0 [(64, False), (16240, True)]"
  "agree (\<lambda>_. 0) one_mem {65536..<65552}"
proof -
  have "hdr (new_header (\<lambda>_. 0) 65552 16336) 65552 True 16336 0 0" by (rule new_header_ok) simp
  then have "regions (new_header (\<lambda>_. 0) 65552 16336) 65552 0 0 ([] @ (16336, True) # [])" by simp
  note t = take_region [OF this, of 64]
  have tk: "[] @ taken 64 16336 @ [] = [(64, False), (16240, True)]" "taken 64 16336 @ [] = [(64, False), (16240, True)]"
    by (simp_all add: taken_def MIN_SIZE_def)
  show "regions one_mem 65552 0 0 [(64, False), (16240, True)]"
    using t(1) by (simp add: one_mem_def taken_def MIN_SIZE_def)
  have "agree (\<lambda>_. 0) (new_header (\<lambda>_. 0) 65552 16336) {65536..<65552}"
    by (rule agree_subset [OF new_header_ok(2)]) auto
  moreover have "agree (new_header (\<lambda>_. 0) 65552 16336) one_mem {65536..<65552}"
  proof -
    have "agree (new_header (\<lambda>_. 0) 65552 16336) one_mem (- headers 65552 [(64, False), (16240, True)])"
      using t(2) by (simp add: one_mem_def taken_def MIN_SIZE_def)
    then show ?thesis by (rule agree_subset) auto
  qed
  ultimately show "agree (\<lambda>_. 0) one_mem {65536..<65552}" by (rule agree_trans)
qed

lemma load_le_zero: "load_le k (\<lambda>_. 0) a = 0"
proof -
  have "le_val (replicate k 0) = 0" for k by (induction k) simp_all
  then show ?thesis by (simp add: load_le_def load_bytes_def map_replicate_const)
qed

lemma one_heap_ok: "heap_ok one_heap one_blocks"
proof -
  have z: "one_mem i = 0" if "65536 \<le> i" "i < 65552" for i using one_mem_ok(2) that by (simp add: agree_def)
  have "b_next one_mem 65536 = b_next (\<lambda>_. 0) 65536" "b_prev one_mem 65536 = b_prev (\<lambda>_. 0) 65536"
    by (rule b_fields_agree, rule agree_subset [OF one_mem_ok(2)], auto)+
  moreover have "b_next (\<lambda>_. 0) 65536 = 0" "b_prev (\<lambda>_. 0) 65536 = 0"
    by (simp_all add: b_next_def b_prev_def load_le_zero)
  ultimately have links: "b_next one_mem 65536 = 0" "b_prev one_mem 65536 = 0" by simp_all
  have "disjoint_blocks one_blocks" by (auto simp: disjoint_blocks_def one_blocks_def)
  moreover have "mapped one_blocks = {(65536, 16384)}"
    by (auto simp: mapped_def one_blocks_def classes_def malloc_consts)
  moreover have "chain one_mem (head_of one_heap c) (map fst (one_blocks c))" if "c \<in> set classes" for c
    using that links by (auto simp: classes_def chain_def head_or_def one_blocks_def head_of_def one_heap_def
        empty_heap_def malloc_consts)
  moreover have "block_ok one_mem 16384 (65536, [(64, False), (16240, True)])"
    using one_mem_ok(1) by (simp add: block_ok_def extent_def)
  ultimately show ?thesis
    by (auto simp: heap_ok_def one_heap_def one_blocks_def empty_heap_def)
qed

lemma realloc_dereferences_null_witness: "realloc FIRST_FIT top_os one_heap 65584 200 = None"
  using realloc_dereferences_null [OF one_heap_ok, of 16384 65536 64 False 16240 "[]" 200 FIRST_FIT top_os]
  by (simp add: classes_def one_blocks_def malloc_consts)

end
