(* ===== verification/ShParse.thy ===== *)
theory ShParse
  imports Prelude "HOL-Library.Char_ord"
begin

text \<open>
  shell/parsing.c, utils.c, createcmd.c, freecmd.c and types.h: from the line buffer to the tree
  of commands. The line is parsed in place, so the functions work on the whole buffer, a list
  of characters, and on positions in it: what follows the terminator of the line is visible to
  the code. A read or write outside of a buffer or an array is \<open>None\<close>. A string that the code
  holds in a block of its own is the list of the characters before its terminator.
\<close>

definition END_STRING :: char where "END_STRING = CHR 0x00"
definition END_LINE :: char where "END_LINE = CHR 0x0A"
definition SPACE :: char where "SPACE = CHR '' ''"
definition BUFLEN :: nat where "BUFLEN = 1024"
definition MAXARGS :: nat where "MAXARGS = 20"
definition ARGSIZE :: nat where "ARGSIZE = 1024"
definition FNAMESIZE :: nat where "FNAMESIZE = 1024"

lemmas sh_chars = END_STRING_def END_LINE_def SPACE_def

type_synonym line = "char list"
type_synonym environ = "string \<Rightarrow> string option"

section \<open>utils.c\<close>

text \<open>A loop that moves an index forward to a character; it may run off the buffer.\<close>

fun scan :: "(char \<Rightarrow> bool) \<Rightarrow> line \<Rightarrow> nat \<Rightarrow> nat option" where
  "scan stop [] i = None"
| "scan stop (c # cs) i = (if stop c then Some i else scan stop cs (i + 1))"

definition split_line :: "line \<Rightarrow> nat \<Rightarrow> char \<Rightarrow> (line \<times> nat) option" where
  "split_line buf start splitter =
     (case scan (\<lambda>c. c = splitter \<or> c = END_STRING) (drop start buf) start of
        None \<Rightarrow> None
      | Some i \<Rightarrow>
          let buf1 = buf[i := END_STRING] in
          case scan (\<lambda>c. c \<noteq> SPACE) (drop (i + 1) buf1) (i + 1) of
            None \<Rightarrow> None
          | Some j \<Rightarrow> Some (buf1, j))"

fun block_contains_from :: "nat \<Rightarrow> string \<Rightarrow> char \<Rightarrow> int" where
  "block_contains_from i [] c = - 1"
| "block_contains_from i (x # xs) c = (if x = c then int i else block_contains_from (i + 1) xs c)"

definition block_contains :: "string \<Rightarrow> char \<Rightarrow> int" where
  "block_contains s c = block_contains_from 0 s c"

text \<open>The string that starts at a position of the buffer, if it ends inside.\<close>

definition string_at :: "line \<Rightarrow> nat \<Rightarrow> string option" where
  "string_at buf i = (if END_STRING \<in> set (drop i buf)
     then Some (takeWhile (\<lambda>c. c \<noteq> END_STRING) (drop i buf)) else None)"

section \<open>types.h, createcmd.c and freecmd.c\<close>

datatype cmd_type = EXEC | BACK | REDIR | PIPE

text \<open>\<open>argc\<close> and \<open>eargc\<close> are the lengths of the argument lists.\<close>

record execcmd =
  e_type :: cmd_type
  e_scmd :: string
  argv :: "string list"
  eargv :: "string list"
  out_file :: string
  in_file :: string
  err_file :: string

datatype cmd = Execcmd execcmd | Backcmd string cmd | Pipecmd "cmd option" "cmd option"

fun type_of_cmd :: "cmd \<Rightarrow> cmd_type" where
  "type_of_cmd (Execcmd e) = e_type e"
| "type_of_cmd (Backcmd s c) = BACK"
| "type_of_cmd (Pipecmd l r) = PIPE"

fun scmd :: "cmd \<Rightarrow> string" where
  "scmd (Execcmd e) = e_scmd e"
| "scmd (Backcmd s c) = s"
| "scmd (Pipecmd l r) = ''''"

definition exec_cmd_create :: "string \<Rightarrow> execcmd" where
  "exec_cmd_create buf_cmd = \<lparr>e_type = EXEC, e_scmd = buf_cmd, argv = [], eargv = [],
     out_file = '''', in_file = '''', err_file = ''''\<rparr>"

definition back_cmd_create :: "cmd \<Rightarrow> cmd" where
  "back_cmd_create c = Backcmd (scmd c) c"

definition pipe_cmd_create :: "cmd option \<Rightarrow> cmd option \<Rightarrow> cmd option" where
  "pipe_cmd_create left right = (if right = None then left else Some (Pipecmd left right))"

text \<open>Freeing reads the type of every node, so a null node is an error.\<close>

fun free_command :: "cmd option \<Rightarrow> unit option" where
  "free_command None = None"
| "free_command (Some (Pipecmd l r)) = (if free_command l = None then None else free_command r)"
| "free_command (Some (Backcmd s c)) = free_command (Some c)"
| "free_command (Some (Execcmd e)) = Some ()"

section \<open>parsing.c\<close>

text \<open>The token is copied to a cleared block of \<open>ARGSIZE\<close> bytes, whose last one ends it.\<close>

fun get_token_from :: "line \<Rightarrow> nat \<Rightarrow> string option" where
  "get_token_from [] i = None"
| "get_token_from (c # cs) i =
     (if i \<ge> ARGSIZE then None
      else if c \<noteq> SPACE \<and> c \<noteq> END_STRING then map_option ((#) c) (get_token_from cs (i + 1))
      else Some [])"

definition get_token :: "line \<Rightarrow> nat \<Rightarrow> string option" where
  "get_token buf idx = get_token_from (drop idx buf) 0"

definition parse_redir_flow :: "execcmd \<Rightarrow> string \<Rightarrow> execcmd \<times> bool" where
  "parse_redir_flow c arg =
     (let outIdx = block_contains arg (CHR ''>'') in
      if outIdx \<ge> 0 then
        ((if outIdx = 0 then c\<lparr>out_file := drop 1 arg\<rparr>
          else if outIdx = 1 then c\<lparr>err_file := drop 2 arg\<rparr>
          else c)\<lparr>e_type := REDIR\<rparr>, True)
      else let inIdx = block_contains arg (CHR ''<'') in
        if inIdx \<ge> 0 then (c\<lparr>in_file := drop 1 arg, e_type := REDIR\<rparr>, True)
        else (c, False))"

definition parse_environ_var :: "execcmd \<Rightarrow> string \<Rightarrow> (execcmd \<times> bool) option" where
  "parse_environ_var c arg =
     (if block_contains arg (CHR ''='') > 0 \<and> block_contains arg (CHR ''-'') < 0 then
        (if length (eargv c) < MAXARGS then Some (c\<lparr>eargv := eargv c @ [arg]\<rparr>, True) else None)
      else Some (c, False))"

fun digits :: "nat \<Rightarrow> string" where
  "digits n = (if n < 10 then [char_of (48 + n)] else digits (n div 10) @ [char_of (48 + n mod 10)])"

definition show_int :: "int \<Rightarrow> string" where
  "show_int i = (if i < 0 then CHR ''-'' # digits (nat (- i)) else digits (nat i))"

text \<open>
  The value overwrites the token in its block. A longer value moves the block, and the caller
  goes on with the old one; a value of exactly \<open>ARGSIZE\<close> bytes has its end outside.
\<close>

definition expand_environ_var :: "environ \<Rightarrow> int \<Rightarrow> string \<Rightarrow> string option" where
  "expand_environ_var env status arg =
     (if block_contains arg (CHR ''$'') = 0 then
        (if arg = ''$?'' then Some (show_int status)
         else case env (drop 1 arg) of
             Some v \<Rightarrow> if length v < ARGSIZE then Some v else None
           | None \<Rightarrow> Some '''')
      else Some arg)"

lemma get_token_from_end:
  "get_token_from cs i = Some tok \<Longrightarrow> length tok < length cs \<and>
     (cs ! length tok = SPACE \<or> cs ! length tok = END_STRING) \<and> i + length tok < ARGSIZE"
  by (induction cs i arbitrary: tok rule: get_token_from.induct) (auto split: if_splits)

lemma get_token_end:
  assumes "get_token buf idx = Some tok"
  shows "idx + length tok < length buf" "buf ! (idx + length tok) = SPACE \<or> buf ! (idx + length tok) = END_STRING"
    "tok = [] \<Longrightarrow> buf ! idx = SPACE \<or> buf ! idx = END_STRING"
proof -
  have t: "length tok < length buf - idx" "drop idx buf ! length tok = SPACE \<or> drop idx buf ! length tok = END_STRING"
    using get_token_from_end [OF assms [unfolded get_token_def]] by simp_all
  show *: "idx + length tok < length buf" using t by simp
  then show **: "buf ! (idx + length tok) = SPACE \<or> buf ! (idx + length tok) = END_STRING"
    using t by simp
  show "tok = [] \<Longrightarrow> buf ! idx = SPACE \<or> buf ! idx = END_STRING" using ** by simp
qed

text \<open>One token of \<open>parse_exec\<close>, after the redirection test.\<close>

definition parse_arg :: "environ \<Rightarrow> int \<Rightarrow> execcmd \<Rightarrow> string \<Rightarrow> execcmd option" where
  "parse_arg env status c tok =
     (case parse_redir_flow c tok of (c1, redirected) \<Rightarrow>
        if redirected then Some c1
        else case parse_environ_var c tok of
            None \<Rightarrow> None
          | Some (c2, is_var) \<Rightarrow>
              if is_var then Some c2
              else case expand_environ_var env status tok of
                  None \<Rightarrow> None
                | Some tok' \<Rightarrow>
                    if tok' = '''' then Some c
                    else if length (argv c) < MAXARGS then Some (c\<lparr>argv := argv c @ [tok']\<rparr>)
                    else None)"

text \<open>The loop of \<open>parse_exec\<close>; the null pointer that ends \<open>argv\<close> takes one of its places.\<close>

function parse_args :: "environ \<Rightarrow> int \<Rightarrow> line \<Rightarrow> nat \<Rightarrow> execcmd \<Rightarrow> execcmd option" where
  "parse_args env status buf idx c =
     (if idx \<ge> length buf then None
      else if buf ! idx = END_STRING then (if length (argv c) < MAXARGS then Some c else None)
      else case get_token buf idx of
          None \<Rightarrow> None
        | Some tok \<Rightarrow>
            let idx1 = idx + length tok;
                idx2 = (if buf ! idx1 \<noteq> END_STRING then idx1 + 1 else idx1)
            in case parse_arg env status c tok of
                None \<Rightarrow> None
              | Some c' \<Rightarrow> parse_args env status buf idx2 c')"
  by pat_completeness auto
termination
  by (relation "measure (\<lambda>(env, status, buf, idx, c). length buf - idx)")
    (auto dest: get_token_end split: if_splits simp: Let_def intro!: diff_less_mono2)

definition parse_exec :: "environ \<Rightarrow> int \<Rightarrow> line \<Rightarrow> nat \<Rightarrow> cmd option" where
  "parse_exec env status buf start =
     (case string_at buf start of
        None \<Rightarrow> None
      | Some s \<Rightarrow> map_option Execcmd (parse_args env status buf start (exec_cmd_create s)))"

definition parse_back :: "environ \<Rightarrow> int \<Rightarrow> line \<Rightarrow> nat \<Rightarrow> (line \<times> cmd) option" where
  "parse_back env status buf start =
     (case scan (\<lambda>c. c = CHR ''&'') (drop start buf) start of
        None \<Rightarrow> None
      | Some i \<Rightarrow>
          let buf1 = buf[i := END_STRING] in
          map_option (\<lambda>e. (buf1, back_cmd_create e)) (parse_exec env status buf1 start))"

text \<open>A null command is an inner \<open>None\<close>. The character in front of an \<open>&\<close> may be outside.\<close>

definition parse_cmd :: "environ \<Rightarrow> int \<Rightarrow> line \<Rightarrow> nat \<Rightarrow> (line \<times> cmd option) option" where
  "parse_cmd env status buf start =
     (case string_at buf start of
        None \<Rightarrow> None
      | Some s \<Rightarrow>
          if s = '''' then Some (buf, None)
          else let idx = block_contains s (CHR ''&'') in
            if idx \<ge> 0 \<and> start + nat idx = 0 then None
            else if idx \<ge> 0 \<and> buf ! (start + nat idx - 1) \<noteq> CHR ''>''
            then map_option (\<lambda>(buf1, c). (buf1, Some c)) (parse_back env status buf start)
            else map_option (\<lambda>c. (buf, Some c)) (parse_exec env status buf start))"

lemma scan_some:
  "scan stop cs i = Some j \<Longrightarrow> i \<le> j \<and> j < i + length cs \<and> stop (cs ! (j - i)) \<and> (\<forall>k < j - i. \<not> stop (cs ! k))"
proof (induction stop cs i rule: scan.induct)
  case (2 stop c cs i)
  show ?case
  proof (cases "stop c")
    case False
    then have r: "i + 1 \<le> j" "j < i + 1 + length cs" "stop (cs ! (j - (i + 1)))" "\<forall>k < j - (i + 1). \<not> stop (cs ! k)"
      using 2 by simp_all
    have "\<not> stop ((c # cs) ! k)" if "k < j - i" for k using that False r(4) by (cases k) auto
    moreover have "(c # cs) ! (j - i) = cs ! (j - (i + 1))" using r(1) by (simp add: nth_Cons')
    ultimately show ?thesis using r by simp
  qed (use 2 in simp)
qed simp

lemma split_line_right:
  assumes "split_line buf start sp = Some (buf', right)"
  shows "start < right" "right < length buf" "length buf' = length buf"
proof -
  obtain i where i: "scan (\<lambda>c. c = sp \<or> c = END_STRING) (drop start buf) start = Some i"
    "scan (\<lambda>c. c \<noteq> SPACE) (drop (i + 1) (buf[i := END_STRING])) (i + 1) = Some right" "buf' = buf[i := END_STRING]"
    using assms by (auto simp: split_line_def Let_def split: option.splits)
  have "start \<le> i" using scan_some [OF i(1)] by simp
  moreover have "i + 1 \<le> right" "right < i + 1 + (length buf - (i + 1))"
    using scan_some [OF i(2)] by simp_all
  ultimately show "start < right" "right < length buf" "length buf' = length buf" using i(3) by simp_all
qed

lemma split_line_bounds:
  "split_line buf start sp = Some (buf', right) \<Longrightarrow> start < right \<and> right < length buf \<and> length buf' = length buf"
  by (simp add: split_line_right)

lemma parse_cmd_length: "parse_cmd env status buf start = Some (buf', l) \<Longrightarrow> length buf' = length buf"
  by (auto simp: parse_cmd_def parse_back_def Let_def split: option.splits if_splits)

text \<open>
  The commands of a line. When there is no pipe, \<open>split_line\<close> still looks behind the end of the
  line, and what it finds there is parsed as a further command.
\<close>

function parse_line :: "environ \<Rightarrow> int \<Rightarrow> line \<Rightarrow> nat \<Rightarrow> (line \<times> cmd option) option" where
  "parse_line env status buf start =
     (case split_line buf start (CHR ''|'') of
        None \<Rightarrow> None
      | Some (buf1, right) \<Rightarrow>
          case parse_cmd env status buf1 start of
            None \<Rightarrow> None
          | Some (buf2, l) \<Rightarrow>
              case string_at buf2 right of
                None \<Rightarrow> None
              | Some s \<Rightarrow>
                  if s = '''' then Some (buf2, pipe_cmd_create l None)
                  else case parse_line env status buf2 right of
                      None \<Rightarrow> None
                    | Some (buf3, r) \<Rightarrow> Some (buf3, pipe_cmd_create l r))"
  by pat_completeness auto
termination
  by (relation "measure (\<lambda>(env, status, buf, start). length buf - start)")
    (auto dest!: split_line_bounds parse_cmd_length intro: diff_less_mono2)

declare parse_args.simps [simp del] parse_line.simps [simp del] digits.simps [simp del]

end
