(* ===== verification/ShHistory.thy ===== *)
theory ShHistory
  imports ShParse
begin

text \<open>
  shell/history.c and readline.c: the command history and the line editor. The history array is
  a block from \<open>malloc\<close>, so its slots are uninitialised, null or a line; reading a slot that is
  not a line, or any index outside, is \<open>None\<close>. The terminal is the list of the strings written
  to it; the keys are the values of \<open>getchar\<close>, and \<open>EOF\<close> when there are no more. The model is
  the interactive build.
\<close>

definition MAX_HISTORY_LINE_SIZE :: nat where "MAX_HISTORY_LINE_SIZE = 1024"
definition INITIAL_HISTORY_LINES :: nat where "INITIAL_HISTORY_LINES = 50"
definition HISTORY_GROWING_FACTOR :: nat where "HISTORY_GROWING_FACTOR = 2"

datatype slot = Uninit | Null | Line string

record history =
  history_arr :: "slot list"
  last_line_pos :: nat
  history_print_pos :: nat

abbreviation alloc_size :: "history \<Rightarrow> nat" where "alloc_size h \<equiv> length (history_arr h)"

text \<open>
  The file of the history: \<open>HISTFILE\<close>, or a file in the home directory. Then \<open>HOME\<close> must be set
  and the path must fit a block of \<open>FNAMESIZE\<close> bytes.
\<close>

definition history_file :: "environ \<Rightarrow> string option" where
  "history_file env = (case env ''HISTFILE'' of
     None \<Rightarrow>
       (case env ''HOME'' of
          None \<Rightarrow> None
        | Some home \<Rightarrow>
            let f = home @ ''/.sisop_history'' in if length f < FNAMESIZE then Some f else None)
   | Some f \<Rightarrow> Some f)"

text \<open>The lines that \<open>fgets\<close> returns with a buffer of \<open>n + 1\<close> bytes.\<close>

fun fgets_lines :: "nat \<Rightarrow> nat \<Rightarrow> string \<Rightarrow> string \<Rightarrow> string list" where
  "fgets_lines n k acc [] = (if acc = [] then [] else [rev acc])"
| "fgets_lines n k acc (c # cs) =
     (if c = END_LINE \<or> k + 1 \<ge> n then rev (c # acc) # fgets_lines n 0 [] cs
      else fgets_lines n (k + 1) (c # acc) cs)"

definition grow_history :: "history \<Rightarrow> history" where
  "grow_history h = h\<lparr>history_arr := history_arr h @
     replicate (alloc_size h * HISTORY_GROWING_FACTOR - alloc_size h) Uninit\<rparr>"

definition store_line :: "history \<Rightarrow> slot \<Rightarrow> nat \<Rightarrow> history option" where
  "store_line h s i = (if i < alloc_size h then Some (h\<lparr>history_arr := (history_arr h)[i := s]\<rparr>) else None)"

fun load_lines :: "history \<Rightarrow> string list \<Rightarrow> history option" where
  "load_lines h [] = store_line h Null (last_line_pos h)"
| "load_lines h (l # ls) =
     (let h1 = (if last_line_pos h \<ge> alloc_size h - 1 then grow_history h else h) in
      case store_line h1 (Line l) (last_line_pos h1) of
        None \<Rightarrow> None
      | Some h2 \<Rightarrow> load_lines (h2\<lparr>last_line_pos := last_line_pos h2 + 1\<rparr>) ls)"

text \<open>\<open>contents\<close> is what \<open>fopen\<close> finds, \<open>None\<close> when it fails; then no slot is ever initialised.\<close>

definition load_history :: "environ \<Rightarrow> (string \<Rightarrow> string option) \<Rightarrow> history option" where
  "load_history env contents =
     (let h = \<lparr>history_arr = replicate (INITIAL_HISTORY_LINES + 1) Uninit, last_line_pos = 0,
               history_print_pos = 0\<rparr> in
      case history_file env of
        None \<Rightarrow> None
      | Some f \<Rightarrow>
          (case contents f of
             None \<Rightarrow> Some h
           | Some text \<Rightarrow>
               map_option (\<lambda>h1. h1\<lparr>history_print_pos := last_line_pos h1\<rparr>)
                 (load_lines h (fgets_lines MAX_HISTORY_LINE_SIZE 0 [] text))))"

text \<open>Copying a line to a buffer of \<open>BUFLEN\<close> bytes and dropping its last character.\<close>

definition chopped_line :: "history \<Rightarrow> nat \<Rightarrow> string option" where
  "chopped_line h i =
     (if i < alloc_size h then
        (case history_arr h ! i of
           Line s \<Rightarrow> if s \<noteq> '''' \<and> length s < BUFLEN then Some (butlast s) else None
         | _ \<Rightarrow> None)
      else None)"

definition get_previous_command :: "history \<Rightarrow> (history \<times> string) option" where
  "get_previous_command h =
     (if history_print_pos h = 0 \<and> last_line_pos h = 0 then Some (h, '''')
      else let h1 = (if history_print_pos h = 0 then h
                     else h\<lparr>history_print_pos := history_print_pos h - 1\<rparr>)
        in map_option (Pair h1) (chopped_line h1 (history_print_pos h1)))"

definition get_next_command :: "history \<Rightarrow> (history \<times> string) option" where
  "get_next_command h =
     (if int (history_print_pos h) = int (last_line_pos h) - 1 then Some (h, '''')
      else if last_line_pos h = 0 then Some (h, '''')
      else let h1 = h\<lparr>history_print_pos := history_print_pos h + 1\<rparr>
        in map_option (Pair h1) (chopped_line h1 (history_print_pos h1)))"

definition save_command_in_memory :: "history \<Rightarrow> string \<Rightarrow> history option" where
  "save_command_in_memory h cmd =
     (let h1 = (if last_line_pos h \<ge> alloc_size h then grow_history h else h) in
      case store_line h1 (Line (cmd @ [END_LINE])) (last_line_pos h1) of
        None \<Rightarrow> None
      | Some h2 \<Rightarrow>
          (case store_line h2 Null (last_line_pos h2 + 1) of
             None \<Rightarrow> None
           | Some h3 \<Rightarrow> Some (h3\<lparr>last_line_pos := last_line_pos h2 + 1,
                                  history_print_pos := last_line_pos h2 + 1\<rparr>)))"

definition save_command_in_file :: "environ \<Rightarrow> (string \<Rightarrow> string option) \<Rightarrow> string \<Rightarrow> (string \<Rightarrow> string option) option" where
  "save_command_in_file env contents cmd =
     (case history_file env of
        None \<Rightarrow> None
      | Some f \<Rightarrow>
          (case contents f of
             None \<Rightarrow> Some contents
           | Some text \<Rightarrow> Some (contents(f \<mapsto> text @ cmd @ [END_LINE]))))"

text \<open>The lines up to the null slot; \<open>free_history\<close> and the listing of the history go over them.\<close>

fun lines_to_null :: "slot list \<Rightarrow> string list option" where
  "lines_to_null (Null # ss) = Some []"
| "lines_to_null (Line s # ss) = map_option ((#) s) (lines_to_null ss)"
| "lines_to_null _ = None"

definition free_history :: "history \<Rightarrow> unit option" where
  "free_history h = map_option (\<lambda>_. ()) (lines_to_null (history_arr h))"

section \<open>readline.c\<close>

definition CHAR_EOXMIT :: int where "CHAR_EOXMIT = 4"
definition CHAR_DEL :: int where "CHAR_DEL = 127"
definition CHAR_ESC :: int where "CHAR_ESC = 27"
definition EOF :: int where "EOF = - 1"

record editor =
  buffer :: line
  pos :: nat
  row :: nat
  col :: nat
  tty :: "string list"
  hist :: history

definition printf_debug :: "string \<Rightarrow> editor \<Rightarrow> editor" where
  "printf_debug s e = e\<lparr>tty := tty e @ [s]\<rparr>"

definition ERASE :: string where "ERASE = [CHR 0x08, SPACE, CHR 0x08]"
definition ESC :: char where "ESC = CHR 0x1B"

text \<open>The counters are \<open>size_t\<close>, and decrementing 0 wraps around.\<close>

definition dec :: "nat \<Rightarrow> nat" where "dec n = (if n = 0 then 2 ^ 64 - 1 else n - 1)"

definition delete_char :: "nat \<Rightarrow> editor \<Rightarrow> editor option" where
  "delete_char MAX_COL e =
     (if pos e = 0 then Some e
      else if pos e - 1 \<ge> length (buffer e) then None
      else let e1 = e\<lparr>pos := pos e - 1, buffer := (buffer e)[pos e - 1 := END_STRING]\<rparr>;
               e2 = (if col e1 = 0
                     then printf_debug (ERASE @ ERASE @ [ESC, CHR ''['', CHR ''A'', ESC, CHR ''[''] @
                              digits (MAX_COL + 2) @ ''C'')
                            (printf_debug (ERASE @ ERASE)
                              (e1\<lparr>row := dec (row e1), col := MAX_COL - 1\<rparr>))
                     else e1\<lparr>col := dec (col e1)\<rparr>)
        in Some (printf_debug ERASE e2))"

definition writeChar :: "char \<Rightarrow> nat \<Rightarrow> editor \<Rightarrow> editor" where
  "writeChar c MAX_COL e =
     (let e1 = (printf_debug [c] e)\<lparr>col := col e + 1\<rparr> in
      if col e1 \<ge> MAX_COL then (printf_debug [END_LINE, CHR ''>'', SPACE] e1)\<lparr>col := 0, row := row e1 + 1\<rparr>
      else e1)"

fun writeLine :: "string \<Rightarrow> nat \<Rightarrow> editor \<Rightarrow> editor" where
  "writeLine [] MAX_COL e = e"
| "writeLine (c # cs) MAX_COL e = writeLine cs MAX_COL (writeChar c MAX_COL e)"

fun clear_rows :: "nat \<Rightarrow> editor \<Rightarrow> editor" where
  "clear_rows 0 e = e"
| "clear_rows (Suc n) e = clear_rows n (printf_debug [ESC, CHR ''['', CHR ''2'', CHR ''K'', CHR 0x0D, ESC, CHR ''['', CHR ''A''] e)"

definition clearLine :: "editor \<Rightarrow> editor" where
  "clearLine e =
     printf_debug [ESC, CHR ''['', CHR ''2'', CHR ''K'', CHR 0x0D, CHR ''$'', SPACE]
       (clear_rows (row e) e)\<lparr>row := 0, col := 0\<rparr>"
text \<open>\<open>strcpy\<close> to the line buffer keeps what is behind the new end.\<close>

definition copy_to_line :: "line \<Rightarrow> string \<Rightarrow> line" where
  "copy_to_line buf s = s @ END_STRING # drop (length s + 1) buf"

fun getchar :: "int list \<Rightarrow> int \<times> int list" where
  "getchar [] = (EOF, [])"
| "getchar (k # ks) = (k, ks)"

definition show_command :: "nat \<Rightarrow> (history \<times> string) option \<Rightarrow> editor \<Rightarrow> editor option" where
  "show_command MAX_COL r e =
     (case r of
        None \<Rightarrow> None
      | Some (h, s) \<Rightarrow>
          let e1 = e\<lparr>hist := h, buffer := copy_to_line (buffer e) s\<rparr> in
          Some ((writeLine s MAX_COL (clearLine e1))\<lparr>pos := length s\<rparr>))"

definition navigateHistory :: "nat \<Rightarrow> int list \<Rightarrow> editor \<Rightarrow> (int list \<times> editor) option" where
  "navigateHistory MAX_COL ks e =
     (case getchar ks of (c1, ks1) \<Rightarrow>
        if c1 = 91 then
          (case getchar ks1 of (c2, ks2) \<Rightarrow>
             if c2 = 65 then map_option (Pair ks2) (show_command MAX_COL (get_previous_command (hist e)) e)
             else if c2 = 66 then map_option (Pair ks2) (show_command MAX_COL (get_next_command (hist e)) e)
             else Some (ks2, e))
        else Some (ks1, e))"

definition type_char :: "nat \<Rightarrow> int \<Rightarrow> editor \<Rightarrow> editor option" where
  "type_char MAX_COL c e =
     (if pos e < length (buffer e)
      then Some (writeChar (char_of c) MAX_COL (e\<lparr>buffer := (buffer e)[pos e := char_of c], pos := pos e + 1\<rparr>))
      else None)"

lemma getchar_length: "getchar ks = (c, ks') \<Longrightarrow> length ks' \<le> length ks"
  by (cases ks) auto

lemma navigate_length: "navigateHistory MAX_COL ks e = Some (ks', e') \<Longrightarrow> length ks' \<le> length ks"
  by (auto simp: navigateHistory_def split: prod.splits if_splits dest!: getchar_length)

text \<open>The loop of \<open>read_line\<close>; the result has the key that ended it.\<close>

function read_keys :: "nat \<Rightarrow> int list \<Rightarrow> editor \<Rightarrow> (int \<times> int list \<times> editor) option" where
  "read_keys MAX_COL [] e = Some (EOF, [], e)"
| "read_keys MAX_COL (c # ks) e =
     (if c = int (of_char END_LINE) \<or> c = EOF \<or> c = CHAR_EOXMIT then Some (c, ks, e)
      else if c = CHAR_ESC then
        (case navigateHistory MAX_COL ks e of
           None \<Rightarrow> None
         | Some (ks', e') \<Rightarrow> read_keys MAX_COL ks' e')
      else if c = CHAR_DEL then
        (case delete_char MAX_COL e of None \<Rightarrow> None | Some e' \<Rightarrow> read_keys MAX_COL ks e')
      else (case type_char MAX_COL c e of None \<Rightarrow> None | Some e' \<Rightarrow> read_keys MAX_COL ks e'))"
  by pat_completeness auto
termination
  by (relation "measure (\<lambda>(MAX_COL, ks, e). length ks)") (auto dest!: navigate_length)

text \<open>
  The line read, or a null result (the inner \<open>None\<close>) at the end of the input, with the keys
  left. \<open>ws_col\<close> is the width of the terminal.
\<close>

definition max_col :: "int \<Rightarrow> nat" where
  "max_col ws_col = (if ws_col - 3 < 1 then 50 else nat (ws_col - 3))"

definition read_line :: "string \<Rightarrow> int \<Rightarrow> int list \<Rightarrow> history \<Rightarrow> (line option \<times> int list \<times> editor) option" where
  "read_line prompt ws_col ks h =
     (let e0 = \<lparr>buffer = replicate BUFLEN END_STRING, pos = 0, row = 0, col = 0, tty = [], hist = h\<rparr>;
          e1 = printf_debug ''$ '' (printf_debug ([ESC] @ ''[31m '' @ prompt @ [SPACE, ESC] @ ''[0m'' @ [END_LINE]) e0)
      in case read_keys (max_col ws_col) ks e1 of
          None \<Rightarrow> None
        | Some (c, ks', e2) \<Rightarrow>
            if c = EOF \<or> c = CHAR_EOXMIT then Some (None, ks', e2)
            else let e3 = writeChar END_LINE (max_col ws_col) e2 in
              if pos e3 < length (buffer e3)
              then Some (Some ((buffer e3)[pos e3 := END_STRING]), ks',
                         e3\<lparr>buffer := (buffer e3)[pos e3 := END_STRING]\<rparr>)
              else None)"

end
