(* ===== verification/ShRun.thy ===== *)
theory ShRun
  imports ShHistory
begin

text \<open>
  shell/exec.c, builtin.c, runcmd.c and printstatus.c. What the operating system does is a
  parameter: \<open>sys\<close> answers \<open>open\<close>, \<open>pipe\<close> and \<open>fork\<close> for a process, \<open>world\<close> answers the calls of
  the shell itself. A process is its environment and its table of descriptors; a call of
  \<open>execvp\<close>, which does not return, is the result \<open>Execvp\<close> of \<open>exec_cmd\<close>.
\<close>

section \<open>exec.c: the environment\<close>

text \<open>The loops stop at the \<open>=\<close> and at the end of the argument.\<close>

fun get_environ_key :: "string \<Rightarrow> string option" where
  "get_environ_key [] = None"
| "get_environ_key (c # cs) = (if c = CHR ''='' then Some [] else map_option ((#) c) (get_environ_key cs))"

definition get_environ_value :: "string \<Rightarrow> nat \<Rightarrow> string" where
  "get_environ_value arg idx = drop (idx + 1) arg"

text \<open>\<open>setenv\<close> refuses an empty name.\<close>

fun set_environ_vars :: "environ \<Rightarrow> string list \<Rightarrow> environ option" where
  "set_environ_vars env [] = Some env"
| "set_environ_vars env (a # as) =
     (case get_environ_key a of
        None \<Rightarrow> None
      | Some key \<Rightarrow>
          let value = get_environ_value a (nat (block_contains a (CHR ''='')))
          in set_environ_vars (if key = '''' then env else env(key \<mapsto> value)) as)"

section \<open>exec.c: descriptors\<close>

datatype obj = Terminal | File string | PipeRead nat | PipeWrite nat

text \<open>A descriptor has its object and whether it is closed by \<open>execvp\<close>.\<close>

type_synonym fdtab = "nat \<Rightarrow> (obj \<times> bool) option"

datatype open_mode = TRUNC_WRITE | READ_ONLY

record sys =
  sys_open :: "fdtab \<Rightarrow> string \<Rightarrow> open_mode \<Rightarrow> nat option"
  sys_pipe :: "fdtab \<Rightarrow> (nat \<times> nat) option"
  sys_fork :: "nat \<Rightarrow> fdtab \<Rightarrow> bool"

definition STDIN_FILENO :: nat where "STDIN_FILENO = 0"
definition STDOUT_FILENO :: nat where "STDOUT_FILENO = 1"
definition STDERR_FILENO :: nat where "STDERR_FILENO = 2"

lemmas fd_numbers = STDIN_FILENO_def STDOUT_FILENO_def STDERR_FILENO_def

text \<open>\<open>dup2\<close> does nothing with a closed descriptor, or onto the same one; a copy stays open in \<open>execvp\<close>.\<close>

definition dup2 :: "fdtab \<Rightarrow> nat \<Rightarrow> nat \<Rightarrow> fdtab" where
  "dup2 fds old new =
     (case fds old of
        None \<Rightarrow> fds
      | Some (x, cloexec) \<Rightarrow> if old = new then fds else fds(new \<mapsto> (x, False)))"

definition close_fd :: "fdtab \<Rightarrow> nat \<Rightarrow> fdtab" where
  "close_fd fds fd = fds(fd := None)"

definition open_redir_fd :: "sys \<Rightarrow> fdtab \<Rightarrow> string \<Rightarrow> open_mode \<Rightarrow> (nat \<times> fdtab) option" where
  "open_redir_fd os fds file mode =
     map_option (\<lambda>fd. (fd, fds(fd \<mapsto> (File file, True)))) (sys_open os fds file mode)"

text \<open>The three redirections; \<open>None\<close> when a file cannot be opened and the command is given up.\<close>

definition redirect_out :: "sys \<Rightarrow> fdtab \<Rightarrow> string \<Rightarrow> fdtab option" where
  "redirect_out os fds file =
     (if file = '''' then Some fds
      else map_option (\<lambda>(fd, fds1). dup2 fds1 fd STDOUT_FILENO) (open_redir_fd os fds file TRUNC_WRITE))"

definition redirect_in :: "sys \<Rightarrow> fdtab \<Rightarrow> string \<Rightarrow> fdtab option" where
  "redirect_in os fds file =
     (if file = '''' then Some fds
      else map_option (\<lambda>(fd, fds1). dup2 fds1 fd STDIN_FILENO) (open_redir_fd os fds file READ_ONLY))"

text \<open>For \<open>&1\<close> the code copies descriptor 1 to \<open>fd_err\<close>, which is still 0, and that to descriptor 2.\<close>

definition redirect_err :: "sys \<Rightarrow> fdtab \<Rightarrow> string \<Rightarrow> fdtab option" where
  "redirect_err os fds file =
     (if file = '''' then Some fds
      else if file = ''&1'' then Some (dup2 (dup2 fds STDOUT_FILENO 0) 0 STDERR_FILENO)
      else map_option (\<lambda>(fd, fds1). dup2 fds1 fd STDERR_FILENO) (open_redir_fd os fds file TRUNC_WRITE))"

definition redirect :: "sys \<Rightarrow> fdtab \<Rightarrow> execcmd \<Rightarrow> fdtab option" where
  "redirect os fds r =
     (case redirect_out os fds (out_file r) of
        None \<Rightarrow> None
      | Some f1 \<Rightarrow>
          case redirect_in os f1 (in_file r) of
            None \<Rightarrow> None
          | Some f2 \<Rightarrow> redirect_err os f2 (err_file r))"

definition kept_by_exec :: "fdtab \<Rightarrow> nat \<Rightarrow> obj option" where
  "kept_by_exec fds fd = (case fds fd of Some (x, False) \<Rightarrow> Some x | _ \<Rightarrow> None)"

section \<open>exec.c: exec_cmd\<close>

text \<open>
  What a process does: the program it becomes, giving up (\<open>exec_cmd\<close> returns and the caller
  exits with failure), a crash on a null pointer or an argument outside its string, or a pipe
  with the tasks of its two children (\<open>None\<close> for a failed fork).
\<close>

datatype task = Execvp "string list" environ "nat \<Rightarrow> obj option" | Gives_up | Crashes
  | Piped "task option" "task option"

text \<open>
  \<open>exec_cmd\<close>, with the number of the pipe made last. \<open>sys_fork n\<close> answers the fork of the writer
  of pipe \<open>n div 2\<close> for even \<open>n\<close>, and that of its reader for odd \<open>n\<close>.
\<close>

function (sequential) exec_cmd :: "sys \<Rightarrow> environ \<Rightarrow> nat \<Rightarrow> fdtab \<Rightarrow> cmd option \<Rightarrow> task" where
  "exec_cmd os env n fds None = Crashes"
| "exec_cmd os env n fds (Some (Execcmd e)) =
     (if e_type e = REDIR then
        (case redirect os fds e of
           None \<Rightarrow> Gives_up
         | Some fds' \<Rightarrow> Execvp (argv e) env (kept_by_exec fds'))
      else
        (case set_environ_vars env (eargv e) of
           None \<Rightarrow> Crashes
         | Some env' \<Rightarrow> Execvp (argv e) env' (kept_by_exec fds)))"
| "exec_cmd os env n fds (Some (Backcmd s c)) = exec_cmd os env n fds (Some c)"
| "exec_cmd os env n fds (Some (Pipecmd l r)) =
     (case sys_pipe os fds of
        None \<Rightarrow> Gives_up
      | Some (rd, wr) \<Rightarrow>
          let fds1 = fds(rd \<mapsto> (PipeRead n, False), wr \<mapsto> (PipeWrite n, False));
              lfds = close_fd (dup2 (close_fd fds1 rd) wr STDOUT_FILENO) wr;
              rfds = close_fd (dup2 (close_fd fds1 wr) rd STDIN_FILENO) rd
          in Piped (if sys_fork os (2 * n) fds1 then Some (exec_cmd os env (n + 1) lfds l) else None)
                   (if sys_fork os (2 * n + 1) fds1 then Some (exec_cmd os env (n + 1) rfds r) else None))"
  by pat_completeness auto
termination
  by (relation "measure (\<lambda>(os, env, n, fds, c). case c of None \<Rightarrow> 0 | Some x \<Rightarrow> Suc (size x))")
    (auto split: option.splits)

text \<open>The exit status of the process that made a pipe, from the statuses of its children.\<close>

definition pipe_status :: "int \<Rightarrow> int \<Rightarrow> int" where
  "pipe_status left_status right_status = (if left_status \<noteq> 0 \<or> right_status \<noteq> 0 then 1 else 0)"

section \<open>builtin.c\<close>

record shell =
  sh_env :: environ
  sh_status :: int
  sh_back :: nat
  sh_prompt :: string
  sh_cwd :: string
  sh_hist :: history
  sh_files :: "string \<Rightarrow> string option"
  sh_out :: "string list"

text \<open>
  \<open>w_chdir\<close> gives the directory reached from a directory by a path, if there is one; \<open>w_getcwd\<close>
  the answer of \<open>get_current_dir_name\<close>; \<open>w_reap\<close> the answers of \<open>waitpid\<close> for any child that has
  ended, with the status; \<open>w_fork\<close> the process number, negative when \<open>fork\<close> fails; \<open>w_wait\<close> the
  status of the child waited for.
\<close>

record world =
  w_sys :: sys
  w_fds :: fdtab
  w_chdir :: "string \<Rightarrow> string \<Rightarrow> string option"
  w_getcwd :: "string \<Rightarrow> string option"
  w_reap :: "(int \<times> int) list"
  w_fork :: int
  w_wait :: "int \<Rightarrow> int option"
  w_ws_col :: int

definition say :: "string \<Rightarrow> shell \<Rightarrow> shell" where
  "say s h = h\<lparr>sh_out := sh_out h @ [s]\<rparr>"

definition exit_shell :: "shell \<Rightarrow> string \<Rightarrow> bool \<times> shell" where
  "exit_shell h cmd = (if cmd = ''exit'' then (True, h\<lparr>sh_status := 1\<rparr>) else (False, h))"

definition PRMTLEN :: nat where "PRMTLEN = 1024"

text \<open>\<open>snprintf\<close> truncates; a null argument of \<open>chdir\<close> or of \<open>%s\<close> is \<open>None\<close>.\<close>

definition set_prompt :: "shell \<Rightarrow> string \<Rightarrow> shell" where
  "set_prompt h dir = h\<lparr>sh_prompt := take (PRMTLEN - 1) (''('' @ dir @ '')'')\<rparr>"

definition cd :: "world \<Rightarrow> shell \<Rightarrow> string \<Rightarrow> (bool \<times> shell) option" where
  "cd w h cmd =
     (if take 2 cmd = ''cd'' then
        (if length cmd = 2 then
           (case sh_env h ''HOME'' of
              None \<Rightarrow> None
            | Some home \<Rightarrow>
                (case w_chdir w (sh_cwd h) home of
                   None \<Rightarrow> Some (False, h\<lparr>sh_status := 1\<rparr>)
                 | Some d \<Rightarrow> Some (True, set_prompt (h\<lparr>sh_cwd := d\<rparr>) home)))
         else if cmd ! 2 = SPACE then
           (case w_chdir w (sh_cwd h) (drop 3 cmd) of
              None \<Rightarrow> Some (False, h\<lparr>sh_status := 1\<rparr>)
            | Some d \<Rightarrow>
                (case w_getcwd w d of
                   None \<Rightarrow> None
                 | Some name \<Rightarrow> Some (True, set_prompt (h\<lparr>sh_cwd := d\<rparr>) name)))
         else Some (False, h))
      else Some (False, h))"

definition pwd :: "world \<Rightarrow> shell \<Rightarrow> string \<Rightarrow> bool \<times> shell" where
  "pwd w h cmd =
     (if cmd = ''pwd'' then
        (case w_getcwd w (sh_cwd h) of
           None \<Rightarrow> (False, h\<lparr>sh_status := 1\<rparr>)
         | Some d \<Rightarrow> (True, say (d @ [END_LINE]) h))
      else (False, h))"

definition isdigit :: "char \<Rightarrow> bool" where
  "isdigit c \<longleftrightarrow> 48 \<le> (of_char c :: nat) \<and> (of_char c :: nat) \<le> 57"

fun atoi_from :: "int \<Rightarrow> string \<Rightarrow> int" where
  "atoi_from v [] = v"
| "atoi_from v (c # cs) = (if isdigit c then atoi_from (10 * v + (of_char c - 48)) cs else v)"

text \<open>A number that does not fit an \<open>int\<close> is outside of what \<open>atoi\<close> defines.\<close>

definition atoi :: "string \<Rightarrow> int option" where
  "atoi s = (let v = atoi_from 0 s in if v < 2 ^ 31 then Some v else None)"

fun numbered :: "nat \<Rightarrow> string list \<Rightarrow> string list" where
  "numbered i [] = []"
| "numbered i (l # ls) = (digits i @ '': '' @ l) # numbered (i + 1) ls"

definition say_all :: "string list \<Rightarrow> shell \<Rightarrow> shell" where
  "say_all ss h = h\<lparr>sh_out := sh_out h @ ss\<rparr>"

text \<open>The line buffer is given; the tokens are read from it.\<close>

definition history_builtin :: "shell \<Rightarrow> line \<Rightarrow> (bool \<times> shell) option" where
  "history_builtin h buf =
     (case get_token buf 0 of
        None \<Rightarrow> None
      | Some command \<Rightarrow>
          if command \<noteq> ''history'' then Some (False, h)
          else let idx = length command in
            if buf ! idx = END_STRING then
              map_option (\<lambda>ls. (True, say_all (numbered 0 ls) h)) (lines_to_null (history_arr (sh_hist h)))
            else
              (case get_token buf (idx + 1) of
                 None \<Rightarrow> None
               | Some arg \<Rightarrow>
                   if \<not> list_all isdigit arg then Some (False, h)
                   else if buf ! (idx + 1 + length arg) = END_STRING then
                     (case (atoi arg, lines_to_null (history_arr (sh_hist h))) of
                        (Some n, Some ls) \<Rightarrow>
                          let n' = min n (int (length ls)); k = length ls - nat n'
                          in Some (True, say_all (numbered k (drop k ls)) h)
                      | _ \<Rightarrow> None)
                   else Some (False, h)))"

section \<open>printstatus.c\<close>

text \<open>The macros of \<open>sys/wait.h\<close> on the status word.\<close>

definition WTERMSIG :: "int \<Rightarrow> int" where "WTERMSIG st = st mod 128"
definition WIFEXITED :: "int \<Rightarrow> bool" where "WIFEXITED st \<longleftrightarrow> WTERMSIG st = 0"
definition WIFSIGNALED :: "int \<Rightarrow> bool" where "WIFSIGNALED st \<longleftrightarrow> 0 < WTERMSIG st \<and> WTERMSIG st < 127"
definition WEXITSTATUS :: "int \<Rightarrow> int" where "WEXITSTATUS st = st div 256 mod 256"
definition WSTOPSIG :: "int \<Rightarrow> int" where "WSTOPSIG st = WEXITSTATUS st"

definition BLUE :: string where "BLUE = ESC # ''[34m''"
definition RESET :: string where "RESET = ESC # ''[0m''"

definition status_line :: "string \<Rightarrow> string \<Rightarrow> int \<Rightarrow> string" where
  "status_line what cmd n = BLUE @ [CHR 0x09] @ ''Program: ['' @ cmd @ ''] '' @ what @ '', status: '' @
     show_int n @ [SPACE] @ RESET @ [END_LINE]"

definition print_status_info :: "cmd \<Rightarrow> shell \<Rightarrow> shell" where
  "print_status_info c h =
     (let st = sh_status h in
      if scmd c = '''' \<or> type_of_cmd c = PIPE then h
      else if WIFEXITED st then
        (say (status_line ''exited'' (scmd c) (WEXITSTATUS st)) h)\<lparr>sh_status := WEXITSTATUS st\<rparr>
      else if WIFSIGNALED st then
        (say (status_line ''killed'' (scmd c) (- WTERMSIG st)) h)\<lparr>sh_status := - WTERMSIG st\<rparr>
      else if WTERMSIG st \<noteq> 0 then
        (say (status_line ''stopped'' (scmd c) (- WSTOPSIG st)) h)\<lparr>sh_status := - WSTOPSIG st\<rparr>
      else h)"

definition print_back_info :: "int \<Rightarrow> shell \<Rightarrow> shell" where
  "print_back_info pid h = say (BLUE @ ''  [PID='' @ show_int pid @ ''] '' @ RESET @ [END_LINE]) h"

section \<open>runcmd.c\<close>

text \<open>\<open>n\<close> calls of \<open>waitpid\<close>; \<open>kept\<close> counts the processes that have not ended.\<close>

fun wait_back_loop :: "nat \<Rightarrow> (int \<times> int) list \<Rightarrow> nat \<Rightarrow> shell \<Rightarrow> shell" where
  "wait_back_loop 0 answers kept h = h\<lparr>sh_back := kept\<rparr>"
| "wait_back_loop (Suc n) [] kept h = wait_back_loop n [] kept h"
| "wait_back_loop (Suc n) ((ret, st) # answers) kept h =
     (if ret = 0 then wait_back_loop n answers (kept + 1) h
      else if ret = - 1 then wait_back_loop n answers kept h
      else wait_back_loop n answers kept (h\<lparr>sh_status := st\<rparr>))"

definition wait_back_processes :: "world \<Rightarrow> shell \<Rightarrow> shell" where
  "wait_back_processes w h = wait_back_loop (sh_back h) (w_reap w) 0 h"

definition save_command :: "shell \<Rightarrow> string \<Rightarrow> shell option" where
  "save_command h cmd =
     (case save_command_in_memory (sh_hist h) cmd of
        None \<Rightarrow> None
      | Some hs \<Rightarrow> map_option (\<lambda>fs. h\<lparr>sh_hist := hs, sh_files := fs\<rparr>)
                     (save_command_in_file (sh_env h) (sh_files h) cmd))"

definition EXIT_SHELL :: int where "EXIT_SHELL = 1"

text \<open>What the child does, which frees the history first, and what the shell does meanwhile.\<close>

definition child_task :: "world \<Rightarrow> shell \<Rightarrow> cmd option \<Rightarrow> task" where
  "child_task w h parsed =
     (if free_history (sh_hist h) = None then Crashes
      else exec_cmd (w_sys w) (sh_env h) 0 (w_fds w) parsed)"

definition after_fork :: "world \<Rightarrow> shell \<Rightarrow> cmd option \<Rightarrow> shell option" where
  "after_fork w h parsed =
     (case parsed of
        None \<Rightarrow> None
      | Some c \<Rightarrow>
          let h1 = (if type_of_cmd c = BACK
                    then (print_back_info (w_fork w) h)\<lparr>sh_back := sh_back h + 1\<rparr>
                    else print_status_info c
                      (case w_wait w (w_fork w) of None \<Rightarrow> h | Some st \<Rightarrow> h\<lparr>sh_status := st\<rparr>))
          in if free_command parsed = None then None else Some h1)"

text \<open>The result, the task of the child when one is made, and the new state.\<close>

definition run_program :: "world \<Rightarrow> shell \<Rightarrow> line \<Rightarrow> (int \<times> task option \<times> shell) option" where
  "run_program w h buf =
     (case parse_line (sh_env h) (sh_status h) buf 0 of
        None \<Rightarrow> None
      | Some (buf', parsed) \<Rightarrow>
          map_option (\<lambda>h1. (0, if w_fork w > 0 then Some (child_task w h parsed) else None, h1))
            (after_fork w h parsed))"

definition run_cmd :: "world \<Rightarrow> shell \<Rightarrow> line \<Rightarrow> (int \<times> task option \<times> shell) option" where
  "run_cmd w h0 buf =
     (let h1 = wait_back_processes w h0 in
      if buf = [] then None
      else if buf ! 0 = END_STRING then Some (0, None, h1)
      else do {
        cmd \<leftarrow> string_at buf 0;
        h2 \<leftarrow> save_command h1 cmd;
        (hit1, h3) \<leftarrow> history_builtin h2 buf;
        if hit1 then Some (0, None, h3) else do {
          (hit2, h4) \<leftarrow> cd w h3 cmd;
          if hit2 then Some (0, None, h4)
          else case exit_shell h4 cmd of
              (True, h5) \<Rightarrow> Some (EXIT_SHELL, None, h5)
            | (False, h5) \<Rightarrow>
                (case pwd w h5 cmd of
                   (True, h6) \<Rightarrow> Some (0, None, h6)
                 | (False, h6) \<Rightarrow> run_program w h6 buf)
        }
      })"

section \<open>sh.c\<close>

definition init_shell :: "world \<Rightarrow> shell \<Rightarrow> shell option" where
  "init_shell w h =
     (case sh_env h ''HOME'' of
        None \<Rightarrow> None
      | Some home \<Rightarrow>
          let h1 = (case w_chdir w (sh_cwd h) home of
                      None \<Rightarrow> h
                    | Some d \<Rightarrow> set_prompt (h\<lparr>sh_cwd := d\<rparr>) home)
          in map_option (\<lambda>hs. h1\<lparr>sh_hist := hs\<rparr>) (load_history (sh_env h) (sh_files h)))"

lemma read_keys_less:
  "read_keys MAX_COL ks e = Some (c, ks', e') \<Longrightarrow> c \<noteq> EOF \<Longrightarrow> length ks' < length ks"
proof (induction MAX_COL ks e rule: read_keys.induct)
  case (2 MAX_COL k ks e)
  then show ?case
    by (fastforce split: if_splits option.splits prod.splits dest: navigate_length)
qed simp

lemma read_line_less:
  "read_line p ws ks h = Some (Some buf, ks', e) \<Longrightarrow> length ks' < length ks"
  by (auto simp: read_line_def Let_def split: option.splits prod.splits if_splits dest!: read_keys_less)

text \<open>
  The loop of the shell, with the world of each command: the tasks of the processes that it
  started and its last state. It ends because every line takes a key.
\<close>

function run_shell :: "(nat \<Rightarrow> world) \<Rightarrow> nat \<Rightarrow> int list \<Rightarrow> shell \<Rightarrow> (task list \<times> shell) option" where
  "run_shell w n ks h =
     (case read_line (sh_prompt h) (w_ws_col (w n)) ks (sh_hist h) of
        None \<Rightarrow> None
      | Some (None, ks', e) \<Rightarrow> Some ([], say_all (tty e) (h\<lparr>sh_hist := hist e\<rparr>))
      | Some (Some buf, ks', e) \<Rightarrow>
          case run_cmd (w n) (say_all (tty e) (h\<lparr>sh_hist := hist e\<rparr>)) buf of
            None \<Rightarrow> None
          | Some (r, t, h1) \<Rightarrow>
              if r = EXIT_SHELL then map_option (\<lambda>_. ([], h1)) (free_history (sh_hist h1))
              else map_option (\<lambda>(ts, h2). ((case t of None \<Rightarrow> ts | Some x \<Rightarrow> x # ts), h2))
                     (run_shell w (n + 1) ks' h1))"
  by pat_completeness auto
termination
  by (relation "measure (\<lambda>(w, n, ks, h). length ks)") (auto dest!: read_line_less)

declare run_shell.simps [simp del]

end
