(* ===== verification/ShParseSpec.thy ===== *)
theory ShParseSpec
  imports ShHistory
begin

text \<open>
  The parser read backwards: a pipeline of simple commands is printed with single spaces and
  parsed again. The lemmas follow the loops over the line buffer, which may go on behind the
  line.
\<close>

section \<open>Tokens\<close>

definition plain_char :: "char \<Rightarrow> bool" where
  "plain_char c \<longleftrightarrow> c \<notin> {SPACE, END_STRING, CHR ''|'', CHR ''&'', CHR ''<'', CHR ''>'', CHR ''='', CHR ''$''}"

definition plain_word :: "string \<Rightarrow> bool" where
  "plain_word w \<longleftrightarrow> w \<noteq> '''' \<and> length w + 2 < ARGSIZE \<and> list_all plain_char w"

text \<open>A token as the loops see it: not empty, short enough, and without spaces and terminators.\<close>

definition token :: "string \<Rightarrow> bool" where
  "token t \<longleftrightarrow> t \<noteq> '''' \<and> length t < ARGSIZE \<and> list_all (\<lambda>c. c \<noteq> SPACE \<and> c \<noteq> END_STRING) t"

fun unwords :: "string list \<Rightarrow> string" where
  "unwords [] = ''''"
| "unwords [t] = t"
| "unwords (t # ts) = t @ SPACE # unwords ts"

lemma get_token_from_word:
  "list_all (\<lambda>c. c \<noteq> SPACE \<and> c \<noteq> END_STRING) t \<Longrightarrow> i + length t < ARGSIZE \<Longrightarrow> c = SPACE \<or> c = END_STRING \<Longrightarrow>
     get_token_from (t @ c # cs) i = Some t"
  by (induction t arbitrary: i) auto

lemma get_token_word:
  assumes "drop idx buf = t @ c # cs" "token t" "c = SPACE \<or> c = END_STRING"
  shows "get_token buf idx = Some t" "idx + length t < length buf" "buf ! (idx + length t) = c"
    "drop (idx + length t + 1) buf = cs" "buf ! idx \<noteq> END_STRING" "idx < length buf"
proof -
  show "get_token buf idx = Some t"
    using assms by (auto simp: get_token_def token_def intro!: get_token_from_word)
  have len: "length buf - idx = length t + 1 + length cs" using arg_cong [OF assms(1), of length] by simp
  then show *: "idx + length t < length buf" by simp
  then show "idx < length buf" by simp
  have "buf ! (idx + length t) = drop idx buf ! length t" using * by simp
  then show "buf ! (idx + length t) = c" by (simp add: assms(1))
  have "drop (idx + length t + 1) buf = drop (length t + 1) (drop idx buf)" by (simp add: add.commute)
  then show "drop (idx + length t + 1) buf = cs" by (simp add: assms(1))
  have "buf ! idx = drop idx buf ! 0" using * by simp
  then show "buf ! idx \<noteq> END_STRING" using assms(1,2) by (cases t) (auto simp: token_def)
qed

text \<open>The tokens of a command, one after the other.\<close>

fun parse_tokens :: "environ \<Rightarrow> int \<Rightarrow> execcmd \<Rightarrow> string list \<Rightarrow> execcmd option" where
  "parse_tokens env st c [] = (if length (argv c) < MAXARGS then Some c else None)"
| "parse_tokens env st c (t # ts) =
     (case parse_arg env st c t of None \<Rightarrow> None | Some c' \<Rightarrow> parse_tokens env st c' ts)"

lemma parse_args_end:
  assumes "drop idx buf = END_STRING # cs"
  shows "parse_args env st buf idx c = parse_tokens env st c []"
proof -
  have "idx < length buf" using assms by (cases "idx < length buf") auto
  moreover have "buf ! idx = END_STRING" using assms calculation by (metis Cons_nth_drop_Suc list.inject)
  ultimately show ?thesis by (subst parse_args.simps) simp
qed

lemma parse_args_tokens:
  assumes "drop idx buf = unwords ts @ sp @ END_STRING # cs" "list_all token ts" "sp = '''' \<or> sp = [SPACE] \<and> ts \<noteq> []"
  shows "parse_args env st buf idx c = parse_tokens env st c ts"
  using assms
proof (induction ts arbitrary: idx c rule: unwords.induct)
  case 1
  then show ?case using parse_args_end [of idx buf cs env st c] by auto
next
  case (2 t)
  have t: "token t" using "2.prems" by simp
  show ?case
  proof (cases "sp = ''''")
    case True
    note g = get_token_word [OF "2.prems"(1) [unfolded True, simplified] t]
    have "parse_args env st buf idx c = (case parse_arg env st c t of None \<Rightarrow> None
        | Some c' \<Rightarrow> parse_args env st buf (idx + length t) c')"
      using g by (subst parse_args.simps) (simp add: Let_def)
    moreover have "drop (idx + length t) buf = END_STRING # cs"
      using "2.prems"(1) True drop_drop [of "length t" idx buf] by (simp add: add.commute)
    ultimately show ?thesis using parse_args_end by (simp split: option.splits)
  next
    case False
    then have sp: "sp = [SPACE]" using "2.prems"(3) by simp
    have d: "drop idx buf = t @ SPACE # (END_STRING # cs)" using "2.prems"(1) by (simp add: sp)
    note g = get_token_word [OF d t, simplified]
    have "parse_args env st buf idx c = (case parse_arg env st c t of None \<Rightarrow> None
        | Some c' \<Rightarrow> parse_args env st buf (idx + length t + 1) c')"
      using g by (subst parse_args.simps) (simp add: Let_def sh_chars)
    then show ?thesis using parse_args_end [of "idx + length t + 1" buf cs] g(4) by (simp split: option.splits)
  qed
next
  case (3 t u ts)
  have t: "token t" using "3.prems" by simp
  have d: "drop idx buf = t @ SPACE # (unwords (u # ts) @ sp @ END_STRING # cs)" using "3.prems"(1) by simp
  note g = get_token_word [OF d t, simplified]
  have "parse_args env st buf idx c = (case parse_arg env st c t of None \<Rightarrow> None
      | Some c' \<Rightarrow> parse_args env st buf (idx + length t + 1) c')"
    using g by (subst parse_args.simps) (simp add: Let_def sh_chars)
  moreover have "parse_args env st buf (idx + length t + 1) c' = parse_tokens env st c' (u # ts)" for c'
    by (rule "3.IH") (use g(4) "3.prems" in simp_all)
  ultimately show ?case by (simp split: option.splits)
qed

section \<open>Simple commands\<close>

datatype simple = Simple "string list" string string string

text \<open>Words, then the files of the output, the input and the error output; empty for none.\<close>

fun tokens :: "simple \<Rightarrow> string list" where
  "tokens (Simple ws out inp err) = ws @ (if out = '''' then [] else [CHR ''>'' # out]) @
     (if inp = '''' then [] else [CHR ''<'' # inp]) @ (if err = '''' then [] else [CHR ''2'' # CHR ''>'' # err])"

fun simple_ok :: "simple \<Rightarrow> bool" where
  "simple_ok (Simple ws out inp err) \<longleftrightarrow> list_all plain_word ws \<and> length ws < MAXARGS \<and>
     (ws \<noteq> [] \<or> out \<noteq> '''' \<or> inp \<noteq> '''' \<or> err \<noteq> '''') \<and>
     (out = '''' \<or> plain_word out) \<and> (inp = '''' \<or> plain_word inp) \<and> (err = '''' \<or> plain_word err)"

fun exec_of :: "string \<Rightarrow> simple \<Rightarrow> execcmd" where
  "exec_of text (Simple ws out inp err) =
     \<lparr>e_type = (if out = '''' \<and> inp = '''' \<and> err = '''' then EXEC else REDIR), e_scmd = text,
      argv = ws, eargv = [], out_file = out, in_file = inp, err_file = err\<rparr>"

lemma block_contains_notin: "x \<notin> set s \<Longrightarrow> block_contains s x = - 1"
proof -
  have "x \<notin> set s \<Longrightarrow> block_contains_from i s x = - 1" for i by (induction s arbitrary: i) auto
  then show "x \<notin> set s \<Longrightarrow> block_contains s x = - 1" by (simp add: block_contains_def)
qed

lemma block_contains_first: "block_contains (x # s) x = 0" "y \<noteq> x \<Longrightarrow> block_contains (y # x # s) x = 1"
  by (simp_all add: block_contains_def)

lemma plain_notin:
  "list_all plain_char w \<Longrightarrow> x \<in> {SPACE, END_STRING, CHR ''|'', CHR ''&'', CHR ''<'', CHR ''>'', CHR ''='', CHR ''$''} \<Longrightarrow>
     x \<notin> set w"
  by (auto simp: list_all_iff plain_char_def)

lemma parse_arg_word:
  assumes "plain_word w" "length (argv c) < MAXARGS"
  shows "parse_arg env st c w = Some (c\<lparr>argv := argv c @ [w]\<rparr>)"
proof -
  have "block_contains w x = - 1" if "x \<in> {CHR ''<'', CHR ''>'', CHR ''='', CHR ''$''}" for x
    using that plain_notin [of w x] assms(1) by (intro block_contains_notin) (auto simp: plain_word_def)
  then show ?thesis
    using assms by (auto simp: parse_arg_def parse_redir_flow_def parse_environ_var_def expand_environ_var_def
        Let_def plain_word_def)
qed

lemma parse_arg_redirect:
  "parse_arg env st c (CHR ''>'' # f) = Some (c\<lparr>out_file := f, e_type := REDIR\<rparr>)"
  "list_all plain_char f \<Longrightarrow> parse_arg env st c (CHR ''<'' # f) = Some (c\<lparr>in_file := f, e_type := REDIR\<rparr>)"
  "parse_arg env st c (CHR ''2'' # CHR ''>'' # f) = Some (c\<lparr>err_file := f, e_type := REDIR\<rparr>)"
  using plain_notin [of f "CHR ''>''"]
  by (simp_all add: parse_arg_def parse_redir_flow_def Let_def block_contains_first block_contains_notin)

lemma parse_tokens_words:
  "list_all plain_word ws \<Longrightarrow> length (argv c) + length ws < MAXARGS \<Longrightarrow>
     parse_tokens env st c (ws @ ts) = parse_tokens env st (c\<lparr>argv := argv c @ ws\<rparr>) ts"
  by (induction ws arbitrary: c) (simp_all add: parse_arg_word)

lemma parse_tokens_simple:
  "simple_ok s \<Longrightarrow> parse_tokens env st (exec_cmd_create text) (tokens s) = Some (exec_of text s)"
  by (cases s) (auto simp: parse_tokens_words exec_cmd_create_def parse_arg_redirect plain_word_def)

lemma tokens_token: "simple_ok s \<Longrightarrow> list_all token (tokens s) \<and> tokens s \<noteq> []"
proof (cases s)
  case (Simple ws out inp err)
  assume ok: "simple_ok s"
  have w: "token w" if "plain_word w" for w
    using that by (auto simp: plain_word_def token_def list_all_iff plain_char_def)
  have r: "token (x # w)" "token (y # x # w)"
    if "plain_word w" "x \<in> {CHR ''<'', CHR ''>''}" "y = CHR ''2''" for x y w
    using that by (auto simp: plain_word_def token_def list_all_iff plain_char_def sh_chars)
  show ?thesis using ok w r by (auto simp: Simple list_all_iff)
qed

lemma tokens_chars:
  assumes "simple_ok s"
  shows "c \<in> set (unwords (tokens s)) \<Longrightarrow> c \<notin> {CHR ''|'', CHR ''&'', END_STRING}"
proof -
  have un: "c \<in> set (unwords ts) \<Longrightarrow> c = SPACE \<or> (\<exists>t \<in> set ts. c \<in> set t)" for ts
    by (induction ts rule: unwords.induct) auto
  have w: "c \<notin> {CHR ''|'', CHR ''&'', END_STRING}" if "plain_word w" "c \<in> set w" for w
    using that plain_notin [of w c] by (auto simp: plain_word_def)
  assume "c \<in> set (unwords (tokens s))"
  then show ?thesis
    using un [of "tokens s"] assms w by (cases s) (auto simp: list_all_iff sh_chars split: if_splits)
qed

section \<open>Lines\<close>

lemma string_at_text:
  "drop i buf = t @ END_STRING # cs \<Longrightarrow> END_STRING \<notin> set t \<Longrightarrow> string_at buf i = Some t"
  by (auto simp: string_at_def takeWhile_append)

abbreviation text_of :: "simple \<Rightarrow> string" where "text_of s \<equiv> unwords (tokens s)"

lemma text_first: "simple_ok s \<Longrightarrow> \<exists>x xs. text_of s = x # xs \<and> x \<noteq> SPACE \<and> x \<noteq> END_STRING"
proof -
  assume "simple_ok s"
  then obtain t ts where t: "tokens s = t # ts" "token t" using tokens_token [of s] by (cases "tokens s") auto
  then obtain x xs where x: "t = x # xs" "x \<noteq> SPACE" "x \<noteq> END_STRING" by (cases t) (auto simp: token_def)
  then show ?thesis using t by (cases ts) auto
qed

lemma parse_cmd_simple:
  assumes d: "drop start buf = text_of s @ sp @ END_STRING # cs" and s: "simple_ok s" and sp: "sp = '''' \<or> sp = [SPACE]"
  shows "parse_cmd env st buf start = Some (buf, Some (Execcmd (exec_of (text_of s @ sp) s)))"
proof -
  have chars: "END_STRING \<notin> set (text_of s @ sp)" "CHR ''&'' \<notin> set (text_of s @ sp)"
    using tokens_chars [OF s] sp by (auto simp: sh_chars)
  have str: "string_at buf start = Some (text_of s @ sp)"
    by (rule string_at_text) (use d chars in simp_all)
  have "parse_args env st buf start (exec_cmd_create (text_of s @ sp)) =
      parse_tokens env st (exec_cmd_create (text_of s @ sp)) (tokens s)"
    by (rule parse_args_tokens [OF d]) (use tokens_token [OF s] sp in auto)
  then have "parse_exec env st buf start = Some (Execcmd (exec_of (text_of s @ sp) s))"
    by (simp add: parse_exec_def str parse_tokens_simple [OF s])
  moreover have "text_of s @ sp \<noteq> ''''" using text_first [OF s] by auto
  ultimately show ?thesis
    using block_contains_notin [OF chars(2)] by (simp add: parse_cmd_def str Let_def)
qed

lemma scan_stop: "list_all (\<lambda>a. \<not> stop a) t \<Longrightarrow> stop c \<Longrightarrow> scan stop (t @ c # cs) i = Some (i + length t)"
  by (induction t arbitrary: i) auto

lemma split_line_at:
  assumes d: "drop start buf = t @ c # replicate k SPACE @ x # cs" and t: "list_all (\<lambda>a. a \<noteq> sp \<and> a \<noteq> END_STRING) t"
    and c: "c = sp \<or> c = END_STRING" and x: "x \<noteq> SPACE"
  defines "buf' \<equiv> buf[start + length t := END_STRING]" and "right \<equiv> start + length t + 1 + k"
  shows "split_line buf start sp = Some (buf', right)"
    "drop start buf' = t @ END_STRING # replicate k SPACE @ x # cs" "drop right buf' = x # cs"
proof -
  have len: "length buf - start = length t + 1 + k + 1 + length cs" using arg_cong [OF d, of length] by simp
  define pre where "pre = take start buf"
  have buf: "buf = pre @ t @ c # replicate k SPACE @ x # cs"
    using append_take_drop_id [of start buf] by (simp add: d pre_def)
  have st: "length pre = start" using len by (simp add: pre_def)
  have b': "buf' = pre @ t @ END_STRING # replicate k SPACE @ x # cs"
    unfolding buf'_def by (subst buf) (simp add: list_update_append st)
  show d': "drop start buf' = t @ END_STRING # replicate k SPACE @ x # cs" using st by (simp add: b')
  have d1: "drop (start + length t + 1) buf' = replicate k SPACE @ x # cs"
    using arg_cong [OF d', of "drop (length t + 1)"] by (simp add: add.commute add.left_commute)
  show "drop right buf' = x # cs"
    using arg_cong [OF d1, of "drop k"] by (simp add: right_def add.commute add.left_commute)
  have "scan (\<lambda>c. c = sp \<or> c = END_STRING) (drop start buf) start = Some (start + length t)"
    unfolding d by (rule scan_stop) (use t c in simp_all)
  moreover have "scan (\<lambda>c. c \<noteq> SPACE) (drop (start + length t + 1) buf') (start + length t + 1) = Some right"
    unfolding d1 by (subst scan_stop) (use x in \<open>auto simp: list_all_iff right_def\<close>)
  ultimately show "split_line buf start sp = Some (buf', right)" by (simp add: split_line_def buf'_def)
qed

fun show_line :: "simple list \<Rightarrow> string" where
  "show_line [] = ''''"
| "show_line [s] = text_of s"
| "show_line (s # ss) = text_of s @ '' | '' @ show_line ss"

fun line_tree :: "simple list \<Rightarrow> cmd" where
  "line_tree [] = undefined"
| "line_tree [s] = Execcmd (exec_of (text_of s) s)"
| "line_tree (s # ss) = Pipecmd (Some (Execcmd (exec_of (text_of s @ [SPACE]) s))) (Some (line_tree ss))"

lemma text_no_pipe:
  "simple_ok s \<Longrightarrow> sp = '''' \<or> sp = [SPACE] \<Longrightarrow>
     list_all (\<lambda>a. a \<noteq> CHR ''|'' \<and> a \<noteq> END_STRING) (text_of s @ sp)"
  using tokens_chars [of s] by (auto simp: list_all_iff sh_chars)

lemma parse_line_shown:
  "ss \<noteq> [] \<Longrightarrow> list_all simple_ok ss \<Longrightarrow> drop start buf = show_line ss @ END_STRING # END_STRING # cs \<Longrightarrow>
     \<exists>buf'. parse_line env st buf start = Some (buf', Some (line_tree ss))"
proof (induction ss arbitrary: start buf rule: show_line.induct)
  case (2 s)
  have s: "simple_ok s" using 2 by simp
  have d: "drop start buf = (text_of s @ '''') @ END_STRING # replicate 0 SPACE @ END_STRING # cs" using 2 by simp
  note sl = split_line_at [OF d text_no_pipe [OF s], simplified]
  let ?buf = "buf[start + length (text_of s) := END_STRING]"
  have "parse_cmd env st ?buf start = Some (?buf, Some (Execcmd (exec_of (text_of s @ '''') s)))"
    by (rule parse_cmd_simple [OF _ s]) (use sl(2) in \<open>simp_all add: sh_chars\<close>)
  moreover have "string_at ?buf (start + length (text_of s) + 1) = Some ''''"
    by (rule string_at_text [where t = "''''"]) (use sl(3) in \<open>simp_all add: sh_chars\<close>)
  ultimately show ?case
    using sl(1) by (subst parse_line.simps) (simp add: sh_chars pipe_cmd_create_def)
next
  case (3 s u ss)
  have s: "simple_ok s" and rest: "list_all simple_ok (u # ss)" using "3.prems" by simp_all
  obtain x xs where x: "show_line (u # ss) = x # xs" "x \<noteq> SPACE" "x \<noteq> END_STRING"
    using text_first [of u] rest by (cases ss) auto
  have d: "drop start buf = (text_of s @ [SPACE]) @ CHR ''|'' # replicate 1 SPACE @ x # (xs @ END_STRING # END_STRING # cs)"
    using "3.prems" by (simp add: x(1) sh_chars)
  note sl = split_line_at [OF d text_no_pipe [OF s] _ x(2)]
  let ?buf = "buf[start + length (text_of s @ [SPACE]) := END_STRING]" and ?right = "start + length (text_of s @ [SPACE]) + 1 + 1"
  have sl: "split_line buf start (CHR ''|'') = Some (?buf, ?right)"
    "drop start ?buf = text_of s @ [SPACE] @ END_STRING # replicate 1 SPACE @ x # (xs @ END_STRING # END_STRING # cs)"
    "drop ?right ?buf = show_line (u # ss) @ END_STRING # END_STRING # cs"
    using sl by (simp_all add: x(1))
  have pc: "parse_cmd env st ?buf start = Some (?buf, Some (Execcmd (exec_of (text_of s @ [SPACE]) s)))"
    by (rule parse_cmd_simple [OF sl(2) s]) simp
  obtain buf' where "parse_line env st ?buf ?right = Some (buf', Some (line_tree (u # ss)))"
    using "3.IH" [OF _ rest sl(3)] by auto
  moreover have "END_STRING \<in> set (drop ?right ?buf)" unfolding sl(3) by simp
  then obtain r where "string_at ?buf ?right = Some r" "r = takeWhile (\<lambda>c. c \<noteq> END_STRING) (drop ?right ?buf)"
    by (simp add: string_at_def)
  then have "string_at ?buf ?right = Some r" "r \<noteq> ''''" unfolding sl(3) using x by simp_all
  ultimately show ?case
    using sl(1) pc by (subst parse_line.simps) (simp add: pipe_cmd_create_def)
qed simp

text \<open>
  C9. Parsing a printed pipeline gives its commands back: for every list of commands made of
  plain words and redirections that fits the line buffer, \<open>parse_line\<close> stays inside of its
  buffers and returns the tree of pipes with the arguments and files of each command.
\<close>

theorem parse_print_pipeline:
  assumes "ss \<noteq> []" "list_all simple_ok ss" "length (show_line ss) + 2 \<le> BUFLEN"
  shows "\<exists>buf'. parse_line env st (show_line ss @ replicate (BUFLEN - length (show_line ss)) END_STRING) 0 =
    Some (buf', Some (line_tree ss))"
proof (rule parse_line_shown [OF assms(1,2)])
  have "BUFLEN - length (show_line ss) = Suc (Suc (BUFLEN - length (show_line ss) - 2))" using assms(3) by simp
  then show "drop 0 (show_line ss @ replicate (BUFLEN - length (show_line ss)) END_STRING) =
    show_line ss @ END_STRING # END_STRING # replicate (BUFLEN - length (show_line ss) - 2) END_STRING"
    by (simp add: replicate_Suc [symmetric] del: replicate_Suc)
qed

lemma plain_words:
  "plain_word ''ls''" "plain_word ''-l''" "plain_word ''wc''" "plain_word ''out''" "plain_word ''err''" "plain_word ''notes''"
  by (simp_all add: plain_word_def plain_char_def sh_chars ARGSIZE_def)

lemma parse_print_pipeline_witness:
  "\<exists>buf'. parse_line (\<lambda>_. None) 0 (''ls -l | wc >out 2>err'' @ replicate 1003 END_STRING) 0 =
    Some (buf', Some (Pipecmd
      (Some (Execcmd \<lparr>e_type = EXEC, e_scmd = ''ls -l '', argv = [''ls'', ''-l''], eargv = [],
                      out_file = [], in_file = [], err_file = []\<rparr>))
      (Some (Execcmd \<lparr>e_type = REDIR, e_scmd = ''wc >out 2>err'', argv = [''wc''], eargv = [],
                      out_file = ''out'', in_file = [], err_file = ''err''\<rparr>))))"
proof -
  let ?ss = "[Simple [''ls'', ''-l''] [] [] [], Simple [''wc''] ''out'' [] ''err'']"
  have l: "show_line ?ss = ''ls -l | wc >out 2>err''" by (simp add: SPACE_def)
  have ok: "list_all simple_ok ?ss" by (simp add: plain_words MAXARGS_def)
  show ?thesis
    using parse_print_pipeline [OF _ ok, of "\<lambda>_. None" 0] unfolding l by (simp add: BUFLEN_def SPACE_def)
qed

lemma line_first:
  "ss \<noteq> [] \<Longrightarrow> list_all simple_ok ss \<Longrightarrow> \<exists>x xs. show_line ss = x # xs \<and> x \<noteq> SPACE \<and> x \<noteq> END_STRING"
proof (induction ss rule: show_line.induct)
  case (3 s u ss)
  then obtain x xs where "text_of s = x # xs" "x \<noteq> SPACE" "x \<noteq> END_STRING" using text_first [of s] by auto
  then show ?case by simp
qed (use text_first in auto)

text \<open>
  A line shown from the history does not erase the longer line shown before it, and a line
  without a pipe is parsed beyond its end. So when the old line was \<open>pre\<close>, one more character
  and the text of further commands, with \<open>pre\<close> as long as the new line, the new line is run as
  a pipe into those commands.
\<close>

theorem stale_text_is_piped:
  assumes s: "simple_ok s" and ss: "ss \<noteq> []" "list_all simple_ok ss"
    and old: "old = pre @ c # replicate k SPACE @ show_line ss" "length pre = length (text_of s)"
    and fits: "length old + 2 \<le> BUFLEN"
  defines "buf \<equiv> copy_to_line (copy_to_line (replicate BUFLEN END_STRING) old) (text_of s)"
  shows "\<exists>buf'. parse_line env st buf 0 =
    Some (buf', Some (Pipecmd (Some (Execcmd (exec_of (text_of s) s))) (Some (line_tree ss))))"
proof -
  obtain x xs where x: "show_line ss = x # xs" "x \<noteq> SPACE" "x \<noteq> END_STRING"
    using line_first [OF ss] by blast
  have "drop (length old + 1) (replicate BUFLEN END_STRING) = END_STRING # replicate (BUFLEN - length old - 2) END_STRING"
    using fits by (simp add: Suc_diff_Suc flip: replicate_Suc)
  then obtain cs where "copy_to_line (replicate BUFLEN END_STRING) old = old @ END_STRING # END_STRING # cs"
    by (simp add: copy_to_line_def)
  then have "buf = text_of s @ END_STRING # replicate k SPACE @ show_line ss @ END_STRING # END_STRING # cs"
    by (simp add: buf_def copy_to_line_def old)
  then have d: "drop 0 buf = (text_of s @ '''') @ END_STRING # replicate k SPACE @ x # (xs @ END_STRING # END_STRING # cs)"
    by (simp add: x(1))
  note sl = split_line_at [OF d text_no_pipe [OF s] _ x(2), simplified]
  let ?buf = "buf[length (text_of s) := END_STRING]" and ?right = "Suc (length (text_of s) + k)"
  have pc: "parse_cmd env st ?buf 0 = Some (?buf, Some (Execcmd (exec_of (text_of s @ '''') s)))"
    by (rule parse_cmd_simple [OF _ s]) (use sl(2) in simp_all)
  have r: "drop ?right ?buf = show_line ss @ END_STRING # END_STRING # cs" using sl(3) x(1) by simp
  obtain buf' where "parse_line env st ?buf ?right = Some (buf', Some (line_tree ss))"
    using parse_line_shown [OF ss r] by blast
  moreover have "string_at ?buf ?right \<noteq> Some '''' \<and> string_at ?buf ?right \<noteq> None"
    unfolding string_at_def r using x by simp
  ultimately show ?thesis
    using sl(1) pc by (subst parse_line.simps) (auto simp: pipe_cmd_create_def)
qed

lemma stale_text_is_piped_witness:
  "\<exists>buf'. parse_line (\<lambda>_. None) 0 (copy_to_line (copy_to_line (replicate BUFLEN END_STRING) ''cat notes'') ''ls'') 0 =
    Some (buf', Some (Pipecmd
      (Some (Execcmd \<lparr>e_type = EXEC, e_scmd = ''ls'', argv = [''ls''], eargv = [],
                      out_file = [], in_file = [], err_file = []\<rparr>))
      (Some (Execcmd \<lparr>e_type = EXEC, e_scmd = ''notes'', argv = [''notes''], eargv = [],
                      out_file = [], in_file = [], err_file = []\<rparr>))))"
proof -
  let ?s = "Simple [''ls''] [] [] []" and ?ss = "[Simple [''notes''] [] [] []]"
  have ok: "simple_ok ?s" "list_all simple_ok ?ss" by (simp_all add: plain_words MAXARGS_def)
  have old: "''cat notes'' = ''ca'' @ CHR ''t'' # replicate 1 SPACE @ show_line ?ss" by (simp add: SPACE_def)
  show ?thesis
    using stale_text_is_piped [OF ok(1) _ ok(2) old, of "\<lambda>_. None" 0] by (simp add: BUFLEN_def SPACE_def)
qed

end
