(* ===== verification/ShRunSpec.thy ===== *)
theory ShRunSpec
  imports ShRun ShParseSpec
begin

text \<open>
  What the history keeps and shows, and the descriptors that commands run with. \<open>hist_ok\<close> is the
  invariant of the history array.
\<close>

section \<open>The history\<close>

definition hist_ok :: "history \<Rightarrow> string list \<Rightarrow> bool" where
  "hist_ok h ls \<longleftrightarrow> last_line_pos h = length ls \<and> length ls < alloc_size h \<and>
     take (length ls) (history_arr h) = map Line ls \<and> history_arr h ! length ls = Null \<and>
     history_print_pos h \<le> length ls \<and> list_all (\<lambda>l. l \<noteq> '''' \<and> length l < BUFLEN) ls"

lemma hist_slot:
  assumes "hist_ok h ls" "i < length ls"
  shows "chopped_line h i = Some (butlast (ls ! i))"
proof -
  have "take (length ls) (history_arr h) ! i = map Line ls ! i" using assms(1) by (simp add: hist_ok_def)
  then have "history_arr h ! i = Line (ls ! i)" using assms(2) by simp
  moreover have "ls ! i \<noteq> '''' \<and> length (ls ! i) < BUFLEN" using assms by (simp add: hist_ok_def list_all_length)
  ultimately show ?thesis using assms by (simp add: chopped_line_def hist_ok_def)
qed

lemma chopped_line_pos [simp]: "chopped_line (h\<lparr>history_print_pos := p\<rparr>) i = chopped_line h i"
  by (simp add: chopped_line_def)

text \<open>Behind the lines there is the null slot, then slots that were never written.\<close>

definition fresh_after :: "history \<Rightarrow> nat \<Rightarrow> bool" where
  "fresh_after h n \<longleftrightarrow> list_all (\<lambda>s. s = Uninit) (drop (n + 1) (history_arr h))"

lemma chopped_line_fresh: "fresh_after h n \<Longrightarrow> n < i \<Longrightarrow> chopped_line h i = None"
proof -
  assume f: "fresh_after h n" and i: "n < i"
  have "history_arr h ! i = Uninit" if "i < alloc_size h"
  proof -
    have "history_arr h ! i = drop (n + 1) (history_arr h) ! (i - (n + 1))" using i that by simp
    moreover have "i - (n + 1) < length (drop (n + 1) (history_arr h))" using i that by simp
    ultimately show ?thesis using f unfolding fresh_after_def list_all_length by simp
  qed
  then show ?thesis by (auto simp: chopped_line_def)
qed

text \<open>
  C18. The keys up and down walk through the saved lines: up shows the line before the current
  one, or the first again; down shows the next one, and an empty line behind the last. Pressing
  down on a fresh prompt reads the slot behind the null pointer that ends the array, which is
  not initialised or outside of it.
\<close>

theorem history_navigation:
  assumes ok: "hist_ok h ls" and f: "fresh_after h (length ls)" and ne: "ls \<noteq> []"
  defines "p \<equiv> history_print_pos h"
  shows "get_previous_command h = Some (h\<lparr>history_print_pos := p - 1\<rparr>, butlast (ls ! (p - 1))) \<and>
    get_next_command h =
      (if p + 1 < length ls then Some (h\<lparr>history_print_pos := p + 1\<rparr>, butlast (ls ! (p + 1)))
       else if p + 1 = length ls then Some (h, '''')
       else None)"
proof
  have len: "last_line_pos h = length ls" "0 < length ls" "p \<le> length ls"
    using ok ne by (simp_all add: hist_ok_def p_def)
  have "p - 1 < length ls" using len(2,3) by linarith
  then show "get_previous_command h = Some (h\<lparr>history_print_pos := p - 1\<rparr>, butlast (ls ! (p - 1)))"
    using len hist_slot [OF ok, of "p - 1"]
    by (cases "p = 0") (auto simp: get_previous_command_def Let_def p_def)
  show "get_next_command h =
      (if p + 1 < length ls then Some (h\<lparr>history_print_pos := p + 1\<rparr>, butlast (ls ! (p + 1)))
       else if p + 1 = length ls then Some (h, '''') else None)"
    using len hist_slot [OF ok, of "p + 1"] chopped_line_fresh [OF f, of "p + 1"]
    by (auto simp: get_next_command_def Let_def p_def)
qed

lemma history_navigation_witness:
  "get_previous_command \<lparr>history_arr = [Line ''ls|'', Line ''wc|'', Null, Uninit], last_line_pos = 2, history_print_pos = 2\<rparr> =
     Some (\<lparr>history_arr = [Line ''ls|'', Line ''wc|'', Null, Uninit], last_line_pos = 2, history_print_pos = 1\<rparr>, ''wc'') \<and>
   get_next_command \<lparr>history_arr = [Line ''ls|'', Line ''wc|'', Null, Uninit], last_line_pos = 2, history_print_pos = 2\<rparr> = None"
  using history_navigation [of "\<lparr>history_arr = [Line ''ls|'', Line ''wc|'', Null, Uninit], last_line_pos = 2,
      history_print_pos = 2\<rparr>" "[''ls|'', ''wc|'']"]
  by (simp add: hist_ok_def fresh_after_def BUFLEN_def)

text \<open>
  Saving appends a line, except when it takes the last but one slot: the test for growth looks at
  the slot of the line only, and the null pointer is written outside of the array.
\<close>

lemma save_command_outcome:
  assumes ok: "hist_ok h ls" and cmd: "length cmd + 1 < BUFLEN"
  shows "if length ls + 1 < alloc_size h
    then \<exists>h'. save_command_in_memory h cmd = Some h' \<and> hist_ok h' (ls @ [cmd @ [END_LINE]])
    else save_command_in_memory h cmd = None"
proof -
  let ?arr = "(history_arr h)[length ls := Line (cmd @ [END_LINE])]"
  have len: "last_line_pos h = length ls" "length ls < alloc_size h" using ok by (simp_all add: hist_ok_def)
  have s: "save_command_in_memory h cmd = (if length ls + 1 < alloc_size h
     then Some (h\<lparr>history_arr := ?arr[length ls + 1 := Null], last_line_pos := length ls + 1,
                  history_print_pos := length ls + 1\<rparr>) else None)"
    using len by (simp add: save_command_in_memory_def store_line_def)
  have "hist_ok (h\<lparr>history_arr := ?arr[length ls + 1 := Null], last_line_pos := length ls + 1,
      history_print_pos := length ls + 1\<rparr>) (ls @ [cmd @ [END_LINE]])" if "length ls + 1 < alloc_size h"
    using ok cmd that by (simp add: hist_ok_def take_Suc_conv_app_nth)
  with s show ?thesis by simp
qed

section \<open>Descriptors\<close>

text \<open>What the code relies on: a new descriptor is one that was not in use.\<close>

definition open_ok :: "sys \<Rightarrow> bool" where
  "open_ok os \<longleftrightarrow> (\<forall>fds file mode fd. sys_open os fds file mode = Some fd \<longrightarrow> fds fd = None)"

definition pipe_ok :: "sys \<Rightarrow> bool" where
  "pipe_ok os \<longleftrightarrow> (\<forall>fds rd wr. sys_pipe os fds = Some (rd, wr) \<longrightarrow> rd \<noteq> wr \<and> fds rd = None \<and> fds wr = None)"

text \<open>A table in which descriptors 0, 1 and 2 are open for the program.\<close>

definition std_open :: "fdtab \<Rightarrow> bool" where
  "std_open fds \<longleftrightarrow> kept_by_exec fds 0 \<noteq> None \<and> kept_by_exec fds 1 \<noteq> None \<and> kept_by_exec fds 2 \<noteq> None"

text \<open>Opening a file and copying it to \<open>n\<close> changes what the program sees at \<open>n\<close> only.\<close>

lemma kept_redirect:
  assumes "open_ok os" "open_redir_fd os fds file mode = Some (fd, fds1)" "kept_by_exec fds n \<noteq> None"
  shows "kept_by_exec (dup2 fds1 fd n) = (kept_by_exec fds)(n \<mapsto> File file)"
proof -
  have "fds1 = fds(fd \<mapsto> (File file, True))" "fds fd = None"
    using assms(1,2) by (auto simp: open_redir_fd_def open_ok_def)
  moreover from this have "n \<noteq> fd" using assms(3) by (auto simp: kept_by_exec_def)
  ultimately show ?thesis by (auto simp: dup2_def kept_by_exec_def fun_eq_iff)
qed

definition set_obj :: "(nat \<Rightarrow> obj option) \<Rightarrow> nat \<Rightarrow> string \<Rightarrow> nat \<Rightarrow> obj option" where
  "set_obj K n file = (if file = '''' then K else K(n \<mapsto> File file))"

lemma kept_redirect_out:
  assumes "open_ok os" "std_open fds" "redirect_out os fds file = Some fds'"
  shows "kept_by_exec fds' = set_obj (kept_by_exec fds) 1 file"
  using assms kept_redirect [OF assms(1)]
  by (auto simp: redirect_out_def set_obj_def fd_numbers std_open_def split: if_splits)

lemma kept_redirect_in:
  assumes "open_ok os" "std_open fds" "redirect_in os fds file = Some fds'"
  shows "kept_by_exec fds' = set_obj (kept_by_exec fds) 0 file"
  using assms kept_redirect [OF assms(1)]
  by (auto simp: redirect_in_def set_obj_def fd_numbers std_open_def split: if_splits)

lemma kept_redirect_err:
  assumes "open_ok os" "std_open fds" "redirect_err os fds file = Some fds'"
  shows "kept_by_exec fds' = (if file = ''&1'' then (kept_by_exec fds)(0 := kept_by_exec fds 1, 2 := kept_by_exec fds 1)
     else set_obj (kept_by_exec fds) 2 file)"
proof (cases "file = ''&1''")
  case True
  then have "fds' = dup2 (dup2 fds 1 0) 0 2" using assms(3) by (simp add: redirect_err_def fd_numbers)
  moreover obtain x where "fds 1 = Some (x, False)"
    using assms(2) by (auto simp: std_open_def kept_by_exec_def split: option.splits bool.splits)
  ultimately show ?thesis using True by (auto simp: dup2_def kept_by_exec_def fun_eq_iff)
next
  case False
  then show ?thesis
    using assms kept_redirect [OF assms(1)]
    by (auto simp: redirect_err_def set_obj_def fd_numbers std_open_def split: if_splits)
qed

lemma std_open_set: "std_open fds \<Longrightarrow> kept_by_exec fds' = set_obj (kept_by_exec fds) n file \<Longrightarrow> std_open fds'"
  by (auto simp: std_open_def set_obj_def)

text \<open>
  C17. A command with redirections runs with its output, input and error output on the files it
  names, and every other descriptor as the shell has it; the descriptors opened for the files
  do not reach the program. But \<open>2>&1\<close> connects not only the error output, it also replaces the
  standard input by the output.
\<close>

theorem redirect_outcome:
  assumes os: "open_ok os" and std: "std_open fds" and r: "redirect os fds r = Some fds'"
  defines "K \<equiv> set_obj (set_obj (kept_by_exec fds) 1 (out_file r)) 0 (in_file r)"
  shows "kept_by_exec fds' = (if err_file r = ''&1'' then K(0 := K 1, 2 := K 1) else set_obj K 2 (err_file r))"
proof -
  obtain f1 f2 where f: "redirect_out os fds (out_file r) = Some f1" "redirect_in os f1 (in_file r) = Some f2"
    "redirect_err os f2 (err_file r) = Some fds'"
    using r by (auto simp: redirect_def split: option.splits)
  note k1 = kept_redirect_out [OF os std f(1)]
  note s1 = std_open_set [OF std k1]
  note k2 = kept_redirect_in [OF os s1 f(2)]
  note s2 = std_open_set [OF s1 k2]
  show ?thesis using kept_redirect_err [OF os s2 f(3)] unfolding k2 k1 K_def .
qed

text \<open>A system that gives out the descriptors 3 and 4, and a table with only the terminal.\<close>

definition low_sys :: sys where
  "low_sys = \<lparr>sys_open = (\<lambda>fds file mode. if fds 3 = None then Some 3 else if fds 4 = None then Some 4 else None),
     sys_pipe = (\<lambda>fds. if fds 3 = None \<and> fds 4 = None then Some (3, 4) else None), sys_fork = (\<lambda>n fds. True)\<rparr>"

definition tty_fds :: fdtab where
  "tty_fds = (\<lambda>n. if n < 3 then Some (Terminal, False) else None)"

lemma low_sys_ok: "open_ok low_sys" "pipe_ok low_sys" "std_open tty_fds"
  by (auto simp: low_sys_def open_ok_def pipe_ok_def std_open_def tty_fds_def kept_by_exec_def split: if_splits)

lemma redirect_outcome_witness:
  "\<exists>fds. redirect low_sys tty_fds (exec_of [] (Simple [''wc''] ''out'' ''in'' ''&1'')) = Some fds \<and>
     kept_by_exec fds 0 = Some (File ''out'') \<and> kept_by_exec fds 1 = Some (File ''out'') \<and>
     kept_by_exec fds 2 = Some (File ''out'') \<and> kept_by_exec fds 3 = None"
proof -
  let ?r = "exec_of [] (Simple [''wc''] ''out'' ''in'' ''&1'')"
  obtain fds where f: "redirect low_sys tty_fds ?r = Some fds"
    by (simp add: redirect_def redirect_out_def redirect_in_def redirect_err_def open_redir_fd_def low_sys_def
        tty_fds_def dup2_def fd_numbers)
  have "kept_by_exec tty_fds 3 = None" by (simp add: kept_by_exec_def tty_fds_def)
  with redirect_outcome [OF low_sys_ok(1,3) f] f show ?thesis
    by (intro exI [of _ fds]) (simp add: set_obj_def)
qed

section \<open>Pipelines\<close>

text \<open>The programs that a task becomes, with what each sees at its descriptors, if no step failed.\<close>

fun programs :: "task \<Rightarrow> (string list \<times> (nat \<Rightarrow> obj option)) list option" where
  "programs (Execvp args env K) = Some [(args, K)]"
| "programs (Piped (Some l) (Some r)) =
     (case (programs l, programs r) of (Some ls, Some rs) \<Rightarrow> Some (ls @ rs) | _ \<Rightarrow> None)"
| "programs _ = None"

text \<open>The stages of a pipeline that starts at pipe \<open>n\<close> with the descriptors \<open>K\<close>.\<close>

fun stages :: "nat \<Rightarrow> (nat \<Rightarrow> obj option) \<Rightarrow> string list list \<Rightarrow> (string list \<times> (nat \<Rightarrow> obj option)) list" where
  "stages n K [] = []"
| "stages n K [ws] = [(ws, K)]"
| "stages n K (ws # wss) = (ws, K(1 \<mapsto> PipeWrite n)) # stages (n + 1) (K(0 \<mapsto> PipeRead n)) wss"

definition plain_line :: "string list list \<Rightarrow> simple list" where
  "plain_line wss = map (\<lambda>ws. Simple ws '''' '''' '''') wss"

lemma kept_pipe:
  fixes n :: nat
  assumes "std_open fds" "fds rd = None" "fds wr = None" "rd \<noteq> wr"
  defines "fds1 \<equiv> fds(rd \<mapsto> (PipeRead n, False), wr \<mapsto> (PipeWrite n, False))"
  shows "kept_by_exec (close_fd (dup2 (close_fd fds1 rd) wr STDOUT_FILENO) wr) = (kept_by_exec fds)(1 \<mapsto> PipeWrite n)"
    "kept_by_exec (close_fd (dup2 (close_fd fds1 wr) rd STDIN_FILENO) rd) = (kept_by_exec fds)(0 \<mapsto> PipeRead n)"
proof -
  have "rd \<noteq> 0 \<and> rd \<noteq> 1 \<and> wr \<noteq> 0 \<and> wr \<noteq> 1"
    using assms(1-3) by (auto simp: std_open_def kept_by_exec_def intro: ccontr)
  then show "kept_by_exec (close_fd (dup2 (close_fd fds1 rd) wr STDOUT_FILENO) wr) = (kept_by_exec fds)(1 \<mapsto> PipeWrite n)"
    "kept_by_exec (close_fd (dup2 (close_fd fds1 wr) rd STDIN_FILENO) rd) = (kept_by_exec fds)(0 \<mapsto> PipeRead n)"
    using assms(2-4) by (auto simp: fds1_def close_fd_def dup2_def kept_by_exec_def fd_numbers fun_eq_iff)
qed

lemma exec_plain:
  "exec_cmd os env n fds (Some (Execcmd (exec_of text (Simple ws '''' '''' '''')))) = Execvp ws env (kept_by_exec fds)"
  by simp

text \<open>
  C16. The shell runs a pipeline as the processes of its stages, each connected to the next by a
  pipe of its own: if no call fails, stage \<open>i\<close> writes its output to pipe \<open>n + i\<close> and the next one
  reads its input from it, the ends of the line keep the input and output of the shell, and no
  stage holds another end of a pipe, so every reader sees the end of its input.
\<close>

theorem pipeline_connected:
  assumes os: "pipe_ok os" and std: "std_open fds" and ne: "wss \<noteq> []"
    and run: "programs (exec_cmd os env n fds (Some (line_tree (plain_line wss)))) = Some ps"
  shows "ps = stages n (kept_by_exec fds) wss"
  using std ne run
proof (induction n "kept_by_exec fds" wss arbitrary: fds ps rule: stages.induct)
  case (2 n ws)
  then show ?case by (simp add: plain_line_def)
next
  case (3 n ws vs wss)
  let ?l = "Some (Execcmd (exec_of (text_of (Simple ws '''' '''' '''') @ [SPACE]) (Simple ws '''' '''' '''')))"
  let ?r = "Some (line_tree (plain_line (vs # wss)))"
  have tree: "line_tree (plain_line (ws # vs # wss)) = Pipecmd ?l ?r" by (simp add: plain_line_def)
  obtain rd wr where p: "sys_pipe os fds = Some (rd, wr)"
    using "3.prems"(3) unfolding tree by (cases "sys_pipe os fds") auto
  then have fresh: "rd \<noteq> wr" "fds rd = None" "fds wr = None" using os by (auto simp: pipe_ok_def)
  let ?fds1 = "fds(rd \<mapsto> (PipeRead n, False), wr \<mapsto> (PipeWrite n, False))"
  let ?lf = "close_fd (dup2 (close_fd ?fds1 rd) wr STDOUT_FILENO) wr"
  let ?rf = "close_fd (dup2 (close_fd ?fds1 wr) rd STDIN_FILENO) rd"
  note k = kept_pipe [OF "3.prems"(1) fresh(2,3,1), of n]
  have "\<exists>ls rs. programs (exec_cmd os env (n + 1) ?lf ?l) = Some ls \<and>
      programs (exec_cmd os env (n + 1) ?rf ?r) = Some rs \<and> ps = ls @ rs"
    using "3.prems"(3) unfolding tree by (auto simp: p Let_def split: if_splits option.splits)
  then obtain ls rs where s: "programs (exec_cmd os env (n + 1) ?lf ?l) = Some ls"
    "programs (exec_cmd os env (n + 1) ?rf ?r) = Some rs" "ps = ls @ rs" by blast
  have "ls = [(ws, (kept_by_exec fds)(1 \<mapsto> PipeWrite n))]" using s(1) by (simp add: k(1))
  moreover have "std_open ?rf" using "3.prems"(1) by (simp add: std_open_def k(2))
  then have "rs = stages (n + 1) ((kept_by_exec fds)(0 \<mapsto> PipeRead n)) (vs # wss)"
    using "3.hyps" [of ?rf rs] s(2) by (simp add: k(2))
  ultimately show ?case using s(3) by simp
qed simp

lemma pipeline_connected_witness:
  "\<exists>f g h. programs (exec_cmd low_sys (\<lambda>_. None) 0 tty_fds (Some (line_tree (plain_line [[''ls''], [''sort''], [''wc'']])))) =
     Some [([''ls''], f), ([''sort''], g), ([''wc''], h)] \<and>
     f 0 = Some Terminal \<and> f 1 = Some (PipeWrite 0) \<and> g 0 = Some (PipeRead 0) \<and> g 1 = Some (PipeWrite 1) \<and>
     h 0 = Some (PipeRead 1) \<and> h 1 = Some Terminal"
proof -
  let ?t = "exec_cmd low_sys (\<lambda>_. None) 0 tty_fds (Some (line_tree (plain_line [[''ls''], [''sort''], [''wc'']])))"
  have "\<exists>ps. programs ?t = Some ps"
    by (simp add: plain_line_def low_sys_def tty_fds_def close_fd_def dup2_def fd_numbers Let_def)
  then obtain ps where ps: "programs ?t = Some ps" ..
  have "kept_by_exec tty_fds 0 = Some Terminal" "kept_by_exec tty_fds 1 = Some Terminal"
    by (simp_all add: kept_by_exec_def tty_fds_def)
  with pipeline_connected [OF low_sys_ok(2,3) _ ps] ps show ?thesis by simp
qed

end
