(* ===== verification/JosPmap.thy ===== *)
theory JosPmap
  imports Prelude "HOL-Library.Signed_Division"
begin

text \<open>
  sched/kern/pmap.c with sched/inc/mmu.h and sched/kern/pmap.h: physical pages with
  reference counts on a free list, and two-level page tables.

  A pointer to a \<open>struct PageInfo\<close> is its index in \<open>pages\<close>. Page directories and tables live
  in physical memory, a function from the address of a 32-bit word to the word; a kernel
  virtual address of the code is the physical address plus \<open>KERNBASE\<close> and is written as
  the physical address here. The null pointer is \<open>None\<close>; a panic is the outer \<open>None\<close>.
\<close>

type_synonym u32 = "32 word"

section \<open>Constants and address fields\<close>

definition PTXSHIFT :: nat where "PTXSHIFT = 12"
definition PDXSHIFT :: nat where "PDXSHIFT = 22"
definition PGSHIFT :: nat where "PGSHIFT = 12"
definition PGSIZE :: u32 where "PGSIZE = 4096"
definition NPTENTRIES :: u32 where "NPTENTRIES = 1024"
definition PTSIZE :: u32 where "PTSIZE = PGSIZE * NPTENTRIES"

definition PTE_P :: u32 where "PTE_P = 0x001"
definition PTE_W :: u32 where "PTE_W = 0x002"
definition PTE_U :: u32 where "PTE_U = 0x004"
definition PTE_PWT :: u32 where "PTE_PWT = 0x008"
definition PTE_PCD :: u32 where "PTE_PCD = 0x010"
definition PTE_AVAIL :: u32 where "PTE_AVAIL = 0xE00"
definition PTE_SYSCALL :: u32 where "PTE_SYSCALL = PTE_AVAIL OR PTE_P OR PTE_W OR PTE_U"

definition PGNUM :: "u32 \<Rightarrow> u32" where "PGNUM la = drop_bit PTXSHIFT la"
definition PDX :: "u32 \<Rightarrow> u32" where "PDX la = drop_bit PDXSHIFT la AND 0x3FF"
definition PTX :: "u32 \<Rightarrow> u32" where "PTX la = drop_bit PTXSHIFT la AND 0x3FF"
definition PGOFF :: "u32 \<Rightarrow> u32" where "PGOFF la = la AND 0xFFF"
definition PGADDR :: "u32 \<Rightarrow> u32 \<Rightarrow> u32 \<Rightarrow> u32" where
  "PGADDR d t f = push_bit PDXSHIFT d OR push_bit PTXSHIFT t OR f"
definition PTE_ADDR :: "u32 \<Rightarrow> u32" where "PTE_ADDR pte = pte AND NOT 0xFFF"

definition ROUNDDOWN :: "u32 \<Rightarrow> u32 \<Rightarrow> u32" where "ROUNDDOWN a n = a - a mod n"
definition ROUNDUP :: "u32 \<Rightarrow> u32 \<Rightarrow> u32" where "ROUNDUP a n = ROUNDDOWN (a + n - 1) n"

definition KERNBASE :: u32 where "KERNBASE = 0xF0000000"
definition IOPHYSMEM :: u32 where "IOPHYSMEM = 0x0A0000"
definition EXTPHYSMEM :: u32 where "EXTPHYSMEM = 0x100000"
definition KSTACKTOP :: u32 where "KSTACKTOP = KERNBASE"
definition MMIOLIM :: u32 where "MMIOLIM = KSTACKTOP - PTSIZE"
definition MMIOBASE :: u32 where "MMIOBASE = MMIOLIM - PTSIZE"
definition ULIM :: u32 where "ULIM = MMIOBASE"
definition UVPT :: u32 where "UVPT = ULIM - PTSIZE"
definition UPAGES :: u32 where "UPAGES = UVPT - PTSIZE"
definition UENVS :: u32 where "UENVS = UPAGES - PTSIZE"
definition UTOP :: u32 where "UTOP = UENVS"
definition UXSTACKTOP :: u32 where "UXSTACKTOP = UTOP"
definition USTACKTOP :: u32 where "USTACKTOP = UTOP - 2 * PGSIZE"
definition MPENTRY_PADDR :: u32 where "MPENTRY_PADDR = 0x7000"

section \<open>State\<close>

record PageInfo =
  pp_ref :: "16 word"
  pp_link :: "nat option"

record vm =
  npages :: nat
  pages :: "nat \<Rightarrow> PageInfo"
  page_free_list :: "nat option"
  pmem :: "u32 \<Rightarrow> u32"
  nextfree :: "u32 option"
  mmio_base :: u32
  user_mem_check_addr :: u32
  flushed :: "u32 list"

text \<open>Panics: an address that is not backed by a physical page.\<close>

definition KADDR :: "vm \<Rightarrow> u32 \<Rightarrow> u32 option" where
  "KADDR s pa = (if unat (PGNUM pa) \<ge> npages s then None else Some pa)"

definition page2pa :: "nat \<Rightarrow> u32" where
  "page2pa pp = push_bit PGSHIFT (of_nat pp)"

definition pa2page :: "vm \<Rightarrow> u32 \<Rightarrow> nat option" where
  "pa2page s pa = (if unat (PGNUM pa) \<ge> npages s then None else Some (unat (PGNUM pa)))"

definition upd_page :: "vm \<Rightarrow> nat \<Rightarrow> (PageInfo \<Rightarrow> PageInfo) \<Rightarrow> vm" where
  "upd_page s pp f = s\<lparr>pages := (pages s)(pp := f (pages s pp))\<rparr>"

definition read_pte :: "vm \<Rightarrow> u32 \<Rightarrow> u32" where "read_pte s a = pmem s a"
definition write_pte :: "vm \<Rightarrow> u32 \<Rightarrow> u32 \<Rightarrow> vm" where "write_pte s a v = s\<lparr>pmem := (pmem s)(a := v)\<rparr>"

text \<open>Clearing the words of the page at \<open>pa\<close>.\<close>

definition zero_page :: "vm \<Rightarrow> u32 \<Rightarrow> vm" where
  "zero_page s pa = s\<lparr>pmem := (\<lambda>a. if PTE_ADDR a = pa then 0 else pmem s a)\<rparr>"

section \<open>Boot-time allocation\<close>

text \<open>\<open>boot_end\<close> is the linker's symbol \<open>end\<close>; both it and the result are virtual addresses.\<close>

definition boot_alloc :: "u32 \<Rightarrow> u32 \<Rightarrow> vm \<Rightarrow> (u32 \<times> vm) option" where
  "boot_alloc boot_end n s =
     (let nf = (case nextfree s of None \<Rightarrow> ROUNDUP boot_end PGSIZE | Some a \<Rightarrow> a) in
      if nf + n < KERNBASE then None
      else let last = nf + n - KERNBASE in
        if last \<ge> PGSIZE * of_nat (npages s) then None
        else if unat (PGNUM last) \<ge> npages s then None
        else Some (nf, s\<lparr>nextfree := Some (ROUNDUP (last + KERNBASE) PGSIZE)\<rparr>))"

text \<open>Whether \<open>page_init\<close> keeps page \<open>i\<close> off the free list; \<open>mtop\<close> is \<open>PADDR(boot_alloc(0))\<close>.\<close>

definition reserved_page :: "u32 \<Rightarrow> nat \<Rightarrow> bool" where
  "reserved_page mtop i \<longleftrightarrow> i = 0 \<or> unat (PGNUM MPENTRY_PADDR) = i \<or>
     (i \<ge> unat (PGNUM IOPHYSMEM) \<and> i < unat (PGNUM EXTPHYSMEM)) \<or>
     (i \<ge> unat (PGNUM EXTPHYSMEM) \<and> i < unat (PGNUM mtop))"

fun page_init_from :: "u32 \<Rightarrow> nat \<Rightarrow> nat \<Rightarrow> vm \<Rightarrow> vm" where
  "page_init_from mtop i 0 s = s"
| "page_init_from mtop i (Suc n) s =
     (let s1 = upd_page s i (\<lambda>p. p\<lparr>pp_link := None\<rparr>) in
      page_init_from mtop (Suc i) n
        (if reserved_page mtop i then s1
         else (upd_page s1 i (\<lambda>p. p\<lparr>pp_link := page_free_list s1, pp_ref := 0\<rparr>))
                \<lparr>page_free_list := Some i\<rparr>))"

definition page_init :: "u32 \<Rightarrow> vm \<Rightarrow> vm option" where
  "page_init boot_end s =
     (case boot_alloc boot_end 0 s of
        None \<Rightarrow> None
      | Some (nf, s1) \<Rightarrow> Some (page_init_from (nf - KERNBASE) 0 (npages s1) s1))"

section \<open>Physical pages\<close>

definition page_alloc :: "bool \<Rightarrow> vm \<Rightarrow> (nat option \<times> vm) option" where
  "page_alloc alloc_zero s =
     (case page_free_list s of
        None \<Rightarrow> Some (None, s)
      | Some free_page \<Rightarrow>
          let s1 = s\<lparr>page_free_list := pp_link (pages s free_page)\<rparr>;
              s2 = upd_page s1 free_page (\<lambda>p. p\<lparr>pp_link := None\<rparr>)
          in if alloc_zero then
               (case KADDR s2 (page2pa free_page) of
                  None \<Rightarrow> None
                | Some kva \<Rightarrow> Some (Some free_page, zero_page s2 kva))
             else Some (Some free_page, s2))"

definition page_free :: "nat \<Rightarrow> vm \<Rightarrow> vm option" where
  "page_free pp s =
     (if pp_ref (pages s pp) \<noteq> 0 then None
      else if pp_link (pages s pp) \<noteq> None then None
      else Some ((upd_page s pp (\<lambda>p. p\<lparr>pp_link := page_free_list s\<rparr>))\<lparr>page_free_list := Some pp\<rparr>))"

definition page_decref :: "nat \<Rightarrow> vm \<Rightarrow> vm option" where
  "page_decref pp s =
     (let s1 = upd_page s pp (\<lambda>p. p\<lparr>pp_ref := pp_ref p - 1\<rparr>) in
      if pp_ref (pages s1 pp) = 0 then page_free pp s1 else Some s1)"

section \<open>Page tables\<close>

text \<open>The address of the page table entry for \<open>va\<close>, or the null pointer.\<close>

definition pde_at :: "u32 \<Rightarrow> u32 \<Rightarrow> u32" where "pde_at pgdir va = pgdir + 4 * PDX va"

definition pgdir_walk :: "u32 \<Rightarrow> u32 \<Rightarrow> bool \<Rightarrow> vm \<Rightarrow> (u32 option \<times> vm) option" where
  "pgdir_walk pgdir va create s =
     (let pde = pde_at pgdir va;
          made = (if read_pte s pde = 0 \<and> create then
                    (case page_alloc True s of
                       None \<Rightarrow> None
                     | Some (None, s1) \<Rightarrow> Some s1
                     | Some (Some page, s1) \<Rightarrow>
                         Some (write_pte (upd_page s1 page (\<lambda>p. p\<lparr>pp_ref := pp_ref p + 1\<rparr>)) pde
                                 (page2pa page OR PTE_P OR PTE_W OR PTE_U)))
                  else Some s)
      in case made of
           None \<Rightarrow> None
         | Some s2 \<Rightarrow>
             if read_pte s2 pde \<noteq> 0 then
               (case KADDR s2 (PTE_ADDR (read_pte s2 pde)) of
                  None \<Rightarrow> None
                | Some pt \<Rightarrow> Some (Some (pt + 4 * PTX va), s2))
             else Some (None, s2))"

text \<open>
  The page mapped at \<open>va\<close> and the address of its entry. The condition of the code is
  \<open>*pte && PTE_P\<close>, which holds for every non-zero entry.
\<close>

definition page_lookup :: "u32 \<Rightarrow> u32 \<Rightarrow> vm \<Rightarrow> (nat \<times> u32) option option" where
  "page_lookup pgdir va s =
     (case pgdir_walk pgdir va False s of
        None \<Rightarrow> None
      | Some (None, _) \<Rightarrow> Some None
      | Some (Some pte, _) \<Rightarrow>
          if \<not> (read_pte s pte \<noteq> 0 \<and> PTE_P \<noteq> 0) then Some None
          else (case pa2page s (PTE_ADDR (read_pte s pte)) of
              None \<Rightarrow> None
            | Some page \<Rightarrow> Some (Some (page, pte))))"

text \<open>\<open>cur\<close> is the page directory of \<open>curenv\<close>, if there is one.\<close>

definition tlb_invalidate :: "u32 option \<Rightarrow> u32 \<Rightarrow> u32 \<Rightarrow> vm \<Rightarrow> vm" where
  "tlb_invalidate cur pgdir va s =
     (if cur = None \<or> cur = Some pgdir then s\<lparr>flushed := va # flushed s\<rparr> else s)"

definition page_remove :: "u32 option \<Rightarrow> u32 \<Rightarrow> u32 \<Rightarrow> vm \<Rightarrow> vm option" where
  "page_remove cur pgdir va s =
     (case pgdir_walk pgdir va False s of
        None \<Rightarrow> None
      | Some (pte0, _) \<Rightarrow>
          (case page_lookup pgdir va s of
             None \<Rightarrow> None
           | Some found \<Rightarrow>
               let pte = (case found of Some (_, a) \<Rightarrow> Some a | None \<Rightarrow> pte0) in
               (case (pte, found) of
                  (Some a, Some (page, _)) \<Rightarrow>
                    (case page_decref page s of
                       None \<Rightarrow> None
                     | Some s1 \<Rightarrow> Some (tlb_invalidate cur pgdir va (write_pte s1 a 0)))
                | _ \<Rightarrow> Some s)))"

text \<open>The result is 0 or \<open>-E_NO_MEM\<close>.\<close>

definition page_insert :: "u32 option \<Rightarrow> u32 \<Rightarrow> nat \<Rightarrow> u32 \<Rightarrow> u32 \<Rightarrow> vm \<Rightarrow> (int \<times> vm) option" where
  "page_insert cur pgdir pp va perm s =
     (case pgdir_walk pgdir va True s of
        None \<Rightarrow> None
      | Some (None, s1) \<Rightarrow> Some (-4, s1)
      | Some (Some pte, s1) \<Rightarrow>
          (case page_remove cur pgdir va (upd_page s1 pp (\<lambda>p. p\<lparr>pp_ref := pp_ref p + 1\<rparr>)) of
             None \<Rightarrow> None
           | Some s2 \<Rightarrow> Some (0, write_pte s2 pte (page2pa pp OR perm OR PTE_P))))"

text \<open>The loop of \<open>boot_map_region\<close>, \<open>n\<close> pages from offset \<open>i\<close> (built without \<open>TP1_PSE\<close>).\<close>

fun boot_map_pages :: "u32 option \<Rightarrow> u32 \<Rightarrow> u32 \<Rightarrow> u32 \<Rightarrow> u32 \<Rightarrow> nat \<Rightarrow> u32 \<Rightarrow> vm \<Rightarrow> vm option" where
  "boot_map_pages cur pgdir va pa perm 0 i s = Some s"
| "boot_map_pages cur pgdir va pa perm (Suc n) i s =
     (case pgdir_walk pgdir (va + i) True s of
        None \<Rightarrow> None
      | Some (pte, s1) \<Rightarrow>
          (case page_remove cur pgdir (va + i) s1 of
             None \<Rightarrow> None
           | Some s2 \<Rightarrow>
               (case pte of
                  None \<Rightarrow> None
                | Some a \<Rightarrow> boot_map_pages cur pgdir va pa perm n (i + PGSIZE)
                    (write_pte s2 a ((pa + i) OR perm OR PTE_P)))))"

definition boot_map_region ::
  "u32 option \<Rightarrow> u32 \<Rightarrow> u32 \<Rightarrow> u32 \<Rightarrow> u32 \<Rightarrow> u32 \<Rightarrow> vm \<Rightarrow> vm option" where
  "boot_map_region cur pgdir va sz pa perm s =
     boot_map_pages cur pgdir va pa perm ((unat sz + 4095) div 4096) 0 s"

definition mmio_map_region ::
  "u32 option \<Rightarrow> u32 \<Rightarrow> u32 \<Rightarrow> u32 \<Rightarrow> vm \<Rightarrow> (u32 \<times> vm) option" where
  "mmio_map_region cur kern_pgdir pa sz s =
     (let pa' = ROUNDDOWN pa PGSIZE; sz' = ROUNDUP sz PGSIZE;
          perm = PTE_W OR PTE_P OR PTE_PCD OR PTE_PWT; base = mmio_base s
      in if base + sz' \<ge> MMIOLIM then None
         else map_option (\<lambda>s1. (base, s1\<lparr>mmio_base := base + sz'\<rparr>))
                (boot_map_region cur kern_pgdir base sz' pa' perm s))"

section \<open>User memory\<close>

text \<open>The loop over the pages of the range: \<open>n\<close> pages from \<open>va_act\<close>; the first bad address.\<close>

fun user_mem_pages :: "u32 \<Rightarrow> u32 \<Rightarrow> u32 \<Rightarrow> nat \<Rightarrow> u32 \<Rightarrow> vm \<Rightarrow> u32 option option" where
  "user_mem_pages pgdir perm va_lo 0 va_act s = Some None"
| "user_mem_pages pgdir perm va_lo (Suc n) va_act s =
     (case pgdir_walk pgdir va_act False s of
        None \<Rightarrow> None
      | Some (pte, _) \<Rightarrow>
          if (case pte of None \<Rightarrow> True
              | Some a \<Rightarrow> read_pte s a AND (perm OR PTE_P) \<noteq> perm OR PTE_P)
          then Some (Some (if va_act > va_lo then va_act else va_lo))
          else user_mem_pages pgdir perm va_lo n (va_act + PGSIZE) s)"

text \<open>The result is 0 or \<open>-E_FAULT\<close>.\<close>

definition user_mem_check :: "u32 \<Rightarrow> u32 \<Rightarrow> u32 \<Rightarrow> u32 \<Rightarrow> vm \<Rightarrow> (int \<times> vm) option" where
  "user_mem_check pgdir va len perm s =
     (let va_lo = va; va_hi = ROUNDUP (va + len) PGSIZE; start = ROUNDDOWN va_lo PGSIZE in
      if va_hi > UTOP then Some (-6, s\<lparr>user_mem_check_addr := va_lo\<rparr>)
      else (case user_mem_pages pgdir perm va_lo
                   (if start < va_hi then unat (va_hi - start) div 4096 else 0) start s of
          None \<Rightarrow> None
        | Some None \<Rightarrow> Some (0, s)
        | Some (Some bad) \<Rightarrow> Some (-6, s\<lparr>user_mem_check_addr := bad\<rparr>)))"

end
