(* ===== verification/JosConsole.thy ===== *)
theory JosConsole
  imports Prelude
begin

text \<open>
  sched/kern/console.c with sched/inc/kbdreg.h: the keyboard decoder, the circular input
  buffer that the device interrupts fill, and the text-mode display.

  The answers of the input ports are a parameter of the model: \<open>kbd_ports\<close> holds, for the
  successive readings of the keyboard controller, the status byte and the data byte that is
  read when the status announces one, and \<open>serial_ports\<close> does so for the serial line. When
  a list is used up the device has no data. What is sent to the serial line and to the
  parallel port is appended to \<open>serial_out\<close> and \<open>lpt_out\<close>; the polling of their status and the
  programming of the device registers are left out.
\<close>

definition CONSBUFSIZE :: nat where "CONSBUFSIZE = 512"
definition CRT_COLS :: nat where "CRT_COLS = 80"
definition CRT_ROWS :: nat where "CRT_ROWS = 25"
definition CRT_SIZE :: nat where "CRT_SIZE = CRT_ROWS * CRT_COLS"

record console =
  cons_buf :: "nat \<Rightarrow> byte"
  rpos :: nat
  wpos :: nat
  kbd_shift :: "32 word"
  rebooted :: bool
  serial_exists :: bool
  kbd_ports :: "(byte \<times> byte) list"
  serial_ports :: "(byte \<times> byte) list"
  crt_buf :: "nat \<Rightarrow> 16 word"
  crt_pos :: "16 word"
  serial_out :: "byte list"
  lpt_out :: "byte list"

section \<open>Keyboard\<close>

definition SHIFT :: byte where "SHIFT = 1"
definition CTL :: byte where "CTL = 2"
definition ALT :: byte where "ALT = 4"
definition CAPSLOCK :: byte where "CAPSLOCK = 8"
definition NUMLOCK :: byte where "NUMLOCK = 16"
definition SCROLLLOCK :: byte where "SCROLLLOCK = 32"
definition E0ESC :: byte where "E0ESC = 64"
definition KEY_DEL :: int where "KEY_DEL = 0xE9"
definition KBS_DIB :: byte where "KBS_DIB = 0x01"
definition KBS_TERR :: byte where "KBS_TERR = 0x20"
definition COM_LSR_DATA :: byte where "COM_LSR_DATA = 0x01"

text \<open>An array initialiser: the first entries in order, then designated ones, the rest zero.\<close>

definition table :: "byte list \<Rightarrow> (nat \<times> byte) list \<Rightarrow> byte \<Rightarrow> byte" where
  "table positional designated d =
     (case map_of designated (unat d) of
        Some v \<Rightarrow> v
      | None \<Rightarrow> if unat d < length positional then positional ! unat d else 0)"

definition shiftcode :: "byte \<Rightarrow> byte" where
  "shiftcode = table []
     [(0x1D, CTL), (0x2A, SHIFT), (0x36, SHIFT), (0x38, ALT), (0x9D, CTL), (0xB8, ALT)]"

definition togglecode :: "byte \<Rightarrow> byte" where
  "togglecode = table [] [(0x3A, CAPSLOCK), (0x45, NUMLOCK), (0x46, SCROLLLOCK)]"

definition normalmap :: "byte \<Rightarrow> byte" where
  "normalmap = table
    [
      0, 27, 49, 50, 51, 52, 53, 54, 55, 56, 57, 48, 45, 61, 8, 9, 113, 119, 101, 114, 116,
      121, 117, 105, 111, 112, 91, 93, 10, 0, 97, 115, 100, 102, 103, 104, 106, 107, 108, 59,
      39, 96, 0, 92, 122, 120, 99, 118, 98, 110, 109, 44, 46, 47, 0, 42, 0, 32, 0, 0, 0, 0, 0,
      0, 0, 0, 0, 0, 0, 0, 0, 55, 56, 57, 45, 52, 53, 54, 43, 49, 50, 51, 48, 46, 0, 0, 0, 0]
    [
      (199, 224), (156, 10), (181, 47), (200, 226), (201, 230), (203, 228), (205, 229),
      (207, 225), (208, 227), (209, 231), (210, 232), (211, 233)]"

definition shiftmap :: "byte \<Rightarrow> byte" where
  "shiftmap = table
    [
      0, 27, 33, 64, 35, 36, 37, 94, 38, 42, 40, 41, 95, 43, 8, 9, 81, 87, 69, 82, 84, 89, 85,
      73, 79, 80, 123, 125, 10, 0, 65, 83, 68, 70, 71, 72, 74, 75, 76, 58, 34, 126, 0, 124, 90,
      88, 67, 86, 66, 78, 77, 60, 62, 63, 0, 42, 0, 32, 0, 0, 0, 0, 0, 0, 0, 0, 0, 0, 0, 0, 0,
      55, 56, 57, 45, 52, 53, 54, 43, 49, 50, 51, 48, 46, 0, 0, 0, 0]
    [
      (199, 224), (156, 10), (181, 47), (200, 226), (201, 230), (203, 228), (205, 229),
      (207, 225), (208, 227), (209, 231), (210, 232), (211, 233)]"

definition ctlmap :: "byte \<Rightarrow> byte" where
  "ctlmap = table
    [
      0, 0, 0, 0, 0, 0, 0, 0, 0, 0, 0, 0, 0, 0, 0, 0, 17, 23, 5, 18, 20, 25, 21, 9, 15, 16, 0,
      0, 13, 0, 1, 19, 4, 6, 7, 8, 10, 11, 12, 0, 0, 0, 0, 28, 26, 24, 3, 22, 2, 14, 13, 0, 0,
      239, 0, 0]
    [
      (151, 224), (181, 239), (200, 226), (201, 230), (203, 228), (205, 229), (207, 225),
      (208, 227), (209, 231), (210, 232), (211, 233)]"

definition charcode :: "nat \<Rightarrow> byte \<Rightarrow> byte" where
  "charcode i = [normalmap, shiftmap, ctlmap, ctlmap] ! i"

text \<open>One reading of the controller; the result is a character, 0, or -1 when there is no data.\<close>

definition kbd_proc_data :: "byte \<times> byte \<Rightarrow> console \<Rightarrow> int \<times> console" where
  "kbd_proc_data reading k =
     (let (stat, data) = reading; shift = kbd_shift k in
      if stat AND KBS_DIB = 0 then (-1, k)
      else if stat AND KBS_TERR \<noteq> 0 then (-1, k)
      else if data = 0xE0 then (0, k\<lparr>kbd_shift := shift OR ucast E0ESC\<rparr>)
      else if data AND 0x80 \<noteq> 0 then
        let d = (if shift AND ucast E0ESC \<noteq> 0 then data else data AND 0x7F)
        in (0, k\<lparr>kbd_shift := shift AND NOT (ucast (shiftcode d OR E0ESC))\<rparr>)
      else
        let d = (if shift AND ucast E0ESC \<noteq> 0 then data OR 0x80 else data);
            sh0 = (if shift AND ucast E0ESC \<noteq> 0 then shift AND NOT (ucast E0ESC) else shift);
            sh1 = sh0 OR ucast (shiftcode d);
            sh2 = sh1 XOR ucast (togglecode d);
            c0 = uint (charcode (unat (sh2 AND ucast (CTL OR SHIFT))) d);
            c = (if sh2 AND ucast CAPSLOCK \<noteq> 0 then
                   (if 97 \<le> c0 \<and> c0 \<le> 122 then c0 - 32
                    else if 65 \<le> c0 \<and> c0 \<le> 90 then c0 + 32 else c0)
                 else c0)
        in (c, k\<lparr>kbd_shift := sh2,
              rebooted := (rebooted k \<or> (NOT sh2 AND ucast (CTL OR ALT) = 0 \<and> c = KEY_DEL))\<rparr>))"

section \<open>Input buffer\<close>

definition serial_proc_data :: "byte \<times> byte \<Rightarrow> console \<Rightarrow> int \<times> console" where
  "serial_proc_data reading k =
     (let (stat, data) = reading in
      if stat AND COM_LSR_DATA = 0 then (-1, k) else (uint data, k))"

text \<open>\<open>cons_store c\<close> is the body of the loop of \<open>cons_intr\<close> for a character.\<close>

definition cons_store :: "int \<Rightarrow> console \<Rightarrow> console" where
  "cons_store c k =
     (let w = wpos k + 1 in
      k\<lparr>cons_buf := (cons_buf k)(wpos k := of_int c), wpos := (if w = CONSBUFSIZE then 0 else w)\<rparr>)"

fun cons_intr ::
  "(byte \<times> byte \<Rightarrow> console \<Rightarrow> int \<times> console) \<Rightarrow> (byte \<times> byte) list \<Rightarrow> console \<Rightarrow>
   (byte \<times> byte) list \<times> console" where
  "cons_intr proc [] k = ([], k)"
| "cons_intr proc (r # rs) k =
     (let (c, k1) = proc r k in
      if c = -1 then (rs, k1)
      else if c = 0 then cons_intr proc rs k1
      else cons_intr proc rs (cons_store c k1))"

definition serial_intr :: "console \<Rightarrow> console" where
  "serial_intr k =
     (if serial_exists k then
        (let (rs, k1) = cons_intr serial_proc_data (serial_ports k) k in k1\<lparr>serial_ports := rs\<rparr>)
      else k)"

definition kbd_intr :: "console \<Rightarrow> console" where
  "kbd_intr k = (let (rs, k1) = cons_intr kbd_proc_data (kbd_ports k) k in k1\<lparr>kbd_ports := rs\<rparr>)"

definition cons_getc :: "console \<Rightarrow> int \<times> console" where
  "cons_getc k0 =
     (let k = kbd_intr (serial_intr k0) in
      if rpos k \<noteq> wpos k then
        (uint (cons_buf k (rpos k)),
         k\<lparr>rpos := (if rpos k + 1 = CONSBUFSIZE then 0 else rpos k + 1)\<rparr>)
      else (0, k))"

section \<open>Display\<close>

definition serial_putc :: "32 word \<Rightarrow> console \<Rightarrow> console" where
  "serial_putc c k = k\<lparr>serial_out := serial_out k @ [ucast c]\<rparr>"

definition lpt_putc :: "32 word \<Rightarrow> console \<Rightarrow> console" where
  "lpt_putc c k = k\<lparr>lpt_out := lpt_out k @ [ucast c]\<rparr>"

text \<open>Black on white when the character has no attribute.\<close>

definition cga_attribute :: "32 word \<Rightarrow> 32 word" where
  "cga_attribute c = (if c AND NOT 0xFF = 0 then c OR 0x0700 else c)"

text \<open>The cases of the \<open>switch\<close> other than the tab.\<close>

definition cga_char :: "32 word \<Rightarrow> console \<Rightarrow> console" where
  "cga_char c k =
     (let ch = c AND 0xff; cols = of_nat CRT_COLS :: 16 word in
      if ch = 8 then
        (if crt_pos k > 0 then
           k\<lparr>crt_pos := crt_pos k - 1,
             crt_buf := (crt_buf k)(unat (crt_pos k - 1) := ucast ((c AND NOT 0xff) OR 32))\<rparr>
         else k)
      else if ch = 10 then
        k\<lparr>crt_pos := (crt_pos k + cols) - (crt_pos k + cols) mod cols\<rparr>
      else if ch = 13 then k\<lparr>crt_pos := crt_pos k - crt_pos k mod cols\<rparr>
      else k\<lparr>crt_buf := (crt_buf k)(unat (crt_pos k) := ucast c), crt_pos := crt_pos k + 1\<rparr>)"

text \<open>Moving the rows up when the cursor has left the screen.\<close>

definition cga_scroll :: "console \<Rightarrow> console" where
  "cga_scroll k =
     (if unat (crt_pos k) \<ge> CRT_SIZE then
        k\<lparr>crt_buf := (\<lambda>i. if i < CRT_SIZE - CRT_COLS then crt_buf k (i + CRT_COLS)
                         else if i < CRT_SIZE then 0x0720 else crt_buf k i),
          crt_pos := crt_pos k - of_nat CRT_COLS\<rparr>
      else k)"

text \<open>\<open>cons_putc\<close> of a character that is not a tab, as the tab case of \<open>cga_putc\<close> calls it.\<close>

definition cons_putc_plain :: "32 word \<Rightarrow> console \<Rightarrow> console" where
  "cons_putc_plain c k =
     cga_scroll (cga_char (cga_attribute c) (lpt_putc c (serial_putc c k)))"

definition cga_putc :: "32 word \<Rightarrow> console \<Rightarrow> console" where
  "cga_putc c k =
     (if cga_attribute c AND 0xff = 9 then cga_scroll ((cons_putc_plain 32 ^^ 5) k)
      else cga_scroll (cga_char (cga_attribute c) k))"

definition cons_putc :: "32 word \<Rightarrow> console \<Rightarrow> console" where
  "cons_putc c k = cga_putc c (lpt_putc c (serial_putc c k))"

definition cputchar :: "32 word \<Rightarrow> console \<Rightarrow> console" where
  "cputchar c k = cons_putc c k"

end
