(* ===== verification/JosEnv.thy ===== *)
theory JosEnv
  imports JosPmap JosConsole
begin

text \<open>
  sched/kern/env.c with sched/inc/env.h and sched/inc/trap.h: the table of environments, its
  free list, identifiers, allocation and release, and the switch to an environment.

  A pointer to a \<open>struct Env\<close> is its index in \<open>envs\<close>. The kernel state is the one that this
  CPU sees: \<open>curenv\<close> is its current environment, and an environment whose status is
  \<open>ENV_RUNNING\<close> without being \<open>curenv\<close> runs on another CPU. A kernel function either returns
  or it never does: it enters user mode in an environment, halts, stays in the monitor, or
  panics. \<open>Panic\<close> also stands for the executions that leave the defined behaviour of C, such as
  a null dereference, and for the page faults of the kernel itself, which panic.
  \<open>holding\<close> tells whether this CPU holds the big kernel lock; the spinning of \<open>spin_lock\<close> is
  the subject of the theory JosLock and ends here at once.
\<close>

definition LOG2NENV :: nat where "LOG2NENV = 10"
definition NENV :: nat where "NENV = 2 ^ LOG2NENV"
definition ENVX :: "u32 \<Rightarrow> nat" where "ENVX envid = unat (envid AND 0x3FF)"
definition ENVGENSHIFT :: nat where "ENVGENSHIFT = 12"

datatype env_status = ENV_FREE | ENV_DYING | ENV_RUNNABLE | ENV_RUNNING | ENV_NOT_RUNNABLE

record PushRegs =
  reg_edi :: u32
  reg_esi :: u32
  reg_ebp :: u32
  reg_oesp :: u32
  reg_ebx :: u32
  reg_edx :: u32
  reg_ecx :: u32
  reg_eax :: u32

record Trapframe =
  tf_regs :: PushRegs
  tf_es :: "16 word"
  tf_ds :: "16 word"
  tf_trapno :: u32
  tf_err :: u32
  tf_eip :: u32
  tf_cs :: "16 word"
  tf_eflags :: u32
  tf_esp :: u32
  tf_ss :: "16 word"

record Env =
  env_tf :: Trapframe
  env_link :: "nat option"
  env_id :: u32
  env_parent_id :: u32
  env_type :: nat
  env_status :: env_status
  env_runs :: u32
  env_cpunum :: int
  env_pgdir :: "u32 option"
  env_pgfault_upcall :: u32
  env_ipc_recving :: bool
  env_ipc_dstva :: u32
  env_ipc_value :: u32
  env_ipc_from :: u32
  env_ipc_perm :: u32
  tickets :: u32

record kernel =
  envs :: "nat \<Rightarrow> Env"
  env_free_list :: "nat option"
  total_tickets :: u32
  prev_random :: u32
  sched_calls :: int
  boost_calls :: int
  timer_int_counter :: int
  curenv :: "nat option"
  cpunum :: int
  cpu_halted :: bool
  holding :: bool
  panicstr :: bool
  kern_pgdir :: u32
  vm :: vm
  console :: console

datatype 'a outcome = Ret 'a | Run nat | Halt | Monitor | Panic

text \<open>Sequencing: the rest runs only when the first part returns.\<close>

definition bind_outcome ::
  "'a outcome \<times> kernel \<Rightarrow> ('a \<Rightarrow> kernel \<Rightarrow> 'b outcome \<times> kernel) \<Rightarrow> 'b outcome \<times> kernel" where
  "bind_outcome r f = (case r of
     (Ret x, k) \<Rightarrow> f x k | (Run e, k) \<Rightarrow> (Run e, k) | (Halt, k) \<Rightarrow> (Halt, k)
   | (Monitor, k) \<Rightarrow> (Monitor, k) | (Panic, k) \<Rightarrow> (Panic, k))"

definition upd_env :: "kernel \<Rightarrow> nat \<Rightarrow> (Env \<Rightarrow> Env) \<Rightarrow> kernel" where
  "upd_env k e f = k\<lparr>envs := (envs k)(e := f (envs k e))\<rparr>"

lemma upd_env_simps [simp]:
  "envs (upd_env k e f) e = f (envs k e)" "e' \<noteq> e \<Longrightarrow> envs (upd_env k e f) e' = envs k e'"
  "env_free_list (upd_env k e f) = env_free_list k" "total_tickets (upd_env k e f) = total_tickets k"
  "curenv (upd_env k e f) = curenv k" "vm (upd_env k e f) = vm k"
  "prev_random (upd_env k e f) = prev_random k" "kern_pgdir (upd_env k e f) = kern_pgdir k"
  "holding (upd_env k e f) = holding k"
  by (simp_all add: upd_env_def)

definition E_BAD_ENV :: int where "E_BAD_ENV = 2"
definition E_INVAL :: int where "E_INVAL = 3"
definition E_NO_MEM :: int where "E_NO_MEM = 4"
definition E_NO_FREE_ENV :: int where "E_NO_FREE_ENV = 5"
definition E_FAULT :: int where "E_FAULT = 6"
definition E_IPC_NOT_RECV :: int where "E_IPC_NOT_RECV = 7"

lemmas error_codes = E_BAD_ENV_def E_INVAL_def E_NO_MEM_def E_NO_FREE_ENV_def E_FAULT_def
  E_IPC_NOT_RECV_def

section \<open>Identifiers\<close>

text \<open>
  The result code and what is stored in \<open>env_store\<close>. Dereferencing \<open>curenv\<close> when there is none
  is a kernel fault.
\<close>

definition envid2env :: "u32 \<Rightarrow> bool \<Rightarrow> kernel \<Rightarrow> (int \<times> nat option) outcome \<times> kernel" where
  "envid2env envid checkperm k =
     (if envid = 0 then (Ret (0, curenv k), k)
      else let e = ENVX envid in
        if env_status (envs k e) = ENV_FREE \<or> env_id (envs k e) \<noteq> envid
        then (Ret (- E_BAD_ENV, None), k)
        else if checkperm \<and> curenv k \<noteq> Some e then
          (case curenv k of
             None \<Rightarrow> (Panic, k)
           | Some c \<Rightarrow> if env_parent_id (envs k e) \<noteq> env_id (envs k c)
               then (Ret (- E_BAD_ENV, None), k) else (Ret (0, Some e), k))
        else (Ret (0, Some e), k))"

text \<open>The loop of \<open>env_init\<close> and the two assignments after it.\<close>

definition env_init :: "kernel \<Rightarrow> kernel" where
  "env_init k =
     (let k1 = k\<lparr>envs := (\<lambda>i. if i < NENV then (envs k i)\<lparr>env_id := 0, env_status := ENV_FREE,
                                env_link := Some (i + 1)\<rparr> else envs k i)\<rparr>
      in (upd_env k1 (NENV - 1) (\<lambda>e. e\<lparr>env_link := None\<rparr>))\<lparr>env_free_list := Some 0\<rparr>)"

section \<open>Allocation\<close>

definition env_setup_vm :: "nat \<Rightarrow> kernel \<Rightarrow> int outcome \<times> kernel" where
  "env_setup_vm e k =
     (case page_alloc True (vm k) of
        None \<Rightarrow> (Panic, k)
      | Some (None, v) \<Rightarrow> (Ret (- E_NO_MEM), k\<lparr>vm := v\<rparr>)
      | Some (Some p, v) \<Rightarrow>
          (case KADDR v (page2pa p) of
             None \<Rightarrow> (Panic, k\<lparr>vm := v\<rparr>)
           | Some pgdir \<Rightarrow>
               let v1 = v\<lparr>pmem := (\<lambda>a. if PTE_ADDR a = pgdir
                          then pmem v (kern_pgdir k + PGOFF a) else pmem v a)\<rparr>;
                   v2 = upd_page v1 p (\<lambda>q. q\<lparr>pp_ref := pp_ref q + 1\<rparr>);
                   v3 = write_pte v2 (pde_at pgdir UVPT) (pgdir OR PTE_P OR PTE_U)
               in (Ret 0, (upd_env k e (\<lambda>x. x\<lparr>env_pgdir := Some pgdir\<rparr>))\<lparr>vm := v3\<rparr>)))"

text \<open>The next identifier of slot \<open>e\<close>.\<close>

definition next_env_id :: "u32 \<Rightarrow> nat \<Rightarrow> u32" where
  "next_env_id old e =
     (let generation = (old + push_bit ENVGENSHIFT 1) AND NOT (of_nat NENV - 1);
          generation' = (if generation <=s 0 then push_bit ENVGENSHIFT 1 else generation)
      in generation' OR of_nat e)"

definition zero_regs :: PushRegs where
  "zero_regs = \<lparr>reg_edi = 0, reg_esi = 0, reg_ebp = 0, reg_oesp = 0, reg_ebx = 0, reg_edx = 0,
     reg_ecx = 0, reg_eax = 0\<rparr>"

definition GD_KT :: "16 word" where "GD_KT = 0x08"
definition GD_UT :: "16 word" where "GD_UT = 0x18"
definition GD_UD :: "16 word" where "GD_UD = 0x20"
definition FL_IF :: u32 where "FL_IF = 0x200"

definition fresh_tf :: Trapframe where
  "fresh_tf = \<lparr>tf_regs = zero_regs, tf_es = GD_UD OR 3, tf_ds = GD_UD OR 3, tf_trapno = 0,
     tf_err = 0, tf_eip = 0, tf_cs = GD_UT OR 3, tf_eflags = FL_IF, tf_esp = USTACKTOP,
     tf_ss = GD_UD OR 3\<rparr>"

definition env_alloc :: "u32 \<Rightarrow> kernel \<Rightarrow> (int \<times> nat option) outcome \<times> kernel" where
  "env_alloc parent_id k =
     (case env_free_list k of
        None \<Rightarrow> (Ret (- E_NO_FREE_ENV, None), k)
      | Some e \<Rightarrow>
          bind_outcome (env_setup_vm e k) (\<lambda>r k1.
            if r < 0 then (Ret (r, None), k1)
            else let k2 = upd_env k1 e (\<lambda>x. x\<lparr>env_id := next_env_id (env_id x) e,
                       env_parent_id := parent_id, env_type := 0, env_status := ENV_RUNNABLE,
                       env_runs := 0, env_tf := fresh_tf, env_pgfault_upcall := 0,
                       env_ipc_recving := False, tickets := 100\<rparr>)
              in (Ret (0, Some e), k2\<lparr>total_tickets := total_tickets k2 + tickets (envs k2 e),
                                     env_free_list := env_link (envs k2 e)\<rparr>)))"

text \<open>The page directory that \<open>tlb_invalidate\<close> compares with.\<close>

definition cur_pgdir :: "kernel \<Rightarrow> u32 option" where
  "cur_pgdir k = (case curenv k of None \<Rightarrow> None
     | Some c \<Rightarrow> (case env_pgdir (envs k c) of None \<Rightarrow> Some 0 | Some d \<Rightarrow> Some d))"

text \<open>The loop of \<open>region_alloc\<close>: \<open>n\<close> pages from \<open>va_act\<close>.\<close>

fun region_pages :: "u32 option \<Rightarrow> u32 \<Rightarrow> nat \<Rightarrow> u32 \<Rightarrow> vm \<Rightarrow> vm option" where
  "region_pages cur pgdir 0 va_act s = Some s"
| "region_pages cur pgdir (Suc n) va_act s =
     (case page_alloc False s of
        Some (Some p, s1) \<Rightarrow>
          (case page_insert cur pgdir p va_act (PTE_U OR PTE_W) s1 of
             Some (r, s2) \<Rightarrow> if r \<noteq> 0 then None
                             else region_pages cur pgdir n (va_act + PGSIZE) s2
           | None \<Rightarrow> None)
      | _ \<Rightarrow> None)"

definition region_alloc :: "nat \<Rightarrow> u32 \<Rightarrow> u32 \<Rightarrow> kernel \<Rightarrow> unit outcome \<times> kernel" where
  "region_alloc e va len k =
     (let va_lo = ROUNDDOWN va PGSIZE; va_hi = ROUNDUP (va + len) PGSIZE in
      if va_hi > UTOP then (Panic, k)
      else case env_pgdir (envs k e) of
          None \<Rightarrow> (Panic, k)
        | Some pgdir \<Rightarrow>
            (case region_pages (cur_pgdir k) pgdir
                    (if va_lo < va_hi then unat (va_hi - va_lo) div 4096 else 0) va_lo (vm k) of
               None \<Rightarrow> (Panic, k)
             | Some s \<Rightarrow> (Ret (), k\<lparr>vm := s\<rparr>)))"

section \<open>Release\<close>

text \<open>Unmapping the \<open>n\<close> entries of one page table from entry \<open>pteno\<close>.\<close>

fun free_ptes :: "u32 option \<Rightarrow> u32 \<Rightarrow> u32 \<Rightarrow> u32 \<Rightarrow> nat \<Rightarrow> u32 \<Rightarrow> vm \<Rightarrow> vm option" where
  "free_ptes cur pgdir pdeno pt 0 pteno s = Some s"
| "free_ptes cur pgdir pdeno pt (Suc n) pteno s =
     (if read_pte s (pt + 4 * pteno) AND PTE_P \<noteq> 0 then
        (case page_remove cur pgdir (PGADDR pdeno pteno 0) s of
           None \<Rightarrow> None
         | Some s1 \<Rightarrow> free_ptes cur pgdir pdeno pt n (pteno + 1) s1)
      else free_ptes cur pgdir pdeno pt n (pteno + 1) s)"

fun free_pdes :: "u32 option \<Rightarrow> u32 \<Rightarrow> nat \<Rightarrow> u32 \<Rightarrow> vm \<Rightarrow> vm option" where
  "free_pdes cur pgdir 0 pdeno s = Some s"
| "free_pdes cur pgdir (Suc n) pdeno s =
     (if read_pte s (pgdir + 4 * pdeno) AND PTE_P = 0 then free_pdes cur pgdir n (pdeno + 1) s
      else let pa = PTE_ADDR (read_pte s (pgdir + 4 * pdeno)) in
        (case KADDR s pa of
           None \<Rightarrow> None
         | Some pt \<Rightarrow>
             (case free_ptes cur pgdir pdeno pt 1024 0 s of
                None \<Rightarrow> None
              | Some s1 \<Rightarrow>
                  let s2 = write_pte s1 (pgdir + 4 * pdeno) 0 in
                  (case pa2page s2 pa of
                     None \<Rightarrow> None
                   | Some pp \<Rightarrow>
                       (case page_decref pp s2 of
                          None \<Rightarrow> None
                        | Some s3 \<Rightarrow> free_pdes cur pgdir n (pdeno + 1) s3)))))"

definition env_free :: "nat \<Rightarrow> kernel \<Rightarrow> unit outcome \<times> kernel" where
  "env_free e k =
     (case env_pgdir (envs k e) of
        None \<Rightarrow> (Panic, k)
      | Some pgdir \<Rightarrow>
          (case free_pdes (cur_pgdir k) pgdir (unat (PDX UTOP)) 0 (vm k) of
             None \<Rightarrow> (Panic, k)
           | Some s1 \<Rightarrow>
               (case pa2page s1 pgdir of
                  None \<Rightarrow> (Panic, k)
                | Some pp \<Rightarrow>
                    (case page_decref pp s1 of
                       None \<Rightarrow> (Panic, k)
                     | Some s2 \<Rightarrow>
                         (Ret (), (upd_env k e (\<lambda>x. x\<lparr>env_pgdir := None, env_status := ENV_FREE,
                             env_link := env_free_list k\<rparr>))\<lparr>env_free_list := Some e, vm := s2\<rparr>)))))"

section \<open>Running\<close>

text \<open>Taking the lock twice and releasing a lock that is not held panic.\<close>

definition lock_kernel :: "kernel \<Rightarrow> unit outcome \<times> kernel" where
  "lock_kernel k = (if holding k then (Panic, k) else (Ret (), k\<lparr>holding := True\<rparr>))"

definition unlock_kernel :: "kernel \<Rightarrow> unit outcome \<times> kernel" where
  "unlock_kernel k = (if holding k then (Ret (), k\<lparr>holding := False\<rparr>) else (Panic, k))"

definition env_load_pgdir :: "nat \<Rightarrow> kernel \<Rightarrow> unit outcome \<times> kernel" where
  "env_load_pgdir e k = (case env_pgdir (envs k e) of None \<Rightarrow> (Panic, k) | Some _ \<Rightarrow> (Ret (), k))"

definition env_run :: "nat \<Rightarrow> kernel \<Rightarrow> 'a outcome \<times> kernel" where
  "env_run e k =
     (let k1 = (case curenv k of
                  None \<Rightarrow> k
                | Some c \<Rightarrow> if env_status (envs k c) = ENV_RUNNING
                    then upd_env k c (\<lambda>x. x\<lparr>env_status := ENV_RUNNABLE\<rparr>) else k);
          k2 = (upd_env k1 e (\<lambda>x. x\<lparr>env_status := ENV_RUNNING, env_runs := env_runs x + 1\<rparr>))
                 \<lparr>curenv := Some e\<rparr>
      in bind_outcome (env_load_pgdir e k2) (\<lambda>_ k3.
         bind_outcome (unlock_kernel k3) (\<lambda>_ k4.
           (Run e, upd_env k4 e (\<lambda>x. x\<lparr>env_cpunum := cpunum k4\<rparr>)))))"

section \<open>Loading a program\<close>

text \<open>
  The bytes of the words of physical memory, and the translation of a virtual address that
  the hardware makes through a page directory, for a write of the kernel (\<open>CR0_WP\<close> is set).
\<close>

definition get_byte :: "vm \<Rightarrow> u32 \<Rightarrow> byte" where
  "get_byte s a = ucast (drop_bit (8 * unat (a AND 3)) (pmem s (a AND NOT 3)))"

definition put_byte :: "u32 \<Rightarrow> byte \<Rightarrow> vm \<Rightarrow> vm" where
  "put_byte a b s =
     (let w = a AND NOT 3; k = 8 * unat (a AND 3) in
      s\<lparr>pmem := (pmem s)(w := (pmem s w AND NOT (push_bit k 0xFF)) OR push_bit k (ucast b))\<rparr>)"

definition translate_write :: "vm \<Rightarrow> u32 \<Rightarrow> u32 \<Rightarrow> u32 option" where
  "translate_write s pgdir va =
     (let pde = read_pte s (pde_at pgdir va); pte = read_pte s (PTE_ADDR pde + 4 * PTX va) in
      if pde AND PTE_P \<noteq> 0 \<and> pde AND PTE_W \<noteq> 0 \<and> pte AND PTE_P \<noteq> 0 \<and> pte AND PTE_W \<noteq> 0
      then Some (PTE_ADDR pte OR PGOFF va) else None)"

text \<open>The same for a read: only the present bits count.\<close>

definition translate_read :: "vm \<Rightarrow> u32 \<Rightarrow> u32 \<Rightarrow> u32 option" where
  "translate_read s pgdir va =
     (let pde = read_pte s (pde_at pgdir va); pte = read_pte s (PTE_ADDR pde + 4 * PTX va) in
      if pde AND PTE_P \<noteq> 0 \<and> pte AND PTE_P \<noteq> 0 then Some (PTE_ADDR pte OR PGOFF va) else None)"

text \<open>Writing bytes from \<open>va\<close> on; \<open>None\<close> is a page fault of the kernel.\<close>

fun write_virtual :: "u32 \<Rightarrow> u32 \<Rightarrow> byte list \<Rightarrow> vm \<Rightarrow> vm option" where
  "write_virtual pgdir va [] s = Some s"
| "write_virtual pgdir va (b # bs) s =
     (case translate_write s pgdir va of
        None \<Rightarrow> None
      | Some pa \<Rightarrow> write_virtual pgdir (va + 1) bs (put_byte pa b s))"

definition ELF_MAGIC :: nat where "ELF_MAGIC = 0x464C457F"
definition ELF_PROG_LOAD :: nat where "ELF_PROG_LOAD = 1"

text \<open>The fields of \<open>struct Elf\<close> and of the program header at \<open>ph\<close> in the image.\<close>

definition e_magic :: "mem \<Rightarrow> nat" where "e_magic b = load_le 4 b 0"
definition e_entry :: "mem \<Rightarrow> nat" where "e_entry b = load_le 4 b 24"
definition e_phoff :: "mem \<Rightarrow> nat" where "e_phoff b = load_le 4 b 28"
definition e_phnum :: "mem \<Rightarrow> nat" where "e_phnum b = load_le 2 b 44"
definition p_type :: "mem \<Rightarrow> nat \<Rightarrow> nat" where "p_type b ph = load_le 4 b ph"
definition p_offset :: "mem \<Rightarrow> nat \<Rightarrow> nat" where "p_offset b ph = load_le 4 b (ph + 4)"
definition p_va :: "mem \<Rightarrow> nat \<Rightarrow> u32" where "p_va b ph = of_nat (load_le 4 b (ph + 8))"
definition p_filesz :: "mem \<Rightarrow> nat \<Rightarrow> nat" where "p_filesz b ph = load_le 4 b (ph + 16)"
definition p_memsz :: "mem \<Rightarrow> nat \<Rightarrow> nat" where "p_memsz b ph = load_le 4 b (ph + 20)"

text \<open>The segments of the \<open>n\<close> program headers from offset \<open>ph\<close>.\<close>

fun load_segments :: "nat \<Rightarrow> mem \<Rightarrow> nat \<Rightarrow> nat \<Rightarrow> kernel \<Rightarrow> unit outcome \<times> kernel" where
  "load_segments e b ph 0 k = (Ret (), k)"
| "load_segments e b ph (Suc n) k =
     (if p_type b ph \<noteq> ELF_PROG_LOAD then load_segments e b (ph + 32) n k
      else bind_outcome (region_alloc e (p_va b ph) (of_nat (p_memsz b ph)) k) (\<lambda>_ k1.
        case env_pgdir (envs k1 e) of
          None \<Rightarrow> (Panic, k1)
        | Some pgdir \<Rightarrow>
            (case write_virtual pgdir (p_va b ph) (replicate (p_memsz b ph) 0) (vm k1) of
               None \<Rightarrow> (Panic, k1)
             | Some s1 \<Rightarrow>
                 (case write_virtual pgdir (p_va b ph) (load_bytes b (p_offset b ph) (p_filesz b ph)) s1 of
                    None \<Rightarrow> (Panic, k1)
                  | Some s2 \<Rightarrow> load_segments e b (ph + 32) n (k1\<lparr>vm := s2\<rparr>)))))"

definition load_icode :: "nat \<Rightarrow> mem \<Rightarrow> kernel \<Rightarrow> unit outcome \<times> kernel" where
  "load_icode e binary k =
     (if e_magic binary \<noteq> ELF_MAGIC then (Panic, k)
      else bind_outcome (load_segments e binary (e_phoff binary) (e_phnum binary) k) (\<lambda>_ k1.
           bind_outcome (region_alloc e (USTACKTOP - PGSIZE) PGSIZE k1) (\<lambda>_ k2.
             (Ret (), upd_env k2 e (\<lambda>x. x\<lparr>env_tf := (env_tf x)\<lparr>tf_eip := of_nat (e_entry binary)\<rparr>\<rparr>)))))"

definition env_create :: "mem \<Rightarrow> nat \<Rightarrow> kernel \<Rightarrow> unit outcome \<times> kernel" where
  "env_create binary type k =
     bind_outcome (env_alloc 0 k) (\<lambda>(err, env) k1.
       case env of
         None \<Rightarrow> (Panic, k1)
       | Some e \<Rightarrow> bind_outcome (load_icode e binary k1) (\<lambda>_ k2.
           (Ret (), upd_env k2 e (\<lambda>x. x\<lparr>env_type := type\<rparr>))))"

end
