(* ===== verification/JosSched.thy ===== *)
theory JosSched
  imports JosEnv
begin

text \<open>
  sched/kern/sched.c with \<open>env_destroy\<close> of sched/kern/env.c: the round-robin and the
  proportional-share (lottery) scheduler, the generator of pseudo-random numbers, halting,
  and the changes of priority at timer interrupts. The build selects the proportional share
  (GNUmakefile), the other policy is the other branch of the \<open>#ifdef\<close>.

  \<open>int\<close> values are 32-bit words; comparisons are signed where the code compares \<open>int\<close>s.
\<close>

datatype sched_policy = SCHED_ROUND_ROBIN | SCHED_PROPORTIONAL_SHARE

section \<open>Choosing\<close>

text \<open>The result and the new seed.\<close>

definition generate_pseudorandom_value :: "kernel \<Rightarrow> u32 \<times> kernel" where
  "generate_pseudorandom_value k =
     (let a = 4294967296 :: 64 word; c = 1013904223 :: 64 word; m = 1664525 :: 64 word;
          random = ucast ((a * scast (prev_random k) + c) mod m) :: u32;
          rand_tickets = random * total_tickets k div ucast m
      in (rand_tickets, k\<lparr>prev_random := random\<rparr>))"

text \<open>The first runnable environment among the \<open>n\<close> slots from \<open>pos\<close>.\<close>

fun get_next_runnable_process :: "kernel \<Rightarrow> nat \<Rightarrow> nat \<Rightarrow> nat option" where
  "get_next_runnable_process k pos 0 = None"
| "get_next_runnable_process k pos (Suc n) =
     (if env_status (envs k pos) = ENV_RUNNABLE then Some pos
      else get_next_runnable_process k (pos + 1) n)"

definition choose_round_robin :: "kernel \<Rightarrow> nat option" where
  "choose_round_robin k =
     (let pos = (case curenv k of None \<Rightarrow> 0 | Some c \<Rightarrow> ENVX (env_id (envs k c)) + 1) in
      case get_next_runnable_process k pos (NENV - pos) of
        Some e \<Rightarrow> Some e
      | None \<Rightarrow>
          (case get_next_runnable_process k 0 pos of
             Some e \<Rightarrow> Some e
           | None \<Rightarrow> (case curenv k of
                None \<Rightarrow> None
              | Some c \<Rightarrow> if env_status (envs k c) = ENV_RUNNING then Some c else None)))"

text \<open>The loop of the lottery: \<open>n\<close> slots from \<open>i\<close>.\<close>

fun draw :: "kernel \<Rightarrow> u32 \<Rightarrow> nat \<Rightarrow> nat \<Rightarrow> u32 \<Rightarrow> nat option \<Rightarrow> nat option" where
  "draw k winner i 0 counter idle = idle"
| "draw k winner i (Suc n) counter idle =
     (if env_status (envs k i) = ENV_RUNNABLE then
        let counter1 = counter + tickets (envs k i) in
        if winner \<le>s counter1 then Some i else draw k winner (i + 1) n counter1 (Some i)
      else draw k winner (i + 1) n counter idle)"

definition choose_proportional :: "kernel \<Rightarrow> nat option \<times> kernel" where
  "choose_proportional k =
     (let idle = (case curenv k of
                    None \<Rightarrow> None
                  | Some c \<Rightarrow> if env_status (envs k c) = ENV_RUNNING then Some c else None);
          (winner, k1) = generate_pseudorandom_value k
      in (draw k1 winner 0 NENV 0 idle, k1))"

definition choose_env :: "sched_policy \<Rightarrow> kernel \<Rightarrow> nat option \<times> kernel" where
  "choose_env pol k = (case pol of SCHED_ROUND_ROBIN \<Rightarrow> (choose_round_robin k, k)
     | SCHED_PROPORTIONAL_SHARE \<Rightarrow> choose_proportional k)"

section \<open>Halting and switching\<close>

definition sched_halt :: "kernel \<Rightarrow> 'a outcome \<times> kernel" where
  "sched_halt k =
     (if \<forall>i < NENV. env_status (envs k i) \<noteq> ENV_RUNNABLE \<and> env_status (envs k i) \<noteq> ENV_RUNNING \<and>
           env_status (envs k i) \<noteq> ENV_DYING
      then (Monitor, k)
      else bind_outcome (unlock_kernel (k\<lparr>curenv := None, cpu_halted := True\<rparr>)) (\<lambda>_ k1. (Halt, k1)))"

definition sched_yield :: "sched_policy \<Rightarrow> kernel \<Rightarrow> 'a outcome \<times> kernel" where
  "sched_yield pol k =
     (let (e, k1) = choose_env pol (k\<lparr>sched_calls := sched_calls k + 1\<rparr>) in
      case e of Some i \<Rightarrow> env_run i k1 | None \<Rightarrow> sched_halt k1)"

definition env_destroy :: "sched_policy \<Rightarrow> nat \<Rightarrow> kernel \<Rightarrow> unit outcome \<times> kernel" where
  "env_destroy pol e k =
     (if env_status (envs k e) = ENV_RUNNING \<and> curenv k \<noteq> Some e
      then (Ret (), upd_env k e (\<lambda>x. x\<lparr>env_status := ENV_DYING\<rparr>))
      else bind_outcome (env_free e (k\<lparr>total_tickets := total_tickets k - tickets (envs k e)\<rparr>)) (\<lambda>_ k1.
        if curenv k1 = Some e then sched_yield pol (k1\<lparr>curenv := None\<rparr>) else (Ret (), k1)))"

definition user_mem_assert ::
  "sched_policy \<Rightarrow> nat \<Rightarrow> u32 \<Rightarrow> u32 \<Rightarrow> u32 \<Rightarrow> kernel \<Rightarrow> unit outcome \<times> kernel" where
  "user_mem_assert pol e va len perm k =
     (case env_pgdir (envs k e) of
        None \<Rightarrow> (Panic, k)
      | Some pgdir \<Rightarrow>
          (case user_mem_check pgdir va len (perm OR PTE_U) (vm k) of
             None \<Rightarrow> (Panic, k)
           | Some (r, s) \<Rightarrow> if r < 0 then env_destroy pol e (k\<lparr>vm := s\<rparr>) else (Ret (), k\<lparr>vm := s\<rparr>)))"

section \<open>Priorities\<close>

definition reduce_current_env_prio :: "kernel \<Rightarrow> kernel" where
  "reduce_current_env_prio k =
     (case curenv k of
        None \<Rightarrow> k
      | Some c \<Rightarrow>
          if 10 <s tickets (envs k c)
          then upd_env (k\<lparr>total_tickets := total_tickets k - 10\<rparr>) c (\<lambda>x. x\<lparr>tickets := tickets x - 10\<rparr>)
          else upd_env (k\<lparr>total_tickets := total_tickets k - (tickets (envs k c) - 1)\<rparr>) c
                 (\<lambda>x. x\<lparr>tickets := 1\<rparr>))"

text \<open>The loop of \<open>sched_boost\<close>: \<open>n\<close> slots from \<open>i\<close>.\<close>

fun boost_from :: "nat \<Rightarrow> nat \<Rightarrow> kernel \<Rightarrow> kernel" where
  "boost_from i 0 k = k"
| "boost_from i (Suc n) k =
     boost_from (i + 1) n
       (if env_status (envs k i) = ENV_RUNNABLE \<or> env_status (envs k i) = ENV_RUNNING
        then (upd_env k i (\<lambda>x. x\<lparr>tickets := 100\<rparr>))\<lparr>total_tickets := total_tickets k + 100\<rparr>
        else k)"

definition sched_boost :: "kernel \<Rightarrow> kernel" where
  "sched_boost k = boost_from 0 NENV (k\<lparr>boost_calls := boost_calls k + 1, total_tickets := 0\<rparr>)"

section \<open>Statistics\<close>

text \<open>What \<open>get_stats\<close> prints: identifiers and run counts of the environments that ran.\<close>

record sched_stats =
  history :: "u32 list"
  runs :: "(u32 \<times> u32) list"
  boosts :: int
  yields :: int

definition sched_get_stats :: "kernel \<Rightarrow> sched_stats" where
  "sched_get_stats k =
     (let ran = filter (\<lambda>i. env_runs (envs k i) \<noteq> 0) [0..<NENV] in
      \<lparr>history = map (\<lambda>i. env_id (envs k i)) ran,
       runs = map (\<lambda>i. (env_id (envs k i), env_runs (envs k i))) ran,
       boosts = boost_calls k, yields = sched_calls k\<rparr>)"

end
