(* ===== verification/JosSyscall.thy ===== *)
theory JosSyscall
  imports JosSched
begin

text \<open>
  sched/kern/syscall.c: the system calls, from the checks of the arguments to the dispatch.

  Every call takes the policy of the scheduler, because a call may destroy the current
  environment and switch to another one. The results are 32-bit words, errors are negative.
\<close>

definition err :: "int \<Rightarrow> u32" where "err e = of_int (- e)"

definition with_curenv :: "kernel \<Rightarrow> (nat \<Rightarrow> 'a outcome \<times> kernel) \<Rightarrow> 'a outcome \<times> kernel" where
  "with_curenv k f = (case curenv k of None \<Rightarrow> (Panic, k) | Some c \<Rightarrow> f c)"

text \<open>\<open>if ((r = envid2env(...))) return r;\<close> and a null environment is a kernel fault.\<close>

definition with_env ::
  "u32 \<Rightarrow> bool \<Rightarrow> kernel \<Rightarrow> (nat \<Rightarrow> kernel \<Rightarrow> u32 outcome \<times> kernel) \<Rightarrow> u32 outcome \<times> kernel" where
  "with_env envid checkperm k f =
     bind_outcome (envid2env envid checkperm k) (\<lambda>(r, env) k1.
       if r \<noteq> 0 then (Ret (of_int r), k1)
       else case env of None \<Rightarrow> (Panic, k1) | Some e \<Rightarrow> f e k1)"

section \<open>Pages\<close>

text \<open>\<open>pte\<close> is the entry that the pointer refers to, if it is not null.\<close>

definition check_perm :: "u32 \<Rightarrow> u32 option \<Rightarrow> int" where
  "check_perm perm pte =
     (if perm AND NOT PTE_SYSCALL \<noteq> 0 then - E_INVAL
      else if perm AND PTE_P = 0 \<or> perm AND PTE_U = 0 then - E_INVAL
      else case pte of
          None \<Rightarrow> 0
        | Some p \<Rightarrow>
            if p \<noteq> 0 \<and> p AND PTE_P = 0 then - E_INVAL
            else if perm AND PTE_W \<noteq> 0 \<and> p AND PTE_W = 0 then - E_INVAL
            else 0)"

definition env_page_alloc :: "nat \<Rightarrow> u32 \<Rightarrow> u32 \<Rightarrow> kernel \<Rightarrow> int outcome \<times> kernel" where
  "env_page_alloc env va perm k =
     (let r = check_perm perm None in
      if r < 0 then (Ret r, k)
      else case page_alloc True (vm k) of
          None \<Rightarrow> (Panic, k)
        | Some (None, s) \<Rightarrow> (Ret (- E_NO_MEM), k\<lparr>vm := s\<rparr>)
        | Some (Some p, s) \<Rightarrow>
            (case env_pgdir (envs k env) of
               None \<Rightarrow> (Panic, k)
             | Some pgdir \<Rightarrow>
                 (case page_insert (cur_pgdir k) pgdir p va perm s of
                    None \<Rightarrow> (Panic, k)
                  | Some (r2, s2) \<Rightarrow> (Ret r2, k\<lparr>vm := s2\<rparr>))))"

definition env_page_map :: "nat \<Rightarrow> u32 \<Rightarrow> nat \<Rightarrow> u32 \<Rightarrow> u32 \<Rightarrow> kernel \<Rightarrow> int outcome \<times> kernel" where
  "env_page_map srcenv srcva dstenv dstva perm k =
     (case (env_pgdir (envs k srcenv), env_pgdir (envs k dstenv)) of
        (Some srcdir, Some dstdir) \<Rightarrow>
          (case page_lookup srcdir srcva (vm k) of
             None \<Rightarrow> (Panic, k)
           | Some None \<Rightarrow> (Ret (- E_INVAL), k)
           | Some (Some (page, srcpte)) \<Rightarrow>
               if (perm AND PTE_W) AND NOT (PTE_W AND read_pte (vm k) srcpte) \<noteq> 0
               then (Ret (- E_INVAL), k)
               else (case page_insert (cur_pgdir k) dstdir page dstva perm (vm k) of
                   None \<Rightarrow> (Panic, k)
                 | Some (r, s) \<Rightarrow> (Ret r, k\<lparr>vm := s\<rparr>)))
      | _ \<Rightarrow> (Panic, k))"

text \<open>An address that a page cannot be mapped at.\<close>

definition bad_va :: "u32 \<Rightarrow> bool" where "bad_va va \<longleftrightarrow> va \<ge> UTOP \<or> va mod PGSIZE \<noteq> 0"

definition ret_int :: "int outcome \<times> kernel \<Rightarrow> u32 outcome \<times> kernel" where
  "ret_int r = bind_outcome r (\<lambda>x k. (Ret (of_int x), k))"

definition sys_page_alloc :: "u32 \<Rightarrow> u32 \<Rightarrow> u32 \<Rightarrow> kernel \<Rightarrow> u32 outcome \<times> kernel" where
  "sys_page_alloc envid va perm k =
     (if bad_va va then (Ret (err E_INVAL), k)
      else with_env envid True k (\<lambda>env k1.
             ret_int (env_page_alloc env va (perm OR PTE_U OR PTE_P) k1)))"

definition sys_page_map :: "u32 \<Rightarrow> u32 \<Rightarrow> u32 \<Rightarrow> u32 \<Rightarrow> u32 \<Rightarrow> kernel \<Rightarrow> u32 outcome \<times> kernel" where
  "sys_page_map srcenvid srcva dstenvid dstva perm k =
     (if bad_va srcva then (Ret (err E_INVAL), k)
      else if bad_va dstva then (Ret (err E_INVAL), k)
      else with_env srcenvid True k (\<lambda>srcenv k1. with_env dstenvid True k1 (\<lambda>dstenv k2.
             ret_int (env_page_map srcenv srcva dstenv dstva (PTE_P OR PTE_U OR perm) k2))))"

definition sys_page_unmap :: "u32 \<Rightarrow> u32 \<Rightarrow> kernel \<Rightarrow> u32 outcome \<times> kernel" where
  "sys_page_unmap envid va k =
     (if bad_va va then (Ret (err E_INVAL), k)
      else with_env envid True k (\<lambda>env k1.
        case env_pgdir (envs k1 env) of
          None \<Rightarrow> (Panic, k1)
        | Some pgdir \<Rightarrow>
            (case page_remove (cur_pgdir k1) pgdir va (vm k1) of
               None \<Rightarrow> (Panic, k1)
             | Some s \<Rightarrow> (Ret 0, k1\<lparr>vm := s\<rparr>))))"

section \<open>Console\<close>

text \<open>
  The loop of the \<open>%.*s\<close> conversion in \<open>vprintfmt\<close>: it reads each byte before it looks at the
  precision. \<open>None\<close> is a page fault of the kernel, or a string that does not end in the
  whole address space, for which the fuel runs out.
\<close>

fun user_chars :: "vm \<Rightarrow> u32 \<Rightarrow> nat \<Rightarrow> int \<Rightarrow> u32 \<Rightarrow> byte list option" where
  "user_chars s pgdir 0 precision p = None"
| "user_chars s pgdir (Suc n) precision p =
     (case translate_read s pgdir p of
        None \<Rightarrow> None
      | Some pa \<Rightarrow>
          let ch = get_byte s pa in
          if ch = 0 then Some []
          else if precision < 0 then map_option (Cons ch) (user_chars s pgdir n precision (p + 1))
          else if precision - 1 \<ge> 0
          then map_option (Cons ch) (user_chars s pgdir n (precision - 1) (p + 1))
          else Some [])"

definition sys_cputs :: "sched_policy \<Rightarrow> u32 \<Rightarrow> u32 \<Rightarrow> kernel \<Rightarrow> unit outcome \<times> kernel" where
  "sys_cputs pol p len k = with_curenv k (\<lambda>c.
     bind_outcome (user_mem_assert pol c p len (PTE_P OR PTE_W OR PTE_U) k) (\<lambda>_ k1.
       case env_pgdir (envs k1 c) of
         None \<Rightarrow> (Panic, k1)
       | Some pgdir \<Rightarrow>
           (case user_chars (vm k1) pgdir (2 ^ 32) (sint len) p of
              None \<Rightarrow> (Panic, k1)
            | Some cs \<Rightarrow>
                (Ret (), k1\<lparr>console := fold (\<lambda>ch. cputchar (scast ch)) cs (console k1)\<rparr>))))"

definition sys_cgetc :: "kernel \<Rightarrow> u32 outcome \<times> kernel" where
  "sys_cgetc k = (let (c, con) = cons_getc (console k) in (Ret (of_int c), k\<lparr>console := con\<rparr>))"

section \<open>Environments\<close>

definition sys_getenvid :: "kernel \<Rightarrow> u32 outcome \<times> kernel" where
  "sys_getenvid k = with_curenv k (\<lambda>c. (Ret (env_id (envs k c)), k))"

definition sys_getpriority :: "kernel \<Rightarrow> u32 outcome \<times> kernel" where
  "sys_getpriority k = with_curenv k (\<lambda>c. (Ret (tickets (envs k c)), k))"

text \<open>The arithmetic of \<open>int\<close>s wraps here; in C its overflow is undefined.\<close>

definition sys_reduce_priority :: "u32 \<Rightarrow> kernel \<Rightarrow> unit outcome \<times> kernel" where
  "sys_reduce_priority relative_percent k = with_curenv k (\<lambda>c.
     let new_ticket_number = of_int (sint (tickets (envs k c) * relative_percent) sdiv 100) :: u32 in
     if 0 <s new_ticket_number
     then (Ret (), upd_env (k\<lparr>total_tickets := total_tickets k - new_ticket_number\<rparr>) c
                     (\<lambda>x. x\<lparr>tickets := tickets x - new_ticket_number\<rparr>))
     else (Ret (), upd_env (k\<lparr>total_tickets := total_tickets k - (tickets (envs k c) - 1)\<rparr>) c
                     (\<lambda>x. x\<lparr>tickets := 1\<rparr>)))"

definition sys_env_destroy :: "sched_policy \<Rightarrow> u32 \<Rightarrow> kernel \<Rightarrow> u32 outcome \<times> kernel" where
  "sys_env_destroy pol envid k =
     bind_outcome (envid2env envid True k) (\<lambda>(r, env) k1.
       if r < 0 then (Ret (of_int r), k1)
       else case env of
           None \<Rightarrow> (Panic, k1)
         | Some e \<Rightarrow> bind_outcome (env_destroy pol e k1) (\<lambda>_ k2. (Ret 0, k2)))"

definition sys_yield :: "sched_policy \<Rightarrow> kernel \<Rightarrow> 'a outcome \<times> kernel" where
  "sys_yield pol k = sched_yield pol k"

definition sys_exofork :: "kernel \<Rightarrow> u32 outcome \<times> kernel" where
  "sys_exofork k = with_curenv k (\<lambda>c.
     bind_outcome (env_alloc (env_id (envs k c)) k) (\<lambda>(r, newenv) k1.
       if r \<noteq> 0 then (Ret (of_int r), k1)
       else case newenv of
           None \<Rightarrow> (Panic, k1)
         | Some e \<Rightarrow>
             (Ret (env_id (envs k1 e)),
              upd_env k1 e (\<lambda>x. x\<lparr>env_status := ENV_NOT_RUNNABLE,
                env_tf := (env_tf (envs k1 c))
                  \<lparr>tf_regs := (tf_regs (env_tf (envs k1 c)))\<lparr>reg_eax := 0\<rparr>\<rparr>\<rparr>))))"

text \<open>The numbers of \<open>env_status\<close> in the enumeration.\<close>

definition status_of :: "u32 \<Rightarrow> env_status option" where
  "status_of n = (if n = 2 then Some ENV_RUNNABLE else if n = 4 then Some ENV_NOT_RUNNABLE else None)"

definition sys_env_set_status :: "u32 \<Rightarrow> u32 \<Rightarrow> kernel \<Rightarrow> u32 outcome \<times> kernel" where
  "sys_env_set_status envid status k =
     (case status_of status of
        None \<Rightarrow> (Ret (err E_INVAL), k)
      | Some st \<Rightarrow> with_env envid True k (\<lambda>env k1.
          (Ret 0, upd_env k1 env (\<lambda>x. x\<lparr>env_status := st\<rparr>))))"

definition sys_env_set_pgfault_upcall ::
  "sched_policy \<Rightarrow> u32 \<Rightarrow> u32 \<Rightarrow> kernel \<Rightarrow> u32 outcome \<times> kernel" where
  "sys_env_set_pgfault_upcall pol envid func k = with_env envid True k (\<lambda>env k1.
     bind_outcome (user_mem_assert pol env func PGSIZE (PTE_P OR PTE_U) k1) (\<lambda>_ k2.
       (Ret 0, upd_env k2 env (\<lambda>x. x\<lparr>env_pgfault_upcall := func\<rparr>))))"

section \<open>Interprocess communication\<close>

text \<open>What follows the label \<open>bail\<close>.\<close>

definition ipc_deliver :: "nat \<Rightarrow> u32 \<Rightarrow> kernel \<Rightarrow> u32 outcome \<times> kernel" where
  "ipc_deliver dst val k = with_curenv k (\<lambda>c.
     (Ret 0, upd_env k dst (\<lambda>x. x\<lparr>env_ipc_from := env_id (envs k c), env_ipc_recving := False,
        env_ipc_value := val,
        env_tf := (env_tf x)\<lparr>tf_regs := (tf_regs (env_tf x))\<lparr>reg_eax := 0\<rparr>\<rparr>,
        env_status := ENV_RUNNABLE\<rparr>)))"

text \<open>
  The transfer of the page. When nothing is mapped at \<open>srcva\<close> the code reads through the
  uninitialised pointer \<open>srcpte\<close>.
\<close>

definition ipc_send_page ::
  "nat \<Rightarrow> u32 \<Rightarrow> u32 \<Rightarrow> u32 \<Rightarrow> kernel \<Rightarrow> u32 outcome \<times> kernel" where
  "ipc_send_page dst val srcva perm k = with_curenv k (\<lambda>c.
     case env_pgdir (envs k c) of
       None \<Rightarrow> (Panic, k)
     | Some srcdir \<Rightarrow>
         (case page_lookup srcdir srcva (vm k) of
            None \<Rightarrow> (Panic, k)
          | Some None \<Rightarrow> (Panic, k)
          | Some (Some (_, srcpte)) \<Rightarrow>
              let entry = read_pte (vm k) srcpte; perm1 = perm OR PTE_U OR PTE_P;
                  dstva = env_ipc_dstva (envs k dst) in
              if entry \<noteq> 0 \<and> entry AND PTE_P = 0 then (Ret (err E_INVAL), k)
              else if perm AND PTE_W \<noteq> 0 \<and> entry AND PTE_W = 0 then (Ret (err E_INVAL), k)
              else if dstva = 0 then ipc_deliver dst val k
              else bind_outcome (env_page_alloc dst dstva perm1 k) (\<lambda>r1 k1.
                if r1 < 0 then (Ret (of_int r1), k1)
                else bind_outcome (env_page_map c srcva dst dstva perm1 k1) (\<lambda>r2 k2.
                  if r2 < 0 then (Ret (of_int r2), k2)
                  else ipc_deliver dst val (upd_env k2 dst (\<lambda>x. x\<lparr>env_ipc_perm := perm1\<rparr>))))))"

definition sys_ipc_try_send :: "u32 \<Rightarrow> u32 \<Rightarrow> u32 \<Rightarrow> u32 \<Rightarrow> kernel \<Rightarrow> u32 outcome \<times> kernel" where
  "sys_ipc_try_send envid val srcva perm k = with_env envid False k (\<lambda>dst k1.
     if \<not> env_ipc_recving (envs k1 dst) then (Ret (err E_IPC_NOT_RECV), k1)
     else if srcva \<ge> UTOP
     then ipc_deliver dst val (upd_env k1 dst (\<lambda>x. x\<lparr>env_ipc_perm := 0\<rparr>))
     else if srcva mod PGSIZE \<noteq> 0 then (Ret (err E_INVAL), k1)
     else ipc_send_page dst val srcva perm k1)"

definition sys_ipc_recv :: "sched_policy \<Rightarrow> u32 \<Rightarrow> kernel \<Rightarrow> u32 outcome \<times> kernel" where
  "sys_ipc_recv pol dstva k = with_curenv k (\<lambda>c.
     let k1 = upd_env k c (\<lambda>x. x\<lparr>env_ipc_recving := True\<rparr>) in
     if bad_va dstva then (Ret (err E_INVAL), k1)
     else sys_yield pol (upd_env k1 c
            (\<lambda>x. x\<lparr>env_ipc_dstva := dstva, env_status := ENV_NOT_RUNNABLE\<rparr>)))"

section \<open>Dispatch\<close>

datatype sysno = SYS_cputs | SYS_cgetc | SYS_getenvid | SYS_getpriority | SYS_reduce_priority
  | SYS_env_destroy | SYS_page_alloc | SYS_page_map | SYS_page_unmap | SYS_exofork
  | SYS_env_set_status | SYS_env_set_pgfault_upcall | SYS_yield | SYS_ipc_try_send | SYS_ipc_recv

definition sysno_of :: "u32 \<Rightarrow> sysno option" where
  "sysno_of n =
     (let xs = [SYS_cputs, SYS_cgetc, SYS_getenvid, SYS_getpriority, SYS_reduce_priority,
        SYS_env_destroy, SYS_page_alloc, SYS_page_map, SYS_page_unmap, SYS_exofork,
        SYS_env_set_status, SYS_env_set_pgfault_upcall, SYS_yield, SYS_ipc_try_send, SYS_ipc_recv]
      in if unat n < length xs then Some (xs ! unat n) else None)"

text \<open>The case of \<open>SYS_reduce_priority\<close> has no \<open>return\<close> and goes on into \<open>SYS_env_destroy\<close>.\<close>

definition syscall ::
  "sched_policy \<Rightarrow> u32 \<Rightarrow> u32 \<Rightarrow> u32 \<Rightarrow> u32 \<Rightarrow> u32 \<Rightarrow> u32 \<Rightarrow> kernel \<Rightarrow> u32 outcome \<times> kernel" where
  "syscall pol syscallno a1 a2 a3 a4 a5 k =
     (case sysno_of syscallno of
        Some SYS_cputs \<Rightarrow> bind_outcome (sys_cputs pol a1 a2 k) (\<lambda>_ k1. (Ret 0, k1))
      | Some SYS_getenvid \<Rightarrow> sys_getenvid k
      | Some SYS_getpriority \<Rightarrow> sys_getpriority k
      | Some SYS_reduce_priority \<Rightarrow>
          bind_outcome (sys_reduce_priority a1 k) (\<lambda>_ k1. sys_env_destroy pol a1 k1)
      | Some SYS_env_destroy \<Rightarrow> sys_env_destroy pol a1 k
      | Some SYS_cgetc \<Rightarrow> sys_cgetc k
      | Some SYS_exofork \<Rightarrow> sys_exofork k
      | Some SYS_env_set_status \<Rightarrow> sys_env_set_status a1 a2 k
      | Some SYS_page_alloc \<Rightarrow> sys_page_alloc a1 a2 a3 k
      | Some SYS_page_map \<Rightarrow> sys_page_map a1 a2 a3 a4 a5 k
      | Some SYS_page_unmap \<Rightarrow> sys_page_unmap a1 a2 k
      | Some SYS_ipc_recv \<Rightarrow> sys_ipc_recv pol a1 k
      | Some SYS_ipc_try_send \<Rightarrow> sys_ipc_try_send a1 a2 a3 a4 k
      | Some SYS_env_set_pgfault_upcall \<Rightarrow> sys_env_set_pgfault_upcall pol a1 a2 k
      | Some SYS_yield \<Rightarrow> sys_yield pol k
      | None \<Rightarrow> (Ret (err E_INVAL), k))"

end
