(* ===== verification/JosTrap.thy ===== *)
theory JosTrap
  imports JosSyscall
begin

text \<open>
  sched/kern/trap.c: the interrupt descriptor table, the entry from user and kernel mode, the
  dispatch of traps, and the delivery of page faults to the handler of the environment.

  \<open>trap\<close> gets the trap frame that the processor pushed and the address in the register
  \<open>cr2\<close>. It never returns: its outcome is an environment that runs, a halt, the monitor or a
  panic. Acknowledging the interrupt controller and the printing of frames are left out.
\<close>

definition T_BRKPT :: u32 where "T_BRKPT = 3"
definition T_PGFLT :: u32 where "T_PGFLT = 14"
definition T_SYSCALL :: u32 where "T_SYSCALL = 48"
definition IRQ_OFFSET :: u32 where "IRQ_OFFSET = 32"
definition IRQ_TIMER :: u32 where "IRQ_TIMER = 0"
definition IRQ_SPURIOUS :: u32 where "IRQ_SPURIOUS = 7"
definition INTS2BOOST :: int where "INTS2BOOST = 10"

section \<open>Descriptor table\<close>

record Gatedesc =
  gd_istrap :: bool
  gd_sel :: "16 word"
  gd_handler :: nat
  gd_dpl :: nat

definition SETGATE :: "(nat \<Rightarrow> Gatedesc option) \<Rightarrow> nat \<Rightarrow> bool \<Rightarrow> 16 word \<Rightarrow> nat \<Rightarrow> nat \<Rightarrow> (nat \<Rightarrow> Gatedesc option)"
  where
  "SETGATE idt n istrap sel handler dpl =
     idt(n \<mapsto> \<lparr>gd_istrap = istrap, gd_sel = sel, gd_handler = handler, gd_dpl = dpl\<rparr>)"

text \<open>The vectors in the order of the code, each with its privilege level.\<close>

definition trap_vectors :: "(nat \<times> nat) list" where
  "trap_vectors = [(0, 0), (1, 0), (2, 0), (3, 3), (4, 0), (5, 0), (6, 0), (7, 0), (8, 0), (10, 0),
     (11, 0), (12, 0), (13, 0), (14, 0), (16, 0), (17, 0), (18, 0), (19, 0), (48, 3), (32, 0)]"

definition trap_init :: "(nat \<Rightarrow> Gatedesc option) \<Rightarrow> (nat \<Rightarrow> Gatedesc option)" where
  "trap_init idt = fold (\<lambda>(n, dpl) t. SETGATE t n False GD_KT n dpl) trap_vectors idt"

definition trapname :: "nat \<Rightarrow> string" where
  "trapname trapno =
     (let excnames = [''Divide error'', ''Debug'', ''Non-Maskable Interrupt'', ''Breakpoint'',
        ''Overflow'', ''BOUND Range Exceeded'', ''Invalid Opcode'', ''Device Not Available'',
        ''Double Fault'', ''Coprocessor Segment Overrun'', ''Invalid TSS'', ''Segment Not Present'',
        ''Stack Fault'', ''General Protection'', ''Page Fault'', ''(unknown trap)'',
        ''x87 FPU Floating-Point Error'', ''Alignment Check'', ''Machine-Check'',
        ''SIMD Floating-Point Exception'']
      in if trapno < length excnames then excnames ! trapno
         else if trapno = 48 then ''System call''
         else if trapno \<ge> 32 \<and> trapno < 48 then ''Hardware Interrupt''
         else ''(unknown trap)'')"

section \<open>Page faults\<close>

text \<open>
  The frame \<open>tf\<close> of the code is either the one on the stack or that of an environment;
  \<open>loc\<close> is that environment.
\<close>

definition set_tf :: "nat option \<Rightarrow> (Trapframe \<Rightarrow> Trapframe) \<Rightarrow> kernel \<Rightarrow> kernel" where
  "set_tf loc f k = (case loc of None \<Rightarrow> k
     | Some c \<Rightarrow> upd_env k c (\<lambda>x. x\<lparr>env_tf := f (env_tf x)\<rparr>))"

text \<open>The words of \<open>struct UTrapframe\<close>, in memory order, as bytes.\<close>

definition sizeof_UTrapframe :: u32 where "sizeof_UTrapframe = 52"

definition utf_words :: "u32 \<Rightarrow> Trapframe \<Rightarrow> u32 list" where
  "utf_words fault_va tf =
     (let r = tf_regs tf in
      [fault_va, tf_err tf, reg_edi r, reg_esi r, reg_ebp r, reg_oesp r, reg_ebx r, reg_edx r,
       reg_ecx r, reg_eax r, tf_eip tf, tf_eflags tf, tf_esp tf])"

definition word_bytes :: "u32 \<Rightarrow> byte list" where "word_bytes w = le_bytes 4 (unat w)"

definition exstk :: u32 where "exstk = UXSTACKTOP - PGSIZE"
definition exstk_top :: u32 where "exstk_top = UXSTACKTOP - 1"

text \<open>
  Where the frame goes, and the scratch word that is cleared first when the fault happened on
  the exception stack.
\<close>

definition utf_address :: "u32 \<Rightarrow> u32" where
  "utf_address esp = (if esp < exstk \<or> esp > exstk_top then exstk_top - sizeof_UTrapframe
     else esp - 4 - sizeof_UTrapframe)"

definition push_utf :: "u32 \<Rightarrow> u32 \<Rightarrow> Trapframe \<Rightarrow> vm \<Rightarrow> vm option" where
  "push_utf pgdir fault_va tf s =
     (case (if tf_esp tf < exstk \<or> tf_esp tf > exstk_top then Some s
            else write_virtual pgdir (tf_esp tf - 4) (word_bytes 0) s) of
        None \<Rightarrow> None
      | Some s1 \<Rightarrow>
          write_virtual pgdir (utf_address (tf_esp tf))
            (concat (map word_bytes (utf_words fault_va tf))) s1)"

definition page_fault_handler ::
  "sched_policy \<Rightarrow> u32 \<Rightarrow> Trapframe \<Rightarrow> nat option \<Rightarrow> kernel \<Rightarrow> unit outcome \<times> kernel" where
  "page_fault_handler pol fault_va tf loc k =
     (if tf_cs tf AND 3 = 0 then (Panic, k)
      else with_curenv k (\<lambda>c.
        if env_pgfault_upcall (envs k c) \<noteq> 0 then
          bind_outcome (user_mem_assert pol c exstk PGSIZE (PTE_U OR PTE_W) k) (\<lambda>_ k1.
            case env_pgdir (envs k1 c) of
              None \<Rightarrow> (Panic, k1)
            | Some pgdir \<Rightarrow>
                (case push_utf pgdir fault_va tf (vm k1) of
                   None \<Rightarrow> (Panic, k1)
                 | Some s \<Rightarrow>
                     let k2 = k1\<lparr>vm := s\<rparr>; tmp = utf_address (tf_esp tf) in
                     if tmp < exstk \<or> tmp > exstk_top then (Panic, k2)
                     else env_run c (set_tf loc (\<lambda>t. t\<lparr>tf_esp := tmp,
                            tf_eip := env_pgfault_upcall (envs k2 c)\<rparr>) k2)))
        else env_destroy pol c k))"

section \<open>Dispatch\<close>

definition timer_interrupt :: "sched_policy \<Rightarrow> kernel \<Rightarrow> kernel" where
  "timer_interrupt pol k =
     (case pol of
        SCHED_ROUND_ROBIN \<Rightarrow> k
      | SCHED_PROPORTIONAL_SHARE \<Rightarrow>
          let k1 = reduce_current_env_prio k;
              k2 = k1\<lparr>timer_int_counter := timer_int_counter k1 + 1\<rparr>
          in if timer_int_counter k2 = INTS2BOOST
             then sched_boost (k2\<lparr>timer_int_counter := 0\<rparr>) else k2)"

definition trap_dispatch ::
  "sched_policy \<Rightarrow> u32 \<Rightarrow> Trapframe \<Rightarrow> nat option \<Rightarrow> kernel \<Rightarrow> unit outcome \<times> kernel" where
  "trap_dispatch pol cr2 tf loc k =
     (if tf_trapno tf = T_BRKPT then (Monitor, k)
      else if tf_trapno tf = T_PGFLT then page_fault_handler pol cr2 tf loc k
      else if tf_trapno tf = T_SYSCALL then
        let r = tf_regs tf in
        bind_outcome (syscall pol (reg_eax r) (reg_edx r) (reg_ecx r) (reg_ebx r) (reg_edi r)
            (reg_esi r) k) (\<lambda>v k1.
          (Ret (), set_tf loc (\<lambda>t. t\<lparr>tf_regs := (tf_regs t)\<lparr>reg_eax := v\<rparr>\<rparr>) k1))
      else if tf_trapno tf = IRQ_OFFSET + IRQ_SPURIOUS then (Ret (), k)
      else if tf_trapno tf - IRQ_OFFSET = IRQ_TIMER then sched_yield pol (timer_interrupt pol k)
      else if tf_cs tf = GD_KT then (Panic, k)
      else with_curenv k (\<lambda>c. env_destroy pol c k))"

text \<open>What follows the dispatch.\<close>

definition trap_return :: "sched_policy \<Rightarrow> kernel \<Rightarrow> unit outcome \<times> kernel" where
  "trap_return pol k =
     (case curenv k of
        Some c \<Rightarrow> if env_status (envs k c) = ENV_RUNNING then env_run c k else sched_yield pol k
      | None \<Rightarrow> sched_yield pol k)"

definition trap :: "sched_policy \<Rightarrow> u32 \<Rightarrow> Trapframe \<Rightarrow> kernel \<Rightarrow> unit outcome \<times> kernel" where
  "trap pol cr2 tf k =
     (if panicstr k then (Halt, k)
      else bind_outcome (if cpu_halted k then lock_kernel (k\<lparr>cpu_halted := False\<rparr>) else (Ret (), k)) (\<lambda>_ k1.
        if tf_cs tf AND 3 = 3 then
          bind_outcome (lock_kernel k1) (\<lambda>_ k2.
            case curenv k2 of
              None \<Rightarrow> (Panic, k2)
            | Some c \<Rightarrow>
                if env_status (envs k2 c) = ENV_DYING
                then bind_outcome (env_free c k2) (\<lambda>_ k3. sched_yield pol (k3\<lparr>curenv := None\<rparr>))
                else bind_outcome
                       (trap_dispatch pol cr2 tf (Some c) (upd_env k2 c (\<lambda>x. x\<lparr>env_tf := tf\<rparr>)))
                       (\<lambda>_. trap_return pol))
        else bind_outcome (trap_dispatch pol cr2 tf None k1) (\<lambda>_. trap_return pol)))"

end
