(* ===== verification/JosSchedSpec.thy ===== *)
theory JosSchedSpec
  imports JosTrap
begin

text \<open>
  What the schedulers choose: the round-robin policy is a search of the slots in cyclic order,
  the proportional share is a search by accumulated tickets. A locale states what both
  promise to \<open>sched_yield\<close>: an environment that can run is chosen whenever there is one, and
  the current one goes on otherwise.
\<close>

abbreviation runnable :: "kernel \<Rightarrow> nat \<Rightarrow> bool" where
  "runnable k i \<equiv> env_status (envs k i) = ENV_RUNNABLE"

lemma NENV_eq: "NENV = 1024"
  by (simp add: NENV_def LOG2NENV_def)

lemma ENVX_less: "ENVX x < NENV"
proof -
  have "unat (x AND 0x3FF) \<le> unat (0x3FF :: u32)"
    by (rule word_le_nat_alt [THEN iffD1, OF word_and_le1])
  then show ?thesis by (simp add: ENVX_def NENV_eq)
qed

section \<open>The choices\<close>

lemma next_runnable_find:
  "get_next_runnable_process k pos n = find (runnable k) [pos..<pos + n]"
  by (induction n arbitrary: pos) (simp_all add: upt_conv_Cons del: upt_Suc)

text \<open>The current environment, if it may go on.\<close>

definition running_cur :: "kernel \<Rightarrow> nat option" where
  "running_cur k = (case curenv k of None \<Rightarrow> None
     | Some c \<Rightarrow> if env_status (envs k c) = ENV_RUNNING then Some c else None)"

text \<open>The slots in cyclic order, the one after the current environment first.\<close>

definition cyclic_slots :: "kernel \<Rightarrow> nat list" where
  "cyclic_slots k =
     (let pos = (case curenv k of None \<Rightarrow> 0 | Some c \<Rightarrow> ENVX (env_id (envs k c)) + 1)
      in [pos..<NENV] @ [0..<pos])"

lemma find_append: "find P (xs @ ys) = (case find P xs of Some x \<Rightarrow> Some x | None \<Rightarrow> find P ys)"
  by (induction xs) auto

lemma cyclic_slots_set: "set (cyclic_slots k) = {..<NENV}"
proof -
  have "(case curenv k of None \<Rightarrow> 0 | Some c \<Rightarrow> ENVX (env_id (envs k c)) + 1) \<le> NENV"
    using ENVX_less by (auto split: option.split simp: Suc_le_eq)
  then show ?thesis by (auto simp: cyclic_slots_def Let_def)
qed

lemma choose_round_robin_eq:
  "choose_round_robin k = (case find (runnable k) (cyclic_slots k) of
     Some e \<Rightarrow> Some e | None \<Rightarrow> running_cur k)"
proof -
  define pos where "pos = (case curenv k of None \<Rightarrow> 0 | Some c \<Rightarrow> ENVX (env_id (envs k c)) + 1)"
  have "pos \<le> NENV" unfolding pos_def using ENVX_less by (auto split: option.split simp: Suc_le_eq)
  then show ?thesis
    unfolding choose_round_robin_def cyclic_slots_def running_cur_def Let_def pos_def [symmetric]
    by (simp add: next_runnable_find find_append split: option.split)
qed

text \<open>
  The reference for the lottery: walk through the runnable environments, add up their
  tickets, stop where the sum reaches the drawn number; the last one wins otherwise.
\<close>

fun first_reaching :: "kernel \<Rightarrow> u32 \<Rightarrow> u32 \<Rightarrow> nat list \<Rightarrow> nat option" where
  "first_reaching k winner counter [] = None"
| "first_reaching k winner counter (i # is) =
     (if winner \<le>s counter + tickets (envs k i) then Some i
      else first_reaching k winner (counter + tickets (envs k i)) is)"

definition lottery :: "kernel \<Rightarrow> u32 \<Rightarrow> nat list \<Rightarrow> nat option" where
  "lottery k winner is = (case first_reaching k winner 0 is of
     Some i \<Rightarrow> Some i | None \<Rightarrow> if is = [] then None else Some (last is))"

lemma draw_eq:
  "draw k winner i n counter idle =
     (let is = filter (runnable k) [i..<i + n] in
      case first_reaching k winner counter is of
        Some e \<Rightarrow> Some e | None \<Rightarrow> if is = [] then idle else Some (last is))"
  by (induction n arbitrary: i counter idle)
     (auto simp: upt_conv_Cons Let_def split: option.split simp del: upt_Suc)

lemma draw_runnable:
  "fst (choose_proportional k) =
     (let k1 = snd (generate_pseudorandom_value k);
          is = filter (runnable k) [0..<NENV]
      in if is = [] then running_cur k
         else lottery k (fst (generate_pseudorandom_value k)) is)"
proof -
  obtain w k1 where g: "generate_pseudorandom_value k = (w, k1)" by fastforce
  then have "envs k1 = envs k"
    by (auto simp: generate_pseudorandom_value_def Let_def)
  then have "first_reaching k1 w c is = first_reaching k w c is" for c "is"
    by (induction "is" arbitrary: c) auto
  with g \<open>envs k1 = envs k\<close> show ?thesis
    by (auto simp: choose_proportional_def draw_eq lottery_def running_cur_def Let_def
        split: option.split)
qed

lemma first_reaching_nth:
  "first_reaching k w c is = Some e \<longleftrightarrow>
     (\<exists>m < length is. e = is ! m \<and> w \<le>s c + (\<Sum>i\<leftarrow>take (Suc m) is. tickets (envs k i)) \<and>
        (\<forall>j < m. \<not> w \<le>s c + (\<Sum>i\<leftarrow>take (Suc j) is. tickets (envs k i))))"
proof (induction "is" arbitrary: c)
  case (Cons a "is")
  show ?case
  proof (cases "w \<le>s c + tickets (envs k a)")
    case True
    then show ?thesis by (auto simp: less_Suc_eq_0_disj)
  next
    case False
    then have "first_reaching k w c (a # is) = Some e \<longleftrightarrow>
        first_reaching k w (c + tickets (envs k a)) is = Some e" by simp
    also have "\<dots> \<longleftrightarrow> (\<exists>m < length is. e = is ! m \<and>
        w \<le>s c + tickets (envs k a) + (\<Sum>i\<leftarrow>take (Suc m) is. tickets (envs k i)) \<and>
        (\<forall>j < m. \<not> w \<le>s c + tickets (envs k a) + (\<Sum>i\<leftarrow>take (Suc j) is. tickets (envs k i))))"
      by (rule Cons.IH)
    also have "\<dots> \<longleftrightarrow> (\<exists>m < length (a # is). e = (a # is) ! m \<and>
        w \<le>s c + (\<Sum>i\<leftarrow>take (Suc m) (a # is). tickets (envs k i)) \<and>
        (\<forall>j < m. \<not> w \<le>s c + (\<Sum>i\<leftarrow>take (Suc j) (a # is). tickets (envs k i))))" (is "?L \<longleftrightarrow> ?R")
    proof
      assume ?L
      then obtain m where m: "m < length is" "e = is ! m"
        "w \<le>s c + tickets (envs k a) + (\<Sum>i\<leftarrow>take (Suc m) is. tickets (envs k i))"
        "\<forall>j < m. \<not> w \<le>s c + tickets (envs k a) + (\<Sum>i\<leftarrow>take (Suc j) is. tickets (envs k i))"
        by blast
      then show ?R using False by (intro exI [of _ "Suc m"]) (auto simp: less_Suc_eq_0_disj add.assoc)
    next
      assume ?R
      then obtain m where m: "m < length (a # is)" "e = (a # is) ! m"
        "w \<le>s c + (\<Sum>i\<leftarrow>take (Suc m) (a # is). tickets (envs k i))"
        "\<forall>j < m. \<not> w \<le>s c + (\<Sum>i\<leftarrow>take (Suc j) (a # is). tickets (envs k i))" by blast
      from m(3) False obtain n where [simp]: "m = Suc n" by (cases m) auto
      have "\<not> w \<le>s c + tickets (envs k a) + (\<Sum>i\<leftarrow>take (Suc j) is. tickets (envs k i))"
        if "j < n" for j using m(4) that by (auto simp: add.assoc dest!: spec [of _ "Suc j"])
      with m show ?L by (intro exI [of _ n]) (auto simp: add.assoc)
    qed
    finally show ?thesis .
  qed
qed simp

section \<open>What a policy promises\<close>

locale scheduling_policy =
  fixes pick :: "kernel \<Rightarrow> nat option \<times> kernel"
  assumes pick_runnable:
      "i < NENV \<Longrightarrow> runnable k i \<Longrightarrow> \<exists>e < NENV. fst (pick k) = Some e \<and> runnable k e"
    and pick_current: "\<forall>i < NENV. \<not> runnable k i \<Longrightarrow> fst (pick k) = running_cur k"
    and pick_state: "\<exists>r. snd (pick k) = k\<lparr>prev_random := r\<rparr>"
begin

lemma picked:
  assumes "fst (pick k) = Some e"
  shows "(e < NENV \<and> runnable k e) \<or> (curenv k = Some e \<and> env_status (envs k e) = ENV_RUNNING)"
proof (cases "\<exists>i < NENV. runnable k i")
  case True
  with assms pick_runnable show ?thesis by fastforce
next
  case False
  with assms pick_current [of k] show ?thesis
    by (auto simp: running_cur_def split: option.splits if_splits)
qed

lemma pick_None_iff:
  "fst (pick k) = None \<longleftrightarrow> (\<forall>i < NENV. \<not> runnable k i) \<and> running_cur k = None"
  using pick_runnable [of _ k] pick_current [of k] by (metis option.distinct(1))

lemma pick_envs [simp]:
  "envs (snd (pick k)) = envs k" "curenv (snd (pick k)) = curenv k"
  "env_free_list (snd (pick k)) = env_free_list k" "holding (snd (pick k)) = holding k"
  "total_tickets (snd (pick k)) = total_tickets k" "vm (snd (pick k)) = vm k"
  "kern_pgdir (snd (pick k)) = kern_pgdir k" "panicstr (snd (pick k)) = panicstr k"
  "cpu_halted (snd (pick k)) = cpu_halted k" "cpunum (snd (pick k)) = cpunum k"
  using pick_state [of k] by auto

end

lemma fst_choose_round_robin: "choose_env SCHED_ROUND_ROBIN k = (choose_round_robin k, k)"
  by (simp add: choose_env_def)

interpretation round_robin: scheduling_policy "choose_env SCHED_ROUND_ROBIN"
proof unfold_locales
  fix i k assume "i < NENV" "runnable k i"
  then have "find (runnable k) (cyclic_slots k) \<noteq> None"
    by (auto simp: find_None_iff cyclic_slots_set)
  then obtain e where "find (runnable k) (cyclic_slots k) = Some e" by auto
  moreover from this have "runnable k e" "e \<in> set (cyclic_slots k)"
    by (auto simp: find_Some_iff)
  ultimately show "\<exists>e < NENV. fst (choose_env SCHED_ROUND_ROBIN k) = Some e \<and> runnable k e"
    by (auto simp: fst_choose_round_robin choose_round_robin_eq cyclic_slots_set)
next
  fix k assume "\<forall>i < NENV. \<not> runnable k i"
  then have "find (runnable k) (cyclic_slots k) = None"
    by (auto simp: find_None_iff cyclic_slots_set)
  then show "fst (choose_env SCHED_ROUND_ROBIN k) = running_cur k"
    by (simp add: fst_choose_round_robin choose_round_robin_eq)
next
  fix k :: kernel
  have "k = k\<lparr>prev_random := prev_random k\<rparr>" by simp
  then show "\<exists>r. snd (choose_env SCHED_ROUND_ROBIN k) = k\<lparr>prev_random := r\<rparr>"
    by (metis fst_choose_round_robin snd_conv)
qed

lemma lottery_mem: "is \<noteq> [] \<Longrightarrow> \<exists>e \<in> set is. lottery k w is = Some e"
  unfolding lottery_def
  by (auto simp: first_reaching_nth split: option.split)

lemma choose_lottery: "choose_env SCHED_PROPORTIONAL_SHARE k = choose_proportional k"
  by (simp add: choose_env_def)

interpretation proportional_share: scheduling_policy "choose_env SCHED_PROPORTIONAL_SHARE"
proof unfold_locales
  fix i k assume "i < NENV" "runnable k i"
  then have "filter (runnable k) [0..<NENV] \<noteq> []" by (auto simp: filter_empty_conv)
  from lottery_mem [OF this] this
  show "\<exists>e < NENV. fst (choose_env SCHED_PROPORTIONAL_SHARE k) = Some e \<and> runnable k e"
    by (fastforce simp: choose_lottery draw_runnable Let_def)
next
  fix k assume "\<forall>i < NENV. \<not> runnable k i"
  then have "filter (runnable k) [0..<NENV] = []" by (auto simp: filter_empty_conv)
  then show "fst (choose_env SCHED_PROPORTIONAL_SHARE k) = running_cur k"
    by (simp add: choose_lottery draw_runnable Let_def)
next
  fix k show "\<exists>r. snd (choose_env SCHED_PROPORTIONAL_SHARE k) = k\<lparr>prev_random := r\<rparr>"
    by (auto simp: choose_lottery choose_proportional_def generate_pseudorandom_value_def Let_def)
qed

end
