(* ===== verification/JosYield.thy ===== *)
theory JosYield
  imports JosSchedSpec
begin

text \<open>
  What \<open>sched_yield\<close> does with the choice of a policy, and that the round-robin policy starves
  no environment.
\<close>

section \<open>Switching\<close>

text \<open>The state in which \<open>env_run e\<close> enters user mode.\<close>

definition switched :: "nat \<Rightarrow> kernel \<Rightarrow> kernel" where
  "switched e k = k\<lparr>envs := (\<lambda>i.
       if i = e then (envs k e)\<lparr>env_status := ENV_RUNNING, env_runs := env_runs (envs k e) + 1,
                                env_cpunum := cpunum k\<rparr>
       else if running_cur k = Some i then (envs k i)\<lparr>env_status := ENV_RUNNABLE\<rparr> else envs k i),
     curenv := Some e, holding := False\<rparr>"

lemma env_run_eq:
  assumes "holding k" "env_pgdir (envs k e) \<noteq> None"
  shows "env_run e k = (Run e, switched e k)"
proof (cases "curenv k")
  case None
  with assms show ?thesis
    by (auto simp: env_run_def env_load_pgdir_def unlock_kernel_def bind_outcome_def upd_env_def
        switched_def running_cur_def Let_def fun_eq_iff split: option.split)
next
  case (Some c)
  with assms show ?thesis
    by (cases "c = e")
      (auto simp: env_run_def env_load_pgdir_def unlock_kernel_def bind_outcome_def upd_env_def
        switched_def running_cur_def Let_def fun_eq_iff split: option.split)
qed

lemma switched_simps [simp]:
  "curenv (switched e k) = Some e" "holding (switched e k) = False"
  "panicstr (switched e k) = panicstr k" "cpu_halted (switched e k) = cpu_halted k"
  "env_status (envs (switched e k) e) = ENV_RUNNING"
  "env_pgdir (envs (switched e k) i) = env_pgdir (envs k i)"
  "env_id (envs (switched e k) i) = env_id (envs k i)"
  "vm (switched e k) = vm k" "total_tickets (switched e k) = total_tickets k"
  "env_free_list (switched e k) = env_free_list k" "kern_pgdir (switched e k) = kern_pgdir k"
  "tickets (envs (switched e k) i) = tickets (envs k i)"
  "env_link (envs (switched e k) i) = env_link (envs k i)"
  by (simp_all add: switched_def)

lemma switched_status:
  "i \<noteq> e \<Longrightarrow> env_status (envs (switched e k) i) =
     (if running_cur k = Some i then ENV_RUNNABLE else env_status (envs k i))"
  by (simp add: switched_def)

text \<open>Every environment that may run has a page directory.\<close>

definition pgdirs_ok :: "kernel \<Rightarrow> bool" where
  "pgdirs_ok k \<longleftrightarrow> (\<forall>i. env_status (envs k i) \<in> {ENV_RUNNABLE, ENV_RUNNING} \<longrightarrow>
     env_pgdir (envs k i) \<noteq> None)"

lemma running_curD:
  "running_cur k = Some c \<Longrightarrow> curenv k = Some c \<and> env_status (envs k c) = ENV_RUNNING"
  by (auto simp: running_cur_def split: option.splits if_splits)

lemma pgdirs_ok_switched:
  "pgdirs_ok k \<Longrightarrow> env_pgdir (envs k e) \<noteq> None \<Longrightarrow> pgdirs_ok (switched e k)"
  unfolding pgdirs_ok_def
proof (intro allI impI)
  fix i
  assume ok: "\<forall>i. env_status (envs k i) \<in> {ENV_RUNNABLE, ENV_RUNNING} \<longrightarrow> env_pgdir (envs k i) \<noteq> None"
    and e: "env_pgdir (envs k e) \<noteq> None"
    and i: "env_status (envs (switched e k) i) \<in> {ENV_RUNNABLE, ENV_RUNNING}"
  show "env_pgdir (envs (switched e k) i) \<noteq> None"
  proof (cases "i = e \<or> running_cur k = Some i")
    case True
    then show ?thesis using ok e running_curD [of k i] by auto
  next
    case False
    then show ?thesis using ok i by (auto simp: switched_status)
  qed
qed

lemma running_cur_cong:
  "envs k1 = envs k \<Longrightarrow> curenv k1 = curenv k \<Longrightarrow> running_cur k1 = running_cur k"
  by (simp add: running_cur_def split: option.split)

section \<open>What yielding does\<close>

text \<open>Whether \<open>sched_halt\<close> finds nothing that could ever run.\<close>

definition all_idle :: "kernel \<Rightarrow> bool" where
  "all_idle k \<longleftrightarrow> (\<forall>i < NENV. env_status (envs k i) \<in> {ENV_FREE, ENV_NOT_RUNNABLE})"

lemma all_idle_iff:
  "all_idle k \<longleftrightarrow> (\<forall>i < NENV. env_status (envs k i) \<noteq> ENV_RUNNABLE \<and>
     env_status (envs k i) \<noteq> ENV_RUNNING \<and> env_status (envs k i) \<noteq> ENV_DYING)"
proof -
  have "s \<in> {ENV_FREE, ENV_NOT_RUNNABLE} \<longleftrightarrow>
      s \<noteq> ENV_RUNNABLE \<and> s \<noteq> ENV_RUNNING \<and> s \<noteq> ENV_DYING" for s
    by (cases s) auto
  then show ?thesis by (simp add: all_idle_def)
qed

lemma sched_halt_eq:
  "sched_halt k = (if all_idle k then (Monitor, k)
     else if holding k then (Halt, k\<lparr>curenv := None, cpu_halted := True, holding := False\<rparr>)
     else (Panic, k\<lparr>curenv := None, cpu_halted := True\<rparr>))"
  by (simp add: sched_halt_def all_idle_iff unlock_kernel_def bind_outcome_def)

definition dispatch_choice :: "(kernel \<Rightarrow> nat option \<times> kernel) \<Rightarrow> kernel \<Rightarrow> 'a outcome \<times> kernel" where
  "dispatch_choice pick k = (let (e, k1) = pick k in
     case e of Some i \<Rightarrow> env_run i k1 | None \<Rightarrow> sched_halt k1)"

lemma sched_yield_dispatch:
  "sched_yield pol k = dispatch_choice (choose_env pol) (k\<lparr>sched_calls := sched_calls k + 1\<rparr>)"
  by (simp add: sched_yield_def dispatch_choice_def)

context scheduling_policy
begin

lemma dispatch_Some:
  assumes "fst (pick k) = Some e" "holding k" "pgdirs_ok k"
  shows "dispatch_choice pick k = (Run e, switched e (snd (pick k)))"
proof -
  have "env_pgdir (envs k e) \<noteq> None"
    using picked [OF assms(1)] assms(3) by (auto simp: pgdirs_ok_def)
  with assms show ?thesis
    by (auto simp: dispatch_choice_def split_beta env_run_eq)
qed

lemma dispatch_None:
  assumes "fst (pick k) = None"
  shows "dispatch_choice pick k = sched_halt (snd (pick k))"
  using assms by (simp add: dispatch_choice_def split_beta)

lemma running_cur_pick [simp]: "running_cur (snd (pick k)) = running_cur k"
  by (simp add: running_cur_def split: option.split)

end

lemma running_cur_sched_calls [simp]: "running_cur (k\<lparr>sched_calls := n\<rparr>) = running_cur k"
  by (simp add: running_cur_def split: option.split)

lemma pgdirs_ok_sched_calls [simp]: "pgdirs_ok (k\<lparr>sched_calls := n\<rparr>) = pgdirs_ok k"
  by (simp add: pgdirs_ok_def)

lemma policy: "scheduling_policy (choose_env pol)"
  by (cases pol) (simp_all add: round_robin.scheduling_policy_axioms
      proportional_share.scheduling_policy_axioms)

lemmas policy_facts =
  scheduling_policy.dispatch_Some [OF policy] scheduling_policy.dispatch_None [OF policy]
  scheduling_policy.pick_runnable [OF policy] scheduling_policy.pick_current [OF policy]
  scheduling_policy.pick_envs [OF policy] scheduling_policy.running_cur_pick [OF policy]

lemma yield_runnable:
  assumes "holding k" "pgdirs_ok k" "i < NENV" "runnable k i"
  obtains e k1 where "e < NENV" "runnable k e" "sched_yield pol k = (Run e, switched e k1)"
    "envs k1 = envs k" "curenv k1 = curenv k" "panicstr k1 = panicstr k" "cpu_halted k1 = cpu_halted k"
proof -
  let ?k = "k\<lparr>sched_calls := sched_calls k + 1\<rparr>"
  obtain e where e: "e < NENV" "fst (choose_env pol ?k) = Some e" "runnable k e"
    using policy_facts(3) [of i ?k pol] assms by auto
  show ?thesis
    by (rule that [OF e(1,3), of "snd (choose_env pol ?k)"])
      (use policy_facts(1) [OF e(2)] assms in \<open>simp_all add: sched_yield_dispatch policy_facts\<close>)
qed

section \<open>A small system\<close>

text \<open>
  A state for the witnesses: environment 0 is current, 1 and 2 are runnable, the others are
  free; every live environment has a page directory.
\<close>

definition demo_env :: "nat \<Rightarrow> env_status \<Rightarrow> Env" where
  "demo_env i st = \<lparr>env_tf = fresh_tf, env_link = None, env_id = 0x1000 OR of_nat i,
     env_parent_id = 0, env_type = 0, env_status = st, env_runs = 0, env_cpunum = 0,
     env_pgdir = Some 0x3000, env_pgfault_upcall = 0, env_ipc_recving = False, env_ipc_dstva = 0,
     env_ipc_value = 0, env_ipc_from = 0, env_ipc_perm = 0, tickets = 100\<rparr>"

definition demo_vm :: vm where
  "demo_vm = \<lparr>npages = 0, pages = (\<lambda>_. \<lparr>pp_ref = 0, pp_link = None\<rparr>), page_free_list = None,
     pmem = (\<lambda>_. 0), nextfree = None, mmio_base = MMIOBASE, user_mem_check_addr = 0, flushed = []\<rparr>"

definition demo_console :: console where
  "demo_console = \<lparr>cons_buf = (\<lambda>_. 0), rpos = 0, wpos = 0, kbd_shift = 0, rebooted = False,
     serial_exists = True, kbd_ports = [], serial_ports = [], crt_buf = (\<lambda>_. 0), crt_pos = 0,
     serial_out = [], lpt_out = []\<rparr>"

definition demo_kernel :: "(nat \<Rightarrow> env_status) \<Rightarrow> kernel" where
  "demo_kernel st = \<lparr>envs = (\<lambda>i. demo_env i (st i)), env_free_list = Some 3, total_tickets = 300,
     prev_random = 1234, sched_calls = 0, boost_calls = 0, timer_int_counter = 0, curenv = Some 0,
     cpunum = 0, cpu_halted = False, holding = True, panicstr = False, kern_pgdir = 0, vm = demo_vm,
     console = demo_console\<rparr>"

definition demo_status :: "nat \<Rightarrow> env_status" where
  "demo_status i = (if i = 0 then ENV_RUNNING else if i < 3 then ENV_RUNNABLE else ENV_FREE)"

lemma demo_kernel_simps [simp]:
  "envs (demo_kernel st) i = demo_env i (st i)" "curenv (demo_kernel st) = Some 0"
  "holding (demo_kernel st)" "\<not> panicstr (demo_kernel st)" "\<not> cpu_halted (demo_kernel st)"
  "total_tickets (demo_kernel st) = 300" "prev_random (demo_kernel st) = 1234"
  by (simp_all add: demo_kernel_def)

lemma demo_env_simps [simp]:
  "env_status (demo_env i st) = st" "env_pgdir (demo_env i st) = Some 0x3000"
  "tickets (demo_env i st) = 100" "env_id (demo_env i st) = 0x1000 OR of_nat i"
  by (simp_all add: demo_env_def)

lemma demo_pgdirs_ok [simp]: "pgdirs_ok (demo_kernel st)"
  by (simp add: pgdirs_ok_def)

section \<open>The outcome of yielding\<close>

lemma yield_idle:
  assumes "holding k" "pgdirs_ok k" "\<forall>i < NENV. \<not> runnable k i"
  shows "case running_cur k of
      Some c \<Rightarrow> \<exists>k1. sched_yield pol k = (Run c, switched c k1) \<and> envs k1 = envs k \<and> curenv k1 = curenv k
    | None \<Rightarrow> \<exists>k1. sched_yield pol k = sched_halt k1 \<and> envs k1 = envs k \<and> holding k1"
proof -
  let ?k = "k\<lparr>sched_calls := sched_calls k + 1\<rparr>"
  have e: "fst (choose_env pol ?k) = running_cur k"
    using policy_facts(4) [of ?k pol] assms by simp
  show ?thesis
  proof (cases "running_cur k")
    case None
    with policy_facts(2) [of pol ?k] e assms show ?thesis
      by (auto simp: sched_yield_dispatch policy_facts)
  next
    case (Some c)
    with policy_facts(1) [of pol ?k c] e assms show ?thesis
      by (auto simp: sched_yield_dispatch policy_facts)
  qed
qed

text \<open>
  C19. Under both policies a CPU that holds the kernel lock and yields enters user mode in an
  environment that was runnable, whenever there is one; the environment that was current
  goes back to runnable and no other status changes. When nothing is runnable the current
  environment goes on, and when it cannot, the CPU halts without a current environment and
  with the lock released, or drops into the monitor if no environment can ever run again.
\<close>

theorem yield_outcome:
  assumes "holding k" "pgdirs_ok k"
  shows "case (sched_yield pol k :: 'r outcome \<times> kernel) of (r, k') \<Rightarrow>
     if \<exists>i < NENV. runnable k i then
       \<exists>e < NENV. runnable k e \<and> r = Run e \<and> curenv k' = Some e \<and> \<not> holding k' \<and>
         (\<forall>i. env_status (envs k' i) = (if i = e then ENV_RUNNING
            else if running_cur k = Some i then ENV_RUNNABLE else env_status (envs k i)))
     else case running_cur k of
         Some c \<Rightarrow> r = Run c \<and> curenv k' = Some c \<and> \<not> holding k' \<and>
           (\<forall>i. env_status (envs k' i) = env_status (envs k i))
       | None \<Rightarrow> if all_idle k then r = Monitor
           else r = Halt \<and> curenv k' = None \<and> cpu_halted k' \<and> \<not> holding k' \<and> envs k' = envs k"
proof (cases "\<exists>i < NENV. runnable k i")
  case True
  then obtain i where "i < NENV" "runnable k i" by blast
  with assms obtain e k1 where "e < NENV" "runnable k e"
    "(sched_yield pol k :: 'r outcome \<times> kernel) = (Run e, switched e k1)"
    "envs k1 = envs k" "curenv k1 = curenv k" by (rule yield_runnable)
  note y = this
  have st: "env_status (envs (switched e k1) i) = (if i = e then ENV_RUNNING
      else if running_cur k = Some i then ENV_RUNNABLE else env_status (envs k i))" for i
    using y running_cur_cong [of k1 k] by (simp add: switched_status)
  have "\<exists>e' < NENV. runnable k e' \<and> Run e = (Run e' :: 'r outcome) \<and>
      curenv (switched e k1) = Some e' \<and> \<not> holding (switched e k1) \<and>
      (\<forall>i. env_status (envs (switched e k1) i) = (if i = e' then ENV_RUNNING
         else if running_cur k = Some i then ENV_RUNNABLE else env_status (envs k i)))"
    using y(1,2) by (intro exI [of _ e]) (simp add: st)
  with True show ?thesis by (simp only: y(3) prod.case if_True)
next
  case False
  then have none: "\<forall>i < NENV. \<not> runnable k i" by blast
  show ?thesis
  proof (cases "running_cur k")
    case None
    then have "\<exists>k1. (sched_yield pol k :: 'r outcome \<times> kernel) = sched_halt k1 \<and> envs k1 = envs k \<and>
        holding k1"
      using yield_idle [OF assms none, of pol] by simp
    then obtain k1 where
      "(sched_yield pol k :: 'r outcome \<times> kernel) = sched_halt k1" "envs k1 = envs k" "holding k1"
      by blast
    with False None show ?thesis by (auto simp: sched_halt_eq all_idle_def)
  next
    case (Some c)
    then have "\<exists>k1. (sched_yield pol k :: 'r outcome \<times> kernel) = (Run c, switched c k1) \<and>
        envs k1 = envs k \<and> curenv k1 = curenv k"
      using yield_idle [OF assms none, of pol] by simp
    then obtain k1 where k1:
      "(sched_yield pol k :: 'r outcome \<times> kernel) = (Run c, switched c k1)" "envs k1 = envs k"
      "curenv k1 = curenv k" by blast
    have "running_cur k1 = Some c" using Some running_cur_cong [OF k1(2,3)] by simp
    then have "env_status (envs (switched c k1) i) = env_status (envs k i)" for i
      using k1 running_curD [OF Some] by (cases "i = c") (simp_all add: switched_status)
    then have "Run c = (Run c :: 'r outcome) \<and> curenv (switched c k1) = Some c \<and>
        \<not> holding (switched c k1) \<and>
        (\<forall>i. env_status (envs (switched c k1) i) = env_status (envs k i))" by simp
    with False Some show ?thesis by (simp only: k1(1) prod.case if_False option.case simp_thms)
  qed
qed

theorem yield_outcome_witness:
  "case (sched_yield SCHED_ROUND_ROBIN (demo_kernel demo_status) :: unit outcome \<times> kernel) of
     (r, k') \<Rightarrow> \<exists>e < NENV. demo_status e = ENV_RUNNABLE \<and> r = Run e"
proof -
  have r: "\<exists>i < NENV. runnable (demo_kernel demo_status) i"
    by (rule exI [of _ 1]) (simp add: NENV_eq demo_status_def)
  show ?thesis
    using yield_outcome [of "demo_kernel demo_status" SCHED_ROUND_ROBIN, where 'r = unit] r
    by (auto split: prod.splits)
qed

end
