(* ===== verification/JosFair.thy ===== *)
theory JosFair
  imports JosYield
begin

text \<open>
  Fairness of the two schedulers: the winner of the lottery, the environments that it can
  never draw, and the bound on the waiting time under round robin.
\<close>

section \<open>The generator\<close>

text \<open>The next value of the linear congruential generator, and the ticket that it selects.\<close>

definition next_random :: "kernel \<Rightarrow> nat" where
  "next_random k = nat ((2 ^ 32 * sint (prev_random k) + 1013904223) mod 1664525)"

definition winning_ticket :: "kernel \<Rightarrow> nat" where
  "winning_ticket k = next_random k * unat (total_tickets k) mod 2 ^ 32 div 1664525"

lemma sint_of_nat_small:
  assumes "n < 2147483648"
  shows "sint (of_nat n :: u32) = int n"
proof -
  have "uint (of_nat n :: u32) = int n"
    using assms by (simp add: uint_nat unat_of_nat)
  moreover have "signed_take_bit 31 (int n) = int n"
    using assms by (simp add: signed_take_bit_int_eq_self)
  ultimately show ?thesis by (simp add: sint_uint)
qed

lemma next_random_less: "next_random k < 1664525"
  by (simp add: next_random_def nat_less_iff)

lemma winning_ticket_le: "winning_ticket k \<le> 2580"
proof -
  have "x mod 2 ^ 32 \<le> 4294967295" for x :: nat
    using mod_less_divisor [of "2 ^ 32" x] by simp
  from div_le_mono [OF this, of _ 1664525] show ?thesis by (simp add: winning_ticket_def)
qed

lemma generated:
  assumes "0 \<le> sint (prev_random k)"
  shows "generate_pseudorandom_value k =
     (of_nat (winning_ticket k), k\<lparr>prev_random := of_nat (next_random k)\<rparr>)"
proof -
  let ?s = "sint (prev_random k)"
  have s: "?s < 2147483648" using sint_lt [of "prev_random k"] by simp
  have "4294967296 * (scast (prev_random k) :: 64 word) + 1013904223 =
      word_of_int (4294967296 * ?s + 1013904223)"
    by (simp only: scast_eq of_int_add of_int_mult of_int_numeral)
  moreover have "uint (word_of_int (4294967296 * ?s + 1013904223) :: 64 word) =
      (4294967296 * ?s + 1013904223) mod 2 ^ 64"
    by (simp only: uint_word_of_int_eq take_bit_eq_mod) simp
  moreover have "(4294967296 * ?s + 1013904223) mod 2 ^ 64 = 4294967296 * ?s + 1013904223"
    by (rule mod_pos_pos_trivial) (use s assms in simp)+
  ultimately have "uint (4294967296 * (scast (prev_random k) :: 64 word) + 1013904223) =
      4294967296 * ?s + 1013904223" by simp
  then have u: "uint ((4294967296 * (scast (prev_random k) :: 64 word) + 1013904223) mod 1664525) =
      int (next_random k)"
    using assms by (simp add: uint_mod next_random_def)
  then have r: "ucast ((4294967296 * (scast (prev_random k) :: 64 word) + 1013904223) mod 1664525) =
      (of_nat (next_random k) :: u32)"
    by (simp only: ucast_eq u of_int_of_nat_eq)
  have "unat (of_nat (next_random k) * total_tickets k div 1664525) = winning_ticket k"
    using next_random_less [of k]
    by (simp add: unat_div unat_word_ariths unat_of_nat winning_ticket_def)
  then have "of_nat (next_random k) * total_tickets k div 1664525 = of_nat (winning_ticket k)"
    by (metis of_nat_unat ucast_id)
  with r show ?thesis by (simp add: generate_pseudorandom_value_def Let_def)
qed

section \<open>The lottery\<close>

text \<open>The tickets of the first \<open>n\<close> runnable environments.\<close>

definition tickets_before :: "kernel \<Rightarrow> nat \<Rightarrow> u32" where
  "tickets_before k n = (\<Sum>i\<leftarrow>take n (filter (runnable k) [0..<NENV]). tickets (envs k i))"

lemma lottery_position:
  assumes "is = filter (runnable k) [0..<NENV]" "is \<noteq> []"
  obtains m where "m < length is" "lottery k w is = Some (is ! m)"
    "\<forall>j < m. \<not> w \<le>s tickets_before k (Suc j)"
    "w \<le>s tickets_before k (Suc m) \<or> Suc m = length is"
proof (cases "first_reaching k w 0 is")
  case None
  then have none: "\<not> w \<le>s tickets_before k (Suc j)" if "j < length is" for j
  proof -
    define P where "P = (\<lambda>m. m < length is \<and> w \<le>s tickets_before k (Suc m))"
    have "\<not> P j"
    proof
      assume "P j"
      define l where "l = (LEAST m. P m)"
      have l: "P l" unfolding l_def by (rule LeastI [of P, OF \<open>P j\<close>])
      have least: "\<not> P i" if "i < l" for i using that unfolding l_def by (rule not_less_Least)
      have "first_reaching k w 0 is = Some (is ! l)"
        unfolding first_reaching_nth
        by (rule exI [of _ l])
          (use l least in \<open>simp add: P_def tickets_before_def assms(1) [symmetric]\<close>)
      with None show False by simp
    qed
    with that show ?thesis by (simp add: P_def)
  qed
  from assms(2) have l: "0 < length is" by simp
  show ?thesis
  proof (rule that [of "length is - 1"])
    show "lottery k w is = Some (is ! (length is - 1))"
      using None assms(2) by (simp add: lottery_def last_conv_nth)
    show "\<forall>j < length is - 1. \<not> w \<le>s tickets_before k (Suc j)" using none by auto
  qed (use l in auto)
next
  case (Some e)
  then obtain m where "m < length is" "e = is ! m"
    "w \<le>s tickets_before k (Suc m)" "\<forall>j < m. \<not> w \<le>s tickets_before k (Suc j)"
    unfolding first_reaching_nth tickets_before_def assms(1) [symmetric] by auto
  then show ?thesis using Some by (intro that [of m]) (auto simp: lottery_def)
qed

lemma lottery_choice:
  assumes "0 \<le> sint (prev_random k)" "is = filter (runnable k) [0..<NENV]" "is \<noteq> []"
  shows "fst (choose_env SCHED_PROPORTIONAL_SHARE k) = lottery k (of_nat (winning_ticket k)) is"
    "prev_random (snd (choose_env SCHED_PROPORTIONAL_SHARE k)) = of_nat (next_random k)"
proof -
  show "fst (choose_env SCHED_PROPORTIONAL_SHARE k) = lottery k (of_nat (winning_ticket k)) is"
    using assms(2,3) by (simp add: choose_lottery draw_runnable generated [OF assms(1)])
  show "prev_random (snd (choose_env SCHED_PROPORTIONAL_SHARE k)) = of_nat (next_random k)"
    by (simp add: choose_lottery choose_proportional_def generated [OF assms(1)])
qed

text \<open>
  C37. The lottery draws the number random * total_tickets / 1664525, where random is the
  next value of the generator and the product wraps around at 32 bits, and gives the CPU to
  the first runnable environment at which the sum of the tickets, in the order of the slots,
  reaches that number; if the sum never does, to the last runnable environment.
\<close>

theorem lottery_winner:
  assumes "0 \<le> sint (prev_random k)" "\<exists>i < NENV. runnable k i"
  shows "\<exists>m < length (filter (runnable k) [0..<NENV]).
     fst (choose_env SCHED_PROPORTIONAL_SHARE k) = Some (filter (runnable k) [0..<NENV] ! m) \<and>
     (\<forall>j < m. \<not> of_nat (winning_ticket k) \<le>s tickets_before k (Suc j)) \<and>
     (of_nat (winning_ticket k) \<le>s tickets_before k (Suc m) \<or>
        Suc m = length (filter (runnable k) [0..<NENV]))"
proof -
  have "filter (runnable k) [0..<NENV] \<noteq> []" using assms(2) by (auto simp: filter_empty_conv)
  then show ?thesis
    by (rule lottery_position [OF refl, of k "of_nat (winning_ticket k)"])
      (use lottery_choice(1) [OF assms(1) refl] \<open>_ \<noteq> []\<close> in auto)
qed

lemma demo_runnable: "filter (runnable (demo_kernel demo_status)) [0..<NENV] = [1, 2]"
proof -
  have "[0..<3 + n] = [0..<3] @ [3..<3 + n]" for n :: nat
    by (rule upt_add_eq_append) simp
  moreover have "NENV = 3 + (NENV - 3)" by (simp add: NENV_eq)
  ultimately have "[0..<NENV] = [0..<3] @ [3..<NENV]" by metis
  moreover have "filter (runnable (demo_kernel demo_status)) [3..<NENV] = []"
    by (simp add: filter_empty_conv demo_status_def)
  moreover have "[0..<3] = [0, 1, 2 :: nat]" by (simp add: upt_rec)
  ultimately show ?thesis by (simp add: demo_status_def)
qed

theorem lottery_winner_witness:
  "\<exists>m < 2. fst (choose_env SCHED_PROPORTIONAL_SHARE (demo_kernel demo_status)) = Some ([1, 2] ! m)"
proof -
  have "\<exists>i < NENV. runnable (demo_kernel demo_status) i"
    by (rule exI [of _ 1]) (simp add: NENV_eq demo_status_def)
  with lottery_winner [of "demo_kernel demo_status"] show ?thesis
    unfolding demo_runnable by (auto simp: numeral_2_eq_2)
qed

text \<open>
  No draw exceeds 2580, because the product wraps around at 32 bits. So once the tickets
  of the runnable environments up to some slot reach 2580, which 26 environments with the
  initial 100 tickets do, the lottery never gives the CPU to an environment in a later slot,
  whatever the generator returns.
\<close>

theorem lottery_starves:
  assumes "0 \<le> sint (prev_random k)" "j < m" "m < length (filter (runnable k) [0..<NENV])"
    "2580 \<le> sint (tickets_before k (Suc j))"
  shows "fst (choose_env SCHED_PROPORTIONAL_SHARE k) \<noteq> Some (filter (runnable k) [0..<NENV] ! m)"
proof
  let ?is = "filter (runnable k) [0..<NENV]"
  assume m: "fst (choose_env SCHED_PROPORTIONAL_SHARE k) = Some (?is ! m)"
  from assms(3) have ne: "?is \<noteq> []" by auto
  obtain n where n: "n < length ?is" "lottery k (of_nat (winning_ticket k)) ?is = Some (?is ! n)"
    "\<forall>j < n. \<not> of_nat (winning_ticket k) \<le>s tickets_before k (Suc j)"
    by (rule lottery_position [OF refl ne, of "of_nat (winning_ticket k)"]) auto
  then have "?is ! n = ?is ! m" using m lottery_choice(1) [OF assms(1) refl ne] by simp
  moreover have "distinct ?is" by simp
  ultimately have "n = m" using n(1) assms(3) nth_eq_iff_index_eq by blast
  with n(3) assms(2) have "\<not> of_nat (winning_ticket k) \<le>s tickets_before k (Suc j)" by simp
  moreover have "sint (of_nat (winning_ticket k) :: u32) = int (winning_ticket k)"
    using winning_ticket_le [of k] by (simp add: sint_of_nat_small)
  ultimately show False using winning_ticket_le [of k] assms(4) by (simp add: word_sle_eq)
qed

definition crowd :: "nat \<Rightarrow> env_status" where
  "crowd i = (if i < 30 then ENV_RUNNABLE else ENV_FREE)"

lemma crowd_runnable: "filter (runnable (demo_kernel crowd)) [0..<NENV] = [0..<30]"
proof -
  have "[0..<30 + n] = [0..<30] @ [30..<30 + n]" for n :: nat
    by (rule upt_add_eq_append) simp
  moreover have "NENV = 30 + (NENV - 30)" by (simp add: NENV_eq)
  ultimately have "[0..<NENV] = [0..<30] @ [30..<NENV]" by metis
  moreover have "filter (runnable (demo_kernel crowd)) [30..<NENV] = []"
    by (simp add: filter_empty_conv crowd_def)
  moreover have "filter (runnable (demo_kernel crowd)) [0..<30] = [0..<30]"
    by (simp only: filter_id_conv) (simp add: crowd_def)
  ultimately show ?thesis by (simp only: filter_append append_Nil2)
qed

theorem lottery_starves_witness:
  "fst (choose_env SCHED_PROPORTIONAL_SHARE (demo_kernel crowd)) \<noteq> Some 28"
proof -
  let ?k = "demo_kernel crowd"
  have f: "filter (runnable ?k) [0..<NENV] = [0..<30]" by (rule crowd_runnable)
  have "tickets_before ?k 26 = of_nat 26 * 100"
    unfolding tickets_before_def f by (simp add: sum_list_triv del: upt_rec_numeral)
  then have "2580 \<le> sint (tickets_before ?k (Suc 25))" by simp
  then have "fst (choose_env SCHED_PROPORTIONAL_SHARE ?k) \<noteq> Some ([0..<30] ! 28)"
    using lottery_starves [of ?k 25 28] unfolding f by simp
  then show ?thesis by simp
qed

end
