(* ===== verification/JosRoundRobin.thy ===== *)
theory JosRoundRobin
  imports JosYield
begin

text \<open>
  The round-robin policy under timer interrupts: the interrupted CPU enters the kernel,
  yields, and runs the next environment. Every runnable environment has its turn within as
  many interrupts as there are slots.
\<close>

text \<open>A CPU in user mode, in a kernel whose environment table is in order.\<close>

definition user_mode :: "kernel \<Rightarrow> bool" where
  "user_mode k \<longleftrightarrow> \<not> panicstr k \<and> \<not> cpu_halted k \<and> \<not> holding k \<and> pgdirs_ok k \<and>
     (\<exists>c. curenv k = Some c \<and> c < NENV \<and> env_status (envs k c) = ENV_RUNNING) \<and>
     (\<forall>i < NENV. env_status (envs k i) \<in> {ENV_RUNNABLE, ENV_RUNNING} \<longrightarrow> ENVX (env_id (envs k i)) = i)"

definition timer_frame :: "Trapframe \<Rightarrow> bool" where
  "timer_frame tf \<longleftrightarrow> tf_trapno tf = IRQ_OFFSET + IRQ_TIMER \<and> tf_cs tf AND 3 = 3"

text \<open>A sequence of traps, each with its frame and the value of \<open>cr2\<close>.\<close>

fun traps :: "sched_policy \<Rightarrow> (u32 \<times> Trapframe) list \<Rightarrow> kernel \<Rightarrow> kernel" where
  "traps pol [] k = k"
| "traps pol ((cr2, tf) # ts) k = traps pol ts (snd (trap pol cr2 tf k))"

section \<open>One interrupt\<close>

text \<open>The state in which the interrupted CPU calls the scheduler.\<close>

definition interrupted :: "Trapframe \<Rightarrow> nat \<Rightarrow> kernel \<Rightarrow> kernel" where
  "interrupted tf c k = upd_env (k\<lparr>holding := True\<rparr>) c (\<lambda>x. x\<lparr>env_tf := tf\<rparr>)"

lemma interrupted_simps [simp]:
  "holding (interrupted tf c k)" "curenv (interrupted tf c k) = curenv k"
  "panicstr (interrupted tf c k) = panicstr k" "cpu_halted (interrupted tf c k) = cpu_halted k"
  "env_status (envs (interrupted tf c k) i) = env_status (envs k i)"
  "env_pgdir (envs (interrupted tf c k) i) = env_pgdir (envs k i)"
  "env_id (envs (interrupted tf c k) i) = env_id (envs k i)"
  by (simp_all add: interrupted_def upd_env_def)

lemma pgdirs_ok_interrupted [simp]: "pgdirs_ok (interrupted tf c k) = pgdirs_ok k"
  by (simp add: pgdirs_ok_def)

lemma timer_trap:
  assumes "timer_frame tf" "user_mode k" "curenv k = Some c"
  shows "trap SCHED_ROUND_ROBIN cr2 tf k =
    bind_outcome (sched_yield SCHED_ROUND_ROBIN (interrupted tf c k) :: unit outcome \<times> kernel)
      (\<lambda>_. trap_return SCHED_ROUND_ROBIN)"
proof -
  have "tf_trapno tf = 32" using assms(1) by (simp add: timer_frame_def IRQ_OFFSET_def IRQ_TIMER_def)
  then have "trap_dispatch SCHED_ROUND_ROBIN cr2 tf loc j =
      sched_yield SCHED_ROUND_ROBIN (timer_interrupt SCHED_ROUND_ROBIN j)" for loc j
    by (simp add: trap_dispatch_def T_BRKPT_def T_PGFLT_def T_SYSCALL_def IRQ_OFFSET_def
        IRQ_SPURIOUS_def IRQ_TIMER_def)
  then show ?thesis using assms
    by (auto simp: trap_def user_mode_def timer_frame_def lock_kernel_def bind_outcome_def
        interrupted_def timer_interrupt_def)
qed

lemma cyclic_slots_nth:
  assumes "curenv k = Some c" "c < NENV" "ENVX (env_id (envs k c)) = c" "j < NENV"
  shows "cyclic_slots k ! j = (c + 1 + j) mod NENV"
proof (cases "c + 1 + j < NENV")
  case True
  then show ?thesis using assms by (simp add: cyclic_slots_def nth_append less_diff_conv)
next
  case False
  then have "(c + 1 + j) mod NENV = c + 1 + j - NENV"
    using assms by (simp add: le_mod_geq)
  then show ?thesis using assms False by (auto simp: cyclic_slots_def nth_append)
qed

lemma length_cyclic_slots:
  assumes "curenv k = Some c" "c < NENV" "ENVX (env_id (envs k c)) = c"
  shows "length (cyclic_slots k) = NENV"
  using assms by (simp add: cyclic_slots_def)

lemma shift_mod_neq:
  assumes "i < m" "m < (n :: nat)"
  shows "(c + i) mod n \<noteq> (c + m) mod n"
proof
  assume "(c + i) mod n = (c + m) mod n"
  then have "n dvd m - i" using assms mod_eq_dvd_iff_nat [of "c + i" "c + m" n] by simp
  then show False using assms by (auto dest: dvd_imp_le)
qed

text \<open>
  One interrupt: the environment that is \<open>m\<close> places ahead is run, or one that is nearer, from
  which it is then less than \<open>m\<close> places ahead.
\<close>

lemma timer_step:
  assumes "timer_frame tf" "user_mode k" "curenv k = Some c" "m < NENV"
    "e = (c + 1 + m) mod NENV" "runnable k e"
  obtains i k' where "i \<le> m" "snd (trap SCHED_ROUND_ROBIN cr2 tf k) = k'" "user_mode k'"
    "curenv k' = Some ((c + 1 + i) mod NENV)" "i < m \<Longrightarrow> runnable k' e"
proof -
  let ?k = "interrupted tf c k"
  have c: "c < NENV" "env_status (envs k c) = ENV_RUNNING" "ENVX (env_id (envs k c)) = c"
    using assms(2,3) by (auto simp: user_mode_def)
  let ?s = "?k\<lparr>sched_calls := sched_calls ?k + 1\<rparr>"
  have n: "cyclic_slots ?s ! j = (c + 1 + j) mod NENV" if "j < NENV" for j
    using cyclic_slots_nth [of ?s c j] c assms(3) that by simp
  have len: "length (cyclic_slots ?s) = NENV"
    using length_cyclic_slots [of ?s c] c assms(3) by simp
  have "find (runnable ?s) (cyclic_slots ?s) \<noteq> None"
    using assms(4-6) len n [OF assms(4)] by (auto simp: find_None_iff in_set_conv_nth)
  then obtain x where f: "find (runnable ?s) (cyclic_slots ?s) = Some x" by auto
  then have x: "fst (choose_env SCHED_ROUND_ROBIN ?s) = Some x"
    by (simp add: fst_choose_round_robin choose_round_robin_eq)
  from f obtain i where i': "i < NENV" "runnable ?s x" "x = cyclic_slots ?s ! i"
    "\<forall>j < i. \<not> runnable ?s (cyclic_slots ?s ! j)"
    unfolding find_Some_iff len by blast
  then have i: "i < NENV" "x = (c + 1 + i) mod NENV" "runnable k x"
    "\<forall>j < i. \<not> runnable k (cyclic_slots ?s ! j)" using n [of i] by simp_all
  have "\<not> m < i" using i(4) n [OF assms(4)] assms(5,6) by auto
  moreover have y: "(sched_yield SCHED_ROUND_ROBIN ?k :: unit outcome \<times> kernel) = (Run x, switched x ?s)"
    using round_robin.dispatch_Some [OF x] assms(2)
    by (simp add: sched_yield_dispatch fst_choose_round_robin user_mode_def)
  moreover have "user_mode (switched x ?s)"
  proof -
    have "env_pgdir (envs k x) \<noteq> None" using assms(2) i(3) by (auto simp: user_mode_def pgdirs_ok_def)
    then have "pgdirs_ok (switched x ?s)"
      using assms(2) by (intro pgdirs_ok_switched) (auto simp: user_mode_def)
    moreover have "x < NENV" using i(2) by (simp add: NENV_eq)
    moreover have "ENVX (env_id (envs k j)) = j"
      if "j < NENV" "env_status (envs (switched x ?s) j) \<in> {ENV_RUNNABLE, ENV_RUNNING}" for j
    proof (cases "j = x \<or> j = c")
      case True
      then show ?thesis using c i(3) assms(2) that(1) by (auto simp: user_mode_def)
    next
      case False
      moreover have "running_cur ?s = Some c" using c assms(3) by (simp add: running_cur_def)
      ultimately show ?thesis using assms(2) that by (auto simp: user_mode_def switched_status)
    qed
    ultimately show ?thesis using assms(2) by (simp add: user_mode_def)
  qed
  moreover have "runnable (switched x ?s) e" if "i < m"
  proof -
    have "e \<noteq> x"
    proof
      assume "e = x"
      then have "(c + 1 + i) mod NENV = (c + 1 + m) mod NENV" using assms(5) i(2) by simp
      with shift_mod_neq [OF that assms(4), of "c + 1"] show False by simp
    qed
    then show ?thesis using assms(6) by (simp add: switched_status)
  qed
  ultimately show ?thesis
    using that [of i "switched x ?s"] i(2) timer_trap [OF assms(1-3), of cr2]
    by (simp add: bind_outcome_def)
qed

section \<open>No starvation\<close>

lemma turn_comes:
  assumes "user_mode k" "curenv k = Some c" "e = (c + 1 + m) mod NENV" "m < NENV" "runnable k e"
    "m < length ts" "\<forall>(cr2, tf) \<in> set ts. timer_frame tf"
  shows "\<exists>n. 0 < n \<and> n \<le> m + 1 \<and> curenv (traps SCHED_ROUND_ROBIN (take n ts) k) = Some e"
  using assms
proof (induction m arbitrary: k c ts rule: less_induct)
  case (less m)
  then obtain cr2 tf ts' where ts: "ts = (cr2, tf) # ts'" by (cases ts) auto
  then have "timer_frame tf" using less.prems(7) by simp
  from timer_step [OF this less.prems(1,2,4,3,5)] obtain i k' where i: "i \<le> m"
    "snd (trap SCHED_ROUND_ROBIN cr2 tf k) = k'" "user_mode k'"
    "curenv k' = Some ((c + 1 + i) mod NENV)" "i < m \<Longrightarrow> runnable k' e" by metis
  show ?case
  proof (cases "i < m")
    case False
    then have "i = m" using i(1) by simp
    then show ?thesis using i ts less.prems(3) by (intro exI [of _ 1]) simp
  next
    case True
    have "e = ((c + 1 + i) mod NENV + 1 + (m - i - 1)) mod NENV"
    proof -
      have "((c + 1 + i) mod NENV + (1 + (m - i - 1))) mod NENV = (c + 1 + i + (1 + (m - i - 1))) mod NENV"
        by (rule mod_add_left_eq)
      then show ?thesis using True less.prems(3) by (simp add: add.commute add.left_commute)
    qed
    then have "\<exists>n. 0 < n \<and> n \<le> (m - i - 1) + 1 \<and>
        curenv (traps SCHED_ROUND_ROBIN (take n ts') k') = Some e"
      using True i less.prems ts
      by (intro less.IH [of "m - i - 1" k' "(c + 1 + i) mod NENV" ts']) auto
    then obtain n where n: "0 < n" "n \<le> m - i" "curenv (traps SCHED_ROUND_ROBIN (take n ts') k') = Some e"
      using True by auto
    then show ?thesis using i ts True by (intro exI [of _ "Suc n"]) simp
  qed
qed

text \<open>
  C12. Under round robin no environment starves: while every interrupt is a timer interrupt
  from user mode, an environment that is runnable gets the CPU after at most \<open>NENV\<close> of them,
  whatever the other environments are and whatever registers the interrupts save.
\<close>

theorem round_robin_no_starvation:
  assumes "user_mode k" "e < NENV" "runnable k e" "length ts = NENV"
    "\<forall>(cr2, tf) \<in> set ts. timer_frame tf"
  shows "\<exists>n. 0 < n \<and> n \<le> NENV \<and> curenv (traps SCHED_ROUND_ROBIN (take n ts) k) = Some e"
proof -
  obtain c where c: "curenv k = Some c" "c < NENV" using assms(1) by (auto simp: user_mode_def)
  define m where "m = (e + NENV - c - 1) mod NENV"
  have "(c + 1 + (e + NENV - c - 1)) mod NENV = e" using c assms(2) by simp
  then have "e = (c + 1 + m) mod NENV" unfolding m_def by (simp only: mod_add_right_eq)
  moreover have "m < NENV" by (simp add: m_def NENV_eq)
  ultimately obtain n where "0 < n" "n \<le> m + 1"
    "curenv (traps SCHED_ROUND_ROBIN (take n ts) k) = Some e"
    using turn_comes [OF assms(1) c(1) _ _ assms(3), of m ts] assms(4,5) by auto
  then show ?thesis using \<open>m < NENV\<close> by (intro exI [of _ n]) simp
qed

definition timer_tf :: Trapframe where
  "timer_tf = fresh_tf\<lparr>tf_trapno := 32\<rparr>"

theorem round_robin_no_starvation_witness:
  "\<exists>n \<le> NENV. curenv (traps SCHED_ROUND_ROBIN (take n (replicate NENV (0, timer_tf)))
     ((demo_kernel demo_status)\<lparr>holding := False\<rparr>)) = Some 2"
proof -
  have "ENVX (0x1000 OR of_nat i) = i" if "i < 3" for i
    using that by (auto simp: ENVX_def less_Suc_eq numeral_3_eq_3)
  from this [of 0] this [of 1] this [of 2]
  have id: "ENVX 0x1000 = 0" "ENVX 0x1001 = 1" "ENVX 0x1002 = 2" by simp_all
  have three: "i < 3 \<longleftrightarrow> i = 0 \<or> i = 1 \<or> i = 2" for i :: nat by auto
  have "user_mode ((demo_kernel demo_status)\<lparr>holding := False\<rparr>)"
    using id by (auto simp: user_mode_def pgdirs_ok_def NENV_eq demo_status_def three split: if_splits)
  moreover have "timer_frame timer_tf"
    by (simp add: timer_frame_def timer_tf_def fresh_tf_def GD_UT_def IRQ_OFFSET_def IRQ_TIMER_def)
  ultimately show ?thesis
    using round_robin_no_starvation
      [of "(demo_kernel demo_status)\<lparr>holding := False\<rparr>" 2 "replicate NENV (0, timer_tf)"]
    by (auto simp: NENV_eq demo_status_def)
qed

end
