(* ===== verification/JosConsoleSpec.thy ===== *)
theory JosConsoleSpec
  imports JosConsole
begin

text \<open>
  The console as a client sees it: the circular buffer is a queue of at most 511 characters,
  filled by any device whose reading routine leaves the buffer alone, and the display never
  writes outside of the screen.
\<close>

section \<open>The buffer as a queue\<close>

definition cons_ok :: "console \<Rightarrow> bool" where
  "cons_ok k \<longleftrightarrow> rpos k < CONSBUFSIZE \<and> wpos k < CONSBUFSIZE"

definition pending_count :: "console \<Rightarrow> nat" where
  "pending_count k = (if rpos k \<le> wpos k then wpos k - rpos k else wpos k + CONSBUFSIZE - rpos k)"

definition pending :: "console \<Rightarrow> byte list" where
  "pending k = map (\<lambda>i. cons_buf k ((rpos k + i) mod CONSBUFSIZE)) [0..<pending_count k]"

lemma CONSBUFSIZE_eq: "CONSBUFSIZE = 512"
  by (simp add: CONSBUFSIZE_def)

lemma length_pending [simp]: "length (pending k) = pending_count k"
  by (simp add: pending_def)

lemma pending_count_less: "cons_ok k \<Longrightarrow> pending_count k < CONSBUFSIZE"
  by (auto simp: cons_ok_def pending_count_def)

lemma write_index: "cons_ok k \<Longrightarrow> (rpos k + pending_count k) mod CONSBUFSIZE = wpos k"
  by (auto simp: cons_ok_def pending_count_def)

lemma other_index:
  assumes "cons_ok k" "i < pending_count k"
  shows "(rpos k + i) mod CONSBUFSIZE \<noteq> wpos k"
proof -
  have "i < CONSBUFSIZE" using assms pending_count_less [of k] by simp
  have "(rpos k + i) mod CONSBUFSIZE =
      (if rpos k + i < CONSBUFSIZE then rpos k + i else rpos k + i - CONSBUFSIZE)"
    using assms(1) \<open>i < CONSBUFSIZE\<close> by (auto simp: cons_ok_def mod_if)
  then show ?thesis using assms by (auto simp: cons_ok_def pending_count_def split: if_splits)
qed

lemma cons_store_ok: "cons_ok k \<Longrightarrow> cons_ok (cons_store c k)"
  by (auto simp: cons_ok_def cons_store_def Let_def)

lemma cons_store_rpos [simp]: "rpos (cons_store c k) = rpos k"
  by (simp add: cons_store_def Let_def)

lemma cons_store_count:
  "cons_ok k \<Longrightarrow> pending_count (cons_store c k) =
     (if pending_count k + 1 = CONSBUFSIZE then 0 else pending_count k + 1)"
  by (auto simp: cons_ok_def pending_count_def cons_store_def Let_def)

lemma cons_store_pending:
  assumes "cons_ok k" "pending_count k + 1 < CONSBUFSIZE"
  shows "pending (cons_store c k) = pending k @ [of_int c]"
proof (rule nth_equalityI)
  show "length (pending (cons_store c k)) = length (pending k @ [of_int c])"
    using assms by (simp add: cons_store_count)
next
  fix i assume "i < length (pending (cons_store c k))"
  then have i: "i < pending_count k + 1" using assms by (simp add: cons_store_count)
  show "pending (cons_store c k) ! i = (pending k @ [of_int c]) ! i"
  proof (cases "i = pending_count k")
    case True
    then show ?thesis using assms i
      by (simp add: pending_def cons_store_count write_index nth_append) (simp add: cons_store_def Let_def)
  next
    case False
    then have "i < pending_count k" using i by simp
    then show ?thesis using assms other_index [of k i]
      by (simp add: pending_def cons_store_count nth_append) (simp add: cons_store_def Let_def)
  qed
qed

lemma cons_store_full:
  "cons_ok k \<Longrightarrow> pending_count k + 1 = CONSBUFSIZE \<Longrightarrow> pending (cons_store c k) = []"
  by (simp add: pending_def cons_store_count)

section \<open>Devices\<close>

text \<open>The characters that a device delivers from its readings.\<close>

fun produced :: "(byte \<times> byte \<Rightarrow> console \<Rightarrow> int \<times> console) \<Rightarrow> (byte \<times> byte) list \<Rightarrow> console \<Rightarrow> byte list"
  where
  "produced proc [] k = []"
| "produced proc (r # rs) k =
     (let (c, k1) = proc r k in
      if c = -1 then [] else if c = 0 then produced proc rs k1 else of_int c # produced proc rs k1)"

definition with_buffer :: "(nat \<Rightarrow> byte) \<Rightarrow> nat \<Rightarrow> console \<Rightarrow> console" where
  "with_buffer b w k = k\<lparr>cons_buf := b, wpos := w\<rparr>"

text \<open>A device neither reads nor changes the buffer.\<close>

locale input_device =
  fixes proc :: "byte \<times> byte \<Rightarrow> console \<Rightarrow> int \<times> console"
  assumes buffer_free: "proc r (with_buffer b w k) = map_prod id (with_buffer b w) (proc r k)"
    and rpos_free: "rpos (snd (proc r k)) = rpos k"
begin

lemma proc_buffer: "cons_buf (snd (proc r k)) = cons_buf k" "wpos (snd (proc r k)) = wpos k"
proof -
  have "with_buffer (cons_buf k) (wpos k) k = k" by (simp add: with_buffer_def)
  with buffer_free [of r "cons_buf k" "wpos k" k]
  have "snd (proc r k) = with_buffer (cons_buf k) (wpos k) (snd (proc r k))"
    by (metis snd_map_prod)
  from arg_cong [OF this, of cons_buf] arg_cong [OF this, of wpos]
  show "cons_buf (snd (proc r k)) = cons_buf k" "wpos (snd (proc r k)) = wpos k"
    by (simp_all add: with_buffer_def)
qed

lemma pending_proc: "pending (snd (proc r k)) = pending k"
  "pending_count (snd (proc r k)) = pending_count k" "cons_ok (snd (proc r k)) = cons_ok k"
  by (simp_all add: pending_def pending_count_def cons_ok_def proc_buffer rpos_free)

lemma produced_buffer: "produced proc rs (with_buffer b w k) = produced proc rs k"
  by (induction rs arbitrary: k) (auto simp: buffer_free split_beta Let_def)

lemma produced_cons_store: "produced proc rs (cons_store c k) = produced proc rs k"
proof -
  have "cons_store c k = with_buffer ((cons_buf k)(wpos k := of_int c))
      (if wpos k + 1 = CONSBUFSIZE then 0 else wpos k + 1) k"
    by (simp add: cons_store_def with_buffer_def Let_def)
  then show ?thesis by (simp add: produced_buffer)
qed

text \<open>An interrupt appends what the device delivers, as long as it fits.\<close>

lemma intr_queue:
  assumes "cons_ok k" "pending_count k + length (produced proc rs k) < CONSBUFSIZE"
  shows "pending (snd (cons_intr proc rs k)) = pending k @ produced proc rs k \<and>
    cons_ok (snd (cons_intr proc rs k))"
  using assms
proof (induction rs arbitrary: k)
  case (Cons r rs)
  obtain c k1 where r: "proc r k = (c, k1)" by fastforce
  have p: "pending k1 = pending k" "pending_count k1 = pending_count k" "cons_ok k1"
    using pending_proc [of r k] r Cons.prems(1) by simp_all
  consider "c = -1" | "c = 0" | "c \<noteq> -1" "c \<noteq> 0" by blast
  then show ?case
  proof cases
    case 2
    then show ?thesis using Cons.IH [of k1] Cons.prems r p by simp
  next
    case 3
    then have l: "pending_count k + 1 + length (produced proc rs k1) < CONSBUFSIZE"
      using Cons.prems(2) r by simp
    moreover have "pending_count (cons_store c k1) = pending_count k + 1"
      using cons_store_count [of k1 c] p l by simp
    moreover have "pending (cons_store c k1) = pending k @ [of_int c]"
      using cons_store_pending [of k1 c] p l by simp
    ultimately show ?thesis
      using Cons.IH [of "cons_store c k1"] 3 r p
      by (simp add: cons_store_ok produced_cons_store)
  qed (use Cons.prems r p in simp)
qed simp

lemma intr_rpos: "rpos (snd (cons_intr proc rs k)) = rpos k"
proof (induction rs arbitrary: k)
  case (Cons r rs)
  then show ?case using rpos_free [of r k] by (auto simp: split_beta Let_def)
qed simp

end

interpretation keyboard: input_device kbd_proc_data
  by unfold_locales (auto simp: kbd_proc_data_def with_buffer_def Let_def split_beta)

interpretation serial_line: input_device serial_proc_data
  by unfold_locales (auto simp: serial_proc_data_def with_buffer_def Let_def split_beta)

section \<open>Reading\<close>

lemma pop_pending:
  assumes "cons_ok k" "rpos k \<noteq> wpos k"
  defines "k' \<equiv> k\<lparr>rpos := (if rpos k + 1 = CONSBUFSIZE then 0 else rpos k + 1)\<rparr>"
  shows "pending k = cons_buf k (rpos k) # pending k'" "cons_ok k'"
proof -
  have c: "pending_count k = Suc (pending_count k')"
    using assms(1,2) by (auto simp: pending_count_def k'_def cons_ok_def CONSBUFSIZE_eq)
  have i: "(rpos k + Suc i) mod CONSBUFSIZE = (rpos k' + i) mod CONSBUFSIZE" for i
    using assms(1) by (auto simp: k'_def cons_ok_def CONSBUFSIZE_eq)
  have b: "cons_buf k' = cons_buf k" by (simp add: k'_def)
  have "pending k = cons_buf k ((rpos k + 0) mod CONSBUFSIZE) #
      map (\<lambda>i. cons_buf k ((rpos k + Suc i) mod CONSBUFSIZE)) [0..<pending_count k']"
    by (simp only: pending_def c map_upt_Suc)
  then show "pending k = cons_buf k (rpos k) # pending k'"
    using assms(1) by (simp add: i b pending_def [of k'] cons_ok_def del: add_Suc_right)
  show "cons_ok k'" using assms(1) by (auto simp: k'_def cons_ok_def)
qed

lemma pending_Nil_iff: "cons_ok k \<Longrightarrow> pending k = [] \<longleftrightarrow> rpos k = wpos k"
  by (auto simp: pending_def pending_count_def cons_ok_def split: if_splits)

lemma kbd_step_cong:
  "kbd_shift k = kbd_shift k' \<Longrightarrow> fst (kbd_proc_data r k) = fst (kbd_proc_data r k') \<and>
     kbd_shift (snd (kbd_proc_data r k)) = kbd_shift (snd (kbd_proc_data r k'))"
  by (simp add: kbd_proc_data_def Let_def split_beta)

lemma produced_kbd_cong:
  "kbd_shift k = kbd_shift k' \<Longrightarrow> produced kbd_proc_data rs k = produced kbd_proc_data rs k'"
proof (induction rs arbitrary: k k')
  case (Cons r rs)
  note step = kbd_step_cong [OF Cons.prems, of r]
  show ?case
    by (simp only: produced.simps split_beta Let_def step [THEN conjunct1]
        Cons.IH [OF step [THEN conjunct2]])
qed simp

lemma serial_intr_frame:
  "kbd_shift (snd (cons_intr serial_proc_data rs k)) = kbd_shift k \<and>
   kbd_ports (snd (cons_intr serial_proc_data rs k)) = kbd_ports k"
proof (induction rs arbitrary: k)
  case (Cons r rs)
  have "snd (serial_proc_data r k) = k" by (simp add: serial_proc_data_def Let_def split_beta)
  moreover have "kbd_shift (cons_store c k) = kbd_shift k" "kbd_ports (cons_store c k) = kbd_ports k" for c
    by (simp_all add: cons_store_def Let_def)
  ultimately show ?case using Cons.IH [of k] Cons.IH [of "cons_store (fst (serial_proc_data r k)) k"]
    by (simp add: split_beta Let_def)
qed simp

lemma pending_ports [simp]:
  "pending (k\<lparr>serial_ports := rs\<rparr>) = pending k" "pending (k\<lparr>kbd_ports := rs\<rparr>) = pending k"
  "cons_ok (k\<lparr>serial_ports := rs\<rparr>) = cons_ok k" "cons_ok (k\<lparr>kbd_ports := rs\<rparr>) = cons_ok k"
  "pending_count (k\<lparr>serial_ports := rs\<rparr>) = pending_count k"
  by (simp_all add: pending_def pending_count_def cons_ok_def)

text \<open>What polling both devices will deliver.\<close>

definition arriving :: "console \<Rightarrow> byte list" where
  "arriving k = produced serial_proc_data (serial_ports k) k @ produced kbd_proc_data (kbd_ports k) k"

lemma poll_pending:
  assumes "cons_ok k" "serial_exists k" "pending_count k + length (arriving k) < CONSBUFSIZE"
  shows "pending (kbd_intr (serial_intr k)) = pending k @ arriving k"
    "cons_ok (kbd_intr (serial_intr k))"
proof -
  let ?s = "serial_intr k"
  have s: "pending ?s = pending k @ produced serial_proc_data (serial_ports k) k" "cons_ok ?s"
    "kbd_shift ?s = kbd_shift k" "kbd_ports ?s = kbd_ports k"
    using serial_line.intr_queue [of k "serial_ports k"] assms serial_intr_frame [of "serial_ports k" k]
    by (auto simp: serial_intr_def arriving_def split_beta)
  have "produced kbd_proc_data (kbd_ports ?s) ?s = produced kbd_proc_data (kbd_ports k) k"
    using s(3,4) produced_kbd_cong [of ?s k] by simp
  moreover have "pending_count ?s = pending_count k + length (produced serial_proc_data (serial_ports k) k)"
    using arg_cong [OF s(1), of length] by simp
  ultimately show "pending (kbd_intr ?s) = pending k @ arriving k" "cons_ok (kbd_intr ?s)"
    using keyboard.intr_queue [of ?s "kbd_ports ?s"] s assms(3)
    by (auto simp: kbd_intr_def arriving_def split_beta)
qed

text \<open>
  C38. The console input is a first-in first-out queue: as long as the waiting and the
  arriving characters are at most 511, \<open>cons_getc\<close> returns the oldest of them, or 0 when
  there is none, and keeps the others in the order of their arrival.
\<close>

theorem console_fifo:
  assumes "cons_ok k" "serial_exists k" "pending_count k + length (arriving k) < CONSBUFSIZE"
  shows "case cons_getc k of (c, k') \<Rightarrow>
     cons_ok k' \<and> pending k' = tl (pending k @ arriving k) \<and>
     c = (if pending k @ arriving k = [] then 0 else uint (hd (pending k @ arriving k)))"
proof -
  let ?p = "kbd_intr (serial_intr k)"
  note p = poll_pending [OF assms]
  show ?thesis
  proof (cases "rpos ?p = wpos ?p")
    case True
    then have "pending k @ arriving k = []" using pending_Nil_iff [of ?p] p by metis
    with True p show ?thesis by (simp add: cons_getc_def Let_def)
  next
    case False
    from pop_pending [OF p(2) False] p(1)
    have "pending k @ arriving k = cons_buf ?p (rpos ?p) #
        pending (?p\<lparr>rpos := (if rpos ?p + 1 = CONSBUFSIZE then 0 else rpos ?p + 1)\<rparr>)"
      "cons_ok (?p\<lparr>rpos := (if rpos ?p + 1 = CONSBUFSIZE then 0 else rpos ?p + 1)\<rparr>)" by simp_all
    with False show ?thesis by (simp add: cons_getc_def Let_def)
  qed
qed

definition typed_console :: console where
  "typed_console = \<lparr>cons_buf = (\<lambda>_. 0), rpos = 510, wpos = 510, kbd_shift = 0, rebooted = False,
     serial_exists = True, kbd_ports = [(1, 0x2A), (1, 0x1E), (1, 0x9E)], serial_ports = [(1, 104), (1, 105)],
     crt_buf = (\<lambda>_. 0), crt_pos = 0, serial_out = [], lpt_out = []\<rparr>"

theorem console_fifo_witness:
  "arriving typed_console = [104, 105, 65] \<and> fst (cons_getc typed_console) = 104 \<and>
   pending (snd (cons_getc typed_console)) = [105, 65]"
proof -
  have a: "arriving typed_console = [104, 105, 65]"
    by (simp add: arriving_def typed_console_def serial_proc_data_def kbd_proc_data_def Let_def
        COM_LSR_DATA_def KBS_DIB_def KBS_TERR_def E0ESC_def shiftcode_def togglecode_def table_def
        charcode_def shiftmap_def CTL_def SHIFT_def CAPSLOCK_def NUMLOCK_def SCROLLLOCK_def)
  have n: "pending_count typed_console = 0" "cons_ok typed_console" "serial_exists typed_console"
    "pending typed_console = []"
    by (simp_all add: pending_count_def cons_ok_def typed_console_def pending_def CONSBUFSIZE_eq)
  show ?thesis
    using console_fifo [OF n(2,3)] a n by (auto simp: CONSBUFSIZE_eq split: prod.splits)
qed

text \<open>
  When 511 characters wait and one more arrives, the write position catches up with the
  read position: the buffer counts as empty and all 512 characters are lost.
\<close>

theorem console_overflow:
  assumes "cons_ok k" "serial_exists k" "pending_count k + 1 = CONSBUFSIZE"
    "serial_ports k = [(st, c)]" "st AND COM_LSR_DATA \<noteq> 0" "c \<noteq> 0" "kbd_ports k = []"
  shows "fst (cons_getc k) = 0 \<and> pending (snd (cons_getc k)) = []"
proof -
  let ?s = "cons_store (uint c) k"
  have "uint c \<noteq> 0" using assms(6) uint_0_iff [of c] by blast
  moreover have "uint c \<noteq> -1" using uint_ge_0 [of c] by linarith
  ultimately have "kbd_intr (serial_intr k) = ?s\<lparr>serial_ports := []\<rparr>"
    using assms(2,4,5,7)
    by (simp add: serial_intr_def serial_proc_data_def kbd_intr_def cons_store_def Let_def)
  moreover have "pending ?s = []" using assms(1,3) by (rule cons_store_full)
  moreover have "rpos ?s = wpos ?s"
    using pending_Nil_iff [OF cons_store_ok [OF assms(1)]] \<open>pending ?s = []\<close> by blast
  ultimately show ?thesis
    by (simp_all add: cons_getc_def Let_def)
qed

theorem console_overflow_witness:
  "fst (cons_getc (typed_console\<lparr>rpos := 1, wpos := 0, serial_ports := [(1, 65)], kbd_ports := []\<rparr>)) = 0"
  using console_overflow
    [of "typed_console\<lparr>rpos := 1, wpos := 0, serial_ports := [(1, 65)], kbd_ports := []\<rparr>" 1 65]
  by (simp add: cons_ok_def pending_count_def typed_console_def CONSBUFSIZE_eq COM_LSR_DATA_def)

section \<open>The display\<close>

definition on_screen :: "console \<Rightarrow> bool" where
  "on_screen k \<longleftrightarrow> unat (crt_pos k) < CRT_SIZE"

text \<open>A step that keeps the cursor on the screen and writes nothing outside of it.\<close>

definition stays :: "console \<Rightarrow> console \<Rightarrow> bool" where
  "stays k k' \<longleftrightarrow> on_screen k' \<and> (\<forall>i \<ge> CRT_SIZE. crt_buf k' i = crt_buf k i)"

lemma stays_trans: "stays k k' \<Longrightarrow> stays k' k'' \<Longrightarrow> stays k k''"
  by (simp add: stays_def)

lemma CRT_eqs: "CRT_SIZE = 2000" "CRT_COLS = 80"
  by (simp_all add: CRT_SIZE_def CRT_ROWS_def CRT_COLS_def)

lemma scroll_stays:
  assumes "unat (crt_pos k') < CRT_SIZE + CRT_COLS" "\<forall>i \<ge> CRT_SIZE. crt_buf k' i = crt_buf k i"
  shows "stays k (cga_scroll k')"
proof (cases "unat (crt_pos k') \<ge> CRT_SIZE")
  case True
  then have "(80 :: 16 word) \<le> crt_pos k'" by (simp add: word_le_nat_alt CRT_eqs)
  then have "unat (crt_pos k' - 80) = unat (crt_pos k') - 80" by (simp add: unat_sub)
  with True assms show ?thesis by (simp add: stays_def on_screen_def cga_scroll_def CRT_eqs)
next
  case False
  with assms show ?thesis by (simp add: stays_def on_screen_def cga_scroll_def)
qed

lemma unat_sub_mod:
  fixes p :: "16 word"
  shows "unat (p - p mod 80) \<le> unat p"
proof -
  have "p mod 80 \<le> p" by (simp add: word_le_nat_alt unat_mod)
  then show ?thesis by (simp add: unat_sub)
qed

lemma char_bounds:
  assumes "on_screen k"
  shows "unat (crt_pos (cga_char c k)) < CRT_SIZE + CRT_COLS"
    "\<forall>i \<ge> CRT_SIZE. crt_buf (cga_char c k) i = crt_buf k i"
proof -
  have p: "unat (crt_pos k) < 2000" using assms by (simp add: on_screen_def CRT_eqs)
  have "unat (crt_pos k + 80) = unat (crt_pos k) + 80" "unat (crt_pos k + 1) = unat (crt_pos k) + 1"
    using p by (simp_all add: unat_word_ariths)
  moreover have "unat (crt_pos k - 1) < 2000" if "crt_pos k > 0"
    using p that by (simp add: unat_sub word_less_nat_alt word_le_nat_alt)
  moreover note unat_sub_mod [of "crt_pos k + 80"] unat_sub_mod [of "crt_pos k"]
  ultimately show "unat (crt_pos (cga_char c k)) < CRT_SIZE + CRT_COLS"
    "\<forall>i \<ge> CRT_SIZE. crt_buf (cga_char c k) i = crt_buf k i"
    using p by (auto simp: cga_char_def Let_def CRT_eqs)
qed

lemma plain_stays: "on_screen k \<Longrightarrow> stays k (cons_putc_plain c k)"
proof -
  assume k: "on_screen k"
  let ?k = "lpt_putc c (serial_putc c k)"
  have "on_screen ?k" "crt_buf ?k = crt_buf k"
    using k by (simp_all add: on_screen_def lpt_putc_def serial_putc_def)
  with char_bounds [of ?k "cga_attribute c"] show ?thesis
    unfolding cons_putc_plain_def by (intro scroll_stays) simp_all
qed

lemma plain_iterate: "on_screen k \<Longrightarrow> stays k ((cons_putc_plain c ^^ n) k)"
proof (induction n)
  case (Suc n)
  then have "stays k ((cons_putc_plain c ^^ n) k)" by simp
  moreover from this have "stays ((cons_putc_plain c ^^ n) k) (cons_putc_plain c ((cons_putc_plain c ^^ n) k))"
    by (intro plain_stays) (simp add: stays_def)
  ultimately show ?case by (auto intro: stays_trans)
qed (simp add: stays_def)

text \<open>
  Whatever character is printed, tabs and control characters included, the cursor stays
  inside of the 80 x 25 screen and no cell of the display memory beyond it is written.
\<close>

theorem display_in_bounds:
  assumes "unat (crt_pos k) < CRT_SIZE"
  shows "unat (crt_pos (cputchar c k)) < CRT_SIZE \<and>
    (\<forall>i \<ge> CRT_SIZE. crt_buf (cputchar c k) i = crt_buf k i)"
proof -
  let ?k = "lpt_putc c (serial_putc c k)"
  have k: "on_screen ?k" "crt_buf ?k = crt_buf k"
    using assms by (simp_all add: on_screen_def lpt_putc_def serial_putc_def)
  have "stays ?k (cga_putc c ?k)"
  proof (cases "cga_attribute c AND 0xff = 9")
    case True
    have "stays ?k (cga_scroll ((cons_putc_plain 32 ^^ 5) ?k))"
      using plain_iterate [OF k(1), of 5 32]
      by (intro scroll_stays) (simp_all add: stays_def on_screen_def CRT_eqs)
    with True show ?thesis by (simp add: cga_putc_def)
  next
    case False
    with char_bounds [OF k(1), of "cga_attribute c"] show ?thesis
      by (simp add: cga_putc_def scroll_stays)
  qed
  with k show ?thesis by (simp add: cputchar_def cons_putc_def stays_def on_screen_def)
qed

theorem display_in_bounds_witness:
  "unat (crt_pos (cputchar 10 (typed_console\<lparr>crt_pos := 1999\<rparr>))) < 2000"
  using display_in_bounds [of "typed_console\<lparr>crt_pos := 1999\<rparr>" 10] by (simp add: CRT_eqs)

end
