(* ===== verification/JosLock.thy ===== *)
theory JosLock
  imports JosPmap
begin

text \<open>
  sched/kern/spinlock.c: the big kernel lock, one step per access to shared memory, so that
  the steps of several CPUs interleave. The call stack that a debug build records is part of
  the state; \<open>stack\<close> is the memory that the frame pointers lead through.
\<close>

section \<open>The lock\<close>

record spinlock =
  locked :: u32
  lk_cpu :: "nat option"
  pcs :: "u32 list"

text \<open>The saved instruction pointers on the chain of frame pointers, ten entries.\<close>

fun caller_pcs :: "(u32 \<Rightarrow> u32) \<Rightarrow> u32 \<Rightarrow> nat \<Rightarrow> u32 list" where
  "caller_pcs stack ebp 0 = []"
| "caller_pcs stack ebp (Suc n) =
     (if ebp = 0 \<or> ebp < ULIM then replicate (Suc n) 0
      else stack (ebp + 4) # caller_pcs stack (stack ebp) n)"

definition get_caller_pcs :: "(u32 \<Rightarrow> u32) \<Rightarrow> u32 \<Rightarrow> u32 list" where
  "get_caller_pcs stack ebp = caller_pcs stack ebp 10"

definition spin_initlock :: "spinlock \<Rightarrow> spinlock" where
  "spin_initlock lk = lk\<lparr>locked := 0, lk_cpu := None\<rparr>"

definition lock_holding :: "spinlock \<Rightarrow> nat \<Rightarrow> bool" where
  "lock_holding lk i \<longleftrightarrow> locked lk \<noteq> 0 \<and> lk_cpu lk = Some i"

text \<open>The atomic exchange: the old value and the new lock.\<close>

definition xchg_locked :: "spinlock \<Rightarrow> u32 \<Rightarrow> u32 \<times> spinlock" where
  "xchg_locked lk v = (locked lk, lk\<lparr>locked := v\<rparr>)"

definition record_owner :: "nat \<Rightarrow> u32 list \<Rightarrow> spinlock \<Rightarrow> spinlock" where
  "record_owner i stk lk = lk\<lparr>lk_cpu := Some i, pcs := stk\<rparr>"

definition forget_owner :: "spinlock \<Rightarrow> spinlock" where
  "forget_owner lk = lk\<lparr>pcs := (pcs lk)[0 := 0], lk_cpu := None\<rparr>"

section \<open>Several CPUs\<close>

text \<open>
  Where a CPU is: outside; spinning in \<open>spin_lock\<close>; past the exchange; in the kernel with the
  owner recorded; in \<open>spin_unlock\<close> with the owner forgotten; or in \<open>panic\<close>.
\<close>

datatype lock_pc = Outside | Spinning | Acquired | Critical | Releasing | Panicked

record smp =
  big_lock :: spinlock
  cpu_pc :: "nat \<Rightarrow> lock_pc"

inductive lock_step :: "smp \<Rightarrow> nat \<Rightarrow> smp \<Rightarrow> bool" where
  enter: "cpu_pc s i = Outside \<Longrightarrow>
    s' = s\<lparr>cpu_pc := (cpu_pc s)(i := (if lock_holding (big_lock s) i then Panicked else Spinning))\<rparr> \<Longrightarrow>
    lock_step s i s'"
| spin: "cpu_pc s i = Spinning \<Longrightarrow> xchg_locked (big_lock s) 1 = (old, lk) \<Longrightarrow>
    s' = s\<lparr>big_lock := lk, cpu_pc := (cpu_pc s)(i := (if old \<noteq> 0 then Spinning else Acquired))\<rparr> \<Longrightarrow>
    lock_step s i s'"
| own: "cpu_pc s i = Acquired \<Longrightarrow>
    s' = s\<lparr>big_lock := record_owner i (get_caller_pcs stack ebp) (big_lock s),
           cpu_pc := (cpu_pc s)(i := Critical)\<rparr> \<Longrightarrow>
    lock_step s i s'"
| leave: "cpu_pc s i = Critical \<Longrightarrow>
    s' = (if lock_holding (big_lock s) i
          then s\<lparr>big_lock := forget_owner (big_lock s), cpu_pc := (cpu_pc s)(i := Releasing)\<rparr>
          else s\<lparr>cpu_pc := (cpu_pc s)(i := Panicked)\<rparr>) \<Longrightarrow>
    lock_step s i s'"
| release: "cpu_pc s i = Releasing \<Longrightarrow> xchg_locked (big_lock s) 0 = (old, lk) \<Longrightarrow>
    s' = s\<lparr>big_lock := lk, cpu_pc := (cpu_pc s)(i := Outside)\<rparr> \<Longrightarrow>
    lock_step s i s'"

inductive smp_reachable :: "smp \<Rightarrow> bool" where
  boot: "smp_reachable \<lparr>big_lock = spin_initlock lk, cpu_pc = (\<lambda>_. Outside)\<rparr>"
| step: "smp_reachable s \<Longrightarrow> lock_step s i s' \<Longrightarrow> smp_reachable s'"

section \<open>Mutual exclusion\<close>

abbreviation inside :: "smp \<Rightarrow> nat \<Rightarrow> bool" where
  "inside s i \<equiv> cpu_pc s i \<in> {Acquired, Critical, Releasing}"

text \<open>
  The lock word is set exactly while one CPU is inside, and the recorded owner is exactly the
  CPU in the critical section.
\<close>

definition lock_inv :: "smp \<Rightarrow> bool" where
  "lock_inv s \<longleftrightarrow>
     (locked (big_lock s) \<noteq> 0 \<longleftrightarrow> (\<exists>i. inside s i)) \<and>
     (\<forall>i j. inside s i \<longrightarrow> inside s j \<longrightarrow> i = j) \<and>
     (\<forall>i. lk_cpu (big_lock s) = Some i \<longleftrightarrow> cpu_pc s i = Critical) \<and>
     (\<forall>i. cpu_pc s i \<noteq> Panicked)"

lemmas lock_ops = xchg_locked_def record_owner_def forget_owner_def lock_holding_def spin_initlock_def

lemma lock_inv_frame:
  assumes "lock_inv s" "locked (big_lock s') = locked (big_lock s)"
    "\<And>j. inside s' j \<longleftrightarrow> inside s j" "\<And>j. lk_cpu (big_lock s') = Some j \<longleftrightarrow> cpu_pc s' j = Critical"
    "\<And>j. cpu_pc s' j \<noteq> Panicked"
  shows "lock_inv s'"
  unfolding lock_inv_def assms(2,3) using assms(1,4,5) by (simp add: lock_inv_def)

lemma inside_unique: "lock_inv s \<Longrightarrow> inside s i \<Longrightarrow> j \<noteq> i \<Longrightarrow> \<not> inside s j"
  unfolding lock_inv_def by metis

lemma critical_unique:
  "lock_inv s \<Longrightarrow> inside s i \<Longrightarrow> j \<noteq> i \<Longrightarrow> cpu_pc s j \<noteq> Critical"
  unfolding lock_inv_def by (metis insertI1 insertI2)

lemma lock_inv_step:
  assumes "lock_step s i s'" "lock_inv s"
  shows "lock_inv s'"
  using assms
proof cases
  case enter
  then have "\<not> lock_holding (big_lock s) i" using assms(2) by (auto simp: lock_inv_def lock_holding_def)
  with enter have s': "s' = s\<lparr>cpu_pc := (cpu_pc s)(i := Spinning)\<rparr>" by simp
  have "inside s' j \<longleftrightarrow> inside s j" for j using s' enter by auto
  with s' enter assms(2) show ?thesis by (auto simp: lock_inv_def)
next
  case (spin old lk)
  show ?thesis
  proof (cases "old = 0")
    case True
    then have none: "\<not> inside s j" for j
      using spin assms(2) by (auto simp: lock_inv_def xchg_locked_def)
    have "lk_cpu (big_lock s) = None"
      using none assms(2) by (cases "lk_cpu (big_lock s)") (auto simp: lock_inv_def)
    with True none spin assms(2) show ?thesis
      by (auto simp: lock_inv_def xchg_locked_def)
  next
    case False
    have "inside s' j \<longleftrightarrow> inside s j" for j using spin False by auto
    with spin False assms(2) show ?thesis by (auto simp: lock_inv_def xchg_locked_def)
  qed
next
  case (own stack ebp)
  then have u: "cpu_pc s j \<noteq> Critical" if "j \<noteq> i" for j
    using critical_unique [OF assms(2), of i j] that by simp
  have np: "cpu_pc s j \<noteq> Panicked" for j using assms(2) by (simp add: lock_inv_def)
  show ?thesis
    by (rule lock_inv_frame [OF assms(2)]) (use own u np in \<open>auto simp: record_owner_def\<close>)
next
  case leave
  then have h: "lock_holding (big_lock s) i" using assms(2) by (auto simp: lock_inv_def lock_holding_def)
  have u: "cpu_pc s j \<noteq> Critical" if "j \<noteq> i" for j
    using leave critical_unique [OF assms(2), of i j] that by simp
  have np: "cpu_pc s j \<noteq> Panicked" for j using assms(2) by (simp add: lock_inv_def)
  show ?thesis
    by (rule lock_inv_frame [OF assms(2)]) (use leave h u np in \<open>auto simp: forget_owner_def\<close>)
next
  case (release old lk)
  have o: "\<not> inside s j" if "j \<noteq> i" for j
    using inside_unique [OF assms(2), of i j] release that by simp
  then have none: "\<not> inside s' j" for j using release by (cases "j = i") auto
  have np: "cpu_pc s j \<noteq> Panicked" for j using assms(2) by (simp add: lock_inv_def)
  have "cpu_pc s j \<noteq> Critical" for j using o [of j] release by (cases "j = i") auto
  then have "lk_cpu (big_lock s) = None"
    using assms(2) by (cases "lk_cpu (big_lock s)") (auto simp: lock_inv_def)
  then have "lk_cpu (big_lock s') = None" "locked (big_lock s') = 0"
    using release by (auto simp: xchg_locked_def)
  moreover have "cpu_pc s' j \<noteq> Panicked" for j using release np by (cases "j = i") auto
  ultimately show ?thesis unfolding lock_inv_def using none by simp
qed

lemma lock_inv_reachable: "smp_reachable s \<Longrightarrow> lock_inv s"
proof (induction rule: smp_reachable.induct)
  case (boot lk)
  show ?case by (simp add: lock_inv_def spin_initlock_def)
qed (auto intro: lock_inv_step)

text \<open>
  C26. In every interleaving of any number of CPUs that lock and unlock the kernel, at most one
  CPU is between the successful exchange and the release, that CPU is the recorded owner
  while it works, and neither of the two checks of the debug build ever panics.
\<close>

theorem kernel_lock_exclusive:
  assumes "smp_reachable s"
  shows "(\<forall>i j. inside s i \<longrightarrow> inside s j \<longrightarrow> i = j) \<and>
    (\<forall>i. cpu_pc s i = Critical \<longrightarrow> lock_holding (big_lock s) i) \<and> (\<forall>i. cpu_pc s i \<noteq> Panicked)"
  using lock_inv_reachable [OF assms] by (auto simp: lock_inv_def lock_holding_def)

definition fresh_lock :: spinlock where
  "fresh_lock = \<lparr>locked = 7, lk_cpu = Some 3, pcs = []\<rparr>"

definition booted :: smp where
  "booted = \<lparr>big_lock = spin_initlock fresh_lock, cpu_pc = (\<lambda>_. Outside)\<rparr>"

theorem kernel_lock_exclusive_witness:
  "\<exists>s. smp_reachable s \<and> cpu_pc s 0 = Acquired \<and> cpu_pc s 1 = Spinning \<and> \<not> inside s 1"
proof -
  let ?s1 = "booted\<lparr>cpu_pc := (cpu_pc booted)(0 := Spinning)\<rparr>"
  let ?s2 = "?s1\<lparr>cpu_pc := (cpu_pc ?s1)(1 := Spinning)\<rparr>"
  let ?s3 = "?s2\<lparr>big_lock := (big_lock ?s2)\<lparr>locked := 1\<rparr>, cpu_pc := (cpu_pc ?s2)(0 := Acquired)\<rparr>"
  have "smp_reachable booted" unfolding booted_def by (rule boot)
  moreover have "lock_step booted 0 ?s1" "lock_step ?s1 1 ?s2"
    by (rule enter; simp add: booted_def spin_initlock_def lock_holding_def)+
  moreover have "lock_step ?s2 0 ?s3"
    by (rule spin [of _ _ 0]) (simp_all add: booted_def spin_initlock_def xchg_locked_def)
  ultimately have r: "smp_reachable ?s3" by (blast intro: step)
  from kernel_lock_exclusive [OF r] have "\<not> inside ?s3 1" by auto
  with r show ?thesis by (intro exI [of _ ?s3]) simp
qed

end
