(* ===== verification/JosKdebug.thy ===== *)
theory JosKdebug
  imports Prelude
begin

text \<open>
  sched/kern/kdebug.c and inc/stab.h: the search of the debugging tables for an instruction
  address. A table is a list of entries; reading outside of it is \<open>None\<close>, and so is a search
  that does not end. Indices are the C integers of the code, addresses have 32 bits.
\<close>

record stab =
  n_strx :: nat
  n_type :: nat
  n_other :: nat
  n_desc :: nat
  n_value :: "32 word"

definition N_FUN :: nat where "N_FUN = 0x24"
definition N_SLINE :: nat where "N_SLINE = 0x44"
definition N_SO :: nat where "N_SO = 0x64"
definition N_SOL :: nat where "N_SOL = 0x84"
definition N_PSYM :: nat where "N_PSYM = 0xa0"

text \<open>An access of the table.\<close>

definition stab_at :: "stab list \<Rightarrow> int \<Rightarrow> stab option" where
  "stab_at stabs i = (if 0 \<le> i \<and> i < int (length stabs) then Some (stabs ! nat i) else None)"

section \<open>stab_binsearch\<close>

text \<open>The search for the earliest entry of the type, downwards from \<open>m\<close>.\<close>

function find_down :: "stab list \<Rightarrow> nat \<Rightarrow> int \<Rightarrow> int \<Rightarrow> int option" where
  "find_down stabs ty l m =
     (if m < l then Some m
      else case stab_at stabs m of
          None \<Rightarrow> None
        | Some s \<Rightarrow> if n_type s \<noteq> ty then find_down stabs ty l (m - 1) else Some m)"
  by pat_completeness auto
termination
  by (relation "measure (\<lambda>(stabs, ty, l, m). nat (m - l + 1))") auto

declare find_down.simps [simp del]

text \<open>The loop, with the region found so far and \<open>any_matches\<close>.\<close>

partial_function (option) binsearch_loop ::
  "stab list \<Rightarrow> nat \<Rightarrow> int \<Rightarrow> int \<Rightarrow> 32 word \<Rightarrow> int \<Rightarrow> int \<Rightarrow> bool \<Rightarrow> (int \<times> int \<times> bool) option" where
  "binsearch_loop stabs ty l r addr region_left region_right any =
     (if l > r then Some (region_left, region_right, any)
      else let true_m = (l + r) div 2 in
        case find_down stabs ty l true_m of
          None \<Rightarrow> None
        | Some m \<Rightarrow>
            if m < l then binsearch_loop stabs ty (true_m + 1) r addr region_left region_right any
            else (case stab_at stabs m of
                None \<Rightarrow> None
              | Some s \<Rightarrow>
                  if n_value s < addr then binsearch_loop stabs ty (true_m + 1) r addr m region_right True
                  else if n_value s > addr then binsearch_loop stabs ty l (m - 1) addr region_left (m - 1) True
                  else binsearch_loop stabs ty m r (addr + 1) m region_right True))"

text \<open>The last loop, which goes down to a matching entry or to the left end of the region.\<close>

function rightmost :: "stab list \<Rightarrow> nat \<Rightarrow> int \<Rightarrow> int \<Rightarrow> int option" where
  "rightmost stabs ty left l =
     (if l > left then
        (case stab_at stabs l of
           None \<Rightarrow> None
         | Some s \<Rightarrow> if n_type s \<noteq> ty then rightmost stabs ty left (l - 1) else Some l)
      else Some l)"
  by pat_completeness auto
termination
  by (relation "measure (\<lambda>(stabs, ty, left, l). nat (l - left))") auto

declare rightmost.simps [simp del]

definition stab_binsearch :: "stab list \<Rightarrow> int \<Rightarrow> int \<Rightarrow> nat \<Rightarrow> 32 word \<Rightarrow> (int \<times> int) option" where
  "stab_binsearch stabs left right ty addr =
     (case binsearch_loop stabs ty left right addr left right False of
        None \<Rightarrow> None
      | Some (l, r, any) \<Rightarrow>
          if \<not> any then Some (l, l - 1)
          else map_option (\<lambda>l'. (l', r)) (rightmost stabs ty l r))"

section \<open>debuginfo_eip\<close>

text \<open>
  The answer names positions in the string table; \<open>None\<close> for a name is \<open><unknown>\<close>. The tables and
  the checks that choose and validate them are parameters: \<open>strings\<close> is the string table and
  \<open>valid\<close> says whether the checks passed.
\<close>

record eip_info =
  eip_file :: "nat option"
  eip_line :: nat
  eip_fn_name :: "nat option"
  eip_fn_namelen :: nat
  eip_fn_addr :: "32 word"
  eip_fn_narg :: nat

definition unknown_info :: "32 word \<Rightarrow> eip_info" where
  "unknown_info addr = \<lparr>eip_file = None, eip_line = 0, eip_fn_name = None, eip_fn_namelen = 9,
     eip_fn_addr = addr, eip_fn_narg = 0\<rparr>"

text \<open>\<open>strfind\<close> for a colon in the string table, relative to the start.\<close>

fun colon_length :: "byte list \<Rightarrow> nat" where
  "colon_length [] = 0"
| "colon_length (c # cs) = (if c = 0 \<or> c = 58 then 0 else Suc (colon_length cs))"

function file_stab :: "stab list \<Rightarrow> int \<Rightarrow> int \<Rightarrow> int option" where
  "file_stab stabs lfile lline =
     (if lline \<ge> lfile then
        (case stab_at stabs lline of
           None \<Rightarrow> None
         | Some s \<Rightarrow> if n_type s \<noteq> N_SOL \<and> (n_type s \<noteq> N_SO \<or> n_value s = 0)
                    then file_stab stabs lfile (lline - 1) else Some lline)
      else Some lline)"
  by pat_completeness auto
termination
  by (relation "measure (\<lambda>(stabs, lfile, lline). nat (lline - lfile + 1))") auto

function count_args :: "stab list \<Rightarrow> int \<Rightarrow> int \<Rightarrow> nat option" where
  "count_args stabs rfun lline =
     (if lline < rfun then
        (case stab_at stabs lline of
           None \<Rightarrow> None
         | Some s \<Rightarrow> if n_type s = N_PSYM then map_option Suc (count_args stabs rfun (lline + 1)) else Some 0)
      else Some 0)"
  by pat_completeness auto
termination
  by (relation "measure (\<lambda>(stabs, rfun, lline). nat (rfun - lline))") auto

declare file_stab.simps [simp del] count_args.simps [simp del]

definition debuginfo_eip :: "stab list \<Rightarrow> byte list \<Rightarrow> bool \<Rightarrow> 32 word \<Rightarrow> (int \<times> eip_info) option" where
  "debuginfo_eip stabs strings valid addr =
     (let info = unknown_info addr in
      if \<not> valid \<or> strings = [] \<or> last strings \<noteq> 0 then Some (- 1, info)
      else do {
        (lfile, rfile) \<leftarrow> stab_binsearch stabs 0 (int (length stabs) - 1) N_SO addr;
        if lfile = 0 then Some (- 1, info) else do {
          (lfun, rfun) \<leftarrow> stab_binsearch stabs lfile rfile N_FUN addr;
          fs \<leftarrow> (if lfun \<le> rfun then map_option Some (stab_at stabs lfun) else Some None);
          let name = (case fs of
                None \<Rightarrow> None
              | Some s \<Rightarrow> if n_strx s < length strings then Some (n_strx s) else None);
          let fn_addr = (case fs of None \<Rightarrow> addr | Some s \<Rightarrow> n_value s);
          let addr1 = (case fs of None \<Rightarrow> addr | Some s \<Rightarrow> addr - n_value s);
          let namelen = (case name of None \<Rightarrow> 9 | Some i \<Rightarrow> colon_length (drop i strings));
          let (l0, r0) = (if lfun \<le> rfun then (lfun, rfun) else (lfile, rfile));
          (lline, rline) \<leftarrow> stab_binsearch stabs l0 r0 N_SLINE addr1;
          line \<leftarrow> (if lline \<le> rline then map_option n_desc (stab_at stabs lline) else Some 0);
          l \<leftarrow> file_stab stabs lfile lline;
          file \<leftarrow> (if l \<ge> lfile
                  then map_option (\<lambda>s. if n_strx s < length strings then Some (n_strx s) else None) (stab_at stabs l)
                  else Some None);
          narg \<leftarrow> (if lfun < rfun then count_args stabs rfun (lfun + 1) else Some 0);
          Some (0, \<lparr>eip_file = file, eip_line = line, eip_fn_name = name, eip_fn_namelen = namelen,
                    eip_fn_addr = fn_addr, eip_fn_narg = narg\<rparr>)
        }
      })"

section \<open>The search returns\<close>

text \<open>The result of the downward search in a part of the table.\<close>

lemma find_down_spec:
  assumes "0 \<le> l" "m < int (length stabs)" "l \<le> m + 1"
  obtains m' where "find_down stabs ty l m = Some m'" "l - 1 \<le> m'" "m' \<le> m"
    "\<And>i. m' < i \<Longrightarrow> i \<le> m \<Longrightarrow> n_type (stabs ! nat i) \<noteq> ty" "l \<le> m' \<Longrightarrow> n_type (stabs ! nat m') = ty"
  using assms
proof (induction stabs ty l m arbitrary: thesis rule: find_down.induct)
  case (1 stabs ty l m)
  show ?case
  proof (cases "m < l")
    case True
    then show ?thesis using "1.prems" by (intro "1.prems"(1) [of m]) (simp_all add: find_down.simps [of stabs ty l m])
  next
    case False
    then have at: "stab_at stabs m = Some (stabs ! nat m)" using "1.prems"(2,3) by (simp add: stab_at_def)
    show ?thesis
    proof (cases "n_type (stabs ! nat m) = ty")
      case True
      then show ?thesis
        using False at by (intro "1.prems"(1) [of m]) (simp_all add: find_down.simps [of stabs ty l m])
    next
      case ty: False
      obtain m' where m': "find_down stabs ty l (m - 1) = Some m'" "l - 1 \<le> m'" "m' \<le> m - 1"
        "\<And>i. m' < i \<Longrightarrow> i \<le> m - 1 \<Longrightarrow> n_type (stabs ! nat i) \<noteq> ty" "l \<le> m' \<Longrightarrow> n_type (stabs ! nat m') = ty"
        by (rule "1.IH" [OF False at ty]) (use "1.prems" False in simp_all)
      have "n_type (stabs ! nat i) \<noteq> ty" if "m' < i" "i \<le> m" for i
        using m'(4) [of i] that ty by (cases "i = m") simp_all
      then show ?thesis
        using m' False at ty by (intro "1.prems"(1) [of m']) (simp_all add: find_down.simps [of stabs ty l m])
    qed
  qed
qed

text \<open>One turn of the loop, and the measure that it decreases: an exact match may keep the region once.\<close>

definition hit :: "stab list \<Rightarrow> nat \<Rightarrow> int \<Rightarrow> int \<Rightarrow> 32 word \<Rightarrow> bool" where
  "hit stabs ty l r addr \<longleftrightarrow> (\<exists>m. find_down stabs ty l ((l + r) div 2) = Some m \<and> l \<le> m \<and> n_value (stabs ! nat m) = addr)"

definition turns :: "stab list \<Rightarrow> nat \<Rightarrow> int \<Rightarrow> int \<Rightarrow> 32 word \<Rightarrow> nat" where
  "turns stabs ty l r addr = 2 * nat (r - l + 1) + (if hit stabs ty l r addr then 1 else 0)"

lemma turns_less: "l \<le> r \<Longrightarrow> l' \<ge> l \<Longrightarrow> r' \<le> r \<Longrightarrow> l' > l \<or> r' < r \<Longrightarrow> turns stabs ty l' r' a' < turns stabs ty l r a"
  by (auto simp: turns_def)

lemma double_less: "x < y \<Longrightarrow> 2 * x + (if b then 1 else 0) < 2 * y + (1 :: nat)"
  by simp

lemma turns_hit:
  assumes "l \<le> r" "find_down stabs ty l ((l + r) div 2) = Some m" "l \<le> m" "n_value (stabs ! nat m) = addr"
  shows "turns stabs ty m r (addr + 1) < turns stabs ty l r addr"
proof (cases "m = l")
  case True
  have "\<not> hit stabs ty m r (addr + 1)" using assms(2,4) by (simp add: hit_def True)
  moreover have "hit stabs ty l r addr" using assms(2-4) by (auto simp: hit_def)
  ultimately show ?thesis by (simp add: turns_def True)
next
  case False
  have h: "hit stabs ty l r addr" using assms(2-4) by (auto simp: hit_def)
  have "nat (r - m + 1) < nat (r - l + 1)" using False assms(1,3) by linarith
  then show ?thesis unfolding turns_def if_P [OF h] by (rule double_less)
qed

lemma half_between: "l \<le> r \<Longrightarrow> l \<le> (l + r) div 2 \<and> (l + r) div 2 \<le> (r :: int)"
  by linarith

text \<open>The loop for any table; \<open>Q\<close> is a property of its variables that every turn keeps.\<close>

lemma binsearch_loop_rule:
  assumes "0 \<le> l" "r < int (length stabs)" "l \<le> r + 1" "Q l r addr rl rr any"
    and less: "\<And>l r addr rl rr any m. l \<le> r \<Longrightarrow> 0 \<le> l \<Longrightarrow> r < int (length stabs) \<Longrightarrow> Q l r addr rl rr any \<Longrightarrow>
      m < l \<Longrightarrow> (\<And>i. l \<le> i \<Longrightarrow> i \<le> (l + r) div 2 \<Longrightarrow> n_type (stabs ! nat i) \<noteq> ty) \<Longrightarrow>
      Q ((l + r) div 2 + 1) r addr rl rr any"
    and found: "\<And>l r addr rl rr any m. l \<le> r \<Longrightarrow> 0 \<le> l \<Longrightarrow> r < int (length stabs) \<Longrightarrow> Q l r addr rl rr any \<Longrightarrow>
      l \<le> m \<Longrightarrow> m \<le> (l + r) div 2 \<Longrightarrow> n_type (stabs ! nat m) = ty \<Longrightarrow>
      (\<And>i. m < i \<Longrightarrow> i \<le> (l + r) div 2 \<Longrightarrow> n_type (stabs ! nat i) \<noteq> ty) \<Longrightarrow>
      (n_value (stabs ! nat m) < addr \<longrightarrow> Q ((l + r) div 2 + 1) r addr m rr True) \<and>
      (n_value (stabs ! nat m) > addr \<longrightarrow> Q l (m - 1) addr rl (m - 1) True) \<and>
      (n_value (stabs ! nat m) = addr \<longrightarrow> Q m r (addr + 1) m rr True)"
  shows "\<exists>l' r' addr' rl' rr' any'. binsearch_loop stabs ty l r addr rl rr any = Some (rl', rr', any') \<and>
    Q l' r' addr' rl' rr' any' \<and> l' = r' + 1"
  using assms(1-4)
proof (induction "turns stabs ty l r addr" arbitrary: l r addr rl rr any rule: less_induct)
  case (less l r addr rl rr any)
  show ?case
  proof (cases "l > r")
    case True
    then have "l = r + 1" using less.prems(3) by simp
    moreover have "binsearch_loop stabs ty l r addr rl rr any = Some (rl, rr, any)"
      using True by (subst binsearch_loop.simps) simp
    ultimately show ?thesis using less.prems(4) by blast
  next
    case False
    then have lr: "l \<le> r" by simp
    let ?t = "(l + r) div 2"
    have t: "l \<le> ?t" "?t \<le> r" using half_between [OF lr] by simp_all
    obtain m where m: "find_down stabs ty l ?t = Some m" "l - 1 \<le> m" "m \<le> ?t"
      "\<And>i. m < i \<Longrightarrow> i \<le> ?t \<Longrightarrow> n_type (stabs ! nat i) \<noteq> ty" "l \<le> m \<Longrightarrow> n_type (stabs ! nat m) = ty"
      by (rule find_down_spec [of l ?t stabs ty]) (use less.prems t in auto)
    show ?thesis
    proof (cases "m < l")
      case True
      have "binsearch_loop stabs ty l r addr rl rr any = binsearch_loop stabs ty (?t + 1) r addr rl rr any"
        using lr m(1) True by (subst binsearch_loop.simps) (simp add: Let_def)
      moreover have "Q (?t + 1) r addr rl rr any"
        using assms(5) [OF lr less.prems(1,2,4) True] m(4) True by simp
      ultimately show ?thesis
        using less.hyps [of "?t + 1" r addr rl rr any] turns_less [of l r "?t + 1" r] lr t less.prems by simp
    next
      case False
      then have lm: "l \<le> m" by simp
      have at: "stab_at stabs m = Some (stabs ! nat m)" using lm m(3) t less.prems by (simp add: stab_at_def)
      note q = found [OF lr less.prems(1,2,4) lm m(3) m(5) [OF lm] m(4)]
      let ?v = "n_value (stabs ! nat m)"
      consider "?v < addr" | "?v > addr" | "?v = addr" by (rule linorder_cases)
      then show ?thesis
      proof cases
        case 1
        have "binsearch_loop stabs ty l r addr rl rr any = binsearch_loop stabs ty (?t + 1) r addr m rr True"
          using lr m(1) lm at 1 by (subst binsearch_loop.simps) (simp add: Let_def)
        then show ?thesis
          using less.hyps [of "?t + 1" r addr m rr True] turns_less [of l r "?t + 1" r] lr t less.prems q 1 by simp
      next
        case 2
        then have "\<not> ?v < addr" by simp
        with 2 have "binsearch_loop stabs ty l r addr rl rr any = binsearch_loop stabs ty l (m - 1) addr rl (m - 1) True"
          using lr m(1) lm at by (subst binsearch_loop.simps) (simp add: Let_def)
        then show ?thesis
          using less.hyps [of l "m - 1" addr rl "m - 1" True] turns_less [of l r l "m - 1"] lr t lm m(3) less.prems q 2 by simp
      next
        case 3
        then have "binsearch_loop stabs ty l r addr rl rr any = binsearch_loop stabs ty m r (addr + 1) m rr True"
          using lr m(1) lm at by (subst binsearch_loop.simps) (simp add: Let_def)
        moreover have "turns stabs ty m r (addr + 1) < turns stabs ty l r addr"
          using turns_hit [OF lr m(1) lm] 3 by simp
        ultimately show ?thesis
          using less.hyps [of m r "addr + 1" m rr True] t lm m(3) less.prems q 3 by simp
      qed
    qed
  qed
qed

end
