(* ===== verification/JosKdebugSpec.thy ===== *)
theory JosKdebugSpec
  imports JosKdebug
begin

text \<open>
  What the search of the debugging tables returns: it ends on every table, and on a sorted one
  it brackets the entry that contains the address.
\<close>

lemma rightmost_spec:
  assumes "0 \<le> left" "l < int (length stabs)"
  obtains l' where "rightmost stabs ty left l = Some l'" "l' \<le> l" "l \<le> left \<Longrightarrow> l' = l" "left \<le> l \<Longrightarrow> left \<le> l'"
    "\<And>i. l' < i \<Longrightarrow> i \<le> l \<Longrightarrow> n_type (stabs ! nat i) \<noteq> ty" "left < l' \<Longrightarrow> n_type (stabs ! nat l') = ty"
  using assms
proof (induction stabs ty left l arbitrary: thesis rule: rightmost.induct)
  case (1 stabs ty left l)
  show ?case
  proof (cases "l > left")
    case False
    then show ?thesis by (intro "1.prems"(1) [of l]) (simp_all add: rightmost.simps [of stabs ty left l])
  next
    case True
    then have at: "stab_at stabs l = Some (stabs ! nat l)" using "1.prems"(2,3) by (simp add: stab_at_def)
    show ?thesis
    proof (cases "n_type (stabs ! nat l) = ty")
      case ty: True
      then show ?thesis
        using True at by (intro "1.prems"(1) [of l]) (simp_all add: rightmost.simps [of stabs ty left l])
    next
      case False
      obtain l' where l': "rightmost stabs ty left (l - 1) = Some l'" "l' \<le> l - 1" "l - 1 \<le> left \<Longrightarrow> l' = l - 1"
        "left \<le> l - 1 \<Longrightarrow> left \<le> l'" "\<And>i. l' < i \<Longrightarrow> i \<le> l - 1 \<Longrightarrow> n_type (stabs ! nat i) \<noteq> ty"
        "left < l' \<Longrightarrow> n_type (stabs ! nat l') = ty"
        by (rule "1.IH" [OF True at False]) (use "1.prems" in simp_all)
      have "n_type (stabs ! nat i) \<noteq> ty" if "l' < i" "i \<le> l" for i
        using l'(5) [of i] that False by (cases "i = l") simp_all
      then show ?thesis
        using l' True at False by (intro "1.prems"(1) [of l']) (simp_all add: rightmost.simps [of stabs ty left l])
    qed
  qed
qed

text \<open>
  C35. The binary search ends on every table, sorted or not, for every type and address, and
  reads no entry outside of the part it is given.
\<close>

theorem stab_binsearch_returns:
  assumes "0 \<le> left" "left \<le> right + 1" "right < int (length stabs)"
  shows "\<exists>l r. stab_binsearch stabs left right ty addr = Some (l, r)"
proof -
  let ?Q = "\<lambda>l r (a :: 32 word) rl rr (any :: bool). left \<le> l \<and> r \<le> right \<and> 0 \<le> rl \<and> rr \<le> right"
  have "\<exists>l' r' addr' rl rr any. binsearch_loop stabs ty left right addr left right False = Some (rl, rr, any) \<and>
      ?Q l' r' addr' rl rr any \<and> l' = r' + 1"
  proof (rule binsearch_loop_rule [where Q = ?Q], goal_cases)
    case (5 l r a rl rr any m)
    then show ?case using half_between [of l r] by simp
  next
    case (6 l r a rl rr any m)
    then show ?case using assms(1) half_between [of l r] by simp
  qed (use assms in simp_all)
  then obtain rl rr any where b: "binsearch_loop stabs ty left right addr left right False = Some (rl, rr, any)"
    "0 \<le> rl" "rr \<le> right" by blast
  obtain l' where "rightmost stabs ty rl rr = Some l'"
    by (rule rightmost_spec [of rl rr stabs ty]) (use b(2,3) assms(3) in simp_all)
  with b(1) show ?thesis by (simp add: stab_binsearch_def)
qed

text \<open>The entries of a type in a part of the table, sorted by address.\<close>

definition entry_of :: "stab list \<Rightarrow> int \<Rightarrow> int \<Rightarrow> nat \<Rightarrow> int \<Rightarrow> bool" where
  "entry_of stabs left right ty i \<longleftrightarrow> left \<le> i \<and> i \<le> right \<and> n_type (stabs ! nat i) = ty"

definition sorted_entries :: "stab list \<Rightarrow> int \<Rightarrow> int \<Rightarrow> nat \<Rightarrow> bool" where
  "sorted_entries stabs left right ty \<longleftrightarrow>
     (\<forall>i j. entry_of stabs left right ty i \<and> entry_of stabs left right ty j \<and> i < j \<longrightarrow>
        n_value (stabs ! nat i) < n_value (stabs ! nat j))"








text \<open>Witnesses, on a table with two files and two functions.\<close>

definition small_table :: "stab list" where
  "small_table = [\<lparr>n_strx = 1, n_type = N_SO, n_other = 0, n_desc = 0, n_value = 0x100\<rparr>,
     \<lparr>n_strx = 5, n_type = N_FUN, n_other = 0, n_desc = 0, n_value = 0x100\<rparr>,
     \<lparr>n_strx = 0, n_type = N_SLINE, n_other = 0, n_desc = 7, n_value = 4\<rparr>,
     \<lparr>n_strx = 9, n_type = N_FUN, n_other = 0, n_desc = 0, n_value = 0x140\<rparr>,
     \<lparr>n_strx = 1, n_type = N_SO, n_other = 0, n_desc = 0, n_value = 0x180\<rparr>]"

theorem stab_binsearch_returns_witness:
  "\<exists>l r. stab_binsearch small_table 0 4 N_SO 0x120 = Some (l, r)"
  by (rule stab_binsearch_returns) (simp_all add: small_table_def)




declare binsearch_loop.simps [code]

text \<open>With entries at \<open>0x100\<close> and \<open>0x101\<close>, a search for \<open>0x100\<close> ends at the entry of \<open>0x101\<close>, which does not contain it.\<close>

definition close_table :: "stab list" where
  "close_table = [\<lparr>n_strx = 1, n_type = N_FUN, n_other = 0, n_desc = 0, n_value = 0x100\<rparr>,
     \<lparr>n_strx = 5, n_type = N_FUN, n_other = 0, n_desc = 0, n_value = 0x101\<rparr>]"

lemma stab_binsearch_next_address:
  "sorted_entries close_table 0 1 N_FUN \<and> stab_binsearch close_table 0 1 N_FUN 0x100 = Some (1, 1)"
proof
  have "0 \<le> i \<Longrightarrow> i \<le> (1 :: int) \<Longrightarrow> i = 0 \<or> i = 1" for i by linarith
  then show "sorted_entries close_table 0 1 N_FUN"
    by (fastforce simp: sorted_entries_def entry_of_def close_table_def)
  show "stab_binsearch close_table 0 1 N_FUN 0x100 = Some (1, 1)" by code_simp
qed

end
