(* ===== verification/JosString.thy ===== *)
theory JosString
  imports JosPmap
begin

text \<open>
  sched/lib/string.c: the string routines that the kernel and the user programs share, in the
  variant with assembly (\<open>ASM\<close>).

  The memory is a function from 32-bit addresses to bytes, so pointers wrap around as in the
  code. A loop that waits for a terminator is a partial function: in a memory without one
  it has no result. Lengths are the number that the code holds in an \<open>int\<close>.
\<close>

type_synonym umem = "u32 \<Rightarrow> byte"

section \<open>Strings\<close>

partial_function (option) strlen_from :: "umem \<Rightarrow> u32 \<Rightarrow> nat \<Rightarrow> nat option" where
  "strlen_from m s n = (if m s \<noteq> 0 then strlen_from m (s + 1) (n + 1) else Some n)"

definition strlen :: "umem \<Rightarrow> u32 \<Rightarrow> nat option" where
  "strlen m s = strlen_from m s 0"

fun strnlen :: "umem \<Rightarrow> u32 \<Rightarrow> nat \<Rightarrow> nat" where
  "strnlen m s 0 = 0"
| "strnlen m s (Suc sz) = (if m s \<noteq> 0 then Suc (strnlen m (s + 1) sz) else 0)"

partial_function (option) strcpy_loop :: "umem \<Rightarrow> u32 \<Rightarrow> u32 \<Rightarrow> umem option" where
  "strcpy_loop m dst src =
     (let m1 = m(dst := m src) in
      if m src \<noteq> 0 then strcpy_loop m1 (dst + 1) (src + 1) else Some m1)"

definition strcpy :: "umem \<Rightarrow> u32 \<Rightarrow> u32 \<Rightarrow> (u32 \<times> umem) option" where
  "strcpy m dst src = map_option (\<lambda>m1. (dst, m1)) (strcpy_loop m dst src)"

definition strcat :: "umem \<Rightarrow> u32 \<Rightarrow> u32 \<Rightarrow> (u32 \<times> umem) option" where
  "strcat m dst src =
     (case strlen m dst of
        None \<Rightarrow> None
      | Some len \<Rightarrow> map_option (\<lambda>(_, m1). (dst, m1)) (strcpy m (dst + of_nat len) src))"

text \<open>The loop of \<open>strncpy\<close>, for the bytes that are left.\<close>

fun strncpy_loop :: "umem \<Rightarrow> u32 \<Rightarrow> u32 \<Rightarrow> nat \<Rightarrow> umem" where
  "strncpy_loop m dst src 0 = m"
| "strncpy_loop m dst src (Suc n) =
     (let m1 = m(dst := m src) in
      strncpy_loop m1 (dst + 1) (if m1 src \<noteq> 0 then src + 1 else src) n)"

definition strncpy :: "umem \<Rightarrow> u32 \<Rightarrow> u32 \<Rightarrow> nat \<Rightarrow> u32 \<times> umem" where
  "strncpy m dst src sz = (dst, strncpy_loop m dst src sz)"

text \<open>\<open>while (--size > 0 && *src != 0)\<close>: the argument is the size before the decrement.\<close>

fun strlcpy_loop :: "umem \<Rightarrow> u32 \<Rightarrow> u32 \<Rightarrow> nat \<Rightarrow> u32 \<times> umem" where
  "strlcpy_loop m dst src 0 = (dst, m)"
| "strlcpy_loop m dst src (Suc sz) =
     (if sz > 0 \<and> m src \<noteq> 0 then strlcpy_loop (m(dst := m src)) (dst + 1) (src + 1) sz else (dst, m))"

definition strlcpy :: "umem \<Rightarrow> u32 \<Rightarrow> u32 \<Rightarrow> nat \<Rightarrow> u32 \<times> umem" where
  "strlcpy m dst src sz =
     (if sz > 0
      then let (d, m1) = strlcpy_loop m dst src sz in (d - dst, m1(d := 0))
      else (dst - dst, m))"

partial_function (option) strcmp :: "umem \<Rightarrow> u32 \<Rightarrow> u32 \<Rightarrow> int option" where
  "strcmp m p q =
     (if m p \<noteq> 0 \<and> m p = m q then strcmp m (p + 1) (q + 1)
      else Some (int (unat (m p)) - int (unat (m q))))"

fun strncmp :: "umem \<Rightarrow> u32 \<Rightarrow> u32 \<Rightarrow> nat \<Rightarrow> int" where
  "strncmp m p q 0 = 0"
| "strncmp m p q (Suc n) =
     (if m p \<noteq> 0 \<and> m p = m q then strncmp m (p + 1) (q + 1) n
      else int (unat (m p)) - int (unat (m q)))"

text \<open>The null pointer is 0.\<close>

partial_function (option) strchr :: "umem \<Rightarrow> u32 \<Rightarrow> byte \<Rightarrow> u32 option" where
  "strchr m s c =
     (if m s \<noteq> 0 then (if m s = c then Some s else strchr m (s + 1) c) else Some 0)"

partial_function (option) strfind :: "umem \<Rightarrow> u32 \<Rightarrow> byte \<Rightarrow> u32 option" where
  "strfind m s c = (if m s \<noteq> 0 \<and> m s \<noteq> c then strfind m (s + 1) c else Some s)"

section \<open>Blocks of memory\<close>

text \<open>
  The string instructions: \<open>n\<close> times a byte or a word of four bytes, upwards (\<open>cld\<close>) or downwards
  (\<open>std\<close>). A word is read as a whole before it is written.
\<close>

definition long_at :: "umem \<Rightarrow> u32 \<Rightarrow> byte list" where
  "long_at m a = [m a, m (a + 1), m (a + 2), m (a + 3)]"

fun put_bytes :: "umem \<Rightarrow> u32 \<Rightarrow> byte list \<Rightarrow> umem" where
  "put_bytes m a [] = m"
| "put_bytes m a (b # bs) = put_bytes (m(a := b)) (a + 1) bs"

fun rep_stosb :: "umem \<Rightarrow> u32 \<Rightarrow> byte \<Rightarrow> nat \<Rightarrow> umem" where
  "rep_stosb m d c 0 = m"
| "rep_stosb m d c (Suc n) = rep_stosb (m(d := c)) (d + 1) c n"

definition long_bytes :: "u32 \<Rightarrow> byte list" where
  "long_bytes w = [ucast w, ucast (drop_bit 8 w), ucast (drop_bit 16 w), ucast (drop_bit 24 w)]"

fun rep_stosl :: "umem \<Rightarrow> u32 \<Rightarrow> u32 \<Rightarrow> nat \<Rightarrow> umem" where
  "rep_stosl m d w 0 = m"
| "rep_stosl m d w (Suc n) = rep_stosl (put_bytes m d (long_bytes w)) (d + 4) w n"

fun rep_movsb :: "bool \<Rightarrow> umem \<Rightarrow> u32 \<Rightarrow> u32 \<Rightarrow> nat \<Rightarrow> umem" where
  "rep_movsb up m d s 0 = m"
| "rep_movsb up m d s (Suc n) =
     rep_movsb up (m(d := m s)) (if up then d + 1 else d - 1) (if up then s + 1 else s - 1) n"

fun rep_movsl :: "bool \<Rightarrow> umem \<Rightarrow> u32 \<Rightarrow> u32 \<Rightarrow> nat \<Rightarrow> umem" where
  "rep_movsl up m d s 0 = m"
| "rep_movsl up m d s (Suc n) =
     rep_movsl up (put_bytes m d (long_at m s)) (if up then d + 4 else d - 4) (if up then s + 4 else s - 4) n"

definition memset :: "umem \<Rightarrow> u32 \<Rightarrow> u32 \<Rightarrow> u32 \<Rightarrow> umem" where
  "memset m v c n =
     (if n = 0 then m
      else if v mod 4 = 0 \<and> n mod 4 = 0 then
        let c1 = c AND 0xFF;
            c2 = push_bit 24 c1 OR push_bit 16 c1 OR push_bit 8 c1 OR c1
        in rep_stosl m v c2 (unat (n div 4))
      else rep_stosb m v (ucast c) (unat n))"

definition memmove :: "umem \<Rightarrow> u32 \<Rightarrow> u32 \<Rightarrow> u32 \<Rightarrow> umem" where
  "memmove m dst src n =
     (if src < dst \<and> src + n > dst then
        let s = src + n; d = dst + n in
        if s mod 4 = 0 \<and> d mod 4 = 0 \<and> n mod 4 = 0
        then rep_movsl False m (d - 4) (s - 4) (unat (n div 4))
        else rep_movsb False m (d - 1) (s - 1) (unat n)
      else
        if src mod 4 = 0 \<and> dst mod 4 = 0 \<and> n mod 4 = 0
        then rep_movsl True m dst src (unat (n div 4))
        else rep_movsb True m dst src (unat n))"

definition memcpy :: "umem \<Rightarrow> u32 \<Rightarrow> u32 \<Rightarrow> u32 \<Rightarrow> umem" where
  "memcpy m dst src n = memmove m dst src n"

fun memcmp :: "umem \<Rightarrow> u32 \<Rightarrow> u32 \<Rightarrow> nat \<Rightarrow> int" where
  "memcmp m s1 s2 0 = 0"
| "memcmp m s1 s2 (Suc n) =
     (if m s1 \<noteq> m s2 then int (unat (m s1)) - int (unat (m s2)) else memcmp m (s1 + 1) (s2 + 1) n)"

partial_function (option) memfind_until :: "umem \<Rightarrow> u32 \<Rightarrow> u32 \<Rightarrow> byte \<Rightarrow> u32 option" where
  "memfind_until m ends s c =
     (if s < ends \<and> m s \<noteq> c then memfind_until m ends (s + 1) c else Some s)"

definition memfind :: "umem \<Rightarrow> u32 \<Rightarrow> byte \<Rightarrow> u32 \<Rightarrow> u32 option" where
  "memfind m s c n = memfind_until m (s + n) s c"

section \<open>Numbers\<close>

partial_function (option) skip_blanks :: "umem \<Rightarrow> u32 \<Rightarrow> u32 option" where
  "skip_blanks m s = (if m s = 32 \<or> m s = 9 then skip_blanks m (s + 1) else Some s)"

definition digit_of :: "byte \<Rightarrow> int option" where
  "digit_of ch =
     (if ch \<ge> 48 \<and> ch \<le> 57 then Some (int (unat ch) - 48)
      else if ch \<ge> 97 \<and> ch \<le> 122 then Some (int (unat ch) - 97 + 10)
      else if ch \<ge> 65 \<and> ch \<le> 90 then Some (int (unat ch) - 65 + 10)
      else None)"

text \<open>The value has the width of \<open>long\<close>; the code does not detect its overflow.\<close>

partial_function (option) strtol_digits :: "umem \<Rightarrow> u32 \<Rightarrow> int \<Rightarrow> u32 \<Rightarrow> (u32 \<times> u32) option" where
  "strtol_digits m s base val =
     (case digit_of (m s) of
        None \<Rightarrow> Some (val, s)
      | Some dig \<Rightarrow>
          if dig \<ge> base then Some (val, s)
          else strtol_digits m (s + 1) base (val * of_int base + of_int dig))"

text \<open>The value and the position behind it.\<close>

definition strtol :: "umem \<Rightarrow> u32 \<Rightarrow> int \<Rightarrow> (u32 \<times> u32) option" where
  "strtol m s base =
     (case skip_blanks m s of
        None \<Rightarrow> None
      | Some s1 \<Rightarrow>
          let (s2, neg) = (if m s1 = 43 then (s1 + 1, False)
                           else if m s1 = 45 then (s1 + 1, True) else (s1, False));
              (s3, base1) = (if (base = 0 \<or> base = 16) \<and> m s2 = 48 \<and> m (s2 + 1) = 120 then (s2 + 2, 16)
                             else if base = 0 \<and> m s2 = 48 then (s2 + 1, 8)
                             else if base = 0 then (s2, 10)
                             else (s2, base))
          in map_option (\<lambda>(val, e). (if neg then - val else val, e)) (strtol_digits m s3 base1 0))"

end
