(* ===== verification/JosPrintf.thy ===== *)
theory JosPrintf
  imports JosString
begin

text \<open>
  sched/lib/printfmt.c: formatted output, for the kernel and the user programs. The character
  output \<open>putch\<close> is a parameter as in the code; it acts on a state of any type. The
  memory that the format and the strings are read from is \<open>rd\<close> of that state, because the
  output may go to a buffer in the same memory. The variable arguments are the 32-bit words
  on the stack; running out of them, and the overflow of an \<open>int\<close> (\<open>-err\<close>, a width in the format, the
  count of the characters), are \<open>None\<close>.
\<close>

abbreviation (input) chr :: "byte \<Rightarrow> u32" where "chr \<equiv> ucast"

section \<open>Numbers\<close>

definition digit_chars :: "byte list" where
  "digit_chars = [48, 49, 50, 51, 52, 53, 54, 55, 56, 57, 97, 98, 99, 100, 101, 102]"

definition pad :: "(u32 \<Rightarrow> 's \<Rightarrow> 's) \<Rightarrow> u32 \<Rightarrow> int \<Rightarrow> 's \<Rightarrow> 's" where
  "pad putch padc width s = ((putch padc) ^^ nat width) s"

partial_function (option) printnum ::
  "(u32 \<Rightarrow> 's \<Rightarrow> 's) \<Rightarrow> nat \<Rightarrow> nat \<Rightarrow> int \<Rightarrow> u32 \<Rightarrow> 's \<Rightarrow> 's option" where
  "printnum putch num base width padc s =
     (if base = 0 then None else do {
        s1 \<leftarrow> (if num \<ge> base then printnum putch (num div base) base (width - 1) padc s
               else Some (pad putch padc (width - 1) s));
        Some (putch (chr (digit_chars ! (num mod base))) s1)
      })"

text \<open>The next argument as an unsigned or signed number; \<open>long long\<close> takes two words.\<close>

definition getuint :: "u32 list \<Rightarrow> nat \<Rightarrow> (64 word \<times> u32 list) option" where
  "getuint ap lflag =
     (if lflag \<ge> 2
      then (case ap of lo # hi # rest \<Rightarrow> Some (push_bit 32 (ucast hi) OR ucast lo, rest) | _ \<Rightarrow> None)
      else (case ap of a # rest \<Rightarrow> Some (ucast a, rest) | _ \<Rightarrow> None))"

definition getint :: "u32 list \<Rightarrow> nat \<Rightarrow> (64 word \<times> u32 list) option" where
  "getint ap lflag =
     (if lflag \<ge> 2
      then (case ap of lo # hi # rest \<Rightarrow> Some (push_bit 32 (ucast hi) OR ucast lo, rest) | _ \<Rightarrow> None)
      else (case ap of a # rest \<Rightarrow> Some (scast a, rest) | _ \<Rightarrow> None))"

section \<open>Conversions\<close>

record fmt_spec =
  padc :: byte
  width :: int
  precision :: int
  lflag :: nat
  altflag :: bool

definition no_flags :: fmt_spec where
  "no_flags = \<lparr>padc = 32, width = -1, precision = -1, lflag = 0, altflag = False\<rparr>"

text \<open>The characters in front of the next conversion, and whether there is one.\<close>

partial_function (option) literal_text ::
  "('s \<Rightarrow> umem) \<Rightarrow> (u32 \<Rightarrow> 's \<Rightarrow> 's) \<Rightarrow> u32 \<Rightarrow> 's \<Rightarrow> (bool \<times> u32 \<times> 's) option" where
  "literal_text rd putch fmt s =
     (let ch = rd s fmt in
      if ch = 37 then Some (True, fmt + 1, s)
      else if ch = 0 then Some (False, fmt + 1, s)
      else literal_text rd putch (fmt + 1) (putch (chr ch) s))"

partial_function (option) width_field :: "umem \<Rightarrow> u32 \<Rightarrow> int \<Rightarrow> byte \<Rightarrow> (int \<times> u32) option" where
  "width_field m fmt p ch =
     (let p1 = p * 10 + int (unat ch) - 48; ch1 = m fmt in
      if p * 10 + int (unat ch) \<ge> 2 ^ 31 then None
      else if ch1 < 48 \<or> ch1 > 57 then Some (p1, fmt) else width_field m (fmt + 1) p1 ch1)"

definition process_precision :: "fmt_spec \<Rightarrow> fmt_spec" where
  "process_precision f = (if width f < 0 then f\<lparr>width := precision f, precision := -1\<rparr> else f)"

text \<open>What follows \<open>reswitch\<close>, up to the character of the conversion.\<close>

partial_function (option) flags ::
  "umem \<Rightarrow> u32 \<Rightarrow> fmt_spec \<Rightarrow> u32 list \<Rightarrow> (byte \<times> u32 \<times> fmt_spec \<times> u32 list) option" where
  "flags m fmt f ap =
     (let ch = m fmt; fmt1 = fmt + 1 in
      if ch = 45 \<or> ch = 48 then flags m fmt1 (f\<lparr>padc := ch\<rparr>) ap
      else if 49 \<le> ch \<and> ch \<le> 57 then
        (case width_field m fmt1 0 ch of
           None \<Rightarrow> None
         | Some r \<Rightarrow> flags m (snd r) (process_precision (f\<lparr>precision := fst r\<rparr>)) ap)
      else if ch = 42 then
        (case ap of
           [] \<Rightarrow> None
         | a # rest \<Rightarrow> flags m fmt1 (process_precision (f\<lparr>precision := sint a\<rparr>)) rest)
      else if ch = 46 then flags m fmt1 (if width f < 0 then f\<lparr>width := 0\<rparr> else f) ap
      else if ch = 35 then flags m fmt1 (f\<lparr>altflag := True\<rparr>) ap
      else if ch = 108 then flags m fmt1 (f\<lparr>lflag := lflag f + 1\<rparr>) ap
      else Some (ch, fmt1, f, ap))"

text \<open>The loop over the characters of a string, with the width that is left.\<close>

partial_function (option) string_chars ::
  "('s \<Rightarrow> umem) \<Rightarrow> (u32 \<Rightarrow> 's \<Rightarrow> 's) \<Rightarrow> u32 \<Rightarrow> int \<Rightarrow> int \<Rightarrow> bool \<Rightarrow> 's \<Rightarrow> (int \<times> 's) option" where
  "string_chars rd putch p w pr alt s =
     (let ch = rd s p in
      if ch \<noteq> 0 \<and> (pr < 0 \<or> pr - 1 \<ge> 0)
      then string_chars rd putch (p + 1) (w - 1) (if pr < 0 then pr else pr - 1) alt
             (putch (if alt \<and> (scast ch <s (32 :: u32) \<or> (126 :: u32) <s scast ch) then 63 else scast ch) s)
      else Some (w, s))"

definition null_text :: umem where
  "null_text a = (if unat a < 6 then [40, 110, 117, 108, 108, 41] ! unat a else 0)"

definition fmt_string ::
  "('s \<Rightarrow> umem) \<Rightarrow> (u32 \<Rightarrow> 's \<Rightarrow> 's) \<Rightarrow> fmt_spec \<Rightarrow> u32 \<Rightarrow> 's \<Rightarrow> 's option" where
  "fmt_string rd putch f p s = do {
     let rd1 = (if p = 0 then (\<lambda>_. null_text) else rd);
     let w = (if width f > 0 \<and> padc f \<noteq> 45
              then width f - int (strnlen (rd1 s) p (unat (of_int (precision f) :: u32))) else width f);
     let padded = width f > 0 \<and> padc f \<noteq> 45;
     let s1 = (if padded then pad putch (scast (padc f)) w s else s);
     (w2, s2) \<leftarrow> string_chars rd1 putch p (if padded then min w 0 else w) (precision f) (altflag f) s1;
     Some (pad putch 32 w2 s2)
   }"

definition chars_of :: "string \<Rightarrow> u32 list" where
  "chars_of cs = map (\<lambda>c. of_nat (of_char c)) cs"

definition put_all :: "(u32 \<Rightarrow> 's \<Rightarrow> 's) \<Rightarrow> u32 list \<Rightarrow> 's \<Rightarrow> 's" where
  "put_all putch cs s = fold putch cs s"

definition error_string :: "(string option) list" where
  "error_string = [None, Some ''unspecified error'', Some ''bad environment'', Some ''invalid parameter'',
     Some ''out of memory'', Some ''out of environments'', Some ''segmentation fault'',
     Some ''env is not recving'', Some ''unexpected end of file'']"

text \<open>A decimal number with the sign in front.\<close>

definition fmt_signed :: "(u32 \<Rightarrow> 's \<Rightarrow> 's) \<Rightarrow> 64 word \<Rightarrow> int \<Rightarrow> u32 \<Rightarrow> 's \<Rightarrow> 's option" where
  "fmt_signed putch num w pc s =
     (if num <s 0 then printnum putch (unat (- num)) 10 w pc (putch 45 s)
      else printnum putch (unat num) 10 w pc s)"

text \<open>\<open>%e\<close> formats its text with \<open>%s\<close>, or the number with \<open>error %d\<close>.\<close>

definition fmt_error :: "(u32 \<Rightarrow> 's \<Rightarrow> 's) \<Rightarrow> u32 \<Rightarrow> 's \<Rightarrow> 's option" where
  "fmt_error putch a s =
     (let e = abs (sint a) in
      if e = 2 ^ 31 then None
      else if nat e < length error_string \<and> error_string ! nat e \<noteq> None
      then Some (put_all putch (chars_of (the (error_string ! nat e))) s)
      else fmt_signed putch (of_int e) (-1) 32 (put_all putch (chars_of ''error '') s))"

text \<open>Back to the character behind the last percent sign.\<close>

partial_function (option) rewind :: "umem \<Rightarrow> u32 \<Rightarrow> u32 option" where
  "rewind m fmt = (if m (fmt - 1) \<noteq> 37 then rewind m (fmt - 1) else Some fmt)"

text \<open>One conversion: the position in the format, the arguments that are left and the state.\<close>

definition convert ::
  "('s \<Rightarrow> umem) \<Rightarrow> (u32 \<Rightarrow> 's \<Rightarrow> 's) \<Rightarrow> byte \<Rightarrow> u32 \<Rightarrow> fmt_spec \<Rightarrow> u32 list \<Rightarrow> 's \<Rightarrow>
     (u32 \<times> u32 list \<times> 's) option" where
  "convert rd putch ch fmt f ap s =
     (if ch = 99 then (case ap of [] \<Rightarrow> None | a # rest \<Rightarrow> Some (fmt, rest, putch a s))
      else if ch = 101 then (case ap of [] \<Rightarrow> None
        | a # rest \<Rightarrow> map_option (\<lambda>s1. (fmt, rest, s1)) (fmt_error putch a s))
      else if ch = 115 then (case ap of [] \<Rightarrow> None
        | a # rest \<Rightarrow> map_option (\<lambda>s1. (fmt, rest, s1)) (fmt_string rd putch f a s))
      else if ch = 100 then do {
        (num, rest) \<leftarrow> getint ap (lflag f);
        s1 \<leftarrow> fmt_signed putch num (width f) (scast (padc f)) s;
        Some (fmt, rest, s1)
      }
      else if ch = 117 \<or> ch = 111 \<or> ch = 120 then do {
        (num, rest) \<leftarrow> getuint ap (lflag f);
        s1 \<leftarrow> printnum putch (unat num) (if ch = 117 then 10 else if ch = 111 then 8 else 16) (width f) (scast (padc f)) s;
        Some (fmt, rest, s1)
      }
      else if ch = 112 then (case ap of [] \<Rightarrow> None
        | a # rest \<Rightarrow> map_option (\<lambda>s1. (fmt, rest, s1))
            (printnum putch (unat a) 16 (width f) (scast (padc f)) (putch 120 (putch 48 s))))
      else if ch = 37 then Some (fmt, ap, putch (chr ch) s)
      else do {
        let s1 = putch 37 s;
        fmt1 \<leftarrow> rewind (rd s1) (fmt - 1);
        Some (fmt1, ap, s1)
      })"

section \<open>vprintfmt\<close>

partial_function (option) vprintfmt ::
  "('s \<Rightarrow> umem) \<Rightarrow> (u32 \<Rightarrow> 's \<Rightarrow> 's) \<Rightarrow> u32 \<Rightarrow> u32 list \<Rightarrow> 's \<Rightarrow> 's option" where
  "vprintfmt rd putch fmt ap s =
     (case literal_text rd putch fmt s of
        None \<Rightarrow> None
      | Some (again, fmt1, s1) \<Rightarrow>
          if \<not> again then Some s1
          else (case flags (rd s1) fmt1 no_flags ap of
              None \<Rightarrow> None
            | Some (ch, fmt2, f, ap1) \<Rightarrow>
                (case convert rd putch ch fmt2 f ap1 s1 of
                   None \<Rightarrow> None
                 | Some (fmt3, ap2, s2) \<Rightarrow> vprintfmt rd putch fmt3 ap2 s2)))"

section \<open>vsnprintf\<close>

record sprintbuf =
  buf :: u32
  ebuf :: u32
  cnt :: int
  text_mem :: umem

definition sprintputch :: "u32 \<Rightarrow> sprintbuf \<Rightarrow> sprintbuf" where
  "sprintputch ch b =
     (let b1 = b\<lparr>cnt := cnt b + 1\<rparr> in
      if buf b1 < ebuf b1
      then b1\<lparr>text_mem := (text_mem b1)(buf b1 := ucast ch), buf := buf b1 + 1\<rparr> else b1)"

text \<open>The result, or \<open>-E_INVAL\<close>, and the memory.\<close>

definition vsnprintf :: "umem \<Rightarrow> u32 \<Rightarrow> int \<Rightarrow> u32 \<Rightarrow> u32 list \<Rightarrow> (int \<times> umem) option" where
  "vsnprintf m bf n fmt ap =
     (let b = \<lparr>buf = bf, ebuf = bf + of_int n - 1, cnt = 0, text_mem = m\<rparr> in
      if bf = 0 \<or> n < 1 then Some (- 3, m)
      else do {
        b1 \<leftarrow> vprintfmt text_mem sprintputch fmt ap b;
        if cnt b1 \<ge> 2 ^ 31 then None else Some (cnt b1, (text_mem b1)(buf b1 := 0))
      })"

section \<open>Console output of a user program\<close>

text \<open>
  sched/lib/printf.c collects characters and prints them with \<open>sys_cputs\<close>, 255 at most at a time.
  The calls are a list of the printed pieces, the latest first.
\<close>

record printbuf =
  idx :: nat
  p_cnt :: int
  p_buf :: "byte list"
  printed :: "byte list list"
  p_mem :: umem

definition putch :: "u32 \<Rightarrow> printbuf \<Rightarrow> printbuf" where
  "putch ch b =
     (let b1 = b\<lparr>p_buf := (p_buf b)[idx b := ucast ch], idx := idx b + 1\<rparr>;
          b2 = (if idx b1 = 256 - 1 then b1\<lparr>printed := take (idx b1) (p_buf b1) # printed b1, idx := 0\<rparr> else b1)
      in b2\<lparr>p_cnt := p_cnt b2 + 1\<rparr>)"

definition vcprintf :: "umem \<Rightarrow> byte list \<Rightarrow> u32 \<Rightarrow> u32 list \<Rightarrow> (int \<times> byte list list) option" where
  "vcprintf m garbage fmt ap = do {
     b \<leftarrow> vprintfmt p_mem putch fmt ap
       \<lparr>idx = 0, p_cnt = 0, p_buf = garbage, printed = [], p_mem = m\<rparr>;
     if p_cnt b \<ge> 2 ^ 31 then None else Some (p_cnt b, rev (take (idx b) (p_buf b) # printed b))
   }"

end
