(* ===== verification/JosStringSpec.thy ===== *)
theory JosStringSpec
  imports JosString
begin

text \<open>
  What the string routines compute: moves and fills of any length, alignment and overlap are
  those of whole blocks, bounded copies end inside their buffer, and numbers are read back.
\<close>

section \<open>Blocks\<close>

text \<open>The memory with the block of \<open>n\<close> bytes at \<open>s\<close> also at \<open>d\<close>, and a block filled with \<open>c\<close>.\<close>

definition moved :: "umem \<Rightarrow> u32 \<Rightarrow> u32 \<Rightarrow> nat \<Rightarrow> umem" where
  "moved m d s n = (\<lambda>a. if unat (a - d) < n then m (s + (a - d)) else m a)"

definition filled :: "umem \<Rightarrow> u32 \<Rightarrow> byte \<Rightarrow> nat \<Rightarrow> umem" where
  "filled m d c n = (\<lambda>a. if unat (a - d) < n then c else m a)"

lemma unat_pred: "(x :: u32) \<noteq> 0 \<Longrightarrow> unat (x - 1) = unat x - 1"
  by (simp add: unat_minus_one)

lemma unat_step: "(a :: u32) \<noteq> d \<Longrightarrow> unat (a - (d + 1)) < n \<longleftrightarrow> unat (a - d) < Suc n"
  using unat_pred [of "a - d"] unat_gt_0 [of "a - d"] by (auto simp: algebra_simps)

lemma unat_behind: "Suc n \<le> 2 ^ 32 \<Longrightarrow> \<not> unat (d - (d + 1 :: u32)) < n"
  by (simp add: unsigned_minus_1_eq_mask mask_eq_exp_minus_1)

lemma rep_stosb_filled: "n \<le> 2 ^ 32 \<Longrightarrow> rep_stosb m d c n = filled m d c n"
proof (induction n arbitrary: m d)
  case 0
  show ?case by (simp add: filled_def)
next
  case (Suc n)
  have "filled (m(d := c)) (d + 1) c n a = filled m d c (Suc n) a" for a
    using unat_behind [of n d] unat_step [of a d n] Suc.prems
    by (cases "a = d") (simp_all add: filled_def)
  then show ?case using Suc by (simp add: ext)
qed

lemma rep_movsb_up:
  assumes "n \<le> 2 ^ 32" "d = s \<or> n \<le> unat (d - s)"
  shows "rep_movsb True m d s n = moved m d s n"
  using assms
proof (induction n arbitrary: m d s)
  case 0
  show ?case by (simp add: moved_def)
next
  case (Suc n)
  have "moved (m(d := m s)) (d + 1) (s + 1) n a = moved m d s (Suc n) a" for a
  proof (cases "a = d")
    case True
    then show ?thesis using unat_behind [of n d] Suc.prems(1) by (simp add: moved_def)
  next
    case False
    have "s + (a - d) \<noteq> d" if "unat (a - d) < Suc n"
    proof
      assume "s + (a - d) = d"
      then have "a - d = d - s" by (simp add: algebra_simps)
      with that Suc.prems(2) False show False by auto
    qed
    then show ?thesis using unat_step [OF False, of n] False by (simp add: moved_def algebra_simps)
  qed
  moreover have "rep_movsb True (m(d := m s)) (d + 1) (s + 1) n = moved (m(d := m s)) (d + 1) (s + 1) n"
    using Suc.prems by (intro Suc.IH) auto
  ultimately show ?case by (simp add: ext)
qed

lemma unat_sum_ne:
  fixes x y :: u32
  assumes "n < unat x" "unat y < n" "n \<le> 2 ^ 32"
  shows "x + y \<noteq> of_nat n"
proof
  assume e: "x + y = of_nat n"
  have x: "unat x < 2 ^ 32" using unsigned_less [of x] by simp
  then have "unat (of_nat n :: u32) = n" using assms by (simp add: unat_of_nat)
  moreover have "unat (x + y) = (unat x + unat y) mod 2 ^ 32" by (simp add: unat_word_ariths)
  ultimately have "(unat x + unat y) mod 2 ^ 32 = n" using e by simp
  then show False using assms x by (auto simp: mod_if split: if_splits)
qed

lemma rep_movsb_down:
  assumes "n \<le> 2 ^ 32" "d = s \<or> n \<le> unat (s - d)"
  shows "rep_movsb False m (d + of_nat n - 1) (s + of_nat n - 1) n = moved m d s n"
  using assms
proof (induction n arbitrary: m)
  case 0
  show ?case by (simp add: moved_def)
next
  case (Suc n)
  let ?d = "d + of_nat n" and ?s = "s + of_nat n"
  have n: "unat (of_nat n :: u32) = n" using Suc.prems(1) by (simp add: unat_of_nat)
  have "moved (m(?d := m ?s)) d s n a = moved m d s (Suc n) a" for a
  proof (cases "a = ?d")
    case True
    then show ?thesis using n by (simp add: moved_def)
  next
    case False
    have ne: "unat (a - d) \<noteq> n"
    proof
      assume "unat (a - d) = n"
      then have "a - d = of_nat n" by auto
      with False show False by (simp add: algebra_simps)
    qed
    have "s + (a - d) \<noteq> ?d" if "unat (a - d) < n"
    proof
      assume e: "s + (a - d) = ?d"
      then have "(s - d) + (a - d) = of_nat n" by (simp add: algebra_simps)
      with unat_sum_ne [of n "s - d" "a - d"] that Suc.prems e False show False by auto
    qed
    then show ?thesis using ne False by (auto simp: moved_def less_Suc_eq)
  qed
  then have "moved (m(?d := m ?s)) d s n = moved m d s (Suc n)" by (rule ext)
  moreover have "rep_movsb False (m(?d := m ?s)) (?d - 1) (?s - 1) n = moved (m(?d := m ?s)) d s n"
    using Suc.prems by (intro Suc.IH) auto
  ultimately show ?case by (simp add: algebra_simps)
qed

text \<open>Words move like their bytes when the distance is a multiple of four.\<close>

lemma not_mod_4:
  assumes "(x :: u32) mod 4 = 0"
  shows "x \<noteq> 1" "x \<noteq> 2" "x \<noteq> 3"
proof -
  have "(1 :: u32) mod 4 = 1" "(2 :: u32) mod 4 = 2" "(3 :: u32) mod 4 = 3" "(1 :: u32) \<noteq> 0" "(2 :: u32) \<noteq> 0" "(3 :: u32) \<noteq> 0"
    by simp_all
  then show "x \<noteq> 1" "x \<noteq> 2" "x \<noteq> 3" using assms by metis+
qed

lemma four_Suc: "4 * Suc n = Suc (Suc (Suc (Suc (4 * n))))"
  by simp

lemma movsb_4_up:
  assumes "(d - s) mod 4 = 0"
  shows "rep_movsb True m d s (Suc (Suc (Suc (Suc n)))) = rep_movsb True (put_bytes m d (long_at m s)) (d + 4) (s + 4) n"
proof -
  have "s + 1 \<noteq> d" "s + 2 \<noteq> d" "s + 3 \<noteq> d" "s + 2 \<noteq> d + 1" "s + 3 \<noteq> d + 1" "s + 3 \<noteq> d + 2"
    using not_mod_4(1-3) [OF assms] by (auto simp: algebra_simps)
  then show ?thesis by (simp add: long_at_def add.assoc)
qed

lemma movsb_4_down:
  assumes "(s - d) mod 4 = 0"
  shows "rep_movsb False m (d + 3) (s + 3) (Suc (Suc (Suc (Suc n)))) =
    rep_movsb False (put_bytes m d (long_at m s)) (d - 1) (s - 1) n"
proof -
  have "d + 1 \<noteq> s" "d + 2 \<noteq> s" "d + 3 \<noteq> s" "d + 2 \<noteq> s + 1" "d + 3 \<noteq> s + 1" "d + 3 \<noteq> s + 2"
    using not_mod_4 [OF assms] by (auto simp: algebra_simps)
  moreover have "put_bytes m d (long_at m s) = m(d + 3 := m (s + 3), d + 2 := m (s + 2), d + 1 := m (s + 1), d := m s)"
    by (auto simp: long_at_def add.assoc)
  ultimately show ?thesis by (simp add: diff_diff_eq2 [symmetric])
qed

lemma movsl_up: "(d - s) mod 4 = 0 \<Longrightarrow> rep_movsl True m d s n = rep_movsb True m d s (4 * n)"
proof (induction n arbitrary: m d s)
  case (Suc n)
  then have "rep_movsl True m d s (Suc n) = rep_movsb True (put_bytes m d (long_at m s)) (d + 4) (s + 4) (4 * n)"
    by simp
  also have "\<dots> = rep_movsb True m d s (4 * Suc n)"
    unfolding four_Suc by (rule movsb_4_up [OF Suc.prems, symmetric])
  finally show ?case .
qed simp

lemma movsl_down: "(s - d) mod 4 = 0 \<Longrightarrow> rep_movsl False m (d - 4) (s - 4) n = rep_movsb False m (d - 1) (s - 1) (4 * n)"
proof (induction n arbitrary: m d s)
  case (Suc n)
  have diff: "(s - 4 - (d - 4)) mod 4 = 0" using Suc.prems by simp
  have "rep_movsl False m (d - 4) (s - 4) (Suc n) =
      rep_movsb False (put_bytes m (d - 4) (long_at m (s - 4))) (d - 4 - 1) (s - 4 - 1) (4 * n)"
    using Suc.IH [OF diff] by simp
  also have "\<dots> = rep_movsb False m (d - 4 + 3) (s - 4 + 3) (4 * Suc n)"
    unfolding four_Suc by (rule movsb_4_down [OF diff, symmetric])
  finally show ?case by (simp del: rep_movsb.simps)
qed simp

lemma mod_4_diff:
  assumes "(d :: u32) mod 4 = 0" "s mod 4 = 0"
  shows "(d - s) mod 4 = 0"
proof -
  have "uint (d - s) mod 4 = (uint d - uint s) mod 2 ^ 32 mod 4" by (simp add: uint_word_ariths)
  also have "\<dots> = (uint d - uint s) mod 4" by (rule mod_mod_cancel) simp
  also have "\<dots> = 0"
  proof -
    have "uint d mod 4 = 0" "uint s mod 4 = 0" using assms uint_mod [of d 4] uint_mod [of s 4] by simp_all
    then show ?thesis by (simp add: mod_diff_eq [symmetric])
  qed
  finally have "uint ((d - s) mod 4) = 0" by (simp add: uint_mod)
  then show ?thesis by (simp only: uint_0_iff)
qed

lemma unat_le32: "unat (n :: u32) \<le> 2 ^ 32"
proof -
  have "unat n < 2 ^ LENGTH(32)" by (rule unsigned_less)
  then show ?thesis by simp
qed

lemma four_times_div: "(n :: u32) mod 4 = 0 \<Longrightarrow> 4 * unat (n div 4) = unat n"
proof -
  assume "n mod 4 = 0"
  then have "unat n mod 4 = 0" using unat_mod [of n 4] by simp
  then show ?thesis using mult_div_mod_eq [of 4 "unat n"] by (simp add: unat_div)
qed

text \<open>The two directions of \<open>memmove\<close>, by words or by bytes.\<close>

lemma move_up:
  fixes n :: u32
  assumes "d = s \<or> unat n \<le> unat (d - s)"
  shows "(if s mod 4 = 0 \<and> d mod 4 = 0 \<and> n mod 4 = 0 then rep_movsl True m d s (unat (n div 4))
          else rep_movsb True m d s (unat n)) = moved m d s (unat n)"
  using rep_movsb_up [of "unat n" d s m] assms unat_le32 [of n]
  by (simp add: movsl_up mod_4_diff four_times_div)

lemma move_down:
  fixes n :: u32
  assumes "d = s \<or> unat n \<le> unat (s - d)"
  shows "(if (s + n) mod 4 = 0 \<and> (d + n) mod 4 = 0 \<and> n mod 4 = 0
          then rep_movsl False m (d + n - 4) (s + n - 4) (unat (n div 4))
          else rep_movsb False m (d + n - 1) (s + n - 1) (unat n)) = moved m d s (unat n)"
proof -
  have "rep_movsb False m (d + n - 1) (s + n - 1) (unat n) = moved m d s (unat n)"
    using rep_movsb_down [of "unat n" d s m] assms unat_le32 [of n] by simp
  moreover have "(s + n) mod 4 = 0 \<Longrightarrow> (d + n) mod 4 = 0 \<Longrightarrow> (s + n - (d + n)) mod 4 = 0" by (rule mod_4_diff)
  ultimately show ?thesis by (simp add: movsl_down four_times_div)
qed

text \<open>
  C31. \<open>memmove\<close> copies the block as it was before the call, whatever the two blocks share and however
  they are aligned, and changes no byte outside of the target.
\<close>

theorem memmove_copies:
  assumes "unat src + unat n \<le> 2 ^ 32" "unat dst + unat n \<le> 2 ^ 32"
  shows "memmove m dst src n = moved m dst src (unat n)"
proof (cases "src < dst \<and> src + n > dst")
  case True
  then have "unat (src - dst) = 2 ^ 32 - (unat dst - unat src)"
    by (simp add: word_less_nat_alt unat_sub_if_size word_size)
  then have "unat n \<le> unat (src - dst)" using assms(2) by simp
  then show ?thesis using True move_down [of dst src n m] unfolding memmove_def by (simp add: Let_def)
next
  case False
  have "dst = src \<or> unat n \<le> unat (dst - src)"
  proof (cases "src < dst")
    case True
    then have d: "unat (dst - src) = unat dst - unat src" by (simp add: word_less_nat_alt unat_sub_if_size)
    have "\<not> unat dst < unat src + unat n"
    proof
      assume l: "unat dst < unat src + unat n"
      have "unat src + unat n < 2 ^ 32 \<or> unat n = 2 ^ 32 - unat src" using assms(1) by linarith
      then show False
      proof
        assume "unat src + unat n < 2 ^ 32"
        then have "unat (src + n) = unat src + unat n" by (simp add: unat_word_ariths)
        with l True False show False by (simp add: word_less_nat_alt)
      next
        assume "unat n = 2 ^ 32 - unat src"
        with assms(2) True show False by (simp add: word_less_nat_alt)
      qed
    qed
    then show ?thesis using d by linarith
  next
    case le: False
    show ?thesis
    proof (cases "dst = src")
      case False
      then have "unat dst < unat src" using le by (simp add: word_less_nat_alt word_unat_eq_iff)
      then have "unat (dst - src) = 2 ^ 32 - (unat src - unat dst)" by (simp add: unat_sub_if_size word_size)
      then show ?thesis using assms(1) by linarith
    qed simp
  qed
  then show ?thesis using False move_up [of dst src n m] unfolding memmove_def by auto
qed

theorem memmove_copies_witness:
  "memmove (\<lambda>a. ucast a) 0x1004 0x1000 8 = moved (\<lambda>a. ucast a) 0x1004 0x1000 8"
  using memmove_copies [of "0x1000" 8 "0x1004" "\<lambda>a. ucast a"] by simp

text \<open>\<open>memset\<close> fills the block with the low byte of its argument, by words or by bytes.\<close>

lemma long_of_byte:
  fixes c :: u32
  defines "c1 \<equiv> c AND 0xFF"
  shows "long_bytes (push_bit 24 c1 OR push_bit 16 c1 OR push_bit 8 c1 OR c1) = [ucast c, ucast c, ucast c, ucast c]"
proof -
  have c1: "c1 = take_bit 8 c" by (simp add: c1_def take_bit_eq_mask mask_eq_exp_minus_1)
  show ?thesis
    unfolding long_bytes_def c1 list.inject
    by (intro conjI refl; rule bit_word_eqI; simp add: bit_simps; linarith)
qed

lemma stosl_stosb: "long_bytes w = [c, c, c, c] \<Longrightarrow> rep_stosl m d w n = rep_stosb m d c (4 * n)"
  by (induction n arbitrary: m d) (simp_all add: add.assoc eval_nat_numeral)

lemma memset_fills: "memset m v c n = filled m v (ucast c) (unat n)"
proof -
  have "rep_stosb m v (ucast c) (unat n) = filled m v (ucast c) (unat n)"
    using unat_le32 [of n] by (intro rep_stosb_filled)
  moreover have "n = 0 \<Longrightarrow> filled m v (ucast c) (unat n) = m" by (simp add: filled_def)
  ultimately show ?thesis
    unfolding memset_def Let_def stosl_stosb [OF long_of_byte] using four_times_div [of n] by (simp split: if_split)
qed

section \<open>Bounded copies\<close>

lemma strnlen_le: "strnlen m s n \<le> n"
  by (induction n arbitrary: s) (simp_all add: le_SucI)

lemma strnlen_cong: "(\<And>i. i < n \<Longrightarrow> m' (s + of_nat i) = m (s + of_nat i)) \<Longrightarrow> strnlen m' s n = strnlen m s n"
proof (induction n arbitrary: s)
  case (Suc n)
  have "m' s = m s" using Suc.prems [of 0] by simp
  moreover have "strnlen m' (s + 1) n = strnlen m (s + 1) n"
    using Suc.prems [of "Suc i" for i] by (intro Suc.IH) (simp add: add.assoc)
  ultimately show ?case by simp
qed simp

lemma strlcpy_loop_copies:
  assumes "sz < 2 ^ 32" "d = s \<or> sz \<le> unat (d - s)"
  shows "strlcpy_loop m d s (Suc sz) = (d + of_nat (strnlen m s sz), rep_movsb True m d s (strnlen m s sz))"
  using assms
proof (induction sz arbitrary: m d s)
  case (Suc sz)
  let ?m = "m(d := m s)"
  have "?m (s + 1 + of_nat i) = m (s + 1 + of_nat i)" if "i < sz" for i
  proof -
    have i: "unat (of_nat (Suc i) :: u32) = Suc i" using that Suc.prems(1) by (subst unat_of_nat) simp
    have "s + of_nat (Suc i) = d \<Longrightarrow> d = s"
      using Suc.prems(2) that i by (metis Suc_less_eq add_diff_cancel_left' not_le)
    moreover have "of_nat (Suc i) \<noteq> (0 :: u32)" using i by (metis unat_0 nat.distinct(1))
    ultimately have "s + of_nat (Suc i) \<noteq> d" by auto
    then show ?thesis by (simp add: add.assoc)
  qed
  then have "strnlen ?m (s + 1) sz = strnlen m (s + 1) sz" by (rule strnlen_cong)
  moreover have "strlcpy_loop ?m (d + 1) (s + 1) (Suc sz) =
      (d + 1 + of_nat (strnlen ?m (s + 1) sz), rep_movsb True ?m (d + 1) (s + 1) (strnlen ?m (s + 1) sz))"
    using Suc.prems by (intro Suc.IH) auto
  ultimately show ?case by (simp add: add.assoc)
qed simp

text \<open>
  \<open>strlcpy\<close> copies the string up to one byte less than the size of the buffer, terminates the copy
  inside of the buffer, returns its length and changes nothing else.
\<close>

theorem strlcpy_truncates:
  fixes m :: umem
  assumes "0 < sz" "sz \<le> 2 ^ 32" "dst = src \<or> sz \<le> unat (dst - src)"
  defines "k \<equiv> strnlen m src (sz - 1)"
  shows "strlcpy m dst src sz = (of_nat k, (moved m dst src k)(dst + of_nat k := 0)) \<and> k < sz"
proof -
  obtain n where n: "sz = Suc n" using assms(1) by (cases sz) auto
  have k: "k \<le> n" unfolding k_def n using strnlen_le [of m src n] by simp
  have "rep_movsb True m dst src k = moved m dst src k"
    using assms(2,3) k n by (intro rep_movsb_up) auto
  moreover have "strlcpy_loop m dst src (Suc n) = (dst + of_nat k, rep_movsb True m dst src k)"
    using strlcpy_loop_copies [of n dst src m] assms(2,3) by (auto simp: n k_def)
  ultimately show ?thesis using k by (simp add: strlcpy_def n)
qed

definition three_letters :: umem where "three_letters a = (if a < 3 then 65 else 0)"

lemma three_letters_length: "strnlen three_letters 0 2 = 2"
proof -
  have "strnlen three_letters 0 (Suc (Suc 0)) = Suc (Suc 0)" by (simp add: three_letters_def)
  then show ?thesis by (simp only: numeral_2_eq_2)
qed

theorem strlcpy_truncates_witness:
  "strlcpy three_letters 0x100 0 3 = (of_nat 2, (moved three_letters 0x100 0 2)(0x100 + of_nat 2 := 0)) \<and> 2 < (3 :: nat)"
proof -
  have "3 - 1 = (2 :: nat)" by simp
  then show ?thesis
    using strlcpy_truncates [of 3 "0x100" 0 three_letters] by (simp only: three_letters_length) simp
qed

end
