(* ===== verification/JosPrintfSpec.thy ===== *)
theory JosPrintfSpec
  imports JosPrintf JosStringSpec
begin

text \<open>
  What formatted output does: outputs that correspond for one character correspond for a whole format, so
  that a bounded buffer shows the beginning of the text that an unbounded output gets; numbers
  are printed in their base and are read back by \<open>strtol\<close>.
\<close>

section \<open>Numbers\<close>

text \<open>The digits of a number in a base, the most significant first, and the number of a list of digits.\<close>

function digits_of :: "nat \<Rightarrow> nat \<Rightarrow> nat list" where
  "digits_of base num = (if base < 2 \<or> num < base then [num] else digits_of base (num div base) @ [num mod base])"
  by pat_completeness auto
termination
  by (relation "measure snd") auto

declare digits_of.simps [simp del]

definition number_of :: "nat \<Rightarrow> nat list \<Rightarrow> nat" where
  "number_of base ds = foldl (\<lambda>v d. v * base + d) 0 ds"

lemma number_of_digits: "2 \<le> base \<Longrightarrow> number_of base (digits_of base num) = num"
proof (induction base num rule: digits_of.induct)
  case (1 base num)
  show ?case
  proof (cases "num < base")
    case True
    then show ?thesis by (simp add: digits_of.simps [of base num] number_of_def)
  next
    case False
    then have "number_of base (digits_of base (num div base)) = num div base" using 1 by simp
    then show ?thesis using False 1(2) by (simp add: digits_of.simps [of base num] number_of_def)
  qed
qed

lemma digits_less: "2 \<le> base \<Longrightarrow> d \<in> set (digits_of base num) \<Longrightarrow> d < base"
proof (induction base num rule: digits_of.induct)
  case (1 base num)
  then show ?case
    by (cases "num < base") (auto simp: digits_of.simps [of base num])
qed

definition digit_text :: "nat \<Rightarrow> nat \<Rightarrow> u32 list" where
  "digit_text base num = map (\<lambda>d. chr (digit_chars ! d)) (digits_of base num)"

lemma put_all_simps [simp]:
  "put_all put [] s = s" "put_all put (c # cs) s = put_all put cs (put c s)"
  "put_all put (cs @ cs') s = put_all put cs' (put_all put cs s)"
  by (simp_all add: put_all_def)

text \<open>The number is padded to the width and printed digit by digit.\<close>

lemma printnum_digits:
  assumes "2 \<le> base"
  shows "printnum put num base w c s =
    Some (put_all put (digit_text base num) (pad put c (w - int (length (digits_of base num))) s))"
  using assms
proof (induction base num arbitrary: w rule: digits_of.induct)
  case (1 base num)
  show ?case
  proof (cases "num < base")
    case True
    then show ?thesis
      using 1(2) by (subst printnum.simps) (simp add: digits_of.simps [of base num] digit_text_def)
  next
    case False
    have "printnum put (num div base) base (w - 1) c s =
        Some (put_all put (digit_text base (num div base))
          (pad put c (w - 1 - int (length (digits_of base (num div base)))) s))"
      using 1 False by simp
    then show ?thesis
      using 1(2) False
      by (subst printnum.simps) (simp add: digits_of.simps [of base num] digit_text_def algebra_simps)
  qed
qed

lemma digits_length: "num < 10 ^ k \<Longrightarrow> 0 < k \<Longrightarrow> length (digits_of 10 num) \<le> k"
proof (induction k arbitrary: num)
  case (Suc k)
  show ?case
  proof (cases "num < 10 \<or> k = 0")
    case True
    then show ?thesis using Suc.prems by (auto simp: digits_of.simps [of 10 num])
  next
    case False
    then have "length (digits_of 10 (num div 10)) \<le> k"
      using Suc.prems by (intro Suc.IH) (simp_all add: less_mult_imp_div_less algebra_simps)
    then show ?thesis using False by (simp add: digits_of.simps [of 10 num])
  qed
qed simp

section \<open>Outputs that show the same text\<close>

text \<open>
  Two outputs, with the states of the second one a function of those of the first, and the
  same memory seen through both: a whole format then ends in corresponding states, and ends with
  one when it does with the other.
\<close>

locale output_view =
  fixes put1 :: "u32 \<Rightarrow> 's \<Rightarrow> 's"
    and rd1 :: "'s \<Rightarrow> umem"
    and put2 :: "u32 \<Rightarrow> 't \<Rightarrow> 't"
    and rd2 :: "'t \<Rightarrow> umem"
    and h :: "'s \<Rightarrow> 't"
  assumes put_h: "put2 c (h s) = h (put1 c s)"
    and rd_h: "rd2 (h s) = rd1 s"
begin

lemma pad_h: "pad put2 c n (h s) = h (pad put1 c n s)"
proof -
  have "(put2 c ^^ k) (h s) = h ((put1 c ^^ k) s)" for k by (induction k) (simp_all add: put_h)
  then show ?thesis by (simp add: pad_def)
qed

lemma put_all_h: "put_all put2 cs (h s) = h (put_all put1 cs s)"
  by (induction cs arbitrary: s) (simp_all add: put_h)

lemma printnum_h: "2 \<le> base \<Longrightarrow> printnum put2 num base w c (h s) = map_option h (printnum put1 num base w c s)"
  by (simp add: printnum_digits pad_h put_all_h)

lemma literal_text_h: "literal_text rd2 put2 fmt (h s) = map_option (\<lambda>(b, p, s'). (b, p, h s')) (literal_text rd1 put1 fmt s)"
proof -
  have fwd: "literal_text rd1 put1 fmt s = Some y \<Longrightarrow> rd1 = rd1 \<longrightarrow> put1 = put1 \<longrightarrow>
      literal_text rd2 put2 fmt (h s) = Some (case y of (b, p, s') \<Rightarrow> (b, p, h s'))" for y
  proof (rule literal_text.raw_induct [where P = "\<lambda>rd p fmt s y. rd = rd1 \<longrightarrow> p = put1 \<longrightarrow>
      literal_text rd2 put2 fmt (h s) = Some (case y of (b, p, s') \<Rightarrow> (b, p, h s'))"], goal_cases)
    case (1 f rd p fmt s y)
    show ?case
    proof (intro impI)
      assume a: "rd = rd1" "p = put1"
      note step = 1(3) [unfolded a Let_def]
      show "literal_text rd2 put2 fmt (h s) = Some (case y of (b, p, s') \<Rightarrow> (b, p, h s'))"
        using step 1(2) [of rd1 put1 "fmt + 1" "put1 (chr (rd1 s fmt)) s" y]
        by (subst literal_text.simps) (auto simp: Let_def rd_h put_h split: if_splits)
    qed
  qed
  have bwd: "literal_text rd2 put2 fmt (h s) = Some z \<Longrightarrow> \<forall>s0. rd2 = rd2 \<longrightarrow> put2 = put2 \<longrightarrow> h s = h s0 \<longrightarrow>
      (\<exists>y. literal_text rd1 put1 fmt s0 = Some y)" for z
  proof (rule literal_text.raw_induct [where P = "\<lambda>rd p fmt t z. \<forall>s0. rd = rd2 \<longrightarrow> p = put2 \<longrightarrow> t = h s0 \<longrightarrow>
      (\<exists>y. literal_text rd1 put1 fmt s0 = Some y)"], goal_cases)
    case (1 f rd p fmt t z)
    show ?case
    proof (intro allI impI)
      fix s0 assume a: "rd = rd2" "p = put2" "t = h s0"
      note step = 1(3) [unfolded a Let_def rd_h put_h]
      show "\<exists>y. literal_text rd1 put1 fmt s0 = Some y"
        using step 1(2) [of rd2 put2 "fmt + 1" "h (put1 (chr (rd1 s0 fmt)) s0)" z]
        by (subst literal_text.simps) (auto simp: Let_def split: if_splits)
    qed
  qed
  show ?thesis
  proof (cases "literal_text rd1 put1 fmt s")
    case None
    then show ?thesis using bwd by (cases "literal_text rd2 put2 fmt (h s)") auto
  next
    case (Some y)
    then show ?thesis using fwd [OF Some] by simp
  qed
qed

text \<open>The memory of the string may be another one than that of the output (the text for a null pointer).\<close>

lemma string_chars_h:
  assumes r: "\<And>s. r2 (h s) = r1 s"
  shows "string_chars r2 put2 p w pr alt (h s) = map_option (\<lambda>(w', s'). (w', h s')) (string_chars r1 put1 p w pr alt s)"
proof -
  have fwd: "string_chars r1 put1 p w pr alt s = Some y \<Longrightarrow> r1 = r1 \<longrightarrow> put1 = put1 \<longrightarrow>
      string_chars r2 put2 p w pr alt (h s) = Some (fst y, h (snd y))" for y
  proof (rule string_chars.raw_induct [where P = "\<lambda>rd pu p w pr alt s y. rd = r1 \<longrightarrow> pu = put1 \<longrightarrow>
      string_chars r2 put2 p w pr alt (h s) = Some (fst y, h (snd y))"], goal_cases)
    case (1 f rd pu p w pr alt s y)
    show ?case
    proof (intro impI)
      assume a: "rd = r1" "pu = put1"
      note step = 1(3) [unfolded a Let_def]
      show "string_chars r2 put2 p w pr alt (h s) = Some (fst y, h (snd y))"
      proof (cases "r1 s p \<noteq> 0 \<and> (pr < 0 \<or> pr - 1 \<ge> 0)")
        case True
        show ?thesis
          using 1(2) [OF step [unfolded if_P [OF True]]] unfolding string_chars.simps [of r2 put2 p w pr alt "h s"] Let_def r put_h if_P [OF True]
          by blast
      next
        case False
        show ?thesis
          using step unfolding string_chars.simps [of r2 put2 p w pr alt "h s"] Let_def r if_not_P [OF False] by (cases y) simp
      qed
    qed
  qed
  have bwd: "string_chars r2 put2 p w pr alt (h s) = Some z \<Longrightarrow> \<forall>s0. r2 = r2 \<longrightarrow> put2 = put2 \<longrightarrow> h s = h s0 \<longrightarrow>
      (\<exists>y. string_chars r1 put1 p w pr alt s0 = Some y)" for z
  proof (rule string_chars.raw_induct [where P = "\<lambda>rd pu p w pr alt t z. \<forall>s0. rd = r2 \<longrightarrow> pu = put2 \<longrightarrow> t = h s0 \<longrightarrow>
      (\<exists>y. string_chars r1 put1 p w pr alt s0 = Some y)"], goal_cases)
    case (1 f rd pu p w pr alt t z)
    show ?case
    proof (intro allI impI)
      fix s0 assume a: "rd = r2" "pu = put2" "t = h s0"
      note step = 1(3) [unfolded a Let_def r put_h]
      show "\<exists>y. string_chars r1 put1 p w pr alt s0 = Some y"
      proof (cases "r1 s0 p \<noteq> 0 \<and> (pr < 0 \<or> pr - 1 \<ge> 0)")
        case True
        show ?thesis
          using 1(2) [OF step [unfolded if_P [OF True]]] unfolding string_chars.simps [of r1 put1 p w pr alt s0] Let_def if_P [OF True]
          by blast
      next
        case False
        show ?thesis unfolding string_chars.simps [of r1 put1 p w pr alt s0] Let_def if_not_P [OF False] by simp
      qed
    qed
  qed
  show ?thesis
  proof (cases "string_chars r1 put1 p w pr alt s")
    case None
    then show ?thesis using bwd by (cases "string_chars r2 put2 p w pr alt (h s)") auto
  next
    case (Some y)
    then show ?thesis using fwd [OF Some] by (simp add: split_beta)
  qed
qed

lemma fmt_string_h: "fmt_string rd2 put2 f p (h s) = map_option h (fmt_string rd1 put1 f p s)"
proof (cases "p = 0")
  case True
  have "string_chars (\<lambda>_. null_text) put2 p w pr alt (h s) = map_option (\<lambda>(w', s'). (w', h s')) (string_chars (\<lambda>_. null_text) put1 p w pr alt s)"
    for p w pr alt s by (rule string_chars_h) simp
  then show ?thesis
    using True by (cases "0 < width f \<and> padc f \<noteq> 45") (auto simp: fmt_string_def Let_def pad_h map_option_bind bind_map_option comp_def split_beta)
next
  case False
  have "string_chars rd2 put2 p w pr alt (h s) = map_option (\<lambda>(w', s'). (w', h s')) (string_chars rd1 put1 p w pr alt s)"
    for p w pr alt s by (rule string_chars_h) (rule rd_h)
  then show ?thesis
    using False by (cases "0 < width f \<and> padc f \<noteq> 45") (auto simp: fmt_string_def Let_def rd_h pad_h map_option_bind bind_map_option comp_def split_beta)
qed

lemma fmt_signed_h: "fmt_signed put2 num w c (h s) = map_option h (fmt_signed put1 num w c s)"
  by (simp add: fmt_signed_def printnum_h put_h)

lemma fmt_error_h: "fmt_error put2 a (h s) = map_option h (fmt_error put1 a s)"
  by (auto simp: fmt_error_def Let_def put_all_h fmt_signed_h)

lemma convert_h: "convert rd2 put2 ch fmt f ap (h s) = map_option (\<lambda>(p, ap', s'). (p, ap', h s')) (convert rd1 put1 ch fmt f ap s)"
  by (auto simp: convert_def put_h rd_h fmt_error_h fmt_string_h fmt_signed_h printnum_h map_option_bind bind_map_option
      option.map_comp comp_def case_prod_unfold Let_def split: list.split)

lemma vprintfmt_h: "vprintfmt rd2 put2 fmt ap (h s) = map_option h (vprintfmt rd1 put1 fmt ap s)"
proof -
  have fwd: "vprintfmt rd1 put1 fmt ap s = Some y \<Longrightarrow> rd1 = rd1 \<longrightarrow> put1 = put1 \<longrightarrow> vprintfmt rd2 put2 fmt ap (h s) = Some (h y)" for y
  proof (rule vprintfmt.raw_induct [where P = "\<lambda>rd p fmt ap s y. rd = rd1 \<longrightarrow> p = put1 \<longrightarrow>
      vprintfmt rd2 put2 fmt ap (h s) = Some (h y)"], goal_cases)
    case (1 f rd p fmt ap s y)
    show ?case
    proof (intro impI)
      assume a: "rd = rd1" "p = put1"
      note step = 1(3) [unfolded a]
      show "vprintfmt rd2 put2 fmt ap (h s) = Some (h y)"
        unfolding vprintfmt.simps [of rd2 put2 fmt ap "h s"] literal_text_h
        using step 1(2) by (auto simp: rd_h convert_h split: option.splits prod.splits if_splits)
    qed
  qed
  have bwd: "vprintfmt rd2 put2 fmt ap (h s) = Some z \<Longrightarrow> \<forall>s0. rd2 = rd2 \<longrightarrow> put2 = put2 \<longrightarrow> h s = h s0 \<longrightarrow>
      (\<exists>y. vprintfmt rd1 put1 fmt ap s0 = Some y)" for z
  proof (rule vprintfmt.raw_induct [where P = "\<lambda>rd p fmt ap t z. \<forall>s0. rd = rd2 \<longrightarrow> p = put2 \<longrightarrow> t = h s0 \<longrightarrow>
      (\<exists>y. vprintfmt rd1 put1 fmt ap s0 = Some y)"], goal_cases)
    case (1 f rd p fmt ap t z)
    show ?case
    proof (intro allI impI)
      fix s0 assume a: "rd = rd2" "p = put2" "t = h s0"
      note step = 1(3) [unfolded a literal_text_h]
      show "\<exists>y. vprintfmt rd1 put1 fmt ap s0 = Some y"
        unfolding vprintfmt.simps [of rd1 put1 fmt ap s0]
        using step 1(2) by (fastforce simp: rd_h convert_h split: option.splits prod.splits if_splits)
    qed
  qed
  show ?thesis
  proof (cases "vprintfmt rd1 put1 fmt ap s")
    case None
    then show ?thesis using bwd by (cases "vprintfmt rd2 put2 fmt ap (h s)") auto
  next
    case (Some y)
    then show ?thesis using fwd [OF Some] by simp
  qed
qed

end

section \<open>The bounded buffer\<close>

lemma unat_offset: "unat bf + n \<le> 2 ^ 32 \<Longrightarrow> k < n \<Longrightarrow> unat (bf + of_nat k :: u32) = unat bf + k"
proof -
  assume a: "unat bf + n \<le> 2 ^ 32" "k < n"
  then have "unat (of_nat k :: u32) = k" by (subst unat_of_nat) simp
  then show ?thesis using a by (simp add: unat_word_ariths)
qed

text \<open>
  The text of a format as a list of characters, and what the buffer of \<open>n\<close> bytes at \<open>bf\<close> shows of it: the
  memory, and the state of \<open>sprintputch\<close>.
\<close>

definition text_put :: "u32 \<Rightarrow> u32 list \<Rightarrow> u32 list" where
  "text_put c cs = cs @ [c]"

definition buffer_mem :: "umem \<Rightarrow> u32 \<Rightarrow> nat \<Rightarrow> u32 list \<Rightarrow> umem" where
  "buffer_mem m bf n cs = put_bytes m bf (map ucast (take (n - 1) cs))"

definition buffer_state :: "umem \<Rightarrow> u32 \<Rightarrow> nat \<Rightarrow> u32 list \<Rightarrow> sprintbuf" where
  "buffer_state m bf n cs = \<lparr>buf = bf + of_nat (min (length cs) (n - 1)), ebuf = bf + of_nat (n - 1),
     cnt = int (length cs), text_mem = buffer_mem m bf n cs\<rparr>"

lemma put_bytes_nth:
  "length bs \<le> 2 ^ 32 \<Longrightarrow> put_bytes m a bs x = (if unat (x - a) < length bs then bs ! unat (x - a) else m x)"
proof (induction bs arbitrary: m a)
  case (Cons b bs)
  show ?case
  proof (cases "x = a")
    case True
    then show ?thesis using Cons unat_behind [of "length bs" a] by simp
  next
    case False
    then have "unat (x - a) = Suc (unat (x - (a + 1)))"
      using unat_pred [of "x - a"] unat_gt_0 [of "x - a"] by (simp add: algebra_simps)
    then show ?thesis using Cons False by simp
  qed
qed simp

lemma put_bytes_at: "length bs \<le> 2 ^ 31 \<Longrightarrow> i < length bs \<Longrightarrow> put_bytes m a bs (a + of_nat i) = bs ! i"
  by (simp add: put_bytes_nth unat_of_nat)

lemma put_bytes_snoc: "put_bytes m a (bs @ [b]) = (put_bytes m a bs)(a + of_nat (length bs) := b)"
  by (induction bs arbitrary: m a) (simp_all add: add.assoc)

lemma sprintputch_shows:
  assumes "unat bf + n \<le> 2 ^ 32" "0 < n"
  shows "sprintputch c (buffer_state m bf n cs) = buffer_state m bf n (text_put c cs)"
proof -
  let ?k = "min (length cs) (n - 1)"
  have "unat (bf + of_nat ?k) = unat bf + ?k" "unat (bf + of_nat (n - 1)) = unat bf + (n - 1)"
    using assms(2) unat_offset [OF assms(1), of ?k] unat_offset [OF assms(1), of "n - 1"] by (simp_all del: of_nat_diff)
  then have less: "bf + of_nat ?k < bf + of_nat (n - 1) \<longleftrightarrow> length cs < n - 1" by (auto simp: word_less_nat_alt)
  show ?thesis
  proof (cases "length cs < n - 1")
    case True
    then have "min (length cs) (n - 1) = length cs" "min (Suc (length cs)) (n - 1) = Suc (length cs)" "take (n - 1) (cs @ [c]) = take (n - 1) cs @ [c]"
      "take (n - 1) cs = cs" by simp_all
    then show ?thesis
      using less True by (simp add: sprintputch_def buffer_state_def buffer_mem_def text_put_def put_bytes_snoc add.assoc del: of_nat_diff)
  next
    case False
    then show ?thesis
      using less by (simp add: sprintputch_def buffer_state_def buffer_mem_def text_put_def del: of_nat_diff)
  qed
qed

text \<open>A size that does not fit into the address space is replaced by 1.\<close>

definition fit :: "u32 \<Rightarrow> nat \<Rightarrow> nat" where
  "fit bf n = (if 0 < n \<and> unat bf + n \<le> 2 ^ 32 then n else 1)"

interpretation sprint: output_view text_put "buffer_mem m bf (fit bf n)" sprintputch text_mem "buffer_state m bf (fit bf n)"
proof
  have "unat bf + 1 \<le> 2 ^ 32" using unsigned_less [of bf, where 'a = nat] by simp
  then have "unat bf + fit bf n \<le> 2 ^ 32" "0 < fit bf n" by (simp_all add: fit_def)
  then show "sprintputch c (buffer_state m bf (fit bf n) s) = buffer_state m bf (fit bf n) (text_put c s)" for c s
    by (rule sprintputch_shows)
qed (simp add: buffer_state_def)

text \<open>
  C33. For a buffer of \<open>n\<close> bytes, with any format and arguments: \<open>vsnprintf\<close> returns exactly when the format comes to an end (with a text
  of less than \<open>2\<^sup>3\<^sup>1\<close> characters, which its \<open>int\<close> counter can hold); then the result is the length of the whole text, the buffer holds the first
  \<open>n - 1\<close> characters of it (or all) and a zero behind them, and no other byte of memory has changed. The text is what the format
  prints on an unbounded output; when format or strings lie in the buffer they are read as the text overwrites them (\<open>buffer_mem\<close>).
\<close>

theorem vsnprintf_prints_text:
  assumes "bf \<noteq> 0" "1 \<le> n" "unat bf + nat n \<le> 2 ^ 32"
  shows "vsnprintf m bf n fmt ap =
    (case vprintfmt (buffer_mem m bf (nat n)) text_put fmt ap [] of
       None \<Rightarrow> None
     | Some cs \<Rightarrow> if 2 ^ 31 \<le> length cs then None
         else Some (int (length cs), put_bytes m bf (map ucast (take (nat n - 1) cs) @ [0])))"
proof -
  have f: "fit bf (nat n) = nat n" using assms by (simp add: fit_def)
  have n: "0 < nat n" "bf + of_int n - 1 = bf + of_nat (nat n - 1)" using assms(2) by (simp_all add: of_nat_diff)
  have start: "\<lparr>buf = bf, ebuf = bf + of_int n - 1, cnt = 0, text_mem = m\<rparr> = buffer_state m bf (nat n) []"
    by (simp add: buffer_state_def buffer_mem_def n(2) del: of_nat_diff)
  have stop: "(text_mem (buffer_state m bf (nat n) cs))(buf (buffer_state m bf (nat n) cs) := 0) =
      put_bytes m bf (map ucast (take (nat n - 1) cs) @ [0])" for cs
    by (simp add: buffer_state_def buffer_mem_def put_bytes_snoc min.commute del: of_nat_diff)
  have count: "cnt (buffer_state m bf (nat n) cs) = int (length cs)" for cs by (simp add: buffer_state_def)
  have "\<not> (bf = 0 \<or> n < 1)" using assms by simp
  then have "vsnprintf m bf n fmt ap = do {
      b1 \<leftarrow> map_option (buffer_state m bf (nat n)) (vprintfmt (buffer_mem m bf (nat n)) text_put fmt ap []);
      if cnt b1 \<ge> 2 ^ 31 then None else Some (cnt b1, (text_mem b1)(buf b1 := 0)) }"
    unfolding vsnprintf_def Let_def start using sprint.vprintfmt_h [of fmt ap m bf "nat n" "[]", unfolded f] by (simp only: if_False)
  also have "\<dots> = (case vprintfmt (buffer_mem m bf (nat n)) text_put fmt ap [] of
       None \<Rightarrow> None
     | Some cs \<Rightarrow> if 2 ^ 31 \<le> length cs then None
         else Some (int (length cs), put_bytes m bf (map ucast (take (nat n - 1) cs) @ [0])))"
    by (cases "vprintfmt (buffer_mem m bf (nat n)) text_put fmt ap []") (simp_all add: stop count)
  finally show ?thesis .
qed

text \<open>Nothing outside of the buffer changes.\<close>

lemma buffer_frame:
  assumes "1 \<le> n" "unat bf + nat n \<le> 2 ^ 32" "nat n \<le> unat (a - bf)"
  shows "put_bytes m bf (map ucast (take (nat n - 1) cs) @ [0]) a = m a"
proof -
  have "length (map ucast (take (nat n - 1) cs) @ [0] :: byte list) \<le> nat n" using assms(1) by simp
  then show ?thesis using assms(2,3) by (subst put_bytes_nth) simp_all
qed

section \<open>Output in pieces\<close>

definition collecting :: "umem \<Rightarrow> byte list \<Rightarrow> u32 list \<Rightarrow> printbuf" where
  "collecting m garbage cs = put_all putch cs \<lparr>idx = 0, p_cnt = 0, p_buf = garbage, printed = [], p_mem = m\<rparr>"

lemma putch_mem: "p_mem (putch c b) = p_mem b"
  by (simp add: putch_def Let_def)

interpretation console_text: output_view text_put "\<lambda>_. m" putch p_mem "collecting m garbage"
proof
  show "putch c (collecting m garbage s) = collecting m garbage (text_put c s)" for c s
    by (simp add: collecting_def text_put_def)
  have "p_mem (put_all putch cs b) = p_mem b" for cs b by (induction cs arbitrary: b) (simp_all add: putch_mem)
  then show "p_mem (collecting m garbage s) = m" for s by (simp add: collecting_def)
qed

lemma collecting_pieces:
  assumes "length garbage = 256"
  shows "length (p_buf (collecting m garbage cs)) = 256 \<and> idx (collecting m garbage cs) < 255 \<and>
    p_cnt (collecting m garbage cs) = int (length cs) \<and>
    concat (rev (take (idx (collecting m garbage cs)) (p_buf (collecting m garbage cs)) # printed (collecting m garbage cs))) = map ucast cs"
proof (induction cs rule: rev_induct)
  case Nil
  then show ?case using assms by (simp add: collecting_def)
next
  case (snoc c cs)
  let ?b = "collecting m garbage cs"
  have "collecting m garbage (cs @ [c]) = putch c ?b" by (simp add: collecting_def)
  moreover have "take (Suc (idx ?b)) ((p_buf ?b)[idx ?b := ucast c]) = take (idx ?b) (p_buf ?b) @ [ucast c]"
    using snoc by (simp add: take_Suc_conv_app_nth)
  ultimately show ?case using snoc by (auto simp: putch_def Let_def)
qed

text \<open>\<open>cprintf\<close> prints its text in pieces, one after the other.\<close>

lemma vcprintf_prints_text:
  assumes "length garbage = 256"
  shows "vcprintf m garbage fmt ap = Some (r, pieces) \<Longrightarrow>
    \<exists>cs. vprintfmt (\<lambda>_. m) text_put fmt ap [] = Some cs \<and> r = int (length cs) \<and> concat pieces = map ucast cs"
proof -
  assume v: "vcprintf m garbage fmt ap = Some (r, pieces)"
  have "\<lparr>idx = 0, p_cnt = 0, p_buf = garbage, printed = [], p_mem = m\<rparr> = collecting m garbage []" by (simp add: collecting_def)
  then obtain cs where cs: "vprintfmt (\<lambda>_. m) text_put fmt ap [] = Some cs" "r = p_cnt (collecting m garbage cs)"
    "pieces = rev (take (idx (collecting m garbage cs)) (p_buf (collecting m garbage cs)) # printed (collecting m garbage cs))"
    using v console_text.vprintfmt_h [of fmt ap m garbage "[]"]
    by (auto simp: vcprintf_def Option.bind_eq_Some_conv split: if_splits)
  then show ?thesis using collecting_pieces [OF assms, of m cs] by auto
qed

section \<open>Printing into a buffer and reading back\<close>

lemma unat_u32_Suc: "(a :: u32) < b \<Longrightarrow> unat (a + 1) = unat a + 1"
proof -
  assume "a < b"
  then have "unat a + 1 < 2 ^ 32" using unsigned_less [of b, where 'a = nat] by (simp add: word_less_nat_alt)
  then show ?thesis by (simp add: unat_word_ariths)
qed

lemma put_all_sprint:
  assumes "unat (buf b) + length cs \<le> unat (ebuf b)"
  shows "put_all sprintputch cs b =
    b\<lparr>cnt := cnt b + int (length cs), buf := buf b + of_nat (length cs),
      text_mem := put_bytes (text_mem b) (buf b) (map ucast cs)\<rparr>"
  using assms
proof (induction cs arbitrary: b)
  case (Cons c cs)
  have less: "buf b < ebuf b" using Cons.prems by (simp add: word_less_nat_alt)
  then have s: "sprintputch c b = b\<lparr>cnt := cnt b + 1, buf := buf b + 1, text_mem := (text_mem b)(buf b := ucast c)\<rparr>"
    by (simp add: sprintputch_def Let_def)
  have "unat (buf b + 1) = unat (buf b) + 1"
    using less unat_u32_Suc [of "buf b" "ebuf b"] by simp
  then have "put_all sprintputch cs (sprintputch c b) = (sprintputch c b)\<lparr>cnt := cnt (sprintputch c b) + int (length cs),
      buf := buf (sprintputch c b) + of_nat (length cs),
      text_mem := put_bytes (text_mem (sprintputch c b)) (buf (sprintputch c b)) (map ucast cs)\<rparr>"
    using Cons.prems by (intro Cons.IH) (simp add: s)
  then show ?case by (simp add: s add.assoc)
qed simp

lemma ten_digits: "d < 10 \<Longrightarrow> digit_chars ! d = of_nat (48 + d)"
proof -
  assume "d < 10"
  then have "d \<in> {0, 1, 2, 3, 4, 5, 6, 7, 8, 9}" by auto
  then show ?thesis by (auto simp: digit_chars_def)
qed

lemma digit_of_digit: "d < 10 \<Longrightarrow> digit_of (digit_chars ! d) = Some (int d)"
  by (simp add: ten_digits digit_of_def word_le_nat_alt unat_word_ariths unat_of_nat del: of_nat_add)

text \<open>Reading the digits in front of a zero.\<close>

lemma strtol_digits_reads:
  assumes "\<forall>d \<in> set ds. d < 10" "\<And>i. i < length ds \<Longrightarrow> m (s + of_nat i) = digit_chars ! (ds ! i)" "m (s + of_nat (length ds)) = 0"
  shows "strtol_digits m s 10 val = Some (foldl (\<lambda>v d. v * 10 + of_nat d) val ds, s + of_nat (length ds))"
  using assms
proof (induction ds arbitrary: s val)
  case Nil
  then show ?case by (subst strtol_digits.simps) (simp add: digit_of_def)
next
  case (Cons d ds)
  have "digit_of (m s) = Some (int d)" using Cons.prems(1) Cons.prems(2) [of 0] by (simp add: digit_of_digit)
  then have "strtol_digits m s 10 val = strtol_digits m (s + 1) 10 (val * 10 + of_nat d)"
    using Cons.prems(1) by (subst strtol_digits.simps) simp
  also have "\<dots> = Some (foldl (\<lambda>v d. v * 10 + of_nat d) (val * 10 + of_nat d) ds, s + 1 + of_nat (length ds))"
    using Cons.prems(1,3) Cons.prems(2) [of "Suc i" for i] by (intro Cons.IH) (simp_all add: add.assoc)
  finally show ?case by (simp add: add.assoc)
qed

lemma of_nat_number: "of_nat (foldl (\<lambda>v d. v * 10 + d) v ds) = foldl (\<lambda>v d. v * 10 + of_nat d) (of_nat v :: u32) ds"
  by (induction ds arbitrary: v) simp_all

definition signed_text :: "u32 \<Rightarrow> u32 list" where
  "signed_text a = (if sint a < 0 then [45] else []) @ digit_text 10 (nat \<bar>sint a\<bar>)"

lemma signed_text_length: "length (signed_text a) \<le> 11"
proof -
  have "- (2 ^ 31) \<le> sint a" "sint a < 2 ^ 31" using sint_range_size [of a] by (simp_all add: word_size)
  then have "nat \<bar>sint a\<bar> < 10 ^ 10" by simp
  then have "length (digits_of 10 (nat \<bar>sint a\<bar>)) \<le> 10" by (rule digits_length) simp
  then have "length (digit_text 10 (nat \<bar>sint a\<bar>)) \<le> 10" by (simp add: digit_text_def)
  moreover have "length (if sint a < 0 then [45] else [] :: u32 list) \<le> 1" by simp
  ultimately show ?thesis unfolding signed_text_def length_append by linarith
qed

lemma unat_of_small_int: "0 \<le> k \<Longrightarrow> k < 2 ^ 63 \<Longrightarrow> unat (of_int k :: 64 word) = nat k"
proof -
  assume k: "0 \<le> k" "k < 2 ^ 63"
  then have "uint (of_int k :: 64 word) = k" by (simp add: uint_word_of_int_eq take_bit_int_eq_self)
  then show ?thesis by (simp only: unat_eq_nat_uint)
qed

lemma fmt_signed_text:
  "fmt_signed put (scast (a :: u32)) (-1) c s = Some (put_all put (signed_text a) s)"
proof -
  have s: "sint (scast a :: 64 word) = sint a" by (simp add: sint_up_scast is_up)
  have pad: "pad put c (- 1 - int k) t = t" for k t by (simp add: pad_def)
  have range: "- (2 ^ 31) \<le> sint a" "sint a < 2 ^ 31" using sint_range_size [of a] by (simp_all add: word_size)
  show ?thesis
  proof (cases "sint a < 0")
    case True
    have "- scast a = (of_int (- sint a) :: 64 word)" by (simp only: of_int_minus scast_eq)
    then have "unat (- scast a :: 64 word) = nat \<bar>sint a\<bar>"
      using True range unat_of_small_int [of "- sint a"] by simp
    then show ?thesis
      using True s by (simp add: fmt_signed_def word_sless_alt printnum_digits pad signed_text_def)
  next
    case False
    then have "unat (scast a :: 64 word) = nat \<bar>sint a\<bar>"
      using range unat_of_small_int [of "sint a"] by simp
    then show ?thesis
      using False s by (simp add: fmt_signed_def word_sless_alt printnum_digits pad signed_text_def)
  qed
qed

text \<open>\<open>strtol\<close> of the printed text.\<close>

lemma byte_u32_byte [simp]: "ucast (ucast x :: u32) = (x :: byte)"
  by (rule bit_word_eqI) (auto simp: bit_simps)

lemma foldl_number: "foldl (\<lambda>v d. v * 10 + of_nat d) (0 :: u32) (digits_of 10 num) = of_nat num"
  using of_nat_number [of 0 "digits_of 10 num"] number_of_digits [of 10 num] by (simp add: number_of_def)

lemma digits_ne: "digits_of base num \<noteq> []"
  by (subst digits_of.simps) simp

lemma first_digit: "digit_chars ! (digits_of 10 num ! 0) \<in> {48..57}"
proof -
  have "digits_of 10 num ! 0 \<in> set (digits_of 10 num)" using digits_ne [of 10 num] by simp
  then have d: "digits_of 10 num ! 0 < 10" by (rule digits_less [rotated]) simp
  then show ?thesis by (simp add: ten_digits word_le_nat_alt unat_word_ariths unat_of_nat del: of_nat_add)
qed

lemma strtol_reads:
  assumes "\<And>i. i < length (signed_text a) \<Longrightarrow> m (s + of_nat i) = ucast (signed_text a ! i)"
    "m (s + of_nat (length (signed_text a))) = 0"
  shows "strtol m s 10 = Some (a, s + of_nat (length (signed_text a)))"
proof -
  let ?v = "nat \<bar>sint a\<bar>"
  let ?ds = "digits_of 10 ?v"
  have ten: "\<forall>d \<in> set ?ds. d < 10" using digits_less [of 10] by simp
  have digits: "strtol_digits m s' 10 0 = Some (of_nat ?v, s' + of_nat (length ?ds))"
    if "\<And>i. i < length ?ds \<Longrightarrow> m (s' + of_nat i) = digit_chars ! (?ds ! i)" "m (s' + of_nat (length ?ds)) = 0" for s'
    using strtol_digits_reads [OF ten that, of 0] by (simp add: foldl_number)
  show ?thesis
  proof (cases "sint a < 0")
    case True
    then have t: "signed_text a = 45 # digit_text 10 ?v" by (simp add: signed_text_def)
    have "m s = 45" using assms(1) [of 0] by (simp add: t)
    moreover have "strtol_digits m (s + 1) 10 0 = Some (of_nat ?v, s + 1 + of_nat (length ?ds))"
      using assms(1) [of "Suc i" for i] assms(2) by (intro digits) (simp_all add: t digit_text_def add.assoc)
    moreover have "- (of_nat ?v) = a" using True by simp
    ultimately show ?thesis
      unfolding strtol_def by (subst skip_blanks.simps) (simp add: t digit_text_def add.assoc)
  next
    case False
    then have t: "signed_text a = digit_text 10 ?v" by (simp add: signed_text_def)
    have "m s = digit_chars ! (?ds ! 0)" using assms(1) [of 0] digits_ne [of 10 ?v] by (simp add: t digit_text_def)
    then have "m s \<in> {48..57}" using first_digit [of ?v] by simp
    then have "m s \<noteq> 32" "m s \<noteq> 9" "m s \<noteq> 43" "m s \<noteq> 45" by auto
    moreover have "strtol_digits m s 10 0 = Some (of_nat ?v, s + of_nat (length ?ds))"
      using assms by (intro digits) (simp_all add: t digit_text_def)
    moreover have "of_nat ?v = a" using False by simp
    ultimately show ?thesis
      unfolding strtol_def by (subst skip_blanks.simps) (simp add: t digit_text_def)
  qed
qed

text \<open>
  C32. A number that \<open>vsnprintf\<close> prints with \<open>%d\<close> is read back by \<open>strtol\<close>, with its sign, and the reading
  ends where the text does. Both return for every number.
\<close>

theorem decimal_roundtrip:
  assumes "bf \<noteq> 0" "12 \<le> n" "unat bf + nat n \<le> 2 ^ 32"
    and fmt: "m fmt = 37" "m (fmt + 1) = 100" "m (fmt + 2) = 0" "nat n \<le> unat (fmt + 2 - bf)"
  shows "\<exists>r m'. vsnprintf m bf n fmt (a # ap) = Some (r, m') \<and> strtol m' bf 10 = Some (a, bf + of_int r)"
proof -
  let ?b = "\<lparr>buf = bf, ebuf = bf + of_int n - 1, cnt = 0, text_mem = m\<rparr>" and ?t = "signed_text a"
  define b where "b = put_all sprintputch ?t ?b"
  have len: "length ?t \<le> 11" by (rule signed_text_length)
  have "unat (bf + of_nat (nat n - 1)) = unat bf + (nat n - 1)"
    using unat_offset [OF assms(3), of "nat n - 1"] assms(2) by linarith
  then have e: "unat (ebuf ?b) = unat bf + (nat n - 1)"
    using assms(2) by (simp add: of_nat_diff nat_diff_distrib' add_diff_eq)
  have b: "b = ?b\<lparr>cnt := int (length ?t), buf := bf + of_nat (length ?t), text_mem := put_bytes m bf (map ucast ?t)\<rparr>"
    unfolding b_def using put_all_sprint [of ?b ?t] e len assms(2) by simp
  have in_text: "text_mem b (bf + of_nat i) = ucast (?t ! i)" if "i < length ?t" for i
    using put_bytes_at [of "map ucast ?t" i m bf] that len by (simp add: b)
  have "\<not> unat (fmt + 2 - bf) < length ?t" using len assms(2) fmt(4) by linarith
  then have "text_mem b (fmt + 2) = m (fmt + 2)"
    using put_bytes_nth [of "map ucast ?t" m bf "fmt + 2"] len by (simp add: b)
  then have "vprintfmt text_mem sprintputch (fmt + 2) ap b = Some b"
    using fmt(3) by (subst vprintfmt.simps, subst literal_text.simps) simp
  then have "vprintfmt text_mem sprintputch fmt (a # ap) ?b = Some b"
    using fmt(1,2)
    by (subst vprintfmt.simps, subst literal_text.simps, subst flags.simps)
      (simp add: no_flags_def convert_def getint_def fmt_signed_text b_def add.assoc)
  then have v: "vsnprintf m bf n fmt (a # ap) = Some (int (length ?t), (text_mem b)(bf + of_nat (length ?t) := 0))"
    using assms(1,2) len by (simp add: vsnprintf_def b)
  have "strtol ((text_mem b)(bf + of_nat (length ?t) := 0)) bf 10 = Some (a, bf + of_nat (length ?t))"
  proof (rule strtol_reads)
    fix i assume i: "i < length ?t"
    then have "(of_nat i :: u32) \<noteq> of_nat (length ?t)"
      using len by (simp add: of_nat_inverse word_unat_eq_iff unat_of_nat)
    then show "((text_mem b)(bf + of_nat (length ?t) := 0)) (bf + of_nat i) = ucast (?t ! i)"
      using in_text [OF i] by simp
  qed simp
  with v show ?thesis by auto
qed

text \<open>Witnesses: a format at 0x100 and a buffer of 32 bytes at 0x200.\<close>

definition print_mem :: umem where
  "print_mem a = (if a = 0x100 then 37 else if a = 0x101 then 100 else 0)"

theorem decimal_roundtrip_witness:
  "\<exists>r m'. vsnprintf print_mem 0x200 32 0x100 [0xFFFFFFD6] = Some (r, m') \<and> strtol m' 0x200 10 = Some (0xFFFFFFD6, 0x200 + of_int r)"
  by (rule decimal_roundtrip) (simp_all add: print_mem_def)


definition ab_mem :: umem where
  "ab_mem a = (if a = 0x100 then 97 else if a = 0x101 then 98 else 0)"

text \<open>A text of two characters in a buffer of two bytes: the second one is lost, and the result is 2.\<close>

theorem vsnprintf_prints_text_witness:
  "vsnprintf ab_mem 0x200 2 0x100 [] = Some (2, ab_mem(0x200 := 97, 0x201 := 0))"
proof -
  let ?m = "buffer_mem ab_mem 0x200 2"
  have m: "?m [] 0x100 = 97" "?m [97] 0x101 = 98" "?m [97, 98] 0x102 = 0"
    by (simp_all add: buffer_mem_def ab_mem_def)
  have "literal_text ?m text_put 0x102 [97, 98] = Some (False, 0x103, [97, 98])"
    by (subst literal_text.simps) (simp add: m Let_def)
  then have "literal_text ?m text_put 0x101 [97] = Some (False, 0x103, [97, 98])"
    by (subst literal_text.simps) (simp add: m Let_def text_put_def)
  then have "literal_text ?m text_put 0x100 [] = Some (False, 0x103, [97, 98])"
    by (subst literal_text.simps) (simp add: m Let_def text_put_def)
  then have "vprintfmt ?m text_put 0x100 [] [] = Some [97, 98]" by (subst vprintfmt.simps) simp
  then show ?thesis using vsnprintf_prints_text [of "0x200" 2 ab_mem "0x100" "[]"] by simp
qed

end
