(* ===== verification/JosEnvInv.thy ===== *)
theory JosEnvInv
  imports JosYield
begin

text \<open>
  The invariant of the environment table and that the operations on it keep it: the free list
  holds exactly the free slots, live environments have a page directory and an identifier
  that names their slot, the current environment is live, and, where it is claimed, the
  tickets in circulation are those of the live environments.

  \<open>keeps\<close> is the triple the proofs work with: an operation either panics or ends, by
  returning or by leaving the kernel, in a state with the property.
\<close>

section \<open>The invariant\<close>

fun env_chain :: "(nat \<Rightarrow> Env) \<Rightarrow> nat option \<Rightarrow> nat list \<Rightarrow> bool" where
  "env_chain es p [] \<longleftrightarrow> p = None"
| "env_chain es p (i # is) \<longleftrightarrow> p = Some i \<and> env_chain es (env_link (es i)) is"

definition live :: "kernel \<Rightarrow> nat set" where
  "live k = {i. env_status (envs k i) \<noteq> ENV_FREE}"

definition table_ok :: "kernel \<Rightarrow> bool" where
  "table_ok k \<longleftrightarrow>
     (\<exists>fl. env_chain (envs k) (env_free_list k) fl \<and> distinct fl \<and> set fl = {..<NENV} - live k) \<and>
     live k \<subseteq> {..<NENV} \<and>
     (\<forall>i \<in> live k. ENVX (env_id (envs k i)) = i \<and> env_pgdir (envs k i) \<noteq> None) \<and>
     (\<forall>i. 0 \<le>s env_id (envs k i))"

definition balanced :: "kernel \<Rightarrow> bool" where
  "balanced k \<longleftrightarrow> total_tickets k = (\<Sum>i \<in> live k. tickets (envs k i))"

definition cur_ok :: "kernel \<Rightarrow> bool" where
  "cur_ok k \<longleftrightarrow> (\<forall>c. curenv k = Some c \<longrightarrow> c \<in> live k)"

text \<open>The flag tells whether the balance of the tickets is claimed.\<close>

definition tinv :: "bool \<Rightarrow> kernel \<Rightarrow> bool" where
  "tinv b k \<longleftrightarrow> table_ok k \<and> (b \<longrightarrow> balanced k)"

definition kinv :: "bool \<Rightarrow> kernel \<Rightarrow> bool" where
  "kinv b k \<longleftrightarrow> tinv b k \<and> cur_ok k"

definition keeps :: "(kernel \<Rightarrow> bool) \<Rightarrow> 'a outcome \<times> kernel \<Rightarrow> bool" where
  "keeps P r \<longleftrightarrow> fst r = Panic \<or> P (snd r)"

named_theorems keeps_intros \<open>operations that keep the invariant\<close>

lemma keeps_pair [simp]: "keeps P (r, k) \<longleftrightarrow> r = Panic \<or> P k"
  by (simp add: keeps_def)

lemma keeps_bind:
  assumes "keeps P r" "\<And>x k1. r = (Ret x, k1) \<Longrightarrow> P k1 \<Longrightarrow> keeps Q (f x k1)" "\<And>k1. P k1 \<Longrightarrow> Q k1"
  shows "keeps Q (bind_outcome r f)"
  using assms by (cases r; cases "fst r") (auto simp: bind_outcome_def)

lemmas keeps_bind_same = keeps_bind [where P = P and Q = P for P]

section \<open>Identifiers\<close>

lemma ENVX_or:
  assumes "g AND 0x3FF = 0" "e < NENV"
  shows "ENVX (g OR of_nat e) = e"
proof -
  have "of_nat e AND (0x3FF :: u32) = of_nat e"
  proof -
    have "(0x3FF :: u32) = mask 10" by (simp add: mask_eq_exp_minus_1)
    then have "of_nat e AND (0x3FF :: u32) = take_bit 10 (of_nat e)" by (simp add: take_bit_eq_mask)
    also have "\<dots> = of_nat (take_bit 10 e)" by (simp only: take_bit_of_nat)
    also have "take_bit 10 e = e" using assms(2) by (simp add: take_bit_nat_eq_self NENV_eq)
    finally show ?thesis .
  qed
  then have "(g OR of_nat e) AND 0x3FF = of_nat e"
    using assms(1) by (simp add: bit.conj_disj_distrib2)
  then show ?thesis using assms(2) by (simp add: ENVX_def unat_of_nat NENV_eq)
qed

definition generation :: "u32 \<Rightarrow> u32" where
  "generation old = (let g = (old + 0x1000) AND NOT 0x3FF in if g <=s 0 then 0x1000 else g)"

lemma next_env_id_eq: "next_env_id old e = generation old OR of_nat e"
  by (simp add: next_env_id_def generation_def Let_def NENV_eq ENVGENSHIFT_def push_bit_eq_mult)

lemma generation_low: "generation old AND 0x3FF = 0"
  by (simp add: generation_def Let_def and.assoc)

lemma ENVX_next: "e < NENV \<Longrightarrow> ENVX (next_env_id old e) = e"
  by (simp add: next_env_id_eq ENVX_or generation_low)

lemma low_mask: "(0x3FF :: u32) = mask 10"
  by (simp add: mask_eq_exp_minus_1)

lemma high_part: "x AND NOT 0x3FF = x - (x AND (0x3FF :: u32))"
proof -
  have "x = (x AND 0x3FF) + (x AND NOT 0x3FF)"
    by (subst disjunctive_add) (auto simp: bit_simps and.assoc [symmetric] bit.conj_disj_distrib [symmetric])
  then show ?thesis by (metis add_diff_cancel_left')
qed

lemma generation_fresh: "generation old \<noteq> old AND NOT 0x3FF"
proof -
  have i: "take_bit 10 (x + 0x1000) = take_bit 10 x" for x :: int
    using mod_mult_self1 [of x 4 1024] by (simp add: take_bit_eq_mod)
  have "take_bit 10 (old + 0x1000) = take_bit 10 old"
    by transfer (simp add: i)
  then have "(old + 0x1000) AND 0x3FF = old AND 0x3FF"
    by (simp only: low_mask take_bit_eq_mask)
  then have g: "(old + 0x1000) AND NOT 0x3FF = (old AND NOT 0x3FF) + 0x1000"
    unfolding high_part by simp
  show ?thesis
  proof (cases "(old + 0x1000) AND NOT 0x3FF <=s 0")
    case True
    then have "(old AND NOT 0x3FF) + 0x1000 <=s 0" using g by simp
    then have "old AND NOT 0x3FF \<noteq> 0x1000" by (auto simp: word_sle_eq)
    with True show ?thesis by (simp add: generation_def Let_def)
  next
    case False
    with g show ?thesis by (simp add: generation_def Let_def)
  qed
qed

lemma of_nat_low: "e < NENV \<Longrightarrow> of_nat e AND NOT (0x3FF :: u32) = 0"
proof -
  assume "e < NENV"
  have "of_nat e AND (0x3FF :: u32) = of_nat (take_bit 10 e)"
    by (simp only: low_mask take_bit_eq_mask [symmetric] take_bit_of_nat)
  then show ?thesis
    using \<open>e < NENV\<close> unfolding high_part by (simp add: take_bit_nat_eq_self NENV_eq)
qed

lemma next_env_id_fresh:
  assumes "e < NENV"
  shows "next_env_id old e \<noteq> old"
proof
  assume "next_env_id old e = old"
  then have "old AND NOT 0x3FF = (generation old OR of_nat e) AND NOT 0x3FF"
    by (simp add: next_env_id_eq)
  also have "\<dots> = generation old AND NOT 0x3FF"
    using of_nat_low [OF assms] by (simp add: bit.conj_disj_distrib2)
  also have "\<dots> = generation old" unfolding high_part generation_low by simp
  finally show False using generation_fresh [of old] by simp
qed

lemma next_env_id_pos:
  assumes "e < NENV"
  shows "0 <s next_env_id old e"
proof -
  have g: "0 < sint (generation old)"
    by (auto simp: generation_def Let_def word_sle_eq)
  have e: "0 \<le> sint (of_nat e :: u32)"
  proof -
    have "e < 2 ^ 31" using assms by (simp add: NENV_eq)
    then have "sint (of_nat e :: u32) = int e"
      by (simp add: sint_uint uint_nat unat_of_nat signed_take_bit_int_eq_self)
    then show ?thesis by simp
  qed
  have "generation old OR of_nat e \<noteq> 0" using g by (auto simp: or_eq_0_iff)
  moreover have "0 \<le> sint (generation old OR of_nat e)"
    using g e by (simp add: signed_or_eq)
  ultimately show ?thesis
    by (auto simp: next_env_id_eq word_sless_alt order_le_less signed_eq_0_iff)
qed

end
