(* ===== verification/JosEnvKeeps.thy ===== *)
theory JosEnvKeeps
  imports JosEnvInv
begin

text \<open>
  Allocation, release, switching and scheduling keep the invariant of the environment table.
\<close>

section \<open>States with the same table\<close>

definition same_table :: "kernel \<Rightarrow> kernel \<Rightarrow> bool" where
  "same_table k k' \<longleftrightarrow> env_free_list k' = env_free_list k \<and> total_tickets k' = total_tickets k \<and>
     (\<forall>i. env_id (envs k' i) = env_id (envs k i) \<and> env_link (envs k' i) = env_link (envs k i) \<and>
        tickets (envs k' i) = tickets (envs k i) \<and>
        (env_status (envs k' i) = ENV_FREE \<longleftrightarrow> env_status (envs k i) = ENV_FREE) \<and>
        (env_pgdir (envs k i) \<noteq> None \<longrightarrow> env_pgdir (envs k' i) \<noteq> None))"

lemma env_chain_cong:
  "(\<And>i. i \<in> set is \<Longrightarrow> env_link (es' i) = env_link (es i)) \<Longrightarrow> env_chain es' p is = env_chain es p is"
  by (induction "is" arbitrary: p) auto

lemma env_chain_unique: "env_chain es p xs \<Longrightarrow> env_chain es p ys \<Longrightarrow> xs = ys"
proof (induction xs arbitrary: p ys)
  case Nil
  then show ?case by (cases ys) auto
next
  case (Cons x xs)
  then show ?case by (cases ys) auto
qed

lemma live_same: "same_table k k' \<Longrightarrow> live k' = live k"
  by (simp add: same_table_def live_def)

lemma tinv_same:
  assumes "same_table k k'" "tinv b k"
  shows "tinv b k'"
proof -
  have "env_chain (envs k') p is = env_chain (envs k) p is" for p "is"
    using assms(1) by (intro env_chain_cong) (simp add: same_table_def)
  moreover have "table_ok k" "b \<longrightarrow> balanced k" using assms(2) by (auto simp: tinv_def)
  ultimately show ?thesis
    using assms(1) live_same [OF assms(1)]
    by (simp add: tinv_def table_ok_def balanced_def same_table_def)
qed

lemma kinv_same: "same_table k k' \<Longrightarrow> curenv k' = curenv k \<Longrightarrow> kinv b k \<Longrightarrow> kinv b k'"
  using tinv_same live_same by (auto simp: kinv_def cur_ok_def)

lemma kinv_live: "kinv b k \<Longrightarrow> curenv k = Some c \<Longrightarrow> c \<in> live k"
  by (auto simp: kinv_def cur_ok_def)

lemma tinv_pgdirs: "tinv b k \<Longrightarrow> pgdirs_ok k"
  by (auto simp: tinv_def table_ok_def pgdirs_ok_def live_def)

lemma live_less: "tinv b k \<Longrightarrow> i \<in> live k \<Longrightarrow> i < NENV"
  by (auto simp: tinv_def table_ok_def)

lemma upd_env_same:
  assumes "env_id (f (envs k e)) = env_id (envs k e)" "env_link (f (envs k e)) = env_link (envs k e)"
    "tickets (f (envs k e)) = tickets (envs k e)"
    "env_status (f (envs k e)) = ENV_FREE \<longleftrightarrow> env_status (envs k e) = ENV_FREE"
    "env_pgdir (envs k e) \<noteq> None \<longrightarrow> env_pgdir (f (envs k e)) \<noteq> None"
  shows "same_table k (upd_env k e f)"
  using assms by (auto simp: same_table_def upd_env_def)

lemma same_table_refl [simp]: "same_table k k"
  by (simp add: same_table_def)

lemma same_table_trans: "same_table k k' \<Longrightarrow> same_table k' k'' \<Longrightarrow> same_table k k''"
  unfolding same_table_def by simp

lemma same_table_fields [simp]:
  "same_table k (k'\<lparr>vm := v\<rparr>) = same_table k k'" "same_table k (k'\<lparr>console := c\<rparr>) = same_table k k'"
  "same_table k (k'\<lparr>curenv := x\<rparr>) = same_table k k'" "same_table k (k'\<lparr>holding := h\<rparr>) = same_table k k'"
  "same_table k (k'\<lparr>cpu_halted := h\<rparr>) = same_table k k'"
  "same_table k (k'\<lparr>sched_calls := n\<rparr>) = same_table k k'"
  "same_table k (k'\<lparr>timer_int_counter := n\<rparr>) = same_table k k'"
  "same_table k (k'\<lparr>prev_random := r\<rparr>) = same_table k k'"
  by (simp_all add: same_table_def)

lemma kinv_fields [simp]:
  "kinv b (k\<lparr>vm := v\<rparr>) = kinv b k" "kinv b (k\<lparr>console := c\<rparr>) = kinv b k"
  "kinv b (k\<lparr>holding := h\<rparr>) = kinv b k" "kinv b (k\<lparr>cpu_halted := h\<rparr>) = kinv b k"
  "kinv b (k\<lparr>sched_calls := n\<rparr>) = kinv b k" "tinv b (k\<lparr>vm := v\<rparr>) = tinv b k"
  "tinv b (k\<lparr>curenv := x\<rparr>) = tinv b k" "kinv b (k\<lparr>timer_int_counter := i\<rparr>) = kinv b k"
  by (simp_all add: kinv_def tinv_def table_ok_def balanced_def live_def cur_ok_def)

section \<open>Switching and scheduling\<close>

lemma switched_same:
  assumes "env_status (envs k e) \<noteq> ENV_FREE"
  shows "same_table k (switched e k)"
proof -
  have "env_status (envs (switched e k) i) = ENV_FREE \<longleftrightarrow> env_status (envs k i) = ENV_FREE" for i
    using assms running_curD [of k i] by (cases "i = e") (auto simp: switched_status)
  then show ?thesis by (simp add: same_table_def)
qed

lemma env_run_keeps:
  assumes "tinv b k" "e \<in> live k"
  shows "keeps (kinv b) (env_run e k :: 'r outcome \<times> kernel)"
proof (cases "holding k")
  case True
  have "env_pgdir (envs k e) \<noteq> None"
    using assms by (auto simp: tinv_def table_ok_def)
  moreover have "env_status (envs k e) \<noteq> ENV_FREE" using assms(2) by (simp add: live_def)
  ultimately show ?thesis
    using True assms tinv_same [OF switched_same] live_same [OF switched_same]
    by (simp add: env_run_eq kinv_def cur_ok_def)
next
  case False
  then have "fst (env_run e k :: 'r outcome \<times> kernel) = Panic"
    by (auto simp: env_run_def env_load_pgdir_def unlock_kernel_def bind_outcome_def Let_def
        split: option.split)
  then show ?thesis by (simp add: keeps_def)
qed

lemma sched_halt_keeps:
  "kinv b k \<Longrightarrow> keeps (kinv b) (sched_halt k)"
  by (simp add: sched_halt_eq kinv_def cur_ok_def tinv_def table_ok_def balanced_def live_def)

lemma kinv_prev_random [simp]:
  "kinv b (k\<lparr>prev_random := r\<rparr>) = kinv b k" "tinv b (k\<lparr>prev_random := r\<rparr>) = tinv b k"
  "live (k\<lparr>prev_random := r\<rparr>) = live k"
  by (simp_all add: kinv_def tinv_def table_ok_def balanced_def live_def cur_ok_def)

lemma sched_yield_keeps:
  assumes "kinv b k"
  shows "keeps (kinv b) (sched_yield pol k :: 'r outcome \<times> kernel)"
proof -
  let ?k = "k\<lparr>sched_calls := sched_calls k + 1\<rparr>"
  have ok: "kinv b ?k" using assms by simp
  obtain r where k1: "snd (choose_env pol ?k) = ?k\<lparr>prev_random := r\<rparr>"
    using scheduling_policy.pick_state [OF policy, of pol ?k] by auto
  show ?thesis
  proof (cases "fst (choose_env pol ?k)")
    case None
    then show ?thesis
      using sched_halt_keeps [of b "?k\<lparr>prev_random := r\<rparr>"] ok k1
      by (simp add: sched_yield_dispatch dispatch_choice_def split_beta)
  next
    case (Some e)
    from scheduling_policy.picked [OF policy Some] have "e \<in> live ?k"
      by (auto simp: live_def)
    moreover have "tinv b ?k" using ok by (simp add: kinv_def)
    ultimately have "keeps (kinv b) (env_run e (?k\<lparr>prev_random := r\<rparr>) :: 'r outcome \<times> kernel)"
      by (intro env_run_keeps) simp_all
    then show ?thesis using Some k1 by (simp add: sched_yield_dispatch dispatch_choice_def split_beta)
  qed
qed

section \<open>Allocation and release\<close>

lemma tinv_finite: "tinv b k \<Longrightarrow> finite (live k)"
  by (auto simp: tinv_def table_ok_def intro: finite_subset)

lemma tinv_chain:
  assumes "tinv b k"
  obtains fl where "env_chain (envs k) (env_free_list k) fl" "distinct fl" "set fl = {..<NENV} - live k"
  using assms by (auto simp: tinv_def table_ok_def)

text \<open>Taking the first slot of the free list and making it live.\<close>

lemma tinv_take:
  assumes "tinv b k" "env_free_list k = Some e" "env_pgdir (envs k e) \<noteq> None"
    "\<And>x. env_link (g x) = env_link x" "\<And>x. env_pgdir (g x) = env_pgdir x"
    "env_status (g (envs k e)) \<noteq> ENV_FREE" "env_id (g (envs k e)) = next_env_id old e"
  defines "k' \<equiv> (upd_env k e g)\<lparr>total_tickets := total_tickets k + tickets (g (envs k e)),
                                 env_free_list := env_link (envs k e)\<rparr>"
  shows "tinv b k'" "e < NENV" "e \<notin> live k" "live k' = insert e (live k)"
proof -
  obtain fl where fl: "env_chain (envs k) (env_free_list k) fl" "distinct fl"
    "set fl = {..<NENV} - live k" by (rule tinv_chain [OF assms(1)])
  then obtain fl' where fl': "fl = e # fl'" "env_chain (envs k) (env_link (envs k e)) fl'"
    using assms(2) by (cases fl) auto
  then show e: "e < NENV" "e \<notin> live k" using fl(3) by auto
  show l: "live k' = insert e (live k)"
    using assms(6) by (auto simp: live_def k'_def upd_env_def)
  have ok: "live k \<subseteq> {..<NENV}" "\<forall>i \<in> live k. ENVX (env_id (envs k i)) = i \<and> env_pgdir (envs k i) \<noteq> None"
    "\<forall>i. 0 \<le>s env_id (envs k i)" "b \<longrightarrow> balanced k"
    using assms(1) by (auto simp: tinv_def table_ok_def)
  have "env_chain (envs k') (env_free_list k') fl'"
    using fl'(2) assms(4) env_chain_cong [of fl' "envs k'" "envs k"]
    by (simp add: k'_def upd_env_def)
  moreover have "distinct fl'" "set fl' = {..<NENV} - live k'"
    using fl fl'(1) l by auto
  moreover have "\<forall>i \<in> live k'. ENVX (env_id (envs k' i)) = i \<and> env_pgdir (envs k' i) \<noteq> None"
    using ok(2) e l assms(3,5,7) by (auto simp: k'_def upd_env_def ENVX_next)
  moreover have "0 \<le>s next_env_id old e" using next_env_id_pos [OF e(1), of old]
    by (simp add: word_sle_eq word_sless_alt)
  then have "\<forall>i. 0 \<le>s env_id (envs k' i)"
    using ok(3) assms(7) by (auto simp: k'_def upd_env_def)
  ultimately have "table_ok k'" using e ok(1) l unfolding table_ok_def by auto
  moreover have "balanced k'" if b
  proof -
    have "(\<Sum>i \<in> insert e (live k). tickets (envs k' i)) =
        tickets (envs k' e) + (\<Sum>i \<in> live k. tickets (envs k' i))"
      using e(2) tinv_finite [OF assms(1)] by simp
    also have "(\<Sum>i \<in> live k. tickets (envs k' i)) = (\<Sum>i \<in> live k. tickets (envs k i))"
      using e(2) by (intro sum.cong) (auto simp: k'_def upd_env_def)
    finally show ?thesis using ok(4) that l by (simp add: balanced_def k'_def)
  qed
  ultimately show "tinv b k'" by (simp add: tinv_def)
qed

text \<open>Putting a live slot back.\<close>

lemma tinv_put:
  fixes s :: vm
  assumes "table_ok k" "e \<in> live k"
  defines "k' \<equiv> (upd_env k e (\<lambda>x. x\<lparr>env_pgdir := None, env_status := ENV_FREE,
      env_link := env_free_list k\<rparr>))\<lparr>env_free_list := Some e, vm := s\<rparr>"
  shows "table_ok k'" "live k' = live k - {e}"
    "balanced (k\<lparr>total_tickets := t\<rparr>) \<Longrightarrow> total_tickets k = t - tickets (envs k e) \<Longrightarrow> balanced k'"
proof -
  obtain fl where fl: "env_chain (envs k) (env_free_list k) fl" "distinct fl"
    "set fl = {..<NENV} - live k" using assms(1) by (auto simp: table_ok_def)
  show l: "live k' = live k - {e}" by (auto simp: live_def k'_def upd_env_def)
  have e: "e < NENV" "e \<notin> set fl" using assms(1,2) fl(3) by (auto simp: table_ok_def)
  then have "env_chain (envs k') p fl = env_chain (envs k) p fl" for p
    by (intro env_chain_cong) (auto simp: k'_def upd_env_def)
  then have "env_chain (envs k') (env_free_list k') (e # fl)"
    using fl(1) by (simp add: k'_def upd_env_def)
  moreover have "distinct (e # fl)" "set (e # fl) = {..<NENV} - live k'" using fl e l by auto
  moreover have "\<forall>i \<in> live k'. ENVX (env_id (envs k' i)) = i \<and> env_pgdir (envs k' i) \<noteq> None"
    "\<forall>i. 0 \<le>s env_id (envs k' i)" "live k' \<subseteq> {..<NENV}"
    using assms(1) l by (auto simp: table_ok_def k'_def upd_env_def)
  ultimately show "table_ok k'" unfolding table_ok_def by blast
  assume b: "balanced (k\<lparr>total_tickets := t\<rparr>)" and t: "total_tickets k = t - tickets (envs k e)"
  have "finite (live k)" using assms(1) by (auto simp: table_ok_def intro: finite_subset)
  then have "t = tickets (envs k e) + (\<Sum>i \<in> live k - {e}. tickets (envs k i))"
    using b assms(2) by (simp add: balanced_def live_def sum.remove)
  moreover have "(\<Sum>i \<in> live k - {e}. tickets (envs k' i)) = (\<Sum>i \<in> live k - {e}. tickets (envs k i))"
    by (intro sum.cong) (auto simp: k'_def upd_env_def)
  ultimately show "balanced k'" using t l by (simp add: balanced_def k'_def)
qed

lemma env_setup_vm_cases:
  "(\<exists>k1. env_setup_vm e k = (Panic, k1)) \<or>
   (\<exists>s. env_setup_vm e k = (Ret (- E_NO_MEM), k\<lparr>vm := s\<rparr>)) \<or>
   (\<exists>s d. env_setup_vm e k = (Ret 0, (upd_env k e (\<lambda>x. x\<lparr>env_pgdir := Some d\<rparr>))\<lparr>vm := s\<rparr>))"
  by (auto simp: env_setup_vm_def Let_def split: option.splits prod.splits)

definition new_env :: "u32 \<Rightarrow> nat \<Rightarrow> Env \<Rightarrow> Env" where
  "new_env parent_id e x = x\<lparr>env_id := next_env_id (env_id x) e, env_parent_id := parent_id,
     env_type := 0, env_status := ENV_RUNNABLE, env_runs := 0, env_tf := fresh_tf,
     env_pgfault_upcall := 0, env_ipc_recving := False, tickets := 100\<rparr>"

lemma env_alloc_cases:
  assumes "kinv b k"
  obtains (panic) k1 where "env_alloc p k = (Panic, k1)"
  | (full) "env_free_list k = None" "env_alloc p k = (Ret (- E_NO_FREE_ENV, None), k)"
  | (no_mem) e s where "env_free_list k = Some e" "env_alloc p k = (Ret (- E_NO_MEM, None), k\<lparr>vm := s\<rparr>)"
  | (new) e k' where "env_free_list k = Some e" "env_alloc p k = (Ret (0, Some e), k')" "kinv b k'"
      "e < NENV" "e \<notin> live k" "live k' = insert e (live k)" "curenv k' = curenv k"
      "\<forall>i. i \<noteq> e \<longrightarrow> envs k' i = envs k i"
      "\<exists>d. envs k' e = new_env p e ((envs k e)\<lparr>env_pgdir := Some d\<rparr>)"
proof (cases "env_free_list k")
  case None
  then show ?thesis by (intro full) (simp_all add: env_alloc_def)
next
  case (Some e)
  consider (p) k1 where "env_setup_vm e k = (Panic, k1)"
    | (m) s where "env_setup_vm e k = (Ret (- E_NO_MEM), k\<lparr>vm := s\<rparr>)"
    | (ok) s d where "env_setup_vm e k = (Ret 0, (upd_env k e (\<lambda>x. x\<lparr>env_pgdir := Some d\<rparr>))\<lparr>vm := s\<rparr>)"
    using env_setup_vm_cases [of e k] by blast
  then show ?thesis
  proof cases
    case p
    then show ?thesis using Some by (intro panic [of k1]) (simp add: env_alloc_def bind_outcome_def)
  next
    case m
    then show ?thesis using Some
      by (intro no_mem [of e s]) (simp_all add: env_alloc_def bind_outcome_def E_NO_MEM_def)
  next
    case ok
    let ?k1 = "(upd_env k e (\<lambda>x. x\<lparr>env_pgdir := Some d\<rparr>))\<lparr>vm := s\<rparr>"
    let ?k' = "(upd_env ?k1 e (new_env p e))\<lparr>total_tickets := total_tickets ?k1 + tickets (new_env p e (envs ?k1 e)),
        env_free_list := env_link (envs ?k1 e)\<rparr>"
    have same: "same_table k ?k1" by (simp add: upd_env_same)
    have t: "tinv b ?k1" "live ?k1 = live k"
      using tinv_same [OF same] live_same [OF same] assms by (auto simp: kinv_def)
    have new: "tinv b ?k'" "e < NENV" "e \<notin> live ?k1" "live ?k' = insert e (live ?k1)"
      by (rule tinv_take [where g = "new_env p e" and e = e and old = "env_id (envs ?k1 e)", OF t(1)];
          simp add: Some new_env_def)+
    have "env_alloc p k = (Ret (0, Some e), ?k')"
      using Some ok by (simp add: env_alloc_def bind_outcome_def Let_def new_env_def [abs_def])
    moreover have "kinv b ?k'" "curenv ?k' = curenv k"
      using new(1,4) t(2) assms by (auto simp: kinv_def cur_ok_def)
    moreover have "\<forall>i. i \<noteq> e \<longrightarrow> envs ?k' i = envs k i" by simp
    moreover have "envs ?k' e = new_env p e ((envs k e)\<lparr>env_pgdir := Some d\<rparr>)" by simp
    ultimately show ?thesis using that(4) [of e ?k'] Some new(2-4) t(2) by metis
  qed
qed

lemma env_alloc_keeps: "kinv b k \<Longrightarrow> keeps (kinv b) (env_alloc p k)"
  by (rule env_alloc_cases [of b k p]) simp_all

lemma env_free_cases:
  "(\<exists>k1. env_free e k = (Panic, k1)) \<or>
   (\<exists>s. env_free e k = (Ret (), (upd_env k e (\<lambda>x. x\<lparr>env_pgdir := None, env_status := ENV_FREE,
      env_link := env_free_list k\<rparr>))\<lparr>env_free_list := Some e, vm := s\<rparr>))"
  by (auto simp: env_free_def Let_def split: option.splits)

lemma env_destroy_keeps:
  assumes "kinv b k" "e \<in> live k"
  shows "keeps (kinv b) (env_destroy pol e k)"
proof (cases "env_status (envs k e) = ENV_RUNNING \<and> curenv k \<noteq> Some e")
  case True
  then have "same_table k (upd_env k e (\<lambda>x. x\<lparr>env_status := ENV_DYING\<rparr>))"
    by (intro upd_env_same) simp_all
  with True assms(1) show ?thesis by (simp add: env_destroy_def kinv_same)
next
  case False
  let ?k = "k\<lparr>total_tickets := total_tickets k - tickets (envs k e)\<rparr>"
  from env_free_cases [of e ?k] show ?thesis
  proof (elim disjE exE)
    fix k1 assume "env_free e ?k = (Panic, k1)"
    with False show ?thesis by (auto simp: env_destroy_def bind_outcome_def)
  next
    fix s
    let ?k' = "(upd_env ?k e (\<lambda>x. x\<lparr>env_pgdir := None, env_status := ENV_FREE,
        env_link := env_free_list ?k\<rparr>))\<lparr>env_free_list := Some e, vm := s\<rparr>"
    assume f: "env_free e ?k = (Ret (), ?k')"
    have tab: "table_ok ?k" "live ?k = live k" "b \<longrightarrow> balanced k"
      using assms(1) by (auto simp: kinv_def tinv_def table_ok_def live_def)
    then have put: "table_ok ?k'" "live ?k' = live k - {e}"
      "balanced (?k\<lparr>total_tickets := t\<rparr>) \<Longrightarrow> total_tickets ?k = t - tickets (envs ?k e) \<Longrightarrow> balanced ?k'"
      for t using tinv_put [where k = ?k and e = e and s = s] assms(2) by (simp_all only: tab(2))
    have t: "tinv b ?k'" using put(1) put(3) [of "total_tickets k"] tab(3)
      by (simp add: tinv_def)
    show ?thesis
    proof (cases "curenv k = Some e")
      case True
      have "kinv b (?k'\<lparr>curenv := None\<rparr>)" using t by (simp add: kinv_def cur_ok_def)
      then have "keeps (kinv b) (sched_yield pol (?k'\<lparr>curenv := None\<rparr>) :: unit outcome \<times> kernel)"
        by (rule sched_yield_keeps)
      with f True False show ?thesis by (simp add: env_destroy_def bind_outcome_def)
    next
      case c: False
      have "kinv b ?k'" using t put(2) c assms(1) by (auto simp: kinv_def cur_ok_def)
      with f c False show ?thesis by (auto simp: env_destroy_def bind_outcome_def)
    qed
  qed
qed

end
