(* ===== verification/JosSyscallInv.thy ===== *)
theory JosSyscallInv
  imports JosEnvKeeps
begin

text \<open>
  Every system call and every trap keeps the invariant of the environment table, under both
  schedulers and for all arguments that a user program can pass.
\<close>

section \<open>Looking up environments\<close>

lemma envid2env_cases:
  assumes "kinv b k"
  obtains (panic) "envid2env envid cp k = (Panic, k)"
  | (none) "envid2env envid cp k = (Ret (0, None), k)" "envid = 0" "curenv k = None"
  | (found) e where "envid2env envid cp k = (Ret (0, Some e), k)" "e \<in> live k"
      "envid = 0 \<and> curenv k = Some e \<or> env_id (envs k e) = envid"
  | (bad) "envid2env envid cp k = (Ret (- E_BAD_ENV, None), k)"
proof (cases "envid = 0")
  case True
  then show ?thesis
  proof (cases "curenv k")
    case None
    with True show ?thesis by (intro none) (simp_all add: envid2env_def)
  next
    case (Some c)
    with True kinv_live [OF assms] show ?thesis by (intro found [of c]) (simp_all add: envid2env_def)
  qed
next
  case False
  let ?e = "ENVX envid"
  show ?thesis
  proof (cases "env_status (envs k ?e) = ENV_FREE \<or> env_id (envs k ?e) \<noteq> envid")
    case True
    with False show ?thesis by (intro bad) (simp add: envid2env_def Let_def)
  next
    case ok: False
    then have e: "?e \<in> live k" "env_id (envs k ?e) = envid" by (auto simp: live_def)
    show ?thesis
    proof (cases "cp \<and> curenv k \<noteq> Some ?e")
      case True
      show ?thesis
      proof (cases "curenv k")
        case None
        with False ok True show ?thesis by (intro panic) (simp add: envid2env_def Let_def)
      next
        case (Some c)
        then show ?thesis
          using False ok True e that(3,4)
          by (cases "env_parent_id (envs k ?e) = env_id (envs k c)") (simp_all add: envid2env_def Let_def)
      qed
    next
      case nc: False
      then show ?thesis using False ok e by (intro found [of ?e]) (auto simp: envid2env_def Let_def)
    qed
  qed
qed

lemma with_env_keeps:
  assumes "kinv b k" "\<And>e. e \<in> live k \<Longrightarrow> keeps (kinv b) (f e k)"
  shows "keeps (kinv b) (with_env envid cp k f)"
  by (rule envid2env_cases [OF assms(1), of envid cp])
    (use assms in \<open>auto simp: with_env_def bind_outcome_def E_BAD_ENV_def\<close>)

lemma with_curenv_keeps:
  assumes "kinv b k" "\<And>c. curenv k = Some c \<Longrightarrow> c \<in> live k \<Longrightarrow> keeps (kinv b) (f c)"
  shows "keeps (kinv b) (with_curenv k f)"
  using assms kinv_live by (auto simp: with_curenv_def split: option.split)

lemma upd_env_keeps:
  assumes "kinv b k" "same_table k (upd_env k e f)"
  shows "kinv b (upd_env k e f)"
  using assms kinv_same [of k "upd_env k e f" b] by simp

section \<open>The calls\<close>

lemma user_mem_assert_keeps:
  assumes "kinv b k" "e \<in> live k"
  shows "keeps (kinv b) (user_mem_assert pol e va len perm k)"
proof -
  have "keeps (kinv b) (env_destroy pol e (k\<lparr>vm := s\<rparr>))" for s
    by (rule env_destroy_keeps) (use assms in \<open>simp_all add: live_def\<close>)
  then show ?thesis using assms
    by (auto simp: user_mem_assert_def split: option.split prod.split)
qed

lemma page_calls_keep:
  assumes "kinv b k"
  shows "keeps (kinv b) (env_page_alloc e va perm k)"
    "keeps (kinv b) (env_page_map se sva de dva perm k)"
  using assms by (auto simp: env_page_alloc_def env_page_map_def Let_def split: option.split prod.split)

lemma ret_int_keeps: "keeps (kinv b) r \<Longrightarrow> (\<And>k1. kinv b k1 \<Longrightarrow> kinv b k1) \<Longrightarrow> keeps (kinv b) (ret_int r)"
  unfolding ret_int_def by (rule keeps_bind_same) auto

lemma sys_page_keeps:
  assumes "kinv b k"
  shows "keeps (kinv b) (sys_page_alloc envid va perm k)"
    "keeps (kinv b) (sys_page_map sid sva did dva perm k)"
    "keeps (kinv b) (sys_page_unmap envid va k)"
proof -
  show "keeps (kinv b) (sys_page_alloc envid va perm k)"
    using assms by (auto simp: sys_page_alloc_def intro!: with_env_keeps ret_int_keeps page_calls_keep)
  show "keeps (kinv b) (sys_page_map sid sva did dva perm k)"
    using assms by (auto simp: sys_page_map_def intro!: with_env_keeps ret_int_keeps page_calls_keep)
  have "keeps (kinv b) (with_env envid True k (\<lambda>env k1.
      case env_pgdir (envs k1 env) of None \<Rightarrow> (Panic, k1)
      | Some pgdir \<Rightarrow> (case page_remove (cur_pgdir k1) pgdir va (vm k1) of
          None \<Rightarrow> (Panic, k1) | Some s \<Rightarrow> (Ret (0 :: u32), k1\<lparr>vm := s\<rparr>))))"
    by (rule with_env_keeps [OF assms]) (use assms in \<open>auto split: option.split\<close>)
  then show "keeps (kinv b) (sys_page_unmap envid va k)"
    using assms by (simp add: sys_page_unmap_def)
qed

lemma sys_cputs_keeps:
  assumes "kinv b k"
  shows "keeps (kinv b) (sys_cputs pol p len k)"
  unfolding sys_cputs_def
proof (rule with_curenv_keeps [OF assms], rule keeps_bind_same)
  fix c assume "c \<in> live k"
  with assms show "keeps (kinv b) (user_mem_assert pol c p len (PTE_P OR PTE_W OR PTE_U) k)"
    by (rule user_mem_assert_keeps)
qed (auto split: option.split)

lemma simple_calls_keep:
  assumes "kinv b k"
  shows "keeps (kinv b) (sys_cgetc k)" "keeps (kinv b) (sys_getenvid k)"
    "keeps (kinv b) (sys_getpriority k)" "keeps (kinv b) (sys_yield pol k :: 'r outcome \<times> kernel)"
proof -
  show "keeps (kinv b) (sys_yield pol k :: 'r outcome \<times> kernel)"
    using assms by (simp add: sys_yield_def sched_yield_keeps)
qed (use assms in \<open>auto simp: sys_cgetc_def sys_getenvid_def sys_getpriority_def with_curenv_def
    split: option.split prod.split\<close>)

text \<open>Changing the tickets of a live environment and the total by the same amount.\<close>

lemma tickets_keep:
  assumes "kinv b k" "c \<in> live k"
  shows "kinv b (upd_env (k\<lparr>total_tickets := total_tickets k - d\<rparr>) c
     (\<lambda>x. x\<lparr>tickets := tickets (envs k c) - d\<rparr>))" (is "kinv b ?k'")
proof -
  have l: "live ?k' = live k" by (auto simp: live_def upd_env_def)
  have "env_chain (envs ?k') p fl = env_chain (envs k) p fl" for p fl
    by (rule env_chain_cong) (simp add: upd_env_def)
  then have "table_ok ?k'"
    using assms(1) l unfolding kinv_def tinv_def table_ok_def by (simp add: upd_env_def)
  moreover have "balanced ?k'" if b
  proof -
    have fin: "finite (live k)" using assms(1) tinv_finite by (auto simp: kinv_def)
    have "total_tickets k = (\<Sum>i \<in> live k. tickets (envs k i))"
      using assms(1) that by (simp add: kinv_def tinv_def balanced_def)
    then have "total_tickets k = tickets (envs k c) + (\<Sum>i \<in> live k - {c}. tickets (envs k i))"
      using fin assms(2) by (simp add: sum.remove)
    moreover have "(\<Sum>i \<in> live k. tickets (envs ?k' i)) =
        tickets (envs k c) - d + (\<Sum>i \<in> live k - {c}. tickets (envs ?k' i))"
      using fin assms(2) by (simp add: sum.remove)
    moreover have "(\<Sum>i \<in> live k - {c}. tickets (envs ?k' i)) = (\<Sum>i \<in> live k - {c}. tickets (envs k i))"
      by (intro sum.cong) (auto simp: upd_env_def)
    ultimately show ?thesis using l by (simp add: balanced_def)
  qed
  ultimately show ?thesis using assms(1) l by (auto simp: kinv_def tinv_def cur_ok_def)
qed

lemma tickets_set_keep:
  assumes "kinv b k" "c \<in> live k"
  shows "kinv b (upd_env (k\<lparr>total_tickets := total_tickets k - (tickets (envs k c) - t)\<rparr>) c
     (\<lambda>x. x\<lparr>tickets := t\<rparr>))"
  using tickets_keep [OF assms, of "tickets (envs k c) - t"] by simp

lemma sys_reduce_priority_keeps:
  assumes "kinv b k"
  shows "keeps (kinv b) (sys_reduce_priority pct k)"
proof -
  have "upd_env k1 c (\<lambda>x. x\<lparr>tickets := tickets x - d\<rparr>) =
      upd_env k1 c (\<lambda>x. x\<lparr>tickets := tickets (envs k1 c) - d\<rparr>)" for k1 c d
    by (simp add: upd_env_def)
  then show ?thesis
    unfolding sys_reduce_priority_def Let_def
    by (intro with_curenv_keeps [OF assms]) (auto simp: tickets_keep [OF assms] tickets_set_keep [OF assms])
qed

lemma reduce_prio_keeps: "kinv b k \<Longrightarrow> kinv b (reduce_current_env_prio k)"
proof -
  assume k: "kinv b k"
  have "upd_env k1 c (\<lambda>x. x\<lparr>tickets := tickets x - d\<rparr>) =
      upd_env k1 c (\<lambda>x. x\<lparr>tickets := tickets (envs k1 c) - d\<rparr>)" for k1 c d
    by (simp add: upd_env_def)
  then show ?thesis
    using tickets_keep [OF k] tickets_set_keep [OF k] kinv_live [OF k] k
    by (auto simp: reduce_current_env_prio_def split: option.split)
qed

lemma sys_env_destroy_keeps:
  assumes "kinv b k"
  shows "keeps (kinv b) (sys_env_destroy pol envid k)"
proof (rule envid2env_cases [OF assms, of envid True])
  fix e assume e: "envid2env envid True k = (Ret (0, Some e), k)" "e \<in> live k"
  have "keeps (kinv b) (bind_outcome (env_destroy pol e k) (\<lambda>_ k2. (Ret (0 :: u32), k2)))"
    using env_destroy_keeps [OF assms e(2)] by (rule keeps_bind_same) simp_all
  with e show ?thesis by (simp add: sys_env_destroy_def bind_outcome_def [of "(Ret _, _)"])
qed (use assms in \<open>simp_all add: sys_env_destroy_def bind_outcome_def E_BAD_ENV_def\<close>)

lemma sys_exofork_keeps:
  assumes "kinv b k"
  shows "keeps (kinv b) (sys_exofork k)"
  unfolding sys_exofork_def
proof (rule with_curenv_keeps [OF assms])
  fix c assume c: "curenv k = Some c" "c \<in> live k"
  show "keeps (kinv b) (bind_outcome (env_alloc (env_id (envs k c)) k) (\<lambda>(r, newenv) k1.
       if r \<noteq> 0 then (Ret (of_int r :: u32), k1)
       else case newenv of None \<Rightarrow> (Panic, k1)
         | Some e \<Rightarrow> (Ret (env_id (envs k1 e)), upd_env k1 e (\<lambda>x. x\<lparr>env_status := ENV_NOT_RUNNABLE,
             env_tf := (env_tf (envs k1 c))\<lparr>tf_regs := (tf_regs (env_tf (envs k1 c)))\<lparr>reg_eax := 0\<rparr>\<rparr>\<rparr>))))"
    by (rule env_alloc_cases [OF assms, of "env_id (envs k c)"])
      (use assms in \<open>auto simp: bind_outcome_def E_NO_FREE_ENV_def E_NO_MEM_def new_env_def
        intro!: upd_env_keeps upd_env_same\<close>)
qed

lemma sys_env_set_status_keeps:
  assumes "kinv b k"
  shows "keeps (kinv b) (sys_env_set_status envid status k)"
  using assms unfolding sys_env_set_status_def
  by (auto simp: status_of_def live_def split: option.split
      intro!: with_env_keeps upd_env_keeps upd_env_same)

lemma sys_env_set_pgfault_upcall_keeps:
  assumes "kinv b k"
  shows "keeps (kinv b) (sys_env_set_pgfault_upcall pol envid func k)"
  unfolding sys_env_set_pgfault_upcall_def
proof (rule with_env_keeps [OF assms], rule keeps_bind_same)
  fix e assume "e \<in> live k"
  with assms show "keeps (kinv b) (user_mem_assert pol e func PGSIZE (PTE_P OR PTE_U) k)"
    by (rule user_mem_assert_keeps)
qed (auto intro!: upd_env_keeps upd_env_same)

section \<open>Interprocess communication\<close>

lemma ipc_deliver_keeps:
  assumes "kinv b k" "dst \<in> live k"
  shows "keeps (kinv b) (ipc_deliver dst val k)"
  unfolding ipc_deliver_def
  by (rule with_curenv_keeps [OF assms(1)])
    (use assms in \<open>auto simp: live_def intro!: upd_env_keeps upd_env_same\<close>)

lemma upd_perm_keeps:
  "kinv b (upd_env k e (\<lambda>x. x\<lparr>env_ipc_perm := p\<rparr>)) = kinv b k"
  "live (upd_env k e (\<lambda>x. x\<lparr>env_ipc_perm := p\<rparr>)) = live k"
proof -
  have same: "same_table k (upd_env k e (\<lambda>x. x\<lparr>env_ipc_perm := p\<rparr>))"
    "same_table (upd_env k e (\<lambda>x. x\<lparr>env_ipc_perm := p\<rparr>)) k"
    by (auto simp: same_table_def upd_env_def)
  show "live (upd_env k e (\<lambda>x. x\<lparr>env_ipc_perm := p\<rparr>)) = live k" by (rule live_same [OF same(1)])
  show "kinv b (upd_env k e (\<lambda>x. x\<lparr>env_ipc_perm := p\<rparr>)) = kinv b k"
    using kinv_same [OF same(1)] kinv_same [OF same(2)] by (metis upd_env_simps(5))
qed

lemma env_page_alloc_vm: "env_page_alloc e va perm k = (r, k1) \<Longrightarrow> \<exists>s. k1 = k\<lparr>vm := s\<rparr>"
proof -
  assume "env_page_alloc e va perm k = (r, k1)"
  moreover have "\<exists>s. k = k\<lparr>vm := s\<rparr>" by (rule exI [of _ "vm k"]) simp
  ultimately show ?thesis
    by (auto simp: env_page_alloc_def Let_def split: if_splits option.splits prod.splits)
qed

lemma env_page_map_vm: "env_page_map se sva de dva perm k = (r, k1) \<Longrightarrow> \<exists>s. k1 = k\<lparr>vm := s\<rparr>"
proof -
  assume "env_page_map se sva de dva perm k = (r, k1)"
  moreover have "\<exists>s. k = k\<lparr>vm := s\<rparr>" by (rule exI [of _ "vm k"]) simp
  ultimately show ?thesis
    by (auto simp: env_page_map_def split: if_splits option.splits prod.splits)
qed

lemma live_vm [simp]: "live (k\<lparr>vm := s\<rparr>) = live k"
  by (simp add: live_def)

lemma ipc_send_page_keeps:
  assumes k: "kinv b k" and dst: "dst \<in> live k"
  shows "keeps (kinv b) (ipc_send_page dst val srcva perm k)"
proof -
  define I where "I k1 \<longleftrightarrow> kinv b k1 \<and> dst \<in> live k1" for k1
  have alloc: "keeps I (env_page_alloc e va p k)" for e va p
    using env_page_alloc_vm [of e va p k] k dst
    by (cases "env_page_alloc e va p k") (auto simp: keeps_def I_def)
  have mapped: "keeps I (env_page_map se sva de dva p k1)" if "I k1" for se sva de dva p k1
    using env_page_map_vm [of se sva de dva p k1] that
    by (cases "env_page_map se sva de dva p k1") (auto simp: keeps_def I_def)
  have del: "keeps (kinv b) (ipc_deliver dst val (upd_env k2 dst (\<lambda>x. x\<lparr>env_ipc_perm := p\<rparr>)))"
    if "I k2" for k2 p
    by (rule ipc_deliver_keeps) (use that upd_perm_keeps in \<open>auto simp: I_def\<close>)
  have step: "keeps (kinv b) (bind_outcome (env_page_alloc dst d p k) (\<lambda>r1 k1.
      if r1 < 0 then (Ret (of_int r1), k1)
      else bind_outcome (env_page_map c srcva dst d p k1) (\<lambda>r2 k2.
        if r2 < 0 then (Ret (of_int r2), k2)
        else ipc_deliver dst val (upd_env k2 dst (\<lambda>x. x\<lparr>env_ipc_perm := p\<rparr>)))))" for d p c
  proof (rule keeps_bind [OF alloc])
    fix r1 k1 assume "I k1"
    have "keeps (kinv b) (bind_outcome (env_page_map c srcva dst d p k1) (\<lambda>r2 k2.
        if r2 < 0 then (Ret (of_int r2), k2)
        else ipc_deliver dst val (upd_env k2 dst (\<lambda>x. x\<lparr>env_ipc_perm := p\<rparr>))))"
      by (rule keeps_bind [OF mapped [OF \<open>I k1\<close>]]) (use del in \<open>auto simp: I_def\<close>)
    then show "keeps (kinv b) (if r1 < 0 then (Ret (of_int r1), k1)
      else bind_outcome (env_page_map c srcva dst d p k1) (\<lambda>r2 k2.
        if r2 < 0 then (Ret (of_int r2), k2)
        else ipc_deliver dst val (upd_env k2 dst (\<lambda>x. x\<lparr>env_ipc_perm := p\<rparr>))))"
      using \<open>I k1\<close> by (simp add: I_def)
  qed (simp add: I_def)
  show ?thesis
    unfolding ipc_send_page_def
    by (rule with_curenv_keeps [OF k])
      (use step ipc_deliver_keeps [OF k dst] k in \<open>auto simp: Let_def split: option.split\<close>)
qed

lemma sys_ipc_try_send_keeps:
  assumes "kinv b k"
  shows "keeps (kinv b) (sys_ipc_try_send envid val srcva perm k)"
  unfolding sys_ipc_try_send_def
proof (rule with_env_keeps [OF assms])
  fix e assume e: "e \<in> live k"
  let ?k = "upd_env k e (\<lambda>x. x\<lparr>env_ipc_perm := 0\<rparr>)"
  have "kinv b ?k" "e \<in> live ?k" using e assms upd_perm_keeps by auto
  then show "keeps (kinv b) (if \<not> env_ipc_recving (envs k e) then (Ret (err E_IPC_NOT_RECV), k)
      else if srcva \<ge> UTOP then ipc_deliver e val ?k
      else if srcva mod PGSIZE \<noteq> 0 then (Ret (err E_INVAL), k)
      else ipc_send_page e val srcva perm k)"
    using assms e by (simp add: ipc_deliver_keeps ipc_send_page_keeps)
qed

lemma sys_ipc_recv_keeps:
  assumes "kinv b k"
  shows "keeps (kinv b) (sys_ipc_recv pol dstva k)"
  unfolding sys_ipc_recv_def
proof (rule with_curenv_keeps [OF assms])
  fix c assume c: "curenv k = Some c" "c \<in> live k"
  let ?k1 = "upd_env k c (\<lambda>x. x\<lparr>env_ipc_recving := True\<rparr>)"
  let ?k2 = "upd_env ?k1 c (\<lambda>x. x\<lparr>env_ipc_dstva := dstva, env_status := ENV_NOT_RUNNABLE\<rparr>)"
  have k1: "kinv b ?k1" using assms by (intro upd_env_keeps upd_env_same) auto
  moreover have "kinv b ?k2"
    by (rule upd_env_keeps [OF k1]) (use c in \<open>auto simp: live_def intro!: upd_env_same\<close>)
  ultimately show "keeps (kinv b) (let k1 = ?k1 in
      if bad_va dstva then (Ret (err E_INVAL), k1) else sys_yield pol (upd_env k1 c
            (\<lambda>x. x\<lparr>env_ipc_dstva := dstva, env_status := ENV_NOT_RUNNABLE\<rparr>)))"
    by (simp add: Let_def simple_calls_keep)
qed

section \<open>Dispatch\<close>

lemma syscall_keeps:
  assumes "kinv b k"
  shows "keeps (kinv b) (syscall pol n a1 a2 a3 a4 a5 k)"
proof -
  have "keeps (kinv b) (bind_outcome (sys_cputs pol a1 a2 k) (\<lambda>_ k1. (Ret 0 :: u32 outcome, k1)))"
    by (rule keeps_bind_same [OF sys_cputs_keeps [OF assms]]) auto
  moreover have "keeps (kinv b)
      (bind_outcome (sys_reduce_priority a1 k) (\<lambda>_ k1. sys_env_destroy pol a1 k1))"
    by (rule keeps_bind_same [OF sys_reduce_priority_keeps [OF assms]])
      (simp_all add: sys_env_destroy_keeps)
  ultimately show ?thesis
    using assms
    by (simp add: syscall_def simple_calls_keep sys_env_destroy_keeps sys_exofork_keeps
        sys_env_set_status_keeps sys_page_keeps sys_ipc_recv_keeps sys_ipc_try_send_keeps
        sys_env_set_pgfault_upcall_keeps split: option.split sysno.split)
qed

section \<open>Traps\<close>

lemma set_tf_keeps: "kinv b k \<Longrightarrow> kinv b (set_tf loc f k)"
  by (auto simp: set_tf_def split: option.split intro!: upd_env_keeps upd_env_same)

lemma boost_from_tinv: "kinv False k \<Longrightarrow> kinv False (boost_from i n k)"
proof (induction n arbitrary: i k)
  case (Suc n)
  let ?k = "(upd_env k i (\<lambda>x. x\<lparr>tickets := 100\<rparr>))\<lparr>total_tickets := total_tickets k + 100\<rparr>"
  have l: "live ?k = live k" by (auto simp: live_def upd_env_def)
  have "env_chain (envs ?k) p fl = env_chain (envs k) p fl" for p fl
    by (rule env_chain_cong) (simp add: upd_env_def)
  then have "kinv False ?k"
    using Suc.prems l by (auto simp: kinv_def tinv_def table_ok_def cur_ok_def upd_env_def)
  with Suc show ?case by simp
qed simp

lemma timer_interrupt_keeps: "kinv False k \<Longrightarrow> kinv False (timer_interrupt pol k)"
proof -
  assume k: "kinv False k"
  let ?k = "reduce_current_env_prio k"
  have "kinv False (sched_boost k1)" if "kinv False k1" for k1
  proof -
    have "kinv False (k1\<lparr>boost_calls := boost_calls k1 + 1, total_tickets := 0\<rparr>)"
      using that by (simp add: kinv_def tinv_def table_ok_def cur_ok_def live_def)
    then show ?thesis by (simp add: sched_boost_def boost_from_tinv)
  qed
  then show ?thesis
    using reduce_prio_keeps [OF k] k
    by (auto simp: timer_interrupt_def Let_def split: sched_policy.split)
qed

lemma sched_yield_no_return: "(sched_yield pol k :: 'r outcome \<times> kernel) \<noteq> (Ret x, k1)"
  by (auto simp: sched_yield_def sched_halt_def env_run_def env_load_pgdir_def unlock_kernel_def
      bind_outcome_def Let_def split: option.splits if_splits prod.splits)

lemma user_mem_assert_returns:
  assumes "curenv k = Some c" "user_mem_assert pol c va len perm k = (Ret u, k1)"
  obtains s where "k1 = k\<lparr>vm := s\<rparr>"
proof -
  have "env_destroy pol c (k\<lparr>vm := s\<rparr>) \<noteq> (Ret u, k1)" for s
    using assms(1)
    by (auto simp: env_destroy_def bind_outcome_def env_free_def Let_def sched_yield_no_return
        split: option.splits if_splits)
  then show ?thesis using assms(2) that
    by (auto simp: user_mem_assert_def split: option.splits if_splits prod.splits)
qed

lemma page_fault_keeps:
  assumes "kinv b k"
  shows "keeps (kinv b) (page_fault_handler pol va tf loc k)"
proof -
  have run: "keeps (kinv b) (env_run c (set_tf loc f k1) :: unit outcome \<times> kernel)"
    if "kinv b k1" "c \<in> live k1" for c f k1
  proof (rule env_run_keeps)
    show "tinv b (set_tf loc f k1)" using set_tf_keeps [OF that(1)] by (simp add: kinv_def)
    show "c \<in> live (set_tf loc f k1)"
      using that(2) by (auto simp: set_tf_def live_def upd_env_def split: option.split)
  qed
  have "keeps (kinv b) (bind_outcome (user_mem_assert pol c exstk PGSIZE (PTE_U OR PTE_W) k)
     (\<lambda>_ k1. case env_pgdir (envs k1 c) of
        None \<Rightarrow> (Panic :: unit outcome, k1)
      | Some pgdir \<Rightarrow>
          (case push_utf pgdir va tf (vm k1) of
             None \<Rightarrow> (Panic :: unit outcome, k1)
           | Some s \<Rightarrow>
               let k2 = k1\<lparr>vm := s\<rparr>; tmp = utf_address (tf_esp tf) in
               if tmp < exstk \<or> tmp > exstk_top then (Panic, k2)
               else env_run c (set_tf loc (\<lambda>t. t\<lparr>tf_esp := tmp,
                      tf_eip := env_pgfault_upcall (envs k2 c)\<rparr>) k2))))"
    if c: "c \<in> live k" "curenv k = Some c" for c
  proof (rule keeps_bind_same [OF user_mem_assert_keeps [OF assms c(1)]])
    fix x k1 assume r: "user_mem_assert pol c exstk PGSIZE (PTE_U OR PTE_W) k = (Ret x, k1)" "kinv b k1"
    then have "c \<in> live k1"
      using user_mem_assert_returns [OF c(2) r(1)] c(1) by (metis live_vm)
    with r show "keeps (kinv b) (case env_pgdir (envs k1 c) of
        None \<Rightarrow> (Panic :: unit outcome, k1)
      | Some pgdir \<Rightarrow>
          (case push_utf pgdir va tf (vm k1) of
             None \<Rightarrow> (Panic :: unit outcome, k1)
           | Some s \<Rightarrow>
               let k2 = k1\<lparr>vm := s\<rparr>; tmp = utf_address (tf_esp tf) in
               if tmp < exstk \<or> tmp > exstk_top then (Panic, k2)
               else env_run c (set_tf loc (\<lambda>t. t\<lparr>tf_esp := tmp,
                      tf_eip := env_pgfault_upcall (envs k2 c)\<rparr>) k2)))"
      by (auto simp: Let_def intro!: run split: option.split)
  qed simp
  moreover have "keeps (kinv b) (env_destroy pol c k)" if "c \<in> live k" for c
    using env_destroy_keeps [OF assms that] .
  ultimately show ?thesis
    using assms kinv_live [OF assms]
    by (auto simp: page_fault_handler_def with_curenv_def split: option.split)
qed

end
