(* ===== verification/JosEnvSpec.thy ===== *)
theory JosEnvSpec
  imports JosSyscallInv
begin

text \<open>
  What the environment table promises: the invariant holds after \<open>env_init\<close> and after every
  system call and trap, identifiers are not reused, and an environment cannot touch those that
  are neither itself nor its children.
\<close>

section \<open>The initial table\<close>

lemma env_chain_upt:
  assumes "a < n" "\<And>i. a \<le> i \<Longrightarrow> i < n \<Longrightarrow> env_link (es i) = (if i + 1 < n then Some (i + 1) else None)"
  shows "env_chain es (Some a) [a..<n]"
  using assms
proof (induction "n - a" arbitrary: a)
  case (Suc d)
  show ?case
  proof (cases "a + 1 < n")
    case True
    then have "env_chain es (Some (a + 1)) [a + 1..<n]" using Suc by auto
    with True Suc.prems show ?thesis by (simp add: upt_conv_Cons)
  next
    case False
    with Suc.prems have "n = Suc a" by simp
    with Suc.prems show ?thesis by simp
  qed
qed simp

definition linked_env :: "nat \<Rightarrow> Env" where
  "linked_env i = (demo_env i (demo_status i))\<lparr>env_link := (if i + 1 < NENV then Some (i + 1) else None),
     env_id := (if i < NENV then 0x1000 OR of_nat i else 0)\<rparr>"

definition linked_kernel :: kernel where
  "linked_kernel = (demo_kernel demo_status)\<lparr>envs := linked_env\<rparr>"

lemma linked_simps [simp]:
  "envs linked_kernel = linked_env" "curenv linked_kernel = Some 0" "env_free_list linked_kernel = Some 3"
  "total_tickets linked_kernel = 300" "env_status (linked_env i) = demo_status i"
  "tickets (linked_env i) = 100" "env_pgdir (linked_env i) = Some 0x3000"
  "env_parent_id (linked_env i) = 0" "\<not> env_ipc_recving (linked_env i)" "holding linked_kernel"
  "env_id (linked_env i) = (if i < NENV then 0x1000 OR of_nat i else 0)"
  by (simp_all add: linked_kernel_def linked_env_def demo_kernel_def demo_env_def)

lemma live_linked: "live linked_kernel = {0, 1, 2}"
  by (auto simp: live_def demo_status_def)

lemma linked_ok: "kinv True linked_kernel"
proof -
  have "env_chain (envs linked_kernel) (Some 3) [3..<NENV]"
    by (rule env_chain_upt) (simp_all add: NENV_eq linked_env_def)
  moreover have "set [3..<NENV] = {..<NENV} - live linked_kernel"
    by (auto simp: live_linked)
  ultimately have "\<exists>fl. env_chain (envs linked_kernel) (env_free_list linked_kernel) fl \<and> distinct fl \<and>
      set fl = {..<NENV} - live linked_kernel"
    by (intro exI [of _ "[3..<NENV]"]) simp
  moreover have id: "ENVX (0x1000 OR of_nat i) = i" "0 \<le>s (0x1000 OR of_nat i :: u32)" if "i < NENV" for i
  proof -
    have g: "generation 0 = 0x1000" by (simp add: generation_def word_sle_eq)
    show "ENVX (0x1000 OR of_nat i) = i" using ENVX_next [OF that, of 0] by (simp add: next_env_id_eq g)
    show "0 \<le>s (0x1000 OR of_nat i :: u32)"
      using next_env_id_pos [OF that, of 0] by (simp add: next_env_id_eq g word_sle_eq word_sless_alt)
  qed
  moreover have "live linked_kernel \<subseteq> {..<NENV}" by (simp add: live_linked NENV_eq)
  moreover have "\<forall>i \<in> live linked_kernel. ENVX (env_id (linked_env i)) = i"
    using id(1) calculation by (metis linked_simps(11) lessThan_iff subsetD)
  moreover have "\<forall>i. 0 \<le>s env_id (linked_env i)" using id(2) by (simp add: word_sle_eq)
  ultimately have "table_ok linked_kernel" by (simp add: table_ok_def)
  moreover have "balanced linked_kernel" by (simp add: balanced_def live_linked)
  ultimately show ?thesis by (simp add: kinv_def tinv_def cur_ok_def live_linked)
qed

text \<open>
  C36. \<open>env_init\<close> establishes the invariant: from any contents of memory in which no tickets
  are counted and no environment is current, all slots are free, the free list holds each
  of them exactly once and in order, and identifiers, free list and tickets are consistent.
\<close>

theorem env_init_establishes:
  assumes "total_tickets k = 0" "curenv k = None" "\<forall>i \<ge> NENV. env_status (envs k i) = ENV_FREE \<and> env_id (envs k i) = 0"
  shows "kinv True (env_init k) \<and> live (env_init k) = {} \<and>
     env_chain (envs (env_init k)) (env_free_list (env_init k)) [0..<NENV]"
proof -
  have st: "env_status (envs (env_init k) i) = ENV_FREE" "env_id (envs (env_init k) i) = 0" for i
    using assms(3) by (auto simp: env_init_def Let_def upd_env_def not_less)
  then have l: "live (env_init k) = {}" by (simp add: live_def)
  have c: "env_chain (envs (env_init k)) (Some 0) [0..<NENV]"
    by (rule env_chain_upt) (auto simp: env_init_def upd_env_def NENV_eq)
  have f: "env_free_list (env_init k) = Some 0" "curenv (env_init k) = None" "total_tickets (env_init k) = 0"
    using assms by (simp_all add: env_init_def)
  have "set [0..<NENV] = {..<NENV}" by auto
  then have "table_ok (env_init k)"
    using c st l f unfolding table_ok_def by (intro conjI exI [of _ "[0..<NENV]"]) auto
  then show ?thesis using c f l by (simp add: kinv_def tinv_def balanced_def cur_ok_def)
qed

theorem env_init_establishes_witness:
  "kinv True (env_init (linked_kernel\<lparr>total_tickets := 0, curenv := None\<rparr>))"
  using env_init_establishes [of "linked_kernel\<lparr>total_tickets := 0, curenv := None\<rparr>"]
  by (simp add: demo_status_def NENV_eq)

section \<open>System calls and traps\<close>

text \<open>
  C11. Every system call, with any number and any arguments, under both schedulers, keeps the
  environment table consistent: whether it returns to its caller, switches to another
  environment, halts or enters the monitor, afterwards the free list holds exactly the free
  slots, live environments have a page directory and an identifier naming their slot, the
  current environment is live, and the count of tickets is that of the live environments
  when it was before.
\<close>

theorem syscall_keeps_invariant:
  assumes "kinv b k"
  shows "case syscall pol n a1 a2 a3 a4 a5 k of (r, k') \<Rightarrow> r \<noteq> Panic \<longrightarrow> kinv b k'"
  using syscall_keeps [OF assms, of pol n a1 a2 a3 a4 a5] by (auto simp: keeps_def split: prod.split)

theorem syscall_keeps_invariant_witness:
  "kinv True (snd (syscall SCHED_ROUND_ROBIN 10 0 4 0 0 0 linked_kernel))"
proof -
  have "fst (syscall SCHED_ROUND_ROBIN 10 0 4 0 0 0 linked_kernel) = Ret 0"
    by (simp add: syscall_def sysno_of_def sys_env_set_status_def status_of_def with_env_def
        envid2env_def bind_outcome_def Let_def)
  then show ?thesis
    using syscall_keeps_invariant [OF linked_ok, of SCHED_ROUND_ROBIN 10 0 4 0 0 0]
    by (simp add: split_beta)
qed

lemma env_free_keeps:
  assumes "kinv False k" "c \<in> live k"
  shows "keeps (tinv False) (env_free c k)"
  using env_free_cases [of c k]
proof (elim disjE exE)
  fix s assume f: "env_free c k = (Ret (), (upd_env k c (\<lambda>x. x\<lparr>env_pgdir := None, env_status := ENV_FREE,
      env_link := env_free_list k\<rparr>))\<lparr>env_free_list := Some c, vm := s\<rparr>)"
  have "table_ok k" using assms by (simp add: kinv_def tinv_def)
  from tinv_put(1) [OF this assms(2), of s] f show ?thesis by (simp add: tinv_def)
qed simp

lemma trap_dispatch_keeps:
  assumes "kinv False k"
  shows "keeps (kinv False) (trap_dispatch pol cr2 tf loc k)"
proof -
  have "keeps (kinv False) (bind_outcome (syscall pol (reg_eax r) (reg_edx r) (reg_ecx r) (reg_ebx r)
      (reg_edi r) (reg_esi r) k)
     (\<lambda>v k1. (Ret (), set_tf loc (\<lambda>t. t\<lparr>tf_regs := (tf_regs t)\<lparr>reg_eax := v\<rparr>\<rparr>) k1)))" for r
    by (rule keeps_bind_same [OF syscall_keeps [OF assms]]) (simp_all add: set_tf_keeps)
  then show ?thesis
    using assms kinv_live [OF assms]
    by (auto simp: trap_dispatch_def Let_def page_fault_keeps sched_yield_keeps timer_interrupt_keeps
        env_destroy_keeps intro!: with_curenv_keeps)
qed

lemma trap_return_keeps:
  assumes "kinv b k"
  shows "keeps (kinv b) (trap_return pol k)"
proof -
  have "tinv b k" using assms by (simp add: kinv_def)
  then show ?thesis
    using assms kinv_live [OF assms] env_run_keeps [of b k]
    by (auto simp: trap_return_def sched_yield_keeps split: option.split)
qed

lemma lock_kernel_keeps: "kinv b k \<Longrightarrow> keeps (kinv b) (lock_kernel k)"
  by (simp add: lock_kernel_def)

lemma trap_keeps:
  assumes "kinv False k"
  shows "keeps (kinv False) (trap pol cr2 tf k)"
proof -
  have disp: "keeps (kinv False) (bind_outcome (trap_dispatch pol cr2 tf loc k1) (\<lambda>_. trap_return pol))"
    if "kinv False k1" for loc k1
    by (rule keeps_bind_same [OF trap_dispatch_keeps [OF that]]) (simp_all add: trap_return_keeps)
  have dying: "keeps (kinv False) (bind_outcome (env_free c k2)
      (\<lambda>_ k3. sched_yield pol (k3\<lparr>curenv := None\<rparr>) :: unit outcome \<times> kernel))"
    if "kinv False k2" "c \<in> live k2" for c k2
  proof -
    have "env_free c k2 = (r, k3) \<Longrightarrow> r = Panic \<or> (r = Ret () \<and> tinv False k3)" for r k3
      using env_free_cases [of c k2] env_free_keeps [OF that] by auto
    moreover have "tinv False k3 \<Longrightarrow> kinv False (k3\<lparr>curenv := None\<rparr>)" for k3
      by (simp add: kinv_def cur_ok_def)
    ultimately show ?thesis
      using sched_yield_keeps [where pol = pol and b = False and 'r = unit]
      by (cases "env_free c k2") (auto simp: bind_outcome_def)
  qed
  have saved: "kinv False (upd_env k2 c (\<lambda>x. x\<lparr>env_tf := tf\<rparr>))" if "kinv False k2" for c k2
    using that by (intro upd_env_keeps upd_env_same) simp_all
  define user where "user k2 = (case curenv k2 of
        None \<Rightarrow> (Panic, k2)
      | Some c \<Rightarrow>
          if env_status (envs k2 c) = ENV_DYING
          then bind_outcome (env_free c k2) (\<lambda>_ k3. sched_yield pol (k3\<lparr>curenv := None\<rparr>))
          else bind_outcome
                 (trap_dispatch pol cr2 tf (Some c) (upd_env k2 c (\<lambda>x. x\<lparr>env_tf := tf\<rparr>)))
                 (\<lambda>_. trap_return pol))" for k2
  have user: "keeps (kinv False) (user k2)" if "kinv False k2" for k2
    using dying [OF that kinv_live [OF that]] disp saved that
    by (auto simp: user_def split: option.split)
  have enter: "keeps (kinv False) (if tf_cs tf AND 3 = 3 then bind_outcome (lock_kernel k1) (\<lambda>_ k2. user k2)
       else bind_outcome (trap_dispatch pol cr2 tf None k1) (\<lambda>_. trap_return pol))"
    if "kinv False k1" for k1
  proof -
    have "keeps (kinv False) (bind_outcome (lock_kernel k1) (\<lambda>_ k2. user k2))"
      by (rule keeps_bind_same [OF lock_kernel_keeps [OF that]]) (simp_all add: user)
    with disp [OF that] show ?thesis by simp
  qed
  have locked: "keeps (kinv False)
      (if cpu_halted k then lock_kernel (k\<lparr>cpu_halted := False\<rparr>) else (Ret (), k))"
    using assms by (simp add: lock_kernel_keeps)
  have "keeps (kinv False) (bind_outcome
      (if cpu_halted k then lock_kernel (k\<lparr>cpu_halted := False\<rparr>) else (Ret (), k)) (\<lambda>_ k1.
        if tf_cs tf AND 3 = 3 then bind_outcome (lock_kernel k1) (\<lambda>_ k2. user k2)
        else bind_outcome (trap_dispatch pol cr2 tf None k1) (\<lambda>_. trap_return pol)))"
    by (rule keeps_bind_same [OF locked]) (simp_all add: enter)
  then show ?thesis using assms by (simp add: trap_def user_def cong: if_cong)
qed

text \<open>
  C3. Every trap, from user mode or from the kernel, of any kind and with any frame, keeps the
  environment table consistent, including the release of an environment that was marked as
  dying on another CPU, page faults that destroy the environment, and timer interrupts that
  switch and boost. The balance of the tickets is not claimed: the boost and the release of a
  dying environment break it.
\<close>

theorem trap_keeps_invariant:
  assumes "kinv False k"
  shows "case trap pol cr2 tf k of (r, k') \<Rightarrow> r \<noteq> Panic \<longrightarrow> kinv False k'"
  using trap_keeps [OF assms, of pol cr2 tf] by (auto simp: keeps_def split: prod.split)

lemma kinv_weaken: "kinv b k \<Longrightarrow> kinv False k"
  by (simp add: kinv_def tinv_def)

theorem trap_keeps_invariant_witness:
  "kinv False (snd (trap SCHED_ROUND_ROBIN 0 (fresh_tf\<lparr>tf_trapno := T_BRKPT\<rparr>) (linked_kernel\<lparr>holding := False\<rparr>)))"
proof -
  let ?k = "linked_kernel\<lparr>holding := False\<rparr>" and ?tf = "fresh_tf\<lparr>tf_trapno := T_BRKPT\<rparr>"
  have k: "kinv False ?k" using kinv_weaken [OF linked_ok] by simp
  have cs: "tf_cs ?tf AND 3 = 3" by (simp add: fresh_tf_def GD_UT_def)
  have flags: "\<not> panicstr ?k" "\<not> cpu_halted ?k" by (simp_all add: linked_kernel_def)
  have "fst (trap SCHED_ROUND_ROBIN 0 ?tf ?k) = Monitor"
    using cs flags by (simp add: trap_def lock_kernel_def bind_outcome_def trap_dispatch_def demo_status_def)
  then show ?thesis
    using trap_keeps_invariant [OF k, of SCHED_ROUND_ROBIN 0 ?tf] by (simp add: split_beta)
qed

section \<open>Identifiers\<close>

text \<open>
  C24. When \<open>env_alloc\<close> succeeds, the new environment was free, it is the only slot that
  becomes live, its identifier is positive and looks it up, and the identifier that the slot
  had before no longer names anything; when it fails the table is as before, for lack of a
  free slot or of memory.
\<close>

theorem env_alloc_fresh_identifier:
  assumes "kinv b k"
  shows "case env_alloc p k of
      (Ret (r, x), k') \<Rightarrow>
        (case x of
           Some e \<Rightarrow> r = 0 \<and> e < NENV \<and> e \<notin> live k \<and> live k' = insert e (live k) \<and>
             0 <s env_id (envs k' e) \<and>
             envid2env (env_id (envs k' e)) False k' = (Ret (0, Some e), k') \<and>
             (env_id (envs k e) \<noteq> 0 \<and> ENVX (env_id (envs k e)) = e \<longrightarrow>
               envid2env (env_id (envs k e)) False k' = (Ret (- E_BAD_ENV, None), k'))
         | None \<Rightarrow> (r = - E_NO_FREE_ENV \<and> live k = {..<NENV} \<or> r = - E_NO_MEM) \<and> envs k' = envs k)
    | (Panic, _) \<Rightarrow> True
    | _ \<Rightarrow> False"
proof (rule env_alloc_cases [OF assms, of p])
  assume full: "env_free_list k = None" "env_alloc p k = (Ret (- E_NO_FREE_ENV, None), k)"
  have t: "tinv b k" using assms by (simp add: kinv_def)
  obtain fl where "env_chain (envs k) None fl" "set fl = {..<NENV} - live k"
    using tinv_chain [OF t] full(1) by metis
  moreover have "fl = []" using calculation(1) by (cases fl) auto
  moreover have "live k \<subseteq> {..<NENV}" using t by (auto simp: tinv_def table_ok_def)
  ultimately have "live k = {..<NENV}" by auto
  with full show ?thesis by (simp add: E_NO_FREE_ENV_def)
next
  fix e k'
  assume n: "env_alloc p k = (Ret (0, Some e), k')" "kinv b k'" "e < NENV" "e \<notin> live k"
    "live k' = insert e (live k)" "\<exists>d. envs k' e = new_env p e ((envs k e)\<lparr>env_pgdir := Some d\<rparr>)"
  then have id: "env_id (envs k' e) = next_env_id (env_id (envs k e)) e" by (auto simp: new_env_def)
  have pos: "0 <s env_id (envs k' e)" using next_env_id_pos [OF n(3)] id by simp
  then have nz: "env_id (envs k' e) \<noteq> 0" by (auto simp: word_sless_alt)
  have x: "ENVX (env_id (envs k' e)) = e" using ENVX_next [OF n(3)] id by simp
  have l: "env_status (envs k' e) \<noteq> ENV_FREE" using n(5) by (auto simp: live_def)
  have "envid2env (env_id (envs k' e)) False k' = (Ret (0, Some e), k')"
    using nz x l by (simp add: envid2env_def Let_def)
  moreover have "envid2env (env_id (envs k e)) False k' = (Ret (- E_BAD_ENV, None), k')"
    if "env_id (envs k e) \<noteq> 0" "ENVX (env_id (envs k e)) = e"
    using that next_env_id_fresh [OF n(3), of "env_id (envs k e)"] id
    by (simp add: envid2env_def Let_def)
  ultimately show ?thesis using n pos by simp
qed (simp_all add: E_NO_MEM_def)

text \<open>The small kernel with a free page: slot 3 is taken, and its old identifier \<open>0x1003\<close> names nothing afterwards.\<close>

definition roomy_kernel :: kernel where
  "roomy_kernel = linked_kernel\<lparr>vm := (vm linked_kernel)\<lparr>npages := 8, page_free_list := Some 4\<rparr>\<rparr>"

lemma roomy_ok: "kinv True roomy_kernel"
  using linked_ok unfolding roomy_kernel_def by simp

lemma roomy_alloc: "fst (env_alloc 0 roomy_kernel) = Ret (0, Some 3)"
proof -
  have K: "KADDR s (page2pa 4) = Some (page2pa 4)" if "npages s = 8" for s
    using that by (simp add: KADDR_def page2pa_def PGNUM_def PTXSHIFT_def PGSHIFT_def drop_bit_eq_div)
  have n: "npages (upd_page s p f) = npages s" "npages (zero_page s a) = npages s" for s p f a
    by (simp_all add: upd_page_def zero_page_def)
  obtain v where v: "page_alloc True (vm roomy_kernel) = Some (Some 4, v)" "npages v = 8"
    by (simp add: page_alloc_def roomy_kernel_def K n Let_def)
  then have "fst (env_setup_vm 3 roomy_kernel) = Ret 0" by (simp add: env_setup_vm_def K Let_def)
  then show ?thesis by (cases "env_setup_vm 3 roomy_kernel") (simp add: env_alloc_def roomy_kernel_def bind_outcome_def Let_def)
qed

theorem env_alloc_fresh_identifier_witness:
  "\<exists>k'. env_alloc 0 roomy_kernel = (Ret (0, Some 3), k') \<and> live k' = {0, 1, 2, 3} \<and>
     envid2env (env_id (envs k' 3)) False k' = (Ret (0, Some 3), k') \<and>
     envid2env 0x1003 False k' = (Ret (- E_BAD_ENV, None), k')"
proof -
  obtain k' where k': "env_alloc 0 roomy_kernel = (Ret (0, Some 3), k')" using roomy_alloc by (cases "env_alloc 0 roomy_kernel") auto
  have old: "env_id (envs roomy_kernel 3) = 0x1003" "ENVX 0x1003 = 3" "live roomy_kernel = {0, 1, 2}"
    using live_linked by (simp_all add: roomy_kernel_def NENV_eq ENVX_def live_def)
  show ?thesis
    using env_alloc_fresh_identifier [OF roomy_ok, of 0] unfolding k' by (simp add: old insert_commute)
qed

section \<open>Protection\<close>

text \<open>An environment that is neither the current one nor one of its children.\<close>

definition foreign :: "kernel \<Rightarrow> u32 \<Rightarrow> bool" where
  "foreign k envid \<longleftrightarrow> (\<exists>c. curenv k = Some c \<and> envid \<noteq> 0 \<and>
     (let e = ENVX envid in env_id (envs k e) = envid \<and> env_status (envs k e) \<noteq> ENV_FREE \<and>
        e \<noteq> c \<and> env_parent_id (envs k e) \<noteq> env_id (envs k c)))"

lemma envid2env_foreign: "foreign k envid \<Longrightarrow> envid2env envid True k = (Ret (- E_BAD_ENV, None), k)"
  by (auto simp: foreign_def envid2env_def Let_def)

lemma with_env_foreign:
  "foreign k envid \<Longrightarrow> with_env envid True k f = (Ret (err E_BAD_ENV), k)"
  by (simp add: with_env_def envid2env_foreign bind_outcome_def err_def E_BAD_ENV_def)

lemma with_env_denied:
  assumes "curenv k = Some c" "\<And>x. f x k = (Ret (err E_BAD_ENV), k)"
  shows "with_env envid True k f = (Ret (err E_BAD_ENV), k)"
  using assms by (auto simp: with_env_def envid2env_def bind_outcome_def err_def E_BAD_ENV_def Let_def)

text \<open>The environments that the caller of a system call asks to act on.\<close>

definition targets :: "sysno option \<Rightarrow> u32 \<Rightarrow> u32 \<Rightarrow> u32 set" where
  "targets call a1 a3 = (case call of
     Some SYS_page_map \<Rightarrow> {a1, a3}
   | Some SYS_env_destroy \<Rightarrow> {a1} | Some SYS_env_set_status \<Rightarrow> {a1} | Some SYS_env_set_pgfault_upcall \<Rightarrow> {a1}
   | Some SYS_page_alloc \<Rightarrow> {a1} | Some SYS_page_unmap \<Rightarrow> {a1}
   | _ \<Rightarrow> {})"

text \<open>
  C14. An environment is protected from those that are neither itself nor its parent: none of
  the calls that destroy it, change its status or its page fault handler, allocate or remove its
  pages, map its pages elsewhere (\<open>SYS_page_map\<close> with it as the source) or map pages into it
  (\<open>SYS_page_map\<close> with it as the destination, whatever the source) gets through; each
  returns \<open>E_BAD_ENV\<close>, or \<open>E_INVAL\<close> for the
  arguments it checks first, and the whole kernel state is as before.
\<close>

theorem foreign_env_protected:
  assumes "foreign k envid" "envid \<in> targets (sysno_of n) a1 a3"
  shows "\<exists>v. syscall pol n a1 a2 a3 a4 a5 k = (Ret v, k) \<and> v \<in> {err E_BAD_ENV, err E_INVAL}"
proof -
  obtain c where c: "curenv k = Some c" using assms(1) by (auto simp: foreign_def)
  have destroy: "sys_env_destroy pol envid k = (Ret (err E_BAD_ENV), k)"
    using envid2env_foreign [OF assms(1)]
    by (simp add: sys_env_destroy_def bind_outcome_def err_def E_BAD_ENV_def)
  have dst: "with_env a1 True k (\<lambda>x k1. with_env envid True k1 (f x)) = (Ret (err E_BAD_ENV), k)" for f
    by (rule with_env_denied [OF c]) (rule with_env_foreign [OF assms(1)])
  show ?thesis
  proof (cases "sysno_of n = Some SYS_page_map")
    case True
    then have "a1 = envid \<or> a3 = envid" using assms(2) by (auto simp: targets_def)
    then show ?thesis
      using True with_env_foreign [OF assms(1)] dst by (auto simp: syscall_def sys_page_map_def)
  next
    case False
    then have "a1 = envid \<and> sysno_of n \<in> {Some SYS_env_destroy, Some SYS_env_set_status, Some SYS_env_set_pgfault_upcall,
       Some SYS_page_alloc, Some SYS_page_unmap}"
      using assms(2) by (auto simp: targets_def split: option.splits sysno.splits)
    then show ?thesis
      using destroy with_env_foreign [OF assms(1)]
      by (auto simp: syscall_def sys_env_set_status_def sys_env_set_pgfault_upcall_def sys_page_alloc_def
          sys_page_unmap_def split: option.split)
  qed
qed

text \<open>The current environment 0 tries to map a page of its own into environment 1.\<close>

theorem foreign_env_protected_witness:
  "\<exists>v. syscall SCHED_ROUND_ROBIN 7 0 0x1000 0x1001 0x1000 0 linked_kernel = (Ret v, linked_kernel) \<and>
     v \<in> {err E_BAD_ENV, err E_INVAL}"
proof (rule foreign_env_protected)
  have "ENVX 0x1001 = 1" by (simp add: ENVX_def)
  then show "foreign linked_kernel 0x1001" by (simp add: foreign_def NENV_eq demo_status_def)
  show "0x1001 \<in> targets (sysno_of 7) 0 0x1001" by (simp add: targets_def sysno_of_def Let_def)
qed

section \<open>The boost\<close>

definition boosted :: "kernel \<Rightarrow> nat \<Rightarrow> bool" where
  "boosted k i \<longleftrightarrow> env_status (envs k i) = ENV_RUNNABLE \<or> env_status (envs k i) = ENV_RUNNING"

lemma boost_from_eq:
  "boost_from a n k = k\<lparr>envs := (\<lambda>i. if a \<le> i \<and> i < a + n \<and> boosted k i then (envs k i)\<lparr>tickets := 100\<rparr> else envs k i),
     total_tickets := total_tickets k + 100 * of_nat (card {i. a \<le> i \<and> i < a + n \<and> boosted k i})\<rparr>"
proof (induction n arbitrary: a k)
  case 0
  have "(a \<le> i \<and> i < a + 0 \<and> boosted k i) = False" for i by auto
  then show ?case by (simp only:) simp
next
  case (Suc n)
  have split: "{i. a \<le> i \<and> i < a + Suc n \<and> boosted k i} =
      (if boosted k a then insert a else id) {i. a + 1 \<le> i \<and> i < a + 1 + n \<and> boosted k i}"
    by (auto simp: le_eq_less_or_eq Suc_le_eq)
  show ?case
  proof (cases "boosted k a")
    case False
    then have "boost_from a (Suc n) k = boost_from (a + 1) n k" by (simp add: boosted_def)
    moreover have "{i. a \<le> i \<and> i < a + Suc n \<and> boosted k i} =
        {i. a + 1 \<le> i \<and> i < a + 1 + n \<and> boosted k i}" using split False by simp
    moreover have "(a \<le> i \<and> i < a + Suc n \<and> boosted k i) = (a + 1 \<le> i \<and> i < a + 1 + n \<and> boosted k i)" for i
      using False by (cases "i = a") auto
    ultimately show ?thesis by (simp only: Suc.IH)
  next
    case True
    let ?k = "(upd_env k a (\<lambda>x. x\<lparr>tickets := 100\<rparr>))\<lparr>total_tickets := total_tickets k + 100\<rparr>"
    have b: "boosted ?k i = boosted k i" for i by (simp add: boosted_def upd_env_def)
    have st: "boost_from a (Suc n) k = boost_from (a + 1) n ?k" using True by (simp add: boosted_def)
    have fin: "finite {i. a + 1 \<le> i \<and> i < a + 1 + n \<and> boosted k i}"
      by (rule finite_subset [of _ "{..<a + 1 + n}"]) auto
    have card: "card {i. a \<le> i \<and> i < a + Suc n \<and> boosted k i} =
        Suc (card {i. a + 1 \<le> i \<and> i < a + 1 + n \<and> boosted k i})"
      unfolding split using True fin by simp
    have env: "(if a + 1 \<le> i \<and> i < a + 1 + n \<and> boosted k i then (envs ?k i)\<lparr>tickets := 100\<rparr> else envs ?k i) =
        (if a \<le> i \<and> i < a + Suc n \<and> boosted k i then (envs k i)\<lparr>tickets := 100\<rparr> else envs k i)" for i
      using True by (cases "i = a") (auto simp: upd_env_def)
    show ?thesis
      unfolding st Suc.IH [of "a + 1" ?k] b env card by (simp add: upd_env_def algebra_simps)
  qed
qed

text \<open>
  After a boost the environments that are runnable or running have 100 tickets each and
  the total is exactly theirs; an environment in any other state keeps its tickets but they
  are no longer counted, so the tickets in the table exceed the total by those of the
  environments that are blocked or dying.
\<close>

theorem boost_forgets_blocked:
  assumes "kinv b k"
  shows "let k' = sched_boost k in
     (\<forall>i < NENV. boosted k i \<longrightarrow> tickets (envs k' i) = 100) \<and>
     (\<forall>i < NENV. \<not> boosted k i \<longrightarrow> envs k' i = envs k i) \<and>
     total_tickets k' = 100 * of_nat (card {i. i < NENV \<and> boosted k i}) \<and>
     (\<Sum>i \<in> live k'. tickets (envs k' i)) =
       total_tickets k' + (\<Sum>i \<in> {i \<in> live k. \<not> boosted k i}. tickets (envs k i))"
proof -
  let ?k' = "sched_boost k" and ?B = "{i. i < NENV \<and> boosted k i}" and ?L = "{i \<in> live k. \<not> boosted k i}"
  let ?k0 = "k\<lparr>boost_calls := boost_calls k + 1, total_tickets := 0\<rparr>"
  have b0: "boosted ?k0 i = boosted k i" for i by (simp add: boosted_def)
  have k': "envs ?k' i = (if i < NENV \<and> boosted k i then (envs k i)\<lparr>tickets := 100\<rparr> else envs k i)"
    "total_tickets ?k' = 100 * of_nat (card ?B)" for i
    by (simp_all add: sched_boost_def boost_from_eq b0)
  have t: "live k \<subseteq> {..<NENV}" "finite (live k)"
    using assms tinv_finite by (auto simp: kinv_def tinv_def table_ok_def)
  have l: "live ?k' = live k" by (auto simp: live_def k'(1))
  have part: "live k = ?B \<union> ?L" using t(1) by (auto simp: live_def boosted_def)
  have "(\<Sum>i \<in> live k. tickets (envs ?k' i)) = (\<Sum>i \<in> ?B. tickets (envs ?k' i)) + (\<Sum>i \<in> ?L. tickets (envs ?k' i))"
    by (subst part, rule sum.union_disjoint) (use t(2) in auto)
  also have "(\<Sum>i \<in> ?B. tickets (envs ?k' i)) = (\<Sum>i \<in> ?B. 100)"
    by (rule sum.cong) (simp_all add: k'(1))
  also have "\<dots> = total_tickets ?k'" by (simp add: k'(2))
  also have "(\<Sum>i \<in> ?L. tickets (envs ?k' i)) = (\<Sum>i \<in> ?L. tickets (envs k i))"
    by (rule sum.cong) (simp_all add: k'(1))
  finally show ?thesis using k' l by (simp add: Let_def)
qed

theorem boost_forgets_blocked_witness:
  "total_tickets (sched_boost linked_kernel) = 100 * of_nat (card {i. i < NENV \<and> boosted linked_kernel i})"
  using boost_forgets_blocked [OF linked_ok] by (simp add: Let_def)

end
