(* ===== verification/JosUser.thy ===== *)
theory JosUser
  imports JosSyscall
begin

text \<open>
  sched/lib: the user library around the system calls (syscall.c, exit.c, libmain.c, console.c,
  pgfault.c, ipc.c, fork.c).

  A user program runs in the current environment of the kernel. Its state is the kernel with the
  globals of the library. A system call runs the dispatch of the kernel and returns its result;
  a call that switches to another environment, halts or panics does not come back and is
  \<open>Left\<close>. A memory access goes through the page directory of the environment with the
  rights of user mode; one that faults is \<open>Fault\<close> with its address. A panic of the library is
  \<open>User_panic\<close>. No interrupt arrives between two steps, and local variables are not in the memory of
  the model, so the library's own use of its stack does not fault.
\<close>

record uprog =
  kern :: kernel
  thisenv :: "nat option"
  pgfault_handler :: u32

datatype 'a ures = Value 'a | User_panic | Fault u32 | Left

definition bind_user ::
  "'a ures \<times> uprog \<Rightarrow> ('a \<Rightarrow> uprog \<Rightarrow> 'b ures \<times> uprog) \<Rightarrow> 'b ures \<times> uprog" where
  "bind_user r f = (case r of
     (Value x, s) \<Rightarrow> f x s | (User_panic, s) \<Rightarrow> (User_panic, s) | (Fault a, s) \<Rightarrow> (Fault a, s)
   | (Left, s) \<Rightarrow> (Left, s))"

lemma bind_user_simps [simp]:
  "bind_user (Value x, s) f = f x s" "bind_user (User_panic, s) f = (User_panic, s)"
  "bind_user (Fault a, s) f = (Fault a, s)" "bind_user (Left, s) f = (Left, s)"
  by (simp_all add: bind_user_def)

section \<open>System calls\<close>

fun sysnum :: "sysno \<Rightarrow> u32" where
  "sysnum SYS_cputs = 0"
| "sysnum SYS_cgetc = 1"
| "sysnum SYS_getenvid = 2"
| "sysnum SYS_getpriority = 3"
| "sysnum SYS_reduce_priority = 4"
| "sysnum SYS_env_destroy = 5"
| "sysnum SYS_page_alloc = 6"
| "sysnum SYS_page_map = 7"
| "sysnum SYS_page_unmap = 8"
| "sysnum SYS_exofork = 9"
| "sysnum SYS_env_set_status = 10"
| "sysnum SYS_env_set_pgfault_upcall = 11"
| "sysnum SYS_yield = 12"
| "sysnum SYS_ipc_try_send = 13"
| "sysnum SYS_ipc_recv = 14"

lemma sysno_of_sysnum [simp]: "sysno_of (sysnum n) = Some n"
  by (cases n) (simp_all add: sysno_of_def)

declare sysnum.simps [simp del]

definition int30 ::
  "sched_policy \<Rightarrow> sysno \<Rightarrow> u32 \<Rightarrow> u32 \<Rightarrow> u32 \<Rightarrow> u32 \<Rightarrow> u32 \<Rightarrow> uprog \<Rightarrow> u32 ures \<times> uprog" where
  "int30 pol n a1 a2 a3 a4 a5 s =
     (case syscall pol (sysnum n) a1 a2 a3 a4 a5 (kern s) of
        (Ret v, k) \<Rightarrow> (Value v, s\<lparr>kern := k\<rparr>)
      | (_, k) \<Rightarrow> (Left, s\<lparr>kern := k\<rparr>))"

definition lib_syscall ::
  "sched_policy \<Rightarrow> sysno \<Rightarrow> bool \<Rightarrow> u32 \<Rightarrow> u32 \<Rightarrow> u32 \<Rightarrow> u32 \<Rightarrow> u32 \<Rightarrow> uprog \<Rightarrow> u32 ures \<times> uprog" where
  "lib_syscall pol num check a1 a2 a3 a4 a5 s =
     bind_user (int30 pol num a1 a2 a3 a4 a5 s) (\<lambda>ret s1.
       if check \<and> 0 <s ret then (User_panic, s1) else (Value ret, s1))"

definition lib_cputs where "lib_cputs pol p len = lib_syscall pol SYS_cputs False p len 0 0 0"
definition lib_cgetc where "lib_cgetc pol = lib_syscall pol SYS_cgetc False 0 0 0 0 0"
definition lib_env_destroy where "lib_env_destroy pol envid = lib_syscall pol SYS_env_destroy True envid 0 0 0 0"
definition lib_getenvid where "lib_getenvid pol = lib_syscall pol SYS_getenvid False 0 0 0 0 0"
definition lib_getpriority where "lib_getpriority pol = lib_syscall pol SYS_getpriority False 0 0 0 0 0"
definition lib_reduce_priority where
  "lib_reduce_priority pol percent = lib_syscall pol SYS_reduce_priority True percent 0 0 0 0"
definition lib_yield where "lib_yield pol = lib_syscall pol SYS_yield False 0 0 0 0 0"
definition lib_page_alloc where
  "lib_page_alloc pol envid va perm = lib_syscall pol SYS_page_alloc True envid va perm 0 0"
definition lib_page_map where
  "lib_page_map pol srcenv srcva dstenv dstva perm = lib_syscall pol SYS_page_map True srcenv srcva dstenv dstva perm"
definition lib_page_unmap where
  "lib_page_unmap pol envid va = lib_syscall pol SYS_page_unmap True envid va 0 0 0"
definition lib_exofork where "lib_exofork pol = int30 pol SYS_exofork 0 0 0 0 0"
definition lib_env_set_status where
  "lib_env_set_status pol envid status = lib_syscall pol SYS_env_set_status True envid status 0 0 0"
definition lib_env_set_pgfault_upcall where
  "lib_env_set_pgfault_upcall pol envid upcall = lib_syscall pol SYS_env_set_pgfault_upcall True envid upcall 0 0 0"
definition lib_ipc_try_send where
  "lib_ipc_try_send pol envid val srcva perm = lib_syscall pol SYS_ipc_try_send False envid val srcva perm 0"
definition lib_ipc_recv where "lib_ipc_recv pol dstva = lib_syscall pol SYS_ipc_recv True dstva 0 0 0 0"

text \<open>\<open>if ((r = call) < 0) panic(...)\<close>.\<close>

definition or_panic :: "u32 ures \<times> uprog \<Rightarrow> (uprog \<Rightarrow> 'b ures \<times> uprog) \<Rightarrow> 'b ures \<times> uprog" where
  "or_panic call f = bind_user call (\<lambda>r s. if r <s 0 then (User_panic, s) else f s)"

definition lib_exit :: "sched_policy \<Rightarrow> uprog \<Rightarrow> unit ures \<times> uprog" where
  "lib_exit pol s = bind_user (lib_env_destroy pol 0 s) (\<lambda>_ s1. (Value (), s1))"

text \<open>\<open>umain\<close> is the program.\<close>

definition libmain :: "sched_policy \<Rightarrow> (uprog \<Rightarrow> unit ures \<times> uprog) \<Rightarrow> uprog \<Rightarrow> unit ures \<times> uprog" where
  "libmain pol umain s =
     bind_user (lib_getenvid pol s) (\<lambda>id s1.
       let s2 = (if 0 \<le>s id then s1\<lparr>thisenv := Some (ENVX id)\<rparr> else s1) in
       bind_user (umain s2) (\<lambda>_ s3. lib_exit pol s3))"

text \<open>
  \<open>getchar\<close> waits until a character comes; \<open>resume\<close> stands for what happens until the program runs
  again after it has yielded.
\<close>

partial_function (option) lib_getchar ::
  "(uprog \<Rightarrow> uprog) \<Rightarrow> sched_policy \<Rightarrow> uprog \<Rightarrow> (u32 ures \<times> uprog) option" where
  "lib_getchar resume pol s =
     (case lib_cgetc pol s of
        (Value r, s1) \<Rightarrow>
          if r = 0 then lib_getchar resume pol (resume (snd (lib_yield pol s1))) else Some (Value r, s1)
      | (r, s1) \<Rightarrow> Some (r, s1))"

section \<open>Memory\<close>

definition user_dir :: "uprog \<Rightarrow> u32 option" where
  "user_dir s = (case curenv (kern s) of None \<Rightarrow> None | Some c \<Rightarrow> env_pgdir (envs (kern s) c))"

text \<open>The physical address of a user access; \<open>w\<close> for a write.\<close>

definition user_translate :: "bool \<Rightarrow> vm \<Rightarrow> u32 \<Rightarrow> u32 \<Rightarrow> u32 option" where
  "user_translate w s pgdir va =
     (let pde = read_pte s (pde_at pgdir va); pte = read_pte s (PTE_ADDR pde + 4 * PTX va);
          need = PTE_P OR PTE_U OR (if w then PTE_W else 0)
      in if pde AND need = need \<and> pte AND need = need then Some (PTE_ADDR pte OR PGOFF va) else None)"

definition user_load :: "u32 \<Rightarrow> uprog \<Rightarrow> u32 ures \<times> uprog" where
  "user_load va s =
     (case user_dir s of
        None \<Rightarrow> (Left, s)
      | Some d \<Rightarrow> (case user_translate False (vm (kern s)) d va of
            None \<Rightarrow> (Fault va, s)
          | Some pa \<Rightarrow> (Value (pmem (vm (kern s)) pa), s)))"

definition user_store :: "u32 \<Rightarrow> u32 \<Rightarrow> uprog \<Rightarrow> unit ures \<times> uprog" where
  "user_store va x s =
     (case user_dir s of
        None \<Rightarrow> (Left, s)
      | Some d \<Rightarrow> (case user_translate True (vm (kern s)) d va of
            None \<Rightarrow> (Fault va, s)
          | Some pa \<Rightarrow> (Value (), s\<lparr>kern := (kern s)\<lparr>vm := write_pte (vm (kern s)) pa x\<rparr>\<rparr>)))"

text \<open>\<open>memmove\<close> of whole pages, which are aligned and do not overlap: \<open>n\<close> words upwards.\<close>

fun copy_words :: "nat \<Rightarrow> u32 \<Rightarrow> u32 \<Rightarrow> uprog \<Rightarrow> unit ures \<times> uprog" where
  "copy_words 0 dst src s = (Value (), s)"
| "copy_words (Suc n) dst src s =
     bind_user (user_load src s) (\<lambda>x s1. bind_user (user_store dst x s1) (\<lambda>_ s2.
       copy_words n (dst + 4) (src + 4) s2))"

definition uvpt :: "u32 \<Rightarrow> uprog \<Rightarrow> u32 ures \<times> uprog" where
  "uvpt pn s = user_load (UVPT + 4 * pn) s"

definition uvpd :: "u32 \<Rightarrow> uprog \<Rightarrow> u32 ures \<times> uprog" where
  "uvpd n s = user_load (UVPT + 4 * drop_bit 12 UVPT + 4 * n) s"

definition UTEMP :: u32 where "UTEMP = PTSIZE"
definition PFTEMP :: u32 where "PFTEMP = UTEMP + PTSIZE - PGSIZE"
definition FEC_WR :: u32 where "FEC_WR = 2"

section \<open>Page faults\<close>

text \<open>
  The handler of copy-on-write faults. The condition of its check is
  \<open>(err & FEC_WR) & !(fault_pte & PTE_COW)\<close>, with a bitwise conjunction.
\<close>

definition PTE_COW :: u32 where "PTE_COW = 0x800"

definition pgfault :: "sched_policy \<Rightarrow> u32 \<Rightarrow> u32 \<Rightarrow> uprog \<Rightarrow> unit ures \<times> uprog" where
  "pgfault pol fault_va e s =
     bind_user (uvpt (drop_bit PGSHIFT fault_va) s) (\<lambda>fault_pte s1.
       if (e AND FEC_WR) AND (if fault_pte AND PTE_COW = 0 then 1 else 0) \<noteq> 0 then (User_panic, s1)
       else let perm = PTE_P OR PTE_U OR PTE_W in
         or_panic (lib_page_alloc pol 0 PFTEMP perm s1) (\<lambda>s2.
           let va = ROUNDDOWN fault_va PGSIZE in
           bind_user (copy_words 1024 PFTEMP va s2) (\<lambda>_ s3.
             or_panic (lib_page_map pol 0 PFTEMP 0 va perm s3) (\<lambda>s4.
               or_panic (lib_page_unmap pol 0 PFTEMP s4) (\<lambda>s5. (Value (), s5))))))"

text \<open>\<open>handler\<close> and \<open>upcall\<close> are the addresses of the function and of \<open>_pgfault_upcall\<close>.\<close>

definition set_pgfault_handler :: "sched_policy \<Rightarrow> u32 \<Rightarrow> u32 \<Rightarrow> uprog \<Rightarrow> unit ures \<times> uprog" where
  "set_pgfault_handler pol upcall handler s =
     (if pgfault_handler s = 0 then
        bind_user (lib_page_alloc pol 0 (UXSTACKTOP - PGSIZE) (PTE_U OR PTE_P OR PTE_W) s) (\<lambda>r s1.
          if r <s 0 then (Value (), s1)
          else bind_user (lib_env_set_pgfault_upcall pol 0 upcall s1) (\<lambda>r2 s2.
            if r2 <s 0 then (Value (), s2)
            else (Value (), s2\<lparr>pgfault_handler := handler\<rparr>)))
      else (Value (), s\<lparr>pgfault_handler := handler\<rparr>))"

section \<open>fork\<close>

definition duppage :: "sched_policy \<Rightarrow> u32 \<Rightarrow> u32 \<Rightarrow> uprog \<Rightarrow> u32 ures \<times> uprog" where
  "duppage pol envid pn s =
     (let addr = push_bit PGSHIFT pn in
      bind_user (uvpt pn s) (\<lambda>pte s1.
        if pte AND PTE_P = 0 \<or> pte AND PTE_U = 0 then (User_panic, s1)
        else let perm = PTE_U OR PTE_P;
                 perm1 = (if pte AND (PTE_PCD OR PTE_PWT) \<noteq> 0 then perm OR (PTE_PCD OR PTE_PWT) else perm)
          in if pte AND PTE_W \<noteq> 0 \<or> pte AND PTE_COW \<noteq> 0 then
               or_panic (lib_page_map pol 0 addr envid addr (perm1 OR PTE_COW) s1) (\<lambda>s2.
                 or_panic (lib_page_map pol 0 addr 0 addr (perm1 OR PTE_COW) s2) (\<lambda>s3. (Value 0, s3)))
             else or_panic (lib_page_map pol 0 addr envid addr perm1 s1) (\<lambda>s2. (Value 0, s2))))"

definition dup_or_share :: "sched_policy \<Rightarrow> u32 \<Rightarrow> u32 \<Rightarrow> u32 \<Rightarrow> uprog \<Rightarrow> unit ures \<times> uprog" where
  "dup_or_share pol envid pnum perm0 s =
     (let addr = push_bit PGSHIFT pnum in
      bind_user (uvpt pnum s) (\<lambda>pte s1.
        if pte AND PTE_P = 0 then (Value (), s1)
        else let perm1 = (perm0 AND (pte AND PTE_W)) AND PTE_SYSCALL;
                 perm = (if pte AND (PTE_PCD OR PTE_PWT) \<noteq> 0 then perm1 OR (PTE_PCD OR PTE_PWT) else perm1)
          in if pte AND PTE_W = 0 \<or> pte AND (PTE_PCD OR PTE_PWT) \<noteq> 0
             then or_panic (lib_page_map pol 0 addr envid addr perm s1) (\<lambda>s2. (Value (), s2))
             else or_panic (lib_page_alloc pol envid addr perm s1) (\<lambda>s2.
               or_panic (lib_page_map pol envid addr 0 UTEMP perm s2) (\<lambda>s3.
                 bind_user (copy_words 1024 UTEMP addr s3) (\<lambda>_ s4.
                   or_panic (lib_page_unmap pol 0 UTEMP s4) (\<lambda>s5. (Value (), s5)))))))"

text \<open>The loops over the pages below \<open>UTOP\<close>, \<open>n\<close> pages from \<open>pnum\<close>.\<close>

fun fork_v0_pages :: "sched_policy \<Rightarrow> u32 \<Rightarrow> u32 \<Rightarrow> nat \<Rightarrow> u32 \<Rightarrow> uprog \<Rightarrow> unit ures \<times> uprog" where
  "fork_v0_pages pol envid perm 0 pnum s = (Value (), s)"
| "fork_v0_pages pol envid perm (Suc n) pnum s =
     bind_user (uvpd (drop_bit 10 pnum) s) (\<lambda>pde s1.
       if pde AND PTE_P = 0 \<or> pde AND PTE_U = 0 then fork_v0_pages pol envid perm n (pnum + 1) s1
       else bind_user (dup_or_share pol envid pnum perm s1) (\<lambda>_ s2.
         fork_v0_pages pol envid perm n (pnum + 1) s2))"

fun fork_pages :: "sched_policy \<Rightarrow> u32 \<Rightarrow> nat \<Rightarrow> u32 \<Rightarrow> uprog \<Rightarrow> unit ures \<times> uprog" where
  "fork_pages pol envid 0 pnum s = (Value (), s)"
| "fork_pages pol envid (Suc n) pnum s =
     (if pnum = drop_bit PGSHIFT UXSTACKTOP - 1 then fork_pages pol envid n (pnum + 1) s
      else bind_user (uvpd (drop_bit 10 pnum) s) (\<lambda>pde s1.
        if pde AND PTE_P = 0 \<or> pde AND PTE_U = 0 then fork_pages pol envid n (pnum + 1) s1
        else bind_user (uvpt pnum s1) (\<lambda>pte s2.
          if pte AND PTE_P = 0 \<or> pte AND PTE_U = 0 then fork_pages pol envid n (pnum + 1) s2
          else bind_user (duppage pol envid pnum s2) (\<lambda>_ s3. fork_pages pol envid n (pnum + 1) s3))))"

text \<open>What the child does when \<open>sys_exofork\<close> returns 0 to it.\<close>

definition fork_child :: "sched_policy \<Rightarrow> uprog \<Rightarrow> u32 ures \<times> uprog" where
  "fork_child pol s = bind_user (lib_getenvid pol s) (\<lambda>id s1. (Value 0, s1\<lparr>thisenv := Some (ENVX id)\<rparr>))"

definition fork_v0 :: "sched_policy \<Rightarrow> uprog \<Rightarrow> u32 ures \<times> uprog" where
  "fork_v0 pol s =
     bind_user (lib_exofork pol s) (\<lambda>envid s1.
       if envid <s 0 then (User_panic, s1)
       else if envid = 0 then fork_child pol s1
       else bind_user (fork_v0_pages pol envid (PTE_P OR PTE_U OR PTE_W) (unat (drop_bit PGSHIFT UTOP)) 0 s1) (\<lambda>_ s2.
         or_panic (lib_env_set_status pol envid 2 s2) (\<lambda>s3. (Value envid, s3))))"

text \<open>
  What the parent does with the id of its child. \<open>envs\<close> is mapped read-only for user programs, so
  \<open>thisenv->env_pgfault_upcall\<close> reads the kernel's table.
\<close>

definition fork_parent :: "sched_policy \<Rightarrow> u32 \<Rightarrow> uprog \<Rightarrow> u32 ures \<times> uprog" where
  "fork_parent pol envid s =
     bind_user (fork_pages pol envid (unat (drop_bit PGSHIFT UTOP)) 0 s) (\<lambda>_ s2.
       or_panic (lib_page_alloc pol envid (UXSTACKTOP - PGSIZE) (PTE_U OR PTE_P OR PTE_W) s2) (\<lambda>s3.
         case thisenv s3 of
           None \<Rightarrow> (Fault 0, s3)
         | Some t \<Rightarrow>
             or_panic (lib_env_set_pgfault_upcall pol envid (env_pgfault_upcall (envs (kern s3) t)) s3) (\<lambda>s4.
               or_panic (lib_env_set_status pol envid 2 s4) (\<lambda>s5. (Value envid, s5)))))"

definition fork :: "sched_policy \<Rightarrow> u32 \<Rightarrow> u32 \<Rightarrow> uprog \<Rightarrow> u32 ures \<times> uprog" where
  "fork pol upcall handler s =
     bind_user (set_pgfault_handler pol upcall handler s) (\<lambda>_ s0.
     bind_user (lib_exofork pol s0) (\<lambda>envid s1.
       if envid <s 0 then (User_panic, s1)
       else if envid = 0 then fork_child pol s1
       else fork_parent pol envid s1))"

definition sfork :: "uprog \<Rightarrow> u32 ures \<times> uprog" where
  "sfork s = (User_panic, s)"

section \<open>Messages\<close>

text \<open>
  \<open>resume\<close> stands for what happens until an environment that waits runs again. The results of
  \<open>ipc_recv\<close> are the return value, the sender and the permissions.
\<close>

definition ipc_recv ::
  "(uprog \<Rightarrow> uprog) \<Rightarrow> sched_policy \<Rightarrow> u32 \<Rightarrow> uprog \<Rightarrow> (u32 \<times> u32 \<times> u32) ures \<times> uprog" where
  "ipc_recv resume pol pg s =
     bind_user (case int30 pol SYS_ipc_recv pg 0 0 0 0 s of
                  (Left, s1) \<Rightarrow> let s2 = resume s1 in
                    (case curenv (kern s2) of
                       None \<Rightarrow> (Left, s2)
                     | Some c \<Rightarrow> (Value (reg_eax (tf_regs (env_tf (envs (kern s2) c)))), s2))
                | r \<Rightarrow> r) (\<lambda>e s1.
       if 0 <s e then (User_panic, s1)
       else case thisenv s1 of
         None \<Rightarrow> (Fault 0, s1)
       | Some t \<Rightarrow> let x = envs (kern s1) t in
           if e = 0 then (Value (env_ipc_value x, env_ipc_from x, env_ipc_perm x), s1)
           else (Value (e, 0, 0), s1))"

text \<open>The loop of \<open>ipc_send\<close> goes on as long as the receiver does not wait.\<close>

partial_function (option) ipc_send_loop ::
  "(uprog \<Rightarrow> uprog) \<Rightarrow> sched_policy \<Rightarrow> u32 \<Rightarrow> u32 \<Rightarrow> u32 \<Rightarrow> u32 \<Rightarrow> uprog \<Rightarrow> (unit ures \<times> uprog) option" where
  "ipc_send_loop resume pol to_env val pg perm s =
     (case lib_ipc_try_send pol to_env val pg perm s of
        (Value r, s1) \<Rightarrow>
          if r = err E_IPC_NOT_RECV
          then ipc_send_loop resume pol to_env val pg perm (resume (snd (lib_yield pol s1)))
          else if r <s 0 then Some (User_panic, s1) else Some (Value (), s1)
      | (User_panic, s1) \<Rightarrow> Some (User_panic, s1)
      | (Fault a, s1) \<Rightarrow> Some (Fault a, s1)
      | (Left, s1) \<Rightarrow> Some (Left, s1))"

definition ipc_send ::
  "(uprog \<Rightarrow> uprog) \<Rightarrow> sched_policy \<Rightarrow> u32 \<Rightarrow> u32 \<Rightarrow> u32 \<Rightarrow> u32 \<Rightarrow> uprog \<Rightarrow> (unit ures \<times> uprog) option" where
  "ipc_send resume pol to_env val pg perm s =
     ipc_send_loop resume pol to_env val (if pg = 0 then UTOP else pg) perm s"

definition ipc_find_env :: "nat \<Rightarrow> uprog \<Rightarrow> u32" where
  "ipc_find_env type s =
     (case List.find (\<lambda>i. env_type (envs (kern s) i) = type) [0..<NENV] of
        None \<Rightarrow> 0
      | Some i \<Rightarrow> env_id (envs (kern s) i))"

end
