(* ===== verification/JosPages.thy ===== *)
theory JosPages
  imports JosPmap
begin

text \<open>
  Page tables as functions. An address space is the function that gives for each user
  address the entry of its page; walking, looking up, removing and inserting act on it as
  point updates, and keep the invariant that ties the tables, the free list and the
  reference counts together.
\<close>

section \<open>Address arithmetic\<close>

lemma mask12: "(0xFFF :: u32) = mask 12"
  by (simp add: mask_eq_exp_minus_1)

lemma mask10: "(0x3FF :: u32) = mask 10"
  by (simp add: mask_eq_exp_minus_1)

lemma PTE_ADDR_bits: "bit (PTE_ADDR w) n \<longleftrightarrow> 12 \<le> n \<and> bit w n"
  using bit_imp_le_length [of w n] unfolding PTE_ADDR_def mask12 by (auto simp: bit_simps)

lemma PTE_ADDR_idem [simp]: "PTE_ADDR (PTE_ADDR w) = PTE_ADDR w"
  by (rule bit_word_eqI) (auto simp: PTE_ADDR_bits)

lemma PTE_ADDR_or: "PTE_ADDR (x OR y) = PTE_ADDR x OR PTE_ADDR y"
  by (rule bit_word_eqI) (auto simp: PTE_ADDR_bits bit_simps)

lemma PGNUM_ADDR [simp]: "PGNUM (PTE_ADDR w) = PGNUM w"
  by (rule bit_word_eqI) (auto simp: PGNUM_def PTXSHIFT_def PTE_ADDR_bits bit_simps)

lemma PDX_ADDR [simp]: "PDX (PTE_ADDR w) = PDX w"
  by (rule bit_word_eqI) (auto simp: PDX_def PDXSHIFT_def PTE_ADDR_bits bit_simps)

lemma PTX_ADDR [simp]: "PTX (PTE_ADDR w) = PTX w"
  by (rule bit_word_eqI) (auto simp: PTX_def PTXSHIFT_def PTE_ADDR_bits bit_simps)

lemma low10_less: "w AND 0x3FF < (1024 :: u32)"
proof -
  have "unat (w AND 0x3FF) = take_bit 10 (unat w)"
    by (simp only: mask10 take_bit_eq_mask [symmetric] unsigned_take_bit_eq)
  then show ?thesis by (simp add: word_less_nat_alt take_bit_eq_mod)
qed

lemma PTX_less: "PTX w < 1024"
  unfolding PTX_def by (rule low10_less)

lemma PDX_less: "PDX w < 1024"
  unfolding PDX_def by (rule low10_less)

lemma PDX_bits: "bit (PDX w) n \<longleftrightarrow> n < 10 \<and> bit w (n + 22)"
  unfolding PDX_def mask10 PDXSHIFT_def by (auto simp: bit_simps add.commute)

lemma PTX_bits: "bit (PTX w) n \<longleftrightarrow> n < 10 \<and> bit w (n + 12)"
  unfolding PTX_def mask10 PTXSHIFT_def by (auto simp: bit_simps add.commute)

lemma same_pageI:
  assumes "PDX v = PDX w" "PTX v = PTX w"
  shows "PTE_ADDR v = PTE_ADDR w"
proof (rule bit_word_eqI)
  fix n :: nat assume n: "n < LENGTH(32)"
  have "bit (PDX v) (n - 22) = bit (PDX w) (n - 22)" "bit (PTX v) (n - 12) = bit (PTX w) (n - 12)"
    using assms by simp_all
  then show "bit (PTE_ADDR v) n = bit (PTE_ADDR w) n"
    using n by (cases "n \<ge> 22") (auto simp: PTE_ADDR_bits PDX_bits PTX_bits)
qed

lemma same_pageD:
  assumes "PTE_ADDR v = PTE_ADDR w"
  shows "PDX v = PDX w" "PTX v = PTX w"
  by (metis assms PDX_ADDR, metis assms PTX_ADDR)

lemma bit_less_1024: "x < (1024 :: u32) \<Longrightarrow> bit x n \<Longrightarrow> n < 10"
proof -
  assume x: "x < 1024" and b: "bit x n"
  have "take_bit 10 x = x"
  proof -
    have "unat (take_bit 10 x) = unat x"
      using x by (simp add: unsigned_take_bit_eq take_bit_nat_eq_self word_less_nat_alt)
    then show ?thesis by (simp only: word_unat_eq_iff)
  qed
  then show ?thesis using b by (metis bit_take_bit_iff)
qed

lemma slot_bits:
  assumes "PTE_ADDR d = d" "x < 1024"
  shows "bit (d + 4 * x) n \<longleftrightarrow> bit d n \<or> n < 32 \<and> 2 \<le> n \<and> bit x (n - 2)"
proof -
  have x: "bit (4 * x) n \<longleftrightarrow> n < 32 \<and> 2 \<le> n \<and> bit x (n - 2)" for n
  proof -
    have "4 * x = push_bit 2 x" by (simp add: push_bit_eq_mult)
    then show ?thesis by (auto simp: bit_simps)
  qed
  have "\<not> bit d n \<or> \<not> bit (4 * x) n" for n
  proof -
    have "bit d n \<Longrightarrow> 12 \<le> n" using assms(1) by (metis PTE_ADDR_bits)
    then show ?thesis using bit_less_1024 [OF assms(2), of "n - 2"] x [of n] by auto
  qed
  then have "d + 4 * x = d OR 4 * x" by (rule disjunctive_add)
  then show ?thesis by (simp add: bit_simps x)
qed

lemma slot_page:
  assumes "PTE_ADDR d = d" "x < 1024"
  shows "PTE_ADDR (d + 4 * x) = d"
proof (rule bit_word_eqI)
  fix n
  have "bit d n \<Longrightarrow> 12 \<le> n" using assms(1) by (metis PTE_ADDR_bits)
  then show "bit (PTE_ADDR (d + 4 * x)) n = bit d n"
    using bit_less_1024 [OF assms(2), of "n - 2"] by (auto simp: PTE_ADDR_bits slot_bits [OF assms])
qed

lemma slot_inj:
  assumes "PTE_ADDR d = d" "x < 1024" "PTE_ADDR d' = d'" "x' < 1024"
  shows "d + 4 * x = d' + 4 * x' \<longleftrightarrow> d = d' \<and> x = x'"
proof
  assume e: "d + 4 * x = d' + 4 * x'"
  have d: "d = d'" using slot_page [OF assms(1,2)] slot_page [OF assms(3,4)] e by simp
  have "x = x'"
  proof (rule bit_word_eqI)
    fix n :: nat
    have "bit (d + 4 * x) (n + 2) = bit (d + 4 * x') (n + 2)" using e unfolding d [symmetric] by simp
    moreover have "\<not> bit d (n + 2)" if "n < 10"
      using assms(1) that PTE_ADDR_bits [of d "n + 2"] by simp
    ultimately show "bit x n = bit x' n"
      using bit_less_1024 [OF assms(2), of n] bit_less_1024 [OF assms(4), of n]
      by (auto simp: slot_bits [OF assms(1,2)] slot_bits [OF assms(1,4)]
          dest: bit_imp_le_length)
  qed
  with d show "d = d' \<and> x = x'" by simp
qed simp

section \<open>Pages and their addresses\<close>

definition page_of :: "u32 \<Rightarrow> nat" where "page_of w = unat (PGNUM w)"

lemma page_of_ADDR [simp]: "page_of (PTE_ADDR w) = page_of w"
  by (simp add: page_of_def)

lemma page_of_page2pa: "p < 2 ^ 20 \<Longrightarrow> page_of (page2pa p) = p"
proof -
  assume p: "p < 2 ^ 20"
  have "unat (page2pa p) = p * 2 ^ 12"
    using p by (simp add: page2pa_def PGSHIFT_def push_bit_eq_mult unat_word_ariths unat_of_nat)
  then show ?thesis
    by (simp add: page_of_def PGNUM_def PTXSHIFT_def drop_bit_eq_div unat_div)
qed

lemma page2pa_aligned [simp]: "PTE_ADDR (page2pa p) = page2pa p"
  by (rule bit_word_eqI) (auto simp: PTE_ADDR_bits page2pa_def PGSHIFT_def bit_simps)

lemma page2pa_page_of [simp]: "page2pa (page_of w) = PTE_ADDR w"
  by (rule bit_word_eqI)
    (auto simp: page2pa_def page_of_def PGNUM_def PGSHIFT_def PTXSHIFT_def PTE_ADDR_bits bit_simps)

lemma page_of_eq: "page_of v = page_of w \<longleftrightarrow> PTE_ADDR v = PTE_ADDR w"
  by (metis page2pa_page_of page_of_ADDR)

lemma flags_page: "perm < 4096 \<Longrightarrow> PTE_ADDR (page2pa p OR perm) = page2pa p"
proof -
  assume "perm < 4096"
  then have "take_bit 12 perm = perm"
  proof -
    have "unat (take_bit 12 perm) = unat perm"
      using \<open>perm < 4096\<close> by (simp add: unsigned_take_bit_eq take_bit_nat_eq_self word_less_nat_alt)
    then show ?thesis by (simp only: word_unat_eq_iff)
  qed
  then have "\<not> bit perm n" if "12 \<le> n" for n using that by (metis bit_take_bit_iff not_less)
  then have "PTE_ADDR perm = 0" by (intro bit_word_eqI) (auto simp: PTE_ADDR_bits)
  then show ?thesis by (simp add: PTE_ADDR_or)
qed

lemma user_PDX: "va < UTOP \<Longrightarrow> PDX va < PDX UTOP"
proof -
  assume "va < UTOP"
  then have v: "unat va < 0xEEC00000" by (simp add: word_less_nat_alt UTOP_def UENVS_def UPAGES_def UVPT_def ULIM_def MMIOBASE_def MMIOLIM_def KSTACKTOP_def KERNBASE_def PTSIZE_def PGSIZE_def NPTENTRIES_def)
  have "PDX w = drop_bit 22 w" for w :: u32
    by (rule bit_word_eqI) (auto simp: PDX_bits bit_simps add.commute dest: bit_imp_le_length)
  then show ?thesis
    using v by (simp add: word_less_nat_alt drop_bit_eq_div unat_div UTOP_def UENVS_def UPAGES_def UVPT_def ULIM_def MMIOBASE_def MMIOLIM_def KSTACKTOP_def KERNBASE_def PTSIZE_def PGSIZE_def NPTENTRIES_def)
qed

section \<open>Address spaces and the invariant\<close>

definition table_entry :: "vm \<Rightarrow> u32 \<Rightarrow> u32 \<Rightarrow> u32" where
  "table_entry s d va = pmem s (pde_at d va)"

definition pte_addr :: "vm \<Rightarrow> u32 \<Rightarrow> u32 \<Rightarrow> u32" where
  "pte_addr s d va = PTE_ADDR (table_entry s d va) + 4 * PTX va"

text \<open>The entry of the page at \<open>va\<close> in the address space rooted at \<open>d\<close>; 0 when there is none.\<close>

definition entry :: "vm \<Rightarrow> u32 \<Rightarrow> u32 \<Rightarrow> u32" where
  "entry s d va = (if table_entry s d va = 0 then 0 else pmem s (pte_addr s d va))"

fun page_chain :: "(nat \<Rightarrow> PageInfo) \<Rightarrow> nat option \<Rightarrow> nat list \<Rightarrow> bool" where
  "page_chain ps l [] \<longleftrightarrow> l = None"
| "page_chain ps l (p # fl) \<longleftrightarrow> l = Some p \<and> page_chain ps (pp_link (ps p)) fl"

text \<open>The pages that hold the directories \<open>ds\<close> and their tables for user addresses.\<close>

definition meta :: "vm \<Rightarrow> u32 set \<Rightarrow> u32 \<Rightarrow> bool" where
  "meta s ds a \<longleftrightarrow> a \<in> ds \<or> (\<exists>d \<in> ds. \<exists>va < UTOP. table_entry s d va \<noteq> 0 \<and> PTE_ADDR (table_entry s d va) = a)"

definition mappings :: "vm \<Rightarrow> u32 set \<Rightarrow> nat \<Rightarrow> (u32 \<times> u32) set" where
  "mappings s ds p = {(d, va). d \<in> ds \<and> va < UTOP \<and> PTE_ADDR va = va \<and> entry s d va \<noteq> 0 \<and>
     page_of (entry s d va) = p}"

definition tables_at :: "vm \<Rightarrow> u32 set \<Rightarrow> nat \<Rightarrow> (u32 \<times> u32) set" where
  "tables_at s ds p = {(d, i). d \<in> ds \<and> (\<exists>va < UTOP. PDX va = i \<and> table_entry s d va \<noteq> 0 \<and>
     page_of (table_entry s d va) = p)}"

definition uses :: "vm \<Rightarrow> u32 set \<Rightarrow> nat \<Rightarrow> nat" where
  "uses s ds p = card (mappings s ds p) + card (tables_at s ds p) + card {d \<in> ds. page_of d = p}"

text \<open>
  \<open>fl\<close> is the free list and \<open>ext p\<close> the number of references to page \<open>p\<close> that the directories
  \<open>ds\<close> do not account for, those of the kernel and those an operation holds in between.
\<close>

definition free_ok :: "vm \<Rightarrow> nat list \<Rightarrow> bool" where
  "free_ok s fl \<longleftrightarrow> page_chain (pages s) (page_free_list s) fl \<and> distinct fl \<and> set fl \<subseteq> {..<npages s} \<and>
     (\<forall>p \<in> set fl. pp_ref (pages s p) = 0) \<and>
     (\<forall>p < npages s. p \<notin> set fl \<longrightarrow> pp_link (pages s p) = None)"

definition refs_ok :: "vm \<Rightarrow> u32 set \<Rightarrow> (nat \<Rightarrow> nat) \<Rightarrow> bool" where
  "refs_ok s ds ext \<longleftrightarrow> (\<forall>p < npages s. unat (pp_ref (pages s p)) = uses s ds p + ext p)"

definition spaces_ok :: "vm \<Rightarrow> u32 set \<Rightarrow> bool" where
  "spaces_ok s ds \<longleftrightarrow> npages s \<le> 2 ^ 20 \<and>
     (\<forall>d \<in> ds. PTE_ADDR d = d \<and> page_of d < npages s) \<and>
     (\<forall>d \<in> ds. \<forall>va < UTOP. table_entry s d va \<noteq> 0 \<longrightarrow>
        page_of (table_entry s d va) < npages s \<and> PTE_ADDR (table_entry s d va) \<notin> ds \<and>
        (\<forall>d' \<in> ds. \<forall>va' < UTOP. table_entry s d' va' \<noteq> 0 \<and>
           PTE_ADDR (table_entry s d' va') = PTE_ADDR (table_entry s d va) \<longrightarrow> d' = d \<and> PDX va' = PDX va)) \<and>
     (\<forall>d \<in> ds. \<forall>va < UTOP. entry s d va \<noteq> 0 \<longrightarrow>
        page_of (entry s d va) < npages s \<and> \<not> meta s ds (PTE_ADDR (entry s d va)))"

definition pages_ok :: "vm \<Rightarrow> u32 set \<Rightarrow> nat list \<Rightarrow> (nat \<Rightarrow> nat) \<Rightarrow> bool" where
  "pages_ok s ds fl ext \<longleftrightarrow> free_ok s fl \<and> refs_ok s ds ext \<and> spaces_ok s ds"

lemma entry_page [simp]: "entry s d (PTE_ADDR va) = entry s d va"
  by (simp add: entry_def table_entry_def pte_addr_def pde_at_def)

lemma pte_entry_cong: "PTE_ADDR va = PTE_ADDR va' \<Longrightarrow> entry s d va = entry s d va'"
  by (metis entry_page)

lemma spaces_okD:
  assumes "spaces_ok s ds" "d \<in> ds"
  shows "PTE_ADDR d = d" "page_of d < npages s"
    "va < UTOP \<Longrightarrow> table_entry s d va \<noteq> 0 \<Longrightarrow> page_of (table_entry s d va) < npages s"
    "va < UTOP \<Longrightarrow> table_entry s d va \<noteq> 0 \<Longrightarrow> PTE_ADDR (table_entry s d va) \<notin> ds"
    "va < UTOP \<Longrightarrow> table_entry s d va \<noteq> 0 \<Longrightarrow> d' \<in> ds \<Longrightarrow> va' < UTOP \<Longrightarrow> table_entry s d' va' \<noteq> 0 \<Longrightarrow>
       PTE_ADDR (table_entry s d' va') = PTE_ADDR (table_entry s d va) \<Longrightarrow> d' = d \<and> PDX va' = PDX va"
    "va < UTOP \<Longrightarrow> entry s d va \<noteq> 0 \<Longrightarrow> page_of (entry s d va) < npages s"
    "va < UTOP \<Longrightarrow> entry s d va \<noteq> 0 \<Longrightarrow> \<not> meta s ds (PTE_ADDR (entry s d va))"
  using assms unfolding spaces_ok_def by blast+

lemma pde_page: "PTE_ADDR d = d \<Longrightarrow> PTE_ADDR (pde_at d va) = d"
  by (simp add: pde_at_def slot_page PDX_less)

lemma pte_page: "PTE_ADDR (pte_addr s d va) = PTE_ADDR (table_entry s d va)"
  by (simp add: pte_addr_def slot_page PTX_less)

lemma pde_inj:
  "PTE_ADDR d = d \<Longrightarrow> PTE_ADDR d' = d' \<Longrightarrow> pde_at d va = pde_at d' va' \<longleftrightarrow> d = d' \<and> PDX va = PDX va'"
  by (simp add: pde_at_def slot_inj PDX_less)

text \<open>Two user addresses with entries share the entry's address only within a page.\<close>

lemma pte_inj:
  assumes "spaces_ok s ds" "d \<in> ds" "va < UTOP" "table_entry s d va \<noteq> 0"
    "d' \<in> ds" "va' < UTOP" "table_entry s d' va' \<noteq> 0"
  shows "pte_addr s d' va' = pte_addr s d va \<longleftrightarrow> d' = d \<and> PTE_ADDR va' = PTE_ADDR va"
proof
  assume "pte_addr s d' va' = pte_addr s d va"
  then have "PTE_ADDR (table_entry s d' va') = PTE_ADDR (table_entry s d va)" "PTX va' = PTX va"
    unfolding pte_addr_def by (simp_all add: slot_inj PTX_less)
  with spaces_okD(5) [OF assms(1-7)] show "d' = d \<and> PTE_ADDR va' = PTE_ADDR va"
    by (auto intro: same_pageI)
qed (metis entry_def pte_addr_def pde_at_def table_entry_def same_pageD)

section \<open>What the invariant depends on\<close>

text \<open>Changes outside the directories and tables are invisible.\<close>

lemma frame:
  assumes "spaces_ok s ds" "\<forall>a. meta s ds (PTE_ADDR a) \<longrightarrow> pmem s' a = pmem s a"
  shows "d \<in> ds \<Longrightarrow> table_entry s' d va = table_entry s d va"
    "d \<in> ds \<Longrightarrow> va < UTOP \<Longrightarrow> entry s' d va = entry s d va"
    "meta s' ds = meta s ds" "uses s' ds = uses s ds"
    "npages s' = npages s \<Longrightarrow> spaces_ok s' ds"
proof -
  have t: "table_entry s' d va = table_entry s d va" if "d \<in> ds" for d va
  proof -
    have "PTE_ADDR (pde_at d va) = d" using spaces_okD(1) [OF assms(1) that] by (rule pde_page)
    then have "meta s ds (PTE_ADDR (pde_at d va))" using that by (simp add: meta_def)
    then show ?thesis by (simp add: table_entry_def assms(2))
  qed
  have e: "entry s' d va = entry s d va" if "d \<in> ds" "va < UTOP" for d va
  proof (cases "table_entry s d va = 0")
    case False
    then have "meta s ds (PTE_ADDR (pte_addr s d va))"
      using that by (auto simp: meta_def pte_page)
    moreover have "pte_addr s' d va = pte_addr s d va" using t that by (simp add: pte_addr_def)
    ultimately show ?thesis using t that False by (simp add: entry_def assms(2))
  qed (use t that in \<open>simp add: entry_def\<close>)
  show "d \<in> ds \<Longrightarrow> table_entry s' d va = table_entry s d va" by (rule t)
  show "d \<in> ds \<Longrightarrow> va < UTOP \<Longrightarrow> entry s' d va = entry s d va" by (rule e)
  show m: "meta s' ds = meta s ds" using t by (auto simp: meta_def fun_eq_iff)
  show "uses s' ds = uses s ds"
  proof
    fix p
    have "mappings s' ds p = mappings s ds p" using e by (auto simp: mappings_def)
    moreover have "tables_at s' ds p = tables_at s ds p" using t by (auto simp: tables_at_def)
    ultimately show "uses s' ds p = uses s ds p" by (simp add: uses_def)
  qed
  assume n: "npages s' = npages s"
  show "spaces_ok s' ds"
    unfolding spaces_ok_def n m
  proof (intro conjI ballI allI impI)
    show "npages s \<le> 2 ^ 20" using assms(1) by (simp add: spaces_ok_def)
    fix d assume d: "d \<in> ds"
    note D = spaces_okD [OF assms(1) d]
    show "PTE_ADDR d = d" "page_of d < npages s" by (rule D(1,2))+
    fix va assume va: "va < UTOP"
    { assume "table_entry s' d va \<noteq> 0"
      then have nz: "table_entry s d va \<noteq> 0" by (simp only: t [OF d] simp_thms)
      show "page_of (table_entry s' d va) < npages s" "PTE_ADDR (table_entry s' d va) \<notin> ds"
        unfolding t [OF d] by (rule D(3,4) [OF va nz])+
      fix d' va' assume d': "d' \<in> ds" and va': "va' < UTOP"
        and "table_entry s' d' va' \<noteq> 0 \<and> PTE_ADDR (table_entry s' d' va') = PTE_ADDR (table_entry s' d va)"
      then have "d' = d \<and> PDX va' = PDX va"
        unfolding t [OF d] t [OF d'] using D(5) [OF va nz d' va'] by blast
      then show "d' = d" "PDX va' = PDX va" by simp_all }
    assume "entry s' d va \<noteq> 0"
    then have nz: "entry s d va \<noteq> 0" by (simp only: e [OF d va] simp_thms)
    show "page_of (entry s' d va) < npages s" "\<not> meta s ds (PTE_ADDR (entry s' d va))"
      unfolding e [OF d va] using D(6,7) [OF va nz] by simp_all
  qed
qed

lemma same_mem:
  assumes "pmem s' = pmem s"
  shows "table_entry s' = table_entry s" "entry s' = entry s" "meta s' = meta s" "uses s' = uses s"
    "pte_addr s' = pte_addr s" "npages s' = npages s \<Longrightarrow> spaces_ok s' = spaces_ok s"
proof -
  have t: "table_entry s' = table_entry s" by (simp add: table_entry_def assms fun_eq_iff)
  have a: "pte_addr s' = pte_addr s" by (simp add: pte_addr_def t fun_eq_iff)
  have e: "entry s' = entry s" by (simp add: entry_def t a assms fun_eq_iff)
  have m: "meta s' = meta s" by (simp add: meta_def t fun_eq_iff)
  show "uses s' = uses s" by (simp add: uses_def mappings_def tables_at_def t e fun_eq_iff)
  show "npages s' = npages s \<Longrightarrow> spaces_ok s' = spaces_ok s"
    unfolding spaces_ok_def [abs_def] t e m by simp
  show "table_entry s' = table_entry s" "entry s' = entry s" "meta s' = meta s" "pte_addr s' = pte_addr s"
    by (rule t e m a)+
qed

text \<open>A page without uses is no directory, no table and not mapped.\<close>

lemma unused_page:
  assumes "uses s ds p = 0"
  shows "d \<in> ds \<Longrightarrow> page_of d \<noteq> p" "d \<in> ds \<Longrightarrow> va < UTOP \<Longrightarrow> table_entry s d va \<noteq> 0 \<Longrightarrow> page_of (table_entry s d va) \<noteq> p"
    "d \<in> ds \<Longrightarrow> va < UTOP \<Longrightarrow> entry s d va \<noteq> 0 \<Longrightarrow> page_of (entry s d va) \<noteq> p"
proof -
  have c: "mappings s ds p = {}" "tables_at s ds p = {}" "{d \<in> ds. page_of d = p} = {}"
    using assms by (simp_all add: uses_def)
  then show "d \<in> ds \<Longrightarrow> page_of d \<noteq> p" by auto
  show "d \<in> ds \<Longrightarrow> va < UTOP \<Longrightarrow> table_entry s d va \<noteq> 0 \<Longrightarrow> page_of (table_entry s d va) \<noteq> p"
    using c(2) by (auto simp: tables_at_def)
  assume m: "d \<in> ds" "va < UTOP" "entry s d va \<noteq> 0"
  have le: "PTE_ADDR va \<le> va"
    by (simp add: PTE_ADDR_def word_and_le2)
  show "page_of (entry s d va) \<noteq> p"
  proof
    assume "page_of (entry s d va) = p"
    with m le have "(d, PTE_ADDR va) \<in> mappings s ds p" by (auto simp: mappings_def)
    with c(1) show False by simp
  qed
qed

lemma unused_meta: "uses s ds p = 0 \<Longrightarrow> meta s ds a \<Longrightarrow> page_of a \<noteq> p"
  using unused_page(1,2) unfolding meta_def by (metis page_of_ADDR)

end
