(* ===== verification/JosPageOps.thy ===== *)
theory JosPageOps
  imports JosPages
begin

text \<open>
  The operations on pages and page tables under the invariant of JosPages: each terminates
  without a panic, and acts on the free list, the reference counts and the entries exactly
  as its comment in pmap.c says.
\<close>

section \<open>Walking and looking up\<close>

lemma pages_okD:
  "pages_ok s ds fl ext \<Longrightarrow> free_ok s fl" "pages_ok s ds fl ext \<Longrightarrow> refs_ok s ds ext"
  "pages_ok s ds fl ext \<Longrightarrow> spaces_ok s ds"
  by (simp_all add: pages_ok_def)

lemma KADDR_page: "page_of w < npages s \<Longrightarrow> KADDR s (PTE_ADDR w) = Some (PTE_ADDR w)"
  by (simp add: KADDR_def page_of_def)

lemma pa2page_entry: "page_of w < npages s \<Longrightarrow> pa2page s (PTE_ADDR w) = Some (page_of w)"
  by (simp add: pa2page_def page_of_def)

lemma walk_lookup:
  assumes "spaces_ok s ds" "d \<in> ds" "va < UTOP"
  shows "pgdir_walk d va False s =
    Some (if table_entry s d va = 0 then None else Some (pte_addr s d va), s)"
  using spaces_okD(3) [OF assms]
  by (simp add: pgdir_walk_def Let_def read_pte_def table_entry_def [symmetric] pte_addr_def KADDR_page)

lemma lookup_entry:
  assumes "spaces_ok s ds" "d \<in> ds" "va < UTOP"
  shows "page_lookup d va s =
    Some (if entry s d va = 0 then None else Some (page_of (entry s d va), pte_addr s d va))"
proof -
  have "PTE_P \<noteq> 0" by (simp add: PTE_P_def)
  then show ?thesis
    using spaces_okD(6) [OF assms] pa2page_entry [of "pmem s (pte_addr s d va)" s]
    by (auto simp: page_lookup_def walk_lookup [OF assms] read_pte_def entry_def)
qed

section \<open>Writing an entry\<close>

lemma write_pte_simps [simp]:
  "pmem (write_pte s a v) = (pmem s)(a := v)" "pages (write_pte s a v) = pages s"
  "npages (write_pte s a v) = npages s" "page_free_list (write_pte s a v) = page_free_list s"
  "upd_page (write_pte s a v) p f = write_pte (upd_page s p f) a v"
  by (simp_all add: write_pte_def upd_page_def)

lemma upd_page_simps [simp]:
  "pmem (upd_page s p f) = pmem s" "pages (upd_page s p f) = (pages s)(p := f (pages s p))"
  "npages (upd_page s p f) = npages s" "page_free_list (upd_page s p f) = page_free_list s"
  by (simp_all add: upd_page_def)

text \<open>The user address \<open>va\<close> has a page table in the address space of \<open>d\<close>.\<close>

definition has_table :: "vm \<Rightarrow> u32 set \<Rightarrow> u32 \<Rightarrow> u32 \<Rightarrow> bool" where
  "has_table s ds d va \<longleftrightarrow> spaces_ok s ds \<and> d \<in> ds \<and> va < UTOP \<and> table_entry s d va \<noteq> 0"

lemma has_tableD:
  "has_table s ds d va \<Longrightarrow> spaces_ok s ds" "has_table s ds d va \<Longrightarrow> d \<in> ds"
  "has_table s ds d va \<Longrightarrow> va < UTOP" "has_table s ds d va \<Longrightarrow> table_entry s d va \<noteq> 0"
  by (simp_all add: has_table_def)

lemma write_table_entry:
  assumes "has_table s ds d va" "d' \<in> ds"
  shows "table_entry (write_pte s (pte_addr s d va) v) d' w = table_entry s d' w"
proof -
  note d' = assms(2) and ok = has_tableD(1) [OF assms(1)] and d = has_tableD(2) [OF assms(1)]
    and va = has_tableD(3) [OF assms(1)] and t = has_tableD(4) [OF assms(1)]
  have "pde_at d' w \<noteq> pte_addr s d va"
  proof
    assume "pde_at d' w = pte_addr s d va"
    then have "PTE_ADDR (table_entry s d va) = d'"
      using pde_page [OF spaces_okD(1) [OF ok d']] pte_page by metis
    with spaces_okD(4) [OF ok d va t] d' show False by simp
  qed
  then show ?thesis by (simp add: table_entry_def)
qed

lemma write_entry_eq:
  assumes "has_table s ds d va" "d' \<in> ds" "w < UTOP"
  shows "entry (write_pte s (pte_addr s d va) v) d' w =
    (if d' = d \<and> PTE_ADDR w = PTE_ADDR va then v else entry s d' w)"
proof -
  note ht = assms(1) and ok = has_tableD(1) [OF assms(1)] and d = has_tableD(2) [OF assms(1)]
    and va = has_tableD(3) [OF assms(1)] and t = has_tableD(4) [OF assms(1)]
  note wt = write_table_entry [OF ht, where v = v]
  show ?thesis
  proof (cases "table_entry s d' w = 0")
  case True
  have "\<not> (d' = d \<and> PTE_ADDR w = PTE_ADDR va)"
    using True t by (auto simp: table_entry_def pde_at_def dest: same_pageD)
  then show ?thesis using True wt [OF assms(2)] by (simp only: entry_def if_True if_False simp_thms)
next
  case False
  have "entry (write_pte s (pte_addr s d va) v) d' w = ((pmem s)(pte_addr s d va := v)) (pte_addr s d' w)"
    using False wt [OF assms(2)] by (simp add: entry_def pte_addr_def)
  then show ?thesis
    using pte_inj [OF ok d va t assms(2,3) False] False by (simp add: entry_def)
qed
qed

lemma write_meta:
  "has_table s ds d va \<Longrightarrow> meta (write_pte s (pte_addr s d va) v) ds = meta s ds"
  by (auto simp: meta_def fun_eq_iff write_table_entry)

lemma write_spaces_ok:
  assumes "has_table s ds d va" "v \<noteq> 0 \<Longrightarrow> page_of v < npages s \<and> \<not> meta s ds (PTE_ADDR v)"
  shows "spaces_ok (write_pte s (pte_addr s d va) v) ds"
  unfolding spaces_ok_def write_meta [OF assms(1)]
proof (intro conjI ballI allI impI)
  note ht = assms(1) and ok = has_tableD(1) [OF assms(1)] and d = has_tableD(2) [OF assms(1)]
    and va = has_tableD(3) [OF assms(1)] and t = has_tableD(4) [OF assms(1)]
  note wt = write_table_entry [OF ht, where v = v]
  show "npages (write_pte s (pte_addr s d va) v) \<le> 2 ^ 20" using ok by (simp add: spaces_ok_def)
  fix d1 assume d1: "d1 \<in> ds"
  note D = spaces_okD [OF ok d1]
  show "PTE_ADDR d1 = d1" "page_of d1 < npages (write_pte s (pte_addr s d va) v)"
    using D(1,2) by simp_all
  fix v1 assume v1: "v1 < UTOP"
  { assume "table_entry (write_pte s (pte_addr s d va) v) d1 v1 \<noteq> 0"
    then have nz: "table_entry s d1 v1 \<noteq> 0" by (simp add: wt [OF d1])
    show "page_of (table_entry (write_pte s (pte_addr s d va) v) d1 v1) < npages (write_pte s (pte_addr s d va) v)"
      "PTE_ADDR (table_entry (write_pte s (pte_addr s d va) v) d1 v1) \<notin> ds"
      using D(3,4) [OF v1 nz] by (simp_all add: wt [OF d1])
    fix d2 v2 assume d2: "d2 \<in> ds" and v2: "v2 < UTOP"
      and "table_entry (write_pte s (pte_addr s d va) v) d2 v2 \<noteq> 0 \<and>
        PTE_ADDR (table_entry (write_pte s (pte_addr s d va) v) d2 v2) =
        PTE_ADDR (table_entry (write_pte s (pte_addr s d va) v) d1 v1)"
    then have "d2 = d1 \<and> PDX v2 = PDX v1"
      unfolding wt [OF d1] wt [OF d2]
      using D(5) [OF v1 nz d2 v2] by blast
    then show "d2 = d1" "PDX v2 = PDX v1" by simp_all }
  assume "entry (write_pte s (pte_addr s d va) v) d1 v1 \<noteq> 0"
  then show "page_of (entry (write_pte s (pte_addr s d va) v) d1 v1) < npages (write_pte s (pte_addr s d va) v)"
    "\<not> meta s ds (PTE_ADDR (entry (write_pte s (pte_addr s d va) v) d1 v1))"
    using assms(2) D(6,7) [OF v1] by (auto simp: write_entry_eq [OF ht d1 v1] split: if_splits)
qed

text \<open>The count of the old page goes down and that of the new one up.\<close>

lemma write_uses:
  assumes "has_table s ds d va"
  shows "uses (write_pte s (pte_addr s d va) v) ds p + of_bool (entry s d va \<noteq> 0 \<and> page_of (entry s d va) = p) =
     uses s ds p + of_bool (v \<noteq> 0 \<and> page_of v = p)"
proof -
  note ht = assms(1) and ok = has_tableD(1) [OF assms(1)] and d = has_tableD(2) [OF assms(1)]
    and va = has_tableD(3) [OF assms(1)] and t = has_tableD(4) [OF assms(1)]
  let ?s = "write_pte s (pte_addr s d va) v" and ?k = "(d, PTE_ADDR va)"
  define M where "M = mappings s ds p - {?k}"
  have fresh: "?k \<notin> M" "finite M" by (simp_all add: M_def)
  have le: "PTE_ADDR va < UTOP"
    using va word_and_le2 [of va] unfolding PTE_ADDR_def by (rule le_less_trans [rotated])
  have old: "mappings s ds p = (if entry s d va \<noteq> 0 \<and> page_of (entry s d va) = p then insert ?k M else M)"
    using d le by (auto simp: mappings_def M_def)
  have here: "entry ?s d va = v" using write_entry_eq [OF ht d va, of v] by simp
  have new: "mappings ?s ds p = (if v \<noteq> 0 \<and> page_of v = p then insert ?k M else M)"
    using d le here by (auto simp: M_def mappings_def write_entry_eq [OF ht] split: if_splits)
  have "tables_at ?s ds p = tables_at s ds p"
    by (auto simp: tables_at_def write_table_entry [OF ht])
  moreover have "card (mappings s ds p) = card M + of_bool (entry s d va \<noteq> 0 \<and> page_of (entry s d va) = p)"
    by (subst old) (simp add: fresh)
  moreover have "card (mappings ?s ds p) = card M + of_bool (v \<noteq> 0 \<and> page_of v = p)"
    by (subst new) (simp add: fresh)
  ultimately show ?thesis by (simp add: uses_def)
qed

lemma write_refs_ok:
  assumes "has_table s ds d va" "refs_ok s ds ext"
    "\<And>p. p < npages s \<Longrightarrow> ext' p + of_bool (v \<noteq> 0 \<and> page_of v = p) =
       ext p + of_bool (entry s d va \<noteq> 0 \<and> page_of (entry s d va) = p)"
  shows "refs_ok (write_pte s (pte_addr s d va) v) ds ext'"
  unfolding refs_ok_def
proof (intro allI impI)
  fix p assume "p < npages (write_pte s (pte_addr s d va) v)"
  then have p: "p < npages s" by simp
  show "unat (pp_ref (pages (write_pte s (pte_addr s d va) v) p)) =
      uses (write_pte s (pte_addr s d va) v) ds p + ext' p"
    using write_uses [OF assms(1), of v p] assms(2) p assms(3) [OF p] by (simp add: refs_ok_def)
qed

section \<open>The address spaces as one function\<close>

definition view :: "vm \<Rightarrow> u32 set \<Rightarrow> u32 \<Rightarrow> u32 \<Rightarrow> u32" where
  "view s ds d va = (if d \<in> ds \<and> PTE_ADDR va < UTOP then entry s d va else 0)"

definition set_page :: "u32 \<Rightarrow> u32 \<Rightarrow> u32 \<Rightarrow> (u32 \<Rightarrow> u32 \<Rightarrow> u32) \<Rightarrow> u32 \<Rightarrow> u32 \<Rightarrow> u32" where
  "set_page d va v f = (\<lambda>d' w. if d' = d \<and> PTE_ADDR w = PTE_ADDR va then v else f d' w)"

lemma ADDR_le: "PTE_ADDR va \<le> va"
  by (simp add: PTE_ADDR_def word_and_le2)

lemma ADDR_user: "va < UTOP \<Longrightarrow> PTE_ADDR va < UTOP"
  using ADDR_le by (rule le_less_trans)

lemma view_user: "d \<in> ds \<Longrightarrow> va < UTOP \<Longrightarrow> view s ds d va = entry s d va"
  by (simp add: view_def ADDR_user)

lemma write_view:
  assumes "has_table s ds d va"
  shows "view (write_pte s (pte_addr s d va) v) ds = set_page d va v (view s ds)"
proof (intro ext)
  fix d' w
  have "entry (write_pte s (pte_addr s d va) v) d' w =
      (if d' = d \<and> PTE_ADDR w = PTE_ADDR va then v else entry s d' w)" if "d' \<in> ds" "PTE_ADDR w < UTOP"
    using write_entry_eq [OF assms that, of v] by (simp only: entry_page PTE_ADDR_idem)
  then show "view (write_pte s (pte_addr s d va) v) ds d' w = set_page d va v (view s ds) d' w"
    using has_tableD(2,3) [OF assms] ADDR_user by (auto simp: view_def set_page_def)
qed

lemma view_frame:
  assumes "\<And>d w. d \<in> ds \<Longrightarrow> w < UTOP \<Longrightarrow> entry s' d w = entry s d w"
  shows "view s' ds = view s ds"
proof (intro ext)
  fix d w
  show "view s' ds d w = view s ds d w"
    using assms [of d "PTE_ADDR w"] by (simp add: view_def)
qed

lemma view_mem: "pmem s' = pmem s \<Longrightarrow> view s' = view s"
  by (drule same_mem(2)) (simp add: view_def fun_eq_iff)

section \<open>Taking and releasing pages\<close>

lemma page_chain_cong:
  "(\<And>p. p \<in> set fl \<Longrightarrow> pp_link (ps' p) = pp_link (ps p)) \<Longrightarrow> page_chain ps' l fl = page_chain ps l fl"
  by (induction fl arbitrary: l) auto

lemma free_pages_unused:
  assumes "pages_ok s ds fl ext" "p \<in> set fl"
  shows "uses s ds p = 0" "ext p = 0" "p < npages s"
proof -
  have p: "p < npages s" "pp_ref (pages s p) = 0" using assms by (auto simp: pages_ok_def free_ok_def)
  then show "p < npages s" "uses s ds p = 0" "ext p = 0"
    using assms(1) by (auto simp: pages_ok_def refs_ok_def)
qed

lemma page_decref_ok:
  assumes "free_ok s fl" "p < npages s" "p \<notin> set fl" "pp_ref (pages s p) \<noteq> 0"
  obtains s' where "page_decref p s = Some s'" "free_ok s' (if pp_ref (pages s p) = 1 then p # fl else fl)"
    "pmem s' = pmem s" "npages s' = npages s" "flushed s' = flushed s"
    "\<And>q. pp_ref (pages s' q) = (if q = p then pp_ref (pages s q) - 1 else pp_ref (pages s q))"
proof (cases "pp_ref (pages s p) = 1")
  case False
  then have nz: "pp_ref (pages s p) - 1 \<noteq> 0" by simp
  let ?s = "upd_page s p (\<lambda>q. q\<lparr>pp_ref := pp_ref q - 1\<rparr>)"
  have "page_chain (pages ?s) l fl = page_chain (pages s) l fl" for l
    by (rule page_chain_cong) simp
  then have "free_ok ?s fl" using assms by (auto simp: free_ok_def)
  then show ?thesis
    using nz False by (intro that [of ?s]) (simp_all add: page_decref_def Let_def upd_page_def)
next
  case True
  let ?s = "upd_page s p (\<lambda>q. q\<lparr>pp_ref := pp_ref q - 1\<rparr>)"
  let ?s' = "(upd_page ?s p (\<lambda>q. q\<lparr>pp_link := page_free_list ?s\<rparr>))\<lparr>page_free_list := Some p\<rparr>"
  have link: "pp_link (pages s p) = None" using assms by (simp add: free_ok_def)
  have "page_chain (pages ?s') l fl = page_chain (pages s) l fl" for l
    using assms(3) by (intro page_chain_cong) auto
  then have "free_ok ?s' (p # fl)" using assms True by (auto simp: free_ok_def)
  moreover have "page_decref p s = Some ?s'"
    using True link by (simp add: page_decref_def page_free_def Let_def)
  ultimately show ?thesis using True by (intro that [of ?s']) (simp_all add: upd_page_def)
qed

lemma page_alloc_ok:
  assumes "free_ok s (p # fl)" "npages s \<le> 2 ^ 20"
  obtains s' where "page_alloc z s = Some (Some p, s')" "free_ok s' fl" "npages s' = npages s"
    "\<And>q. pp_ref (pages s' q) = pp_ref (pages s q)" "flushed s' = flushed s"
    "pmem s' = (\<lambda>a. if z \<and> PTE_ADDR a = page2pa p then 0 else pmem s a)"
proof -
  let ?s = "upd_page (s\<lparr>page_free_list := pp_link (pages s p)\<rparr>) p (\<lambda>q. q\<lparr>pp_link := None\<rparr>)"
  let ?s' = "if z then zero_page ?s (page2pa p) else ?s"
  have p: "page_free_list s = Some p" "p < npages s" "p \<notin> set fl" using assms(1) by (auto simp: free_ok_def)
  then have "KADDR ?s (page2pa p) = Some (page2pa p)"
    using page_of_page2pa [of p] assms(2) by (simp add: KADDR_def page_of_def)
  then have "page_alloc z s = Some (Some p, ?s')"
    using p by (simp add: page_alloc_def Let_def)
  moreover have "page_chain (pages ?s) l fl = page_chain (pages s) l fl" for l
    using p(3) by (intro page_chain_cong) auto
  then have "free_ok ?s fl" using assms(1) by (auto simp: free_ok_def)
  then have "free_ok ?s' fl" by (simp add: free_ok_def zero_page_def)
  ultimately show ?thesis
    by (intro that [of ?s']) (auto simp: zero_page_def upd_page_def)
qed

lemma page_alloc_none: "free_ok s [] \<Longrightarrow> page_alloc z s = Some (None, s)"
  by (simp add: page_alloc_def free_ok_def)

section \<open>Removing a mapping\<close>

lemma page_decref_write:
  "page_decref p (write_pte s a v) = map_option (\<lambda>s'. write_pte s' a v) (page_decref p s)"
  by (simp add: page_decref_def page_free_def Let_def write_pte_def upd_page_def)

lemma tlb_simps [simp]:
  "pmem (tlb_invalidate cur d va s) = pmem s" "pages (tlb_invalidate cur d va s) = pages s"
  "npages (tlb_invalidate cur d va s) = npages s"
  "page_free_list (tlb_invalidate cur d va s) = page_free_list s"
  by (simp_all add: tlb_invalidate_def)

lemma pages_ok_cong:
  assumes "pmem s' = pmem s" "pages s' = pages s" "npages s' = npages s" "page_free_list s' = page_free_list s"
  shows "pages_ok s' = pages_ok s"
  by (intro ext) (simp add: pages_ok_def free_ok_def refs_ok_def assms same_mem [OF assms(1)])

lemma page_remove_none:
  "spaces_ok s ds \<Longrightarrow> d \<in> ds \<Longrightarrow> va < UTOP \<Longrightarrow> entry s d va = 0 \<Longrightarrow> page_remove cur d va s = Some s"
  by (simp add: page_remove_def walk_lookup lookup_entry Let_def split: option.split)

lemma page_remove_ok:
  assumes "pages_ok s ds fl ext" "d \<in> ds" "va < UTOP" "entry s d va \<noteq> 0"
  defines "p \<equiv> page_of (entry s d va)"
  obtains s' where "page_remove cur d va s = Some s'"
    "pages_ok s' ds (if pp_ref (pages s p) = 1 then p # fl else fl) ext"
    "view s' ds = set_page d va 0 (view s ds)" "npages s' = npages s" "meta s' ds = meta s ds"
    "\<And>d' w. d' \<in> ds \<Longrightarrow> table_entry s' d' w = table_entry s d' w"
    "\<And>q. pp_ref (pages s' q) = (if q = p then pp_ref (pages s q) - 1 else pp_ref (pages s q))"
    "flushed s' = flushed (tlb_invalidate cur d va s)" "pmem s' = (pmem s)(pte_addr s d va := 0)"
proof -
  note ok = pages_okD(3) [OF assms(1)]
  have t: "table_entry s d va \<noteq> 0" using assms(4) by (auto simp: entry_def)
  then have ht: "has_table s ds d va" using ok assms(2,3) by (simp add: has_table_def)
  have p: "p < npages s" using spaces_okD(6) [OF ok assms(2,3,4)] by (simp add: p_def)
  have used: "uses s ds p \<noteq> 0" using unused_page(3) [OF _ assms(2,3,4)] by (auto simp: p_def)
  then have pf: "p \<notin> set fl" using free_pages_unused [OF assms(1)] by auto
  have r: "pp_ref (pages s p) \<noteq> 0"
    using used p pages_okD(2) [OF assms(1)] by (auto simp: refs_ok_def)
  let ?fl = "if pp_ref (pages s p) = 1 then p # fl else fl"
  obtain s1 where s1: "page_decref p s = Some s1" "free_ok s1 ?fl"
    "pmem s1 = pmem s" "npages s1 = npages s" "flushed s1 = flushed s"
    "\<And>q. pp_ref (pages s1 q) = (if q = p then pp_ref (pages s q) - 1 else pp_ref (pages s q))"
    by (rule page_decref_ok [OF pages_okD(1) [OF assms(1)] p pf r]) blast
  let ?w = "write_pte s (pte_addr s d va) 0"
  let ?s' = "tlb_invalidate cur d va (write_pte s1 (pte_addr s d va) 0)"
  have rem: "page_remove cur d va s = Some ?s'"
    using assms(4) s1(1) t by (simp add: page_remove_def walk_lookup [OF ok assms(2,3)]
        lookup_entry [OF ok assms(2,3)] p_def Let_def)
  have mem: "pmem ?s' = pmem ?w" by (simp add: s1(3))
  have view: "view ?s' ds = set_page d va 0 (view s ds)"
    using write_view [OF ht, of 0] view_mem [OF mem] by simp
  have te: "table_entry ?s' d' w = table_entry s d' w" if "d' \<in> ds" for d' w
    using write_table_entry [OF ht that, of 0 w] same_mem(1) [OF mem] by simp
  have me: "meta ?s' ds = meta s ds"
    using write_meta [OF ht, of 0] same_mem(3) [OF mem] by simp
  have "spaces_ok ?s' ds"
    using write_spaces_ok [OF ht, of 0] same_mem(6) [OF mem] s1(4) by simp
  moreover have "refs_ok ?s' ds ext"
    unfolding refs_ok_def
  proof (intro allI impI)
    fix q assume "q < npages ?s'"
    then have q: "q < npages s" by (simp add: s1(4))
    have "uses ?s' ds q + of_bool (p = q) = uses s ds q"
      using write_uses [OF ht, of 0 q] same_mem(4) [OF mem] assms(4) by (simp add: p_def)
    moreover have "unat (pp_ref (pages s q)) = uses s ds q + ext q"
      using pages_okD(2) [OF assms(1)] q by (simp add: refs_ok_def)
    moreover have "unat (pp_ref (pages s p) - 1) = unat (pp_ref (pages s p)) - 1"
      using r by (simp add: unat_minus_one)
    ultimately show "unat (pp_ref (pages ?s' q)) = uses ?s' ds q + ext q"
      using s1(6) [of q] by (cases "q = p") auto
  qed
  moreover have "free_ok ?s' ?fl" using s1(2,4) by (simp add: free_ok_def)
  ultimately have "pages_ok ?s' ds ?fl ext" by (simp add: pages_ok_def)
  then show ?thesis
    using that [OF rem] view te me s1(4,5,6) mem by (simp add: tlb_invalidate_def write_pte_def)
qed

section \<open>Making a table\<close>

lemma new_pde:
  assumes "p < 2 ^ 20"
  defines "v \<equiv> page2pa p OR PTE_P OR PTE_W OR PTE_U"
  shows "v \<noteq> 0" "PTE_ADDR v = page2pa p" "page_of v = p"
proof -
  show "v \<noteq> 0" by (simp add: v_def or_eq_0_iff PTE_P_def)
  show a: "PTE_ADDR v = page2pa p" unfolding v_def
    by (rule flags_page) (simp add: PTE_P_def PTE_W_def PTE_U_def)
  show "page_of v = p" using a page_of_page2pa [OF assms(1)] by (metis page_of_ADDR)
qed

text \<open>Hanging the cleared, unused page \<open>p\<close> into the directory \<open>d\<close> at \<open>va\<close>.\<close>

lemma add_table:
  assumes ok: "spaces_ok s ds" and d: "d \<in> ds" and va: "va < UTOP" and none: "table_entry s d va = 0"
    and p: "p < npages s" "uses s ds p = 0" and clear: "\<And>a. PTE_ADDR a = page2pa p \<Longrightarrow> pmem s a = 0"
    and v: "v \<noteq> 0" "PTE_ADDR v = page2pa p" "page_of v = p"
  defines "s' \<equiv> write_pte s (pde_at d va) v"
  shows "spaces_ok s' ds" "has_table s' ds d va" "view s' ds = view s ds"
    "uses s' ds q = uses s ds q + of_bool (q = p)" "meta s' ds a \<longleftrightarrow> meta s ds a \<or> a = page2pa p"
proof -
  note D = spaces_okD [OF ok]
  have n': "npages s' = npages s" by (simp add: s'_def)
  have te: "table_entry s' d' w = (if d' = d \<and> PDX w = PDX va then v else table_entry s d' w)" if "d' \<in> ds" for d' w
    using pde_inj [OF D(1) [OF that] D(1) [OF d]] by (auto simp: table_entry_def s'_def)
  have keep: "table_entry s' d' w = table_entry s d' w" if "d' \<in> ds" "table_entry s d' w \<noteq> 0" for d' w
  proof -
    have "\<not> (d' = d \<and> PDX w = PDX va)" using none that(2) by (auto simp: table_entry_def pde_at_def)
    then show ?thesis unfolding te [OF that(1)] by (rule if_not_P)
  qed
  have en: "entry s' d' w = entry s d' w" if d': "d' \<in> ds" and w: "w < UTOP" for d' w
  proof (cases "table_entry s d' w = 0")
    case True
    have pd: "PTE_ADDR (pde_at d va) = d" using D(1) [OF d] by (rule pde_page)
    have "page2pa p \<noteq> d" using unused_page(1) [OF p(2) d] v(2,3) by (metis page_of_ADDR)
    then have "pmem s' (page2pa p + 4 * PTX w) = pmem s (page2pa p + 4 * PTX w)"
      using pd slot_page [of "page2pa p" "PTX w"] PTX_less by (auto simp: s'_def)
    also have "\<dots> = 0" by (rule clear) (simp add: slot_page PTX_less)
    finally show ?thesis using True v(2) by (simp add: entry_def te [OF d'] pte_addr_def)
  next
    case False
    have "PTE_ADDR (pte_addr s d' w) \<noteq> d"
      using D(4) [OF d' w False] d by (auto simp: pte_page)
    then have "pte_addr s d' w \<noteq> pde_at d va" using pde_page [OF D(1) [OF d]] by auto
    moreover note same = keep [OF d' False]
    moreover have "pte_addr s' d' w = pte_addr s d' w" by (simp only: pte_addr_def same)
    ultimately show ?thesis unfolding entry_def same by (simp add: s'_def)
  qed
  show view: "view s' ds = view s ds" by (rule view_frame) (rule en)
  show me: "meta s' ds a \<longleftrightarrow> meta s ds a \<or> a = page2pa p" for a
  proof
    assume "meta s' ds a"
    then consider "a \<in> ds" | d' w where "d' \<in> ds" "w < UTOP" "table_entry s' d' w \<noteq> 0" "PTE_ADDR (table_entry s' d' w) = a"
      by (auto simp: meta_def)
    then show "meta s ds a \<or> a = page2pa p"
      using te v(2) by cases (auto simp: meta_def split: if_splits)
  next
    have "meta s' ds a" if "meta s ds a"
      using that keep unfolding meta_def by metis
    moreover have "meta s' ds (page2pa p)"
      using te [OF d, of va] v d va by (auto simp: meta_def)
    ultimately show "meta s ds a \<or> a = page2pa p \<Longrightarrow> meta s' ds a" by auto
  qed
  have fresh: "(d, PDX va) \<notin> tables_at s ds p"
    using unused_page(2) [OF p(2)] by (auto simp: tables_at_def)
  have tab: "tables_at s' ds q = (if q = p then insert (d, PDX va) (tables_at s ds q) else tables_at s ds q)"
  proof (intro set_eqI)
    fix x :: "u32 \<times> u32"
    obtain d' i where x: "x = (d', i)" by (cases x)
    have "x \<in> tables_at s' ds q \<longleftrightarrow> d' \<in> ds \<and> (\<exists>w < UTOP. PDX w = i \<and>
        (if d' = d \<and> i = PDX va then page_of v = q else table_entry s d' w \<noteq> 0 \<and> page_of (table_entry s d' w) = q))"
      using te v(1) by (auto simp: x tables_at_def)
    moreover have "table_entry s d w = 0" if "PDX w = PDX va" for w
      using none that by (simp add: table_entry_def pde_at_def)
    ultimately show "x \<in> tables_at s' ds q \<longleftrightarrow>
        x \<in> (if q = p then insert (d, PDX va) (tables_at s ds q) else tables_at s ds q)"
      using v(3) d va by (auto simp: x tables_at_def)
  qed
  have "mappings s' ds q = mappings s ds q" using en by (auto simp: mappings_def)
  then show us: "uses s' ds q = uses s ds q + of_bool (q = p)"
    using fresh tab by (auto simp: uses_def)
  show sp: "spaces_ok s' ds"
    unfolding spaces_ok_def me
  proof (intro conjI ballI allI impI)
    show "npages s' \<le> 2 ^ 20" using ok by (simp add: spaces_ok_def s'_def)
    fix d1 assume d1: "d1 \<in> ds"
    show "PTE_ADDR d1 = d1" "page_of d1 < npages s'" using D(1,2) [OF d1] by (simp_all add: s'_def)
    fix v1 assume v1: "v1 < UTOP"
    have nds: "page2pa p \<notin> ds" using unused_page(1) [OF p(2)] v(2,3) by (metis page_of_ADDR)
    { assume nz: "table_entry s' d1 v1 \<noteq> 0"
      show "page_of (table_entry s' d1 v1) < npages s'" "PTE_ADDR (table_entry s' d1 v1) \<notin> ds"
        using nz D(3,4) [OF d1 v1] p(1) v nds by (auto simp: te [OF d1] n' split: if_splits)
      fix d2 v2 assume d2: "d2 \<in> ds" and v2: "v2 < UTOP"
        and e: "table_entry s' d2 v2 \<noteq> 0 \<and> PTE_ADDR (table_entry s' d2 v2) = PTE_ADDR (table_entry s' d1 v1)"
      have old: "PTE_ADDR (table_entry s d0 w) \<noteq> page2pa p" if "d0 \<in> ds" "w < UTOP" "table_entry s d0 w \<noteq> 0" for d0 w
        using unused_page(2) [OF p(2) that] v(2,3) by (metis page_of_ADDR)
      have "d2 = d1 \<and> PDX v2 = PDX v1"
        using e nz D(5) [OF d1 v1 _ d2 v2] old [OF d1 v1] old [OF d2 v2] v(2)
        by (auto simp: te [OF d1] te [OF d2] split: if_splits)
      then show "d2 = d1" "PDX v2 = PDX v1" by simp_all }
    assume "entry s' d1 v1 \<noteq> 0"
    then have nz: "entry s d1 v1 \<noteq> 0" by (simp only: en [OF d1 v1] simp_thms)
    have "PTE_ADDR (entry s d1 v1) \<noteq> page2pa p"
      using unused_page(3) [OF p(2) d1 v1 nz] v(2,3) by (metis page_of_ADDR)
    then show "page_of (entry s' d1 v1) < npages s'"
      "\<not> (meta s ds (PTE_ADDR (entry s' d1 v1)) \<or> PTE_ADDR (entry s' d1 v1) = page2pa p)"
      unfolding en [OF d1 v1] using D(6,7) [OF d1 v1 nz] by (simp_all add: s'_def)
  qed
  show "has_table s' ds d va" using sp d va te [OF d, of va] v(1) by (simp add: has_table_def)
qed

lemma walk_create_ok:
  assumes "pages_ok s ds (p # fl) ext" "d \<in> ds" "va < UTOP" "table_entry s d va = 0"
  obtains s' where "pgdir_walk d va True s = Some (Some (pte_addr s' d va), s')" "pages_ok s' ds fl ext"
    "has_table s' ds d va" "view s' ds = view s ds" "npages s' = npages s" "flushed s' = flushed s"
    "\<And>q. pp_ref (pages s' q) = (if q = p then 1 else pp_ref (pages s q))"
    "\<And>a. meta s' ds a \<longleftrightarrow> meta s ds a \<or> a = page2pa p"
    "\<And>a. \<not> meta s' ds (PTE_ADDR a) \<Longrightarrow> pmem s' a = pmem s a"
    "\<And>a. PTE_ADDR a \<in> ds \<Longrightarrow> pmem s' a = (if a = pde_at d va then page2pa p OR PTE_P OR PTE_W OR PTE_U else pmem s a)"
proof -
  note ok = pages_okD(3) [OF assms(1)]
  have n: "npages s \<le> 2 ^ 20" using ok by (simp add: spaces_ok_def)
  have "p \<in> set (p # fl)" by simp
  note p = free_pages_unused [OF assms(1) this]
  have p20: "p < 2 ^ 20" using p(3) n by simp
  note v = new_pde [OF p20]
  let ?v = "page2pa p OR PTE_P OR PTE_W OR PTE_U"
  have ref0: "pp_ref (pages s p) = 0" using pages_okD(1) [OF assms(1)] by (simp add: free_ok_def)
  obtain s1 where s1: "page_alloc True s = Some (Some p, s1)" "free_ok s1 fl" "npages s1 = npages s"
    "\<And>q. pp_ref (pages s1 q) = pp_ref (pages s q)" "flushed s1 = flushed s"
    "pmem s1 = (\<lambda>a. if True \<and> PTE_ADDR a = page2pa p then 0 else pmem s a)"
    by (rule page_alloc_ok [OF pages_okD(1) [OF assms(1)] n, where z = True]) blast
  have pfl: "p \<notin> set fl" using pages_okD(1) [OF assms(1)] by (simp add: free_ok_def)
  let ?s2 = "upd_page s1 p (\<lambda>q. q\<lparr>pp_ref := pp_ref q + 1\<rparr>)"
  let ?s3 = "write_pte ?s2 (pde_at d va) ?v"
  have mem: "\<forall>a. meta s ds (PTE_ADDR a) \<longrightarrow> pmem ?s2 a = pmem s a"
  proof (intro allI impI)
    fix a assume "meta s ds (PTE_ADDR a)"
    then have "PTE_ADDR a \<noteq> page2pa p"
      using unused_meta [OF p(1)] page_of_page2pa [OF p20] by (metis page_of_ADDR)
    then show "pmem ?s2 a = pmem s a" by (simp add: s1(6))
  qed
  note fr = frame [OF ok mem]
  have "page_of (page2pa p) = p" by (rule page_of_page2pa [OF p20])
  note add = add_table [where s = ?s2 and v = ?v and p = p and d = d and va = va and ds = ds,
      OF fr(5) assms(2,3) _ _ _ _ v]
  have add: "spaces_ok ?s3 ds" "has_table ?s3 ds d va" "view ?s3 ds = view ?s2 ds"
    "\<And>q. uses ?s3 ds q = uses ?s2 ds q + of_bool (q = p)" "\<And>a. meta ?s3 ds a \<longleftrightarrow> meta ?s2 ds a \<or> a = page2pa p"
    by (rule add; use fr(1) [OF assms(2), of va] assms(4) p(1,3) s1(3,6) in \<open>simp add: fr(4)\<close>)+
  have walk: "pgdir_walk d va True s = Some (Some (pte_addr ?s3 d va), ?s3)"
  proof -
    have "KADDR ?s3 (page2pa p) = Some (page2pa p)"
      using page_of_page2pa [OF p20] p(3) s1(3) by (simp add: KADDR_def page_of_def)
    then show ?thesis
      using assms(4) s1(1) v(1,2)
      by (simp add: pgdir_walk_def Let_def read_pte_def table_entry_def pte_addr_def)
  qed
  have "page_chain (pages ?s3) l fl = page_chain (pages s1) l fl" for l
    using pfl by (intro page_chain_cong) auto
  then have "free_ok ?s3 fl" using s1(2) pfl by (auto simp: free_ok_def)
  moreover have "refs_ok ?s3 ds ext"
    unfolding refs_ok_def
  proof (intro allI impI)
    fix q assume "q < npages ?s3"
    then have "unat (pp_ref (pages s q)) = uses s ds q + ext q"
      using pages_okD(2) [OF assms(1)] s1(3) by (simp add: refs_ok_def)
    then show "unat (pp_ref (pages ?s3 q)) = uses ?s3 ds q + ext q"
      using add(4) [of q] s1(4) ref0 p(1,2) by (simp add: fr(4))
  qed
  ultimately have ok3: "pages_ok ?s3 ds fl ext" using add(1) by (simp add: pages_ok_def)
  have vw: "view ?s2 ds = view s ds" by (rule view_frame) (rule fr(2))
  have fm: "pmem ?s3 a = pmem s a" if "\<not> meta ?s3 ds (PTE_ADDR a)" for a
  proof -
    have "PTE_ADDR (pde_at d va) = d" using spaces_okD(1) [OF ok assms(2)] by (rule pde_page)
    moreover have "d \<in> ds" "PTE_ADDR a \<noteq> page2pa p" "\<not> meta s ds (PTE_ADDR a)"
      using that add(5) fr(3) assms(2) by auto
    ultimately have "a \<noteq> pde_at d va" by (auto simp: meta_def)
    then show ?thesis using \<open>PTE_ADDR a \<noteq> page2pa p\<close> by (simp add: s1(6))
  qed
  have rf: "pp_ref (pages ?s3 q) = (if q = p then 1 else pp_ref (pages s q))" for q
    using s1(4) ref0 by simp
  have nf: "npages ?s3 = npages s" "flushed ?s3 = flushed s" using s1(3,5)
    by (simp_all add: write_pte_def upd_page_def)
  have dirs: "pmem ?s3 a = (if a = pde_at d va then ?v else pmem s a)" if "PTE_ADDR a \<in> ds" for a
    using mem that by (simp add: meta_def)
  show ?thesis
    by (rule that [OF walk ok3 add(2) _ nf rf]) (simp only: add(3) vw, simp only: add(5) fr(3), erule fm, erule dirs)
qed

end
