(* ===== verification/JosPageSpec.thy ===== *)
theory JosPageSpec
  imports JosPageOps
begin

text \<open>
  What the page table operations promise, as updates of the function that is the address
  space, and where the code does not keep its promise: pages lost on an error path and
  reference counts that wrap around.
\<close>

section \<open>Inserting\<close>

lemma take_ref:
  assumes "pages_ok s ds fl ext" "pp \<notin> set fl" "unat (pp_ref (pages s pp)) + 1 < 2 ^ 16"
  shows "pages_ok (upd_page s pp (\<lambda>p. p\<lparr>pp_ref := pp_ref p + 1\<rparr>)) ds fl (ext(pp := ext pp + 1))"
    (is "pages_ok ?s ds fl ?ext")
proof -
  have "page_chain (pages ?s) l fl = page_chain (pages s) l fl" for l
    by (rule page_chain_cong) simp
  then have "free_ok ?s fl" using assms(1,2) by (auto simp: pages_ok_def free_ok_def)
  moreover have "unat (pp_ref (pages s pp) + 1) = unat (pp_ref (pages s pp)) + 1"
    using assms(3) by (simp add: unat_word_ariths)
  then have "refs_ok ?s ds ?ext"
    using assms(1) by (auto simp: pages_ok_def refs_ok_def same_mem(4) [of ?s s])
  ultimately show ?thesis
    using assms(1) by (simp add: pages_ok_def same_mem(6) [of ?s s])
qed

text \<open>What follows the walk: the old mapping goes, the new one comes.\<close>

lemma insert_tail:
  assumes ok: "pages_ok s ds fl ext" and ht: "has_table s ds d va"
    and pp: "pp < npages s" "pp \<notin> set fl" "\<not> meta s ds (page2pa pp)" "unat (pp_ref (pages s pp)) + 1 < 2 ^ 16"
    and v: "v \<noteq> 0" "PTE_ADDR v = page2pa pp"
  obtains s2 where "page_remove cur d va (upd_page s pp (\<lambda>p. p\<lparr>pp_ref := pp_ref p + 1\<rparr>)) = Some s2"
    "pages_ok (write_pte s2 (pte_addr s d va) v) ds
       (if entry s d va \<noteq> 0 \<and> page_of (entry s d va) \<noteq> pp \<and> pp_ref (pages s (page_of (entry s d va))) = 1
        then page_of (entry s d va) # fl else fl) ext"
    "view (write_pte s2 (pte_addr s d va) v) ds = set_page d va v (view s ds)"
    "meta (write_pte s2 (pte_addr s d va) v) ds = meta s ds" "npages s2 = npages s"
    "\<And>q. pp_ref (pages s2 q) = pp_ref (pages s q) + of_bool (q = pp)
       - of_bool (entry s d va \<noteq> 0 \<and> page_of (entry s d va) = q)"
    "\<And>a. \<not> meta s ds (PTE_ADDR a) \<Longrightarrow> pmem (write_pte s2 (pte_addr s d va) v) a = pmem s a"
    "\<And>a. PTE_ADDR a \<in> ds \<Longrightarrow> pmem (write_pte s2 (pte_addr s d va) v) a = pmem s a"
proof -
  let ?s1 = "upd_page s pp (\<lambda>p. p\<lparr>pp_ref := pp_ref p + 1\<rparr>)" and ?ext = "ext(pp := ext pp + 1)"
  let ?o = "entry s d va"
  note H = has_tableD [OF ht]
  have ok1: "pages_ok ?s1 ds fl ?ext" by (rule take_ref [OF ok pp(2,4)])
  have same: "entry ?s1 = entry s" "table_entry ?s1 = table_entry s" "meta ?s1 = meta s" "view ?s1 = view s"
    "pte_addr ?s1 = pte_addr s" "pmem ?s1 = pmem s"
    using same_mem [of ?s1 s] view_mem [of ?s1 s] by simp_all
  have "pp < 2 ^ 20" using pp(1) pages_okD(3) [OF ok] by (simp add: spaces_ok_def)
  then have pv: "page_of v = pp"
    using page_of_ADDR [of v] page_of_page2pa [of pp] unfolding v(2) by simp
  have nz: "unat (pp_ref (pages s pp) + 1) = unat (pp_ref (pages s pp)) + 1"
    using pp(4) by (simp add: unat_word_ariths)
  define fl2 where "fl2 = (if ?o \<noteq> 0 \<and> page_of ?o \<noteq> pp \<and> pp_ref (pages s (page_of ?o)) = 1
        then page_of ?o # fl else fl)"
  have "\<exists>s2. page_remove cur d va ?s1 = Some s2 \<and> pages_ok s2 ds fl2 ?ext \<and>
      view s2 ds = set_page d va 0 (view s ds) \<and> npages s2 = npages s \<and> meta s2 ds = meta s ds \<and>
      (\<forall>w. table_entry s2 d w = table_entry s d w) \<and>
      (\<forall>a. a \<noteq> pte_addr s d va \<longrightarrow> pmem s2 a = pmem s a) \<and>
      (\<forall>q. pp_ref (pages s2 q) = pp_ref (pages s q) + of_bool (q = pp) - of_bool (?o \<noteq> 0 \<and> page_of ?o = q))"
  proof (cases "?o = 0")
    case True
    then have "entry s d w = 0" if "PTE_ADDR w = PTE_ADDR va" for w
      using pte_entry_cong [OF that, of s d] by simp
    then have "set_page d va 0 (view s ds) = view s ds"
      by (auto simp: set_page_def fun_eq_iff view_def)
    moreover have "page_remove cur d va ?s1 = Some ?s1"
      using True H(2,3) pages_okD(3) [OF ok1] by (intro page_remove_none) (simp_all add: same)
    ultimately show ?thesis using True ok1 same by (intro exI [of _ ?s1]) (auto simp: fl2_def)
  next
    case False
    have "(pp_ref (pages ?s1 (page_of ?o)) = 1) = (page_of ?o \<noteq> pp \<and> pp_ref (pages s (page_of ?o)) = 1)"
    proof -
      have "uses s ds pp \<noteq> 0" if "page_of ?o = pp"
        using unused_page(3) [OF _ H(2,3) False] that by metis
      then have "pp_ref (pages s pp) \<noteq> 0" if "page_of ?o = pp"
        using that pages_okD(2) [OF ok] pp(1) by (auto simp: refs_ok_def)
      then show ?thesis by auto
    qed
    then have fl: "(if pp_ref (pages ?s1 (page_of ?o)) = 1 then page_of ?o # fl else fl) = fl2"
      using False by (simp add: fl2_def)
    have o: "entry ?s1 d va \<noteq> 0" "entry ?s1 d va = ?o" using False by (simp_all only: same simp_thms)
    obtain s2 where s2: "page_remove cur d va ?s1 = Some s2" "pages_ok s2 ds fl2 ?ext"
      "view s2 ds = set_page d va 0 (view s ds)" "npages s2 = npages ?s1" "meta s2 ds = meta s ds"
      "\<And>d' w. d' \<in> ds \<Longrightarrow> table_entry s2 d' w = table_entry s d' w"
      "\<And>q. pp_ref (pages s2 q) = (if q = page_of ?o then pp_ref (pages ?s1 q) - 1 else pp_ref (pages ?s1 q))"
      "pmem s2 = (pmem s)(pte_addr s d va := 0)"
      by (rule page_remove_ok [OF ok1 H(2,3) o(1), of cur, unfolded same fl]) blast
    have "pp_ref (pages s2 q) = pp_ref (pages s q) + of_bool (q = pp) - of_bool (?o \<noteq> 0 \<and> page_of ?o = q)" for q
      using s2(7) [of q] False by auto
    then show ?thesis
      using s2(1-6,8) H(2) by (intro exI [of _ s2]) simp
  qed
  then obtain s2 where s2: "page_remove cur d va ?s1 = Some s2" "pages_ok s2 ds fl2 ?ext"
    "view s2 ds = set_page d va 0 (view s ds)" "npages s2 = npages s" "meta s2 ds = meta s ds"
    "\<And>w. table_entry s2 d w = table_entry s d w"
    "\<And>q. pp_ref (pages s2 q) = pp_ref (pages s q) + of_bool (q = pp) - of_bool (?o \<noteq> 0 \<and> page_of ?o = q)"
    "\<And>a. a \<noteq> pte_addr s d va \<Longrightarrow> pmem s2 a = pmem s a"
    by blast
  have ht2: "has_table s2 ds d va"
    using H pages_okD(3) [OF s2(2)] s2(6) by (simp add: has_table_def)
  have a: "pte_addr s d va = pte_addr s2 d va" by (simp add: pte_addr_def s2(6))
  have e0: "entry s2 d va = 0"
    using s2(3) H(2,3) view_user [of d ds va s2] by (simp add: set_page_def)
  have "refs_ok (write_pte s2 (pte_addr s2 d va) v) ds ext"
    by (rule write_refs_ok [OF ht2 pages_okD(2) [OF s2(2)]]) (use e0 v(1) pv in auto)
  moreover have "spaces_ok (write_pte s2 (pte_addr s2 d va) v) ds"
    by (rule write_spaces_ok [OF ht2]) (use pp(1,3) v(2) pv s2(4,5) in simp)
  moreover have "free_ok (write_pte s2 (pte_addr s2 d va) v) fl2"
    using pages_okD(1) [OF s2(2)] by (simp add: free_ok_def)
  ultimately have "pages_ok (write_pte s2 (pte_addr s d va) v) ds fl2 ext"
    unfolding a by (simp add: pages_ok_def)
  moreover have "view (write_pte s2 (pte_addr s d va) v) ds = set_page d va v (view s ds)"
    unfolding a write_view [OF ht2] s2(3) by (intro ext) (simp add: set_page_def)
  moreover have "meta (write_pte s2 (pte_addr s d va) v) ds = meta s ds"
    unfolding a write_meta [OF ht2] s2(5) ..
  moreover have "pmem (write_pte s2 (pte_addr s d va) v) a = pmem s a" if "\<not> meta s ds (PTE_ADDR a)" for a
  proof -
    have "meta s ds (PTE_ADDR (pte_addr s d va))" using H by (auto simp: meta_def pte_page)
    then have "a \<noteq> pte_addr s d va" using that by auto
    then show ?thesis using s2(8) by simp
  qed
  moreover have "pmem (write_pte s2 (pte_addr s d va) v) a = pmem s a" if "PTE_ADDR a \<in> ds" for a
  proof -
    have "PTE_ADDR (pte_addr s d va) \<notin> ds" using H spaces_okD(4) [OF H(1,2,3,4)] by (simp add: pte_page)
    then have "a \<noteq> pte_addr s d va" using that by auto
    then show ?thesis using s2(8) by simp
  qed
  ultimately show ?thesis using that [OF s2(1)] s2(4,7) by (simp add: fl2_def)
qed

text \<open>A page that may be mapped: allocated, not a directory or table, with room in its count.\<close>

definition mappable :: "vm \<Rightarrow> u32 set \<Rightarrow> nat list \<Rightarrow> nat \<Rightarrow> bool" where
  "mappable s ds fl pp \<longleftrightarrow> pp < npages s \<and> pp \<notin> set fl \<and> \<not> meta s ds (page2pa pp) \<and>
     unat (pp_ref (pages s pp)) + 1 < 2 ^ 16"

lemma page_insert_full:
  assumes ok: "pages_ok s ds fl ext" and d: "d \<in> ds" and va: "va < UTOP" and pp: "mappable s ds fl pp"
    and perm: "perm < 4096"
  defines "v \<equiv> page2pa pp OR perm OR PTE_P"
  shows "(fl = [] \<and> table_entry s d va = 0 \<and> page_insert cur d pp va perm s = Some (-4, s)) \<or>
    (\<exists>s' fl'. page_insert cur d pp va perm s = Some (0, s') \<and> pages_ok s' ds fl' ext \<and>
      view s' ds = set_page d va v (view s ds) \<and> npages s' = npages s \<and> \<not> meta s' ds (page2pa pp) \<and>
      (\<forall>a. \<not> meta s' ds (PTE_ADDR a) \<longrightarrow> pmem s' a = pmem s a) \<and>
      pp_ref (pages s' pp) = pp_ref (pages s pp) + of_bool (\<not> (entry s d va \<noteq> 0 \<and> page_of (entry s d va) = pp)) \<and>
      (\<forall>a. PTE_ADDR a \<in> ds \<longrightarrow> pmem s' a = (if a = pde_at d va \<and> table_entry s d va = 0
         then page2pa (hd fl) OR PTE_P OR PTE_W OR PTE_U else pmem s a)) \<and>
      length fl \<le> length fl' + of_bool (table_entry s d va = 0))"
proof -
  note P = pp [unfolded mappable_def]
  have v: "v \<noteq> 0" "PTE_ADDR v = page2pa pp"
  proof -
    show "v \<noteq> 0" by (simp add: v_def or_eq_0_iff PTE_P_def)
    have "PTE_ADDR PTE_P = 0" by (simp add: PTE_ADDR_def PTE_P_def)
    then show "PTE_ADDR v = page2pa pp"
      using flags_page [OF perm, of pp] by (simp add: v_def PTE_ADDR_or or.assoc [symmetric])
  qed
  consider (table) "table_entry s d va \<noteq> 0" | (full) "table_entry s d va = 0" "fl = []"
    | (create) p fl' where "table_entry s d va = 0" "fl = p # fl'" by (cases fl) auto
  then show ?thesis
  proof cases
    case table
    then have ht: "has_table s ds d va" using ok d va by (simp add: has_table_def pages_ok_def)
    then have w: "pgdir_walk d va True s = Some (Some (pte_addr s d va), s)"
      using spaces_okD(3) [OF has_tableD(1) [OF ht] d va table] table
      by (simp add: pgdir_walk_def Let_def read_pte_def table_entry_def [symmetric] pte_addr_def KADDR_page)
    obtain s2 where "page_remove cur d va (upd_page s pp (\<lambda>p. p\<lparr>pp_ref := pp_ref p + 1\<rparr>)) = Some s2"
      "pages_ok (write_pte s2 (pte_addr s d va) v) ds
       (if entry s d va \<noteq> 0 \<and> page_of (entry s d va) \<noteq> pp \<and> pp_ref (pages s (page_of (entry s d va))) = 1
        then page_of (entry s d va) # fl else fl) ext"
      "view (write_pte s2 (pte_addr s d va) v) ds = set_page d va v (view s ds)"
      "meta (write_pte s2 (pte_addr s d va) v) ds = meta s ds" "npages s2 = npages s"
      "\<And>q. pp_ref (pages s2 q) = pp_ref (pages s q) + of_bool (q = pp)
       - of_bool (entry s d va \<noteq> 0 \<and> page_of (entry s d va) = q)"
      "\<And>a. \<not> meta s ds (PTE_ADDR a) \<Longrightarrow> pmem (write_pte s2 (pte_addr s d va) v) a = pmem s a"
      "\<And>a. PTE_ADDR a \<in> ds \<Longrightarrow> pmem (write_pte s2 (pte_addr s d va) v) a = pmem s a"
      by (rule insert_tail [OF ok ht _ _ _ _ v, of cur]) (use P in auto)
    then show ?thesis
      using w P table by (intro disjI2) (auto simp: page_insert_def v_def)
  next
    case full
    then have "pgdir_walk d va True s = Some (None, s)"
      using page_alloc_none [of s True] pages_okD(1) [OF ok]
      by (simp add: pgdir_walk_def Let_def read_pte_def table_entry_def)
    with full show ?thesis by (simp add: page_insert_def)
  next
    case (create p fl')
    note ok' = ok [unfolded create(2)]
    obtain s1 where s1: "pgdir_walk d va True s = Some (Some (pte_addr s1 d va), s1)" "pages_ok s1 ds fl' ext"
      "has_table s1 ds d va" "view s1 ds = view s ds" "npages s1 = npages s"
      "\<And>q. pp_ref (pages s1 q) = (if q = p then 1 else pp_ref (pages s q))"
      "\<And>a. meta s1 ds a \<longleftrightarrow> meta s ds a \<or> a = page2pa p"
      "\<And>a. \<not> meta s1 ds (PTE_ADDR a) \<Longrightarrow> pmem s1 a = pmem s a"
      "\<And>a. PTE_ADDR a \<in> ds \<Longrightarrow> pmem s1 a = (if a = pde_at d va then page2pa p OR PTE_P OR PTE_W OR PTE_U else pmem s a)"
      by (rule walk_create_ok [OF ok' d va create(1)]) blast
    have n: "npages s \<le> 2 ^ 20" using pages_okD(3) [OF ok] by (simp add: spaces_ok_def)
    have "p < npages s" using pages_okD(1) [OF ok'] by (simp add: free_ok_def)
    then have "page2pa pp \<noteq> page2pa p"
      using P create(2) n page_of_page2pa [of p] page_of_page2pa [of pp] by auto
    then have pp1: "pp < npages s1" "pp \<notin> set fl'" "\<not> meta s1 ds (page2pa pp)"
      "unat (pp_ref (pages s1 pp)) + 1 < 2 ^ 16" "pp_ref (pages s1 pp) = pp_ref (pages s pp)"
      using P create(2) s1(5-7) by auto
    have e: "entry s1 d va = entry s d va" using s1(4) d va by (metis view_user)
    obtain s2 where s2: "page_remove cur d va (upd_page s1 pp (\<lambda>p. p\<lparr>pp_ref := pp_ref p + 1\<rparr>)) = Some s2"
      "pages_ok (write_pte s2 (pte_addr s1 d va) v) ds
       (if entry s1 d va \<noteq> 0 \<and> page_of (entry s1 d va) \<noteq> pp \<and> pp_ref (pages s1 (page_of (entry s1 d va))) = 1
        then page_of (entry s1 d va) # fl' else fl') ext"
      "view (write_pte s2 (pte_addr s1 d va) v) ds = set_page d va v (view s1 ds)"
      "meta (write_pte s2 (pte_addr s1 d va) v) ds = meta s1 ds" "npages s2 = npages s1"
      "\<And>q. pp_ref (pages s2 q) = pp_ref (pages s1 q) + of_bool (q = pp)
       - of_bool (entry s1 d va \<noteq> 0 \<and> page_of (entry s1 d va) = q)"
      "\<And>a. \<not> meta s1 ds (PTE_ADDR a) \<Longrightarrow> pmem (write_pte s2 (pte_addr s1 d va) v) a = pmem s1 a"
      "\<And>a. PTE_ADDR a \<in> ds \<Longrightarrow> pmem (write_pte s2 (pte_addr s1 d va) v) a = pmem s1 a"
      by (rule insert_tail [OF s1(2,3) pp1(1-4) v, of cur]) auto
    have "page_insert cur d pp va perm s = Some (0, write_pte s2 (pte_addr s1 d va) v)"
      using s1(1) s2(1) by (simp add: page_insert_def v_def)
    with s2 show ?thesis
      using pp1(3,5) s1(4,5,8,9) e create by (intro disjI2) auto
  qed
qed

lemma page_insert_ok:
  assumes "pages_ok s ds fl ext" "d \<in> ds" "va < UTOP" "mappable s ds fl pp" "perm < 4096"
  defines "v \<equiv> page2pa pp OR perm OR PTE_P"
  shows "(fl = [] \<and> table_entry s d va = 0 \<and> page_insert cur d pp va perm s = Some (-4, s)) \<or>
    (\<exists>s' fl'. page_insert cur d pp va perm s = Some (0, s') \<and> pages_ok s' ds fl' ext \<and>
      view s' ds = set_page d va v (view s ds) \<and> npages s' = npages s \<and> \<not> meta s' ds (page2pa pp) \<and>
      (\<forall>a. \<not> meta s' ds (PTE_ADDR a) \<longrightarrow> pmem s' a = pmem s a) \<and>
      pp_ref (pages s' pp) = pp_ref (pages s pp) + of_bool (\<not> (entry s d va \<noteq> 0 \<and> page_of (entry s d va) = pp)))"
  using page_insert_full [OF assms(1-5), of cur] unfolding v_def by blast

end
