(* ===== verification/JosPageProps.thy ===== *)
theory JosPageProps
  imports JosPageSpec JosYield
begin

text \<open>
  The promises of the page table operations for the rest of the kernel: insertion and removal
  refine a point update of the address space, lookups read it, the check of user memory
  decides whether a range is accessible, and what the allocating system call does.
\<close>

section \<open>A small memory\<close>

text \<open>Eight pages: page 3 is a directory, 4 and 5 are free, the others are not in use.\<close>

definition small_mem :: vm where
  "small_mem = \<lparr>npages = 8,
     pages = (\<lambda>p. \<lparr>pp_ref = (if p = 3 then 1 else 0), pp_link = (if p = 4 then Some 5 else None)\<rparr>),
     page_free_list = Some 4, pmem = (\<lambda>_. 0), nextfree = None, mmio_base = MMIOBASE,
     user_mem_check_addr = 0, flushed = []\<rparr>"

lemma small_entries [simp]: "table_entry small_mem d va = 0" "entry small_mem d va = 0"
  by (simp_all add: table_entry_def entry_def small_mem_def)

lemma page_of_dir: "page_of 0x3000 = 3" "PTE_ADDR 0x3000 = 0x3000"
  by (simp_all add: page_of_def PGNUM_def PTXSHIFT_def PTE_ADDR_def drop_bit_eq_div)

lemma small_uses: "uses small_mem {0x3000} p = of_bool (p = 3)"
proof -
  have "{d \<in> {0x3000}. page_of d = p} = (if p = 3 then {0x3000} else {})"
    using page_of_dir by auto
  then show ?thesis by (simp add: uses_def mappings_def tables_at_def)
qed

lemma small_ok: "pages_ok small_mem {0x3000} [4, 5] (\<lambda>_. 0)"
proof -
  have "free_ok small_mem [4, 5]" by (auto simp: free_ok_def small_mem_def)
  moreover have "refs_ok small_mem {0x3000} (\<lambda>_. 0)"
    by (simp add: refs_ok_def small_uses) (simp add: small_mem_def)
  moreover have "spaces_ok small_mem {0x3000}"
    using page_of_dir by (simp add: spaces_ok_def) (simp add: small_mem_def)
  ultimately show ?thesis by (simp add: pages_ok_def)
qed

lemma small_mappable: "mappable small_mem {0x3000} [4, 5] 6"
proof -
  have "page2pa 6 = 0x6000" by (simp add: page2pa_def PGSHIFT_def push_bit_eq_mult)
  then have "\<not> meta small_mem {0x3000} (page2pa 6)" by (simp add: meta_def)
  then show ?thesis by (simp add: mappable_def) (simp add: small_mem_def)
qed

lemma UTOP_eq: "UTOP = 0xEEC00000"
  by (simp add: UTOP_def UENVS_def UPAGES_def UVPT_def ULIM_def MMIOBASE_def MMIOLIM_def KSTACKTOP_def
      KERNBASE_def PTSIZE_def PGSIZE_def NPTENTRIES_def)

section \<open>Insertion, lookup, removal\<close>

text \<open>
  C7. \<open>page_insert\<close> refines the update of one page of one address space: when it returns 0,
  the page of \<open>va\<close> is mapped to \<open>pp\<close> with the given permissions and every other page of every
  address space is as before, the tables, the free list and the reference counts agree
  again, and \<open>pp\<close> is still not a directory or table. When it returns \<open>-E_NO_MEM\<close> there was no
  page left for a table and nothing has changed. It never panics.
\<close>

theorem page_insert_refines:
  assumes "pages_ok s ds fl ext" "d \<in> ds" "va < UTOP" "mappable s ds fl pp" "perm < 4096"
  shows "case page_insert cur d pp va perm s of
      None \<Rightarrow> False
    | Some (r, s') \<Rightarrow>
        if r = 0 then (\<exists>fl'. pages_ok s' ds fl' ext) \<and> \<not> meta s' ds (page2pa pp) \<and>
          view s' ds = set_page d va (page2pa pp OR perm OR PTE_P) (view s ds)
        else r = - E_NO_MEM \<and> fl = [] \<and> s' = s"
  using page_insert_ok [OF assms, of cur] by (auto simp: E_NO_MEM_def)

theorem page_insert_refines_witness:
  "case page_insert None 0x3000 6 0x1000 PTE_W small_mem of
     None \<Rightarrow> False
   | Some (r, s') \<Rightarrow> r = 0 \<and> view s' {0x3000} = set_page 0x3000 0x1000 (page2pa 6 OR PTE_W OR PTE_P) (view small_mem {0x3000})"
  using page_insert_refines [OF small_ok _ _ small_mappable, of "0x3000" "0x1000" PTE_W None]
  by (auto simp: UTOP_eq PTE_W_def split: option.splits if_splits)

text \<open>
  What was inserted is found: after a successful \<open>page_insert\<close>, \<open>page_lookup\<close> returns \<open>pp\<close>
  for every address of the page, and for every other user address of every address space
  the page that it returned before.
\<close>

theorem insert_then_lookup:
  assumes "pages_ok s ds fl ext" "d \<in> ds" "va < UTOP" "mappable s ds fl pp" "perm < 4096"
    "page_insert cur d pp va perm s = Some (0, s')" "d' \<in> ds" "w < UTOP"
  shows "map_option (map_option fst) (page_lookup d' w s') =
    (if d' = d \<and> PTE_ADDR w = PTE_ADDR va then Some (Some pp)
     else map_option (map_option fst) (page_lookup d' w s))"
proof -
  obtain fl' where s': "pages_ok s' ds fl' ext"
    "view s' ds = set_page d va (page2pa pp OR perm OR PTE_P) (view s ds)"
    using page_insert_ok [OF assms(1-5), of cur] assms(6) by auto
  note ok = pages_okD(3) [OF assms(1)] and ok' = pages_okD(3) [OF s'(1)]
  let ?v = "page2pa pp OR perm OR PTE_P"
  have p: "pp < 2 ^ 20" using assms(4) ok by (simp add: mappable_def spaces_ok_def)
  have nz: "?v \<noteq> 0" by (simp add: or_eq_0_iff PTE_P_def)
  have "PTE_ADDR PTE_P = 0" by (simp add: PTE_ADDR_def PTE_P_def)
  then have "PTE_ADDR ?v = page2pa pp"
    using flags_page [OF assms(5), of pp] by (simp add: PTE_ADDR_or or.assoc [symmetric])
  then have pv: "page_of ?v = pp" using page_of_page2pa [OF p] by (metis page_of_ADDR)
  have e: "entry s' d' w = (if d' = d \<and> PTE_ADDR w = PTE_ADDR va then ?v else entry s d' w)"
    using s'(2) view_user [OF assms(7,8)] by (metis set_page_def)
  show ?thesis
    unfolding lookup_entry [OF ok assms(7,8)] lookup_entry [OF ok' assms(7,8)] e
    using nz pv by (cases "d' = d \<and> PTE_ADDR w = PTE_ADDR va") (simp_all only: if_True if_False, simp_all)
qed

theorem insert_then_lookup_witness:
  "\<exists>s'. page_insert None 0x3000 6 0x1000 PTE_W small_mem = Some (0, s') \<and>
     map_option (map_option fst) (page_lookup 0x3000 0x1234 s') = Some (Some 6)"
proof -
  have va: "0x1000 < UTOP" "0x1234 < UTOP" "PTE_W < 4096" by (simp_all add: UTOP_eq PTE_W_def)
  have d: "(0x3000 :: u32) \<in> {0x3000}" by simp
  obtain s' where s': "page_insert None 0x3000 6 0x1000 PTE_W small_mem = Some (0, s')"
    using page_insert_ok [OF small_ok d va(1) small_mappable va(3), of None] by auto
  moreover have "PTE_ADDR 0x1234 = PTE_ADDR 0x1000" by (simp add: PTE_ADDR_def)
  ultimately show ?thesis
    using insert_then_lookup [OF small_ok d va(1) small_mappable va(3) s' d va(2)] by simp
qed

text \<open>
  C22. \<open>page_remove\<close> refines the removal of one page: nothing happens when nothing is mapped;
  otherwise exactly that page of that address space is unmapped, its reference is given
  back, the page goes to the front of the free list when this was the last one, and the
  translation is flushed when the address space is the one in use. It never panics.
\<close>

theorem page_remove_refines:
  assumes "pages_ok s ds fl ext" "d \<in> ds" "va < UTOP"
  shows "if entry s d va = 0 then page_remove cur d va s = Some s
     else let p = page_of (entry s d va) in
       \<exists>s'. page_remove cur d va s = Some s' \<and> view s' ds = set_page d va 0 (view s ds) \<and>
         pages_ok s' ds (if pp_ref (pages s p) = 1 then p # fl else fl) ext \<and>
         (cur = None \<or> cur = Some d \<longrightarrow> va \<in> set (flushed s'))"
proof (cases "entry s d va = 0")
  case True
  then show ?thesis
    using page_remove_none [OF pages_okD(3) [OF assms(1)] assms(2,3)] by simp
next
  case False
  obtain s' where "page_remove cur d va s = Some s'"
    "pages_ok s' ds (if pp_ref (pages s (page_of (entry s d va))) = 1 then page_of (entry s d va) # fl else fl) ext"
    "view s' ds = set_page d va 0 (view s ds)" "flushed s' = flushed (tlb_invalidate cur d va s)"
    by (rule page_remove_ok [OF assms False, of cur]) blast
  then show ?thesis using False by (auto simp: Let_def tlb_invalidate_def)
qed

theorem page_remove_refines_witness:
  "page_remove None 0x3000 0x1000 small_mem = Some small_mem"
  using page_remove_refines [OF small_ok, of "0x3000" "0x1000" None] by (simp add: UTOP_eq)

section \<open>The check of user memory\<close>

lemma user_mem_pages_walk:
  assumes "spaces_ok s ds" "d \<in> ds" "\<And>i. i < n \<Longrightarrow> start + of_nat i * PGSIZE < UTOP"
  shows "user_mem_pages d perm lo n start s =
    Some (map_option (\<lambda>i. let a = start + of_nat i * PGSIZE in if a > lo then a else lo)
      (find (\<lambda>i. entry s d (start + of_nat i * PGSIZE) AND (perm OR PTE_P) \<noteq> perm OR PTE_P) [0..<n]))"
  using assms(3)
proof (induction n arbitrary: start)
  case (Suc n)
  have st: "start < UTOP" using Suc.prems [of 0] by simp
  let ?bad = "\<lambda>a i. entry s d (a + of_nat i * PGSIZE) AND (perm OR PTE_P) \<noteq> perm OR PTE_P"
  have pp: "perm OR PTE_P \<noteq> 0" by (simp add: or_eq_0_iff PTE_P_def)
  have walk: "pgdir_walk d start False s = Some (if table_entry s d start = 0 then None else Some (pte_addr s d start), s)"
    by (rule walk_lookup [OF assms(1,2) st])
  have bad: "(case (if table_entry s d start = 0 then None else Some (pte_addr s d start)) of None \<Rightarrow> True
      | Some a \<Rightarrow> read_pte s a AND (perm OR PTE_P) \<noteq> perm OR PTE_P) = ?bad start 0"
    using pp by (simp add: entry_def read_pte_def)
  have shift: "start + PGSIZE + of_nat i * PGSIZE = start + of_nat (Suc i) * PGSIZE" for i
    by (simp add: algebra_simps)
  have "user_mem_pages d perm lo n (start + PGSIZE) s =
    Some (map_option (\<lambda>i. let a = start + of_nat (Suc i) * PGSIZE in if a > lo then a else lo)
      (find (\<lambda>i. ?bad start (Suc i)) [0..<n]))"
  proof -
    have "user_mem_pages d perm lo n (start + PGSIZE) s =
      Some (map_option (\<lambda>i. let a = start + PGSIZE + of_nat i * PGSIZE in if a > lo then a else lo)
        (find (?bad (start + PGSIZE)) [0..<n]))"
      by (rule Suc.IH) (simp only: shift, rule Suc.prems, simp)
    then show ?thesis by (simp only: shift)
  qed
  moreover have "find (?bad start) [0..<Suc n] =
      (if ?bad start 0 then Some 0 else map_option Suc (find (\<lambda>i. ?bad start (Suc i)) [0..<n]))"
  proof -
    have "find P (map Suc xs) = map_option Suc (find (\<lambda>i. P (Suc i)) xs)" for P xs
      by (induction xs) auto
    moreover have "[0..<Suc n] = 0 # map Suc [0..<n]" by (simp add: upt_conv_Cons map_Suc_upt del: upt_Suc)
    ultimately show ?thesis by simp
  qed
  ultimately show ?case
    unfolding user_mem_pages.simps walk by (simp add: bad Let_def option.map_comp o_def del: upt_Suc cong: if_cong)
qed simp

lemma unat_u32: "unat (w :: u32) < 2 ^ 32"
  by (rule order_less_le_trans [OF unsigned_less]) simp

lemma page_of_div: "page_of w = unat w div 4096"
  by (simp add: page_of_def PGNUM_def PTXSHIFT_def drop_bit_eq_div unat_div)

lemma unat_page2pa: "p < 2 ^ 20 \<Longrightarrow> unat (page2pa p) = p * 4096"
  by (simp add: page2pa_def PGSHIFT_def push_bit_eq_mult unat_word_ariths unat_of_nat)

lemma unat_ADDR: "unat (PTE_ADDR w) = unat w div 4096 * 4096"
proof -
  have "page_of w < 2 ^ 20" using unat_u32 [of w] by (simp add: page_of_div)
  then have "unat (page2pa (page_of w)) = page_of w * 4096" by (rule unat_page2pa)
  then show ?thesis unfolding page2pa_page_of by (simp add: page_of_div)
qed

lemma div_up_less: "0 < (n :: nat) \<Longrightarrow> w < a + n \<Longrightarrow> w div 4096 < (a + n + 4095) div 4096"
  by (rule order_less_le_trans [of _ "w div 4096 + 1"]) (simp_all add: div_add_self2 [symmetric] div_le_mono)

lemma page_below: "(x :: nat) < (m + 4095) div 4096 \<Longrightarrow> x * 4096 < m"
proof -
  assume "x < (m + 4095) div 4096"
  then have "(x + 1) * 4096 \<le> (m + 4095) div 4096 * 4096" by simp
  also have "\<dots> \<le> m + 4095" by simp
  finally show ?thesis by simp
qed

lemma unat_ROUNDDOWN: "unat (ROUNDDOWN a PGSIZE) = unat a div 4096 * 4096"
proof -
  have m: "unat (a mod PGSIZE) = unat a mod 4096" by (simp add: PGSIZE_def unat_mod)
  then have "a mod PGSIZE \<le> a" by (simp add: word_le_nat_alt)
  then have "unat (a - a mod PGSIZE) = unat a - unat a mod 4096"
    using m by (simp add: unat_sub)
  also have "\<dots> = unat a div 4096 * 4096" by (simp add: minus_mod_eq_div_mult)
  finally show ?thesis by (simp add: ROUNDDOWN_def)
qed

lemma unat_ROUNDUP:
  "unat a + 4095 < 2 ^ 32 \<Longrightarrow> unat (ROUNDUP a PGSIZE) = (unat a + 4095) div 4096 * 4096"
proof -
  assume a: "unat a + 4095 < 2 ^ 32"
  have "a + PGSIZE - 1 = a + 4095" by (simp add: PGSIZE_def)
  then have "unat (ROUNDUP a PGSIZE) = unat (a + 4095) div 4096 * 4096"
    unfolding ROUNDUP_def by (simp only: unat_ROUNDDOWN)
  moreover have "unat (a + 4095) = unat a + 4095" using a by (simp add: unat_word_ariths)
  ultimately show ?thesis by simp
qed

text \<open>The pages of the loop: page \<open>i\<close> is the one of the bytes of the range that it holds.\<close>

definition loop_page :: "u32 \<Rightarrow> nat \<Rightarrow> u32" where
  "loop_page va i = ROUNDDOWN va PGSIZE + of_nat i * PGSIZE"

lemma unat_loop_page:
  assumes "(unat va div 4096 + i) * 4096 < 2 ^ 32"
  shows "unat (loop_page va i) = (unat va div 4096 + i) * 4096"
proof -
  have i: "i * 4096 < 2 ^ 32" using assms by simp
  then have "unat (of_nat i * PGSIZE) = i * 4096"
    by (simp add: PGSIZE_def unat_word_ariths unat_of_nat)
  then have "unat (ROUNDDOWN va PGSIZE) + unat (of_nat i * PGSIZE) = (unat va div 4096 + i) * 4096"
    by (simp only: unat_ROUNDDOWN distrib_right)
  then have "unat (loop_page va i) = (unat va div 4096 + i) * 4096 mod 2 ^ 32"
    unfolding loop_page_def by (simp only: unat_word_ariths(1)) simp
  then show ?thesis using assms by (simp only: mod_less)
qed

lemma loop_page_of_byte:
  assumes "va \<le> w"
  shows "PTE_ADDR w = loop_page va (unat w div 4096 - unat va div 4096)"
proof -
  have le: "unat va div 4096 \<le> unat w div 4096"
    using assms by (simp add: word_le_nat_alt div_le_mono)
  have "unat w div 4096 * 4096 \<le> unat w" by simp
  then have "unat w div 4096 * 4096 < 2 ^ 32" using unat_u32 [of w] by simp
  then have "unat (loop_page va (unat w div 4096 - unat va div 4096)) = unat w div 4096 * 4096"
    using le by (simp add: unat_loop_page)
  then show ?thesis by (simp add: word_unat_eq_iff unat_ADDR)
qed

text \<open>
  The bytes of a range, those that may not be accessed, the number of pages of the loop, and
  the first byte of the range in page \<open>i\<close>.
\<close>

definition in_range :: "u32 \<Rightarrow> u32 \<Rightarrow> u32 \<Rightarrow> bool" where
  "in_range va len w \<longleftrightarrow> va \<le> w \<and> unat w < unat va + unat len"

definition denied :: "vm \<Rightarrow> u32 \<Rightarrow> u32 \<Rightarrow> u32 \<Rightarrow> bool" where
  "denied s d perm w \<longleftrightarrow> entry s d w AND (perm OR PTE_P) \<noteq> perm OR PTE_P"

definition range_pages :: "u32 \<Rightarrow> u32 \<Rightarrow> nat" where
  "range_pages va len = (unat va + unat len + 4095) div 4096 - unat va div 4096"

definition first_byte :: "u32 \<Rightarrow> nat \<Rightarrow> u32" where
  "first_byte va i = (if loop_page va i > va then loop_page va i else va)"

lemma range_page_bound: "i < range_pages va len \<Longrightarrow> unat va div 4096 + i < (unat va + unat len + 4095) div 4096"
  by (simp add: range_pages_def)

lemma range_page:
  assumes "unat va + unat len + 4095 < 2 ^ 32" "i < range_pages va len"
  shows "unat (loop_page va i) = (unat va div 4096 + i) * 4096"
proof (rule unat_loop_page)
  have "(unat va div 4096 + i) * 4096 < unat va + unat len"
    by (rule page_below) (rule range_page_bound [OF assms(2)])
  then show "(unat va div 4096 + i) * 4096 < 2 ^ 32" using assms(1) by simp
qed

lemma in_range_page:
  assumes "len \<noteq> 0" "in_range va len w"
  obtains i where "i < range_pages va len" "unat w div 4096 = unat va div 4096 + i"
    "denied s d perm w = denied s d perm (loop_page va i)"
proof -
  let ?i = "unat w div 4096 - unat va div 4096"
  have "unat w div 4096 < (unat va + unat len + 4095) div 4096"
    by (rule div_up_less) (use assms in \<open>simp_all add: in_range_def unat_gt_0\<close>)
  moreover have le: "unat va div 4096 \<le> unat w div 4096"
    using assms(2) by (simp add: in_range_def word_le_nat_alt div_le_mono)
  ultimately have "?i < range_pages va len" unfolding range_pages_def by (rule diff_less_mono)
  moreover have "denied s d perm w = denied s d perm (loop_page va ?i)"
    using loop_page_of_byte [of va w] assms(2) entry_page [of s d w] by (simp add: in_range_def denied_def)
  ultimately show ?thesis using that [of ?i] le by simp
qed

lemma first_byte_in:
  assumes "len \<noteq> 0" "unat va + unat len + 4095 < 2 ^ 32" "i < range_pages va len"
  shows "in_range va len (first_byte va i)" "unat (first_byte va i) div 4096 = unat va div 4096 + i"
    "w < first_byte va i \<Longrightarrow> va \<le> w \<Longrightarrow> unat w < (unat va div 4096 + i) * 4096"
proof -
  have u: "unat (first_byte va i) = max (unat va) ((unat va div 4096 + i) * 4096)"
    using range_page [OF assms(2,3)] by (auto simp: first_byte_def word_less_nat_alt)
  have "(unat va div 4096 + i) * 4096 < unat va + unat len"
    by (rule page_below) (rule range_page_bound [OF assms(3)])
  moreover have "va \<le> first_byte va i" by (auto simp: first_byte_def)
  ultimately show "in_range va len (first_byte va i)" using u assms(1) by (simp add: in_range_def unat_gt_0)
  have "unat va < (unat va div 4096 + 1) * 4096" by (simp add: div_less_iff_less_mult [symmetric])
  then show "unat (first_byte va i) div 4096 = unat va div 4096 + i"
    using u by (cases i) (auto simp: max_def)
  show "w < first_byte va i \<Longrightarrow> va \<le> w \<Longrightarrow> unat w < (unat va div 4096 + i) * 4096"
    using u by (auto simp: word_less_nat_alt word_le_nat_alt max_def split: if_splits)
qed

lemma user_mem_check_find:
  assumes "spaces_ok s ds" "d \<in> ds" "len \<noteq> 0" "unat va + unat len + 4095 < 2 ^ 32"
  shows "user_mem_check d va len perm s =
    (if unat va + unat len > unat UTOP then Some (- E_FAULT, s\<lparr>user_mem_check_addr := va\<rparr>)
     else case find (\<lambda>i. denied s d perm (loop_page va i)) [0..<range_pages va len] of
         None \<Rightarrow> Some (0, s)
       | Some i \<Rightarrow> Some (- E_FAULT, s\<lparr>user_mem_check_addr := first_byte va i\<rparr>))"
proof -
  let ?hi = "ROUNDUP (va + len) PGSIZE" and ?lo = "ROUNDDOWN va PGSIZE"
  let ?b = "(unat va + unat len + 4095) div 4096"
  have len: "0 < unat len" using assms(3) by (simp add: unat_gt_0)
  have sum: "unat (va + len) = unat va + unat len" using assms(4) by (simp add: unat_word_ariths)
  have hi: "unat ?hi = ?b * 4096" using unat_ROUNDUP [of "va + len"] assms(4) sum by simp
  have ab: "unat va div 4096 < ?b" using len by (rule div_up_less) (use len in simp)
  show ?thesis
  proof (cases "?hi > UTOP")
    case True
    then have "unat va + unat len > unat UTOP" using hi by (simp add: word_less_nat_alt UTOP_eq)
    then show ?thesis using True by (simp add: user_mem_check_def Let_def E_FAULT_def)
  next
    case False
    then have top: "?b * 4096 \<le> unat UTOP" using hi by (simp add: word_less_nat_alt)
    then have fits: "\<not> unat va + unat len > unat UTOP" by simp
    have steps: "(if ?lo < ?hi then unat (?hi - ?lo) div 4096 else 0) = range_pages va len"
      using ab hi unat_ROUNDDOWN [of va]
      by (simp add: range_pages_def word_less_nat_alt unat_sub word_le_nat_alt diff_mult_distrib [symmetric])
    have "loop_page va i < UTOP" if "i < range_pages va len" for i
      using range_page [OF assms(4) that] range_page_bound [OF that] top by (simp add: word_less_nat_alt)
    then have "user_mem_pages d perm va (range_pages va len) ?lo s =
      Some (map_option (first_byte va) (find (\<lambda>i. denied s d perm (loop_page va i)) [0..<range_pages va len]))"
      using user_mem_pages_walk [OF assms(1,2), of "range_pages va len" ?lo perm va]
      by (simp add: loop_page_def denied_def first_byte_def [abs_def] Let_def cong: if_cong)
    then show ?thesis
      using False fits steps
      by (simp add: user_mem_check_def Let_def E_FAULT_def split: option.split)
  qed
qed

text \<open>
  C23. \<open>user_mem_check\<close> on a non-empty range that does not wrap around: it returns 0, and changes nothing, exactly when the
  range ends at or below \<open>UTOP\<close> and the page of every byte is mapped with the permissions asked
  for; otherwise it returns \<open>-E_FAULT\<close>. When the range ends at or below \<open>UTOP\<close>, the recorded address is the first one of the
  range that the page tables deny. When the range goes past \<open>UTOP\<close>, the recorded address is its start, whether or
  not the start may be accessed. The comment of the code asks for less and for more: for
  addresses below \<open>ULIM\<close> to be allowed by the page tables alone, and for the first erroneous address always.
\<close>

theorem user_mem_check_decides:
  assumes "spaces_ok s ds" "d \<in> ds" "len \<noteq> 0" "unat va + unat len + 4095 < 2 ^ 32"
  shows "case user_mem_check d va len perm s of
      None \<Rightarrow> False
    | Some (r, s') \<Rightarrow>
        if unat va + unat len > unat UTOP then r = - E_FAULT \<and> user_mem_check_addr s' = va
        else if \<forall>w. in_range va len w \<longrightarrow> \<not> denied s d perm w then r = 0 \<and> s' = s
        else r = - E_FAULT \<and> in_range va len (user_mem_check_addr s') \<and>
          denied s d perm (user_mem_check_addr s') \<and>
          (\<forall>w. va \<le> w \<and> w < user_mem_check_addr s' \<longrightarrow> \<not> denied s d perm w)"
proof (cases "find (\<lambda>i. denied s d perm (loop_page va i)) [0..<range_pages va len]")
  case None
  then have "\<forall>i < range_pages va len. \<not> denied s d perm (loop_page va i)" by (auto simp: find_None_iff)
  then have "\<forall>w. in_range va len w \<longrightarrow> \<not> denied s d perm w"
    using in_range_page [OF assms(3)] by metis
  then show ?thesis using None by (simp add: user_mem_check_find [OF assms])
next
  case (Some i)
  then have i: "i < range_pages va len" "denied s d perm (loop_page va i)"
    "\<And>j. j < i \<Longrightarrow> \<not> denied s d perm (loop_page va j)" by (auto simp: find_Some_iff)
  note fb = first_byte_in [OF assms(3,4) i(1)]
  have "denied s d perm (first_byte va i)"
    using in_range_page [OF assms(3) fb(1), of s d perm] fb(2) i(2) by (metis add_left_cancel)
  moreover have "\<not> denied s d perm w" if w: "va \<le> w" "w < first_byte va i" for w
  proof -
    have "in_range va len w" using w fb(1) by (auto simp: in_range_def word_less_nat_alt)
    then obtain j where j: "unat w div 4096 = unat va div 4096 + j"
      "denied s d perm w = denied s d perm (loop_page va j)"
      using in_range_page [OF assms(3)] by metis
    then have "j < i" using fb(3) [OF w(2,1)] by (simp add: div_less_iff_less_mult [symmetric])
    then show ?thesis using i(3) j(2) by simp
  qed
  ultimately show ?thesis using Some fb(1) by (auto simp: user_mem_check_find [OF assms] E_FAULT_def)
qed

lemma small_spaces: "spaces_ok small_mem {0x3000}"
  by (rule pages_okD(3) [OF small_ok])

theorem user_mem_check_decides_witness:
  "\<exists>s'. user_mem_check 0x3000 0x1000 8 PTE_U small_mem = Some (- E_FAULT, s') \<and>
     in_range 0x1000 8 (user_mem_check_addr s')"
proof -
  have "in_range 0x1000 8 0x1000" "denied small_mem 0x3000 PTE_U 0x1000"
    by (simp_all add: in_range_def denied_def PTE_U_def PTE_P_def)
  then have bad: "(\<forall>w. in_range 0x1000 8 w \<longrightarrow> \<not> denied small_mem 0x3000 PTE_U w) = False" by blast
  have "case user_mem_check 0x3000 0x1000 8 PTE_U small_mem of None \<Rightarrow> False
    | Some (r, s') \<Rightarrow> r = - E_FAULT \<and> in_range 0x1000 8 (user_mem_check_addr s')"
    using user_mem_check_decides [OF small_spaces, of "0x3000" 8 "0x1000" PTE_U, unfolded bad]
    by (simp add: UTOP_eq split: option.splits prod.splits)
  then show ?thesis by (simp split: option.splits prod.splits)
qed

text \<open>
  The check does not look for wrap-around: a range that ends at the top of the address
  space, wherever it starts, passes it for every page directory and permission, although it
  ends in the kernel, and with it the system call \<open>sys_cputs\<close> prints the kernel's memory from there instead of destroying
  the caller.
\<close>

theorem wrapping_range_is_accepted:
  assumes "curenv k = Some c" "env_pgdir (envs k c) = Some d"
  shows "user_mem_check d va (- va) perm s = Some (0, s) \<and>
    sys_cputs pol va (- va) k =
      (case user_chars (vm k) d (2 ^ 32) (sint (- va)) va of
         None \<Rightarrow> (Panic, k)
       | Some cs \<Rightarrow> (Ret (), k\<lparr>console := fold (\<lambda>ch. cputchar (scast ch)) cs (console k)\<rparr>))"
proof -
  have hi: "ROUNDUP 0 PGSIZE = 0"
    by (simp add: ROUNDUP_def ROUNDDOWN_def PGSIZE_def)
  have check: "user_mem_check d va (- va) perm s = Some (0, s)" for perm s
    by (simp add: user_mem_check_def hi Let_def)
  have "sys_cputs pol va (- va) k =
      (case user_chars (vm k) d (2 ^ 32) (sint (- va)) va of
         None \<Rightarrow> (Panic, k)
       | Some cs \<Rightarrow> (Ret (), k\<lparr>console := fold (\<lambda>ch. cputchar (scast ch)) cs (console k)\<rparr>))"
    using assms check
    by (simp add: sys_cputs_def with_curenv_def user_mem_assert_def bind_outcome_def split: option.split)
  with check show ?thesis by simp
qed

theorem wrapping_range_is_accepted_witness:
  "user_mem_check 0x3000 0xF0100000 (- 0xF0100000) PTE_U small_mem = Some (0, small_mem)"
  using wrapping_range_is_accepted [where k = "demo_kernel demo_status"
      and c = 0 and d = "0x3000" and va = "0xF0100000" and perm = PTE_U and s = small_mem]
  by simp

section \<open>Allocating a page for an environment\<close>

lemma page_alloc_pages_ok:
  assumes "pages_ok s ds (p # fl) ext"
  obtains s' where "page_alloc True s = Some (Some p, s')" "pages_ok s' ds fl ext" "mappable s' ds fl p"
    "view s' ds = view s ds" "meta s' ds = meta s ds" "npages s' = npages s"
    "\<And>d va. d \<in> ds \<Longrightarrow> table_entry s' d va = table_entry s d va"
    "\<And>a. PTE_ADDR a = page2pa p \<Longrightarrow> pmem s' a = 0" "uses s' ds p = 0" "ext p = 0"
    "\<And>a. PTE_ADDR a \<noteq> page2pa p \<Longrightarrow> pmem s' a = pmem s a"
proof -
  note ok = pages_okD(3) [OF assms]
  have n: "npages s \<le> 2 ^ 20" using ok by (simp add: spaces_ok_def)
  have "p \<in> set (p # fl)" by simp
  note p = free_pages_unused [OF assms this]
  then have p20: "p < 2 ^ 20" using n by simp
  obtain s1 where s1: "page_alloc True s = Some (Some p, s1)" "free_ok s1 fl" "npages s1 = npages s"
    "\<And>q. pp_ref (pages s1 q) = pp_ref (pages s q)"
    "pmem s1 = (\<lambda>a. if True \<and> PTE_ADDR a = page2pa p then 0 else pmem s a)"
    by (rule page_alloc_ok [OF pages_okD(1) [OF assms] n, where z = True]) blast
  have nm: "\<not> meta s ds (page2pa p)" using unused_meta [OF p(1)] page_of_page2pa [OF p20] by metis
  have "\<forall>a. meta s ds (PTE_ADDR a) \<longrightarrow> pmem s1 a = pmem s a"
    using nm by (auto simp: s1(5))
  note fr = frame [OF ok this]
  have "refs_ok s1 ds ext"
    using pages_okD(2) [OF assms] s1(3,4) by (simp add: refs_ok_def fr(4))
  then have "pages_ok s1 ds fl ext" using s1(2) fr(5) s1(3) by (simp add: pages_ok_def)
  moreover have "p \<notin> set fl" "pp_ref (pages s p) = 0"
    using pages_okD(1) [OF assms] by (simp_all add: free_ok_def)
  then have "mappable s1 ds fl p" using nm p(3) s1(3,4) by (simp add: mappable_def fr(3))
  moreover have "view s1 ds = view s ds" by (rule view_frame) (rule fr(2))
  ultimately show ?thesis
    by (rule that [OF s1(1)]) (use fr p s1(3,5) in simp_all)
qed

lemma checked_perm: "check_perm perm None = 0 \<Longrightarrow> perm < 4096"
proof -
  assume "check_perm perm None = 0"
  then have "perm AND NOT PTE_SYSCALL = 0" by (auto simp: check_perm_def E_INVAL_def split: if_splits)
  moreover have "PTE_SYSCALL = 0xE07"
    by (simp add: PTE_SYSCALL_def PTE_AVAIL_def PTE_P_def PTE_W_def PTE_U_def)
  moreover have "perm = (perm AND 0xE07) OR (perm AND NOT 0xE07)"
    by (simp add: bit.conj_disj_distrib [symmetric])
  ultimately have "perm = perm AND 0xE07" by simp
  then have "perm \<le> 0xE07" by (metis word_and_le1)
  then show "perm < 4096" by (rule le_less_trans) simp
qed

text \<open>
  C25. \<open>env_page_alloc\<close>, behind \<open>sys_page_alloc\<close> and page transfers: with acceptable permissions
  and a free page it maps a page whose words are all 0 at \<open>va\<close>, nothing else changes in any
  address space and all counts agree; without a free page it returns \<open>-E_NO_MEM\<close>. When the
  last free page is taken and a page table is missing, it returns \<open>-E_NO_MEM\<close> too, but the
  page is lost: it is off the free list, not mapped, and no reference to it is left.
\<close>

theorem env_page_alloc_outcome:
  assumes "pages_ok (vm k) ds fl ext" "env_pgdir (envs k e) = Some d" "d \<in> ds" "va < UTOP"
    "check_perm perm None = 0"
  shows "case env_page_alloc e va perm k of (r, k') \<Rightarrow> \<exists>s'. k' = k\<lparr>vm := s'\<rparr> \<and>
     (case fl of
        [] \<Rightarrow> r = Ret (- E_NO_MEM) \<and> s' = vm k
      | p # rest \<Rightarrow>
          if table_entry (vm k) d va = 0 \<and> rest = [] then
            r = Ret (- E_NO_MEM) \<and> pages_ok s' ds [] ext \<and> view s' ds = view (vm k) ds \<and>
            pp_ref (pages s' p) = 0 \<and> uses s' ds p = 0
          else r = Ret 0 \<and> (\<exists>fl'. pages_ok s' ds fl' ext) \<and>
            view s' ds = set_page d va (page2pa p OR perm OR PTE_P) (view (vm k) ds) \<and>
            (\<forall>a. PTE_ADDR a = page2pa p \<longrightarrow> pmem s' a = 0))"
proof (cases fl)
  case Nil
  then have "page_alloc True (vm k) = Some (None, vm k)"
    using page_alloc_none pages_okD(1) [OF assms(1)] by simp
  then show ?thesis using assms(5) Nil by (simp add: env_page_alloc_def Let_def)
next
  case (Cons p rest)
  obtain s1 where s1: "page_alloc True (vm k) = Some (Some p, s1)" "pages_ok s1 ds rest ext" "mappable s1 ds rest p"
    "view s1 ds = view (vm k) ds" "meta s1 ds = meta (vm k) ds" "npages s1 = npages (vm k)"
    "\<And>d va. d \<in> ds \<Longrightarrow> table_entry s1 d va = table_entry (vm k) d va"
    "\<And>a. PTE_ADDR a = page2pa p \<Longrightarrow> pmem s1 a = 0" "uses s1 ds p = 0" "ext p = 0"
    by (rule page_alloc_pages_ok [OF assms(1) [unfolded Cons]]) blast
  have perm: "perm < 4096" by (rule checked_perm [OF assms(5)])
  have run: "env_page_alloc e va perm k = (case page_insert (cur_pgdir k) d p va perm s1 of
      None \<Rightarrow> (Panic, k) | Some (r, s2) \<Rightarrow> (Ret r, k\<lparr>vm := s2\<rparr>))"
    using s1(1) assms(2,5) by (simp add: env_page_alloc_def Let_def)
  have "unat (pp_ref (pages s1 p)) = 0"
    using s1(2,3,9,10) by (simp add: pages_ok_def refs_ok_def mappable_def)
  then have pz: "pp_ref (pages s1 p) = 0" by (simp only: unsigned_eq_0_iff)
  consider (lost) "rest = []" "table_entry s1 d va = 0" "page_insert (cur_pgdir k) d p va perm s1 = Some (-4, s1)"
    | (mapped) s2 fl' where "page_insert (cur_pgdir k) d p va perm s1 = Some (0, s2)" "pages_ok s2 ds fl' ext"
      "view s2 ds = set_page d va (page2pa p OR perm OR PTE_P) (view s1 ds)" "\<not> meta s2 ds (page2pa p)"
      "\<forall>a. \<not> meta s2 ds (PTE_ADDR a) \<longrightarrow> pmem s2 a = pmem s1 a"
    using page_insert_ok [OF s1(2) assms(3,4) s1(3) perm, of "cur_pgdir k"] by blast
  then show ?thesis
  proof cases
    case lost
    then show ?thesis
      using run s1 pz Cons assms(3) by (auto simp: E_NO_MEM_def)
  next
    case mapped
    have z: "\<forall>a. PTE_ADDR a = page2pa p \<longrightarrow> pmem s2 a = 0"
      using mapped(4,5) s1(8) by metis
    have nl: "\<not> (table_entry (vm k) d va = 0 \<and> rest = [])"
    proof
      assume "table_entry (vm k) d va = 0 \<and> rest = []"
      then have "page_insert (cur_pgdir k) d p va perm s1 = Some (-4, s1)"
        using page_alloc_none [of s1 True] pages_okD(1) [OF s1(2)] s1(7) [OF assms(3), of va]
        by (simp add: page_insert_def pgdir_walk_def Let_def read_pte_def table_entry_def)
      with mapped(1) show False by simp
    qed
    have r: "env_page_alloc e va perm k = (Ret 0, k\<lparr>vm := s2\<rparr>)" using run mapped(1) by simp
    show ?thesis
      unfolding r prod.case Cons list.case if_not_P [OF nl]
      using mapped(2,3) z s1(4) by (intro exI [of _ s2]) auto
  qed
qed

theorem env_page_alloc_outcome_witness:
  "case env_page_alloc 0 0x1000 (PTE_U OR PTE_P) ((demo_kernel demo_status)\<lparr>vm := small_mem\<rparr>) of
     (r, k') \<Rightarrow> r = Ret 0 \<and> view (vm k') {0x3000} =
       set_page 0x3000 0x1000 (page2pa 4 OR (PTE_U OR PTE_P) OR PTE_P) (view small_mem {0x3000})"
proof -
  let ?k = "(demo_kernel demo_status)\<lparr>vm := small_mem\<rparr>"
  have "check_perm (PTE_U OR PTE_P) None = 0"
    by (simp add: check_perm_def PTE_U_def PTE_P_def PTE_SYSCALL_def PTE_AVAIL_def PTE_W_def)
  moreover have "pages_ok (vm ?k) {0x3000} [4, 5] (\<lambda>_. 0)" using small_ok by simp
  moreover have "env_pgdir (envs ?k 0) = Some 0x3000" by simp
  ultimately show ?thesis
    using env_page_alloc_outcome [of ?k "{0x3000}" "[4, 5]" "\<lambda>_. 0" 0 "0x3000" "0x1000" "PTE_U OR PTE_P"]
    by (cases "env_page_alloc 0 0x1000 (PTE_U OR PTE_P) ?k") (auto simp: UTOP_eq)
qed

end
