(* ===== verification/JosUserPages.thy ===== *)
theory JosUserPages
  imports JosUser JosPageProps
begin

text \<open>
  What the page system calls do to the address spaces, and what a program reads through
  \<open>uvpt\<close> and \<open>uvpd\<close>: the entries of its own page tables.
\<close>

section \<open>Permission bits\<close>

lemma flag_bit: "(w :: u32) AND 2 ^ n = (if bit w n then 2 ^ n else 0)"
  by (rule bit_word_eqI) (auto simp: bit_simps bit_exp_iff)

lemma flags_exp: "PTE_P = 2 ^ 0" "PTE_W = 2 ^ 1" "PTE_U = 2 ^ 2" "PTE_PWT = 2 ^ 3" "PTE_PCD = 2 ^ 4" "PTE_COW = 2 ^ 11"
  by (simp_all add: PTE_P_def PTE_W_def PTE_U_def PTE_PWT_def PTE_PCD_def PTE_COW_def)

section \<open>References to a mapped page\<close>

text \<open>The addresses of the address spaces \<open>f\<close> at which page \<open>q\<close> is mapped.\<close>

definition maps :: "(u32 \<Rightarrow> u32 \<Rightarrow> u32) \<Rightarrow> nat \<Rightarrow> (u32 \<times> u32) set" where
  "maps f q = {(d, va). va < UTOP \<and> PTE_ADDR va = va \<and> f d va \<noteq> 0 \<and> page_of (f d va) = q}"

lemma mappings_maps: "mappings s ds q = maps (view s ds) q"
  by (auto simp: mappings_def maps_def view_def)

lemma mapped_page:
  assumes ok: "pages_ok s ds fl ext" and e: "d \<in> ds" "va < UTOP" "entry s d va \<noteq> 0"
  defines "p \<equiv> page_of (entry s d va)"
  shows "p < npages s" "p < 2 ^ 20" "page2pa p = PTE_ADDR (entry s d va)" "\<not> meta s ds (page2pa p)" "p \<notin> set fl"
    "unat (pp_ref (pages s p)) = card (maps (view s ds) p) + ext p"
proof -
  note D = spaces_okD [OF pages_okD(3) [OF ok]]
  show p: "p < npages s" using D(6) [OF e] by (simp add: p_def)
  then show "p < 2 ^ 20" using pages_okD(3) [OF ok] by (simp add: spaces_ok_def)
  show a: "page2pa p = PTE_ADDR (entry s d va)" by (simp add: p_def)
  show m: "\<not> meta s ds (page2pa p)" using D(7) [OF e] by (simp add: a)
  have "uses s ds p \<noteq> 0" using unused_page(3) [OF _ e] by (auto simp: p_def)
  then show "p \<notin> set fl" using free_pages_unused(1) [OF ok] by metis
  have "tables_at s ds p = {}"
    using m page2pa_page_of unfolding tables_at_def meta_def by fastforce
  moreover have "{d' \<in> ds. page_of d' = p} = {}"
    using m D(1) page2pa_page_of unfolding meta_def by fastforce
  ultimately show "unat (pp_ref (pages s p)) = card (maps (view s ds) p) + ext p"
    using pages_okD(2) [OF ok] p by (simp add: refs_ok_def uses_def mappings_maps)
qed

lemma mapped_mappable:
  assumes "pages_ok s ds fl ext" "d \<in> ds" "va < UTOP" "entry s d va \<noteq> 0"
    "card (maps (view s ds) (page_of (entry s d va))) + ext (page_of (entry s d va)) + 1 < 2 ^ 16"
  shows "mappable s ds fl (page_of (entry s d va))"
  using mapped_page [OF assms(1-4)] assms(5) by (simp add: mappable_def)

section \<open>One page system call\<close>

text \<open>The step that maps the entry \<open>v\<close> at \<open>va\<close> in the address space of \<open>d\<close>, and changes no data.\<close>

definition map_step ::
  "vm \<Rightarrow> vm \<Rightarrow> u32 set \<Rightarrow> nat list \<Rightarrow> nat list \<Rightarrow> (nat \<Rightarrow> nat) \<Rightarrow> u32 \<Rightarrow> u32 \<Rightarrow> u32 \<Rightarrow> bool" where
  "map_step s s' ds fl fl' ext d va v \<longleftrightarrow> pages_ok s' ds fl' ext \<and> view s' ds = set_page d va v (view s ds) \<and>
     (\<forall>a. \<not> meta s' ds (PTE_ADDR a) \<longrightarrow> pmem s' a = pmem s a) \<and>
     (\<forall>a. PTE_ADDR a \<in> ds \<longrightarrow> pmem s' a = (if a = pde_at d va \<and> table_entry s d va = 0
         then page2pa (hd fl) OR PTE_P OR PTE_W OR PTE_U else pmem s a)) \<and>
     length fl \<le> length fl' + of_bool (table_entry s d va = 0)"

lemma env_page_map_step:
  assumes ok: "pages_ok (vm k) ds fl ext"
    and dirs: "env_pgdir (envs k a) = Some d1" "d1 \<in> ds" "env_pgdir (envs k b) = Some d2" "d2 \<in> ds"
    and va: "srcva < UTOP" "dstva < UTOP" and e: "entry (vm k) d1 srcva \<noteq> 0"
    and room: "card (maps (view (vm k) ds) (page_of (entry (vm k) d1 srcva))) + ext (page_of (entry (vm k) d1 srcva)) + 1 < 2 ^ 16"
    and perm: "perm < 4096" "perm AND PTE_W = 0 \<or> entry (vm k) d1 srcva AND PTE_W \<noteq> 0"
  shows "(fl = [] \<and> table_entry (vm k) d2 dstva = 0 \<and> env_page_map a srcva b dstva perm k = (Ret (- 4), k)) \<or>
    (\<exists>s' fl'. env_page_map a srcva b dstva perm k = (Ret 0, k\<lparr>vm := s'\<rparr>) \<and>
      map_step (vm k) s' ds fl fl' ext d2 dstva (PTE_ADDR (entry (vm k) d1 srcva) OR perm OR PTE_P))"
proof -
  let ?e = "entry (vm k) d1 srcva"
  note m = mapped_page [OF ok dirs(2) va(1) e]
  have r: "read_pte (vm k) (pte_addr (vm k) d1 srcva) = ?e"
    using e by (auto simp: read_pte_def entry_def split: if_splits)
  have "(perm AND PTE_W) AND NOT (PTE_W AND read_pte (vm k) (pte_addr (vm k) d1 srcva)) = 0"
    using perm(2)
  proof
    assume "?e AND PTE_W \<noteq> 0"
    then have "PTE_W AND ?e = PTE_W" using flag_bit [of ?e 1] by (simp add: flags_exp(2) and.commute [of ?e] split: if_splits)
    then show ?thesis by (simp add: r and.assoc)
  qed simp
  then have run: "env_page_map a srcva b dstva perm k = (case page_insert (cur_pgdir k) d2 (page_of ?e) dstva perm (vm k) of
      None \<Rightarrow> (Panic, k) | Some (r, s) \<Rightarrow> (Ret r, k\<lparr>vm := s\<rparr>))"
    using dirs e by (simp add: env_page_map_def lookup_entry [OF pages_okD(3) [OF ok] dirs(2) va(1)])
  have "mappable (vm k) ds fl (page_of ?e)" by (rule mapped_mappable [OF ok dirs(2) va(1) e room])
  from page_insert_full [OF ok dirs(4) va(2) this perm(1), of "cur_pgdir k"] show ?thesis
  proof (elim disjE exE conjE)
    assume "fl = []" "table_entry (vm k) d2 dstva = 0" "page_insert (cur_pgdir k) d2 (page_of ?e) dstva perm (vm k) = Some (- 4, vm k)"
    then show ?thesis using run by simp
  next
    fix s' fl'
    assume i: "page_insert (cur_pgdir k) d2 (page_of ?e) dstva perm (vm k) = Some (0, s')"
      and "pages_ok s' ds fl' ext" "view s' ds = set_page d2 dstva (page2pa (page_of ?e) OR perm OR PTE_P) (view (vm k) ds)"
      "\<forall>a. \<not> meta s' ds (PTE_ADDR a) \<longrightarrow> pmem s' a = pmem (vm k) a"
      "\<forall>a. PTE_ADDR a \<in> ds \<longrightarrow> pmem s' a = (if a = pde_at d2 dstva \<and> table_entry (vm k) d2 dstva = 0
         then page2pa (hd fl) OR PTE_P OR PTE_W OR PTE_U else pmem (vm k) a)"
      "length fl \<le> length fl' + of_bool (table_entry (vm k) d2 dstva = 0)"
    then have "map_step (vm k) s' ds fl fl' ext d2 dstva (PTE_ADDR ?e OR perm OR PTE_P)"
      unfolding map_step_def m(3) by (intro conjI)
    moreover have "env_page_map a srcva b dstva perm k = (Ret 0, k\<lparr>vm := s'\<rparr>)" using run i by simp
    ultimately show ?thesis by blast
  qed
qed

text \<open>Allocation takes the first free page, clears it and maps it.\<close>

lemma env_page_alloc_step:
  assumes ok: "pages_ok (vm k) ds (p # rest) ext" and d: "env_pgdir (envs k e) = Some d" "d \<in> ds" and va: "va < UTOP"
    and perm: "check_perm perm None = 0" and room: "table_entry (vm k) d va \<noteq> 0 \<or> rest \<noteq> []"
  obtains s1 s' fl' where "env_page_alloc e va perm k = (Ret 0, k\<lparr>vm := s'\<rparr>)"
    "map_step s1 s' ds rest fl' ext d va (page2pa p OR perm OR PTE_P)" "pages_ok s1 ds rest ext"
    "view s1 ds = view (vm k) ds" "meta s1 ds = meta (vm k) ds" "\<And>a. PTE_ADDR a = page2pa p \<Longrightarrow> pmem s1 a = 0"
    "\<And>a. PTE_ADDR a \<noteq> page2pa p \<Longrightarrow> pmem s1 a = pmem (vm k) a" "\<not> meta s' ds (page2pa p)"
    "maps (view (vm k) ds) p = {}" "ext p = 0" "p < 2 ^ 20"
proof -
  obtain s1 where s1: "page_alloc True (vm k) = Some (Some p, s1)" "pages_ok s1 ds rest ext" "mappable s1 ds rest p"
    "view s1 ds = view (vm k) ds" "meta s1 ds = meta (vm k) ds" "npages s1 = npages (vm k)"
    "\<And>d va. d \<in> ds \<Longrightarrow> table_entry s1 d va = table_entry (vm k) d va"
    "\<And>a. PTE_ADDR a = page2pa p \<Longrightarrow> pmem s1 a = 0" "uses s1 ds p = 0" "ext p = 0"
    "\<And>a. PTE_ADDR a \<noteq> page2pa p \<Longrightarrow> pmem s1 a = pmem (vm k) a"
    by (rule page_alloc_pages_ok [OF ok]) blast
  have run: "env_page_alloc e va perm k = (case page_insert (cur_pgdir k) d p va perm s1 of
      None \<Rightarrow> (Panic, k) | Some (r, s2) \<Rightarrow> (Ret r, k\<lparr>vm := s2\<rparr>))"
    using s1(1) d(1) perm by (simp add: env_page_alloc_def Let_def)
  have "maps (view s1 ds) p = {}"
    using s1(9) by (simp add: uses_def mappings_maps)
  then have m: "maps (view (vm k) ds) p = {}" by (simp only: s1(4))
  have p20: "p < 2 ^ 20" using s1(2,3) by (simp add: mappable_def pages_ok_def spaces_ok_def)
  from page_insert_full [OF s1(2) d(2) va s1(3) checked_perm [OF perm], of "cur_pgdir k"] show ?thesis
  proof (elim disjE exE conjE)
    assume "rest = []" "table_entry s1 d va = 0"
    then show ?thesis using room s1(7) [OF d(2)] by simp
  next
    fix s' fl'
    assume i: "page_insert (cur_pgdir k) d p va perm s1 = Some (0, s')" "\<not> meta s' ds (page2pa p)"
      and "pages_ok s' ds fl' ext" "view s' ds = set_page d va (page2pa p OR perm OR PTE_P) (view s1 ds)"
      "\<forall>a. \<not> meta s' ds (PTE_ADDR a) \<longrightarrow> pmem s' a = pmem s1 a"
      "\<forall>a. PTE_ADDR a \<in> ds \<longrightarrow> pmem s' a = (if a = pde_at d va \<and> table_entry s1 d va = 0
         then page2pa (hd rest) OR PTE_P OR PTE_W OR PTE_U else pmem s1 a)"
      "length rest \<le> length fl' + of_bool (table_entry s1 d va = 0)"
    then have "map_step s1 s' ds rest fl' ext d va (page2pa p OR perm OR PTE_P)"
      unfolding map_step_def by (intro conjI)
    moreover have "env_page_alloc e va perm k = (Ret 0, k\<lparr>vm := s'\<rparr>)" using run i(1) by simp
    ultimately show ?thesis using that s1(2,4,5,8,10,11) i(2) m p20 by blast
  qed
qed

text \<open>A page that is nowhere mapped is mapped once after that.\<close>

lemma maps_fresh:
  assumes "maps f p = {}" "page_of v = p" "v \<noteq> 0" "va < UTOP"
  shows "maps (set_page d va v f) p = {(d, PTE_ADDR va)}"
proof -
  have "f d' w = 0 \<or> page_of (f d' w) \<noteq> p" if "w < UTOP" "PTE_ADDR w = w" for d' w
    using assms(1) that by (auto simp: maps_def)
  then show ?thesis
    using assms(2-4) ADDR_user [OF assms(4)] by (auto simp: maps_def set_page_def)
qed

section \<open>The page tables as the program reads them\<close>

text \<open>
  The directory maps itself at \<open>UVPT\<close>, and a program may read its tables.
\<close>

definition self_mapped :: "vm \<Rightarrow> u32 \<Rightarrow> bool" where
  "self_mapped s d \<longleftrightarrow> pmem s (pde_at d UVPT) = d OR PTE_P OR PTE_U \<and>
     (\<forall>va < UTOP. table_entry s d va = 0 \<or>
        table_entry s d va AND (PTE_P OR PTE_U) = PTE_P OR PTE_U \<and> table_entry s d va AND PTE_W \<noteq> 0)"

lemma UVPT_eq: "UVPT = 0xEF400000"
  by (simp add: UVPT_def ULIM_def MMIOBASE_def MMIOLIM_def KSTACKTOP_def KERNBASE_def PTSIZE_def PGSIZE_def NPTENTRIES_def)

lemma unat_PDX: "unat (PDX w) = unat w div 2 ^ 22"
proof -
  have "PDX w = drop_bit 22 w"
    by (rule bit_word_eqI) (auto simp: PDX_bits bit_simps add.commute dest: bit_imp_le_length)
  then show ?thesis by (simp add: drop_bit_eq_div unat_div)
qed

lemma unat_PTX: "unat (PTX w) = unat w div 4096 mod 1024"
proof -
  have "PTX w = take_bit 10 (drop_bit 12 w)"
    by (rule bit_word_eqI) (auto simp: PTX_bits bit_simps add.commute)
  then show ?thesis
    by (simp add: drop_bit_eq_div take_bit_eq_mod unat_div unat_mod)
qed

lemma unat_PGOFF: "unat (PGOFF w) = unat w mod 4096"
proof -
  have "PGOFF w = take_bit 12 w" by (simp add: PGOFF_def take_bit_eq_mask mask_eq_exp_minus_1)
  then show ?thesis by (simp add: take_bit_eq_mod unat_mod)
qed

lemma slot_or:
  assumes "PTE_ADDR d = d" "x < 1024"
  shows "d OR 4 * x = d + 4 * x"
proof (rule bit_word_eqI)
  fix n assume "n < LENGTH(32)"
  have "4 * x = push_bit 2 x" by (simp add: push_bit_eq_mult)
  then have "bit (4 * x) n \<longleftrightarrow> n < 32 \<and> 2 \<le> n \<and> bit x (n - 2)" by (auto simp: bit_simps)
  then show "bit (d OR 4 * x) n = bit (d + 4 * x) n" by (simp add: slot_bits [OF assms] bit_or_iff)
qed

text \<open>A page number below \<open>UTOP\<close> and its address.\<close>

lemma unat_page_addr: "unat pn < 2 ^ 20 \<Longrightarrow> unat (push_bit PGSHIFT pn :: u32) = unat pn * 4096"
  by (simp add: PGSHIFT_def push_bit_eq_mult unat_word_ariths)

lemma uvpt_fields:
  assumes "unat (pn :: u32) < 2 ^ 20"
  shows "PDX (UVPT + 4 * pn) = PDX UVPT" "PTX (UVPT + 4 * pn) = PDX (push_bit PGSHIFT pn)"
    "PGOFF (UVPT + 4 * pn) = 4 * PTX (push_bit PGSHIFT pn)"
proof -
  have u: "unat (UVPT + 4 * pn) = 0xEF400000 + 4 * unat pn" using assms by (simp add: UVPT_eq unat_word_ariths)
  have "(0xEF400000 + 4 * unat pn) div 2 ^ 22 = 957" using assms by (simp add: div_nat_eqI)
  then have "unat (PDX (UVPT + 4 * pn)) = unat (PDX UVPT)" unfolding unat_PDX u by (simp add: UVPT_eq)
  then show "PDX (UVPT + 4 * pn) = PDX UVPT" by (simp only: word_unat_eq_iff)
  have "(0xEF400000 + 4 * unat pn) div 4096 mod 1024 = unat pn div 1024"
  proof -
    have "(0xEF400000 + 4 * unat pn) div 4096 = 957 * 1024 + unat pn div 1024" by simp
    moreover have "unat pn div 1024 < 1024" using assms by simp
    ultimately show ?thesis using mod_mult_self3 [of 957 1024 "unat pn div 1024"] by simp
  qed
  then have "unat (PTX (UVPT + 4 * pn)) = unat (PDX (push_bit PGSHIFT pn))"
    unfolding unat_PTX unat_PDX u unat_page_addr [OF assms] by simp
  then show "PTX (UVPT + 4 * pn) = PDX (push_bit PGSHIFT pn)" by (simp only: word_unat_eq_iff)
  have "(0xEF400000 + 4 * unat pn) mod 4096 = 4 * (unat pn mod 1024)"
    by (simp add: mult_mod_right mod_add_eq [symmetric, of "0xEF400000"])
  moreover have "unat (4 * PTX (push_bit PGSHIFT pn)) = 4 * (unat pn mod 1024)"
    using unat_PTX [of "push_bit PGSHIFT pn"] by (simp add: unat_page_addr [OF assms] unat_word_ariths)
  ultimately have "unat (PGOFF (UVPT + 4 * pn)) = unat (4 * PTX (push_bit PGSHIFT pn))"
    unfolding unat_PGOFF u by simp
  then show "PGOFF (UVPT + 4 * pn) = 4 * PTX (push_bit PGSHIFT pn)" by (simp only: word_unat_eq_iff)
qed

lemma self_entry:
  assumes "PTE_ADDR d = d"
  shows "PTE_ADDR (d OR PTE_P OR PTE_U) = d" "(d OR PTE_P OR PTE_U) AND (PTE_P OR PTE_U) = PTE_P OR PTE_U"
proof -
  have "PTE_ADDR (PTE_P OR PTE_U) = 0" by (simp add: PTE_ADDR_def PTE_P_def PTE_U_def)
  then show "PTE_ADDR (d OR PTE_P OR PTE_U) = d" using assms by (simp only: PTE_ADDR_or or.assoc or.right_neutral)
  show "(d OR PTE_P OR PTE_U) AND (PTE_P OR PTE_U) = PTE_P OR PTE_U"
    by (rule bit_word_eqI) (auto simp: bit_simps)
qed

lemma translate_uvpt:
  assumes s: "self_mapped s d" "PTE_ADDR d = d" and pn: "unat pn < 2 ^ 20" "push_bit PGSHIFT pn < UTOP"
  shows "user_translate False s d (UVPT + 4 * pn) =
    (if table_entry s d (push_bit PGSHIFT pn) = 0 then None else Some (pte_addr s d (push_bit PGSHIFT pn)))"
proof -
  let ?va = "push_bit PGSHIFT pn" and ?t = "table_entry s d (push_bit PGSHIFT pn)"
  have e: "read_pte s (pde_at d (UVPT + 4 * pn)) = d OR PTE_P OR PTE_U"
    using s(1) by (simp add: read_pte_def pde_at_def uvpt_fields [OF pn(1)] self_mapped_def)
  have t: "read_pte s (PTE_ADDR (d OR PTE_P OR PTE_U) + 4 * PTX (UVPT + 4 * pn)) = ?t"
    by (simp add: self_entry [OF s(2)] uvpt_fields [OF pn(1)] read_pte_def table_entry_def pde_at_def)
  have ut: "?t = 0 \<or> ?t AND (PTE_P OR PTE_U) = PTE_P OR PTE_U"
    using s(1) pn(2) unfolding self_mapped_def by blast
  have nz: "0 AND (PTE_P OR PTE_U) \<noteq> PTE_P OR PTE_U" by (simp add: PTE_P_def PTE_U_def)
  have a: "PTE_ADDR ?t OR PGOFF (UVPT + 4 * pn) = pte_addr s d ?va"
    by (simp add: uvpt_fields [OF pn(1)] slot_or PTX_less pte_addr_def)
  show ?thesis
    unfolding user_translate_def Let_def e t a using ut nz self_entry(2) [OF s(2)] by auto
qed

lemma uvpd_fields:
  assumes "(n :: u32) < 1024"
  shows "PDX (UVPT + 4 * drop_bit 12 UVPT + 4 * n) = PDX UVPT" "PTX (UVPT + 4 * drop_bit 12 UVPT + 4 * n) = PDX UVPT"
    "PGOFF (UVPT + 4 * drop_bit 12 UVPT + 4 * n) = 4 * n"
proof -
  have n: "unat n < 1024" using assms by (simp add: word_less_nat_alt)
  have "UVPT + 4 * drop_bit 12 UVPT = 0xEF7BD000" by (simp add: UVPT_eq drop_bit_eq_div)
  then have u: "unat (UVPT + 4 * drop_bit 12 UVPT + 4 * n) = 0xEF7BD000 + 4 * unat n" using n by (simp add: unat_word_ariths)
  have "(0xEF7BD000 + 4 * unat n) div 2 ^ 22 = 957" using n by (simp add: div_nat_eqI)
  then have "unat (PDX (UVPT + 4 * drop_bit 12 UVPT + 4 * n)) = unat (PDX UVPT)" unfolding unat_PDX u by (simp add: UVPT_eq)
  then show "PDX (UVPT + 4 * drop_bit 12 UVPT + 4 * n) = PDX UVPT" by (simp only: word_unat_eq_iff)
  have "(0xEF7BD000 + 4 * unat n) div 4096 = 980925" using n by (simp add: div_nat_eqI)
  then have "unat (PTX (UVPT + 4 * drop_bit 12 UVPT + 4 * n)) = unat (PDX UVPT)"
    unfolding unat_PTX u unat_PDX by (simp add: UVPT_eq)
  then show "PTX (UVPT + 4 * drop_bit 12 UVPT + 4 * n) = PDX UVPT" by (simp only: word_unat_eq_iff)
  have "(0xEF7BD000 + 4 * unat n) mod 4096 = 4 * unat n"
    using mod_mult_self3 [of 980925 4096 "4 * unat n"] n by simp
  moreover have "unat (4 * n) = 4 * unat n" using n by (simp add: unat_word_ariths)
  ultimately have "unat (PGOFF (UVPT + 4 * drop_bit 12 UVPT + 4 * n)) = unat (4 * n)" unfolding unat_PGOFF u by simp
  then show "PGOFF (UVPT + 4 * drop_bit 12 UVPT + 4 * n) = 4 * n" by (simp only: word_unat_eq_iff)
qed

section \<open>What a mapping keeps\<close>

lemma user_slot: "va < UTOP \<Longrightarrow> PDX va \<noteq> PDX UVPT"
proof -
  assume "va < UTOP"
  then have "unat (PDX va) < unat (PDX UTOP)" using user_PDX by (simp add: word_less_nat_alt)
  moreover have "unat (PDX UTOP) < unat (PDX UVPT)" unfolding unat_PDX by (simp add: UTOP_eq UVPT_eq)
  ultimately show ?thesis by auto
qed

text \<open>The directory slots of user addresses for which \<open>d0\<close> has a table and \<open>d\<close> none yet.\<close>

definition missing :: "vm \<Rightarrow> u32 \<Rightarrow> u32 \<Rightarrow> u32 set" where
  "missing s d0 d = {i. i < PDX UTOP \<and> pmem s (d0 + 4 * i) \<noteq> 0 \<and> pmem s (d + 4 * i) = 0}"

lemma table_slot: "table_entry s d va = pmem s (d + 4 * PDX va)"
  by (simp add: table_entry_def pde_at_def)

lemma map_step_dirs:
  assumes m: "map_step s s' ds fl fl' ext d va v" and "d \<in> ds" "va < UTOP" "d' \<in> ds" "PTE_ADDR d' = d'" "PTE_ADDR d = d" "i < 1024"
  shows "pmem s' (d' + 4 * i) = (if d' = d \<and> i = PDX va \<and> table_entry s d va = 0
    then page2pa (hd fl) OR PTE_P OR PTE_W OR PTE_U else pmem s (d' + 4 * i))"
proof -
  have "PTE_ADDR (d' + 4 * i) \<in> ds" using assms(4,5,7) by (simp add: slot_page)
  then have "pmem s' (d' + 4 * i) = (if d' + 4 * i = pde_at d va \<and> table_entry s d va = 0
      then page2pa (hd fl) OR PTE_P OR PTE_W OR PTE_U else pmem s (d' + 4 * i))"
    using m unfolding map_step_def by blast
  then show ?thesis
    using slot_inj [OF assms(5,7,6) PDX_less, of va] unfolding pde_at_def by simp
qed

lemma new_table: "page2pa p OR PTE_P OR PTE_W OR PTE_U \<noteq> 0"
  "(page2pa p OR PTE_P OR PTE_W OR PTE_U) AND (PTE_P OR PTE_U) = PTE_P OR PTE_U"
  "(page2pa p OR PTE_P OR PTE_W OR PTE_U) AND PTE_W \<noteq> 0"
proof -
  have "(page2pa p OR PTE_P OR PTE_W OR PTE_U) AND PTE_W = PTE_W"
    by (rule bit_word_eqI) (auto simp: bit_simps)
  then show "(page2pa p OR PTE_P OR PTE_W OR PTE_U) AND PTE_W \<noteq> 0" by (simp add: PTE_W_def)
  show "page2pa p OR PTE_P OR PTE_W OR PTE_U \<noteq> 0" by (simp add: or_eq_0_iff PTE_P_def)
  show "(page2pa p OR PTE_P OR PTE_W OR PTE_U) AND (PTE_P OR PTE_U) = PTE_P OR PTE_U"
    by (rule bit_word_eqI) (auto simp: bit_simps)
qed

lemma map_step_keeps:
  assumes m: "map_step s s' ds fl fl' ext d va v" and ok: "pages_ok s ds fl ext" and d: "d \<in> ds" "va < UTOP"
  shows "d' \<in> ds \<Longrightarrow> self_mapped s d' \<Longrightarrow> self_mapped s' d'"
    "d' \<in> ds \<Longrightarrow> d0 \<in> ds \<Longrightarrow> d' = d \<and> d0 \<noteq> d \<and> table_entry s d0 va \<noteq> 0 \<or> table_entry s d va \<noteq> 0 \<Longrightarrow>
       card (missing s d0 d') + n \<le> length fl \<Longrightarrow> card (missing s' d0 d') + n \<le> length fl'"
    "meta s ds a \<Longrightarrow> meta s' ds a"
proof -
  note D = spaces_okD(1) [OF pages_okD(3) [OF ok]]
  note dirs = map_step_dirs [OF m d _ _ D [OF d(1)]]
  have te: "table_entry s' d' w = (if d' = d \<and> PDX w = PDX va \<and> table_entry s d va = 0
      then page2pa (hd fl) OR PTE_P OR PTE_W OR PTE_U else table_entry s d' w)" if "d' \<in> ds" for d' w
    using dirs [OF that D [OF that] PDX_less] by (simp add: table_slot)
  show "self_mapped s' d'" if d': "d' \<in> ds" and self: "self_mapped s d'" for d'
  proof -
    have "pmem s' (pde_at d' UVPT) = pmem s (pde_at d' UVPT)"
      using dirs [OF d' D [OF d'] PDX_less, of UVPT] user_slot [OF d(2)] by (auto simp: pde_at_def)
    then show ?thesis
      using self new_table(2,3) [of "hd fl"] unfolding self_mapped_def te [OF d'] by auto
  qed
  show "meta s' ds a" if "meta s ds a"
  proof -
    have "table_entry s' d' w = table_entry s d' w" if "d' \<in> ds" "table_entry s d' w \<noteq> 0" for d' w
      using te [OF that(1), of w] that(2) by (auto simp: table_slot)
    then show ?thesis using that unfolding meta_def by metis
  qed
  show "card (missing s' d0 d') + n \<le> length fl'" if d': "d' \<in> ds" "d0 \<in> ds"
    and t: "d' = d \<and> d0 \<noteq> d \<and> table_entry s d0 va \<noteq> 0 \<or> table_entry s d va \<noteq> 0"
    and c: "card (missing s d0 d') + n \<le> length fl"
  proof -
    have len: "length fl \<le> length fl' + of_bool (table_entry s d va = 0)" using m by (simp add: map_step_def)
    have i1024: "i < PDX UTOP \<Longrightarrow> i < 1024" for i using PDX_less [of UTOP] by (rule less_trans [rotated])
    have sub: "missing s' d0 d' \<subseteq> missing s d0 d'"
      using dirs [OF d'(1) D [OF d'(1)] i1024] dirs [OF d'(2) D [OF d'(2)] i1024] new_table(1) t
      by (auto simp: missing_def split: if_splits)
    show ?thesis
    proof (cases "table_entry s d va = 0")
      case False
      then show ?thesis using c len card_mono [OF _ sub] by simp
    next
      case True
      then have "PDX va \<in> missing s d0 d'" "PDX va \<notin> missing s' d0 d'"
        using t dirs [OF d'(1) D [OF d'(1)] PDX_less, of va] new_table(1) user_PDX [OF d(2)]
        by (auto simp: missing_def table_slot)
      then have "missing s' d0 d' \<subset> missing s d0 d'" using sub by blast
      then have "card (missing s' d0 d') < card (missing s d0 d')" by (intro psubset_card_mono) simp_all
      then show ?thesis using c len True by simp
    qed
  qed
qed

end
