(* ===== verification/JosForkSpec.thy ===== *)
theory JosForkSpec
  imports JosUserPages
begin

text \<open>
  What \<open>fork\<close> makes of the address spaces of parent and child.
\<close>

section \<open>A program and its child\<close>

text \<open>
  The program in environment \<open>c\<close> with directory \<open>d\<close>, and its child \<open>envid\<close> in slot \<open>e\<close> with
  directory \<open>dc\<close>.
\<close>

definition parent_child :: "kernel \<Rightarrow> nat \<Rightarrow> u32 \<Rightarrow> u32 \<Rightarrow> nat \<Rightarrow> u32 \<Rightarrow> bool" where
  "parent_child k c d envid e dc \<longleftrightarrow> curenv k = Some c \<and> env_pgdir (envs k c) = Some d \<and> envid \<noteq> 0 \<and>
     ENVX envid = e \<and> env_status (envs k e) \<noteq> ENV_FREE \<and> env_id (envs k e) = envid \<and>
     env_parent_id (envs k e) = env_id (envs k c) \<and> env_pgdir (envs k e) = Some dc \<and> dc \<noteq> d"

lemma parent_child_vm [simp]: "parent_child (k\<lparr>vm := v\<rparr>) = parent_child k"
  by (intro ext) (simp add: parent_child_def)

lemma parent_childD:
  assumes "parent_child k c d envid e dc"
  shows "curenv k = Some c" "env_pgdir (envs k c) = Some d" "env_pgdir (envs k e) = Some dc" "dc \<noteq> d"
    "envid2env envid True k = (Ret (0, Some e), k)" "envid2env 0 True k = (Ret (0, Some c), k)"
  using assms by (auto simp: parent_child_def envid2env_def Let_def)

section \<open>System calls of the library\<close>

lemma result_not_positive: "r \<le> 0 \<Longrightarrow> - 100 < r \<Longrightarrow> \<not> 0 <s (of_int r :: u32)"
proof -
  assume r: "r \<le> 0" "- 100 < r"
  then have "sint (of_int r :: u32) = r" by (simp add: sint_sbintrunc' signed_take_bit_int_eq_self)
  with r show ?thesis by (simp add: word_sless_alt)
qed

lemma lib_page_map_run:
  assumes "\<not> bad_va srcva" "\<not> bad_va dstva" "envid2env se True (kern s) = (Ret (0, Some a), kern s)"
    "envid2env de True (kern s) = (Ret (0, Some b), kern s)"
    "env_page_map a srcva b dstva (PTE_P OR PTE_U OR perm) (kern s) = (Ret r, k)" "r \<le> 0" "- 100 < r"
  shows "lib_page_map pol se srcva de dstva perm s = (Value (of_int r), s\<lparr>kern := k\<rparr>)"
proof -
  have "\<not> 0 <s (of_int r :: u32)"
    using assms(6,7) by (rule result_not_positive)
  then show ?thesis
    using assms by (simp add: lib_page_map_def lib_syscall_def int30_def syscall_def sys_page_map_def
        with_env_def bind_outcome_def ret_int_def)
qed

lemma lib_page_alloc_run:
  assumes "\<not> bad_va va" "envid2env se True (kern s) = (Ret (0, Some a), kern s)"
    "env_page_alloc a va (perm OR PTE_U OR PTE_P) (kern s) = (Ret r, k)" "r \<le> 0" "- 100 < r"
  shows "lib_page_alloc pol se va perm s = (Value (of_int r), s\<lparr>kern := k\<rparr>)"
proof -
  have "\<not> 0 <s (of_int r :: u32)"
    using assms(4,5) by (rule result_not_positive)
  then show ?thesis
    using assms by (simp add: lib_page_alloc_def lib_syscall_def int30_def syscall_def sys_page_alloc_def
        with_env_def bind_outcome_def ret_int_def)
qed

lemma lib_page_unmap_run:
  assumes "\<not> bad_va va" "envid2env se True (kern s) = (Ret (0, Some a), kern s)" "env_pgdir (envs (kern s) a) = Some d"
    "page_remove (cur_pgdir (kern s)) d va (vm (kern s)) = Some v"
  shows "lib_page_unmap pol se va s = (Value 0, s\<lparr>kern := (kern s)\<lparr>vm := v\<rparr>\<rparr>)"
  using assms by (simp add: lib_page_unmap_def lib_syscall_def int30_def syscall_def sys_page_unmap_def
      with_env_def bind_outcome_def)

lemma or_panic_simps [simp]:
  "or_panic (Value 0, s) f = f s" "or_panic (Value (- 4), s) f = (User_panic, s)"
  by (simp_all add: or_panic_def word_sless_alt)

lemma user_dir_vm [simp]: "user_dir (s\<lparr>kern := (kern s)\<lparr>vm := v\<rparr>\<rparr>) = user_dir s"
  by (simp add: user_dir_def split: option.split)

section \<open>Reading the page tables\<close>

lemma page_addr_user: "unat pn < 0xEEC00 \<Longrightarrow> push_bit PGSHIFT pn < UTOP"
  by (simp add: word_less_nat_alt unat_page_addr UTOP_eq)

lemma page_addr_aligned [simp]: "PTE_ADDR (push_bit PGSHIFT pn) = push_bit PGSHIFT pn"
  by (rule bit_word_eqI) (auto simp: PTE_ADDR_bits bit_simps PGSHIFT_def)

lemma uvpt_read:
  assumes "user_dir s = Some d" "self_mapped (vm (kern s)) d" "PTE_ADDR d = d" "unat pn < 0xEEC00"
  shows "uvpt pn s = (if table_entry (vm (kern s)) d (push_bit PGSHIFT pn) = 0 then (Fault (UVPT + 4 * pn), s)
    else (Value (entry (vm (kern s)) d (push_bit PGSHIFT pn)), s))"
  using assms translate_uvpt [OF assms(2,3) _ page_addr_user [OF assms(4)]]
  by (simp add: uvpt_def user_load_def entry_def)

lemma uvpd_read:
  assumes "user_dir s = Some d" "self_mapped (vm (kern s)) d" "PTE_ADDR d = d" "n < 1024"
  shows "uvpd n s = (Value (pmem (vm (kern s)) (d + 4 * n)), s)"
proof -
  have self: "pmem (vm (kern s)) (d + 4 * PDX UVPT) = d OR PTE_P OR PTE_U"
    using assms(2) by (simp add: self_mapped_def pde_at_def)
  have "user_translate False (vm (kern s)) d (UVPT + 4 * drop_bit 12 UVPT + 4 * n) = Some (d + 4 * n)"
    unfolding user_translate_def Let_def pde_at_def uvpd_fields [OF assms(4)] read_pte_def self
      self_entry(1) [OF assms(3)] self_entry(2) [OF assms(3)]
    using self_entry(2) [OF assms(3)] slot_or [OF assms(3,4)] by simp
  then show ?thesis using assms(1) by (simp add: uvpd_def user_load_def)
qed

section \<open>Sharing one page\<close>

definition present :: "u32 \<Rightarrow> bool" where "present pte \<longleftrightarrow> pte AND PTE_P \<noteq> 0 \<and> pte AND PTE_U \<noteq> 0"

definition copied :: "u32 \<Rightarrow> bool" where "copied pte \<longleftrightarrow> pte AND PTE_W \<noteq> 0 \<or> pte AND PTE_COW \<noteq> 0"

text \<open>The entry that both get for a page of the parent: not writable, and copy-on-write when it was writable or copy-on-write.\<close>

definition shared_entry :: "u32 \<Rightarrow> u32" where
  "shared_entry pte = PTE_ADDR pte OR (PTE_P OR PTE_U OR
     ((if pte AND (PTE_PCD OR PTE_PWT) \<noteq> 0 then (PTE_U OR PTE_P) OR (PTE_PCD OR PTE_PWT) else PTE_U OR PTE_P) OR
      (if copied pte then PTE_COW else 0))) OR PTE_P"

text \<open>Data pages keep their contents, and tables stay tables.\<close>

definition keeps_data :: "vm \<Rightarrow> vm \<Rightarrow> u32 set \<Rightarrow> bool" where
  "keeps_data s s' ds \<longleftrightarrow> (\<forall>a. \<not> meta s' ds (PTE_ADDR a) \<longrightarrow> pmem s' a = pmem s a) \<and> (\<forall>a. meta s ds a \<longrightarrow> meta s' ds a)"

lemma keeps_data_refl [simp]: "keeps_data s s ds"
  by (simp add: keeps_data_def)

lemma keeps_data_trans: "keeps_data s1 s2 ds \<Longrightarrow> keeps_data s2 s3 ds \<Longrightarrow> keeps_data s1 s3 ds"
  unfolding keeps_data_def by metis

text \<open>The state in the middle of a \<open>fork\<close>; there are free pages for the tables that the child needs
  and \<open>sp\<close> more.\<close>

definition forking ::
  "uprog \<Rightarrow> nat \<Rightarrow> u32 \<Rightarrow> u32 \<Rightarrow> nat \<Rightarrow> u32 \<Rightarrow> u32 set \<Rightarrow> nat list \<Rightarrow> (nat \<Rightarrow> nat) \<Rightarrow> nat \<Rightarrow> bool" where
  "forking s c d envid e dc ds fl ext sp \<longleftrightarrow> parent_child (kern s) c d envid e dc \<and> d \<in> ds \<and> dc \<in> ds \<and>
     pages_ok (vm (kern s)) ds fl ext \<and> self_mapped (vm (kern s)) d \<and> card (missing (vm (kern s)) d dc) + sp \<le> length fl"

lemma forkingD:
  assumes "forking s c d envid e dc ds fl ext sp"
  shows "parent_child (kern s) c d envid e dc" "d \<in> ds" "dc \<in> ds" "pages_ok (vm (kern s)) ds fl ext"
    "self_mapped (vm (kern s)) d" "card (missing (vm (kern s)) d dc) + sp \<le> length fl" "PTE_ADDR d = d" "user_dir s = Some d"
  using assms parent_childD [of "kern s" c d envid e dc] spaces_okD(1) [OF pages_okD(3), of "vm (kern s)" ds fl ext d]
  by (simp_all add: forking_def user_dir_def)

lemma good_va: "va < UTOP \<Longrightarrow> PTE_ADDR va = va \<Longrightarrow> \<not> bad_va va"
proof -
  assume v: "va < UTOP" "PTE_ADDR va = va"
  then have "unat va = unat va div 4096 * 4096" using unat_ADDR [of va] by simp
  then have "unat va mod 4096 = 0" by (metis mod_mult_self2_is_0)
  then have "va mod PGSIZE = 0" using unat_mod [of va 4096] by (simp add: PGSIZE_def word_unat_eq_iff)
  with v(1) show ?thesis by (simp add: bad_va_def not_le)
qed

lemma share_step:
  assumes f: "forking s c d envid e dc ds fl ext sp" and va: "va < UTOP" "PTE_ADDR va = va"
    and p: "pte = entry (vm (kern s)) d va" "pte \<noteq> 0"
    and room: "card (maps (view (vm (kern s)) ds) (page_of pte)) + ext (page_of pte) + 1 < 2 ^ 16"
    and perm: "PTE_P OR PTE_U OR perm < 4096" "(PTE_P OR PTE_U OR perm) AND PTE_W = 0"
    and target: "tid = envid \<and> t = e \<and> td = dc \<or> tid = 0 \<and> t = c \<and> td = d"
  obtains v fl' where "lib_page_map pol 0 va tid va perm s = (Value 0, s\<lparr>kern := (kern s)\<lparr>vm := v\<rparr>\<rparr>)"
    "forking (s\<lparr>kern := (kern s)\<lparr>vm := v\<rparr>\<rparr>) c d envid e dc ds fl' ext sp" "keeps_data (vm (kern s)) v ds"
    "view v ds = set_page td va (PTE_ADDR pte OR (PTE_P OR PTE_U OR perm) OR PTE_P) (view (vm (kern s)) ds)"
proof -
  let ?k = "kern s" and ?v = "PTE_ADDR pte OR (PTE_P OR PTE_U OR perm) OR PTE_P"
  note pte = p(2) [unfolded p(1)]
  note F = forkingD [OF f] and P = parent_childD [OF forkingD(1) [OF f]]
  have td: "envid2env tid True ?k = (Ret (0, Some t), ?k)" "env_pgdir (envs ?k t) = Some td" "td \<in> ds"
    using target P F(2,3) by auto
  have full: "\<not> (fl = [] \<and> table_entry (vm ?k) td va = 0)"
  proof
    assume n: "fl = [] \<and> table_entry (vm ?k) td va = 0"
    have "table_entry (vm ?k) d va \<noteq> 0" using pte by (auto simp: entry_def)
    then have "td = dc" using n target by auto
    then have "PDX va \<in> missing (vm ?k) d dc"
      using n user_PDX [OF va(1)] \<open>table_entry (vm ?k) d va \<noteq> 0\<close> by (simp add: missing_def table_slot)
    moreover have "missing (vm ?k) d dc = {}" using F(6) n by simp
    ultimately show False by simp
  qed
  obtain v fl' where v: "env_page_map c va t va (PTE_P OR PTE_U OR perm) ?k = (Ret 0, ?k\<lparr>vm := v\<rparr>)"
    "map_step (vm ?k) v ds fl fl' ext td va ?v"
    using env_page_map_step [OF F(4) P(2) F(2) td(2,3) va(1,1) pte room [unfolded p(1)] perm(1)] perm(2) full
    unfolding p(1) by blast
  have "lib_page_map pol 0 va tid va perm s = (Value (of_int 0), s\<lparr>kern := ?k\<lparr>vm := v\<rparr>\<rparr>)"
    by (rule lib_page_map_run [OF good_va [OF va] good_va [OF va] P(6) td(1) v(1)]) simp_all
  moreover have "dc = td \<and> d \<noteq> td \<and> table_entry (vm ?k) d va \<noteq> 0 \<or> table_entry (vm ?k) td va \<noteq> 0"
    using target pte P(4) by (auto simp: entry_def)
  then have "forking (s\<lparr>kern := ?k\<lparr>vm := v\<rparr>\<rparr>) c d envid e dc ds fl' ext sp"
    using f v(2) map_step_keeps(1) [OF v(2) F(4) td(3) va(1) F(2,5)]
      map_step_keeps(2) [OF v(2) F(4) td(3) va(1) F(3,2) _ F(6)]
    by (auto simp: forking_def map_step_def)
  moreover have "keeps_data (vm ?k) v ds"
    using v(2) map_step_keeps(3) [OF v(2) F(4) td(3) va(1)] by (auto simp: keeps_data_def map_step_def)
  ultimately show ?thesis using v(2) by (intro that [of v fl']) (simp_all add: map_step_def)
qed

lemma shared_perm:
  assumes "iob = 0 \<or> iob = PTE_PCD OR PTE_PWT" "cow = 0 \<or> cow = PTE_COW"
  shows "PTE_P OR PTE_U OR (((PTE_U OR PTE_P) OR iob) OR cow) < 4096" "(PTE_P OR PTE_U OR (((PTE_U OR PTE_P) OR iob) OR cow)) AND PTE_W = 0"
  using assms by (auto simp: PTE_P_def PTE_U_def PTE_W_def PTE_PCD_def PTE_PWT_def PTE_COW_def)

definition dup_view :: "u32 \<Rightarrow> u32 \<Rightarrow> u32 \<Rightarrow> u32 \<Rightarrow> (u32 \<Rightarrow> u32 \<Rightarrow> u32) \<Rightarrow> u32 \<Rightarrow> u32 \<Rightarrow> u32" where
  "dup_view d dc va pte f = (let f1 = set_page dc va (shared_entry pte) f in
     if copied pte then set_page d va (shared_entry pte) f1 else f1)"

lemma maps_set_page:
  assumes "page_of v = q"
  shows "card (maps (set_page dc va v f) q) \<le> card (maps f q) + 1"
proof -
  have "maps (set_page dc va v f) q \<subseteq> insert (dc, PTE_ADDR va) (maps f q)"
    by (auto simp: maps_def set_page_def)
  then have "card (maps (set_page dc va v f) q) \<le> card (insert (dc, PTE_ADDR va) (maps f q))"
    by (intro card_mono) simp_all
  also have "\<dots> \<le> card (maps f q) + 1" by (simp add: card_insert_if)
  finally show ?thesis .
qed

lemma low_bits_page: "x < 4096 \<Longrightarrow> page_of (PTE_ADDR pte OR x OR PTE_P) = page_of pte"
proof -
  assume "x < 4096"
  then have "PTE_ADDR (page2pa (page_of pte) OR x) = page2pa (page_of pte)" by (rule flags_page)
  moreover have "PTE_ADDR PTE_P = 0" by (simp add: PTE_ADDR_def PTE_P_def)
  ultimately have "PTE_ADDR (PTE_ADDR pte OR x OR PTE_P) = PTE_ADDR pte"
    by (simp only: PTE_ADDR_or page2pa_page_of PTE_ADDR_idem or.right_neutral)
  then show ?thesis by (simp add: page_of_eq)
qed

lemma duppage_shares:
  assumes f: "forking s c d envid e dc ds fl ext sp" and pn: "unat pn < 0xEEC00"
    and p: "pte = entry (vm (kern s)) d (push_bit PGSHIFT pn)" "present pte"
    and room: "card (maps (view (vm (kern s)) ds) (page_of pte)) + ext (page_of pte) + 2 < 2 ^ 16"
  obtains v fl' where "duppage pol envid pn s = (Value 0, s\<lparr>kern := (kern s)\<lparr>vm := v\<rparr>\<rparr>)"
    "forking (s\<lparr>kern := (kern s)\<lparr>vm := v\<rparr>\<rparr>) c d envid e dc ds fl' ext sp" "keeps_data (vm (kern s)) v ds"
    "view v ds = dup_view d dc (push_bit PGSHIFT pn) pte (view (vm (kern s)) ds)"
proof -
  let ?va = "push_bit PGSHIFT pn"
  define iob where "iob = (if pte AND (PTE_PCD OR PTE_PWT) \<noteq> 0 then PTE_PCD OR PTE_PWT else 0)"
  define cow where "cow = (if copied pte then PTE_COW else 0)"
  note F = forkingD [OF f] and P = parent_childD [OF forkingD(1) [OF f]]
  have va: "?va < UTOP" "PTE_ADDR ?va = ?va" using page_addr_user [OF pn] by simp_all
  have nz: "pte \<noteq> 0" using p(2) by (auto simp: present_def)
  then have te: "table_entry (vm (kern s)) d ?va \<noteq> 0" using p(1) by (auto simp: entry_def)
  have uv: "uvpt pn s = (Value pte, s)" using uvpt_read [OF F(8,5,7) pn] te p(1) by simp
  have perm: "PTE_P OR PTE_U OR (((PTE_U OR PTE_P) OR iob) OR cow) < 4096" "(PTE_P OR PTE_U OR (((PTE_U OR PTE_P) OR iob) OR cow)) AND PTE_W = 0"
    by (rule shared_perm; simp add: iob_def cow_def)+
  have sh: "PTE_ADDR pte OR (PTE_P OR PTE_U OR (((PTE_U OR PTE_P) OR iob) OR cow)) OR PTE_P = shared_entry pte"
    by (simp add: shared_entry_def iob_def cow_def)
  have iob_if: "(if pte AND (PTE_PCD OR PTE_PWT) \<noteq> 0 then (PTE_U OR PTE_P) OR (PTE_PCD OR PTE_PWT) else PTE_U OR PTE_P) = (PTE_U OR PTE_P) OR iob"
    by (simp add: iob_def)
  obtain v fl' where 1: "lib_page_map pol 0 ?va envid ?va (((PTE_U OR PTE_P) OR iob) OR cow) s = (Value 0, s\<lparr>kern := (kern s)\<lparr>vm := v\<rparr>\<rparr>)"
    "forking (s\<lparr>kern := (kern s)\<lparr>vm := v\<rparr>\<rparr>) c d envid e dc ds fl' ext sp" "keeps_data (vm (kern s)) v ds"
    "view v ds = set_page dc ?va (shared_entry pte) (view (vm (kern s)) ds)"
    by (rule share_step [OF f va p(1) nz _ perm, of envid e dc]) (use room sh in simp_all)
  have run: "duppage pol envid pn s = (if copied pte
      then or_panic (lib_page_map pol 0 ?va envid ?va (((PTE_U OR PTE_P) OR iob) OR PTE_COW) s) (\<lambda>s2.
        or_panic (lib_page_map pol 0 ?va 0 ?va (((PTE_U OR PTE_P) OR iob) OR PTE_COW) s2) (\<lambda>s3. (Value 0, s3)))
      else or_panic (lib_page_map pol 0 ?va envid ?va ((PTE_U OR PTE_P) OR iob) s) (\<lambda>s2. (Value 0, s2)))"
    using p(2) unfolding duppage_def Let_def uv bind_user_simps iob_if by (simp add: present_def copied_def)
  show ?thesis
  proof (cases "copied pte")
    case False
    then have "cow = 0" by (simp add: cow_def)
    then show ?thesis using 1 False run by (intro that [of v fl']) (simp_all add: dup_view_def Let_def)
  next
    case True
    then have cow: "cow = PTE_COW" by (simp add: cow_def)
    let ?s = "s\<lparr>kern := (kern s)\<lparr>vm := v\<rparr>\<rparr>"
    have dd: "d \<noteq> dc" using P(4) by simp
    have e1: "pte = entry (vm (kern ?s)) d ?va"
      using 1(4) view_user [OF F(2) va(1), of v] view_user [OF F(2) va(1), of "vm (kern s)"] p(1) dd
      by (simp add: set_page_def)
    have "page_of (shared_entry pte) = page_of pte" unfolding sh [symmetric] by (rule low_bits_page [OF perm(1)])
    then have "card (maps (view v ds) (page_of pte)) \<le> card (maps (view (vm (kern s)) ds) (page_of pte)) + 1"
      unfolding 1(4) by (rule maps_set_page)
    then have room1: "card (maps (view (vm (kern ?s)) ds) (page_of pte)) + ext (page_of pte) + 1 < 2 ^ 16" using room by simp
    obtain v2 fl2 where 2: "lib_page_map pol 0 ?va 0 ?va (((PTE_U OR PTE_P) OR iob) OR cow) ?s = (Value 0, ?s\<lparr>kern := (kern ?s)\<lparr>vm := v2\<rparr>\<rparr>)"
      "forking (?s\<lparr>kern := (kern ?s)\<lparr>vm := v2\<rparr>\<rparr>) c d envid e dc ds fl2 ext sp" "keeps_data (vm (kern ?s)) v2 ds"
      "view v2 ds = set_page d ?va (shared_entry pte) (view (vm (kern ?s)) ds)"
      by (rule share_step [OF 1(2) va e1 nz room1 perm, of 0 c d]) (use sh in simp_all)
    show ?thesis
      using 1(1) 2 True run keeps_data_trans [OF 1(3)] 1(4)
      by (intro that [of v2 fl2]) (simp_all add: cow dup_view_def Let_def)
  qed
qed

section \<open>The loop of fork\<close>

text \<open>
  The address spaces after the pages with numbers below \<open>hi\<close>: the child gets every present page except
  the exception stack, and the pages that could be written are copy-on-write for both.
\<close>

definition forked :: "u32 \<Rightarrow> u32 \<Rightarrow> nat \<Rightarrow> (u32 \<Rightarrow> u32 \<Rightarrow> u32) \<Rightarrow> u32 \<Rightarrow> u32 \<Rightarrow> u32" where
  "forked d dc hi f = (\<lambda>d' va.
     if page_of va < hi \<and> page_of va \<noteq> page_of (UXSTACKTOP - PGSIZE) \<and> present (f d va) \<and>
        (d' = dc \<or> d' = d \<and> copied (f d va))
     then shared_entry (f d va) else f d' va)"

lemma page_of_page_addr: "unat pn < 2 ^ 20 \<Longrightarrow> page_of (push_bit PGSHIFT pn) = unat pn"
  using unat_page_addr [of pn] by (simp add: page_of_div)

lemma at_page_addr: "unat pn < 2 ^ 20 \<Longrightarrow> page_of va = unat pn \<longleftrightarrow> PTE_ADDR va = push_bit PGSHIFT pn"
  using page_of_eq [of va "push_bit PGSHIFT pn"] by (simp add: page_of_page_addr)

lemma forked_Suc:
  assumes pn: "unat pn < 2 ^ 20" and f: "\<And>d' va. f d' va = f d' (PTE_ADDR va)" and "d \<noteq> dc"
  defines "va0 \<equiv> push_bit PGSHIFT pn"
  shows "forked d dc (Suc (unat pn)) f =
    (if unat pn \<noteq> page_of (UXSTACKTOP - PGSIZE) \<and> present (f d va0) then dup_view d dc va0 (f d va0) (forked d dc (unat pn) f)
     else forked d dc (unat pn) f)"
proof (intro ext)
  fix d' va
  have at: "page_of va = unat pn \<longleftrightarrow> PTE_ADDR va = va0" unfolding va0_def by (rule at_page_addr [OF pn])
  have a0: "PTE_ADDR va0 = va0" by (simp add: va0_def)
  show "forked d dc (Suc (unat pn)) f d' va =
    (if unat pn \<noteq> page_of (UXSTACKTOP - PGSIZE) \<and> present (f d va0) then dup_view d dc va0 (f d va0) (forked d dc (unat pn) f)
     else forked d dc (unat pn) f) d' va"
  proof (cases "page_of va = unat pn")
    case True
    then have "f d' va = f d' va0" "f d va = f d va0" for d' using f [of _ va] at by simp_all
    then show ?thesis
      using True at a0 assms(3) by (auto simp: forked_def dup_view_def set_page_def Let_def)
  next
    case False
    then have "page_of va < Suc (unat pn) \<longleftrightarrow> page_of va < unat pn" "PTE_ADDR va \<noteq> va0" using at by auto
    then show ?thesis using a0 by (simp add: forked_def dup_view_def set_page_def Let_def)
  qed
qed

lemma page_of_shared [simp]: "page_of (shared_entry pte) = page_of pte"
proof -
  define x where "x = PTE_P OR PTE_U OR (((PTE_U OR PTE_P) OR (if pte AND (PTE_PCD OR PTE_PWT) \<noteq> 0 then PTE_PCD OR PTE_PWT else 0)) OR
      (if copied pte then PTE_COW else 0))"
  have "x < 4096" unfolding x_def by (rule shared_perm(1)) simp_all
  moreover have "shared_entry pte = PTE_ADDR pte OR x OR PTE_P" by (simp add: shared_entry_def x_def)
  ultimately show ?thesis using low_bits_page [of x pte] by simp
qed

lemma maps_forked: "card (maps (forked d dc hi f) q) \<le> 2 * card (maps f q)"
proof -
  have "maps (forked d dc hi f) q \<subseteq> maps f q \<union> (\<lambda>x. (dc, snd x)) ` maps f q"
  proof
    fix x assume x: "x \<in> maps (forked d dc hi f) q"
    obtain d' va where [simp]: "x = (d', va)" by (cases x)
    show "x \<in> maps f q \<union> (\<lambda>x. (dc, snd x)) ` maps f q"
    proof (cases "forked d dc hi f d' va = f d' va")
      case True
      then show ?thesis using x by (simp add: maps_def)
    next
      case False
      then have "present (f d va)" "forked d dc hi f d' va = shared_entry (f d va)" "d' = dc \<or> d' = d"
        by (auto simp: forked_def split: if_splits)
      moreover from this have "f d va \<noteq> 0" by (auto simp: present_def)
      ultimately have "(d, va) \<in> maps f q" "d' = dc \<or> d' = d" using x by (simp_all add: maps_def)
      then show ?thesis by force
    qed
  qed
  then have "card (maps (forked d dc hi f) q) \<le> card (maps f q \<union> (\<lambda>x. (dc, snd x)) ` maps f q)"
    by (intro card_mono) simp_all
  also have "\<dots> \<le> card (maps f q) + card ((\<lambda>x. (dc, snd x)) ` maps f q)" by (rule card_Un_le)
  also have "\<dots> \<le> 2 * card (maps f q)" using card_image_le [of "maps f q" "\<lambda>x. (dc, snd x)"] by simp
  finally show ?thesis .
qed

lemma dir_index:
  assumes "unat pn < 2 ^ 20"
  shows "drop_bit 10 pn < 1024" "drop_bit 10 pn = PDX (push_bit PGSHIFT pn)"
proof -
  have "unat (drop_bit 10 pn) = unat pn div 1024" by (simp add: drop_bit_eq_div unat_div)
  moreover have "unat (PDX (push_bit PGSHIFT pn)) = unat pn div 1024"
    using assms by (simp add: unat_PDX unat_page_addr)
  ultimately show "drop_bit 10 pn < 1024" "drop_bit 10 pn = PDX (push_bit PGSHIFT pn)"
    using assms by (auto simp: word_less_nat_alt word_unat_eq_iff)
qed

lemma both_flags: "t AND (PTE_P OR PTE_U) = PTE_P OR PTE_U \<Longrightarrow> t AND PTE_P \<noteq> 0 \<and> t AND PTE_U \<noteq> 0"
proof -
  assume t: "t AND (PTE_P OR PTE_U) = PTE_P OR PTE_U"
  have "t AND PTE_P = (t AND (PTE_P OR PTE_U)) AND PTE_P" "t AND PTE_U = (t AND (PTE_P OR PTE_U)) AND PTE_U"
    by (rule bit_word_eqI, auto simp: bit_simps)+
  then show ?thesis unfolding t by (simp add: PTE_P_def PTE_U_def)
qed

lemma fork_pages_forked:
  assumes "forking s c d envid e dc ds fl ext sp" "view (vm (kern s)) ds = forked d dc (unat pn) f"
    "unat pn + n \<le> 0xEEC00" "\<And>d' va. f d' va = f d' (PTE_ADDR va)" "\<And>q. 2 * card (maps f q) + ext q + 2 < 2 ^ 16"
  shows "\<exists>v fl'. fork_pages pol envid n pn s = (Value (), s\<lparr>kern := (kern s)\<lparr>vm := v\<rparr>\<rparr>) \<and>
    forking (s\<lparr>kern := (kern s)\<lparr>vm := v\<rparr>\<rparr>) c d envid e dc ds fl' ext sp \<and> keeps_data (vm (kern s)) v ds \<and>
    view v ds = forked d dc (unat pn + n) f"
  using assms(1-3)
proof (induction n arbitrary: pn s fl)
  case 0
  then show ?case by (intro exI [of _ "vm (kern s)"] exI [of _ fl]) simp
next
  case (Suc n)
  let ?va = "push_bit PGSHIFT pn" and ?ex = "page_of (UXSTACKTOP - PGSIZE)"
  note F = forkingD [OF Suc.prems(1)] and P = parent_childD [OF forkingD(1) [OF Suc.prems(1)]]
  have pn: "unat pn < 0xEEC00" "unat pn < 2 ^ 20" using Suc.prems(3) by simp_all
  have p1: "unat (pn + 1) = unat pn + 1" using pn by (simp add: unat_word_ariths)
  have dd: "d \<noteq> dc" using P(4) by simp
  note step = forked_Suc [of pn f d dc, OF pn(2) assms(4) dd]
  have ex: "pn = drop_bit PGSHIFT UXSTACKTOP - 1 \<longleftrightarrow> unat pn = ?ex"
    by (simp add: word_unat_eq_iff PGSHIFT_def UXSTACKTOP_def UTOP_eq PGSIZE_def page_of_div drop_bit_eq_div)
  have va: "?va < UTOP" by (rule page_addr_user [OF pn(1)])
  have cur: "entry (vm (kern s)) d ?va = f d ?va"
    using view_user [OF F(2) va, of "vm (kern s)"] unfolding Suc.prems(2) by (simp add: forked_def page_of_page_addr [OF pn(2)])
  have skip: ?case if "fork_pages pol envid (Suc n) pn s = fork_pages pol envid n (pn + 1) s"
    "forked d dc (Suc (unat pn)) f = forked d dc (unat pn) f"
    using Suc.IH [OF Suc.prems(1), of "pn + 1"] Suc.prems(2,3) that p1 by simp
  show ?case
  proof (cases "unat pn = ?ex")
    case True
    show ?thesis by (rule skip) (use True ex step in simp_all)
  next
    case ne: False
    have pde: "uvpd (drop_bit 10 pn) s = (Value (table_entry (vm (kern s)) d ?va), s)"
      using uvpd_read [OF F(8,5,7) dir_index(1) [OF pn(2)]] dir_index(2) [OF pn(2)] by (simp add: table_slot)
    show ?thesis
    proof (cases "table_entry (vm (kern s)) d ?va = 0")
      case True
      then have "f d ?va = 0" using cur by (simp add: entry_def)
      then have "\<not> present (f d ?va)" by (simp add: present_def)
      then show ?thesis by (intro skip) (use True ne ex step pde in simp_all)
    next
      case False
      have fl: "table_entry (vm (kern s)) d ?va AND PTE_P \<noteq> 0 \<and> table_entry (vm (kern s)) d ?va AND PTE_U \<noteq> 0"
        by (rule both_flags) (use F(5) va False in \<open>unfold self_mapped_def, blast\<close>)
      have uv: "uvpt pn s = (Value (f d ?va), s)"
        using uvpt_read [OF F(8,5,7) pn(1)] False cur by simp
      show ?thesis
      proof (cases "present (f d ?va)")
        case False
        then have "f d ?va AND PTE_P = 0 \<or> f d ?va AND PTE_U = 0" by (auto simp: present_def)
        then have "fork_pages pol envid (Suc n) pn s = fork_pages pol envid n (pn + 1) s"
          using ne ex pde fl uv by simp
        then show ?thesis by (rule skip) (use False step in simp)
      next
        case True
        have "card (maps (view (vm (kern s)) ds) (page_of (f d ?va))) + ext (page_of (f d ?va)) + 2 < 2 ^ 16"
          using maps_forked [of d dc "unat pn" f "page_of (f d ?va)"] assms(5) [of "page_of (f d ?va)"]
          unfolding Suc.prems(2) by linarith
        then obtain v fl' where v: "duppage pol envid pn s = (Value 0, s\<lparr>kern := (kern s)\<lparr>vm := v\<rparr>\<rparr>)"
          "forking (s\<lparr>kern := (kern s)\<lparr>vm := v\<rparr>\<rparr>) c d envid e dc ds fl' ext sp" "keeps_data (vm (kern s)) v ds"
          "view v ds = dup_view d dc ?va (f d ?va) (view (vm (kern s)) ds)"
          by (rule duppage_shares [OF Suc.prems(1) pn(1) cur [symmetric] True]) blast
        let ?s = "s\<lparr>kern := (kern s)\<lparr>vm := v\<rparr>\<rparr>"
        have "view (vm (kern ?s)) ds = forked d dc (unat (pn + 1)) f"
          using v(4) step ne True Suc.prems(2) p1 by simp
        from Suc.IH [OF v(2) this] Suc.prems(3) p1 obtain v2 fl2 where
          "fork_pages pol envid n (pn + 1) ?s = (Value (), ?s\<lparr>kern := (kern ?s)\<lparr>vm := v2\<rparr>\<rparr>)"
          "forking (?s\<lparr>kern := (kern ?s)\<lparr>vm := v2\<rparr>\<rparr>) c d envid e dc ds fl2 ext sp" "keeps_data (vm (kern ?s)) v2 ds"
          "view v2 ds = forked d dc (unat (pn + 1) + n) f"
          by auto
        then show ?thesis
          using v(1) ne ex pde fl uv True p1 keeps_data_trans [OF v(3)]
          by (intro exI [of _ v2] exI [of _ fl2]) (simp add: present_def)
      qed
    qed
  qed
qed


section \<open>What fork does for the child\<close>

lemma both_flags_rev: "x AND PTE_P \<noteq> 0 \<Longrightarrow> x AND PTE_U \<noteq> 0 \<Longrightarrow> x AND (PTE_P OR PTE_U) = PTE_P OR PTE_U"
proof -
  assume "x AND PTE_P \<noteq> 0" "x AND PTE_U \<noteq> 0"
  then have "x AND PTE_P = PTE_P" "x AND PTE_U = PTE_U"
    using flag_bit [of x 0] flag_bit [of x 2] unfolding flags_exp by metis+
  then show ?thesis by (simp only: bit.conj_disj_distrib)
qed

lemma user_mem_check_present:
  assumes ok: "spaces_ok s ds" "d \<in> ds" and len: "len \<noteq> 0" "unat va + unat len + 4095 < 2 ^ 32" "unat va + unat len \<le> unat UTOP"
    and p: "\<And>w. in_range va len w \<Longrightarrow> present (entry s d w)" and perm: "perm OR PTE_P = PTE_P OR PTE_U"
  shows "user_mem_check d va len perm s = Some (0, s)"
proof (cases "find (\<lambda>i. denied s d perm (loop_page va i)) [0..<range_pages va len]")
  case None
  then show ?thesis using len(3) by (simp add: user_mem_check_find [OF ok len(1,2)])
next
  case (Some i)
  then have i: "i < range_pages va len" "denied s d perm (loop_page va i)" by (auto simp: find_Some_iff)
  note fb = first_byte_in [OF len(1,2) i(1)]
  have d: "denied s d perm (first_byte va i)"
    using in_range_page [OF len(1) fb(1), of s d perm] fb(2) i(2) by (metis add_left_cancel)
  show ?thesis
    using d p [OF fb(1)] both_flags_rev by (simp add: denied_def present_def perm)
qed

lemma present_shared: "present (shared_entry pte)"
proof -
  have "(x OR (PTE_P OR PTE_U OR y) OR PTE_P) AND PTE_P = PTE_P" "(x OR (PTE_P OR PTE_U OR y) OR PTE_P) AND PTE_U = PTE_U" for x y
    by (rule bit_word_eqI, auto simp: bit_simps)+
  then show ?thesis by (simp add: present_def shared_entry_def) (simp add: PTE_P_def PTE_U_def)
qed

lemma xstack: "UXSTACKTOP - PGSIZE < UTOP" "PTE_ADDR (UXSTACKTOP - PGSIZE) = UXSTACKTOP - PGSIZE"
  "UXSTACKTOP - PGSIZE = 0xEEBFF000"
  by (simp_all add: UXSTACKTOP_def UTOP_eq PGSIZE_def PTE_ADDR_def)

lemma data_perm: "check_perm ((PTE_U OR PTE_P OR PTE_W) OR PTE_U OR PTE_P) None = 0"
  by (simp add: check_perm_def PTE_U_def PTE_P_def PTE_SYSCALL_def PTE_AVAIL_def PTE_W_def)

lemma full_entry: "page2pa p OR ((PTE_U OR PTE_P OR PTE_W) OR PTE_U OR PTE_P) OR PTE_P = page2pa p OR PTE_P OR PTE_W OR PTE_U"
  by (rule bit_word_eqI) (auto simp: bit_simps)

lemma page_of_data: "p < 2 ^ 20 \<Longrightarrow> page_of (page2pa p OR PTE_P OR PTE_W OR PTE_U) = p"
proof -
  assume p: "p < 2 ^ 20"
  have "PTE_ADDR (PTE_P OR PTE_W OR PTE_U) = 0" by (simp add: PTE_ADDR_def PTE_P_def PTE_W_def PTE_U_def)
  then have "PTE_ADDR (page2pa p OR PTE_P OR PTE_W OR PTE_U) = page2pa p"
    by (simp only: PTE_ADDR_or or.assoc page2pa_aligned or.right_neutral)
  then show ?thesis using page_of_page2pa [OF p] page_of_ADDR by metis
qed

text \<open>The child gets a cleared page of its own as exception stack.\<close>

lemma fork_stack:
  assumes f: "forking s c d envid e dc ds fl ext 2"
  obtains v p fl' where
    "lib_page_alloc pol envid (UXSTACKTOP - PGSIZE) (PTE_U OR PTE_P OR PTE_W) s = (Value 0, s\<lparr>kern := (kern s)\<lparr>vm := v\<rparr>\<rparr>)"
    "pages_ok v ds fl' ext"
    "view v ds = set_page dc (UXSTACKTOP - PGSIZE) (page2pa p OR PTE_P OR PTE_W OR PTE_U) (view (vm (kern s)) ds)"
    "maps (view v ds) p = {(dc, UXSTACKTOP - PGSIZE)}" "\<And>a. PTE_ADDR a = page2pa p \<Longrightarrow> pmem v a = 0"
    "\<And>a. \<not> meta v ds (PTE_ADDR a) \<Longrightarrow> PTE_ADDR a \<noteq> page2pa p \<Longrightarrow> pmem v a = pmem (vm (kern s)) a"
    "\<And>a. meta (vm (kern s)) ds a \<Longrightarrow> meta v ds a"
proof -
  let ?k = "kern s" and ?x = "UXSTACKTOP - PGSIZE" and ?perm = "(PTE_U OR PTE_P OR PTE_W) OR PTE_U OR PTE_P"
  note F = forkingD [OF f] and P = parent_childD [OF forkingD(1) [OF f]]
  obtain p q rest where fl: "fl = p # q # rest" using F(6) by (cases fl rule: remdups_adj.cases) auto
  obtain s1 v fl' where v: "env_page_alloc e ?x ?perm ?k = (Ret 0, ?k\<lparr>vm := v\<rparr>)"
    "map_step s1 v ds (q # rest) fl' ext dc ?x (page2pa p OR ?perm OR PTE_P)" "pages_ok s1 ds (q # rest) ext"
    "view s1 ds = view (vm ?k) ds" "meta s1 ds = meta (vm ?k) ds" "\<And>a. PTE_ADDR a = page2pa p \<Longrightarrow> pmem s1 a = 0"
    "\<And>a. PTE_ADDR a \<noteq> page2pa p \<Longrightarrow> pmem s1 a = pmem (vm ?k) a" "\<not> meta v ds (page2pa p)"
    "maps (view (vm ?k) ds) p = {}" "ext p = 0" "p < 2 ^ 20"
    by (rule env_page_alloc_step [OF F(4) [unfolded fl] P(3) F(3) xstack(1) data_perm]) blast+
  have m: "pages_ok v ds fl' ext" "view v ds = set_page dc ?x (page2pa p OR PTE_P OR PTE_W OR PTE_U) (view (vm ?k) ds)"
    "\<And>a. \<not> meta v ds (PTE_ADDR a) \<Longrightarrow> pmem v a = pmem s1 a"
    using v(2) unfolding map_step_def v(4) full_entry by blast+
  have "lib_page_alloc pol envid ?x (PTE_U OR PTE_P OR PTE_W) s = (Value (of_int 0), s\<lparr>kern := ?k\<lparr>vm := v\<rparr>\<rparr>)"
    by (rule lib_page_alloc_run [OF good_va [OF xstack(1,2)] P(5) v(1)]) simp_all
  moreover have "maps (view v ds) p = {(dc, ?x)}"
    using maps_fresh [OF v(9) page_of_data [OF v(11)] new_table(1) xstack(1), of dc] xstack(2) by (simp add: m(2))
  moreover have "meta v ds a" if "meta (vm ?k) ds a" for a
    using map_step_keeps(3) [OF v(2,3) F(3) xstack(1), of a] that v(5) by simp
  ultimately show ?thesis using that m(1,2) m(3) v(6,7,8) by simp
qed


lemma lib_set_upcall_run:
  assumes "envid2env envid True (kern s) = (Ret (0, Some e), kern s)" "env_pgdir (envs (kern s) e) = Some dc"
    "user_mem_check dc up PGSIZE ((PTE_P OR PTE_U) OR PTE_U) (vm (kern s)) = Some (0, vm (kern s))"
  shows "lib_env_set_pgfault_upcall pol envid up s =
    (Value 0, s\<lparr>kern := upd_env (kern s) e (\<lambda>x. x\<lparr>env_pgfault_upcall := up\<rparr>)\<rparr>)"
  using assms by (simp add: lib_env_set_pgfault_upcall_def lib_syscall_def int30_def syscall_def
      sys_env_set_pgfault_upcall_def with_env_def bind_outcome_def user_mem_assert_def)

lemma lib_set_status_run:
  assumes "envid2env envid True (kern s) = (Ret (0, Some e), kern s)"
  shows "lib_env_set_status pol envid 2 s = (Value 0, s\<lparr>kern := upd_env (kern s) e (\<lambda>x. x\<lparr>env_status := ENV_RUNNABLE\<rparr>)\<rparr>)"
  using assms by (simp add: lib_env_set_status_def lib_syscall_def int30_def syscall_def
      sys_env_set_status_def status_of_def with_env_def bind_outcome_def)

lemma parent_child_upcall [simp]:
  "parent_child (upd_env k e (\<lambda>x. x\<lparr>env_pgfault_upcall := up\<rparr>)) c d envid e dc = parent_child k c d envid e dc"
  by (simp add: parent_child_def upd_env_def)

lemma forked_0: "forked d dc 0 f = f"
  by (simp add: forked_def)

text \<open>
  C5. What the parent's half of \<open>fork\<close> does, for a program with any number of mappings, as long as no
  page is mapped so often that its 16-bit count would overflow and there are free pages for
  the missing tables of the child and two more: it does not fault or panic, returns the child's
  id and leaves the child runnable with the parent's page fault upcall. In the address spaces,
  every present page of the parent below \<open>UTOP\<close> except the exception stack is shared
  with the child, read-only, and copy-on-write for both when the parent could write it;
  everything else of every address space is as before. The child alone has a cleared page as
  exception stack, no other data page has changed, and all counts agree again.
\<close>

theorem fork_shares_pages:
  assumes "forking s c d envid e dc ds fl ext 2" "thisenv s = Some c"
    "\<And>q. 2 * card (maps (view (vm (kern s)) ds) q) + ext q + 2 < 2 ^ 16"
    "unat (env_pgfault_upcall (envs (kern s) c)) + unat PGSIZE \<le> unat (UXSTACKTOP - PGSIZE)"
    "\<And>w. in_range (env_pgfault_upcall (envs (kern s) c)) PGSIZE w \<Longrightarrow> present (entry (vm (kern s)) d w)"
  shows "\<exists>v p fl'. fork_parent pol envid s = (Value envid, s\<lparr>kern := upd_env ((kern s)\<lparr>vm := v\<rparr>) e
        (\<lambda>x. x\<lparr>env_pgfault_upcall := env_pgfault_upcall (envs (kern s) c), env_status := ENV_RUNNABLE\<rparr>)\<rparr>) \<and>
     pages_ok v ds fl' ext \<and>
     view v ds = set_page dc (UXSTACKTOP - PGSIZE) (page2pa p OR PTE_P OR PTE_W OR PTE_U)
       (forked d dc (page_of UTOP) (view (vm (kern s)) ds)) \<and>
     maps (view v ds) p = {(dc, UXSTACKTOP - PGSIZE)} \<and>
     (\<forall>a. pmem v a = (if PTE_ADDR a = page2pa p then 0 else if meta v ds (PTE_ADDR a) then pmem v a else pmem (vm (kern s)) a))"
proof -
  let ?up = "env_pgfault_upcall (envs (kern s) c)" and ?f = "view (vm (kern s)) ds" and ?x = "UXSTACKTOP - PGSIZE"
  note F = forkingD [OF assms(1)] and P = parent_childD [OF forkingD(1) [OF assms(1)]]
  have top: "unat (drop_bit PGSHIFT UTOP) = 0xEEC00" "page_of UTOP = 0xEEC00"
    by (simp_all add: UTOP_eq PGSHIFT_def drop_bit_eq_div page_of_div)
  have va: "?f d' va = ?f d' (PTE_ADDR va)" for d' va
    by (simp add: view_def)
  obtain v1 fl1 where v1: "fork_pages pol envid 0xEEC00 0 s = (Value (), s\<lparr>kern := (kern s)\<lparr>vm := v1\<rparr>\<rparr>)"
    "forking (s\<lparr>kern := (kern s)\<lparr>vm := v1\<rparr>\<rparr>) c d envid e dc ds fl1 ext 2" "keeps_data (vm (kern s)) v1 ds"
    "view v1 ds = forked d dc 0xEEC00 ?f"
    using fork_pages_forked [OF assms(1), of 0 ?f "0xEEC00" pol] va assms(3) forked_0 by auto
  let ?s1 = "s\<lparr>kern := (kern s)\<lparr>vm := v1\<rparr>\<rparr>"
  obtain v p fl' where v: "lib_page_alloc pol envid ?x (PTE_U OR PTE_P OR PTE_W) ?s1 = (Value 0, ?s1\<lparr>kern := (kern ?s1)\<lparr>vm := v\<rparr>\<rparr>)"
    "pages_ok v ds fl' ext" "view v ds = set_page dc ?x (page2pa p OR PTE_P OR PTE_W OR PTE_U) (view (vm (kern ?s1)) ds)"
    "maps (view v ds) p = {(dc, ?x)}" "\<And>a. PTE_ADDR a = page2pa p \<Longrightarrow> pmem v a = 0"
    "\<And>a. \<not> meta v ds (PTE_ADDR a) \<Longrightarrow> PTE_ADDR a \<noteq> page2pa p \<Longrightarrow> pmem v a = pmem (vm (kern ?s1)) a"
    "\<And>a. meta (vm (kern ?s1)) ds a \<Longrightarrow> meta v ds a"
    by (rule fork_stack [OF v1(2)]) blast
  let ?s2 = "s\<lparr>kern := (kern s)\<lparr>vm := v\<rparr>\<rparr>"
  have below: "unat ?up + 4096 \<le> 0xEEBFF000" using assms(4) unfolding xstack(3) by (simp add: PGSIZE_def)
  have pr: "present (entry v dc w)" if w: "in_range ?up PGSIZE w" for w
  proof -
    have u: "unat w < 0xEEBFF000" using w below by (simp add: in_range_def PGSIZE_def)
    then have lt: "w < UTOP" "page_of w < 0xEEC00" "page_of w \<noteq> page_of ?x"
      by (simp_all add: UTOP_eq word_less_nat_alt page_of_div xstack(3) div_less_iff_less_mult)
    then have "entry v dc w = forked d dc 0xEEC00 ?f dc w"
      using view_user [OF F(3) lt(1), of v] v(3) v1(4) page_of_eq [of w ?x] by (simp add: set_page_def)
    also have "\<dots> = shared_entry (?f d w)"
      using lt(2,3) assms(5) [OF w] view_user [OF F(2) lt(1), of "vm (kern s)"] by (simp add: forked_def)
    finally show ?thesis by (simp add: present_shared)
  qed
  have chk: "user_mem_check dc ?up PGSIZE ((PTE_P OR PTE_U) OR PTE_U) v = Some (0, v)"
    by (rule user_mem_check_present [OF pages_okD(3) [OF v(2)] F(3) _ _ _ pr])
      (use below in \<open>simp_all add: PGSIZE_def UTOP_eq PTE_P_def PTE_U_def\<close>)
  have P2: "parent_child (kern ?s2) c d envid e dc" using F(1) by simp
  have up: "lib_env_set_pgfault_upcall pol envid ?up ?s2 =
    (Value 0, ?s2\<lparr>kern := upd_env (kern ?s2) e (\<lambda>x. x\<lparr>env_pgfault_upcall := ?up\<rparr>)\<rparr>)"
    by (rule lib_set_upcall_run [OF parent_childD(5,3) [OF P2]]) (use chk in simp)
  let ?s3 = "?s2\<lparr>kern := upd_env (kern ?s2) e (\<lambda>x. x\<lparr>env_pgfault_upcall := ?up\<rparr>)\<rparr>"
  have P3: "parent_child (kern ?s3) c d envid e dc" using P2 by simp
  have "fork_parent pol envid s =
    (Value envid, ?s3\<lparr>kern := upd_env (kern ?s3) e (\<lambda>x. x\<lparr>env_status := ENV_RUNNABLE\<rparr>)\<rparr>)"
    unfolding fork_parent_def top(1) v1(1) bind_user_simps v(1) or_panic_simps
    using up lib_set_status_run [OF parent_childD(5) [OF P3], of pol] assms(2) by simp
  moreover have "?s3\<lparr>kern := upd_env (kern ?s3) e (\<lambda>x. x\<lparr>env_status := ENV_RUNNABLE\<rparr>)\<rparr> =
    s\<lparr>kern := upd_env ((kern s)\<lparr>vm := v\<rparr>) e (\<lambda>x. x\<lparr>env_pgfault_upcall := ?up, env_status := ENV_RUNNABLE\<rparr>)\<rparr>"
    by (simp add: upd_env_def)
  moreover have "pmem v a = (if PTE_ADDR a = page2pa p then 0 else if meta v ds (PTE_ADDR a) then pmem v a else pmem (vm (kern s)) a)" for a
    using v(5,6,7) [of a] v(7) v1(3) unfolding keeps_data_def by auto
  ultimately show ?thesis using v(2-4) v1(4) top(2) by (intro exI [of _ v] exI [of _ p] exI [of _ fl']) simp
qed

section \<open>A small machine\<close>

text \<open>
  Page 3 is the directory of environment 0, page 5 its table for the addresses from \<open>0x800000\<close>, where
  the writable page 6 is mapped; page 4 is the empty directory of its child in slot 1; pages
  8, 9 and 10 are free.
\<close>

definition fork_mem :: vm where
  "fork_mem = \<lparr>npages = 16,
     pages = (\<lambda>p. \<lparr>pp_ref = (if p \<in> {3, 4, 5, 6} then 1 else 0), pp_link = (if p = 8 then Some 9 else if p = 9 then Some 10 else None)\<rparr>),
     page_free_list = Some 8, pmem = (\<lambda>_. 0)(0x3008 := 0x5007, 0x3EF4 := 0x3005, 0x5000 := 0x6007), nextfree = None,
     mmio_base = MMIOBASE, user_mem_check_addr = 0, flushed = []\<rparr>"

definition fork_prog :: uprog where
  "fork_prog = \<lparr>kern = (demo_kernel demo_status)\<lparr>vm := fork_mem,
     envs := (\<lambda>i. if i = 1 then (demo_env 1 ENV_NOT_RUNNABLE)\<lparr>env_parent_id := 0x1000, env_pgdir := Some 0x4000\<rparr>
       else (demo_env i (demo_status i))\<lparr>env_pgfault_upcall := 0x800000\<rparr>)\<rparr>,
     thisenv = Some 0, pgfault_handler = 0x800020\<rparr>"

lemma fork_mem_simps [simp]:
  "npages fork_mem = 16" "page_free_list fork_mem = Some 8"
  "pp_ref (pages fork_mem p) = (if p \<in> {3, 4, 5, 6} then 1 else 0)"
  "pp_link (pages fork_mem p) = (if p = 8 then Some 9 else if p = 9 then Some 10 else None)"
  "pmem fork_mem = (\<lambda>_. 0)(0x3008 := 0x5007, 0x3EF4 := 0x3005, 0x5000 := 0x6007)"
  by (simp_all add: fork_mem_def)

lemma demo_pages: "PTE_ADDR 0x3000 = 0x3000" "PTE_ADDR 0x4000 = 0x4000" "PTE_ADDR 0x5000 = 0x5000" "PTE_ADDR 0x800000 = 0x800000"
  "PTE_ADDR 0x5007 = 0x5000" "PTE_ADDR 0x6007 = 0x6000" "page_of 0x3000 = 3" "page_of 0x4000 = 4" "page_of 0x5007 = 5" "page_of 0x6007 = 6"
  by (simp_all add: PTE_ADDR_def page_of_div)

lemma demo_slot:
  assumes "i < 1024"
  shows "pmem fork_mem (0x3000 + 4 * i) = (if i = 2 then 0x5007 else if i = 957 then 0x3005 else 0)"
    "pmem fork_mem (0x4000 + 4 * i) = 0" "pmem fork_mem (0x5000 + 4 * i) = (if i = 0 then 0x6007 else 0)"
proof -
  have "0x3000 + 4 * i = 0x3008 \<longleftrightarrow> i = 2" "0x3000 + 4 * i = 0x3EF4 \<longleftrightarrow> i = 957" "0x3000 + 4 * i \<noteq> 0x5000"
    "0x4000 + 4 * i \<noteq> 0x3008" "0x4000 + 4 * i \<noteq> 0x3EF4" "0x4000 + 4 * i \<noteq> 0x5000"
    "0x5000 + 4 * i \<noteq> 0x3008" "0x5000 + 4 * i \<noteq> 0x3EF4" "0x5000 + 4 * i = 0x5000 \<longleftrightarrow> i = 0"
    using slot_inj [of "0x3000" i "0x3000" 2] slot_inj [of "0x3000" i "0x3000" 957] slot_inj [of "0x3000" i "0x5000" 0]
      slot_inj [of "0x4000" i "0x3000" 2] slot_inj [of "0x4000" i "0x3000" 957] slot_inj [of "0x4000" i "0x5000" 0]
      slot_inj [of "0x5000" i "0x3000" 2] slot_inj [of "0x5000" i "0x3000" 957] slot_inj [of "0x5000" i "0x5000" 0]
      assms demo_pages(1-3) by simp_all
  then show "pmem fork_mem (0x3000 + 4 * i) = (if i = 2 then 0x5007 else if i = 957 then 0x3005 else 0)"
    "pmem fork_mem (0x4000 + 4 * i) = 0" "pmem fork_mem (0x5000 + 4 * i) = (if i = 0 then 0x6007 else 0)" by auto
qed

lemma UVPT_slot: "PDX UVPT = 957"
proof -
  have "unat (PDX UVPT) = unat (957 :: u32)" unfolding unat_PDX by (simp add: UVPT_eq)
  then show ?thesis by (simp only: word_unat_eq_iff)
qed

lemma demo_entries:
  assumes "va < UTOP"
  shows "table_entry fork_mem 0x3000 va = (if PDX va = 2 then 0x5007 else 0)" "table_entry fork_mem 0x4000 va = 0"
    "entry fork_mem 0x3000 va = (if PTE_ADDR va = 0x800000 then 0x6007 else 0)" "entry fork_mem 0x4000 va = 0"
proof -
  show t: "table_entry fork_mem 0x3000 va = (if PDX va = 2 then 0x5007 else 0)" "table_entry fork_mem 0x4000 va = 0"
    using user_slot [OF assms] UVPT_slot demo_slot [OF PDX_less, of va]
    by (simp_all only: table_entry_def pde_at_def if_False split: if_split)
  have "unat (PDX 0x800000) = unat (2 :: u32)" "unat (PTX 0x800000) = unat (0 :: u32)" by (simp_all add: unat_PDX unat_PTX)
  then have "PDX 0x800000 = 2" "PTX 0x800000 = 0" by (simp_all only: word_unat_eq_iff)
  then have "PTE_ADDR va = 0x800000 \<longleftrightarrow> PDX va = 2 \<and> PTX va = 0"
    using same_pageI [of va "0x800000"] same_pageD [of va "0x800000"] demo_pages(4) by auto
  then show "entry fork_mem 0x3000 va = (if PTE_ADDR va = 0x800000 then 0x6007 else 0)" "entry fork_mem 0x4000 va = 0"
    using demo_slot(3) [OF PTX_less, of va] unfolding entry_def pte_addr_def t by (simp_all only: demo_pages split: if_split) auto
qed


lemma demo_user: "0x800000 < UTOP"
  by (simp add: UTOP_eq)

lemma demo_meta: "meta fork_mem {0x3000, 0x4000} a \<longleftrightarrow> a \<in> {0x3000, 0x4000, 0x5000}"
proof -
  have "(\<exists>va < UTOP. table_entry fork_mem 0x3000 va \<noteq> 0 \<and> PTE_ADDR (table_entry fork_mem 0x3000 va) = a) \<longleftrightarrow> a = 0x5000"
    (is "?L \<longleftrightarrow> _")
  proof
    show "?L \<Longrightarrow> a = 0x5000" using demo_entries(1) demo_pages(5) by (auto split: if_splits)
    assume "a = 0x5000"
    then show ?L
      using demo_user demo_entries(1,3) [OF demo_user] demo_pages(4,5)
      by (intro exI [of _ "0x800000"]) (auto simp: entry_def split: if_splits)
  qed
  moreover have "\<not> (\<exists>va < UTOP. table_entry fork_mem 0x4000 va \<noteq> 0 \<and> PTE_ADDR (table_entry fork_mem 0x4000 va) = a)"
    using demo_entries(2) by auto
  ultimately show ?thesis by (auto simp: meta_def)
qed

lemma demo_maps: "maps (view fork_mem {0x3000, 0x4000}) p = (if p = 6 then {(0x3000, 0x800000)} else {})"
  using demo_entries(3,4) demo_user demo_pages(4,10)
  by (auto simp: mappings_maps [symmetric] mappings_def split: if_splits)

lemma demo_uses: "uses fork_mem {0x3000, 0x4000} p = of_bool (p \<in> {3, 4, 5, 6})"
proof -
  have "PDX 0x800000 = 2"
    using demo_entries(1,3) [OF demo_user] demo_pages(4) by (auto simp: entry_def split: if_splits)
  then have "tables_at fork_mem {0x3000, 0x4000} p = (if p = 5 then {(0x3000, 2)} else {})"
    using demo_entries(1,2) demo_user demo_pages(9) unfolding tables_at_def by (auto split: if_splits)
  moreover have "{d \<in> {0x3000, 0x4000}. page_of d = p} = (if p = 3 then {0x3000} else if p = 4 then {0x4000} else {})"
    using demo_pages(7,8) by auto
  ultimately show ?thesis by (simp add: uses_def mappings_maps demo_maps)
qed

lemma demo_ok: "pages_ok fork_mem {0x3000, 0x4000} [8, 9, 10] (\<lambda>_. 0)"
proof -
  have "free_ok fork_mem [8, 9, 10]" by (auto simp: free_ok_def)
  moreover have "refs_ok fork_mem {0x3000, 0x4000} (\<lambda>_. 0)" by (simp add: refs_ok_def demo_uses)
  moreover have "spaces_ok fork_mem {0x3000, 0x4000}"
    using demo_entries demo_pages by (simp add: spaces_ok_def demo_meta)
  ultimately show ?thesis by (simp add: pages_ok_def)
qed

lemma demo_forking: "forking fork_prog 0 0x3000 0x1001 1 0x4000 {0x3000, 0x4000} [8, 9, 10] (\<lambda>_. 0) 2"
proof -
  have "ENVX 0x1001 = 1" by (simp add: ENVX_def NENV_def)
  then have "parent_child (kern fork_prog) 0 0x3000 0x1001 1 0x4000"
    by (simp add: parent_child_def fork_prog_def demo_env_def)
  moreover have "missing fork_mem 0x3000 0x4000 \<subseteq> {2}"
  proof
    fix i assume i: "i \<in> missing fork_mem 0x3000 0x4000"
    have "PDX UTOP < 957" using user_slot [OF demo_user] UVPT_slot unat_PDX [of UTOP] by (simp add: word_less_nat_alt UTOP_eq)
    then have "i < 957" using i less_trans by (auto simp: missing_def)
    then have "i < 1024" by (rule less_trans) simp
    then show "i \<in> {2}" using i demo_slot(1) [of i] \<open>i < 957\<close> by (simp add: missing_def split: if_splits)
  qed
  then have "card (missing fork_mem 0x3000 0x4000) \<le> card {2 :: u32}" by (intro card_mono) simp_all
  moreover have "self_mapped fork_mem 0x3000"
  proof -
    have "pmem fork_mem (pde_at 0x3000 UVPT) = 0x3005" using demo_slot(1) [of 957] by (simp add: pde_at_def UVPT_slot)
    then show ?thesis
      using demo_entries(1) by (simp add: self_mapped_def PTE_P_def PTE_U_def PTE_W_def)
  qed
  ultimately show ?thesis using demo_ok by (simp add: forking_def fork_prog_def)
qed

theorem fork_shares_pages_witness:
  "\<exists>s'. fork_parent SCHED_PROPORTIONAL_SHARE 0x1001 fork_prog = (Value 0x1001, s') \<and>
     env_status (envs (kern s') 1) = ENV_RUNNABLE \<and>
     view (vm (kern s')) {0x3000, 0x4000} 0x4000 0x800000 = shared_entry 0x6007 \<and>
     view (vm (kern s')) {0x3000, 0x4000} 0x3000 0x800000 = shared_entry 0x6007"
proof -
  have k: "env_pgfault_upcall (envs (kern fork_prog) 0) = 0x800000" "vm (kern fork_prog) = fork_mem" by (simp_all add: fork_prog_def)
  have th: "thisenv fork_prog = Some 0" by (simp add: fork_prog_def)
  have fits: "unat (0x800000 :: u32) + unat PGSIZE \<le> unat (UXSTACKTOP - PGSIZE)" unfolding xstack(3) by (simp add: PGSIZE_def)
  have pr: "present (entry fork_mem 0x3000 w)" if "in_range 0x800000 PGSIZE w" for w
  proof -
    have "unat w div 4096 = 0x800" using that by (simp add: in_range_def PGSIZE_def word_le_nat_alt div_nat_eqI)
    then have "page_of w = page_of 0x800000" by (simp add: page_of_div)
    then have "PTE_ADDR w = 0x800000" using page_of_eq [of w "0x800000"] demo_pages(4) by simp
    moreover have "w < UTOP" using that by (simp add: in_range_def PGSIZE_def word_less_nat_alt UTOP_eq)
    ultimately show ?thesis using demo_entries(3) [of w] by (simp add: present_def PTE_P_def PTE_U_def)
  qed
  have room: "2 * card (maps (view (vm (kern fork_prog)) {0x3000, 0x4000}) q) + 0 + 2 < 2 ^ 16" for q
    by (simp add: k demo_maps)
  have v: "view fork_mem {0x3000, 0x4000} 0x3000 0x800000 = 0x6007"
    using demo_entries(3) [OF demo_user] view_user [of "0x3000" "{0x3000, 0x4000}", OF _ demo_user] demo_pages(4) by simp
  have f: "forked 0x3000 0x4000 (page_of UTOP) (view fork_mem {0x3000, 0x4000}) d 0x800000 = shared_entry 0x6007"
    if "d \<in> {0x3000, 0x4000}" for d
    using that v by (auto simp: forked_def page_of_div UTOP_eq xstack(3) present_def copied_def PTE_P_def PTE_U_def PTE_W_def)
  obtain v p where "fork_parent SCHED_PROPORTIONAL_SHARE 0x1001 fork_prog = (Value 0x1001, fork_prog\<lparr>kern := upd_env ((kern fork_prog)\<lparr>vm := v\<rparr>) 1
        (\<lambda>x. x\<lparr>env_pgfault_upcall := 0x800000, env_status := ENV_RUNNABLE\<rparr>)\<rparr>)"
    "view v {0x3000, 0x4000} = set_page 0x4000 (UXSTACKTOP - PGSIZE) (page2pa p OR PTE_P OR PTE_W OR PTE_U)
       (forked 0x3000 0x4000 (page_of UTOP) (view fork_mem {0x3000, 0x4000}))"
    using fork_shares_pages [OF demo_forking th room _ pr [folded k(2)], of SCHED_PROPORTIONAL_SHARE, unfolded k, OF fits] by blast
  moreover have "PTE_ADDR 0x800000 \<noteq> PTE_ADDR (UXSTACKTOP - PGSIZE)" unfolding xstack(3) by (simp add: PTE_ADDR_def)
  ultimately show ?thesis
    using f by (simp add: upd_env_def set_page_def)
qed

end
