(* ===== verification/JosPgfault.thy ===== *)
theory JosPgfault
  imports JosForkSpec
begin

text \<open>
  The handler of copy-on-write faults: it gives the program a page of its own with the words of
  the shared one. And what a program can do with a mapping whose permissions the kernel does not
  check.
\<close>

section \<open>Accesses within a mapped page\<close>

lemma slot_off:
  assumes "PTE_ADDR d = d" "x < 1024"
  shows "PGOFF (d + 4 * x) = 4 * x"
proof (rule bit_word_eqI)
  fix n
  have "PGOFF w = take_bit 12 w" for w by (simp add: PGOFF_def take_bit_eq_mask mask_eq_exp_minus_1)
  moreover have "4 * x = push_bit 2 x" by (simp add: push_bit_eq_mult)
  moreover have "bit d n \<Longrightarrow> 12 \<le> n" using assms(1) by (metis PTE_ADDR_bits)
  ultimately show "bit (PGOFF (d + 4 * x)) n = bit (4 * x) n"
    using bit_less_1024 [OF assms(2), of "n - 2"] slot_bits [OF assms, of n] by (auto simp: bit_simps)
qed

lemma all_flags:
  assumes "x AND PTE_P \<noteq> 0" "x AND PTE_U \<noteq> 0" "w \<Longrightarrow> x AND PTE_W \<noteq> 0"
  shows "x AND (PTE_P OR PTE_U OR (if w then PTE_W else 0)) = PTE_P OR PTE_U OR (if w then PTE_W else 0)"
proof -
  have "x AND PTE_P = PTE_P" "x AND PTE_U = PTE_U" "w \<Longrightarrow> x AND PTE_W = PTE_W"
    using assms flag_bit [of x 0] flag_bit [of x 1] flag_bit [of x 2] unfolding flags_exp by metis+
  then have "x AND (if w then PTE_W else 0) = (if w then PTE_W else 0)" by simp
  with \<open>x AND PTE_P = PTE_P\<close> \<open>x AND PTE_U = PTE_U\<close> show ?thesis by (simp only: bit.conj_disj_distrib)
qed

lemma translate_entry:
  assumes s: "self_mapped s d" and va: "va < UTOP" "PTE_ADDR va = va" and x: "x < 1024"
    and e: "present (entry s d va)" "w \<Longrightarrow> entry s d va AND PTE_W \<noteq> 0"
  shows "user_translate w s d (va + 4 * x) = Some (PTE_ADDR (entry s d va) + 4 * x)"
proof -
  have t: "table_entry s d va \<noteq> 0" using e(1) by (auto simp: present_def entry_def)
  have tf: "table_entry s d va AND PTE_P \<noteq> 0" "table_entry s d va AND PTE_U \<noteq> 0" "table_entry s d va AND PTE_W \<noteq> 0"
    using s va(1) t both_flags unfolding self_mapped_def by blast+
  have f: "PDX (va + 4 * x) = PDX va" "PTX (va + 4 * x) = PTX va"
    using same_pageD [of "va + 4 * x" va] slot_page [OF va(2) x] va(2) by simp_all
  have "PTE_ADDR (entry s d va) OR PGOFF (va + 4 * x) = PTE_ADDR (entry s d va) + 4 * x"
    by (simp add: slot_off [OF va(2) x] slot_or x)
  moreover have "read_pte s (pde_at d (va + 4 * x)) = table_entry s d va" by (simp add: read_pte_def pde_at_def f table_entry_def)
  moreover have "read_pte s (PTE_ADDR (table_entry s d va) + 4 * PTX (va + 4 * x)) = entry s d va"
    using t by (simp add: read_pte_def f entry_def pte_addr_def)
  moreover have "entry s d va AND PTE_P \<noteq> 0" "entry s d va AND PTE_U \<noteq> 0" using e(1) by (simp_all add: present_def)
  ultimately show ?thesis
    using all_flags [OF tf(1,2), of w] all_flags [of "entry s d va" w] tf(3) e(2)
    by (simp add: user_translate_def)
qed

section \<open>Copying a page\<close>

lemma word_slot: "j < 1024 \<Longrightarrow> (of_nat j :: u32) < 1024"
  by (simp add: word_less_nat_alt unat_of_nat)

lemma copy_words_copies:
  assumes "user_dir s = Some d" "i + n \<le> 1024" "PTE_ADDR pd = pd" "PTE_ADDR ps = ps" "pd \<noteq> ps"
    and t: "\<And>v j. j < 1024 \<Longrightarrow> (\<And>a. PTE_ADDR a \<noteq> pd \<Longrightarrow> pmem v a = pmem (vm (kern s)) a) \<Longrightarrow>
      user_translate False v d (src + 4 * of_nat j) = Some (ps + 4 * of_nat j) \<and>
      user_translate True v d (dst + 4 * of_nat j) = Some (pd + 4 * of_nat j)"
  shows "\<exists>m. copy_words n (dst + 4 * of_nat i) (src + 4 * of_nat i) s =
      (Value (), s\<lparr>kern := (kern s)\<lparr>vm := (vm (kern s))\<lparr>pmem := m\<rparr>\<rparr>\<rparr>) \<and>
    (\<forall>a. PTE_ADDR a \<noteq> pd \<longrightarrow> m a = pmem (vm (kern s)) a) \<and>
    (\<forall>j < i. m (pd + 4 * of_nat j) = pmem (vm (kern s)) (pd + 4 * of_nat j)) \<and>
    (\<forall>j. i \<le> j \<and> j < i + n \<longrightarrow> m (pd + 4 * of_nat j) = pmem (vm (kern s)) (ps + 4 * of_nat j))"
  using assms(1,2) t
proof (induction n arbitrary: s i)
  case 0
  then show ?case by (intro exI [of _ "pmem (vm (kern s))"]) auto
next
  case (Suc n)
  let ?x = "pmem (vm (kern s)) (ps + 4 * of_nat i)" and ?pa = "pd + 4 * of_nat i"
  let ?s = "s\<lparr>kern := (kern s)\<lparr>vm := write_pte (vm (kern s)) ?pa ?x\<rparr>\<rparr>"
  have i: "i < 1024" using Suc.prems(2) by simp
  have page: "PTE_ADDR (pd + 4 * of_nat j) = pd" "PTE_ADDR (ps + 4 * of_nat j) = ps" if "j < 1024" for j
    using slot_page [OF assms(3) word_slot [OF that]] slot_page [OF assms(4) word_slot [OF that]] by simp_all
  have same: "PTE_ADDR a \<noteq> pd \<Longrightarrow> pmem (vm (kern ?s)) a = pmem (vm (kern s)) a" for a
    using page(1) [OF i] by (auto simp: write_pte_def)
  have ne: "pd + 4 * of_nat j \<noteq> ?pa" if "j < 1024" "j \<noteq> i" for j
    using slot_inj [OF assms(3) word_slot [OF that(1)] assms(3) word_slot [OF i]] that i
    by (simp add: word_unat_eq_iff unat_of_nat)
  have step: "copy_words (Suc n) (dst + 4 * of_nat i) (src + 4 * of_nat i) s =
    copy_words n (dst + 4 * of_nat (Suc i)) (src + 4 * of_nat (Suc i)) ?s"
    using Suc.prems(1) Suc.prems(3) [OF i, of "vm (kern s)"]
    by (simp add: user_load_def user_store_def algebra_simps)
  obtain m where m: "copy_words n (dst + 4 * of_nat (Suc i)) (src + 4 * of_nat (Suc i)) ?s =
      (Value (), ?s\<lparr>kern := (kern ?s)\<lparr>vm := (vm (kern ?s))\<lparr>pmem := m\<rparr>\<rparr>\<rparr>)"
    "\<And>a. PTE_ADDR a \<noteq> pd \<Longrightarrow> m a = pmem (vm (kern ?s)) a"
    "\<And>j. j < Suc i \<Longrightarrow> m (pd + 4 * of_nat j) = pmem (vm (kern ?s)) (pd + 4 * of_nat j)"
    "\<And>j. Suc i \<le> j \<Longrightarrow> j < Suc i + n \<Longrightarrow> m (pd + 4 * of_nat j) = pmem (vm (kern ?s)) (ps + 4 * of_nat j)"
  proof -
    have "user_dir ?s = Some d" using Suc.prems(1) by simp
    moreover have "Suc i + n \<le> 1024" using Suc.prems(2) by simp
    moreover have "user_translate False v d (src + 4 * of_nat j) = Some (ps + 4 * of_nat j) \<and>
      user_translate True v d (dst + 4 * of_nat j) = Some (pd + 4 * of_nat j)"
      if "j < 1024" "\<And>a. PTE_ADDR a \<noteq> pd \<Longrightarrow> pmem v a = pmem (vm (kern ?s)) a" for v j
      using Suc.prems(3) [OF that(1), of v] that(2) same by simp
    ultimately show ?thesis using Suc.IH [of ?s "Suc i"] that by blast
  qed
  have "m (pd + 4 * of_nat j) = pmem (vm (kern s)) (ps + 4 * of_nat j)" if "i \<le> j" "j < i + Suc n" for j
  proof (cases "j = i")
    case True
    then show ?thesis using m(3) [of i] by (simp add: write_pte_def)
  next
    case False
    then show ?thesis using m(4) [of j] that same [of "ps + 4 * of_nat j"] page(2) [of j] Suc.prems(2) assms(5) by simp
  qed
  moreover have "m (pd + 4 * of_nat j) = pmem (vm (kern s)) (pd + 4 * of_nat j)" if "j < i" for j
    using m(3) [of j] ne [of j] that i by (simp add: write_pte_def)
  ultimately show ?case
    unfolding step m(1) using m(2) same by (intro exI [of _ m]) (simp add: write_pte_def)
qed


section \<open>The handler\<close>

lemma PFTEMP_props: "PFTEMP < UTOP" "PTE_ADDR PFTEMP = PFTEMP"
  by (simp_all add: PFTEMP_def UTEMP_def UTOP_eq PTSIZE_def PGSIZE_def NPTENTRIES_def PTE_ADDR_def)

lemma ROUNDDOWN_page: "ROUNDDOWN w PGSIZE = PTE_ADDR w"
proof -
  have "unat (ROUNDDOWN w PGSIZE) = unat (PTE_ADDR w)" by (simp add: unat_ROUNDDOWN unat_ADDR)
  then show ?thesis by (simp only: word_unat_eq_iff)
qed

lemma page_number: "push_bit PGSHIFT (drop_bit PGSHIFT w) = PTE_ADDR w"
  by (rule bit_word_eqI) (auto simp: PTE_ADDR_bits bit_simps PGSHIFT_def dest: bit_imp_le_length)

lemma data_flags: "present (page2pa p OR PTE_P OR PTE_W OR PTE_U)" "(page2pa p OR PTE_P OR PTE_W OR PTE_U) AND PTE_W \<noteq> 0"
  using both_flags [OF new_table(2)] new_table(3) by (simp_all add: present_def)

lemma set_page_entry:
  assumes "view v ds = set_page d w x (view s ds)" "d' \<in> ds" "va < UTOP"
  shows "entry v d' va = (if d' = d \<and> PTE_ADDR va = PTE_ADDR w then x else entry s d' va)"
  using view_user [OF assms(2,3), of v] view_user [OF assms(2,3), of s] unfolding assms(1) by (auto simp: set_page_def split: if_splits)

text \<open>Writes to a data page are invisible to the page tables.\<close>

lemma data_write:
  assumes ok: "pages_ok s ds fl ext" and v: "v = s\<lparr>pmem := m\<rparr>" "\<And>a. PTE_ADDR a \<noteq> q \<Longrightarrow> m a = pmem s a" "\<not> meta s ds q"
  shows "pages_ok v ds fl ext" "view v ds = view s ds" "meta v ds = meta s ds" "d \<in> ds \<Longrightarrow> table_entry v d = table_entry s d"
proof -
  have "m a = pmem s a" if "meta s ds (PTE_ADDR a)" for a using v(2,3) that by metis
  then have "\<forall>a. meta s ds (PTE_ADDR a) \<longrightarrow> pmem v a = pmem s a" by (simp add: v(1))
  note fr = frame [OF pages_okD(3) [OF ok] this]
  show "view v ds = view s ds" by (rule view_frame) (rule fr(2))
  show "meta v ds = meta s ds" by (rule fr(3))
  show "d \<in> ds \<Longrightarrow> table_entry v d = table_entry s d" using fr(1) by (intro ext)
  have "npages v = npages s" by (simp add: v(1))
  from fr(5) [OF this] show "pages_ok v ds fl ext"
    using pages_okD(1,2) [OF ok] fr(4) by (simp add: pages_ok_def free_ok_def refs_ok_def v(1))
qed

lemma self_mapped_cong:
  assumes "self_mapped s d" "d \<in> ds" "PTE_ADDR d = d" "\<And>a. PTE_ADDR a \<in> ds \<Longrightarrow> pmem v a = pmem s a"
  shows "self_mapped v d"
proof -
  have "pmem v (pde_at d va) = pmem s (pde_at d va)" for va using assms(2-4) by (simp add: pde_page)
  then show ?thesis using assms(1) by (simp add: self_mapped_def table_entry_def)
qed

text \<open>The new page is allocated at \<open>PFTEMP\<close> and gets the words of the old one.\<close>

lemma pgfault_copy:
  assumes c: "curenv (kern s) = Some c" "env_pgdir (envs (kern s) c) = Some d" "d \<in> ds"
    and ok: "pages_ok (vm (kern s)) ds fl ext" "2 \<le> length fl" and self: "self_mapped (vm (kern s)) d"
    and va: "va < UTOP" "PTE_ADDR va = va" "va \<noteq> PFTEMP" and e: "present (entry (vm (kern s)) d va)"
  obtains v1 v p fl' where "lib_page_alloc pol 0 PFTEMP (PTE_P OR PTE_U OR PTE_W) s = (Value 0, s\<lparr>kern := (kern s)\<lparr>vm := v1\<rparr>\<rparr>)"
    "copy_words 1024 PFTEMP va (s\<lparr>kern := (kern s)\<lparr>vm := v1\<rparr>\<rparr>) = (Value (), s\<lparr>kern := (kern s)\<lparr>vm := v\<rparr>\<rparr>)"
    "pages_ok v ds fl' ext" "maps (view (vm (kern s)) ds) p = {}" "ext p = 0" "p < 2 ^ 20" "\<not> meta v ds (page2pa p)"
    "view v ds = set_page d PFTEMP (page2pa p OR PTE_P OR PTE_W OR PTE_U) (view (vm (kern s)) ds)"
    "\<And>j. j < 1024 \<Longrightarrow> pmem v (page2pa p + 4 * of_nat j) = pmem (vm (kern s)) (PTE_ADDR (entry (vm (kern s)) d va) + 4 * of_nat j)"
    "\<And>a. \<not> meta v ds (PTE_ADDR a) \<Longrightarrow> PTE_ADDR a \<noteq> page2pa p \<Longrightarrow> pmem v a = pmem (vm (kern s)) a"
    "self_mapped v d"
proof -
  let ?k = "kern s" and ?e = "entry (vm (kern s)) d va"
  have d: "PTE_ADDR d = d" by (rule spaces_okD(1) [OF pages_okD(3) [OF ok(1)] c(3)])
  have env0: "envid2env 0 True ?k = (Ret (0, Some c), ?k)" using c(1) by (simp add: envid2env_def)
  obtain p q rest where fl: "fl = p # q # rest" using ok(2) by (cases fl rule: remdups_adj.cases) auto
  have pw: "PTE_P OR PTE_U OR PTE_W = PTE_U OR PTE_P OR PTE_W" by (simp add: or.left_commute)
  obtain s1 v1 fl1 where v1: "env_page_alloc c PFTEMP ((PTE_U OR PTE_P OR PTE_W) OR PTE_U OR PTE_P) ?k = (Ret 0, ?k\<lparr>vm := v1\<rparr>)"
    "map_step s1 v1 ds (q # rest) fl1 ext d PFTEMP (page2pa p OR ((PTE_U OR PTE_P OR PTE_W) OR PTE_U OR PTE_P) OR PTE_P)"
    "pages_ok s1 ds (q # rest) ext" "view s1 ds = view (vm ?k) ds" "meta s1 ds = meta (vm ?k) ds"
    "\<And>a. PTE_ADDR a = page2pa p \<Longrightarrow> pmem s1 a = 0" "\<And>a. PTE_ADDR a \<noteq> page2pa p \<Longrightarrow> pmem s1 a = pmem (vm ?k) a"
    "\<not> meta v1 ds (page2pa p)" "maps (view (vm ?k) ds) p = {}" "ext p = 0" "p < 2 ^ 20"
    by (rule env_page_alloc_step [OF ok(1) [unfolded fl] c(2,3) PFTEMP_props(1) data_perm]) blast+
  have m1: "pages_ok v1 ds fl1 ext" "view v1 ds = set_page d PFTEMP (page2pa p OR PTE_P OR PTE_W OR PTE_U) (view (vm ?k) ds)"
    "\<And>a. \<not> meta v1 ds (PTE_ADDR a) \<Longrightarrow> pmem v1 a = pmem s1 a"
    using v1(2) unfolding map_step_def v1(4) full_entry by blast+
  note keeps = map_step_keeps [OF v1(2,3) c(3) PFTEMP_props(1)]
  have alloc: "lib_page_alloc pol 0 PFTEMP (PTE_P OR PTE_U OR PTE_W) s = (Value (of_int 0), s\<lparr>kern := ?k\<lparr>vm := v1\<rparr>\<rparr>)"
    by (rule lib_page_alloc_run [OF good_va [OF PFTEMP_props] env0]) (use v1(1) pw in simp_all)
  have pm: "\<not> meta (vm ?k) ds (page2pa p)" using keeps(3) v1(5,8) by metis
  have pds: "page2pa p \<notin> ds" using pm by (auto simp: meta_def)
  then have "self_mapped s1 d" using v1(7) by (intro self_mapped_cong [OF self c(3) d]) metis
  then have self1: "self_mapped v1 d" by (rule keeps(1) [OF c(3)])
  have ent: "entry v1 d va = ?e" "entry v1 d PFTEMP = page2pa p OR PTE_P OR PTE_W OR PTE_U"
    using set_page_entry [OF m1(2) c(3)] va PFTEMP_props by simp_all
  have nz: "?e \<noteq> 0" using e by (auto simp: present_def)
  have np: "page_of ?e \<noteq> p"
  proof
    assume "page_of ?e = p"
    then have "(d, va) \<in> maps (view (vm ?k) ds) p"
      using nz va view_user [OF c(3) va(1), of "vm ?k"] by (simp add: maps_def)
    then show False using v1(9) by simp
  qed
  then have ps: "page2pa p \<noteq> PTE_ADDR ?e" using page_of_page2pa [OF v1(11)] page_of_ADDR by metis
  let ?s1 = "s\<lparr>kern := ?k\<lparr>vm := v1\<rparr>\<rparr>"
  have tr: "user_translate False v d (va + 4 * of_nat j) = Some (PTE_ADDR ?e + 4 * of_nat j) \<and>
      user_translate True v d (PFTEMP + 4 * of_nat j) = Some (page2pa p + 4 * of_nat j)"
    if j: "j < 1024" and v: "\<And>a. PTE_ADDR a \<noteq> page2pa p \<Longrightarrow> pmem v a = pmem (vm (kern ?s1)) a" for v j
  proof -
    have vv: "\<And>a. PTE_ADDR a \<noteq> page2pa p \<Longrightarrow> pmem v a = pmem v1 a" using v by simp
    have "meta v1 ds (PTE_ADDR a) \<longrightarrow> pmem v a = pmem v1 a" for a using vv v1(8) by metis
    then have fr: "entry v d w = entry v1 d w" if "w < UTOP" for w using frame(2) [OF pages_okD(3) [OF m1(1)] _ c(3) that, of v] by simp
    have "self_mapped v d"
      using vv pds by (intro self_mapped_cong [OF self1 c(3) d]) metis
    then show ?thesis
      using translate_entry [of v d va "of_nat j" False] translate_entry [of v d PFTEMP "of_nat j" True]
        va PFTEMP_props e ent fr [OF va(1)] fr [OF PFTEMP_props(1)] word_slot [OF j] data_flags [of p] page_of_data [OF v1(11)]
        page2pa_page_of [of "page2pa p OR PTE_P OR PTE_W OR PTE_U"] by simp
  qed
  have "user_dir ?s1 = Some d" using c by (simp add: user_dir_def)
  then obtain m where m: "copy_words 1024 PFTEMP va ?s1 = (Value (), ?s1\<lparr>kern := (kern ?s1)\<lparr>vm := v1\<lparr>pmem := m\<rparr>\<rparr>\<rparr>)"
    "\<And>a. PTE_ADDR a \<noteq> page2pa p \<Longrightarrow> m a = pmem v1 a"
    "\<And>j. j < 1024 \<Longrightarrow> m (page2pa p + 4 * of_nat j) = pmem v1 (PTE_ADDR ?e + 4 * of_nat j)"
    using copy_words_copies [of ?s1 d 0 1024 "page2pa p" "PTE_ADDR ?e" va PFTEMP] ps tr by auto
  note dw = data_write [OF m1(1) refl m(2) v1(8)]
  have old: "pmem v1 (PTE_ADDR ?e + 4 * of_nat j) = pmem (vm ?k) (PTE_ADDR ?e + 4 * of_nat j)" if "j < 1024" for j
  proof -
    have pg: "PTE_ADDR (PTE_ADDR ?e + 4 * of_nat j) = PTE_ADDR ?e" using slot_page [of "PTE_ADDR ?e" "of_nat j"] word_slot [OF that] by simp
    have "\<not> meta v1 ds (PTE_ADDR ?e)" using spaces_okD(7) [OF pages_okD(3) [OF m1(1)] c(3) va(1)] nz ent(1) by simp
    then show ?thesis using m1(3) v1(7) ps pg by simp
  qed
  show ?thesis
  proof (rule that)
    show "copy_words 1024 PFTEMP va ?s1 = (Value (), s\<lparr>kern := ?k\<lparr>vm := v1\<lparr>pmem := m\<rparr>\<rparr>\<rparr>)" using m(1) by simp
    show "lib_page_alloc pol 0 PFTEMP (PTE_P OR PTE_U OR PTE_W) s = (Value 0, ?s1)" using alloc by simp
    show "self_mapped (v1\<lparr>pmem := m\<rparr>) d"
    proof (rule self_mapped_cong [OF self1 c(3) d])
      fix a assume "PTE_ADDR a \<in> ds"
      then have "PTE_ADDR a \<noteq> page2pa p" using pds by metis
      then show "pmem (v1\<lparr>pmem := m\<rparr>) a = pmem v1 a" using m(2) by simp
    qed
    show "pmem (v1\<lparr>pmem := m\<rparr>) a = pmem (vm ?k) a"
      if "\<not> meta (v1\<lparr>pmem := m\<rparr>) ds (PTE_ADDR a)" "PTE_ADDR a \<noteq> page2pa p" for a
      using that m(2) [OF that(2)] m1(3) [of a] v1(7) [OF that(2)] dw(3) by simp
  qed (use v1(8-11) dw m(3) m1(2) old in simp_all)
qed


text \<open>The new page takes the place of the old one and leaves \<open>PFTEMP\<close>.\<close>

lemma pgfault_move:
  assumes c: "curenv (kern s) = Some c" "env_pgdir (envs (kern s) c) = Some d" "d \<in> ds"
    and ok: "pages_ok (vm (kern s)) ds fl ext"
    and va: "va < UTOP" "PTE_ADDR va = va" "va \<noteq> PFTEMP" "entry (vm (kern s)) d va \<noteq> 0"
    and p: "p < 2 ^ 20" "ext p = 0" "maps (view (vm (kern s)) ds) p = {(d, PFTEMP)}"
    and t: "entry (vm (kern s)) d PFTEMP = page2pa p OR PTE_P OR PTE_W OR PTE_U"
  obtains v1 v fl' where "lib_page_map pol 0 PFTEMP 0 va (PTE_P OR PTE_U OR PTE_W) s = (Value 0, s\<lparr>kern := (kern s)\<lparr>vm := v1\<rparr>\<rparr>)"
    "lib_page_unmap pol 0 PFTEMP (s\<lparr>kern := (kern s)\<lparr>vm := v1\<rparr>\<rparr>) = (Value 0, s\<lparr>kern := (kern s)\<lparr>vm := v\<rparr>\<rparr>)"
    "pages_ok v ds fl' ext"
    "view v ds = set_page d PFTEMP 0 (set_page d va (page2pa p OR PTE_P OR PTE_W OR PTE_U) (view (vm (kern s)) ds))"
    "\<And>a. \<not> meta v ds (PTE_ADDR a) \<Longrightarrow> pmem v a = pmem (vm (kern s)) a"
    "\<And>a. meta (vm (kern s)) ds a \<Longrightarrow> meta v ds a" "self_mapped (vm (kern s)) d \<Longrightarrow> self_mapped v d"
proof -
  let ?k = "kern s" and ?x = "page2pa p OR PTE_P OR PTE_W OR PTE_U" and ?perm = "PTE_P OR PTE_U OR (PTE_P OR PTE_U OR PTE_W)"
  have d: "PTE_ADDR d = d" by (rule spaces_okD(1) [OF pages_okD(3) [OF ok] c(3)])
  have env0: "envid2env 0 True ?k = (Ret (0, Some c), ?k)" using c(1) by (simp add: envid2env_def)
  have x: "?x \<noteq> 0" "page_of ?x = p" "?x AND PTE_W \<noteq> 0" using new_table(1,3) page_of_data [OF p(1)] by simp_all
  have px: "PTE_ADDR ?x = page2pa p" using page2pa_page_of [of ?x] x(2) by simp
  have tv: "table_entry (vm ?k) d va \<noteq> 0" using va(4) by (auto simp: entry_def)
  have perm: "?perm < 4096" by (simp add: PTE_P_def PTE_U_def PTE_W_def)
  have v1x: "PTE_ADDR ?x OR ?perm OR PTE_P = ?x"
    unfolding px by (rule bit_word_eqI) (auto simp: bit_simps)
  have room: "card (maps (view (vm ?k) ds) (page_of ?x)) + ext (page_of ?x) + 1 < 2 ^ 16" using p(2,3) x(2) by simp
  obtain v1 fl1 where v1: "env_page_map c PFTEMP c va ?perm ?k = (Ret 0, ?k\<lparr>vm := v1\<rparr>)"
    "map_step (vm ?k) v1 ds fl fl1 ext d va ?x"
    using env_page_map_step [OF ok c(2,3,2,3) PFTEMP_props(1) va(1) _ _ perm, unfolded t v1x] x(1,3) room tv by blast
  have m1: "pages_ok v1 ds fl1 ext" "view v1 ds = set_page d va ?x (view (vm ?k) ds)"
    "\<And>a. \<not> meta v1 ds (PTE_ADDR a) \<Longrightarrow> pmem v1 a = pmem (vm ?k) a"
    using v1(2) unfolding map_step_def by blast+
  note keeps = map_step_keeps [OF v1(2) ok c(3) va(1)]
  have "lib_page_map pol 0 PFTEMP 0 va (PTE_P OR PTE_U OR PTE_W) s = (Value (of_int 0), s\<lparr>kern := ?k\<lparr>vm := v1\<rparr>\<rparr>)"
    by (rule lib_page_map_run [OF good_va [OF PFTEMP_props] good_va [OF va(1,2)] env0 env0 v1(1)]) simp_all
  moreover have e1: "entry v1 d PFTEMP = ?x"
    using set_page_entry [OF m1(2) c(3) PFTEMP_props(1)] t by simp
  obtain v where v: "page_remove (cur_pgdir (?k\<lparr>vm := v1\<rparr>)) d PFTEMP v1 = Some v"
    "pages_ok v ds (if pp_ref (pages v1 (page_of (entry v1 d PFTEMP))) = 1 then page_of (entry v1 d PFTEMP) # fl1 else fl1) ext"
    "view v ds = set_page d PFTEMP 0 (view v1 ds)" "meta v ds = meta v1 ds" "pmem v = (pmem v1)(pte_addr v1 d PFTEMP := 0)"
    by (rule page_remove_ok [OF m1(1) c(3) PFTEMP_props(1), of "cur_pgdir (?k\<lparr>vm := v1\<rparr>)"]) (use e1 x(1) in auto)
  let ?s1 = "s\<lparr>kern := ?k\<lparr>vm := v1\<rparr>\<rparr>"
  have "lib_page_unmap pol 0 PFTEMP ?s1 = (Value 0, ?s1\<lparr>kern := (kern ?s1)\<lparr>vm := v\<rparr>\<rparr>)"
    by (rule lib_page_unmap_run [OF good_va [OF PFTEMP_props], where a = c and d = d])
      (use env0 c v(1) in \<open>simp_all add: envid2env_def\<close>)
  moreover have pa: "meta v1 ds (PTE_ADDR (pte_addr v1 d PFTEMP))" "PTE_ADDR (pte_addr v1 d PFTEMP) \<notin> ds"
  proof -
    have t1: "table_entry v1 d PFTEMP \<noteq> 0" using e1 x(1) by (auto simp: entry_def)
    then show "meta v1 ds (PTE_ADDR (pte_addr v1 d PFTEMP))" using c(3) PFTEMP_props(1) by (auto simp: meta_def pte_page)
    show "PTE_ADDR (pte_addr v1 d PFTEMP) \<notin> ds"
      using spaces_okD(4) [OF pages_okD(3) [OF m1(1)] c(3) PFTEMP_props(1) t1] by (simp add: pte_page)
  qed
  moreover have "pmem v a = pmem (vm ?k) a" if "\<not> meta v ds (PTE_ADDR a)" for a
    using that pa(1) m1(3) [of a] v(4,5) by auto
  moreover have "self_mapped v d" if "self_mapped (vm ?k) d"
    by (rule self_mapped_cong [OF keeps(1) [OF c(3) that] c(3) d]) (use pa(2) v(5) in auto)
  moreover have "meta v ds a" if "meta (vm ?k) ds a" for a using keeps(3) [OF that] v(4) by simp
  ultimately show ?thesis using that v(2,3) m1(2) by simp
qed

lemma set_page_back:
  assumes "PTE_ADDR t \<noteq> PTE_ADDR va" "\<And>w. PTE_ADDR w = PTE_ADDR t \<Longrightarrow> f d w = 0"
  shows "set_page d t 0 (set_page d va x (set_page d t y f)) = set_page d va x f"
  using assms by (auto simp: set_page_def fun_eq_iff)

text \<open>
  C8. The handler gives the program its own copy of the page it wrote to: whenever two pages are free
  and nothing is mapped at \<open>PFTEMP\<close>, for a fault at any address of a present page it returns
  normally, and then the page of the address is mapped writable to a page that is mapped
  nowhere else and holds the same words as the page that was shared before; nothing else in
  any address space has changed, \<open>PFTEMP\<close> is free again, no other data page has changed, all
  counts agree, and the write that faulted is allowed.
\<close>

theorem pgfault_copies:
  assumes "curenv (kern s) = Some c" "env_pgdir (envs (kern s) c) = Some d" "d \<in> ds"
    "pages_ok (vm (kern s)) ds fl ext" "2 \<le> length fl" "self_mapped (vm (kern s)) d"
    "fault_va < UTOP" "PTE_ADDR fault_va \<noteq> PFTEMP" "entry (vm (kern s)) d PFTEMP = 0"
    "present (entry (vm (kern s)) d fault_va)"
  shows "\<exists>v p fl'. pgfault pol fault_va e s = (Value (), s\<lparr>kern := (kern s)\<lparr>vm := v\<rparr>\<rparr>) \<and> pages_ok v ds fl' ext \<and>
     view v ds = set_page d fault_va (page2pa p OR PTE_P OR PTE_W OR PTE_U) (view (vm (kern s)) ds) \<and>
     maps (view v ds) p = {(d, PTE_ADDR fault_va)} \<and> user_translate True v d (PTE_ADDR fault_va) = Some (page2pa p) \<and>
     (\<forall>j < 1024. pmem v (page2pa p + 4 * of_nat j) = pmem (vm (kern s)) (PTE_ADDR (entry (vm (kern s)) d fault_va) + 4 * of_nat j)) \<and>
     (\<forall>a. meta v ds (PTE_ADDR a) \<or> PTE_ADDR a = page2pa p \<or> pmem v a = pmem (vm (kern s)) a)"
proof -
  let ?va = "PTE_ADDR fault_va" and ?pte = "entry (vm (kern s)) d fault_va"
  have va: "?va < UTOP" "PTE_ADDR ?va = ?va" "entry (vm (kern s)) d ?va = ?pte" using ADDR_user [OF assms(7)] by simp_all
  have d: "PTE_ADDR d = d" by (rule spaces_okD(1) [OF pages_okD(3) [OF assms(4)] assms(3)])
  have ud: "user_dir s = Some d" using assms(1,2) by (simp add: user_dir_def)
  have "unat (drop_bit PGSHIFT fault_va) = unat fault_va div 4096" by (simp add: drop_bit_eq_div unat_div PGSHIFT_def)
  then have pn: "unat (drop_bit PGSHIFT fault_va) < 0xEEC00" using assms(7) by (simp add: word_less_nat_alt UTOP_eq)
  have te: "table_entry (vm (kern s)) d ?va \<noteq> 0" using assms(10) va(3) by (auto simp: present_def entry_def)
  have uv: "uvpt (drop_bit PGSHIFT fault_va) s = (Value ?pte, s)"
    using uvpt_read [OF ud assms(6) d pn] te by (simp add: page_number)
  have chk: "(e AND FEC_WR) AND (if x then 1 else 0) = 0" for x
    by (simp add: FEC_WR_def and.assoc)
  obtain v1 v2 p fl2 where c1: "lib_page_alloc pol 0 PFTEMP (PTE_P OR PTE_U OR PTE_W) s = (Value 0, s\<lparr>kern := (kern s)\<lparr>vm := v1\<rparr>\<rparr>)"
    "copy_words 1024 PFTEMP ?va (s\<lparr>kern := (kern s)\<lparr>vm := v1\<rparr>\<rparr>) = (Value (), s\<lparr>kern := (kern s)\<lparr>vm := v2\<rparr>\<rparr>)"
    "pages_ok v2 ds fl2 ext" "maps (view (vm (kern s)) ds) p = {}" "ext p = 0" "p < 2 ^ 20" "\<not> meta v2 ds (page2pa p)"
    "view v2 ds = set_page d PFTEMP (page2pa p OR PTE_P OR PTE_W OR PTE_U) (view (vm (kern s)) ds)"
    "\<And>j. j < 1024 \<Longrightarrow> pmem v2 (page2pa p + 4 * of_nat j) = pmem (vm (kern s)) (PTE_ADDR ?pte + 4 * of_nat j)"
    "\<And>a. \<not> meta v2 ds (PTE_ADDR a) \<Longrightarrow> PTE_ADDR a \<noteq> page2pa p \<Longrightarrow> pmem v2 a = pmem (vm (kern s)) a"
    "self_mapped v2 d"
    by (rule pgfault_copy [OF assms(1-6) va(1,2) assms(8), of pol, unfolded va(3), OF assms(10)]) (assumption | rule that)+
  let ?x = "page2pa p OR PTE_P OR PTE_W OR PTE_U"
  let ?s2 = "s\<lparr>kern := (kern s)\<lparr>vm := v2\<rparr>\<rparr>"
  have e2: "entry v2 d PFTEMP = ?x" "entry v2 d ?va = ?pte"
    using set_page_entry [OF c1(8) assms(3)] PFTEMP_props va assms(7,8) by simp_all
  have one: "maps (view v2 ds) p = {(d, PFTEMP)}"
    unfolding c1(8) using maps_fresh [OF c1(4) page_of_data [OF c1(6)] new_table(1) PFTEMP_props(1), of d] PFTEMP_props(2) by simp
  have nz: "entry v2 d ?va \<noteq> 0" using e2(2) assms(10) by (auto simp: present_def)
  have S2: "curenv (kern ?s2) = Some c" "env_pgdir (envs (kern ?s2) c) = Some d" "pages_ok (vm (kern ?s2)) ds fl2 ext"
    "entry (vm (kern ?s2)) d ?va \<noteq> 0" "maps (view (vm (kern ?s2)) ds) p = {(d, PFTEMP)}" "entry (vm (kern ?s2)) d PFTEMP = ?x"
    using assms(1,2) c1(3) nz one e2(1) by simp_all
  obtain v3 v fl' where c2: "lib_page_map pol 0 PFTEMP 0 ?va (PTE_P OR PTE_U OR PTE_W) ?s2 = (Value 0, ?s2\<lparr>kern := (kern ?s2)\<lparr>vm := v3\<rparr>\<rparr>)"
    "lib_page_unmap pol 0 PFTEMP (?s2\<lparr>kern := (kern ?s2)\<lparr>vm := v3\<rparr>\<rparr>) = (Value 0, ?s2\<lparr>kern := (kern ?s2)\<lparr>vm := v\<rparr>\<rparr>)"
    "pages_ok v ds fl' ext" "view v ds = set_page d PFTEMP 0 (set_page d ?va ?x (view (vm (kern ?s2)) ds))"
    "\<And>a. \<not> meta v ds (PTE_ADDR a) \<Longrightarrow> pmem v a = pmem (vm (kern ?s2)) a"
    "\<And>a. meta (vm (kern ?s2)) ds a \<Longrightarrow> meta v ds a" "self_mapped (vm (kern ?s2)) d \<Longrightarrow> self_mapped v d"
    by (rule pgfault_move [OF S2(1,2) assms(3) S2(3) va(1,2) assms(8) S2(4) c1(6,5) S2(5,6)]) blast
  have run: "pgfault pol fault_va e s = (Value (), s\<lparr>kern := (kern s)\<lparr>vm := v\<rparr>\<rparr>)"
    unfolding pgfault_def uv bind_user_simps chk ROUNDDOWN_page Let_def c1(1,2) or_panic_simps using c2(1,2) by simp
  have view: "view v ds = set_page d fault_va ?x (view (vm (kern s)) ds)"
  proof -
    have "view (vm (kern s)) ds d w = 0" if "PTE_ADDR w = PTE_ADDR PFTEMP" for w
      using assms(9) pte_entry_cong [OF that, of "vm (kern s)" d] by (simp add: view_def)
    moreover have "PTE_ADDR PFTEMP \<noteq> PTE_ADDR ?va" using assms(8) PFTEMP_props(2) by auto
    ultimately have "view v ds = set_page d ?va ?x (view (vm (kern s)) ds)"
      using c2(4) c1(8) by (simp add: set_page_back)
    then show ?thesis by (simp add: set_page_def)
  qed
  have m: "maps (view v ds) p = {(d, ?va)}"
    unfolding view by (rule maps_fresh [OF c1(4) page_of_data [OF c1(6)] new_table(1) assms(7)])
  have ev: "entry v d ?va = ?x" using set_page_entry [OF view assms(3) va(1)] by simp
  have nm: "\<not> meta v ds (page2pa p)"
    using spaces_okD(7) [OF pages_okD(3) [OF c2(3)] assms(3) va(1)] ev new_table(1) page2pa_page_of [of ?x] page_of_data [OF c1(6)] by simp
  have tr: "user_translate True v d (?va + 4 * 0) = Some (PTE_ADDR ?x + 4 * 0)"
    using translate_entry [of v d ?va 0 True] c2(7) c1(11) va(1,2) data_flags [of p] ev by simp
  have px: "PTE_ADDR ?x = page2pa p" using page2pa_page_of [of ?x] page_of_data [OF c1(6)] by simp
  have words: "pmem v (page2pa p + 4 * of_nat j) = pmem (vm (kern s)) (PTE_ADDR ?pte + 4 * of_nat j)" if "j < 1024" for j
    using c2(5) [of "page2pa p + 4 * of_nat j"] slot_page [OF _ word_slot [OF that], of "page2pa p"] nm c1(9) [OF that] by simp
  have other: "meta v ds (PTE_ADDR a) \<or> PTE_ADDR a = page2pa p \<or> pmem v a = pmem (vm (kern s)) a" for a
    using c2(5,6) c1(10) by fastforce
  show ?thesis
    using run c2(3) view m tr px words other by (intro exI [of _ v] exI [of _ p] exI [of _ fl']) simp
qed


theorem pgfault_copies_witness:
  "\<exists>v p. pgfault SCHED_PROPORTIONAL_SHARE 0x800004 FEC_WR fork_prog = (Value (), fork_prog\<lparr>kern := (kern fork_prog)\<lparr>vm := v\<rparr>\<rparr>) \<and>
     maps (view v {0x3000, 0x4000}) p = {(0x3000, 0x800000)} \<and> user_translate True v 0x3000 0x800000 = Some (page2pa p)"
proof -
  have k: "vm (kern fork_prog) = fork_mem" "curenv (kern fork_prog) = Some 0" "env_pgdir (envs (kern fork_prog) 0) = Some 0x3000"
    by (simp_all add: fork_prog_def)
  note F = forkingD [OF demo_forking, unfolded k(1)]
  have a: "PTE_ADDR 0x800004 = 0x800000" "0x800004 < UTOP" "PFTEMP = 0x7FF000" "PTE_ADDR 0x7FF000 = 0x7FF000" "0x7FF000 < UTOP"
    by (simp_all add: PTE_ADDR_def UTOP_eq PFTEMP_def UTEMP_def PTSIZE_def PGSIZE_def NPTENTRIES_def)
  have e: "entry fork_mem 0x3000 PFTEMP = 0" "present (entry fork_mem 0x3000 0x800004)"
    unfolding a(3) using demo_entries(3) [OF a(5)] demo_entries(3) [OF a(2)] a(1,4) by (simp_all add: present_def PTE_P_def PTE_U_def)
  have ne: "PTE_ADDR 0x800004 \<noteq> PFTEMP" "2 \<le> length [8, 9, 10 :: nat]" unfolding a(1,3) by simp_all
  show ?thesis
    using pgfault_copies [OF k(2,3) F(2), unfolded k(1), OF F(4) ne(2) F(5) a(2) ne(1) e, of SCHED_PROPORTIONAL_SHARE FEC_WR, unfolded a(1)]
    by blast
qed


section \<open>Permissions that are not checked\<close>

lemma page_insert_unmapped:
  assumes ok: "pages_ok s ds fl ext" and d: "d \<in> ds" "va < UTOP" "table_entry s d va \<noteq> 0" "entry s d va = 0"
  shows "page_insert cur d pp va perm s =
    Some (0, write_pte (upd_page s pp (\<lambda>p. p\<lparr>pp_ref := pp_ref p + 1\<rparr>)) (pte_addr s d va) (page2pa pp OR perm OR PTE_P))"
proof -
  let ?s1 = "upd_page s pp (\<lambda>p. p\<lparr>pp_ref := pp_ref p + 1\<rparr>)"
  note sp = pages_okD(3) [OF ok]
  have "pgdir_walk d va True s = Some (Some (pte_addr s d va), s)"
    using spaces_okD(3) [OF sp d(1,2,3)] d(3)
    by (simp add: pgdir_walk_def Let_def read_pte_def table_entry_def [symmetric] pte_addr_def KADDR_page)
  moreover have "page_remove cur d va ?s1 = Some ?s1"
    by (rule page_remove_none [OF _ d(1,2)]) (use sp same_mem(2,6) [of ?s1 s] d(4) in simp_all)
  ultimately show ?thesis by (simp add: page_insert_def)
qed

lemma entry_at:
  "table_entry v d va = table_entry s d va \<Longrightarrow> table_entry s d va \<noteq> 0 \<Longrightarrow> pmem v (pte_addr s d va) = x \<Longrightarrow> entry v d va = x"
  by (simp add: entry_def pte_addr_def)

text \<open>
  C40. \<open>sys_page_map\<close> does not check \<open>perm\<close> against \<open>PTE_SYSCALL\<close>: a program that can write to one of its
  pages gets, with a physical address in \<open>perm\<close>, a writable mapping of that address wherever it
  has a page table and nothing mapped yet. The call returns 0 for every page frame whose number has all
  bits of the number of the program's page, whatever the frame holds and whoever owns it.
\<close>

theorem page_map_forges_address:
  assumes "curenv k = Some c" "env_pgdir (envs k c) = Some d" "d \<in> ds" "pages_ok (vm k) ds fl ext" "self_mapped (vm k) d"
    "srcva < UTOP" "PTE_ADDR srcva = srcva" "present (entry (vm k) d srcva)" "entry (vm k) d srcva AND PTE_W \<noteq> 0"
    "dstva < UTOP" "PTE_ADDR dstva = dstva" "table_entry (vm k) d dstva \<noteq> 0" "entry (vm k) d dstva = 0"
    "PTE_ADDR target = target" "target OR PTE_ADDR (entry (vm k) d srcva) = target"
  shows "\<exists>v. sys_page_map 0 srcva 0 dstva (target OR PTE_W) k = (Ret 0, k\<lparr>vm := v\<rparr>) \<and>
    user_translate True v d dstva = Some target"
proof -
  let ?e = "entry (vm k) d srcva" and ?perm = "PTE_P OR PTE_U OR (target OR PTE_W)"
  let ?x = "page2pa (page_of ?e) OR ?perm OR PTE_P"
  let ?v = "write_pte (upd_page (vm k) (page_of ?e) (\<lambda>p. p\<lparr>pp_ref := pp_ref p + 1\<rparr>)) (pte_addr (vm k) d dstva) ?x"
  note sp = pages_okD(3) [OF assms(4)]
  have d: "PTE_ADDR d = d" by (rule spaces_okD(1) [OF sp assms(3)])
  have nz: "?e \<noteq> 0" using assms(8) by (auto simp: present_def)
  have r: "read_pte (vm k) (pte_addr (vm k) d srcva) = ?e" using nz by (auto simp: read_pte_def entry_def split: if_splits)
  have "PTE_W AND ?e = PTE_W"
    using flag_bit [of ?e 1] assms(9) by (simp add: flags_exp(2) and.commute [of ?e] split: if_splits)
  then have w: "(?perm AND PTE_W) AND NOT (PTE_W AND read_pte (vm k) (pte_addr (vm k) d srcva)) = 0" by (simp add: r and.assoc)
  have env0: "envid2env 0 True k = (Ret (0, Some c), k)" using assms(1) by (simp add: envid2env_def)
  have run: "sys_page_map 0 srcva 0 dstva (target OR PTE_W) k = (Ret 0, k\<lparr>vm := ?v\<rparr>)"
    using good_va [OF assms(6,7)] good_va [OF assms(10,11)] env0 assms(2) nz w page_insert_unmapped [OF assms(4,3,10,12,13)]
    by (simp add: sys_page_map_def with_env_def bind_outcome_def ret_int_def env_page_map_def lookup_entry [OF sp assms(3,6)])
  have "PTE_ADDR (pte_addr (vm k) d dstva) \<notin> ds" using spaces_okD(4) [OF sp assms(3,10,12)] by (simp add: pte_page)
  then have same: "PTE_ADDR a \<in> ds \<Longrightarrow> pmem ?v a = pmem (vm k) a" for a by auto
  have self: "self_mapped ?v d" by (rule self_mapped_cong [OF assms(5,3) d same])
  have t: "table_entry ?v d dstva = table_entry (vm k) d dstva"
    using same [of "pde_at d dstva"] assms(3) by (simp only: table_entry_def pde_page [OF d])
  have e: "entry ?v d dstva = ?x" by (rule entry_at [OF t assms(12)]) (simp add: write_pte_def)
  have fl: "(x OR (PTE_P OR PTE_U OR (t OR PTE_W)) OR PTE_P) AND PTE_P = PTE_P"
    "(x OR (PTE_P OR PTE_U OR (t OR PTE_W)) OR PTE_P) AND PTE_U = PTE_U"
    "(x OR (PTE_P OR PTE_U OR (t OR PTE_W)) OR PTE_P) AND PTE_W = PTE_W" for x t
    by (rule bit_word_eqI, auto simp: bit_simps)+
  have f: "present ?x" "?x AND PTE_W \<noteq> 0"
    unfolding present_def fl by (simp_all add: PTE_P_def PTE_U_def PTE_W_def)
  have z: "PTE_ADDR PTE_P = 0" "PTE_ADDR PTE_U = 0" "PTE_ADDR PTE_W = 0"
    by (simp_all add: PTE_ADDR_def PTE_P_def PTE_U_def PTE_W_def)
  have "PTE_ADDR ?x = target"
    using assms(14,15) by (simp only: PTE_ADDR_or z page2pa_page_of PTE_ADDR_idem or.right_neutral or.left_neutral or.commute)
  then have "user_translate True ?v d dstva = Some target"
    using translate_entry [OF self assms(10,11), of 0 True, unfolded e] f by simp
  with run show ?thesis by (intro exI [of _ ?v] conjI)
qed

theorem page_map_forges_address_witness:
  "\<exists>v. sys_page_map 0 0x800000 0 0x801000 (0x7000 OR PTE_W) (kern fork_prog) = (Ret 0, (kern fork_prog)\<lparr>vm := v\<rparr>) \<and>
     user_translate True v 0x3000 0x801000 = Some 0x7000"
proof -
  have k: "vm (kern fork_prog) = fork_mem" "curenv (kern fork_prog) = Some 0" "env_pgdir (envs (kern fork_prog) 0) = Some 0x3000"
    by (simp_all add: fork_prog_def)
  note F = forkingD [OF demo_forking, unfolded k(1)]
  have a: "PTE_ADDR 0x801000 = 0x801000" "0x801000 < UTOP" "PTE_ADDR 0x7000 = 0x7000" "PTE_ADDR 0x6007 = 0x6000" "(0x7000 :: u32) OR 0x6000 = 0x7000"
    by (simp_all add: PTE_ADDR_def UTOP_eq)
  have "unat (PDX 0x801000) = unat (2 :: u32)" by (simp add: unat_PDX)
  then have "PDX 0x801000 = 2" by (simp only: word_unat_eq_iff)
  then have e: "table_entry fork_mem 0x3000 0x801000 \<noteq> 0" "entry fork_mem 0x3000 0x801000 = 0" "entry fork_mem 0x3000 0x800000 = 0x6007"
    using demo_entries(1,3) [OF a(2)] demo_entries(3) [OF demo_user] a(1) demo_pages(4) by simp_all
  show ?thesis
    by (rule page_map_forges_address [OF k(2,3) F(2), unfolded k(1), OF F(4,5) demo_user demo_pages(4)])
      (use a e in \<open>simp_all add: present_def PTE_P_def PTE_U_def PTE_W_def\<close>)
qed

end
