(* ===== verification/JosIpc.thy ===== *)
theory JosIpc
  imports JosPgfault
begin




section \<open>Sending a page\<close>





end
