(* ===== verification/ForkPrimes.thy ===== *)
theory ForkPrimes
  imports Prelude
begin

text \<open>
  fork/primes.c with the wrappers of fork/util.c: the sieve as a chain of processes connected by
  pipes.

  A world holds all processes of the program and all pipes. One step is one call of one process,
  so every interleaving of the processes is a sequence of steps. A process holds a set of pipe ends,
  \<open>True\<close> for an end to write to; a pipe is the list of the words written so far and the number of
  those read. Reading blocks while the pipe is empty and somebody holds its writing end, and
  sees the end of the file when nobody does; writing blocks while the pipe holds \<open>cap\<close> words and kills
  the process when nobody can read. \<open>fork\<close> fails when there are \<open>maxp\<close> processes.

  The output of \<open>printf\<close> goes to the terminal at once (\<open>tty\<close>), or else to a buffer of the process
  that \<open>exit\<close> writes out and that \<open>fork\<close> copies.
\<close>

type_synonym u32 = "32 word"

text \<open>Where a process is; each name is the call that comes next.\<close>

datatype point =
    Create_pipe | Call_fork | Close_reader | Generate | Leave_input | Close_own_writer | Read_first
  | Filter_next | Pass_on | Close_writer | Close_input | Await_child | Exited

record process =
  point :: point
  first_process :: bool
  var_n :: u32
  var_buf :: u32
  fds :: nat
  readfd :: nat
  ends :: "(nat \<times> bool) set"
  child_process :: "nat option"
  out_buffer :: "u32 list"

record pipe_state =
  sent :: "u32 list"
  taken :: nat

record world =
  procs :: "process list"
  pipes :: "pipe_state list"
  printed :: "u32 list"

section \<open>Pipes\<close>

definition end_open :: "world \<Rightarrow> nat \<Rightarrow> bool \<Rightarrow> bool" where
  "end_open w i e \<longleftrightarrow> (\<exists>p \<in> set (procs w). (i, e) \<in> ends p)"

definition set_process :: "nat \<Rightarrow> process \<Rightarrow> world \<Rightarrow> world" where
  "set_process k p w = w\<lparr>procs := (procs w)[k := p]\<rparr>"

definition set_pipe :: "nat \<Rightarrow> pipe_state \<Rightarrow> world \<Rightarrow> world" where
  "set_pipe i q w = w\<lparr>pipes := (pipes w)[i := q]\<rparr>"

text \<open>A process that is killed or leaves with \<open>_exit\<close>: its descriptors are closed, its buffer is lost.\<close>

definition die :: "nat \<Rightarrow> world \<Rightarrow> world" where
  "die k w = set_process k ((procs w ! k)\<lparr>point := Exited, ends := {}\<rparr>) w"

datatype reading = Blocked | End_of_file | Word u32

definition readsome :: "world \<Rightarrow> nat \<Rightarrow> reading" where
  "readsome w i = (let q = pipes w ! i in
     if taken q < length (sent q) then Word (sent q ! taken q)
     else if end_open w i True then Blocked else End_of_file)"

definition take_word :: "nat \<Rightarrow> world \<Rightarrow> world" where
  "take_word i w = set_pipe i ((pipes w ! i)\<lparr>taken := taken (pipes w ! i) + 1\<rparr>) w"

text \<open>\<open>p\<close> is the process after the write.\<close>

definition writesome :: "nat \<Rightarrow> nat \<Rightarrow> nat \<Rightarrow> u32 \<Rightarrow> process \<Rightarrow> world \<Rightarrow> world option" where
  "writesome cap k i x p w = (let q = pipes w ! i in
     if \<not> end_open w i False then Some (die k w)
     else if length (sent q) - taken q \<ge> cap then None
     else Some (set_process k p (set_pipe i (q\<lparr>sent := sent q @ [x]\<rparr>) w)))"

definition print_number :: "bool \<Rightarrow> nat \<Rightarrow> u32 \<Rightarrow> world \<Rightarrow> world" where
  "print_number tty k x w =
     (if tty then w\<lparr>printed := printed w @ [x]\<rparr>
      else set_process k ((procs w ! k)\<lparr>out_buffer := out_buffer (procs w ! k) @ [x]\<rparr>) w)"

section \<open>The calls of a process\<close>

definition fork_process :: "nat \<Rightarrow> nat \<Rightarrow> world \<Rightarrow> world" where
  "fork_process maxp k w = (let p = procs w ! k; n = length (procs w) in
     if n \<ge> maxp then die k w
     else w\<lparr>procs := (procs w)[k := p\<lparr>point := Close_reader, child_process := Some n\<rparr>] @
       [p\<lparr>point := if first_process p then Close_own_writer else Leave_input,
          first_process := False, child_process := None\<rparr>]\<rparr>)"

text \<open>
  The next call of process \<open>k\<close>; \<open>None\<close> when it waits or has ended. After \<open>Close_reader\<close> the first
  process enters its loop with \<open>buf = 2\<close>, a stage goes on to filter.
\<close>

definition act :: "bool \<Rightarrow> nat \<Rightarrow> nat \<Rightarrow> nat \<Rightarrow> world \<Rightarrow> world option" where
  "act tty cap maxp k w = (let p = procs w ! k in
     case point p of
       Create_pipe \<Rightarrow> (let i = length (pipes w) in
         Some (set_process k (p\<lparr>point := Call_fork, fds := i, ends := ends p \<union> {(i, False), (i, True)}\<rparr>)
           (w\<lparr>pipes := pipes w @ [\<lparr>sent = [], taken = 0\<rparr>]\<rparr>)))
     | Call_fork \<Rightarrow> Some (fork_process maxp k w)
     | Close_reader \<Rightarrow> (let p1 = p\<lparr>ends := ends p - {(fds p, False)}\<rparr> in
         Some (set_process k (if first_process p then p1\<lparr>point := Generate, var_buf := 2\<rparr>
           else p1\<lparr>point := Filter_next\<rparr>) w))
     | Generate \<Rightarrow>
         if var_buf p \<le> var_n p
         then writesome cap k (fds p) (var_buf p) (p\<lparr>var_buf := var_buf p + 1\<rparr>) w
         else Some (set_process k (p\<lparr>point := Await_child, ends := ends p - {(fds p, True)}\<rparr>) w)
     | Leave_input \<Rightarrow>
         Some (set_process k (p\<lparr>point := Close_own_writer, ends := ends p - {(readfd p, False)}\<rparr>) w)
     | Close_own_writer \<Rightarrow>
         Some (set_process k (p\<lparr>point := Read_first, readfd := fds p, ends := ends p - {(fds p, True)}\<rparr>) w)
     | Read_first \<Rightarrow> (case readsome w (readfd p) of
           Blocked \<Rightarrow> None
         | End_of_file \<Rightarrow> Some (set_process k (p\<lparr>point := Close_input\<rparr>) w)
         | Word x \<Rightarrow> Some (print_number tty k x
             (set_process k (p\<lparr>point := Create_pipe, var_n := x\<rparr>) (take_word (readfd p) w))))
     | Filter_next \<Rightarrow> (case readsome w (readfd p) of
           Blocked \<Rightarrow> None
         | End_of_file \<Rightarrow> Some (set_process k (p\<lparr>point := Close_writer\<rparr>) w)
         | Word x \<Rightarrow>
             if var_n p = 0 then Some (die k w)
             else Some (set_process k (p\<lparr>var_buf := x, point := if x mod var_n p \<noteq> 0 then Pass_on else Filter_next\<rparr>)
               (take_word (readfd p) w)))
     | Pass_on \<Rightarrow> writesome cap k (fds p) (var_buf p) (p\<lparr>point := Filter_next\<rparr>) w
     | Close_writer \<Rightarrow>
         Some (set_process k (p\<lparr>point := Close_input, ends := ends p - {(fds p, True)}\<rparr>) w)
     | Close_input \<Rightarrow>
         Some (set_process k (p\<lparr>point := Await_child, ends := ends p - {(readfd p, False)}\<rparr>) w)
     | Await_child \<Rightarrow>
         if (case child_process p of None \<Rightarrow> True | Some c \<Rightarrow> point (procs w ! c) = Exited)
         then Some (set_process k (p\<lparr>point := Exited, ends := {}, out_buffer := []\<rparr>)
           (w\<lparr>printed := printed w @ out_buffer p\<rparr>))
         else None
     | Exited \<Rightarrow> None)"

text \<open>\<open>n\<close> is what \<open>atoi\<close> made of the argument, as an \<open>unsigned int\<close>; the program refuses less than 2.\<close>

definition primes_main :: "u32 \<Rightarrow> world option" where
  "primes_main n =
     (if n < 2 then None
      else Some \<lparr>procs = [\<lparr>point = Create_pipe, first_process = True, var_n = n, var_buf = 0, fds = 0,
          readfd = 0, ends = {}, child_process = None, out_buffer = []\<rparr>], pipes = [], printed = []\<rparr>)"

text \<open>
  The calls that \<open>create_pipe\<close>, \<open>fork_process\<close>, \<open>readsome\<close> and \<open>writesome\<close> check: when the system refuses
  one of them, for whatever reason, the process prints a message and leaves with \<open>_exit\<close>. The
  program does not look at what \<open>close\<close>, \<open>printf\<close> and \<open>wait\<close> return.
\<close>

definition checked_call :: "process \<Rightarrow> bool" where
  "checked_call p \<longleftrightarrow> point p \<in> {Create_pipe, Call_fork, Read_first, Filter_next, Pass_on} \<or> point p = Generate \<and> var_buf p \<le> var_n p"

text \<open>One call of one process. With \<open>faults\<close> any checked call may also be refused.\<close>

inductive sieve_step :: "bool \<Rightarrow> bool \<Rightarrow> nat \<Rightarrow> nat \<Rightarrow> world \<Rightarrow> world \<Rightarrow> bool" for faults tty cap maxp where
  call: "k < length (procs w) \<Longrightarrow> act tty cap maxp k w = Some w' \<Longrightarrow> sieve_step faults tty cap maxp w w'"
| refused: "faults \<Longrightarrow> k < length (procs w) \<Longrightarrow> checked_call (procs w ! k) \<Longrightarrow> sieve_step faults tty cap maxp w (die k w)"

text \<open>The processes in the order of a given schedule; those that cannot move are passed over.\<close>

fun run_schedule :: "bool \<Rightarrow> nat \<Rightarrow> nat \<Rightarrow> nat list \<Rightarrow> world \<Rightarrow> world" where
  "run_schedule tty cap maxp [] w = w"
| "run_schedule tty cap maxp (k # ks) w =
     run_schedule tty cap maxp ks (case if k < length (procs w) then act tty cap maxp k w else None of None \<Rightarrow> w | Some w' \<Rightarrow> w')"

end
