(* ===== verification/ForkPrimesSpec.thy ===== *)
theory ForkPrimesSpec
  imports ForkPrimes
begin

text \<open>
  The sieve prints exactly the prime numbers up to its argument, whatever the order in which its
  processes run and however small the pipes are, and it ends.
\<close>

lemma unat_word_bound: "unat (w :: u32) < 2 ^ 32"
  by (rule order_less_le_trans [OF unsigned_less]) simp

section \<open>What goes through the pipes\<close>

text \<open>The numbers that pipe \<open>k\<close> carries when nothing fails.\<close>

fun stream :: "nat \<Rightarrow> nat \<Rightarrow> nat list" where
  "stream n 0 = [2..<Suc n]"
| "stream n (Suc k) = filter (\<lambda>x. x mod hd (stream n k) \<noteq> 0) (tl (stream n k))"

definition is_prime :: "nat \<Rightarrow> bool" where
  "is_prime p \<longleftrightarrow> 2 \<le> p \<and> (\<forall>d. d dvd p \<longrightarrow> d = 1 \<or> d = p)"

text \<open>The first numbers of the first \<open>m\<close> pipes.\<close>

definition heads :: "nat \<Rightarrow> nat \<Rightarrow> nat list" where
  "heads n m = map (\<lambda>i. hd (stream n i)) [0..<m]"

lemma heads_simps [simp]: "heads n 0 = []" "heads n (Suc m) = heads n m @ [hd (stream n m)]" "length (heads n m) = m"
  by (simp_all add: heads_def)

lemma in_tl: "x \<in> set (tl xs) \<Longrightarrow> x \<in> set xs"
  by (cases xs) auto

lemma stream_sorted: "sorted_wrt (<) (stream n k)"
proof (induction k)
  case (Suc k)
  then have "sorted_wrt (<) (tl (stream n k))" by (cases "stream n k") auto
  then show ?case by (simp add: sorted_wrt_filter)
qed (simp add: sorted_wrt_upt del: upt_Suc)

lemma stream_ge2: "x \<in> set (stream n k) \<Longrightarrow> 2 \<le> x \<and> x \<le> n"
proof (induction k)
  case (Suc k)
  then show ?case by (auto dest: in_tl)
qed auto

lemma length_stream: "length (stream n k) \<le> n - 1 - k"
proof (induction k)
  case (Suc k)
  have "length (stream n (Suc k)) \<le> length (tl (stream n k))" by (simp only: stream.simps length_filter_le)
  then show ?case using Suc by simp
qed (simp del: upt_Suc)

text \<open>Pipe \<open>k\<close> carries the numbers that none of the first \<open>k\<close> heads divides.\<close>

lemma stream_set:
  assumes "\<forall>i < k. stream n i \<noteq> []"
  shows "set (stream n k) = {x. 2 \<le> x \<and> x \<le> n \<and> (\<forall>p \<in> set (heads n k). \<not> p dvd x)}"
  using assms
proof (induction k)
  case (Suc k)
  let ?h = "hd (stream n k)"
  have ne: "stream n k \<noteq> []" using Suc.prems by simp
  then obtain t where t: "stream n k = ?h # t" by (cases "stream n k") auto
  have IH: "set (stream n k) = {x. 2 \<le> x \<and> x \<le> n \<and> (\<forall>p \<in> set (heads n k). \<not> p dvd x)}" using Suc by simp
  have tl: "tl (stream n k) = t" using t by (metis list.sel(3))
  have "set (stream n (Suc k)) = {x \<in> set t. \<not> ?h dvd x}" by (auto simp: tl dvd_eq_mod_eq_0)
  also have "\<dots> = {x \<in> set (?h # t). \<not> ?h dvd x}" by auto
  also have "\<dots> = {x \<in> set (stream n k). \<not> ?h dvd x}" by (simp only: t [symmetric])
  finally show ?case unfolding IH by auto
qed auto

lemma head_prime:
  assumes "\<forall>i \<le> k. stream n i \<noteq> []"
  shows "is_prime (hd (stream n k))"
proof -
  let ?h = "hd (stream n k)"
  have S: "set (stream n k) = {x. 2 \<le> x \<and> x \<le> n \<and> (\<forall>p \<in> set (heads n k). \<not> p dvd x)}" using assms by (intro stream_set) simp
  have h: "?h \<in> set (stream n k)" using assms by simp
  have "d = 1 \<or> d = ?h" if d: "d dvd ?h" for d
  proof (rule ccontr)
    assume n1: "\<not> (d = 1 \<or> d = ?h)"
    have "d \<noteq> 0" "d \<le> ?h" using d h S dvd_imp_le by (auto intro!: Nat.gr0I)
    then have "d \<in> set (stream n k)" using S h d n1 dvd_trans by fastforce
    moreover have "?h \<le> x" if "x \<in> set (stream n k)" for x
      using that stream_sorted [of n k] by (cases "stream n k") auto
    ultimately show False using \<open>d \<le> ?h\<close> n1 by force
  qed
  then show ?thesis using h S by (auto simp: is_prime_def)
qed

lemma heads_sorted: "\<forall>i < k. stream n i \<noteq> [] \<Longrightarrow> sorted_wrt (<) (heads n k) \<and> (\<forall>x \<in> set (heads n k). \<forall>y \<in> set (stream n k). x < y)"
proof (induction k)
  case (Suc k)
  then have IH: "sorted_wrt (<) (heads n k)" "\<forall>x \<in> set (heads n k). \<forall>y \<in> set (stream n k). x < y" by auto
  have ne: "stream n k \<noteq> []" using Suc.prems by simp
  then have h: "hd (stream n k) \<in> set (stream n k)" by simp
  have lt: "hd (stream n k) < y" if "y \<in> set (stream n (Suc k))" for y
    using that stream_sorted [of n k] ne by (cases "stream n k") auto
  have sub: "y \<in> set (stream n k)" if "y \<in> set (stream n (Suc k))" for y using that by (auto dest: in_tl)
  have "sorted_wrt (<) (heads n (Suc k))" using IH h by (simp add: sorted_wrt_append)
  moreover have "x < y" if "x \<in> set (heads n (Suc k))" "y \<in> set (stream n (Suc k))" for x y
    using that(1) lt [OF that(2)] IH(2) sub [OF that(2)] unfolding heads_simps(2) by auto
  ultimately show ?case by blast
qed simp

text \<open>When a pipe stays empty, the heads so far are all primes.\<close>

lemma all_primes:
  assumes "\<forall>i < k. stream n i \<noteq> []" "stream n k = []"
  shows "heads n k = filter is_prime [0..<Suc n]"
proof (rule sorted_distinct_set_unique)
  have S: "{x. 2 \<le> x \<and> x \<le> n \<and> (\<forall>p \<in> set (heads n k). \<not> p dvd x)} = {}" using stream_set [OF assms(1)] assms(2) by simp
  have hp: "is_prime p \<and> p \<le> n" if "p \<in> set (heads n k)" for p
  proof -
    obtain i where i: "i < k" "p = hd (stream n i)" using \<open>p \<in> set (heads n k)\<close> by (auto simp: heads_def)
    then have "is_prime p" using head_prime [of i n] assms(1) by simp
    moreover have "p \<in> set (stream n i)" using i assms(1) by simp
    ultimately show ?thesis using stream_ge2 by blast
  qed
  show "set (heads n k) = set (filter is_prime [0..<Suc n])"
  proof (intro equalityI subsetI)
    fix p assume "p \<in> set (heads n k)"
    then show "p \<in> set (filter is_prime [0..<Suc n])" using hp [of p] by (simp del: upt_Suc add: less_Suc_eq_le)
  next
    fix q assume q: "q \<in> set (filter is_prime [0..<Suc n])"
    then have "2 \<le> q" "q \<le> n" by (auto simp: is_prime_def simp del: upt_Suc)
    then obtain p where p: "p \<in> set (heads n k)" "p dvd q" using S by auto
    then show "q \<in> set (heads n k)" using q hp [OF p(1)] by (auto simp: is_prime_def simp del: upt_Suc)
  qed
  show "sorted (filter is_prime [0..<Suc n])" by (rule sorted_wrt_filter) (rule sorted_upt)
qed (use heads_sorted [OF assms(1)] in \<open>auto simp: strict_sorted_iff simp del: upt_Suc\<close>)

lemma prefix_primes:
  assumes "\<forall>i < m. stream n i \<noteq> []"
  shows "\<exists>rest. filter is_prime [0..<Suc n] = heads n m @ rest"
proof -
  define k where "k = (LEAST k. stream n k = [])"
  have "length (stream n n) \<le> n - 1 - n" by (rule length_stream)
  then have "stream n n = []" by simp
  then have k: "stream n k = []" unfolding k_def by (rule LeastI)
  have ne: "\<forall>i < k. stream n i \<noteq> []" using not_less_Least unfolding k_def by blast
  have "m \<le> k" using assms k by (meson not_le)
  then have "heads n k = heads n m @ drop m (heads n k)"
    using append_take_drop_id [of m "heads n k"] by (simp add: heads_def take_map)
  then show ?thesis using all_primes [OF ne k] by metis
qed


section \<open>The invariant\<close>

definition words :: "world \<Rightarrow> nat \<Rightarrow> nat list" where "words w i = map unat (sent (pipes w ! i))"

definition reads :: "world \<Rightarrow> nat \<Rightarrow> nat" where "reads w i = taken (pipes w ! i)"

text \<open>A process that has closed its end of the pipe it writes to.\<close>

definition closed :: "process \<Rightarrow> bool" where
  "closed p \<longleftrightarrow> point p \<in> {Close_input, Await_child, Exited}"

text \<open>
  The first process: \<open>N\<close> is the number of processes, \<open>sn\<close> what pipe 0 got so far; \<open>F\<close> says that no
  \<open>fork\<close> can fail.
\<close>

definition main_ok :: "u32 \<Rightarrow> bool \<Rightarrow> nat \<Rightarrow> process \<Rightarrow> nat list \<Rightarrow> bool" where
  "main_ok n F N p sn \<longleftrightarrow> first_process p \<and> var_n p = n \<and> out_buffer p = [] \<and> fds p = 0 \<and>
     (case point p of
        Create_pipe \<Rightarrow> N = 1 \<and> ends p = {}
      | Call_fork \<Rightarrow> N = 1 \<and> ends p = {(0, False), (0, True)} \<and> sn = []
      | Close_reader \<Rightarrow> 1 < N \<and> ends p = {(0, False), (0, True)} \<and> child_process p = Some 1 \<and> sn = []
      | Generate \<Rightarrow> 1 < N \<and> ends p = {(0, True)} \<and> child_process p = Some 1 \<and> 2 \<le> unat (var_buf p) \<and>
          unat (var_buf p) \<le> Suc (unat n) \<and> sn = [2..<unat (var_buf p)]
      | Await_child \<Rightarrow> 1 < N \<and> ends p = {} \<and> child_process p = Some 1 \<and> sn = stream (unat n) 0
      | Exited \<Rightarrow> ends p = {} \<and> (F \<longrightarrow> 1 < N \<and> sn = stream (unat n) 0)
      | _ \<Rightarrow> False)"

text \<open>
  Stage \<open>k\<close>: \<open>sn\<close> is what pipe \<open>k\<close> got, \<open>t\<close> the number of words it has read, \<open>prev\<close> whether the stage
  before has closed its pipe, \<open>m\<close> the number of printed lines.
\<close>

definition started :: "nat \<Rightarrow> nat \<Rightarrow> process \<Rightarrow> bool" where
  "started n k p \<longleftrightarrow> stream n (k - 1) \<noteq> [] \<and> unat (var_n p) = hd (stream n (k - 1)) \<and> readfd p = k - 1"

definition filtered :: "nat \<Rightarrow> nat \<Rightarrow> nat \<Rightarrow> nat list" where
  "filtered n k t = filter (\<lambda>x. x mod hd (stream n (k - 1)) \<noteq> 0) (tl (take t (stream n (k - 1))))"

definition ended :: "nat \<Rightarrow> bool \<Rightarrow> nat \<Rightarrow> bool \<Rightarrow> nat list \<Rightarrow> bool \<Rightarrow> nat \<Rightarrow> bool" where
  "ended n F k final sn prev m \<longleftrightarrow>
     (F \<longrightarrow> prev \<and> (if final then stream n (k - 1) = [] \<and> m = k - 1 else sn = stream n k))"

definition stage_ok ::
  "nat \<Rightarrow> bool \<Rightarrow> nat \<Rightarrow> bool \<Rightarrow> process \<Rightarrow> nat list \<Rightarrow> nat \<Rightarrow> bool \<Rightarrow> nat \<Rightarrow> bool" where
  "stage_ok n F k final p sn t prev m \<longleftrightarrow> \<not> first_process p \<and> out_buffer p = [] \<and>
     (point p = Exited \<or> child_process p = (if final then None else Some (k + 1))) \<and>
     (case point p of
        Leave_input \<Rightarrow> final \<and> 2 \<le> k \<and> fds p = k - 1 \<and> readfd p = k - 2 \<and>
          ends p = {(k - 2, False), (k - 1, False), (k - 1, True)} \<and> t = 0 \<and> m = k - 1
      | Close_own_writer \<Rightarrow> final \<and> fds p = k - 1 \<and> ends p = {(k - 1, False), (k - 1, True)} \<and> t = 0 \<and> m = k - 1
      | Read_first \<Rightarrow> final \<and> readfd p = k - 1 \<and> ends p = {(k - 1, False)} \<and> t = 0 \<and> m = k - 1
      | Create_pipe \<Rightarrow> final \<and> started n k p \<and> ends p = {(k - 1, False)} \<and> t = 1 \<and> m = k
      | Call_fork \<Rightarrow> final \<and> started n k p \<and> fds p = k \<and> ends p = {(k - 1, False), (k, False), (k, True)} \<and>
          t = 1 \<and> sn = [] \<and> m = k
      | Close_reader \<Rightarrow> \<not> final \<and> started n k p \<and> fds p = k \<and> ends p = {(k - 1, False), (k, False), (k, True)} \<and>
          t = 1 \<and> sn = []
      | Filter_next \<Rightarrow> \<not> final \<and> started n k p \<and> fds p = k \<and> ends p = {(k - 1, False), (k, True)} \<and>
          1 \<le> t \<and> sn = filtered n k t
      | Pass_on \<Rightarrow> \<not> final \<and> started n k p \<and> fds p = k \<and> ends p = {(k - 1, False), (k, True)} \<and>
          1 \<le> t \<and> sn @ [unat (var_buf p)] = filtered n k t
      | Close_writer \<Rightarrow> \<not> final \<and> fds p = k \<and> readfd p = k - 1 \<and> ends p = {(k - 1, False), (k, True)} \<and>
          ended n F k final sn prev m
      | Close_input \<Rightarrow> readfd p = k - 1 \<and> ends p = {(k - 1, False)} \<and> ended n F k final sn prev m
      | Await_child \<Rightarrow> ends p = {} \<and> ended n F k final sn prev m
      | Exited \<Rightarrow> ends p = {} \<and> ended n F k final sn prev m
      | Generate \<Rightarrow> False)"

definition pipes_fine :: "nat \<Rightarrow> world \<Rightarrow> bool" where
  "pipes_fine n w \<longleftrightarrow> (\<forall>i < length (pipes w). reads w i \<le> length (words w i) \<and> (\<exists>r. stream n i = words w i @ r))"

definition last_pipe :: "world \<Rightarrow> bool" where
  "last_pipe w \<longleftrightarrow> (let N = length (procs w); np = length (pipes w); pt = point (procs w ! (N - 1)) in
     1 \<le> N \<and> N - 1 \<le> np \<and> np \<le> N \<and> (pt = Call_fork \<longrightarrow> np = N) \<and>
     (pt \<in> {Create_pipe, Leave_input, Close_own_writer, Read_first} \<longrightarrow> np = N - 1))"

definition prints_heads :: "nat \<Rightarrow> world \<Rightarrow> bool" where
  "prints_heads n w \<longleftrightarrow> map unat (printed w) = heads n (length (printed w)) \<and> (\<forall>i < length (printed w). stream n i \<noteq> [])"

definition sieve_inv :: "u32 \<Rightarrow> bool \<Rightarrow> world \<Rightarrow> bool" where
  "sieve_inv n F w \<longleftrightarrow> last_pipe w \<and> pipes_fine (unat n) w \<and> prints_heads (unat n) w \<and>
     (length (procs w) = 1 \<longrightarrow> printed w = []) \<and>
     main_ok n F (length (procs w)) (procs w ! 0) (words w 0) \<and>
     (\<forall>k. 0 < k \<and> k < length (procs w) \<longrightarrow>
        stage_ok (unat n) F k (Suc k = length (procs w)) (procs w ! k) (words w k) (reads w (k - 1))
          (closed (procs w ! (k - 1))) (length (printed w)))"

lemma sieve_invD:
  assumes "sieve_inv n F w"
  shows "last_pipe w" "pipes_fine (unat n) w" "prints_heads (unat n) w" "length (procs w) = 1 \<Longrightarrow> printed w = []"
    "main_ok n F (length (procs w)) (procs w ! 0) (words w 0)"
    "0 < k \<Longrightarrow> k < length (procs w) \<Longrightarrow>
      stage_ok (unat n) F k (Suc k = length (procs w)) (procs w ! k) (words w k) (reads w (k - 1)) (closed (procs w ! (k - 1))) (length (printed w))"
  using assms by (auto simp: sieve_inv_def)

lemma stage_ok_mono:
  assumes "stage_ok n F k final p sn t prev m" "\<not> final \<or> point p = Call_fork \<Longrightarrow> sn' = sn" "prev \<Longrightarrow> prev'" "final \<Longrightarrow> m' = m"
  shows "stage_ok n F k final p sn' t prev' m'"
  using assms by (cases F; cases final; cases "point p"; simp add: stage_ok_def ended_def)

lemma last_pipeD:
  assumes "last_pipe w"
  shows "0 < length (procs w)" "length (procs w) \<le> Suc (length (pipes w))" "length (pipes w) \<le> length (procs w)"
    "Suc k = length (procs w) \<Longrightarrow> point (procs w ! k) = Call_fork \<Longrightarrow> length (pipes w) = Suc k"
    "Suc k = length (procs w) \<Longrightarrow> point (procs w ! k) \<in> {Create_pipe, Leave_input, Close_own_writer, Read_first} \<Longrightarrow> length (pipes w) = k"
proof -
  have k: "Suc k = length (procs w) \<Longrightarrow> length (procs w) - 1 = k" by simp
  show "0 < length (procs w)" "length (procs w) \<le> Suc (length (pipes w))" "length (pipes w) \<le> length (procs w)"
    using assms by (auto simp: last_pipe_def Let_def)
  show "Suc k = length (procs w) \<Longrightarrow> point (procs w ! k) = Call_fork \<Longrightarrow> length (pipes w) = Suc k"
    "Suc k = length (procs w) \<Longrightarrow> point (procs w ! k) \<in> {Create_pipe, Leave_input, Close_own_writer, Read_first} \<Longrightarrow> length (pipes w) = k"
    using assms k unfolding last_pipe_def Let_def by metis+
qed

lemma last_pipeI:
  assumes "0 < length (procs w)" "length (procs w) \<le> Suc (length (pipes w))" "length (pipes w) \<le> length (procs w)"
    "point (procs w ! (length (procs w) - 1)) = Call_fork \<Longrightarrow> length (pipes w) = length (procs w)"
    "point (procs w ! (length (procs w) - 1)) \<in> {Create_pipe, Leave_input, Close_own_writer, Read_first} \<Longrightarrow>
      Suc (length (pipes w)) = length (procs w)"
  shows "last_pipe w"
proof -
  have "1 \<le> length (procs w)" "length (procs w) - 1 \<le> length (pipes w)" using assms(1,2) by linarith+
  then show ?thesis using assms(3-5) unfolding last_pipe_def Let_def by (metis diff_Suc_1)
qed

lemma pipe_exists:
  assumes "last_pipe w"
  shows "Suc k < length (procs w) \<Longrightarrow> k < length (pipes w)"
    "point (procs w ! k) = Call_fork \<Longrightarrow> Suc k = length (procs w) \<Longrightarrow> k < length (pipes w)"
  using last_pipeD [OF assms] by simp_all

text \<open>A step of process \<open>k\<close> that makes no new process.\<close>

lemma inv_update:
  assumes I: "sieve_inv n F w" and k: "k < length (procs w)" and procs: "procs w' = (procs w)[k := p']"
    and same: "\<And>i. i < length (pipes w) \<Longrightarrow> i \<noteq> k \<Longrightarrow> words w' i = words w i"
      "\<And>i. i < length (pipes w) \<Longrightarrow> Suc i \<noteq> k \<Longrightarrow> reads w' i = reads w i"
    and glob: "last_pipe w'" "pipes_fine (unat n) w'" "prints_heads (unat n) w'" "printed w' = printed w \<or> 0 < k \<and> Suc k = length (procs w)"
    and cl: "closed (procs w ! k) \<Longrightarrow> closed p'"
    and new: "k = 0 \<Longrightarrow> main_ok n F (length (procs w)) p' (words w' 0)"
      "0 < k \<Longrightarrow> stage_ok (unat n) F k (Suc k = length (procs w)) p' (words w' k) (reads w' (k - 1)) (closed (procs w ! (k - 1))) (length (printed w'))"
  shows "sieve_inv n F w'"
proof -
  note D = sieve_invD [OF I]
  have len: "length (procs w') = length (procs w)" by (simp add: procs)
  have "main_ok n F (length (procs w')) (procs w' ! 0) (words w' 0)"
  proof (cases "k = 0")
    case True
    then show ?thesis using new(1) k by (simp add: procs)
  next
    case False
    then have "0 < length (pipes w)" using pipe_exists(1) [OF D(1), of 0] k by simp
    then show ?thesis using D(5) same(1) [of 0] False by (simp add: procs)
  qed
  moreover have "stage_ok (unat n) F j (Suc j = length (procs w')) (procs w' ! j) (words w' j) (reads w' (j - 1))
      (closed (procs w' ! (j - 1))) (length (printed w'))" if j: "0 < j" "j < length (procs w')" for j
  proof (cases "j = k")
    case True
    then show ?thesis using new(2) j k by (simp add: procs)
  next
    case False
    have jl: "j < length (procs w)" using j len by simp
    have r: "reads w' (j - 1) = reads w (j - 1)"
      using same(2) [of "j - 1"] pipe_exists(1) [OF D(1), of "j - 1"] jl j(1) False by simp
    have "stage_ok (unat n) F j (Suc j = length (procs w)) (procs w ! j) (words w' j) (reads w (j - 1))
      (closed (procs w' ! (j - 1))) (length (printed w'))"
    proof (rule stage_ok_mono [OF D(6) [OF j(1) jl]])
      assume "Suc j \<noteq> length (procs w) \<or> point (procs w ! j) = Call_fork"
      then have "j < length (pipes w)" using pipe_exists [OF D(1), of j] jl by (cases "Suc j = length (procs w)") auto
      then show "words w' j = words w j" using same(1) False by simp
    next
      assume "closed (procs w ! (j - 1))"
      then show "closed (procs w' ! (j - 1))" using cl k by (cases "j - 1 = k") (auto simp: procs)
    next
      assume "Suc j = length (procs w)"
      then show "length (printed w') = length (printed w)" using glob(4) False by auto
    qed
    then show ?thesis using r False len by (simp add: procs)
  qed
  moreover have "length (procs w') = 1 \<longrightarrow> printed w' = []" using D(4) glob(4) k len by auto
  ultimately show ?thesis using glob(1-3) by (simp add: sieve_inv_def)
qed

text \<open>Steps that change neither pipes nor output.\<close>

lemma inv_local:
  assumes I: "sieve_inv n F w" and k: "k < length (procs w)"
    and pt: "Suc k = length (procs w) \<Longrightarrow> point p' \<noteq> Call_fork"
      "Suc k = length (procs w) \<Longrightarrow> point p' \<in> {Create_pipe, Leave_input, Close_own_writer, Read_first} \<Longrightarrow> length (pipes w) = k"
    and cl: "closed (procs w ! k) \<Longrightarrow> closed p'"
    and new: "k = 0 \<Longrightarrow> main_ok n F (length (procs w)) p' (words w 0)"
      "0 < k \<Longrightarrow> stage_ok (unat n) F k (Suc k = length (procs w)) p' (words w k) (reads w (k - 1)) (closed (procs w ! (k - 1))) (length (printed w))"
  shows "sieve_inv n F (set_process k p' w)"
proof (rule inv_update [OF I k, where p' = p'])
  note D = sieve_invD [OF I]
  have w: "words (set_process k p' w) = words w" "reads (set_process k p' w) = reads w"
    by (auto simp: words_def reads_def set_process_def)
  show "last_pipe (set_process k p' w)"
  proof (rule last_pipeI)
    let ?N = "length (procs w)"
    have last: "procs (set_process k p' w) ! (?N - 1) = (if Suc k = ?N then p' else procs w ! (?N - 1))"
      using k by (auto simp: set_process_def nth_list_update)
    have len: "length (procs (set_process k p' w)) = ?N" "pipes (set_process k p' w) = pipes w" by (simp_all add: set_process_def)
    show "point (procs (set_process k p' w) ! (length (procs (set_process k p' w)) - 1)) = Call_fork \<Longrightarrow>
      length (pipes (set_process k p' w)) = length (procs (set_process k p' w))"
      unfolding len last using last_pipeD(4) [OF D(1), of "?N - 1"] pt(1) k by (auto split: if_splits)
    show "point (procs (set_process k p' w) ! (length (procs (set_process k p' w)) - 1)) \<in> {Create_pipe, Leave_input, Close_own_writer, Read_first} \<Longrightarrow>
      Suc (length (pipes (set_process k p' w))) = length (procs (set_process k p' w))"
      unfolding len last using last_pipeD(5) [OF D(1), of "?N - 1"] pt(2) k by (cases "Suc k = ?N") simp_all
  qed (use last_pipeD(1-3) [OF D(1)] in \<open>simp_all add: set_process_def\<close>)
  show "pipes_fine (unat n) (set_process k p' w)" "prints_heads (unat n) (set_process k p' w)"
    using D(2,3) w by (simp_all add: pipes_fine_def prints_heads_def set_process_def)
qed (use new cl in \<open>simp_all add: set_process_def words_def reads_def\<close>)

lemma die_inv:
  assumes I: "sieve_inv n False w" and k: "k < length (procs w)"
  shows "sieve_inv n False (die k w)"
  unfolding die_def
proof (rule inv_local [OF I k])
  note D = sieve_invD [OF I]
  show "k = 0 \<Longrightarrow> main_ok n False (length (procs w)) ((procs w ! k)\<lparr>point := Exited, ends := {}\<rparr>) (words w 0)"
    using D(5) by (simp add: main_ok_def)
  show "0 < k \<Longrightarrow> stage_ok (unat n) False k (Suc k = length (procs w)) ((procs w ! k)\<lparr>point := Exited, ends := {}\<rparr>) (words w k)
      (reads w (k - 1)) (closed (procs w ! (k - 1))) (length (printed w))"
    using D(6) [of k] k by (simp add: stage_ok_def ended_def)
qed (simp_all add: closed_def)


section \<open>Writers and readers\<close>

lemma stage_closed:
  "stage_ok n F k final p sn t prev m \<Longrightarrow> closed p \<Longrightarrow> ended n F k final sn prev m"
  by (cases "point p") (simp_all add: stage_ok_def closed_def)

lemma open_writer:
  assumes I: "sieve_inv n F w" and j: "Suc j < length (procs w)" "\<not> closed (procs w ! j)"
  shows "(j, True) \<in> ends (procs w ! j)"
proof (cases "j = 0")
  case True
  then show ?thesis using sieve_invD(5) [OF I] j by (cases "point (procs w ! 0)") (simp_all add: main_ok_def closed_def)
next
  case False
  then show ?thesis using sieve_invD(6) [OF I, of j] j by (cases "point (procs w ! j)") (simp_all add: stage_ok_def closed_def)
qed

lemma closed_sent:
  assumes I: "sieve_inv n True w" and j: "Suc j < length (procs w)" "closed (procs w ! j)"
  shows "words w j = stream (unat n) j"
proof (cases "j = 0")
  case True
  then show ?thesis using sieve_invD(5) [OF I] j by (cases "point (procs w ! 0)") (simp_all add: main_ok_def closed_def del: upt_Suc)
next
  case False
  then show ?thesis using stage_closed [OF sieve_invD(6) [OF I, of j]] j by (simp add: ended_def)
qed

lemma open_reader:
  assumes I: "sieve_inv n True w" and j: "Suc j < length (procs w)" "\<not> closed (procs w ! j)"
  shows "(j, False) \<in> ends (procs w ! Suc j)"
  using sieve_invD(6) [OF I, of "Suc j"] j
  by (cases "point (procs w ! Suc j)") (simp_all add: stage_ok_def ended_def)

lemma end_openI: "k < length (procs w) \<Longrightarrow> (i, e) \<in> ends (procs w ! k) \<Longrightarrow> end_open w i e"
  by (auto simp: end_open_def)

text \<open>A stage sees the end of the file when the one before has written all it had.\<close>

lemma end_of_file:
  assumes I: "sieve_inv n F w" and k: "0 < k" "k < length (procs w)" and r: "readsome w (k - 1) = End_of_file"
  shows "length (words w (k - 1)) = reads w (k - 1)" "closed (procs w ! (k - 1))" "F \<Longrightarrow> words w (k - 1) = stream (unat n) (k - 1)"
proof -
  have np: "k - 1 < length (pipes w)" using pipe_exists(1) [OF sieve_invD(1) [OF I], of "k - 1"] k by simp
  have "reads w (k - 1) \<le> length (words w (k - 1))" using sieve_invD(2) [OF I] np by (simp add: pipes_fine_def)
  then show "length (words w (k - 1)) = reads w (k - 1)"
    using r by (simp add: readsome_def reads_def words_def Let_def split: if_splits)
  show c: "closed (procs w ! (k - 1))"
  proof (rule ccontr)
    assume "\<not> closed (procs w ! (k - 1))"
    then have "(k - 1, True) \<in> ends (procs w ! (k - 1))" using open_writer [OF I, of "k - 1"] k by simp
    then have "end_open w (k - 1) True" using k by (intro end_openI [of "k - 1"]) simp_all
    then show False using r by (simp add: readsome_def Let_def split: if_splits)
  qed
  show "words w (k - 1) = stream (unat n) (k - 1)" if F
  proof -
    have "F = True" using that by simp
    then show ?thesis using closed_sent [of n w "k - 1"] I c k by simp
  qed
qed

lemma next_word:
  assumes I: "sieve_inv n F w" and k: "0 < k" "k < length (procs w)" and r: "readsome w (k - 1) = Word x"
  shows "reads w (k - 1) < length (words w (k - 1))" "reads w (k - 1) < length (stream (unat n) (k - 1))"
    "unat x = stream (unat n) (k - 1) ! reads w (k - 1)"
proof -
  have np: "k - 1 < length (pipes w)" using pipe_exists(1) [OF sieve_invD(1) [OF I], of "k - 1"] k by simp
  show l: "reads w (k - 1) < length (words w (k - 1))"
    using r by (simp add: readsome_def reads_def words_def Let_def split: if_splits)
  obtain rest where s: "stream (unat n) (k - 1) = words w (k - 1) @ rest" using sieve_invD(2) [OF I] np by (auto simp: pipes_fine_def)
  then show "reads w (k - 1) < length (stream (unat n) (k - 1))" using l by simp
  have "unat x = words w (k - 1) ! reads w (k - 1)"
    using r l by (simp add: readsome_def reads_def words_def Let_def split: if_splits)
  then show "unat x = stream (unat n) (k - 1) ! reads w (k - 1)" using s l by (simp add: nth_append)
qed

section \<open>Steps that read or write\<close>

lemma take_word_simps [simp]:
  "procs (take_word i w) = procs w" "printed (take_word i w) = printed w" "length (pipes (take_word i w)) = length (pipes w)"
  by (simp_all add: take_word_def set_pipe_def)

lemma take_word_view:
  assumes "i < length (pipes w)"
  shows "words (take_word i w) j = words w j" "reads (take_word i w) j = (if j = i then Suc (reads w i) else reads w j)"
  using assms by (simp_all add: take_word_def set_pipe_def words_def reads_def nth_list_update)

lemma set_process_simps [simp]:
  "procs (set_process k p w) = (procs w)[k := p]" "printed (set_process k p w) = printed w" "pipes (set_process k p w) = pipes w"
  "words (set_process k p w) = words w" "reads (set_process k p w) = reads w"
  by (auto simp: set_process_def words_def reads_def)

lemma last_pipe_cong:
  assumes "last_pipe w" "k < length (procs w)" "procs w' = (procs w)[k := p']" "length (pipes w') = length (pipes w)"
    "Suc k = length (procs w) \<Longrightarrow> point p' \<noteq> Call_fork"
    "Suc k = length (procs w) \<Longrightarrow> point p' \<in> {Create_pipe, Leave_input, Close_own_writer, Read_first} \<Longrightarrow> length (pipes w) = k"
  shows "last_pipe w'"
proof (rule last_pipeI)
  let ?N = "length (procs w)"
  have last: "procs w' ! (?N - 1) = (if Suc k = ?N then p' else procs w ! (?N - 1))"
    using assms(2,3) by (auto simp: nth_list_update)
  have len: "length (procs w') = ?N" by (simp add: assms(3))
  show "point (procs w' ! (length (procs w') - 1)) = Call_fork \<Longrightarrow> length (pipes w') = length (procs w')"
    unfolding len last assms(4) using last_pipeD(4) [OF assms(1), of "?N - 1"] assms(2,5) by (auto split: if_splits)
  show "point (procs w' ! (length (procs w') - 1)) \<in> {Create_pipe, Leave_input, Close_own_writer, Read_first} \<Longrightarrow>
    Suc (length (pipes w')) = length (procs w')"
    unfolding len last assms(4) using last_pipeD(5) [OF assms(1), of "?N - 1"] assms(2,6) by (cases "Suc k = ?N") simp_all
qed (use last_pipeD(1-3) [OF assms(1)] in \<open>simp_all add: assms(3,4)\<close>)

lemma inv_read:
  assumes I: "sieve_inv n F w" and k: "0 < k" "k < length (procs w)" and r: "readsome w (k - 1) = Word x"
    and pt: "Suc k = length (procs w) \<Longrightarrow> point p' = Create_pipe \<and> point (procs w ! k) = Read_first"
    and cl: "\<not> closed (procs w ! k)"
    and out: "out = printed w \<and> Suc k \<noteq> length (procs w) \<or> out = printed w @ [x] \<and> Suc k = length (procs w) \<and>
      reads w (k - 1) = 0 \<and> length (printed w) = k - 1"
    and new: "stage_ok (unat n) F k (Suc k = length (procs w)) p' (words w k) (Suc (reads w (k - 1))) (closed (procs w ! (k - 1))) (length out)"
  shows "sieve_inv n F ((set_process k p' (take_word (k - 1) w))\<lparr>printed := out\<rparr>)" (is "sieve_inv n F ?w")
proof (rule inv_update [OF I k(2), where p' = p'])
  note D = sieve_invD [OF I] and x = next_word [OF I k r]
  have np: "k - 1 < length (pipes w)" using pipe_exists(1) [OF D(1), of "k - 1"] k by simp
  have w: "words ?w j = words w j" "reads ?w j = (if j = k - 1 then Suc (reads w (k - 1)) else reads w j)" for j
    using take_word_view [OF np, of j] by (simp_all add: words_def reads_def)
  show "procs ?w = (procs w)[k := p']" by simp
  show "\<And>i. i < length (pipes w) \<Longrightarrow> i \<noteq> k \<Longrightarrow> words ?w i = words w i" by (rule w(1))
  show "\<And>i. i < length (pipes w) \<Longrightarrow> Suc i \<noteq> k \<Longrightarrow> reads ?w i = reads w i" unfolding w(2) using k by auto
  show "last_pipe ?w"
    by (rule last_pipe_cong [OF D(1) k(2), of _ p']) (use pt last_pipeD(5) [OF D(1), of k] in simp_all)
  show "pipes_fine (unat n) ?w" using D(2) x(1) unfolding pipes_fine_def w by auto
  show "prints_heads (unat n) ?w"
    using out
  proof (elim disjE conjE)
    assume o: "out = printed w @ [x]" "reads w (k - 1) = 0" "length (printed w) = k - 1"
    have "stream (unat n) (k - 1) \<noteq> []" "unat x = hd (stream (unat n) (k - 1))" using x(2,3) o(2) by (auto simp: hd_conv_nth)
    then show ?thesis using D(3) o by (auto simp: prints_heads_def less_Suc_eq)
  qed (use D(3) in \<open>simp add: prints_heads_def\<close>)
  show "printed ?w = printed w \<or> 0 < k \<and> Suc k = length (procs w)" using out k by auto
  show "0 < k \<Longrightarrow> stage_ok (unat n) F k (Suc k = length (procs w)) p' (words ?w k) (reads ?w (k - 1)) (closed (procs w ! (k - 1))) (length (printed ?w))"
    using new unfolding w by simp
qed (use k cl in simp_all)

lemma inv_write:
  assumes I: "sieve_inv n F w" and k: "Suc k < length (procs w)"
    and pre: "\<exists>r. stream (unat n) k = words w k @ [unat x] @ r"
    and cl: "\<not> closed (procs w ! k)"
    and new: "k = 0 \<Longrightarrow> main_ok n F (length (procs w)) p' (words w 0 @ [unat x])"
      "0 < k \<Longrightarrow> stage_ok (unat n) F k False p' (words w k @ [unat x]) (reads w (k - 1)) (closed (procs w ! (k - 1))) (length (printed w))"
    and wr: "writesome cap k k x p' w = Some w'"
  shows "sieve_inv n F w'"
proof (cases "end_open w k False")
  case False
  then have w': "w' = die k w" using wr by (simp add: writesome_def Let_def)
  show ?thesis
  proof (cases F)
    case True
    then have "(k, False) \<in> ends (procs w ! Suc k)" using open_reader [of n w k] I k cl by simp
    then have "end_open w k False" using k by (intro end_openI [of "Suc k"]) simp_all
    with False show ?thesis by simp
  next
    case False
    then show ?thesis using die_inv [of n w k] I k w' by simp
  qed
next
  case True
  note D = sieve_invD [OF I]
  have np: "k < length (pipes w)" using pipe_exists(1) [OF D(1) k] .
  let ?q = "(pipes w ! k)\<lparr>sent := sent (pipes w ! k) @ [x]\<rparr>"
  have w': "w' = set_process k p' (set_pipe k ?q w)" using wr True by (simp add: writesome_def Let_def split: if_splits)
  have w: "words w' j = (if j = k then words w k @ [unat x] else words w j)" "reads w' j = reads w j" for j
    using np by (simp_all add: w' set_pipe_def words_def reads_def set_process_def nth_list_update)
  show ?thesis
  proof (rule inv_update [OF I, where k = k and p' = p'])
    show "procs w' = (procs w)[k := p']" by (simp add: w' set_pipe_def)
    show "last_pipe w'"
      by (rule last_pipe_cong [OF D(1), of k _ p']) (use k in \<open>simp_all add: w' set_pipe_def\<close>)
    show "pipes_fine (unat n) w'"
      using D(2) pre by (auto simp: pipes_fine_def w) (simp_all add: w' set_pipe_def le_SucI)
    show "prints_heads (unat n) w'" using D(3) by (simp add: prints_heads_def w' set_pipe_def)
    show "printed w' = printed w \<or> 0 < k \<and> Suc k = length (procs w)" by (simp add: w' set_pipe_def)
    show "0 < k \<Longrightarrow> stage_ok (unat n) F k (Suc k = length (procs w)) p' (words w' k) (reads w' (k - 1)) (closed (procs w ! (k - 1))) (length (printed w'))"
      using new(2) k by (simp add: w) (simp add: w' set_pipe_def)
    show "k = 0 \<Longrightarrow> main_ok n F (length (procs w)) p' (words w' 0)" using new(1) by (simp add: w)
  qed (use k cl w in simp_all)
qed


section \<open>Every step keeps the invariant\<close>

lemma inv_create_pipe:
  assumes I: "sieve_inv n F w" and k: "k < length (procs w)" and pt: "point (procs w ! k) = Create_pipe"
    and act: "act True cap maxp k w = Some w'"
  shows "sieve_inv n F w'"
proof -
  note D = sieve_invD [OF I]
  let ?p = "procs w ! k"
  have last: "Suc k = length (procs w)"
    using D(5) D(6) [of k] k pt by (cases "k = 0") (simp_all add: main_ok_def stage_ok_def)
  then have np: "length (pipes w) = k" using last_pipeD(5) [OF D(1)] pt by simp
  let ?p' = "?p\<lparr>point := Call_fork, fds := k, ends := ends ?p \<union> {(k, False), (k, True)}\<rparr>"
  have w': "w' = set_process k ?p' (w\<lparr>pipes := pipes w @ [\<lparr>sent = [], taken = 0\<rparr>]\<rparr>)"
    using act pt np by (simp add: act_def Let_def)
  have w: "words w' i = (if i = k then [] else words w i)" "reads w' i = (if i = k then 0 else reads w i)" if "i \<le> k" for i
    using that np by (auto simp: w' words_def reads_def set_process_def nth_append)
  show ?thesis
  proof (rule inv_update [OF I k, where p' = ?p'])
    have "length (procs w) - Suc 0 = k" using last by simp
    then show "last_pipe w'" using last np k by (intro last_pipeI) (auto simp: w')
    show "pipes_fine (unat n) w'" using D(2) w np by (simp add: pipes_fine_def less_Suc_eq w')
    show "prints_heads (unat n) w'" using D(3) by (simp add: prints_heads_def w')
    show "k = 0 \<Longrightarrow> main_ok n F (length (procs w)) ?p' (words w' 0)"
      using D(5) pt by (simp add: main_ok_def w)
    show "0 < k \<Longrightarrow> stage_ok (unat n) F k (Suc k = length (procs w)) ?p' (words w' k) (reads w' (k - 1)) (closed (procs w ! (k - 1))) (length (printed w'))"
    proof -
      assume k0: "0 < k"
      have "k \<noteq> k - 1" using k0 by simp
      then have wk: "words w' k = []" "reads w' (k - 1) = reads w (k - 1)" "printed w' = printed w"
        using w(1) [of k] w(2) [of "k - 1"] by (auto simp: w')
      show ?thesis
        unfolding wk using D(6) [of k] k0 pt last by (simp add: stage_ok_def started_def insert_commute)
    qed
  qed (use np w pt in \<open>auto simp: closed_def w'\<close>)
qed

lemma inv_fork:
  assumes I: "sieve_inv n F w" and k: "k < length (procs w)" and pt: "point (procs w ! k) = Call_fork"
    and act: "act True cap maxp k w = Some w'" and F: "F \<Longrightarrow> unat n + 1 < maxp"
  shows "sieve_inv n F w'"
proof -
  note D = sieve_invD [OF I]
  let ?p = "procs w ! k" and ?N = "length (procs w)"
  have last: "Suc k = ?N" using D(5) D(6) [of k] k pt by (cases "k = 0") (simp_all add: main_ok_def stage_ok_def)
  have np: "length (pipes w) = Suc k" by (rule last_pipeD(4) [OF D(1) last pt])
  have m: "length (printed w) = k" "words w k = []"
    using D(4,5) D(6) [of k] pt last by (cases "k = 0"; simp add: main_ok_def stage_ok_def)+
  show ?thesis
  proof (cases "?N \<ge> maxp")
    case True
    have "\<not> F"
    proof
      assume F
      have "k = 0 \<or> stream (unat n) (k - 1) \<noteq> []" using D(6) [of k] k pt by (auto simp: stage_ok_def started_def)
      then have "k \<le> unat n" using length_stream [of "unat n" "k - 1"] by (cases "stream (unat n) (k - 1)") auto
      with F \<open>F\<close> True last show False by simp
    qed
    moreover have "w' = die k w" using act pt True by (simp add: act_def fork_process_def Let_def)
    ultimately show ?thesis using die_inv [of n w k] I k by simp
  next
    case False
    let ?p' = "?p\<lparr>point := Close_reader, child_process := Some ?N\<rparr>"
    let ?c = "?p\<lparr>point := if first_process ?p then Close_own_writer else Leave_input, first_process := False, child_process := None\<rparr>"
    have w': "w' = w\<lparr>procs := (procs w)[k := ?p'] @ [?c]\<rparr>"
      using act pt False by (simp add: act_def fork_process_def Let_def)
    have nth: "procs w' ! j = (if j = k then ?p' else if j = ?N then ?c else procs w ! j)" if "j \<le> ?N" for j
      using that k by (auto simp: w' nth_append nth_list_update)
    have w: "words w' = words w" "reads w' = reads w" "printed w' = printed w" "pipes w' = pipes w" by (auto simp: w' words_def reads_def)
    have len: "length (procs w') = Suc ?N" by (simp add: w')
    have "reads w k \<le> length (words w k)" using D(2) np unfolding pipes_fine_def by simp
    then have r0: "reads w k = 0" using m(2) by simp
    have "last_pipe w'" using np last nth [of ?N] len by (intro last_pipeI) (auto simp: w split: if_splits)
    moreover have "main_ok n F (length (procs w')) (procs w' ! 0) (words w' 0)"
    proof (cases "k = 0")
      case True
      then show ?thesis using D(5) pt last nth [of 0] len by (simp add: main_ok_def w)
    next
      case False
      then have "?N \<noteq> 1" using last by simp
      moreover have "procs w \<noteq> []" using k by auto
      ultimately show ?thesis using D(5) nth [of 0] False len last by (cases "point (procs w ! 0)") (simp_all add: main_ok_def w del: upt_Suc)
    qed
    moreover have "stage_ok (unat n) F j (Suc j = length (procs w')) (procs w' ! j) (words w' j) (reads w' (j - 1))
      (closed (procs w' ! (j - 1))) (length (printed w'))" if j: "0 < j" "j < length (procs w')" for j
    proof -
      consider "j < k" | "j = k" | "j = ?N" using j last len by linarith
      then show ?thesis
      proof cases
        case 1
        then have e: "procs w' ! j = procs w ! j" "procs w' ! (j - 1) = procs w ! (j - 1)" "j < ?N" "Suc j \<noteq> ?N" "j \<noteq> ?N"
          using nth [of j] nth [of "j - 1"] last j by (simp_all add: nth)
        then show ?thesis using D(6) [OF j(1) e(3)] len unfolding e(1,2) w by simp
      next
        case 2
        then have e: "procs w' ! k = ?p'" "procs w' ! (k - 1) = procs w ! (k - 1)"
          using nth [of k] nth [of "k - 1"] last j by simp_all
        show ?thesis
          using D(6) [of k] 2 j(1) last len pt unfolding 2 e w by (simp add: stage_ok_def started_def)
      next
        case 3
        have c: "procs w' ! ?N = ?c" using k by (simp add: w' nth_append)
        show ?thesis
        proof (cases "k = 0")
          case True
          then show ?thesis using D(5) 3 pt c last len m r0 by (simp add: w stage_ok_def main_ok_def)
        next
          case False
          then have "k - 1 = ?N - 2" "?N - 1 = k" using last by simp_all
          then show ?thesis
            using D(6) [of k] False 3 pt c last len m r0 by (simp add: w stage_ok_def started_def)
        qed
      qed
    qed
    ultimately show ?thesis
      using D(2,3) k len unfolding sieve_inv_def by (auto simp: w pipes_fine_def prints_heads_def)
  qed
qed


lemma filtered_next:
  assumes "1 \<le> t" "t < length (stream n (k - 1))"
  shows "filtered n k (Suc t) = filtered n k t @ (if stream n (k - 1) ! t mod hd (stream n (k - 1)) \<noteq> 0 then [stream n (k - 1) ! t] else [])"
proof -
  have "take (Suc t) (stream n (k - 1)) = take t (stream n (k - 1)) @ [stream n (k - 1) ! t]"
    using assms(2) by (rule take_Suc_conv_app_nth)
  moreover have "take t (stream n (k - 1)) \<noteq> []" using assms by (cases "stream n (k - 1)") auto
  ultimately show ?thesis by (simp add: filtered_def)
qed

lemma filtered_prefix:
  assumes "0 < k"
  shows "\<exists>r. stream n k = filtered n k t @ r"
proof -
  let ?S = "stream n (k - 1)" and ?P = "\<lambda>x. x mod hd (stream n (k - 1)) \<noteq> 0"
  have "tl ?S = tl (take t ?S) @ (if t = 0 then tl ?S else drop t ?S)"
    by (cases t; cases ?S) simp_all
  then have "filter ?P (tl ?S) = filter ?P (tl (take t ?S)) @ filter ?P (if t = 0 then tl ?S else drop t ?S)"
    by (metis filter_append)
  then show ?thesis using assms stream.simps(2) [of n "k - 1"] by (auto simp: filtered_def)
qed

lemma filtered_all:
  assumes "0 < k" "length (stream n (k - 1)) \<le> t"
  shows "filtered n k t = stream n k"
  using assms stream.simps(2) [of n "k - 1"] by (simp add: filtered_def)

lemma filtered_1: "stream n (k - 1) \<noteq> [] \<Longrightarrow> filtered n k 1 = []"
  by (cases "stream n (k - 1)") (simp_all add: filtered_def)

lemma filtered_Suc_0: "stream n (k - 1) \<noteq> [] \<Longrightarrow> filtered n k (Suc 0) = []"
  using filtered_1 by simp

text \<open>The first process.\<close>

lemma inv_main:
  assumes I: "sieve_inv n F w" and N: "0 < length (procs w)" and act: "act True cap maxp 0 w = Some w'"
    and F: "F \<Longrightarrow> unat n + 1 < maxp" and n: "n + 1 \<noteq> 0" "2 \<le> unat n"
  shows "sieve_inv n F w'"
proof -
  note D = sieve_invD [OF I]
  let ?p = "procs w ! 0"
  have nmax: "unat n < 2 ^ 32 - 1"
  proof -
    have "unat (n + 1) = (if unat n + 1 < 2 ^ 32 then unat n + 1 else 0)"
      using unat_word_bound [of n] by (simp add: unat_word_ariths mod_if)
    moreover have "unat (n + 1) \<noteq> 0" using n(1) by (simp add: unat_eq_0)
    ultimately show ?thesis by (simp split: if_splits)
  qed
  consider "point ?p = Create_pipe" | "point ?p = Call_fork" | "point ?p = Close_reader" | "point ?p = Generate" | "point ?p = Await_child"
    | "point ?p = Exited"
    using D(5) by (cases "point ?p") (simp_all add: main_ok_def)
  then show ?thesis
  proof cases
    case 1
    then show ?thesis by (rule inv_create_pipe [OF I N _ act])
  next
    case 2
    then show ?thesis by (rule inv_fork [OF I N _ act F])
  next
    case 3
    then have w': "w' = set_process 0 (?p\<lparr>ends := ends ?p - {(fds ?p, False)}, point := Generate, var_buf := 2\<rparr>) w"
      using act D(5) by (simp add: act_def Let_def main_ok_def)
    have "main_ok n F (length (procs w)) (?p\<lparr>ends := ends ?p - {(fds ?p, False)}, point := Generate, var_buf := 2\<rparr>) (words w 0)"
      "length (procs w) \<noteq> Suc 0"
      using D(5) 3 n(2) by (simp_all add: main_ok_def insert_Diff_if)
    then show ?thesis unfolding w' by (intro inv_local [OF I N]) (use 3 in \<open>simp_all add: closed_def\<close>)
  next
    case 5
    then have w': "w' = set_process 0 (?p\<lparr>point := Exited, ends := {}, out_buffer := []\<rparr>) w"
      using act D(5) by (auto simp: act_def Let_def main_ok_def split: if_splits)
    show ?thesis unfolding w' by (rule inv_local [OF I N]) (use D(5) 5 N in \<open>auto simp: main_ok_def closed_def simp del: stream.simps\<close>)
  next
    case 6
    then show ?thesis using act by (simp add: act_def Let_def)
  next
    case 4
    have m: "1 < length (procs w)" "fds ?p = 0" "var_n ?p = n" "words w 0 = [2..<unat (var_buf ?p)]" "2 \<le> unat (var_buf ?p)"
      "unat (var_buf ?p) \<le> Suc (unat n)" "ends ?p = {(0, True)}"
      using D(5) 4 by (simp_all add: main_ok_def)
    show ?thesis
    proof (cases "var_buf ?p \<le> n")
      case False
      then have "unat (var_buf ?p) = Suc (unat n)" using m(6) by (simp add: word_le_nat_alt)
      moreover have w': "w' = set_process 0 (?p\<lparr>point := Await_child, ends := ends ?p - {(fds ?p, True)}\<rparr>) w"
        using act 4 False m(3) by (simp add: act_def Let_def)
      ultimately show ?thesis
        unfolding w' by (intro inv_local [OF I N]) (use D(5) 4 m in \<open>auto simp: main_ok_def closed_def simp del: upt_Suc\<close>)
    next
      case True
      then have le: "unat (var_buf ?p) \<le> unat n" by (simp add: word_le_nat_alt)
      have b1: "unat (var_buf ?p + 1) = Suc (unat (var_buf ?p))" using le nmax by (simp add: unat_word_ariths)
      have wr: "writesome cap 0 0 (var_buf ?p) (?p\<lparr>var_buf := var_buf ?p + 1\<rparr>) w = Some w'"
        using act 4 True m(2,3) by (simp add: act_def Let_def)
      show ?thesis
      proof (rule inv_write [OF I _ _ _ _ _ wr])
        have "[2..<Suc (unat n)] = [2..<unat (var_buf ?p)] @ [unat (var_buf ?p)..<Suc (unat n)]"
          using m(5,6) upt_add_eq_append [of 2 "unat (var_buf ?p)" "Suc (unat n) - unat (var_buf ?p)"] by simp
        then show "\<exists>r. stream (unat n) 0 = words w 0 @ [unat (var_buf ?p)] @ r"
          using le m(4) by (auto simp: upt_conv_Cons simp del: upt_Suc)
        show "main_ok n F (length (procs w)) (?p\<lparr>var_buf := var_buf ?p + 1\<rparr>) (words w 0 @ [unat (var_buf ?p)])"
          using D(5) 4 m le b1 by (simp add: main_ok_def)
      qed (use m 4 in \<open>simp_all add: closed_def\<close>)
    qed
  qed
qed


text \<open>A stage.\<close>

lemma printed_same: "printed w = x \<Longrightarrow> w\<lparr>printed := x\<rparr> = w"
  by (cases w) simp

lemma stage_word:
  assumes I: "sieve_inv n F w" and k: "0 < k" "k < length (procs w)" and r: "readsome w (k - 1) = Word x"
    and pt: "point (procs w ! k) = Filter_next" and act: "act True cap maxp k w = Some w'"
  shows "sieve_inv n F w'"
proof -
  let ?p = "procs w ! k" and ?S = "stream (unat n) (k - 1)"
  have S: "stage_ok (unat n) F k (Suc k = length (procs w)) ?p (words w k) (reads w (k - 1)) (closed (procs w ! (k - 1))) (length (printed w))"
    by (rule sieve_invD(6) [OF I k])
  have p: "Suc k \<noteq> length (procs w)" "?S \<noteq> []" "unat (var_n ?p) = hd ?S" "readfd ?p = k - 1" "1 \<le> reads w (k - 1)"
    "words w k = filtered (unat n) k (reads w (k - 1))"
    using S pt by (simp_all add: stage_ok_def started_def)
  note x = next_word [OF I k r]
  have "2 \<le> hd ?S" using stream_ge2 [of "hd ?S" "unat n" "k - 1"] p(2) by simp
  then have v0: "var_n ?p \<noteq> 0" using p(3) by auto
  have md: "x mod var_n ?p \<noteq> 0 \<longleftrightarrow> ?S ! reads w (k - 1) mod hd ?S \<noteq> 0"
    using x(3) p(3) by (simp add: word_unat_eq_iff unat_mod)
  let ?p' = "?p\<lparr>var_buf := x, point := if x mod var_n ?p \<noteq> 0 then Pass_on else Filter_next\<rparr>"
  have "w' = set_process k ?p' (take_word (k - 1) w)" using act pt p(4) r v0 by (simp add: act_def Let_def)
  then have w': "w' = (set_process k ?p' (take_word (k - 1) w))\<lparr>printed := printed w\<rparr>" using printed_same [of w' "printed w"] by simp
  have "stage_ok (unat n) F k False ?p' (words w k) (Suc (reads w (k - 1))) (closed (procs w ! (k - 1))) (length (printed w))"
    using S pt p(1) filtered_next [OF p(5) x(2)] md x(3) by (auto simp: stage_ok_def started_def)
  then show ?thesis unfolding w' by (intro inv_read [OF I k r]) (use p(1) pt in \<open>simp_all add: closed_def\<close>)
qed

lemma stage_pass:
  assumes I: "sieve_inv n F w" and k: "0 < k" "k < length (procs w)"
    and pt: "point (procs w ! k) = Pass_on" and act: "act True cap maxp k w = Some w'"
  shows "sieve_inv n F w'"
proof -
  let ?p = "procs w ! k"
  have S: "stage_ok (unat n) F k (Suc k = length (procs w)) ?p (words w k) (reads w (k - 1)) (closed (procs w ! (k - 1))) (length (printed w))"
    by (rule sieve_invD(6) [OF I k])
  have p: "Suc k \<noteq> length (procs w)" "fds ?p = k" "words w k @ [unat (var_buf ?p)] = filtered (unat n) k (reads w (k - 1))"
    using S pt by (simp_all add: stage_ok_def)
  have wr: "writesome cap k k (var_buf ?p) (?p\<lparr>point := Filter_next\<rparr>) w = Some w'" using act pt p(2) by (simp add: act_def Let_def)
  have lt: "Suc k < length (procs w)" using k p(1) by simp
  show ?thesis
  proof (rule inv_write [OF I lt _ _ _ _ wr])
    show "\<exists>r. stream (unat n) k = words w k @ [unat (var_buf ?p)] @ r"
      using filtered_prefix [OF k(1), of "unat n" "reads w (k - 1)"] unfolding p(3) [symmetric] by simp
    show "stage_ok (unat n) F k False (?p\<lparr>point := Filter_next\<rparr>) (words w k @ [unat (var_buf ?p)]) (reads w (k - 1)) (closed (procs w ! (k - 1)))
      (length (printed w))"
      using S pt p(1) unfolding p(3) by (simp add: stage_ok_def started_def)
  qed (use k pt in \<open>simp_all add: closed_def\<close>)
qed

lemma stage_first:
  assumes I: "sieve_inv n F w" and k: "0 < k" "k < length (procs w)" and r: "readsome w (k - 1) = Word x"
    and pt: "point (procs w ! k) = Read_first" and act: "act True cap maxp k w = Some w'"
  shows "sieve_inv n F w'"
proof -
  let ?p = "procs w ! k" and ?S = "stream (unat n) (k - 1)"
  have S: "stage_ok (unat n) F k (Suc k = length (procs w)) ?p (words w k) (reads w (k - 1)) (closed (procs w ! (k - 1))) (length (printed w))"
    by (rule sieve_invD(6) [OF I k])
  have p: "Suc k = length (procs w)" "readfd ?p = k - 1" "reads w (k - 1) = 0" "length (printed w) = k - 1"
    using S pt by (simp_all add: stage_ok_def)
  note x = next_word [OF I k r]
  let ?p' = "?p\<lparr>point := Create_pipe, var_n := x\<rparr>"
  have w': "w' = (set_process k ?p' (take_word (k - 1) w))\<lparr>printed := printed w @ [x]\<rparr>"
    using act pt p(2) r by (simp add: act_def print_number_def Let_def)
  have "?S \<noteq> []" "unat x = hd ?S" using x(2,3) p(3) by (auto simp: hd_conv_nth)
  then have "stage_ok (unat n) F k True ?p' (words w k) (Suc (reads w (k - 1))) (closed (procs w ! (k - 1))) (length (printed w @ [x]))"
    using S pt p k(1) by (simp add: stage_ok_def started_def)
  then show ?thesis unfolding w' by (intro inv_read [OF I k r]) (use p pt in \<open>simp_all add: closed_def\<close>)
qed

lemma stage_eof:
  assumes I: "sieve_inv n F w" and k: "0 < k" "k < length (procs w)" and r: "readsome w (k - 1) = End_of_file"
    and pt: "point (procs w ! k) = Read_first \<or> point (procs w ! k) = Filter_next" and act: "act True cap maxp k w = Some w'"
  shows "sieve_inv n F w'"
proof -
  let ?p = "procs w ! k" and ?S = "stream (unat n) (k - 1)"
  have S: "stage_ok (unat n) F k (Suc k = length (procs w)) ?p (words w k) (reads w (k - 1)) (closed (procs w ! (k - 1))) (length (printed w))"
    by (rule sieve_invD(6) [OF I k])
  note e = end_of_file [OF I k r]
  let ?p' = "?p\<lparr>point := if point ?p = Read_first then Close_input else Close_writer\<rparr>"
  have w': "w' = set_process k ?p' w" using pt act r S by (auto simp: act_def stage_ok_def started_def Let_def)
  have "stage_ok (unat n) F k (Suc k = length (procs w)) ?p' (words w k) (reads w (k - 1)) (closed (procs w ! (k - 1))) (length (printed w))"
    using pt
  proof
    assume pt: "point ?p = Read_first"
    then have "F \<Longrightarrow> ?S = []" using S e(1,3) by (simp add: stage_ok_def)
    then show ?thesis using S pt e(2) by (simp add: stage_ok_def ended_def)
  next
    assume pt: "point ?p = Filter_next"
    then have "F \<Longrightarrow> words w k = stream (unat n) k"
      using S e(1,3) filtered_all [OF k(1), of "unat n" "reads w (k - 1)"] by (simp add: stage_ok_def)
    then show ?thesis using S pt e(2) by (simp add: stage_ok_def started_def ended_def)
  qed
  then show ?thesis
    unfolding w' by (intro inv_local [OF I k(2)]) (use pt k S in \<open>auto simp: closed_def stage_ok_def\<close>)
qed

lemma stage_local:
  assumes I: "sieve_inv n F w" and k: "0 < k" "k < length (procs w)"
    and pt: "point (procs w ! k) \<in> {Leave_input, Close_own_writer, Close_reader, Close_writer, Close_input, Await_child}"
    and act: "act True cap maxp k w = Some w'"
  shows "sieve_inv n F w'"
proof -
  let ?p = "procs w ! k"
  have S: "stage_ok (unat n) F k (Suc k = length (procs w)) ?p (words w k) (reads w (k - 1)) (closed (procs w ! (k - 1))) (length (printed w))"
    by (rule sieve_invD(6) [OF I k])
  note np = last_pipeD(5) [OF sieve_invD(1) [OF I], of k]
  have ne: "2 \<le> k \<Longrightarrow> k - Suc 0 \<noteq> k - 2" "k - Suc 0 \<noteq> k" using k(1) by simp_all
  have "\<exists>p'. w' = set_process k p' w \<and> (closed ?p \<longrightarrow> closed p') \<and> (point p' \<noteq> Call_fork) \<and>
      (point p' \<in> {Leave_input, Close_own_writer, Read_first} \<longrightarrow> point ?p \<in> {Leave_input, Close_own_writer}) \<and> point p' \<noteq> Create_pipe \<and>
      stage_ok (unat n) F k (Suc k = length (procs w)) p' (words w k) (reads w (k - 1)) (closed (procs w ! (k - 1))) (length (printed w))"
    using pt
  proof (elim insertE emptyE)
    assume pt: "point ?p = Leave_input"
    let ?p' = "?p\<lparr>point := Close_own_writer, ends := ends ?p - {(readfd ?p, False)}\<rparr>"
    have "w' = set_process k ?p' w" using act pt S by (simp add: act_def Let_def stage_ok_def)
    moreover have "stage_ok (unat n) F k (Suc k = length (procs w)) ?p' (words w k) (reads w (k - 1)) (closed (procs w ! (k - 1))) (length (printed w))"
      using S pt ne by (cases "Suc k = length (procs w)") (simp_all add: stage_ok_def started_def ended_def insert_Diff_if)
    ultimately show ?thesis using pt by (intro exI [of _ ?p']) (simp add: closed_def)
  next
    assume pt: "point ?p = Close_own_writer"
    let ?p' = "?p\<lparr>point := Read_first, readfd := fds ?p, ends := ends ?p - {(fds ?p, True)}\<rparr>"
    have "w' = set_process k ?p' w" using act pt S by (simp add: act_def Let_def stage_ok_def)
    moreover have "stage_ok (unat n) F k (Suc k = length (procs w)) ?p' (words w k) (reads w (k - 1)) (closed (procs w ! (k - 1))) (length (printed w))"
      using S pt ne by (cases "Suc k = length (procs w)") (simp_all add: stage_ok_def started_def ended_def insert_Diff_if)
    ultimately show ?thesis using pt by (intro exI [of _ ?p']) (simp add: closed_def)
  next
    assume pt: "point ?p = Close_reader"
    let ?p' = "?p\<lparr>ends := ends ?p - {(fds ?p, False)}, point := Filter_next\<rparr>"
    have fl: "words w k = filtered (unat n) k (reads w (k - 1))" using S pt filtered_Suc_0 by (simp add: stage_ok_def started_def)
    have "w' = set_process k ?p' w" using act pt S by (simp add: act_def Let_def stage_ok_def)
    moreover have "stage_ok (unat n) F k (Suc k = length (procs w)) ?p' (words w k) (reads w (k - 1)) (closed (procs w ! (k - 1))) (length (printed w))"
      using S pt ne fl by (simp add: stage_ok_def started_def ended_def insert_Diff_if)
    ultimately show ?thesis using pt by (intro exI [of _ ?p']) (simp add: closed_def)
  next
    assume pt: "point ?p = Close_writer"
    let ?p' = "?p\<lparr>point := Close_input, ends := ends ?p - {(fds ?p, True)}\<rparr>"
    have "w' = set_process k ?p' w" using act pt S by (simp add: act_def Let_def stage_ok_def)
    moreover have "stage_ok (unat n) F k (Suc k = length (procs w)) ?p' (words w k) (reads w (k - 1)) (closed (procs w ! (k - 1))) (length (printed w))"
      using S pt ne by (cases "Suc k = length (procs w)") (simp_all add: stage_ok_def started_def ended_def insert_Diff_if)
    ultimately show ?thesis using pt by (intro exI [of _ ?p']) (simp add: closed_def)
  next
    assume pt: "point ?p = Close_input"
    let ?p' = "?p\<lparr>point := Await_child, ends := ends ?p - {(readfd ?p, False)}\<rparr>"
    have "w' = set_process k ?p' w" using act pt S by (simp add: act_def Let_def stage_ok_def)
    moreover have "stage_ok (unat n) F k (Suc k = length (procs w)) ?p' (words w k) (reads w (k - 1)) (closed (procs w ! (k - 1))) (length (printed w))"
      using S pt ne by (cases "Suc k = length (procs w)") (simp_all add: stage_ok_def started_def ended_def insert_Diff_if)
    ultimately show ?thesis using pt by (intro exI [of _ ?p']) (simp add: closed_def)
  next
    assume pt: "point ?p = Await_child"
    have "out_buffer ?p = []" using S by (simp add: stage_ok_def)
    then have "w' = set_process k (?p\<lparr>point := Exited, ends := {}, out_buffer := []\<rparr>) w"
      using act pt by (simp add: act_def Let_def split: option.splits if_splits)
    moreover have "stage_ok (unat n) F k (Suc k = length (procs w)) (?p\<lparr>point := Exited, ends := {}, out_buffer := []\<rparr>)
        (words w k) (reads w (k - 1)) (closed (procs w ! (k - 1))) (length (printed w))"
      using S pt by (simp add: stage_ok_def)
    ultimately show ?thesis
      by (intro exI [of _ "?p\<lparr>point := Exited, ends := {}, out_buffer := []\<rparr>"]) (simp add: closed_def)
  qed
  then obtain p' where p': "w' = set_process k p' w" "closed ?p \<longrightarrow> closed p'" "point p' \<noteq> Call_fork" "point p' \<noteq> Create_pipe"
    "point p' \<in> {Leave_input, Close_own_writer, Read_first} \<longrightarrow> point ?p \<in> {Leave_input, Close_own_writer}"
    "stage_ok (unat n) F k (Suc k = length (procs w)) p' (words w k) (reads w (k - 1)) (closed (procs w ! (k - 1))) (length (printed w))"
    by blast
  show ?thesis
    unfolding p'(1) by (rule inv_local [OF I k(2)]) (use p' np k in auto)
qed

lemma act_inv:
  assumes I: "sieve_inv n F w" and k: "k < length (procs w)" and act: "act True cap maxp k w = Some w'"
    and F: "F \<Longrightarrow> unat n + 1 < maxp" and n: "n + 1 \<noteq> 0" "2 \<le> unat n"
  shows "sieve_inv n F w'"
proof (cases "k = 0")
  case True
  then show ?thesis using inv_main [OF I _ _ F n] k act by simp
next
  case False
  then have k0: "0 < k" by simp
  let ?p = "procs w ! k"
  note S = sieve_invD(6) [OF I k0 k]
  have rd: "point ?p \<in> {Read_first, Filter_next} \<Longrightarrow> readfd ?p = k - 1" using S by (auto simp: stage_ok_def started_def)
  show ?thesis
  proof (cases "point ?p")
    case Generate
    then show ?thesis using S by (simp add: stage_ok_def)
  next
    case Exited
    then show ?thesis using act by (simp add: act_def Let_def)
  next
    case Read_first
    then have "readsome w (k - 1) \<noteq> Blocked" using act rd by (auto simp: act_def Let_def)
    then show ?thesis
      using stage_first [OF I k0 k _ Read_first act] stage_eof [OF I k0 k _ _ act] Read_first by (cases "readsome w (k - 1)") auto
  next
    case Filter_next
    then have "readsome w (k - 1) \<noteq> Blocked" using act rd by (auto simp: act_def Let_def)
    then show ?thesis
      using stage_word [OF I k0 k _ Filter_next act] stage_eof [OF I k0 k _ _ act] Filter_next by (cases "readsome w (k - 1)") auto
  qed (use inv_create_pipe [OF I k _ act] inv_fork [OF I k _ act F] stage_pass [OF I k0 k _ act] stage_local [OF I k0 k _ act] in simp_all)
qed


section \<open>Reachable states\<close>

lemma start_inv: "primes_main n = Some w \<Longrightarrow> sieve_inv n F w \<and> 2 \<le> unat n \<and> length (procs w) = 1"
proof -
  assume "primes_main n = Some w"
  then have w: "\<not> n < 2" "w = \<lparr>procs = [\<lparr>point = Create_pipe, first_process = True, var_n = n, var_buf = 0, fds = 0,
          readfd = 0, ends = {}, child_process = None, out_buffer = []\<rparr>], pipes = [], printed = []\<rparr>"
    by (simp_all add: primes_main_def split: if_splits)
  have "2 \<le> unat n" using w(1) by (simp add: word_less_nat_alt)
  moreover have "sieve_inv n F w"
    by (simp add: w(2) sieve_inv_def last_pipe_def pipes_fine_def prints_heads_def main_ok_def Let_def)
  ultimately show ?thesis by (simp add: w(2))
qed

lemma reachable_inv:
  assumes "(sieve_step faults True cap maxp)\<^sup>*\<^sup>* w0 w" "primes_main n = Some w0" "n + 1 \<noteq> 0" "F \<Longrightarrow> \<not> faults \<and> unat n + 1 < maxp"
  shows "sieve_inv n F w"
  using assms(1)
proof (induction rule: rtranclp_induct)
  case base
  show ?case using start_inv [OF assms(2)] by simp
next
  case (step w w')
  show ?case
    using step(2)
  proof cases
    case (call k)
    have F: "F \<Longrightarrow> unat n + 1 < maxp" using assms(4) by blast
    show ?thesis using act_inv [OF step(3) call F assms(3)] start_inv [OF assms(2)] by simp
  next
    case (refused k)
    then have "\<not> F" using assms(4) by blast
    then show ?thesis using die_inv [of n w k] step(3) refused by simp
  qed
qed

section \<open>No deadlock\<close>

lemma nobody_writes:
  assumes I: "sieve_inv n True w" and stuck: "\<And>k. k < length (procs w) \<Longrightarrow> act True cap maxp k w = None" and cap: "0 < cap"
    and k: "k < length (procs w)"
  shows "point (procs w ! k) \<notin> {Generate, Pass_on}"
  using k
proof (induction "length (procs w) - k" arbitrary: k rule: less_induct)
  case less
  show ?case
  proof
    let ?p = "procs w ! k"
    assume pt: "point ?p \<in> {Generate, Pass_on}"
    have st: "Suc k < length (procs w)" "fds ?p = k" "\<not> closed ?p"
      using pt sieve_invD(5) [OF I] sieve_invD(6) [OF I, of k] less.prems
      by (cases "k = 0"; auto simp: main_ok_def stage_ok_def closed_def)+
    have "writesome cap k k (var_buf ?p) (if point ?p = Generate then ?p\<lparr>var_buf := var_buf ?p + 1\<rparr> else ?p\<lparr>point := Filter_next\<rparr>) w = None"
      using stuck [OF less.prems] pt st(2) by (auto simp: act_def Let_def split: if_splits)
    then have full: "reads w k < length (words w k)" using cap by (auto simp: writesome_def reads_def words_def Let_def split: if_splits)
    let ?q = "procs w ! Suc k"
    have S: "stage_ok (unat n) True (Suc k) (Suc (Suc k) = length (procs w)) ?q (words w (Suc k)) (reads w k) False (length (printed w))"
      using sieve_invD(6) [OF I, of "Suc k"] st(1,3) by simp
    have r: "readsome w k \<noteq> Blocked" using full by (simp add: readsome_def reads_def words_def Let_def)
    have "point ?q \<noteq> Pass_on" using less.hyps [of "Suc k"] st(1) less.prems by simp
    then show False
      using S stuck [OF st(1)] r
      by (cases "point ?q"; cases "readsome w k") (auto simp: stage_ok_def started_def ended_def act_def Let_def split: if_splits)
  qed
qed

lemma stuck_points:
  assumes I: "sieve_inv n True w" and stuck: "\<And>k. k < length (procs w) \<Longrightarrow> act True cap maxp k w = None" and cap: "0 < cap"
    and k: "k < length (procs w)"
  shows "closed (procs w ! k) \<or> 0 < k \<and> point (procs w ! k) \<in> {Read_first, Filter_next} \<and> readsome w (k - 1) = Blocked"
    "point (procs w ! k) \<noteq> Close_input"
proof -
  let ?p = "procs w ! k"
  note nw = nobody_writes [OF I stuck cap k]
  show "point ?p \<noteq> Close_input" using stuck [OF k] by (auto simp: act_def Let_def)
  show "closed ?p \<or> 0 < k \<and> point ?p \<in> {Read_first, Filter_next} \<and> readsome w (k - 1) = Blocked"
  proof (cases "k = 0")
    case True
    then show ?thesis
      using nw sieve_invD(5) [OF I] stuck [OF k] by (cases "point ?p") (simp_all add: main_ok_def act_def closed_def Let_def)
  next
    case False
    have S: "stage_ok (unat n) True k (Suc k = length (procs w)) ?p (words w k) (reads w (k - 1)) (closed (procs w ! (k - 1))) (length (printed w))"
      using sieve_invD(6) [OF I] False k by simp
    have rd: "point ?p \<in> {Read_first, Filter_next} \<Longrightarrow> readfd ?p = k - 1" using S by (auto simp: stage_ok_def started_def)
    show ?thesis
      using nw S stuck [OF k] rd False
      by (cases "point ?p"; cases "readsome w (k - 1)") (auto simp: stage_ok_def act_def closed_def Let_def split: if_splits)
  qed
qed

lemma stuck_closed:
  assumes I: "sieve_inv n True w" and stuck: "\<And>k. k < length (procs w) \<Longrightarrow> act True cap maxp k w = None" and cap: "0 < cap"
    and k: "k < length (procs w)"
  shows "closed (procs w ! k)"
  using k
proof (induction k)
  case 0
  then show ?case using stuck_points(1) [OF I stuck cap 0] by simp
next
  case (Suc k)
  then have c: "closed (procs w ! k)" by simp
  show ?case
  proof (rule ccontr)
    assume "\<not> closed (procs w ! Suc k)"
    then have "readsome w k = Blocked" using stuck_points(1) [OF I stuck cap Suc.prems] by simp
    then have "end_open w k True" by (auto simp: readsome_def Let_def split: if_splits)
    then obtain j where j: "j < length (procs w)" "(k, True) \<in> ends (procs w ! j)" by (auto simp: end_open_def in_set_conv_nth)
    show False
    proof (cases "j = 0")
      case True
      then show ?thesis
        using j c sieve_invD(5) [OF I] stuck_points [OF I stuck cap j(1)]
        by (cases "point (procs w ! 0)") (auto simp: main_ok_def closed_def)
    next
      case False
      then have S: "stage_ok (unat n) True j (Suc j = length (procs w)) (procs w ! j) (words w j) (reads w (j - 1))
          (closed (procs w ! (j - 1))) (length (printed w))"
        using sieve_invD(6) [OF I] j(1) by simp
      then have "j = k \<and> point (procs w ! j) = Filter_next"
        using j(2) stuck_points [OF I stuck cap j(1)] by (auto simp: stage_ok_def closed_def)
      then show False using c by (auto simp: closed_def)
    qed
  qed
qed

lemma stuck_exited:
  assumes I: "sieve_inv n True w" and stuck: "\<And>k. k < length (procs w) \<Longrightarrow> act True cap maxp k w = None" and cap: "0 < cap"
    and k: "k < length (procs w)"
  shows "point (procs w ! k) = Exited"
  using k
proof (induction "length (procs w) - k" arbitrary: k rule: less_induct)
  case less
  let ?p = "procs w ! k"
  have pt: "point ?p = Await_child \<or> point ?p = Exited"
    using stuck_closed [OF I stuck cap less.prems] stuck_points(2) [OF I stuck cap less.prems] by (auto simp: closed_def)
  have ch: "child_process ?p = (if Suc k = length (procs w) then None else Some (Suc k))" if "point ?p = Await_child"
    using that sieve_invD(5) [OF I] sieve_invD(6) [OF I, of k] less.prems by (cases "k = 0") (auto simp: main_ok_def stage_ok_def)
  show ?case
  proof (rule ccontr)
    assume "point ?p \<noteq> Exited"
    then have a: "point ?p = Await_child" using pt by simp
    have "point (procs w ! Suc k) = Exited" if "Suc k \<noteq> length (procs w)"
      using less.hyps [of "Suc k"] less.prems that by simp
    then show False using stuck [OF less.prems] a ch by (auto simp: act_def Let_def split: if_splits)
  qed
qed

lemma stuck_primes:
  assumes I: "sieve_inv n True w" and stuck: "\<And>k. k < length (procs w) \<Longrightarrow> act True cap maxp k w = None" and cap: "0 < cap"
  shows "map unat (printed w) = filter is_prime [0..<Suc (unat n)]"
proof -
  let ?N = "length (procs w)"
  note D = sieve_invD [OF I]
  have "0 < ?N" by (rule last_pipeD(1) [OF D(1)])
  then have "point (procs w ! 0) = Exited" using stuck_exited [OF I stuck cap] by simp
  then have N: "1 < ?N" using D(5) by (simp add: main_ok_def)
  let ?k = "?N - 1"
  have k: "0 < ?k" "?k < ?N" "Suc ?k = ?N" using N by simp_all
  have "point (procs w ! ?k) = Exited" using stuck_exited [OF I stuck cap k(2)] .
  then have "stream (unat n) (?k - 1) = []" "length (printed w) = ?k - 1"
    using D(6) [OF k(1,2)] k(3) by (simp_all add: stage_ok_def ended_def)
  then show ?thesis using D(3) all_primes [of "?k - 1" "unat n"] by (simp add: prints_heads_def del: upt_Suc)
qed

end
