(* ===== verification/ForkPrimesEnd.thy ===== *)
theory ForkPrimesEnd
  imports ForkPrimesSpec
begin

text \<open>
  The sieve ends: every call leaves less to do, so that every order of the processes comes to the
  state in which all of them have left and the primes are printed.
\<close>

section \<open>What is left to do\<close>

text \<open>How many calls are left at most for the first process, and for a stage whose pipe carries \<open>l\<close> words.\<close>

definition calls_left_main :: "nat \<Rightarrow> process \<Rightarrow> nat" where
  "calls_left_main n p = (case point p of
     Create_pipe \<Rightarrow> n + 7 | Call_fork \<Rightarrow> n + 6 | Close_reader \<Rightarrow> n + 5 | Generate \<Rightarrow> 4 + (Suc n - unat (var_buf p))
   | Await_child \<Rightarrow> 1 | _ \<Rightarrow> 0)"

definition calls_left :: "nat \<Rightarrow> nat \<Rightarrow> process \<Rightarrow> nat" where
  "calls_left l t p = (case point p of
     Leave_input \<Rightarrow> 2 * (l - t) + 10 | Close_own_writer \<Rightarrow> 2 * (l - t) + 9 | Read_first \<Rightarrow> 2 * (l - t) + 8
   | Create_pipe \<Rightarrow> 2 * (l - t) + 7 | Call_fork \<Rightarrow> 2 * (l - t) + 6 | Close_reader \<Rightarrow> 2 * (l - t) + 5
   | Filter_next \<Rightarrow> 2 * (l - t) + 4 | Pass_on \<Rightarrow> 2 * (l - t) + 5
   | Close_writer \<Rightarrow> 3 | Close_input \<Rightarrow> 2 | Await_child \<Rightarrow> 1 | _ \<Rightarrow> 0)"

definition work_left :: "nat \<Rightarrow> world \<Rightarrow> nat \<Rightarrow> nat" where
  "work_left n w k =
     (if k \<ge> length (procs w) then 2 * length (stream n (k - 1)) + 11
      else if k = 0 then calls_left_main n (procs w ! 0)
      else calls_left (length (stream n (k - 1))) (reads w (k - 1)) (procs w ! k))"

lemma exited_no_work: "k < length (procs w) \<Longrightarrow> point (procs w ! k) = Exited \<Longrightarrow> work_left n w k = 0"
  by (cases "k = 0") (simp_all add: work_left_def calls_left_main_def calls_left_def)

lemma die_frame: "k < length (procs w) \<Longrightarrow> work_left n (die k w) k = 0"
  by (rule exited_no_work) (simp_all add: die_def)

text \<open>What a call does to the other processes.\<close>

lemma writesome_frame:
  assumes "writesome cap k i x p w = Some w'" "k < length (procs w)"
  shows "w' = die k w \<or> procs w' = (procs w)[k := p] \<and> reads w' = reads w"
proof (cases "i < length (pipes w)")
  case True
  then show ?thesis
    using assms by (auto simp: writesome_def set_pipe_def set_process_def reads_def nth_list_update fun_eq_iff Let_def split: if_splits)
next
  case False
  then show ?thesis
    using assms by (auto simp: writesome_def set_pipe_def set_process_def reads_def fun_eq_iff list_update_beyond Let_def split: if_splits)
qed

lemma act_frame:
  assumes I: "sieve_inv n F w" and k: "k < length (procs w)" and act: "act True cap maxp k w = Some w'"
  shows "length (procs w') = length (procs w) \<or> length (procs w') = Suc (length (procs w)) \<and> point (procs w' ! length (procs w)) \<in> {Close_own_writer, Leave_input}"
    "\<And>j. j < length (procs w) \<Longrightarrow> j \<noteq> k \<Longrightarrow> procs w' ! j = procs w ! j"
    "\<And>i. i < length (pipes w) \<Longrightarrow> Suc i \<noteq> k \<Longrightarrow> reads w' i = reads w i"
proof -
  let ?p = "procs w ! k"
  have rd: "readfd ?p = k - 1 \<and> 0 < k \<and> k - 1 < length (pipes w)" if "point ?p \<in> {Read_first, Filter_next}"
  proof -
    have k0: "0 < k" using that sieve_invD(5) [OF I] by (cases "k = 0") (auto simp: main_ok_def)
    moreover have "k - 1 < length (pipes w)" using pipe_exists(1) [OF sieve_invD(1) [OF I], of "k - 1"] k k0 by simp
    ultimately show ?thesis using that sieve_invD(6) [OF I k0 k] by (auto simp: stage_ok_def started_def)
  qed
  have "\<exists>p'. (w' = die k w \<or> procs w' = (procs w)[k := p'] \<and> (\<forall>i < length (pipes w). Suc i \<noteq> k \<longrightarrow> reads w' i = reads w i)) \<or>
      point ?p = Call_fork"
  proof (cases "point ?p")
    case Create_pipe
    then show ?thesis using act by (auto simp: act_def Let_def set_process_def reads_def nth_append)
  next
    case Generate
    then show ?thesis
      using act writesome_frame [OF _ k] by (fastforce simp: act_def Let_def set_process_def reads_def split: if_splits)
  next
    case Pass_on
    then show ?thesis using act writesome_frame [OF _ k] by (fastforce simp: act_def Let_def)
  next
    case Read_first
    then show ?thesis
      using act rd take_word_view(2) [of "k - 1" w]
      by (auto simp: act_def Let_def print_number_def reads_def split: reading.splits)
  next
    case Filter_next
    then show ?thesis
      using act rd take_word_view(2) [of "k - 1" w]
      by (auto simp: act_def Let_def reads_def split: reading.splits if_splits)
  qed (use act in \<open>auto simp: act_def Let_def set_process_def reads_def split: if_splits\<close>)
  then show "length (procs w') = length (procs w) \<or> length (procs w') = Suc (length (procs w)) \<and> point (procs w' ! length (procs w)) \<in> {Close_own_writer, Leave_input}"
    "\<And>j. j < length (procs w) \<Longrightarrow> j \<noteq> k \<Longrightarrow> procs w' ! j = procs w ! j"
    "\<And>i. i < length (pipes w) \<Longrightarrow> Suc i \<noteq> k \<Longrightarrow> reads w' i = reads w i"
    using act k by (auto simp: die_def act_def fork_process_def Let_def nth_append reads_def set_process_def split: if_splits)
qed


text \<open>The process that makes a call has less to do after it.\<close>

lemma work_left_main: "0 < length (procs w) \<Longrightarrow> work_left n w 0 = calls_left_main n (procs w ! 0)"
  by (simp add: work_left_def)

lemma work_left_stage:
  "0 < k \<Longrightarrow> k < length (procs w) \<Longrightarrow> work_left n w k = calls_left (length (stream n (k - 1))) (reads w (k - 1)) (procs w ! k)"
  by (simp add: work_left_def)

lemma main_decreases:
  assumes I: "sieve_inv n F w" and N: "0 < length (procs w)" and act: "act True cap maxp 0 w = Some w'" and n: "2 \<le> unat n" "n + 1 \<noteq> 0"
  shows "work_left (unat n) w' 0 < work_left (unat n) w 0"
proof -
  note M = sieve_invD(5) [OF I]
  let ?p = "procs w ! 0"
  have d: "work_left (unat n) (die 0 w) 0 = 0" by (rule die_frame [OF N])
  have pos: "point ?p \<noteq> Exited \<Longrightarrow> 0 < work_left (unat n) w 0"
    using M by (cases "point ?p") (simp_all add: work_left_main [OF N] main_ok_def calls_left_main_def)
  show ?thesis
  proof (cases "point ?p = Generate \<and> var_buf ?p \<le> var_n ?p")
    case True
    have b: "unat (var_buf ?p) \<le> unat n" "var_n ?p = n" "fds ?p = 0"
      using True M by (auto simp: main_ok_def word_le_nat_alt)
    have "unat n + 1 < 2 ^ 32"
    proof (rule ccontr)
      assume "\<not> unat n + 1 < 2 ^ 32"
      then have "unat n = 2 ^ 32 - 1" using unat_word_bound [of n] by simp
      then have "unat (n + 1) = 0" by (simp add: unat_word_ariths)
      then show False using n(2) by (simp add: unat_eq_0)
    qed
    then have b1: "unat (var_buf ?p + 1) = Suc (unat (var_buf ?p))" using b(1) by (simp add: unat_word_ariths)
    have "writesome cap 0 0 (var_buf ?p) (?p\<lparr>var_buf := var_buf ?p + 1\<rparr>) w = Some w'"
      using act True b(3) by (simp add: act_def Let_def)
    from writesome_frame [OF this N] show ?thesis
    proof
      assume "w' = die 0 w"
      then show ?thesis using d pos True by simp
    next
      assume w': "procs w' = (procs w)[0 := ?p\<lparr>var_buf := var_buf ?p + 1\<rparr>] \<and> reads w' = reads w"
      then show ?thesis using N True b(1) b1 by (simp add: work_left_def calls_left_main_def)
    qed
  next
    case False
    have simple: ?thesis if "procs w' ! 0 = p'" "0 < length (procs w')" "calls_left_main (unat n) p' < calls_left_main (unat n) ?p" for p'
      using that by (simp add: work_left_main [OF N] work_left_main)
    have f: "fds ?p = 0" "first_process ?p" using M by (simp_all add: main_ok_def)
    consider "point ?p = Create_pipe" | "point ?p = Call_fork" | "point ?p = Close_reader" | "point ?p = Generate" | "point ?p = Await_child"
      | "point ?p = Exited"
      using M by (cases "point ?p") (simp_all add: main_ok_def)
    then show ?thesis
    proof cases
      case 1
      show ?thesis by (rule simple [OF refl]) (use act 1 N in \<open>auto simp: act_def Let_def calls_left_main_def\<close>)
    next
      case 2
      show ?thesis
      proof (cases "w' = die 0 w")
        case True
        then show ?thesis using d pos 2 by simp
      next
        case False
        then have "point (procs w' ! 0) = Close_reader" "0 < length (procs w')"
          using act 2 N by (auto simp: act_def fork_process_def Let_def nth_append split: if_splits)
        then show ?thesis using 2 by (intro simple [OF refl]) (simp_all add: calls_left_main_def)
      qed
    next
      case 3
      have w': "procs w' = (procs w)[0 := ?p\<lparr>ends := ends ?p - {(fds ?p, False)}, point := Generate, var_buf := 2\<rparr>]"
        using act 3 f by (clarsimp simp: act_def Let_def set_process_def)
      show ?thesis by (rule simple [OF refl]) (use w' 3 N n(1) in \<open>simp_all add: calls_left_main_def\<close>)
    next
      case 4
      have w': "procs w' = (procs w)[0 := ?p\<lparr>point := Await_child, ends := ends ?p - {(fds ?p, True)}\<rparr>]"
        using act 4 False by (clarsimp simp: act_def Let_def set_process_def)
      show ?thesis by (rule simple [OF refl]) (use w' 4 N in \<open>simp_all add: calls_left_main_def\<close>)
    next
      case 5
      have w': "procs w' = (procs w)[0 := ?p\<lparr>point := Exited, ends := {}, out_buffer := []\<rparr>]"
        using act 5 by (clarsimp simp: act_def Let_def set_process_def split: if_splits)
      show ?thesis by (rule simple [OF refl]) (use w' 5 N in \<open>simp_all add: calls_left_main_def\<close>)
    next
      case 6
      then show ?thesis using act by (simp add: act_def Let_def)
    qed
  qed
qed

lemma stage_decreases:
  assumes I: "sieve_inv n F w" and k: "0 < k" "k < length (procs w)" and act: "act True cap maxp k w = Some w'"
  shows "work_left (unat n) w' k < work_left (unat n) w k"
proof -
  let ?p = "procs w ! k" and ?l = "length (stream (unat n) (k - 1))" and ?t = "reads w (k - 1)"
  note S = sieve_invD(6) [OF I k]
  have d: "work_left (unat n) (die k w) k = 0" by (rule die_frame [OF k(2)])
  have np: "k - 1 < length (pipes w)" using pipe_exists(1) [OF sieve_invD(1) [OF I], of "k - 1"] k by simp
  have W: "work_left (unat n) w k = calls_left ?l ?t ?p" by (rule work_left_stage [OF k])
  have W': "work_left (unat n) w' k = calls_left ?l (reads w' (k - 1)) (procs w' ! k)" if "k < length (procs w')"
    by (rule work_left_stage [OF k(1) that])
  have simple: ?thesis if "w' = set_process k p' w" "calls_left ?l ?t p' < calls_left ?l ?t ?p" for p'
    using that W W' k by simp
  have rd: "point ?p \<in> {Read_first, Filter_next} \<Longrightarrow> readfd ?p = k - 1" using S by (auto simp: stage_ok_def started_def)
  show ?thesis
  proof (cases "point ?p")
    case Create_pipe
    have "reads w' (k - 1) = ?t"
      using act Create_pipe np by (auto simp: act_def Let_def reads_def set_process_def nth_append)
    moreover have "k < length (procs w')" "point (procs w' ! k) = Call_fork" using act Create_pipe k(2) by (auto simp: act_def Let_def)
    ultimately show ?thesis using W W' Create_pipe by (simp add: calls_left_def)
  next
    case Call_fork
    then show ?thesis
    proof (cases "w' = die k w")
      case False
      then have "reads w' (k - 1) = ?t" "k < length (procs w')" "point (procs w' ! k) = Close_reader"
        using act Call_fork k(2) by (auto simp: act_def fork_process_def Let_def reads_def nth_append split: if_splits)
      then show ?thesis using W W' Call_fork by (simp add: calls_left_def)
    qed (use d W in \<open>simp add: calls_left_def\<close>)
  next
    case Pass_on
    have "writesome cap k (fds ?p) (var_buf ?p) (?p\<lparr>point := Filter_next\<rparr>) w = Some w'" using act Pass_on by (simp add: act_def Let_def)
    from writesome_frame [OF this k(2)] show ?thesis
    proof
      assume "w' = die k w"
      then show ?thesis using d W Pass_on by (simp add: calls_left_def)
    next
      assume "procs w' = (procs w)[k := ?p\<lparr>point := Filter_next\<rparr>] \<and> reads w' = reads w"
      then show ?thesis using W W' k Pass_on by (simp add: calls_left_def)
    qed
  next
    case Read_first
    show ?thesis
    proof (cases "readsome w (k - 1)")
      case (Word x)
      have "procs w' ! k = ?p\<lparr>point := Create_pipe, var_n := x\<rparr>" "k < length (procs w')" "reads w' (k - 1) = Suc ?t"
        using act Read_first rd Word k take_word_view(2) [OF np, of "k - 1"] by (auto simp: act_def print_number_def reads_def Let_def)
      then show ?thesis using W W' Suc_diff_Suc [OF next_word(2) [OF I k Word]] Read_first by (simp add: calls_left_def)
    next
      case End_of_file
      then have "w' = set_process k (?p\<lparr>point := Close_input\<rparr>) w" using act Read_first rd by (simp add: act_def Let_def)
      then show ?thesis by (rule simple) (simp add: Read_first calls_left_def)
    next
      case Blocked
      then show ?thesis using act Read_first rd by (simp add: act_def Let_def)
    qed
  next
    case Filter_next
    show ?thesis
    proof (cases "readsome w (k - 1)")
      case (Word x)
      show ?thesis
      proof (cases "w' = die k w")
        case False
        then have "procs w' ! k = ?p\<lparr>var_buf := x, point := if x mod var_n ?p \<noteq> 0 then Pass_on else Filter_next\<rparr>" "k < length (procs w')"
          "reads w' (k - 1) = Suc ?t"
          using act Filter_next rd Word k take_word_view(2) [OF np, of "k - 1"] by (auto simp: act_def Let_def split: if_splits)
        then show ?thesis using W W' Suc_diff_Suc [OF next_word(2) [OF I k Word]] Filter_next by (simp add: calls_left_def)
      qed (use d W Filter_next in \<open>simp add: calls_left_def\<close>)
    next
      case End_of_file
      then have "w' = set_process k (?p\<lparr>point := Close_writer\<rparr>) w" using act Filter_next rd by (simp add: act_def Let_def)
      then show ?thesis by (rule simple) (simp add: Filter_next calls_left_def)
    next
      case Blocked
      then show ?thesis using act Filter_next rd by (simp add: act_def Let_def)
    qed
  next
    case Leave_input
    then have "w' = set_process k (?p\<lparr>point := Close_own_writer, ends := ends ?p - {(readfd ?p, False)}\<rparr>) w"
      using act by (simp add: act_def Let_def)
    then show ?thesis by (rule simple) (simp add: Leave_input calls_left_def)
  next
    case Close_own_writer
    then have "w' = set_process k (?p\<lparr>point := Read_first, readfd := fds ?p, ends := ends ?p - {(fds ?p, True)}\<rparr>) w"
      using act by (simp add: act_def Let_def)
    then show ?thesis by (rule simple) (simp add: Close_own_writer calls_left_def)
  next
    case Close_reader
    have "\<not> first_process ?p" using S by (simp add: stage_ok_def)
    then have "w' = set_process k (?p\<lparr>ends := ends ?p - {(fds ?p, False)}, point := Filter_next\<rparr>) w"
      using act Close_reader by (simp add: act_def Let_def)
    then show ?thesis by (rule simple) (simp add: Close_reader calls_left_def)
  next
    case Close_writer
    then have "w' = set_process k (?p\<lparr>point := Close_input, ends := ends ?p - {(fds ?p, True)}\<rparr>) w"
      using act by (simp add: act_def Let_def)
    then show ?thesis by (rule simple) (simp add: Close_writer calls_left_def)
  next
    case Close_input
    then have "w' = set_process k (?p\<lparr>point := Await_child, ends := ends ?p - {(readfd ?p, False)}\<rparr>) w"
      using act by (simp add: act_def Let_def)
    then show ?thesis by (rule simple) (simp add: Close_input calls_left_def)
  next
    case Await_child
    then have "procs w' = (procs w)[k := ?p\<lparr>point := Exited, ends := {}, out_buffer := []\<rparr>]" "reads w' = reads w"
      using act by (auto simp: act_def Let_def set_process_def reads_def fun_eq_iff split: if_splits)
    then show ?thesis using W W' k Await_child by (simp add: calls_left_def)
  next
    case Exited
    then show ?thesis using act by (simp add: act_def Let_def)
  next
    case Generate
    then show ?thesis using S by (simp add: stage_ok_def)
  qed
qed

section \<open>No run is longer than \<open>2 n\<^sup>2 + 10 n + 7\<close> calls\<close>

lemma process_bound:
  assumes I: "sieve_inv n True w" and n: "2 \<le> unat n"
  shows "length (procs w) \<le> Suc (unat n)"
proof (cases "length (procs w) \<le> 2")
  case False
  let ?k = "length (procs w) - 1" and ?m = "length (printed w)"
  have k: "0 < ?k" "?k < length (procs w)" "Suc ?k = length (procs w)" "2 \<le> ?k" using False by simp_all
  have "stage_ok (unat n) True ?k True (procs w ! ?k) (words w ?k) (reads w (?k - 1)) (closed (procs w ! (?k - 1))) ?m"
    using sieve_invD(6) [OF I k(1,2)] k(3) by simp
  then have "?k - 1 \<le> ?m" by (cases "point (procs w ! ?k)") (simp_all add: stage_ok_def ended_def)
  then have "?k - 2 < ?m" using k(4) by simp
  then have "stream (unat n) (?k - 2) \<noteq> []" using sieve_invD(3) [OF I] by (simp add: prints_heads_def)
  then have "?k - 2 < unat n - 1" using length_stream [of "unat n" "?k - 2"] by (cases "stream (unat n) (?k - 2)") auto
  then show ?thesis using k(4) by simp
qed (use n in simp)

definition total_work :: "nat \<Rightarrow> world \<Rightarrow> nat" where
  "total_work n w = (\<Sum>k\<le>n. work_left n w k)"

lemma own_work_decreases:
  assumes "sieve_inv n F w" "k < length (procs w)" "act True cap maxp k w = Some w'" "2 \<le> unat n" "n + 1 \<noteq> 0"
  shows "work_left (unat n) w' k < work_left (unat n) w k"
proof (cases "k = 0")
  case True
  then show ?thesis using main_decreases assms by blast
next
  case False
  then show ?thesis using stage_decreases assms by blast
qed

lemma other_work:
  assumes I: "sieve_inv n F w" and k: "k < length (procs w)" and act: "act True cap maxp k w = Some w'" and j: "j \<noteq> k"
  shows "work_left (unat n) w' j \<le> work_left (unat n) w j"
proof -
  note A = act_frame [OF I k act]
  consider "j < length (procs w)" | "j = length (procs w)" "length (procs w') = Suc j" "point (procs w' ! j) \<in> {Close_own_writer, Leave_input}"
    | "j \<ge> length (procs w')" "j \<ge> length (procs w)"
    using A(1) by (cases "j < length (procs w)"; cases "j = length (procs w)"; auto)
  then show ?thesis
  proof cases
    case 1
    have j': "j < length (procs w')" using A(1) 1 by auto
    have p: "procs w' ! j = procs w ! j" using A(2) 1 j by simp
    show ?thesis
    proof (cases "j = 0")
      case True
      then show ?thesis using 1 j' p by (simp add: work_left_def)
    next
      case False
      have "j - 1 < length (pipes w)" using pipe_exists(1) [OF sieve_invD(1) [OF I], of "j - 1"] 1 False by simp
      then have "reads w' (j - 1) = reads w (j - 1)" using A(3) j False by simp
      then show ?thesis using 1 j' p False by (simp add: work_left_def)
    qed
  next
    case 2
    have "0 < j" using 2(1) k by linarith
    then have "work_left (unat n) w' j = calls_left (length (stream (unat n) (j - 1))) (reads w' (j - 1)) (procs w' ! j)"
      by (intro work_left_stage) (simp_all add: 2(2))
    also have "\<dots> \<le> 2 * length (stream (unat n) (j - 1)) + 11" using 2(3) by (auto simp: calls_left_def)
    finally show ?thesis using 2(1) by (simp add: work_left_def)
  qed (simp add: work_left_def)
qed

lemma total_work_decreases:
  assumes I: "sieve_inv n True w" and k: "k < length (procs w)" and act: "act True cap maxp k w = Some w'" and n: "2 \<le> unat n" "n + 1 \<noteq> 0"
  shows "total_work (unat n) w' < total_work (unat n) w"
  unfolding total_work_def
proof (rule sum_strict_mono_ex1)
  show "\<forall>j \<in> {..unat n}. work_left (unat n) w' j \<le> work_left (unat n) w j"
    using other_work [OF I k act] own_work_decreases [OF I k act n] by (metis order_less_imp_le)
  show "\<exists>j \<in> {..unat n}. work_left (unat n) w' j < work_left (unat n) w j"
    using own_work_decreases [OF I k act n] process_bound [OF I n(1)] k by (intro bexI [of _ k]) auto
qed simp

definition call_bound :: "nat \<Rightarrow> nat" where
  "call_bound n = 2 * n * n + 10 * n + 7"

lemma start_work:
  assumes "primes_main n = Some w" "2 \<le> unat n"
  shows "total_work (unat n) w \<le> call_bound (unat n)"
proof -
  let ?n = "unat n"
  have w: "length (procs w) = 1" "point (procs w ! 0) = Create_pipe" using assms(1) by (auto simp: primes_main_def split: if_splits)
  have "work_left ?n w k \<le> 2 * ?n + 9" if "k \<in> {1..?n}" for k
  proof -
    have "length (stream ?n (k - 1)) \<le> ?n - 1" using length_stream [of ?n "k - 1"] by simp
    then have "2 * length (stream ?n (k - 1)) + 2 \<le> 2 * ?n" using assms(2) by linarith
    then show ?thesis using that w(1) by (simp add: work_left_def)
  qed
  then have "(\<Sum>k\<in>{1..?n}. work_left ?n w k) \<le> ?n * (2 * ?n + 9)"
    using sum_bounded_above [of "{1..?n}" "work_left ?n w" "2 * ?n + 9"] by simp
  moreover have "work_left ?n w 0 = ?n + 7" using w by (simp add: work_left_def calls_left_main_def)
  moreover have "{..?n} = insert 0 {1..?n}" by auto
  ultimately show ?thesis by (simp add: total_work_def call_bound_def algebra_simps)
qed

lemma calls_and_work:
  assumes "(sieve_step False True cap maxp ^^ m) w0 w" "primes_main n = Some w0" "n + 1 \<noteq> 0" "unat n + 1 < maxp"
  shows "total_work (unat n) w + m \<le> total_work (unat n) w0"
  using assms(1)
proof (induction m arbitrary: w)
  case (Suc m)
  then obtain v where v: "(sieve_step False True cap maxp ^^ m) w0 v" "sieve_step False True cap maxp v w" by auto
  obtain k where k: "k < length (procs v)" "act True cap maxp k v = Some w" using v(2) by (auto elim: sieve_step.cases)
  have "sieve_inv n True v" using reachable_inv [OF _ assms(2,3)] relpowp_imp_rtranclp [OF v(1)] assms(4) by blast
  then have "total_work (unat n) w < total_work (unat n) v" using total_work_decreases k start_inv [OF assms(2)] assms(3) by blast
  then show ?case using Suc.IH [OF v(1)] by simp
qed simp

text \<open>A run of the processes in a given order is a run.\<close>

lemma run_schedule_steps: "(sieve_step faults tty cap maxp)\<^sup>*\<^sup>* w (run_schedule tty cap maxp ks w)"
proof (induction ks arbitrary: w)
  case (Cons k ks)
  let ?v = "case if k < length (procs w) then act tty cap maxp k w else None of None \<Rightarrow> w | Some w' \<Rightarrow> w'"
  have "(sieve_step faults tty cap maxp)\<^sup>*\<^sup>* w ?v"
  proof (cases "k < length (procs w) \<and> (\<exists>w'. act tty cap maxp k w = Some w')")
    case True
    then obtain w' where "k < length (procs w)" "act tty cap maxp k w = Some w'" by blast
    then show ?thesis by (simp add: r_into_rtranclp [of "sieve_step faults tty cap maxp", OF sieve_step.call])
  next
    case False
    then have "?v = w" by (auto split: option.split)
    then show ?thesis by simp
  qed
  then show ?case unfolding run_schedule.simps by (rule rtranclp_trans [OF _ Cons.IH])
qed simp

lemma primes_mainD: "primes_main n = Some w \<Longrightarrow> 2 \<le> unat n"
  using start_inv [of n w True] by blast

section \<open>What the sieve prints\<close>

text \<open>
  C39. The output of the sieve going to a terminal, and \<open>n\<close> being other than the largest
  \<open>unsigned int\<close> (where the counter wraps): whatever the order of the processes, the size of the
  pipes and the number of processes the system allows, and whichever of the calls of \<open>pipe\<close>,
  \<open>fork\<close>, \<open>read\<close> and \<open>write\<close> the system refuses (\<open>faults\<close>), the numbers printed so far are the first
  primes up to \<open>n\<close>, in order. A refused call, or a write that kills its process, cuts the list short
  and never adds a wrong number. (When the output is redirected the lines come more than once:
  \<open>sieve_redirected_repeats\<close>.)
\<close>

theorem sieve_prints_only_primes:
  assumes "primes_main n = Some w0" "n + 1 \<noteq> 0" "(sieve_step faults True cap maxp)\<^sup>*\<^sup>* w0 w"
  shows "\<exists>rest. filter is_prime [0..<Suc (unat n)] = map unat (printed w) @ rest"
proof -
  have "sieve_inv n False w" by (rule reachable_inv [OF assms(3,1,2)]) simp
  then have P: "prints_heads (unat n) w" by (rule sieve_invD)
  then show ?thesis using prefix_primes [of "length (printed w)" "unat n"] by (simp add: prints_heads_def del: upt_Suc)
qed

text \<open>
  C4. The sieve ends, with its output going to a terminal, \<open>n\<close> other than the largest \<open>unsigned int\<close>,
  pipes that hold at least a word, a system that allows more than \<open>n + 1\<close> processes, and no
  refused call: no run makes more than \<open>2 n\<^sup>2 + 10 n + 7\<close> calls, the processes never block
  each other for ever (a state in which none can move is one in which all have left, so that no process
  stays behind), and then exactly the primes up to \<open>n\<close> have been printed, in order.
\<close>

theorem sieve_ends_with_primes:
  assumes "primes_main n = Some w0" "n + 1 \<noteq> 0" "unat n + 1 < maxp" "0 < cap" "(sieve_step False True cap maxp ^^ m) w0 w"
  shows "m \<le> call_bound (unat n) \<and>
    ((\<exists>w'. sieve_step False True cap maxp w w') \<or>
     (\<forall>p \<in> set (procs w). point p = Exited) \<and> map unat (printed w) = filter is_prime [0..<Suc (unat n)])"
proof
  show "m \<le> call_bound (unat n)"
    using calls_and_work [OF assms(5,1,2,3)] start_work [OF assms(1) primes_mainD [OF assms(1)]] by linarith
  have I: "sieve_inv n True w" using reachable_inv [OF _ assms(1,2)] relpowp_imp_rtranclp [OF assms(5)] assms(3) by blast
  show "(\<exists>w'. sieve_step False True cap maxp w w') \<or>
     (\<forall>p \<in> set (procs w). point p = Exited) \<and> map unat (printed w) = filter is_prime [0..<Suc (unat n)]"
  proof (cases "\<exists>w'. sieve_step False True cap maxp w w'")
    case False
    then have stuck: "act True cap maxp k w = None" if "k < length (procs w)" for k
      using that sieve_step.call [of k w True cap maxp _ False] by (cases "act True cap maxp k w") auto
    show ?thesis using stuck_exited [OF I stuck assms(4)] stuck_primes [OF I stuck assms(4)] by (auto simp: in_set_conv_nth)
  qed blast
qed

text \<open>A run for \<open>n = 3\<close> on pipes of one word: nineteen rounds over the four processes.\<close>

definition rounds :: "nat \<Rightarrow> nat \<Rightarrow> nat list" where
  "rounds m k = concat (replicate m [0..<k])"

text \<open>
  The terminal matters: with the output redirected, every \<open>fork\<close> copies the lines that wait in the
  buffer of its caller, and the run for \<open>n = 3\<close> ends with five lines instead of two.
\<close>

lemma sieve_redirected_repeats:
  "\<exists>w. (sieve_step False False 1 9)\<^sup>*\<^sup>* (the (primes_main 3)) w \<and> list_all (\<lambda>p. point p = Exited) (procs w) \<and>
     printed w = [2, 3, 2, 3, 2]"
proof (intro exI conjI)
  show "(sieve_step False False 1 9)\<^sup>*\<^sup>* (the (primes_main 3)) (run_schedule False 1 9 (rounds 20 4) (the (primes_main 3)))"
    by (rule run_schedule_steps)
qed code_simp+

lemma sieve_prints_only_primes_witness:
  "\<exists>rest. filter is_prime [0..<Suc 3] = [2] @ rest"
proof -
  define w where "w = run_schedule True 1 9 (rounds 8 3) (the (primes_main 3))"
  have "printed w = [2]" unfolding w_def by code_simp
  moreover have "\<exists>rest. filter is_prime [0..<Suc (unat (3 :: u32))] = map unat (printed w) @ rest"
  proof (rule sieve_prints_only_primes)
    show "primes_main 3 = Some (the (primes_main 3))" by (simp add: primes_main_def)
    show "(3 :: u32) + 1 \<noteq> 0" by simp
    show "(sieve_step True True 1 9)\<^sup>*\<^sup>* (the (primes_main 3)) w" unfolding w_def by (rule run_schedule_steps)
  qed
  ultimately show ?thesis by (simp del: upt_Suc)
qed

lemma sieve_ends_with_primes_witness:
  "\<exists>m w. (sieve_step False True 1 9 ^^ m) (the (primes_main 3)) w \<and> printed w = [2, 3] \<and> m \<le> call_bound 3 \<and>
     filter is_prime [0..<Suc 3] = [2, 3]"
proof -
  define w where "w = run_schedule True 1 9 (rounds 19 4) (the (primes_main 3))"
  have p: "printed w = [2, 3]" unfolding w_def by code_simp
  have "list_all (\<lambda>k. Option.is_none (act True 1 9 k w)) [0..<length (procs w)]" unfolding w_def by code_simp
  then have stuck: "\<not> (\<exists>w'. sieve_step False True 1 9 w w')" by (fastforce simp: list_all_iff Option.is_none_def sieve_step.simps)
  have "(sieve_step False True 1 9)\<^sup>*\<^sup>* (the (primes_main 3)) w" unfolding w_def by (rule run_schedule_steps)
  then obtain m where m: "(sieve_step False True 1 9 ^^ m) (the (primes_main 3)) w" by (auto dest: rtranclp_imp_relpowp)
  have "m \<le> call_bound (unat (3 :: u32)) \<and>
    ((\<exists>w'. sieve_step False True 1 9 w w') \<or>
     (\<forall>p \<in> set (procs w). point p = Exited) \<and> map unat (printed w) = filter is_prime [0..<Suc (unat (3 :: u32))])"
  proof (rule sieve_ends_with_primes [OF _ _ _ _ m])
    show "primes_main 3 = Some (the (primes_main 3))" by (simp add: primes_main_def)
  qed simp_all
  then have "m \<le> call_bound 3" "filter is_prime [0..<Suc 3] = [2, 3]" using stuck p by (auto simp del: upt_Suc)
  then show ?thesis using m p by blast
qed

end
