(* ===== verification/Spec2Isabelle.thy ===== *)
theory Spec2Isabelle
  imports FsReach MallocRealloc ShRunSpec JosFair JosRoundRobin JosConsoleSpec JosLock JosKdebugSpec JosPrintfSpec JosEnvSpec JosIpc ForkPrimesEnd
begin

text \<open>
  A verification library for the programs of this repository, the assignments of an operating
  systems course: a FUSE file system (fisopfs/), a replacement of the C allocator (malloc/), a
  shell (shell/), the JOS kernel with its scheduler (sched/) and a few utilities (fork/).

  \<^bold>\<open>How programs are modelled.\<close> Functions of the code are HOL functions on an explicit state: a
  record with the globals of the program. Raw memory is a function from addresses to bytes or
  words, and structs in it are read and written field by field at their offsets, so aliasing,
  overlap and overruns are those of the code. Machine integers that matter are words of
  their width or numbers with the modulus written out. Executions that leave the defined
  behaviour of C, and traversals that never end, are \<open>None\<close>; panics of the kernel are a value of
  its outcome type. Code outside the repository is a parameter: \<open>mmap\<close> and \<open>munmap\<close> are functions
  in the record \<open>os\<close>, the answers of device ports are lists in the state of the console.

  \<^bold>\<open>Prelude\<close> holds bytes, little-endian numbers and C strings in a byte memory.

  \<^bold>\<open>fisopfs\<close> (fisopfs/bitmap.c, fisopfs.c). \<open>Bitmap\<close>: the bit array and that \<open>get_free_bit\<close> finds
  the first clear bit. \<open>FsLayout\<close>: constants, inodes, superblock, the record \<open>fs\<close>, the
  accessors. \<open>FsFile\<close>: \<open>write_file\<close>, \<open>shrink_file\<close>, reading. \<open>FsDir\<close>: directory entries, path
  walk, insertion and removal. \<open>FsOps\<close>: the FUSE handlers, mounting and saving. The lemma
  theories: \<open>FsBlocks\<close> (every block is owned by one file), \<open>FsContent\<close> and \<open>FsWrite\<close> (contents as
  byte lists; reading returns what was written), \<open>FsDirSpec\<close> and \<open>FsUnlink\<close> (a directory is a
  map from names to inodes), \<open>FsPath\<close> (paths as lists of names), \<open>FsInvariant\<close>, \<open>FsHandlers\<close> and
  \<open>FsReach\<close> (the invariant of every reachable state, and what each handler does to it).

  \<^bold>\<open>malloc\<close> (malloc/malloc.c). \<open>Malloc\<close>: headers in a byte memory, the two search policies,
  splitting, merging, growing and releasing blocks, and the public functions. The searches
  are partial functions, because a damaged list may be cyclic. \<open>MallocRegions\<close> and \<open>MallocEdit\<close>:
  the regions of a block as a list that tiles it, and what splitting and merging do to the
  list; \<open>MallocHeap\<close> and \<open>MallocLists\<close>: the invariant of the heap, with the blocks of all
  three lists, and what the searches return; \<open>MallocAlloc\<close>, \<open>MallocFree\<close>, \<open>MallocRealloc\<close>: the
  promises of the public functions. The hypotheses \<open>mmap_ok\<close> and \<open>munmap_ok\<close> are the documented
  behaviour of the two system calls.

  \<^bold>\<open>The shell\<close> (shell/). \<open>ShParse\<close>: the line buffer as a list of characters that tokens point into,
  the command tree and the parser (parsing.c, utils.c, createcmd.c, freecmd.c). \<open>ShHistory\<close>: the
  history and the line editor (history.c, readline.c). \<open>ShRun\<close>: builtins, redirections, pipes
  and waiting (builtin.c, exec.c, runcmd.c, printstatus.c); the descriptors of a process are a
  map, and \<open>open\<close>, \<open>pipe\<close>, \<open>fork\<close>, \<open>chdir\<close> and \<open>waitpid\<close> are parameters with the contracts \<open>open_ok\<close> and
  \<open>pipe_ok\<close>. \<open>ShParseSpec\<close> and \<open>ShRunSpec\<close>: parsing reads back what was printed, which commands
  stale text adds, how a pipeline is connected, and what the history shows.

  \<^bold>\<open>The JOS kernel\<close> (sched/kern, sched/inc). \<open>JosPmap\<close>: physical pages and page tables (pmap.c,
  mmu.h, memlayout.h). \<open>JosConsole\<close>: keyboard, input ring and display (console.c). \<open>JosEnv\<close>:
  the table of environments, program loading, switching, the record \<open>kernel\<close> and the type
  \<open>outcome\<close> of a kernel function (env.c). \<open>JosSched\<close>: both schedulers (sched.c). \<open>JosSyscall\<close>
  and \<open>JosTrap\<close>: system calls and traps (syscall.c, trap.c). \<open>JosLock\<close>: the big kernel lock as
  steps of any number of CPUs (spinlock.c). The kernel model is what one CPU does between
  taking and releasing that lock.

  The lemma theories of the kernel: \<open>JosSchedSpec\<close> states what the search loops compute and the
  contract of a scheduling policy as a locale, which both policies interpret; \<open>JosYield\<close> what
  yielding does under that contract; \<open>JosRoundRobin\<close> that no environment starves under round
  robin; \<open>JosFair\<close> what the lottery draws and where it is unfair. \<open>JosEnvInv\<close>, \<open>JosEnvKeeps\<close>,
  \<open>JosSyscallInv\<close> and \<open>JosEnvSpec\<close>: the invariant of the environment table, that every operation,
  system call and trap keeps it, identifiers and protection. \<open>JosPages\<close>,
  \<open>JosPageOps\<close>, \<open>JosPageSpec\<close> and \<open>JosPageProps\<close>: address spaces as functions from addresses to
  entries, the invariant that ties tables, free list and reference counts together, and the
  page operations as point updates of those functions. \<open>JosConsoleSpec\<close>: the input ring as a
  queue, for any input device, and that the display is never overrun.

  \<^bold>\<open>Library code of JOS.\<close> \<open>JosKdebug\<close>: the search of the debugging tables (kdebug.c, stab.h);
  \<open>JosKdebugSpec\<close> that it ends on every table and brackets the address on a sorted one, unless two entries lie at
  the address and at the one behind it.
  \<open>JosString\<close> (lib/string.c) works on a memory with 32-bit addresses; \<open>JosStringSpec\<close> shows that
  moves and fills by words and by bytes are those of whole blocks. \<open>JosPrintf\<close> (lib/printfmt.c,
  lib/printf.c): the format interpreter over any character output; \<open>JosPrintfSpec\<close>: an interface
  between two outputs, under which every format comes to corresponding states when single characters do; so the
  bounded buffer of \<open>vsnprintf\<close> and the pieces of \<open>cprintf\<close> show the text of an unbounded output; and
  the round trip of a number through \<open>vsnprintf\<close> and \<open>strtol\<close>. The \<open>int\<close>s for widths and counts are numbers;
  a width in the format or a text that does not fit into an \<open>int\<close> is undefined.

  \<^bold>\<open>User programs of JOS\<close> (sched/lib). \<open>JosUser\<close>: the system call stubs, \<open>fork\<close>, the handler of
  copy-on-write faults and messages, as a program that runs in the current environment of the
  kernel model: a system call is the dispatch of \<open>JosSyscall\<close>, and memory is reached through the
  page tables, also the tables themselves at \<open>uvpt\<close>. \<open>JosUserPages\<close>: what one page call does to
  the address spaces, and what the program reads at \<open>uvpt\<close>. \<open>JosForkSpec\<close>: \<open>fork\<close> shares the
  pages of the parent copy-on-write with the child. \<open>JosPgfault\<close>: the handler gives the program a
  page of its own; and a mapping the kernel should have refused. \<open>JosIpc\<close>: a message with a page shares the page of the
  sender with the receiver. No interrupt arrives between two
  steps of a program, and \<open>resume\<close> stands for the other programs while one waits.

  \<^bold>\<open>The prime sieve\<close> (fork/primes.c, fork/util.c). \<open>ForkPrimes\<close>: processes that share pipes, one step
  for one call of one process, so that every schedule is a run, and with \<open>faults\<close> the system may refuse any call of
  \<open>pipe\<close>, \<open>fork\<close>, \<open>read\<close> and \<open>write\<close>. \<open>ForkPrimesSpec\<close>: the streams
  of the sieve as lists, the invariant that ties each process to its place in the chain, and that a
  state in which nobody can move is the final one; \<open>ForkPrimesEnd\<close>: every run without refused calls is finite, and
  the numbers printed on a terminal are the primes. On redirected output the lines repeat.

  \<^bold>\<open>Bounds and fuel.\<close> The loops of the code with a counter are recursions on the number of
  iterations left, which the callers compute as the code does. The only fuel is that of the
  string conversion of \<open>sys_cputs\<close>: \<open>2 ^ 32\<close> bytes, the whole address space, after which
  the code would go round again.

  \<^bold>\<open>Not modelled.\<close> Left out for good: the FUSE library and \<open>main\<close>, debugging output, the terminal
  set-up of the shell, the detection of memory, descriptor tables and interrupt controllers
  (port programming without logic), assembly, tests, the other utilities of fork/ and the
  user programs of the course, which are a few system calls each. Within modelled parts: errors of the host file
  that the file system is saved to and loaded from, \<open>errno\<close> in malloc, what the shell process that waits for a pipeline does
  with its own ends of the pipe and with the exit status, and the accesses of a JOS user program to its own stack. Physical memory is
  sequentially consistent, and the translation cache is only a list of flushed addresses.
\<close>

end
